(* ===== verification/Prelude.thy ===== *)
theory Prelude
  imports Main "HOL-Library.Word" "HOL-Library.Char_ord" "HOL-Library.List_Lexorder"
    "HOL-Library.Product_Lexorder"
begin

text \<open>
  Shared vocabulary of the development: the machine types of the Rust sources, the
  big-endian byte encodings, saturating arithmetic on 64-bit integers, ASCII string
  helpers, and the two key-value containers every component uses (the ordered tree
  of the database and the concurrent map of the server state) behind one interface.
\<close>

unbundle bit_operations_syntax

named_theorems kv_simps \<open>lookup after insertion and removal in the key-value containers\<close>
named_theorems perm_simps \<open>membership of single permission flags\<close>
named_theorems frame_simps \<open>fields an operation leaves alone\<close>

section \<open>Machine types\<close>

type_synonym u8 = "8 word"
type_synonym u16 = "16 word"
type_synonym u32 = "32 word"
type_synonym u64 = "64 word"
type_synonym i64 = "64 word"
type_synonym bytes = "8 word list"
type_synonym uuid = "128 word"
type_synonym key32 = "256 word"

text \<open>The \<open>Result\<close> of the sources: \<open>Inl\<close> carries the error, \<open>Inr\<close> the value.\<close>

type_synonym 'a outcome = "string + 'a"

section \<open>Byte encodings\<close>

fun nat_to_be :: "nat \<Rightarrow> nat \<Rightarrow> bytes" where
  "nat_to_be 0 x = []"
| "nat_to_be (Suc n) x = nat_to_be n (x div 256) @ [word_of_nat (x mod 256)]"

definition nat_of_be :: "bytes \<Rightarrow> nat" where
  "nat_of_be bs = foldl (\<lambda>acc b. acc * 256 + unat b) 0 bs"

definition to_be_bytes :: "nat \<Rightarrow> 'a::len word \<Rightarrow> bytes" where
  "to_be_bytes n w = nat_to_be n (unat w)"

definition to_le_bytes :: "nat \<Rightarrow> 'a::len word \<Rightarrow> bytes" where
  "to_le_bytes n w = rev (nat_to_be n (unat w))"

definition from_be_bytes :: "bytes \<Rightarrow> 'a::len word" where
  "from_be_bytes bs = word_of_nat (nat_of_be bs)"

definition from_le_bytes :: "bytes \<Rightarrow> 'a::len word" where
  "from_le_bytes bs = word_of_nat (nat_of_be (rev bs))"

lemma length_nat_to_be [simp]: "length (nat_to_be n x) = n"
  by (induction n x rule: nat_to_be.induct) auto

lemma nat_of_be_snoc: "nat_of_be (bs @ [b]) = nat_of_be bs * 256 + unat b"
  by (simp add: nat_of_be_def)

lemma unat_byte_of_nat: "unat (word_of_nat (x mod 256) :: u8) = x mod 256"
  by (simp add: unat_of_nat)

lemma nat_of_be_to_be: "nat_of_be (nat_to_be n x) = x mod 256 ^ n"
proof (induction n x rule: nat_to_be.induct)
  case (1 x)
  show ?case by (simp add: nat_of_be_def)
next
  case (2 n x)
  then show ?case
    by (simp add: nat_of_be_snoc unat_byte_of_nat mod_mult2_eq mult.commute)
qed

lemma nat_to_be_of_be: "nat_to_be (length bs) (nat_of_be bs) = bs"
proof (induction bs rule: rev_induct)
  case Nil
  show ?case by (simp add: nat_of_be_def)
next
  case (snoc b bs)
  have lt: "unat b < 256" using unsigned_less [of b] by simp
  then have "(nat_of_be bs * 256 + unat b) div 256 = nat_of_be bs"
    and "(nat_of_be bs * 256 + unat b) mod 256 = unat b"
    by simp_all
  with snoc show ?case by (simp add: nat_of_be_snoc)
qed

lemma nat_of_be_lt: "nat_of_be bs < 256 ^ length bs"
proof -
  have "nat_of_be bs = nat_of_be (nat_to_be (length bs) (nat_of_be bs))"
    by (simp add: nat_to_be_of_be)
  also have "\<dots> = nat_of_be bs mod 256 ^ length bs"
    by (rule nat_of_be_to_be)
  also have "\<dots> < 256 ^ length bs" by simp
  finally show ?thesis .
qed

lemma length_to_be_bytes [simp]: "length (to_be_bytes n w) = n"
  by (simp add: to_be_bytes_def)

lemma length_to_le_bytes [simp]: "length (to_le_bytes n w) = n"
  by (simp add: to_le_bytes_def)

lemma unat_lt_bytes: "LENGTH('a::len) \<le> 8 * n \<Longrightarrow> unat (w :: 'a word) < 256 ^ n"
proof -
  assume le: "LENGTH('a) \<le> 8 * n"
  have "unat w < 2 ^ LENGTH('a)" by (rule unsigned_less)
  also have "\<dots> \<le> (2::nat) ^ (8 * n)" using le by simp
  also have "\<dots> = 256 ^ n" by (simp add: power_mult)
  finally show ?thesis .
qed

lemma from_to_be_bytes:
  "LENGTH('a::len) \<le> 8 * n \<Longrightarrow> from_be_bytes (to_be_bytes n (w :: 'a word)) = w"
  using unat_lt_bytes [of n w]
  by (simp add: from_be_bytes_def to_be_bytes_def nat_of_be_to_be)

lemma to_from_be_bytes:
  assumes "length bs = n" and "LENGTH('a::len) = 8 * n"
  shows "to_be_bytes n (from_be_bytes bs :: 'a word) = bs"
proof -
  have "nat_of_be bs < 2 ^ LENGTH('a)"
    using nat_of_be_lt [of bs] assms by (simp add: power_mult)
  then have "unat (from_be_bytes bs :: 'a word) = nat_of_be bs"
    by (simp add: from_be_bytes_def unat_of_nat)
  then show ?thesis using nat_to_be_of_be [of bs] assms by (simp add: to_be_bytes_def)
qed

lemma to_be_bytes_inject:
  "LENGTH('a::len) \<le> 8 * n \<Longrightarrow> (to_be_bytes n v = to_be_bytes n w) = (v = (w :: 'a word))"
  by (metis from_to_be_bytes)

lemma to_le_bytes_inject:
  "LENGTH('a::len) \<le> 8 * n \<Longrightarrow> (to_le_bytes n v = to_le_bytes n w) = (v = (w :: 'a word))"
  by (metis to_be_bytes_inject to_be_bytes_def to_le_bytes_def rev_rev_ident)

section \<open>Saturating 64-bit arithmetic\<close>

definition i64_saturate :: "int \<Rightarrow> i64" where
  "i64_saturate x = word_of_int (max (- (2 ^ 63)) (min (2 ^ 63 - 1) x))"

definition i64_saturating_sub :: "i64 \<Rightarrow> i64 \<Rightarrow> i64" where
  "i64_saturating_sub a b = i64_saturate (sint a - sint b)"

definition i64_saturating_abs :: "i64 \<Rightarrow> i64" where
  "i64_saturating_abs a = i64_saturate \<bar>sint a\<bar>"

definition u64_saturating_add :: "u64 \<Rightarrow> u64 \<Rightarrow> u64" where
  "u64_saturating_add a b = (if unat a + unat b < 2 ^ 64 then a + b else - 1)"

lemma sint_i64_bounds: "- (2 ^ 63) \<le> sint (a :: i64)" "sint (a :: i64) \<le> 2 ^ 63 - 1"
  using sint_ge [of a] sint_lt [of a] by simp_all

lemma sint_i64_saturate: "sint (i64_saturate x) = max (- (2 ^ 63)) (min (2 ^ 63 - 1) x)"
  unfolding i64_saturate_def
  by (subst sint_sbintrunc') (simp add: signed_take_bit_int_eq_self_iff)

lemma unat_u64_saturating_add:
  "unat (u64_saturating_add a b) = min (unat a + unat b) (2 ^ 64 - 1)"
proof (cases "unat a + unat b < 2 ^ 64")
  case True
  then have "unat (a + b) = unat a + unat b" by (simp add: unat_word_ariths)
  with True show ?thesis by (simp add: u64_saturating_add_def)
next
  case False
  have "unat (- 1 :: u64) = 2 ^ 64 - 1" by (simp add: unsigned_minus_1_eq_mask mask_eq_exp_minus_1)
  with False show ?thesis by (simp add: u64_saturating_add_def)
qed

section \<open>ASCII strings\<close>

text \<open>
  A Rust \<open>String\<close> is its UTF-8 byte sequence; each byte is one \<^typ>\<open>char\<close>. The ASCII
  case operations touch the bytes 65 to 90 only.
\<close>

definition ascii_lower :: "char \<Rightarrow> char" where
  "ascii_lower c =
     (if 65 \<le> (of_char c :: nat) \<and> (of_char c :: nat) \<le> 90
      then char_of ((of_char c :: nat) + 32) else c)"

definition to_ascii_lowercase :: "string \<Rightarrow> string" where
  "to_ascii_lowercase s = map ascii_lower s"

definition eq_ignore_ascii_case :: "string \<Rightarrow> string \<Rightarrow> bool" where
  "eq_ignore_ascii_case s t \<longleftrightarrow> to_ascii_lowercase s = to_ascii_lowercase t"

lemma eq_ignore_ascii_case_refl [simp]: "eq_ignore_ascii_case s s"
  by (simp add: eq_ignore_ascii_case_def)

lemma eq_ignore_ascii_case_sym: "eq_ignore_ascii_case s t = eq_ignore_ascii_case t s"
  by (auto simp: eq_ignore_ascii_case_def)

lemma eq_ignore_ascii_case_trans:
  "eq_ignore_ascii_case s t \<Longrightarrow> eq_ignore_ascii_case t u \<Longrightarrow> eq_ignore_ascii_case s u"
  by (simp add: eq_ignore_ascii_case_def)

definition string_bytes :: "string \<Rightarrow> bytes" where
  "string_bytes s = map (\<lambda>c. word_of_nat (of_char c)) s"

lemma string_bytes_inject [simp]: "(string_bytes s = string_bytes t) = (s = t)"
proof -
  have "inj (\<lambda>c. word_of_nat (of_char c) :: u8)"
  proof (rule injI)
    fix c d :: char
    assume "(word_of_nat (of_char c) :: u8) = word_of_nat (of_char d)"
    then have "(of_char c :: nat) mod 256 = of_char d mod 256"
      by (simp add: word_of_nat_eq_iff take_bit_eq_mod)
    then show "c = d" by simp
  qed
  then show ?thesis by (simp add: string_bytes_def)
qed

lemma length_string_bytes [simp]: "length (string_bytes s) = length s"
  by (simp add: string_bytes_def)

definition quoted :: "string \<Rightarrow> string" where
  "quoted s = CHR 0x27 # s @ [CHR 0x27]"

fun decimal :: "nat \<Rightarrow> string" where
  "decimal n = (if n < 10 then [char_of (48 + n)]
                else decimal (n div 10) @ [char_of (48 + n mod 10)])"

declare decimal.simps [simp del]

section \<open>Lists\<close>

text \<open>\<open>Vec::retain\<close> keeps the elements that satisfy the predicate, in order.\<close>

abbreviation retain :: "('a \<Rightarrow> bool) \<Rightarrow> 'a list \<Rightarrow> 'a list" where
  "retain \<equiv> filter"

text \<open>\<open>push\<close> of an element unless the vector contains it.\<close>

definition push_new :: "'a \<Rightarrow> 'a list \<Rightarrow> 'a list" where
  "push_new x xs = (if x \<in> set xs then xs else xs @ [x])"

lemma set_push_new [simp]: "set (push_new x xs) = insert x (set xs)"
  by (auto simp: push_new_def)

lemma distinct_push_new [simp]: "distinct (push_new x xs) = distinct xs"
  by (auto simp: push_new_def)

lemma set_fold_push_new [simp]: "set (fold push_new ys xs) = set xs \<union> set ys"
  by (induction ys arbitrary: xs) auto

lemma distinct_fold_push_new [simp]: "distinct (fold push_new ys xs) = distinct xs"
  by (induction ys arbitrary: xs) auto

lemma filter_eq_singleton: "distinct xs \<Longrightarrow> x \<in> set xs \<Longrightarrow> filter (\<lambda>y. y = x) xs = [x]"
  by (induction xs) (auto simp: filter_empty_conv)

text \<open>The first element that satisfies the predicate is changed, the rest is kept.\<close>

fun update_first :: "('a \<Rightarrow> bool) \<Rightarrow> ('a \<Rightarrow> 'a) \<Rightarrow> 'a list \<Rightarrow> 'a list" where
  "update_first P f [] = []"
| "update_first P f (x # xs) = (if P x then f x # xs else x # update_first P f xs)"

lemma length_update_first [simp]: "length (update_first P f xs) = length xs"
  by (induction xs) auto

lemma update_first_none: "\<forall>x \<in> set xs. \<not> P x \<Longrightarrow> update_first P f xs = xs"
  by (induction xs) auto

lemma map_update_first:
  "(\<And>x. P x \<Longrightarrow> g (f x) = g x) \<Longrightarrow> map g (update_first P f xs) = map g xs"
  by (induction xs) auto

lemma set_update_first_distinct:
  assumes "distinct (map key xs)" and "\<And>x. P x \<longleftrightarrow> key x = k"
  shows "set (update_first P f xs) = (\<lambda>x. if P x then f x else x) ` set xs"
  using assms(1)
proof (induction xs)
  case (Cons x xs)
  show ?case
  proof (cases "P x")
    case True
    with Cons.prems have none: "\<not> P y" if "y \<in> set xs" for y
      using that assms(2) by (metis distinct.simps(2) image_eqI list.simps(9) set_map)
    have "(\<lambda>x. if P x then f x else x) ` set xs = (\<lambda>x. x) ` set xs"
      by (rule image_cong) (simp_all add: none)
    with True show ?thesis by simp
  next
    case False
    with Cons show ?thesis by simp
  qed
qed simp

lemma find_Some_set: "List.find P xs = Some x \<Longrightarrow> x \<in> set xs \<and> P x"
  by (auto simp: find_Some_iff)

lemma find_distinct_key:
  assumes "distinct (map key xs)" and "x \<in> set xs" and "key x = k"
  shows "List.find (\<lambda>y. key y = k) xs = Some x"
  using assms by (induction xs) (auto simp: rev_image_eqI)

lemma find_None_key: "(List.find (\<lambda>y. key y = k) xs = None) = (k \<notin> key ` set xs)"
  by (auto simp: find_None_iff)

section \<open>Key-value containers\<close>

text \<open>
  The interface the server components rely on: a lookup function that an insertion and
  a removal update at one key, an invariant both keep, and an enumeration of the
  entries that agrees with the lookup. Every fact about the database trees and the
  server's concurrent maps is used through it.
\<close>

locale kv_store =
  fixes get :: "'m \<Rightarrow> 'k \<Rightarrow> 'v option"
    and put :: "'k \<Rightarrow> 'v \<Rightarrow> 'm \<Rightarrow> 'm"
    and del :: "'k \<Rightarrow> 'm \<Rightarrow> 'm"
    and entries :: "'m \<Rightarrow> ('k \<times> 'v) list"
    and ok :: "'m \<Rightarrow> bool"
  assumes get_put: "get (put k v m) = (get m)(k \<mapsto> v)"
    and get_del: "get (del k m) = (get m)(k := None)"
    and ok_put: "ok m \<Longrightarrow> ok (put k v m)"
    and ok_del: "ok m \<Longrightarrow> ok (del k m)"
    and entries_get: "ok m \<Longrightarrow> (k, v) \<in> set (entries m) \<longleftrightarrow> get m k = Some v"
    and entries_distinct: "ok m \<Longrightarrow> distinct (map fst (entries m))"
begin

lemma put_commute: "k \<noteq> k' \<Longrightarrow> get (put k v (put k' v' m)) = get (put k' v' (put k v m))"
  by (simp add: get_put fun_upd_twist)

lemma put_idem: "get (put k v (put k v' m)) = get (put k v m)"
  by (simp add: get_put)

lemma del_put: "get (del k (put k v m)) = (get m)(k := None)"
  by (simp add: get_put get_del)

lemma get_fold_del: "get (fold del ks m) k = (if k \<in> set ks then None else get m k)"
  by (induction ks arbitrary: m) (auto simp: get_del)

lemma ok_fold_del: "ok m \<Longrightarrow> ok (fold del ks m)"
  by (induction ks arbitrary: m) (auto simp: ok_del)

lemma entries_put:
  "ok m \<Longrightarrow> (k', v') \<in> set (entries (put k v m)) \<longleftrightarrow>
     (if k' = k then v' = v else (k', v') \<in> set (entries m))"
  by (auto simp: entries_get ok_put get_put)

lemma entries_del:
  "ok m \<Longrightarrow> (k', v') \<in> set (entries (del k m)) \<longleftrightarrow> k' \<noteq> k \<and> (k', v') \<in> set (entries m)"
  by (auto simp: entries_get ok_del get_del)

lemma entries_keys: "ok m \<Longrightarrow> k \<in> fst ` set (entries m) \<longleftrightarrow> get m k \<noteq> None"
proof
  assume m: "ok m" and "k \<in> fst ` set (entries m)"
  then obtain v where "(k, v) \<in> set (entries m)" by auto
  with m show "get m k \<noteq> None" by (simp add: entries_get)
next
  assume m: "ok m" and "get m k \<noteq> None"
  then obtain v where "(k, v) \<in> set (entries m)" by (auto simp: entries_get)
  then show "k \<in> fst ` set (entries m)" by force
qed

end

subsection \<open>Ordered trees\<close>

text \<open>
  A database tree is represented by its contents: the entries in ascending key order,
  which is the order its iterator yields. Keys of the server's trees are fixed-width
  byte strings (read as big-endian words, whose order is the lexicographic byte order),
  UTF-8 names, or a fixed-width key followed by a name.
\<close>

type_synonym ('k, 'v) tree = "('k \<times> 'v) list"

fun tree_insert :: "'k::linorder \<Rightarrow> 'v \<Rightarrow> ('k, 'v) tree \<Rightarrow> ('k, 'v) tree" where
  "tree_insert k v [] = [(k, v)]"
| "tree_insert k v ((a, b) # t) =
     (if k < a then (k, v) # (a, b) # t
      else if k = a then (k, v) # t
      else (a, b) # tree_insert k v t)"

definition tree_remove :: "'k \<Rightarrow> ('k, 'v) tree \<Rightarrow> ('k, 'v) tree" where
  "tree_remove k t = filter (\<lambda>e. fst e \<noteq> k) t"

abbreviation tree_get :: "('k, 'v) tree \<Rightarrow> 'k \<Rightarrow> 'v option" where
  "tree_get \<equiv> map_of"

definition tree_contains :: "('k, 'v) tree \<Rightarrow> 'k \<Rightarrow> bool" where
  "tree_contains t k \<longleftrightarrow> tree_get t k \<noteq> None"

definition tree_ok :: "('k::linorder, 'v) tree \<Rightarrow> bool" where
  "tree_ok t \<longleftrightarrow> sorted_wrt (<) (map fst t)"

lemma tree_get_insert: "tree_get (tree_insert k v t) = (tree_get t)(k \<mapsto> v)"
  by (induction k v t rule: tree_insert.induct) (auto simp: fun_upd_twist)

lemma tree_get_remove: "tree_get (tree_remove k t) = (tree_get t)(k := None)"
  by (induction t) (auto simp: tree_remove_def fun_eq_iff)

lemma fst_tree_insert: "fst ` set (tree_insert k v t) = insert k (fst ` set t)"
  by (induction k v t rule: tree_insert.induct) auto

lemma tree_ok_insert: "tree_ok t \<Longrightarrow> tree_ok (tree_insert k v t)"
proof (induction t)
  case (Cons e t)
  obtain a b where e: "e = (a, b)" by (cases e)
  from Cons.prems have ht: "\<forall>x \<in> fst ` set t. a < x" and tt: "tree_ok t"
    by (auto simp: tree_ok_def e)
  have "\<forall>x \<in> fst ` set (tree_insert k v t). a < x" if "a < k"
    using ht that by (simp add: fst_tree_insert)
  with Cons.IH [OF tt] ht tt show ?case
    by (auto simp: tree_ok_def e)
qed (simp add: tree_ok_def)

lemma tree_ok_filter: "tree_ok t \<Longrightarrow> tree_ok (filter P t)"
  by (simp add: tree_ok_def sorted_wrt_map sorted_wrt_filter)

lemma tree_ok_remove: "tree_ok t \<Longrightarrow> tree_ok (tree_remove k t)"
  by (simp add: tree_remove_def tree_ok_filter)

lemma tree_ok_distinct: "tree_ok t \<Longrightarrow> distinct (map fst t)"
  by (simp add: tree_ok_def strict_sorted_iff)

lemma tree_ok_Nil [simp]: "tree_ok []"
  by (simp add: tree_ok_def)

interpretation tr: kv_store tree_get tree_insert tree_remove "\<lambda>t. t" tree_ok
  by unfold_locales
    (auto simp: tree_get_insert tree_get_remove tree_ok_insert tree_ok_remove
      tree_ok_distinct map_of_eq_Some_iff)

subsection \<open>Concurrent maps\<close>

text \<open>
  A \<open>DashMap\<close> is represented by its entries; the order of the list stands for the
  unspecified iteration order.
\<close>

type_synonym ('k, 'v) dashmap = "('k \<times> 'v) list"

abbreviation dm_get :: "('k, 'v) dashmap \<Rightarrow> 'k \<Rightarrow> 'v option" where
  "dm_get \<equiv> map_of"

definition dm_insert :: "'k \<Rightarrow> 'v \<Rightarrow> ('k, 'v) dashmap \<Rightarrow> ('k, 'v) dashmap" where
  "dm_insert k v m = (k, v) # filter (\<lambda>e. fst e \<noteq> k) m"

definition dm_remove :: "'k \<Rightarrow> ('k, 'v) dashmap \<Rightarrow> ('k, 'v) dashmap" where
  "dm_remove k m = filter (\<lambda>e. fst e \<noteq> k) m"

definition dm_ok :: "('k, 'v) dashmap \<Rightarrow> bool" where
  "dm_ok m \<longleftrightarrow> distinct (map fst m)"

lemma dm_get_remove: "dm_get (dm_remove k m) = (dm_get m)(k := None)"
  by (induction m) (auto simp: dm_remove_def fun_eq_iff)

lemma dm_get_insert: "dm_get (dm_insert k v m) = (dm_get m)(k \<mapsto> v)"
  using dm_get_remove [of k m] by (simp add: dm_insert_def dm_remove_def)

lemma dm_ok_remove: "dm_ok m \<Longrightarrow> dm_ok (dm_remove k m)"
  by (simp add: dm_ok_def dm_remove_def distinct_map_filter)

lemma dm_ok_insert: "dm_ok m \<Longrightarrow> dm_ok (dm_insert k v m)"
  by (auto simp: dm_ok_def dm_insert_def distinct_map_filter)

lemma dm_ok_Nil [simp]: "dm_ok []"
  by (simp add: dm_ok_def)

lemma dm_ok_distinct: "dm_ok m \<Longrightarrow> distinct (map fst m)"
  by (simp add: dm_ok_def)

interpretation dm: kv_store dm_get dm_insert dm_remove "\<lambda>m. m" dm_ok
  by unfold_locales
    (auto simp: dm_get_insert dm_get_remove dm_ok_insert dm_ok_remove dm_ok_distinct
      map_of_eq_Some_iff)

lemmas [kv_simps] = tree_get_insert tree_get_remove dm_get_insert dm_get_remove

end
