(* ===== verification/Permissions.thy ===== *)
theory Permissions
  imports Prelude
begin

text \<open>
  Permission flags and the evaluation of room access control lists
  (\<open>rumble-protocol/src/permissions.rs\<close>). A flag set is the 32-bit word of its bits;
  the operators of the flag type are the bitwise ones, complement being truncated to the
  declared flags. The second half relates the evaluation loop to a declarative reading:
  the last applicable entry that mentions a flag decides it.
\<close>

section \<open>Flags\<close>

type_synonym permissions = u32

definition TRAVERSE :: permissions where "TRAVERSE = 0x001"
definition ENTER :: permissions where "ENTER = 0x002"
definition SPEAK :: permissions where "SPEAK = 0x004"
definition TEXT_MESSAGE :: permissions where "TEXT_MESSAGE = 0x008"
definition SHARE_FILE :: permissions where "SHARE_FILE = 0x010"
definition MUTE_DEAFEN :: permissions where "MUTE_DEAFEN = 0x020"
definition MOVE_USER :: permissions where "MOVE_USER = 0x040"
definition MAKE_ROOM :: permissions where "MAKE_ROOM = 0x080"
definition MODIFY_ROOM :: permissions where "MODIFY_ROOM = 0x100"
definition WRITE :: permissions where "WRITE = 0x200"
definition KICK :: permissions where "KICK = 0x10000"
definition BAN :: permissions where "BAN = 0x20000"
definition REGISTER :: permissions where "REGISTER = 0x40000"
definition SELF_REGISTER :: permissions where "SELF_REGISTER = 0x80000"
definition MANAGE_ACL :: permissions where "MANAGE_ACL = 0x100000"
definition SUDO :: permissions where "SUDO = 0x200000"
definition BANNED :: permissions where "BANNED = 0x400000"
definition MANAGE_PARTICIPANTS :: permissions where "MANAGE_PARTICIPANTS = 0x800000"

lemmas flag_defs = TRAVERSE_def ENTER_def SPEAK_def TEXT_MESSAGE_def SHARE_FILE_def
  MUTE_DEAFEN_def MOVE_USER_def MAKE_ROOM_def MODIFY_ROOM_def WRITE_def KICK_def BAN_def
  REGISTER_def SELF_REGISTER_def MANAGE_ACL_def SUDO_def BANNED_def MANAGE_PARTICIPANTS_def

definition ALL_ROOM_SCOPED :: permissions where
  "ALL_ROOM_SCOPED = TRAVERSE OR ENTER OR SPEAK OR TEXT_MESSAGE OR SHARE_FILE OR MUTE_DEAFEN
     OR MOVE_USER OR MAKE_ROOM OR MODIFY_ROOM OR WRITE"

definition ALL_SERVER_SCOPED :: permissions where
  "ALL_SERVER_SCOPED = KICK OR BAN OR REGISTER OR SELF_REGISTER OR MANAGE_ACL OR SUDO OR BANNED
     OR MANAGE_PARTICIPANTS"

definition ALL_FLAGS :: permissions where
  "ALL_FLAGS = ALL_ROOM_SCOPED OR ALL_SERVER_SCOPED"

definition DEFAULT_PERMISSIONS :: permissions where
  "DEFAULT_PERMISSIONS = TRAVERSE OR ENTER OR SPEAK OR TEXT_MESSAGE OR SHARE_FILE
     OR SELF_REGISTER OR MAKE_ROOM OR MODIFY_ROOM"

definition ADMIN_PERMISSIONS :: permissions where
  "ADMIN_PERMISSIONS = ALL_FLAGS AND NOT BANNED"

definition contains :: "permissions \<Rightarrow> permissions \<Rightarrow> bool" where
  "contains s p \<longleftrightarrow> s AND p = p"

definition from_bits_truncate :: "u32 \<Rightarrow> permissions" where
  "from_bits_truncate b = b AND ALL_FLAGS"

definition complement_flags :: "permissions \<Rightarrow> permissions" where
  "complement_flags p = from_bits_truncate (NOT p)"

definition has_permission :: "permissions \<Rightarrow> permissions \<Rightarrow> bool" where
  "has_permission effective required \<longleftrightarrow> contains effective required"

text \<open>A flag set is stored as its bits; reading one back refuses undeclared bits.\<close>

definition serialize_permissions :: "permissions \<Rightarrow> u32" where
  "serialize_permissions p = p"

definition deserialize_permissions :: "u32 \<Rightarrow> permissions option" where
  "deserialize_permissions b = (if b AND NOT ALL_FLAGS = 0 then Some b else None)"

record permission_group =
  pg_name :: string
  pg_permissions :: permissions

record acl_entry =
  ae_group :: string
  ae_grant :: permissions
  ae_deny :: permissions
  ae_apply_here :: bool
  ae_apply_subs :: bool

record room_acl_data =
  ra_inherit_acl :: bool
  ra_entries :: "acl_entry list"

section \<open>Evaluation\<close>

text \<open>Union of the base permissions of the user's groups; unknown groups add nothing.\<close>

definition base_permissions :: "string list \<Rightarrow> (string \<rightharpoonup> permissions) \<Rightarrow> permissions" where
  "base_permissions user_groups group_permissions =
     fold (\<lambda>g base. case group_permissions g of Some p \<Rightarrow> base OR p | None \<Rightarrow> base) user_groups 0"

definition entry_applies :: "string list \<Rightarrow> bool \<Rightarrow> acl_entry \<Rightarrow> bool" where
  "entry_applies user_groups is_target e \<longleftrightarrow>
     ae_group e \<in> set user_groups \<and> (if is_target then ae_apply_here e else ae_apply_subs e)"

definition apply_entry :: "string list \<Rightarrow> bool \<Rightarrow> acl_entry \<Rightarrow> permissions \<Rightarrow> permissions" where
  "apply_entry user_groups is_target e granted =
     (if ae_group e \<notin> set user_groups then granted
      else if is_target \<and> \<not> ae_apply_here e then granted
      else if \<not> is_target \<and> \<not> ae_apply_subs e then granted
      else (granted OR ae_grant e) AND complement_flags (ae_deny e))"

definition apply_room ::
  "string list \<Rightarrow> permissions \<Rightarrow> bool \<Rightarrow> room_acl_data option \<Rightarrow> permissions \<Rightarrow> permissions" where
  "apply_room user_groups base is_target acl_data granted =
     (case acl_data of
        None \<Rightarrow> granted
      | Some acl \<Rightarrow>
          fold (apply_entry user_groups is_target) (ra_entries acl)
            (if \<not> ra_inherit_acl acl then base else granted))"

type_synonym room_chain = "(uuid \<times> room_acl_data option) list"

text \<open>
  The walk from the root to the target. \<open>None\<close> is the early return with no permission:
  a room that is not the target does not grant \<open>TRAVERSE\<close>.
\<close>

fun walk_chain :: "string list \<Rightarrow> permissions \<Rightarrow> room_chain \<Rightarrow> permissions \<Rightarrow> permissions option" where
  "walk_chain user_groups base [] granted = Some granted"
| "walk_chain user_groups base ((_, acl_data) # rest) granted =
     (let is_target = (rest = []);
          granted' = apply_room user_groups base is_target acl_data granted
      in if \<not> is_target \<and> \<not> contains granted' TRAVERSE then None
         else walk_chain user_groups base rest granted')"

definition effective_permissions ::
  "string list \<Rightarrow> (string \<rightharpoonup> permissions) \<Rightarrow> room_chain \<Rightarrow> bool \<Rightarrow> permissions" where
  "effective_permissions user_groups group_permissions room_chain is_superuser =
     (if is_superuser then ALL_FLAGS
      else let base = base_permissions user_groups group_permissions in
        case walk_chain user_groups base room_chain base of
          None \<Rightarrow> 0
        | Some granted \<Rightarrow>
            if length room_chain > 1 then granted AND complement_flags ALL_SERVER_SCOPED
            else granted)"

section \<open>Flag arithmetic\<close>

lemma contains_refl [simp]: "contains s s"
  by (simp add: contains_def)

lemma contains_trans: "contains a b \<Longrightarrow> contains b c \<Longrightarrow> contains a c"
  unfolding contains_def by (metis and.assoc and.commute)

lemma bit_u32_lt: "bit (w :: u32) n \<Longrightarrow> n < 32"
  using bit_imp_le_length [of w n] by simp

lemma contains_bit: "contains s p \<longleftrightarrow> (\<forall>n. bit p n \<longrightarrow> bit s n)"
  unfolding contains_def by (auto simp: bit_eq_iff bit_and_iff dest: bit_u32_lt)

lemma not_contains_zero: "p \<noteq> 0 \<Longrightarrow> \<not> contains 0 p"
  by (simp add: contains_def)

lemma bit_flag: "bit (2 ^ k :: u32) n \<longleftrightarrow> n = k \<and> k < 32"
  by (auto simp: bit_exp_iff)

lemma contains_flag: "k < 32 \<Longrightarrow> contains s (2 ^ k) \<longleftrightarrow> bit s k"
  by (auto simp: contains_bit bit_flag)

lemma flag_powers:
  "TRAVERSE = 2 ^ 0" "ENTER = 2 ^ 1" "SPEAK = 2 ^ 2" "TEXT_MESSAGE = 2 ^ 3" "SHARE_FILE = 2 ^ 4"
  "MUTE_DEAFEN = 2 ^ 5" "MOVE_USER = 2 ^ 6" "MAKE_ROOM = 2 ^ 7" "MODIFY_ROOM = 2 ^ 8"
  "WRITE = 2 ^ 9" "KICK = 2 ^ 16" "BAN = 2 ^ 17" "REGISTER = 2 ^ 18" "SELF_REGISTER = 2 ^ 19"
  "MANAGE_ACL = 2 ^ 20" "SUDO = 2 ^ 21" "BANNED = 2 ^ 22" "MANAGE_PARTICIPANTS = 2 ^ 23"
  by (simp_all add: flag_defs)

lemma ALL_ROOM_SCOPED_value: "ALL_ROOM_SCOPED = 0x3FF"
  by (simp add: ALL_ROOM_SCOPED_def flag_defs)

lemma ALL_SERVER_SCOPED_value: "ALL_SERVER_SCOPED = 0xFF0000"
  by (simp add: ALL_SERVER_SCOPED_def flag_defs)

lemma ALL_FLAGS_value: "ALL_FLAGS = 0xFF03FF"
  by (simp add: ALL_FLAGS_def ALL_ROOM_SCOPED_value ALL_SERVER_SCOPED_value)

lemma bit_complement_flags: "bit (complement_flags p) n \<longleftrightarrow> bit ALL_FLAGS n \<and> \<not> bit p n"
  by (auto simp: complement_flags_def from_bits_truncate_def bit_and_iff bit_not_iff
      dest: bit_imp_le_length)

lemma bit_ALL_FLAGS: "bit ALL_FLAGS n \<longleftrightarrow> bit ALL_ROOM_SCOPED n \<or> bit ALL_SERVER_SCOPED n"
  by (simp add: ALL_FLAGS_def bit_or_iff)

lemma scopes_disjoint: "\<not> (bit ALL_ROOM_SCOPED n \<and> bit ALL_SERVER_SCOPED n)"
proof -
  have "ALL_ROOM_SCOPED AND ALL_SERVER_SCOPED = 0"
    by (simp add: ALL_ROOM_SCOPED_value ALL_SERVER_SCOPED_value)
  then have "bit (ALL_ROOM_SCOPED AND ALL_SERVER_SCOPED) n = False" by simp
  then show ?thesis by (simp add: bit_and_iff)
qed

lemma contains_ALL_FLAGS: "contains ALL_FLAGS p \<longleftrightarrow> p AND NOT ALL_FLAGS = 0"
  by (auto simp: contains_bit bit_eq_iff bit_and_iff bit_not_iff dest: bit_u32_lt)

lemma deserialize_serialize:
  "deserialize_permissions (serialize_permissions p) = (if contains ALL_FLAGS p then Some p else None)"
  by (simp add: deserialize_permissions_def serialize_permissions_def contains_ALL_FLAGS)

section \<open>Declarative reading\<close>

text \<open>
  The entries in force at the end of a chain: those of the rooms from the last one that
  does not inherit, restricted to the user's groups and, for ancestors, to entries that
  apply to sub-rooms, for the target to entries that apply to the room itself.
\<close>

definition in_force_step ::
  "string list \<Rightarrow> bool \<Rightarrow> room_acl_data option \<Rightarrow> acl_entry list \<Rightarrow> acl_entry list" where
  "in_force_step gs is_target acl es =
     (case acl of None \<Rightarrow> es
      | Some a \<Rightarrow> (if ra_inherit_acl a then es else []) @
          filter (entry_applies gs is_target) (ra_entries a))"

definition ancestors_in_force :: "string list \<Rightarrow> room_chain \<Rightarrow> acl_entry list" where
  "ancestors_in_force gs rooms = fold (in_force_step gs False) (map snd rooms) []"

definition in_force :: "string list \<Rightarrow> room_chain \<Rightarrow> acl_entry list" where
  "in_force gs chain =
     (if chain = [] then []
      else in_force_step gs True (snd (last chain)) (ancestors_in_force gs (butlast chain)))"

text \<open>The last entry that mentions a flag decides it; a denial wins inside one entry.\<close>

definition last_word :: "nat \<Rightarrow> acl_entry list \<Rightarrow> permissions \<Rightarrow> bool" where
  "last_word n es base \<longleftrightarrow>
     (case List.find (\<lambda>e. bit (ae_grant e) n \<or> bit (ae_deny e) n) (rev es) of
        None \<Rightarrow> bit base n
      | Some e \<Rightarrow> \<not> bit (ae_deny e) n)"

definition traversable :: "string list \<Rightarrow> permissions \<Rightarrow> room_chain \<Rightarrow> bool" where
  "traversable gs base chain \<longleftrightarrow>
     list_all (\<lambda>k. last_word 0 (ancestors_in_force gs (take (Suc k) chain)) base) [0..<length chain - 1]"

definition decided_by :: "permissions \<Rightarrow> acl_entry list \<Rightarrow> permissions \<Rightarrow> bool" where
  "decided_by granted es base \<longleftrightarrow> (\<forall>n. bit ALL_FLAGS n \<longrightarrow> bit granted n = last_word n es base)"

lemma last_word_Nil [simp]: "last_word n [] base = bit base n"
  by (simp add: last_word_def)

lemma last_word_snoc:
  "last_word n (es @ [e]) base =
     ((last_word n es base \<or> bit (ae_grant e) n) \<and> \<not> bit (ae_deny e) n)"
  by (auto simp: last_word_def)

lemma decided_by_base [simp]: "decided_by base [] base"
  by (simp add: decided_by_def)

lemma decided_by_entry:
  assumes "decided_by granted es base"
  shows "decided_by (apply_entry gs t e granted)
           (es @ filter (entry_applies gs t) [e]) base"
  using assms
  by (auto simp: decided_by_def apply_entry_def entry_applies_def last_word_snoc bit_and_iff
      bit_or_iff bit_complement_flags)

lemma decided_by_entries:
  "decided_by granted es base \<Longrightarrow>
     decided_by (fold (apply_entry gs t) l granted) (es @ filter (entry_applies gs t) l) base"
proof (induction l arbitrary: granted es)
  case (Cons e l)
  from Cons.IH [OF decided_by_entry [OF Cons.prems, of gs t e]] show ?case
    by (simp split: if_splits)
qed simp

lemma decided_by_room:
  assumes "decided_by granted es base"
  shows "decided_by (apply_room gs base t acl granted) (in_force_step gs t acl es) base"
  using assms decided_by_entries [OF assms, of gs t]
    decided_by_entries [OF decided_by_base [of base], of gs t]
  by (cases acl) (simp_all add: apply_room_def in_force_step_def)

lemma decided_by_traverse:
  "decided_by granted es base \<Longrightarrow> contains granted TRAVERSE = last_word 0 es base"
proof -
  assume d: "decided_by granted es base"
  have "bit ALL_FLAGS 0" by (simp add: ALL_FLAGS_value)
  with d show ?thesis
    using contains_flag [of 0 granted] by (simp add: decided_by_def flag_powers(1))
qed

text \<open>The walk, started with the entries \<open>es\<close> already in force.\<close>

definition walk_ok :: "string list \<Rightarrow> permissions \<Rightarrow> acl_entry list \<Rightarrow> room_chain \<Rightarrow> bool" where
  "walk_ok gs base es chain \<longleftrightarrow>
     (\<forall>k < length chain - 1.
        last_word 0 (fold (in_force_step gs False) (map snd (take (Suc k) chain)) es) base)"

lemma walk_ok_Cons:
  "walk_ok gs base es (r # chain) \<longleftrightarrow>
     (chain \<noteq> [] \<longrightarrow> last_word 0 (in_force_step gs False (snd r) es) base) \<and>
     walk_ok gs base (in_force_step gs False (snd r) es) chain"
  by (cases chain) (auto simp: walk_ok_def All_less_Suc2)

lemma traversable_walk_ok: "traversable gs base chain = walk_ok gs base [] chain"
  by (auto simp: traversable_def walk_ok_def ancestors_in_force_def list_all_iff)

lemma walk_chain_decides:
  "decided_by granted es base \<Longrightarrow>
     (case walk_chain gs base chain granted of
        None \<Rightarrow> \<not> walk_ok gs base es chain
      | Some g \<Rightarrow> walk_ok gs base es chain \<and>
          decided_by g
            (if chain = [] then es
             else in_force_step gs True (snd (last chain))
               (fold (in_force_step gs False) (map snd (butlast chain)) es)) base)"
proof (induction chain arbitrary: granted es)
  case Nil
  then show ?case by (simp add: walk_ok_def)
next
  case (Cons r chain)
  obtain u acl where r: "r = (u, acl)" by (cases r)
  let ?g = "apply_room gs base (chain = []) acl granted"
  have d: "decided_by ?g (in_force_step gs (chain = []) acl es) base"
    by (rule decided_by_room [OF Cons.prems])
  show ?case
  proof (cases "chain = []")
    case True
    with d show ?thesis by (simp add: r walk_ok_def)
  next
    case False
    with d have d': "decided_by ?g (in_force_step gs False acl es) base" by simp
    from False decided_by_traverse [OF d'] Cons.IH [OF d'] show ?thesis
      by (auto simp: r walk_ok_Cons Let_def split: option.splits)
  qed
qed

lemma effective_decides:
  assumes "bit ALL_FLAGS n"
  shows "bit (effective_permissions gs gp chain su) n \<longleftrightarrow>
    su \<or>
    traversable gs (base_permissions gs gp) chain \<and>
    last_word n (in_force gs chain) (base_permissions gs gp) \<and>
    (length chain > 1 \<longrightarrow> bit ALL_ROOM_SCOPED n)"
  using assms walk_chain_decides [OF decided_by_base, of gs "base_permissions gs gp" chain]
    scopes_disjoint [of n]
  by (auto simp: effective_permissions_def Let_def traversable_walk_ok in_force_def
      ancestors_in_force_def decided_by_def bit_and_iff bit_complement_flags bit_ALL_FLAGS
      split: option.splits if_splits)

lemma bit_base_permissions:
  "bit (base_permissions gs gp) n \<longleftrightarrow> (\<exists>g \<in> set gs. \<exists>p. gp g = Some p \<and> bit p n)"
proof -
  have "bit (fold (\<lambda>g base. case gp g of Some p \<Rightarrow> base OR p | None \<Rightarrow> base) gs b) n \<longleftrightarrow>
    bit b n \<or> (\<exists>g \<in> set gs. \<exists>p. gp g = Some p \<and> bit p n)" for b
    by (induction gs arbitrary: b) (auto simp: bit_or_iff split: option.splits)
  from this [of 0] show ?thesis by (simp add: base_permissions_def)
qed

section \<open>Properties\<close>

text \<open>C4: Per-flag meaning of the evaluation. For every declared flag, the result contains it
  exactly for superusers, or when every ancestor can be traversed, the last entry in force
  that mentions the flag grants it (the group permissions deciding when none mentions it),
  and, below the root, the flag is room-scoped.\<close>

theorem effective_permissions_spec:
  assumes "bit ALL_FLAGS n"
  shows "bit (effective_permissions user_groups group_permissions chain superuser) n \<longleftrightarrow>
    superuser \<or>
    traversable user_groups (base_permissions user_groups group_permissions) chain \<and>
    last_word n (in_force user_groups chain) (base_permissions user_groups group_permissions) \<and>
    (length chain > 1 \<longrightarrow> bit ALL_ROOM_SCOPED n)"
  using assms by (rule effective_decides)

definition example_chain :: room_chain where
  "example_chain =
     [(0, None),
      (5, Some \<lparr>ra_inherit_acl = True, ra_entries =
         [\<lparr>ae_group = ''default'', ae_grant = WRITE, ae_deny = SPEAK, ae_apply_here = True,
           ae_apply_subs = True\<rparr>]\<rparr>)]"

theorem effective_permissions_spec_witness:
  "\<not> bit (effective_permissions [''default''] [''default'' \<mapsto> DEFAULT_PERMISSIONS] example_chain False) 2 \<and>
   bit (effective_permissions [''default''] [''default'' \<mapsto> DEFAULT_PERMISSIONS] example_chain False) 9"
proof -
  have a: "bit ALL_FLAGS 2" "bit ALL_FLAGS 9" by (simp_all add: ALL_FLAGS_value)
  have b: "traversable [''default''] (base_permissions [''default''] [''default'' \<mapsto> DEFAULT_PERMISSIONS])
      example_chain"
    "\<not> last_word 2 (in_force [''default''] example_chain)
      (base_permissions [''default''] [''default'' \<mapsto> DEFAULT_PERMISSIONS])"
    "last_word 9 (in_force [''default''] example_chain)
      (base_permissions [''default''] [''default'' \<mapsto> DEFAULT_PERMISSIONS])"
    "bit ALL_ROOM_SCOPED 9"
    by code_simp+
  show ?thesis
    using effective_permissions_spec [OF a(1), of "[''default'']" "[''default'' \<mapsto> DEFAULT_PERMISSIONS]" example_chain False]
      effective_permissions_spec [OF a(2), of "[''default'']" "[''default'' \<mapsto> DEFAULT_PERMISSIONS]" example_chain False] b
    by simp
qed

text \<open>Containment. Without superuser rights, no server-scoped flag is effective in a room
  below the root, and a chain with an ancestor that cannot be traversed gives no permission
  at all, whatever the target room grants.\<close>

theorem effective_permissions_contained:
  "(length chain > 1 \<longrightarrow>
      effective_permissions user_groups group_permissions chain False AND ALL_SERVER_SCOPED = 0) \<and>
   (\<not> traversable user_groups (base_permissions user_groups group_permissions) chain \<longrightarrow>
      effective_permissions user_groups group_permissions chain False = 0)"
proof (intro conjI impI)
  assume l: "length chain > 1"
  show "effective_permissions user_groups group_permissions chain False AND ALL_SERVER_SCOPED = 0"
    using l by (auto simp: effective_permissions_def Let_def bit_eq_iff bit_and_iff bit_complement_flags
        split: option.splits)
next
  assume "\<not> traversable user_groups (base_permissions user_groups group_permissions) chain"
  then show "effective_permissions user_groups group_permissions chain False = 0"
    using walk_chain_decides [OF decided_by_base, of user_groups
        "base_permissions user_groups group_permissions" chain]
    by (auto simp: effective_permissions_def Let_def traversable_walk_ok split: option.splits)
qed

definition closed_chain :: room_chain where
  "closed_chain =
     [(0, Some \<lparr>ra_inherit_acl = True, ra_entries =
         [\<lparr>ae_group = ''default'', ae_grant = 0, ae_deny = TRAVERSE, ae_apply_here = False,
           ae_apply_subs = True\<rparr>]\<rparr>),
      (5, Some \<lparr>ra_inherit_acl = False, ra_entries =
         [\<lparr>ae_group = ''default'', ae_grant = ALL_FLAGS, ae_deny = 0, ae_apply_here = True,
           ae_apply_subs = True\<rparr>]\<rparr>)]"

theorem effective_permissions_contained_witness:
  "effective_permissions [''default''] [''default'' \<mapsto> DEFAULT_PERMISSIONS] closed_chain False = 0"
proof -
  have "\<not> traversable [''default''] (base_permissions [''default''] [''default'' \<mapsto> DEFAULT_PERMISSIONS])
      closed_chain"
    by code_simp
  with effective_permissions_contained show ?thesis by blast
qed

end
