(* ===== verification/Wire.thy ===== *)
theory Wire
  imports Permissions "HOL-Library.Multiset"
begin

text \<open>
  The wire layer shared by server and client (\<open>rumble-protocol/src/lib.rs\<close> and
  \<open>types.rs\<close>): identifiers, length-prefixed frames, the canonical state hash, the
  room ACL version, the signed payloads of the handshake, and the domain types with
  their conversions from and to the generated message types.

  Code outside the repository is an argument: the length delimiter of the protobuf
  runtime, the protobuf encoding, BLAKE3 and SHA-256.
\<close>

section \<open>Identifiers\<close>

definition ROOT_ROOM_UUID :: uuid where "ROOT_ROOM_UUID = 0"

record room_id =
  rid_uuid :: bytes

definition room_id_from_uuid :: "uuid \<Rightarrow> room_id" where
  "room_id_from_uuid u = \<lparr>rid_uuid = to_be_bytes 16 u\<rparr>"

definition uuid_from_room_id :: "room_id \<Rightarrow> uuid option" where
  "uuid_from_room_id r =
     (if length (rid_uuid r) = 16 then Some (from_be_bytes (rid_uuid r)) else None)"

definition root_room_id :: room_id where
  "root_room_id = room_id_from_uuid ROOT_ROOM_UUID"

definition is_root_room :: "room_id \<Rightarrow> bool" where
  "is_root_room r = (case uuid_from_room_id r of Some u \<Rightarrow> u = ROOT_ROOM_UUID | None \<Rightarrow> False)"

lemma uuid_from_room_id_from_uuid [simp]: "uuid_from_room_id (room_id_from_uuid u) = Some u"
  by (simp add: uuid_from_room_id_def room_id_from_uuid_def from_to_be_bytes)

lemma room_id_from_uuid_from_room_id:
  "uuid_from_room_id r = Some u \<Longrightarrow> room_id_from_uuid u = r"
  by (cases r) (auto simp: uuid_from_room_id_def room_id_from_uuid_def to_from_be_bytes
      split: if_splits)

lemma room_id_from_uuid_inject [simp]: "(room_id_from_uuid u = room_id_from_uuid v) = (u = v)"
  by (metis uuid_from_room_id_from_uuid option.inject)

lemma is_root_room_iff: "is_root_room r \<longleftrightarrow> r = root_room_id"
  by (auto simp: is_root_room_def root_room_id_def room_id_from_uuid_from_room_id
      split: option.splits)

section \<open>Frames\<close>

text \<open>The length delimiter of the protobuf runtime.\<close>

record delimiter =
  encode_length_delimiter :: "nat \<Rightarrow> bytes"
  decode_length_delimiter :: "bytes \<Rightarrow> (nat \<times> bytes) option"
  length_delimiter_len :: "nat \<Rightarrow> nat"

definition encode_frame_raw :: "delimiter \<Rightarrow> bytes \<Rightarrow> bytes" where
  "encode_frame_raw d dat = encode_length_delimiter d (length dat) @ dat"

definition encode_frame :: "delimiter \<Rightarrow> ('m \<Rightarrow> bytes) \<Rightarrow> 'm \<Rightarrow> bytes" where
  "encode_frame d encode msg = encode_length_delimiter d (length (encode msg)) @ encode msg"

definition MAX_FRAME_LEN :: nat where
  "MAX_FRAME_LEN = 16 * 1024 * 1024"

text \<open>
  One frame is split off the front of the buffer; the result pairs the frame, if any,
  with the buffer that is left.
\<close>

definition try_decode_frame :: "delimiter \<Rightarrow> bytes \<Rightarrow> bytes option \<times> bytes" where
  "try_decode_frame d src =
     (case decode_length_delimiter d src of
        None \<Rightarrow> (None, src)
      | Some (len, _) \<Rightarrow>
          if length src < length_delimiter_len d len + len then (None, src)
          else case decode_length_delimiter d src of
                 None \<Rightarrow> (None, src)
               | Some (_, src') \<Rightarrow> (Some (take len src'), drop len src'))"

text \<open>
  The source adds the two lengths in \<open>usize\<close>. A declared length for which the sum leaves 64 bits makes
  the decoder panic, in a checked build at the addition and else when it splits off more than the
  buffer holds; \<open>try_decode_frame\<close> speaks of the other buffers. No frame that fits into memory is
  affected, but ten bytes of a hostile peer are enough (\<open>hostile_length_panics\<close>).
\<close>

definition frame_panics :: "delimiter \<Rightarrow> bytes \<Rightarrow> bool" where
  "frame_panics d src =
     (case decode_length_delimiter d src of
        None \<Rightarrow> False
      | Some (len, _) \<Rightarrow> 2 ^ 64 \<le> length_delimiter_len d len + len)"

text \<open>What the frame code relies on in the protobuf runtime.\<close>

definition delimiter_laws :: "delimiter \<Rightarrow> bool" where
  "delimiter_laws d \<longleftrightarrow>
     (\<forall>n rest. n < 2 ^ 64 \<longrightarrow>
        decode_length_delimiter d (encode_length_delimiter d n @ rest) = Some (n, rest)) \<and>
     (\<forall>n. n < 2 ^ 64 \<longrightarrow> length (encode_length_delimiter d n) = length_delimiter_len d n) \<and>
     (\<forall>n k. n < 2 ^ 64 \<longrightarrow> k < length_delimiter_len d n \<longrightarrow>
        decode_length_delimiter d (take k (encode_length_delimiter d n)) = None)"

lemma try_decode_frame_encode:
  assumes "delimiter_laws d" and "length dat < 2 ^ 64"
  shows "try_decode_frame d (encode_frame_raw d dat @ rest) = (Some dat, rest)"
  using assms by (simp add: delimiter_laws_def try_decode_frame_def encode_frame_raw_def)

lemma encoded_frame_no_panic:
  assumes "delimiter_laws d" and "length (encode_frame_raw d dat) < 2 ^ 64"
  shows "\<not> frame_panics d (encode_frame_raw d dat @ rest)"
proof -
  have "length dat < 2 ^ 64" using assms(2) by (simp add: encode_frame_raw_def)
  with assms(1) have "decode_length_delimiter d (encode_frame_raw d dat @ rest) = Some (length dat, dat @ rest)"
      "length (encode_length_delimiter d (length dat)) = length_delimiter_len d (length dat)"
    by (auto simp: delimiter_laws_def encode_frame_raw_def)
  with assms(2) show ?thesis by (simp add: frame_panics_def encode_frame_raw_def)
qed

lemma try_decode_frame_incomplete:
  assumes d: "delimiter_laws d" and len: "length dat < 2 ^ 64"
    and k: "k < length (encode_frame_raw d dat)"
  shows "try_decode_frame d (take k (encode_frame_raw d dat)) =
    (None, take k (encode_frame_raw d dat))"
proof -
  let ?e = "encode_length_delimiter d (length dat)"
  show ?thesis
  proof (cases "k < length ?e")
    case True
    with d len have "decode_length_delimiter d (take k ?e) = None"
      by (simp add: delimiter_laws_def)
    with True show ?thesis by (simp add: try_decode_frame_def encode_frame_raw_def)
  next
    case False
    then have "take k (encode_frame_raw d dat) = ?e @ take (k - length ?e) dat"
      by (simp add: encode_frame_raw_def)
    with d len k show ?thesis
      by (simp add: try_decode_frame_def delimiter_laws_def encode_frame_raw_def)
  qed
qed

text \<open>Repeated decoding of a buffer that holds a sequence of frames.\<close>

fun decode_frames :: "delimiter \<Rightarrow> nat \<Rightarrow> bytes \<Rightarrow> bytes list \<times> bytes" where
  "decode_frames d 0 src = ([], src)"
| "decode_frames d (Suc n) src =
     (case try_decode_frame d src of
        (None, src') \<Rightarrow> ([], src')
      | (Some f, src') \<Rightarrow> (case decode_frames d n src' of (fs, rest) \<Rightarrow> (f # fs, rest)))"

lemma decode_frames_concat:
  assumes "delimiter_laws d"
  shows "list_all (\<lambda>f. length f < 2 ^ 64) fs \<Longrightarrow>
    decode_frames d (length fs) (concat (map (encode_frame_raw d) fs) @ rest) = (fs, rest)"
  by (induction fs) (simp_all add: try_decode_frame_encode [OF assms])

section \<open>Signed payloads\<close>

definition build_auth_payload :: "key32 \<Rightarrow> i64 \<Rightarrow> key32 \<Rightarrow> u64 \<Rightarrow> key32 \<Rightarrow> bytes" where
  "build_auth_payload nonce timestamp_ms public_key user_id server_cert_hash =
     to_be_bytes 32 nonce @ to_be_bytes 8 timestamp_ms @ to_be_bytes 32 public_key @
     to_be_bytes 8 user_id @ to_be_bytes 32 server_cert_hash"

definition compute_cert_hash :: "(bytes \<Rightarrow> key32) \<Rightarrow> bytes \<Rightarrow> key32" where
  "compute_cert_hash sha256 cert_der = sha256 cert_der"

definition compute_session_id :: "(bytes \<Rightarrow> key32) \<Rightarrow> key32 \<Rightarrow> key32" where
  "compute_session_id blake3 session_public_key = blake3 (to_be_bytes 32 session_public_key)"

text \<open>The device length is cast to 16 bits, so it wraps for longer device strings.\<close>

definition build_session_cert_payload :: "key32 \<Rightarrow> i64 \<Rightarrow> i64 \<Rightarrow> string option \<Rightarrow> bytes" where
  "build_session_cert_payload session_public_key issued_ms expires_ms device =
     (let device_bytes = string_bytes (case device of Some s \<Rightarrow> s | None \<Rightarrow> '''');
          len = (word_of_nat (length device_bytes) :: u16)
      in to_be_bytes 32 session_public_key @ to_be_bytes 8 issued_ms @ to_be_bytes 8 expires_ms @
         to_be_bytes 2 len @ device_bytes)"

lemma length_auth_payload: "length (build_auth_payload n t k u c) = 112"
  by (simp add: build_auth_payload_def)

lemma auth_payload_inject:
  "build_auth_payload n t k u c = build_auth_payload n' t' k' u' c' \<longleftrightarrow>
     n = n' \<and> t = t' \<and> k = k' \<and> u = u' \<and> c = c'"
  by (auto simp: build_auth_payload_def to_be_bytes_inject)

lemma session_cert_payload_inject:
  "build_session_cert_payload k i e dev = build_session_cert_payload k' i' e' dev' \<longleftrightarrow>
     k = k' \<and> i = i' \<and> e = e' \<and>
     (case dev of Some s \<Rightarrow> s | None \<Rightarrow> '''') = (case dev' of Some s \<Rightarrow> s | None \<Rightarrow> '''')"
  by (auto simp: build_session_cert_payload_def Let_def to_be_bytes_inject)

section \<open>Message types of the state\<close>

record proto_acl_entry =
  pae_group :: string
  pae_grant :: u32
  pae_deny :: u32
  pae_apply_here :: bool
  pae_apply_subs :: bool

record room_info =
  ri_id :: "room_id option"
  ri_name :: string
  ri_parent_id :: "room_id option"
  ri_description :: "string option"
  ri_inherit_acl :: bool
  ri_acls :: "proto_acl_entry list"
  ri_effective_permissions :: u32

record user_id_msg =
  uid_value :: u64

record user_info =
  ui_user_id :: "user_id_msg option"
  ui_username :: string
  ui_current_room :: "room_id option"
  ui_is_muted :: bool
  ui_is_deafened :: bool
  ui_server_muted :: bool
  ui_is_elevated :: bool
  ui_groups :: "string list"
  ui_label :: "string option"

record group_info =
  gi_name :: string
  gi_permissions :: u32
  gi_is_builtin :: bool

record slash_command =
  sc_name :: string
  sc_description :: string

record group_membership_msg =
  gmm_group :: string
  gmm_expires_at :: u64

record registered_user_info =
  rui_public_key :: bytes
  rui_username :: string
  rui_groups :: "group_membership_msg list"
  rui_online :: bool

record server_state_msg =
  ss_rooms :: "room_info list"
  ss_users :: "user_info list"
  ss_groups :: "group_info list"
  ss_slash_commands :: "slash_command list"

section \<open>Domain types\<close>

record room_acl_entry =
  rae_group :: string
  rae_grant :: u32
  rae_deny :: u32
  rae_apply_here :: bool
  rae_apply_subs :: bool

record room =
  r_id :: uuid
  r_name :: string
  r_parent :: uuid
  r_description :: "string option"
  r_inherit_acl :: bool
  r_acls :: "room_acl_entry list"
  r_effective_permissions :: u32

record user =
  u_user_id :: u64
  u_username :: string
  u_current_room :: uuid
  u_is_muted :: bool
  u_is_deafened :: bool
  u_server_muted :: bool
  u_is_elevated :: bool
  u_groups :: "string list"
  u_label :: "string option"

record group_def =
  g_name :: string
  g_permissions :: u32
  g_is_builtin :: bool

record slash_command_def =
  sd_name :: string
  sd_description :: string

record group_membership =
  gm_group :: string
  gm_expires_at :: "u64 option"

record registered_user_entry =
  rue_public_key :: key32
  rue_username :: string
  rue_groups :: "group_membership list"
  rue_online :: bool

definition is_root :: "room \<Rightarrow> bool" where
  "is_root r \<longleftrightarrow> r_id r = ROOT_ROOM_UUID"

definition is_top_level :: "room \<Rightarrow> bool" where
  "is_top_level r \<longleftrightarrow> r_parent r = ROOT_ROOM_UUID"

definition acl_entry_from_proto :: "proto_acl_entry \<Rightarrow> room_acl_entry" where
  "acl_entry_from_proto p =
     \<lparr>rae_group = pae_group p, rae_grant = pae_grant p, rae_deny = pae_deny p,
      rae_apply_here = pae_apply_here p, rae_apply_subs = pae_apply_subs p\<rparr>"

definition acl_entry_to_proto :: "room_acl_entry \<Rightarrow> proto_acl_entry" where
  "acl_entry_to_proto e =
     \<lparr>pae_group = rae_group e, pae_grant = rae_grant e, pae_deny = rae_deny e,
      pae_apply_here = rae_apply_here e, pae_apply_subs = rae_apply_subs e\<rparr>"

definition room_from_proto :: "room_info \<Rightarrow> room option" where
  "room_from_proto p =
     (case Option.bind (ri_id p) uuid_from_room_id of
        None \<Rightarrow> None
      | Some i \<Rightarrow> Some
          \<lparr>r_id = i, r_name = ri_name p,
           r_parent = (case Option.bind (ri_parent_id p) uuid_from_room_id of
                         Some u \<Rightarrow> u | None \<Rightarrow> ROOT_ROOM_UUID),
           r_description = ri_description p, r_inherit_acl = ri_inherit_acl p,
           r_acls = map acl_entry_from_proto (ri_acls p),
           r_effective_permissions = ri_effective_permissions p\<rparr>)"

definition room_to_proto :: "room \<Rightarrow> room_info" where
  "room_to_proto r =
     \<lparr>ri_id = Some (room_id_from_uuid (r_id r)), ri_name = r_name r,
      ri_parent_id = (if r_parent r \<noteq> ROOT_ROOM_UUID
                      then Some (room_id_from_uuid (r_parent r)) else None),
      ri_description = r_description r, ri_inherit_acl = r_inherit_acl r,
      ri_acls = map acl_entry_to_proto (r_acls r),
      ri_effective_permissions = r_effective_permissions r\<rparr>"

definition to_hash_input :: "room \<Rightarrow> room_info" where
  "to_hash_input r = (room_to_proto r)\<lparr>ri_effective_permissions := 0\<rparr>"

definition user_from_proto :: "user_info \<Rightarrow> user option" where
  "user_from_proto p =
     (case ui_user_id p of
        None \<Rightarrow> None
      | Some uid \<Rightarrow> Some
          \<lparr>u_user_id = uid_value uid, u_username = ui_username p,
           u_current_room = (case Option.bind (ui_current_room p) uuid_from_room_id of
                               Some u \<Rightarrow> u | None \<Rightarrow> ROOT_ROOM_UUID),
           u_is_muted = ui_is_muted p, u_is_deafened = ui_is_deafened p,
           u_server_muted = ui_server_muted p, u_is_elevated = ui_is_elevated p,
           u_groups = ui_groups p, u_label = ui_label p\<rparr>)"

definition user_to_proto :: "user \<Rightarrow> user_info" where
  "user_to_proto u =
     \<lparr>ui_user_id = Some \<lparr>uid_value = u_user_id u\<rparr>, ui_username = u_username u,
      ui_current_room = Some (room_id_from_uuid (u_current_room u)),
      ui_is_muted = u_is_muted u, ui_is_deafened = u_is_deafened u,
      ui_server_muted = u_server_muted u, ui_is_elevated = u_is_elevated u,
      ui_groups = u_groups u, ui_label = u_label u\<rparr>"

definition group_from_proto :: "group_info \<Rightarrow> group_def" where
  "group_from_proto p =
     \<lparr>g_name = gi_name p, g_permissions = gi_permissions p, g_is_builtin = gi_is_builtin p\<rparr>"

definition group_to_proto :: "group_def \<Rightarrow> group_info" where
  "group_to_proto g =
     \<lparr>gi_name = g_name g, gi_permissions = g_permissions g, gi_is_builtin = g_is_builtin g\<rparr>"

definition slash_command_from_proto :: "slash_command \<Rightarrow> slash_command_def" where
  "slash_command_from_proto p = \<lparr>sd_name = sc_name p, sd_description = sc_description p\<rparr>"

definition slash_command_to_proto :: "slash_command_def \<Rightarrow> slash_command" where
  "slash_command_to_proto c = \<lparr>sc_name = sd_name c, sc_description = sd_description c\<rparr>"

definition group_membership_from_proto :: "group_membership_msg \<Rightarrow> group_membership" where
  "group_membership_from_proto p =
     \<lparr>gm_group = gmm_group p,
      gm_expires_at = (if gmm_expires_at p \<noteq> 0 then Some (gmm_expires_at p) else None)\<rparr>"

definition group_membership_to_proto :: "group_membership \<Rightarrow> group_membership_msg" where
  "group_membership_to_proto m =
     \<lparr>gmm_group = gm_group m,
      gmm_expires_at = (case gm_expires_at m of Some t \<Rightarrow> t | None \<Rightarrow> 0)\<rparr>"

definition registered_user_from_proto :: "registered_user_info \<Rightarrow> registered_user_entry option" where
  "registered_user_from_proto p =
     (if length (rui_public_key p) = 32
      then Some \<lparr>rue_public_key = from_be_bytes (rui_public_key p), rue_username = rui_username p,
                 rue_groups = map group_membership_from_proto (rui_groups p),
                 rue_online = rui_online p\<rparr>
      else None)"

definition registered_user_to_proto :: "registered_user_entry \<Rightarrow> registered_user_info" where
  "registered_user_to_proto u =
     \<lparr>rui_public_key = to_be_bytes 32 (rue_public_key u), rui_username = rue_username u,
      rui_groups = map group_membership_to_proto (rue_groups u), rui_online = rue_online u\<rparr>"

record chat_attachment_msg =
  cam_namespace :: string
  cam_schema_version :: u32
  cam_payload :: bytes
  cam_fallback_text :: string

record chat_attachment =
  ca_namespace :: string
  ca_schema_version :: u32
  ca_payload :: bytes
  ca_fallback_text :: string

definition chat_attachment_from_proto :: "chat_attachment_msg \<Rightarrow> chat_attachment" where
  "chat_attachment_from_proto a =
     \<lparr>ca_namespace = cam_namespace a, ca_schema_version = cam_schema_version a,
      ca_payload = cam_payload a, ca_fallback_text = cam_fallback_text a\<rparr>"

definition chat_attachment_to_proto :: "chat_attachment \<Rightarrow> chat_attachment_msg" where
  "chat_attachment_to_proto a =
     \<lparr>cam_namespace = ca_namespace a, cam_schema_version = ca_schema_version a,
      cam_payload = ca_payload a, cam_fallback_text = ca_fallback_text a\<rparr>"

subsection \<open>Round trips\<close>

lemma acl_entry_roundtrip [simp]: "acl_entry_from_proto (acl_entry_to_proto e) = e"
  by (simp add: acl_entry_from_proto_def acl_entry_to_proto_def)

lemma acl_entry_roundtrip_wire [simp]: "acl_entry_to_proto (acl_entry_from_proto p) = p"
  by (simp add: acl_entry_from_proto_def acl_entry_to_proto_def)

lemma room_roundtrip: "room_from_proto (room_to_proto r) = Some r"
  by (simp add: room_from_proto_def room_to_proto_def comp_def)

lemma user_roundtrip: "user_from_proto (user_to_proto u) = Some u"
  by (simp add: user_from_proto_def user_to_proto_def)

lemma group_roundtrip: "group_from_proto (group_to_proto g) = g"
  by (simp add: group_from_proto_def group_to_proto_def)

lemma slash_command_roundtrip: "slash_command_from_proto (slash_command_to_proto c) = c"
  by (simp add: slash_command_from_proto_def slash_command_to_proto_def)

lemma chat_attachment_roundtrip: "chat_attachment_from_proto (chat_attachment_to_proto a) = a"
  by (simp add: chat_attachment_from_proto_def chat_attachment_to_proto_def)

lemma group_membership_roundtrip:
  "group_membership_from_proto (group_membership_to_proto m) = m \<longleftrightarrow> gm_expires_at m \<noteq> Some 0"
  by (cases m) (auto simp: group_membership_from_proto_def group_membership_to_proto_def
      split: option.splits)

lemma registered_user_roundtrip:
  assumes "\<forall>m \<in> set (rue_groups u). gm_expires_at m \<noteq> Some 0"
  shows "registered_user_from_proto (registered_user_to_proto u) = Some u"
proof -
  have "map group_membership_from_proto (map group_membership_to_proto (rue_groups u)) = rue_groups u"
    using assms by (simp add: map_idI group_membership_roundtrip)
  then show ?thesis
    by (simp add: registered_user_from_proto_def registered_user_to_proto_def from_to_be_bytes)
qed

text \<open>The wire encoding of a room determines the room, so the state hash input does too,
  up to the per-client permission overlay.\<close>

lemma to_hash_input_eq_iff:
  "to_hash_input r = to_hash_input r' \<longleftrightarrow>
     r\<lparr>r_effective_permissions := 0\<rparr> = r'\<lparr>r_effective_permissions := 0\<rparr>"
proof -
  have "to_hash_input r = room_to_proto (r\<lparr>r_effective_permissions := 0\<rparr>)" for r
    by (simp add: to_hash_input_def room_to_proto_def)
  then show ?thesis by (metis room_roundtrip option.inject)
qed

section \<open>State hash\<close>

definition room_sort_key :: "room_info \<Rightarrow> bytes" where
  "room_sort_key r = (case ri_id r of Some i \<Rightarrow> rid_uuid i | None \<Rightarrow> [])"

definition user_sort_key :: "user_info \<Rightarrow> u64" where
  "user_sort_key u = (case ui_user_id u of Some i \<Rightarrow> uid_value i | None \<Rightarrow> 0)"

definition canonical_state :: "server_state_msg \<Rightarrow> server_state_msg" where
  "canonical_state s =
     \<lparr>ss_rooms = sort_key room_sort_key (ss_rooms s),
      ss_users = sort_key user_sort_key (ss_users s),
      ss_groups = [], ss_slash_commands = []\<rparr>"

definition compute_server_state_hash ::
  "(server_state_msg \<Rightarrow> bytes) \<Rightarrow> (bytes \<Rightarrow> key32) \<Rightarrow> server_state_msg \<Rightarrow> bytes" where
  "compute_server_state_hash encode blake3 server_state =
     to_be_bytes 32 (blake3 (encode (canonical_state server_state)))"

lemma sort_key_mset_eq:
  assumes "mset xs = mset ys" and "distinct (map f xs)"
  shows "sort_key f xs = sort_key f ys"
proof -
  have inj: "inj_on f (set xs)" and dx: "distinct xs"
    using assms(2) by (simp_all add: distinct_map)
  have sets: "set xs = set ys" using assms(1) by (rule mset_eq_setD)
  have dy: "distinct ys" using assms(1) dx by (metis mset_eq_imp_distinct_iff)
  have "filter (\<lambda>x. f k = f x) (sort_key f ys) = filter (\<lambda>x. f k = f x) xs" if k: "k \<in> set xs" for k
  proof -
    have "filter (\<lambda>x. f k = f x) l = filter (\<lambda>x. x = k) l" if "set l = set xs" for l
      by (rule filter_cong) (use inj k that in \<open>auto simp: inj_on_def\<close>)
    then show ?thesis using sets dx dy k by (simp add: filter_eq_singleton)
  qed
  then show ?thesis
    using assms(1) sets by (intro properties_for_sort_key) simp_all
qed

lemma canonical_state_cong:
  assumes "mset (ss_rooms s) = mset (ss_rooms t)" and "mset (ss_users s) = mset (ss_users t)"
    and "distinct (map room_sort_key (ss_rooms s))" and "distinct (map user_sort_key (ss_users s))"
  shows "canonical_state s = canonical_state t"
  using assms by (simp add: canonical_state_def sort_key_mset_eq)

section \<open>Room ACL version\<close>

definition acl_entry_bytes :: "room_acl_entry \<Rightarrow> bytes" where
  "acl_entry_bytes e =
     to_le_bytes 8 (word_of_nat (length (rae_group e)) :: u64) @ string_bytes (rae_group e) @
     to_le_bytes 4 (rae_grant e) @ to_le_bytes 4 (rae_deny e) @
     [of_bool (rae_apply_here e), of_bool (rae_apply_subs e)]"

definition acl_version_input :: "bool \<Rightarrow> room_acl_entry list \<Rightarrow> bytes" where
  "acl_version_input inherit_acl entries = of_bool inherit_acl # concat (map acl_entry_bytes entries)"

definition room_acl_version :: "(bytes \<Rightarrow> key32) \<Rightarrow> bool \<Rightarrow> room_acl_entry list \<Rightarrow> u64" where
  "room_acl_version blake3 inherit_acl entries =
     (let digest = blake3 (acl_version_input inherit_acl entries);
          v = from_le_bytes (take 8 (to_be_bytes 32 digest))
      in if v = 0 then 1 else v)"

lemma room_acl_version_nonzero: "room_acl_version b i es \<noteq> 0"
  by (simp add: room_acl_version_def Let_def)

lemma acl_entry_bytes_append_inject:
  assumes "length (rae_group e) < 2 ^ 64" and "length (rae_group e') < 2 ^ 64"
  shows "acl_entry_bytes e @ xs = acl_entry_bytes e' @ ys \<longleftrightarrow> e = e' \<and> xs = ys"
proof
  assume eq: "acl_entry_bytes e @ xs = acl_entry_bytes e' @ ys"
  then have "(word_of_nat (length (rae_group e)) :: u64) = word_of_nat (length (rae_group e'))"
    by (simp add: acl_entry_bytes_def to_le_bytes_inject)
  then have "length (rae_group e) = length (rae_group e')"
    using assms by (simp add: word_of_nat_eq_iff take_bit_nat_eq_self)
  with eq have "rae_group e = rae_group e' \<and> rae_grant e = rae_grant e' \<and> rae_deny e = rae_deny e' \<and>
    (of_bool (rae_apply_here e) :: u8) = of_bool (rae_apply_here e') \<and>
    (of_bool (rae_apply_subs e) :: u8) = of_bool (rae_apply_subs e') \<and> xs = ys"
    by (simp add: acl_entry_bytes_def to_le_bytes_inject)
  then show "e = e' \<and> xs = ys" by (auto intro: room_acl_entry.equality)
qed simp

lemma acl_entry_bytes_nonempty [simp]: "acl_entry_bytes e \<noteq> []"
  by (simp add: acl_entry_bytes_def)

lemma acl_entries_bytes_inject:
  assumes "list_all (\<lambda>e. length (rae_group e) < 2 ^ 64) es"
    and "list_all (\<lambda>e. length (rae_group e) < 2 ^ 64) es'"
    and "concat (map acl_entry_bytes es) = concat (map acl_entry_bytes es')"
  shows "es = es'"
  using assms
proof (induction es arbitrary: es')
  case Nil
  then show ?case by (cases es') simp_all
next
  case (Cons e es)
  obtain f fs where es': "es' = f # fs"
    using Cons.prems(3) by (cases es') simp_all
  have "acl_entry_bytes e @ concat (map acl_entry_bytes es) =
      acl_entry_bytes f @ concat (map acl_entry_bytes fs)"
    using Cons.prems(3) es' by simp
  moreover have "length (rae_group e) < 2 ^ 64" "length (rae_group f) < 2 ^ 64"
    using Cons.prems(1,2) es' by simp_all
  ultimately have "e = f" and "concat (map acl_entry_bytes es) = concat (map acl_entry_bytes fs)"
    using acl_entry_bytes_append_inject by blast+
  with Cons.IH [of fs] Cons.prems(1,2) es' show ?case by simp
qed

section \<open>A concrete delimiter\<close>

text \<open>The base-128 length prefix the protobuf format documents, as an instance of the laws.\<close>

function varint :: "nat \<Rightarrow> bytes" where
  "varint n = (if n < 128 then [word_of_nat n] else word_of_nat (n mod 128 + 128) # varint (n div 128))"
  by pat_completeness auto
termination
  by (relation "measure id") auto

declare varint.simps [simp del]

fun varint_decode :: "bytes \<Rightarrow> (nat \<times> bytes) option" where
  "varint_decode [] = None"
| "varint_decode (b # bs) =
     (if unat b < 128 then Some (unat b, bs)
      else map_option (\<lambda>(n, rest). (unat b - 128 + 128 * n, rest)) (varint_decode bs))"

definition varint_delimiter :: delimiter where
  "varint_delimiter =
     \<lparr>encode_length_delimiter = varint, decode_length_delimiter = varint_decode,
      length_delimiter_len = (\<lambda>n. length (varint n))\<rparr>"

lemma unat_u8_small: "n < 256 \<Longrightarrow> unat (word_of_nat n :: u8) = n"
  by (simp add: unat_of_nat take_bit_nat_eq_self)

lemma varint_decode_encode: "varint_decode (varint n @ rest) = Some (n, rest)"
proof (induction n rule: varint.induct)
  case (1 n)
  show ?case
  proof (cases "n < 128")
    case True
    then show ?thesis by (simp add: varint.simps [of n] unat_u8_small)
  next
    case False
    with 1 have "varint_decode (varint (n div 128) @ rest) = Some (n div 128, rest)" by simp
    moreover have "unat (word_of_nat (n mod 128 + 128) :: u8) = n mod 128 + 128"
      by (rule unat_u8_small) (use mod_less_divisor [of 128 n] in linarith)
    ultimately show ?thesis using False by (simp add: varint.simps [of n])
  qed
qed

lemma varint_decode_prefix: "k < length (varint n) \<Longrightarrow> varint_decode (take k (varint n)) = None"
proof (induction n arbitrary: k rule: varint.induct)
  case (1 n)
  show ?case
  proof (cases "n < 128 \<or> k = 0")
    case True
    with 1(2) show ?thesis by (auto simp: varint.simps [of n])
  next
    case False
    then obtain j where k: "k = Suc j" by (cases k) auto
    have "unat (word_of_nat (n mod 128 + 128) :: u8) = n mod 128 + 128"
      by (rule unat_u8_small) (use mod_less_divisor [of 128 n] in linarith)
    moreover have "varint_decode (take j (varint (n div 128))) = None"
      using 1 False k by (simp add: varint.simps [of n])
    ultimately show ?thesis using False k by (simp add: varint.simps [of n])
  qed
qed

lemma varint_delimiter_laws: "delimiter_laws varint_delimiter"
  by (simp add: delimiter_laws_def varint_delimiter_def varint_decode_encode varint_decode_prefix)

section \<open>Properties\<close>

text \<open>C31: Framing is lossless and never splits early. On a buffer that starts with an encoded
  frame the decoder returns that frame and leaves the rest, and on every proper prefix of a
  frame it returns nothing and keeps the buffer for the next read.\<close>

theorem frame_roundtrip:
  assumes "delimiter_laws d" and "length dat < 2 ^ 64"
  shows "try_decode_frame d (encode_frame_raw d dat @ rest) = (Some dat, rest) \<and>
    (\<forall>k < length (encode_frame_raw d dat).
       try_decode_frame d (take k (encode_frame_raw d dat)) = (None, take k (encode_frame_raw d dat)))"
  using try_decode_frame_encode [OF assms] try_decode_frame_incomplete [OF assms] by blast

theorem frame_roundtrip_witness:
  "try_decode_frame varint_delimiter (encode_frame_raw varint_delimiter [1, 2, 3] @ [4]) = (Some [1, 2, 3], [4])"
  using frame_roundtrip [OF varint_delimiter_laws, of "[1, 2, 3]" "[4]"] by simp

lemma hostile_length_panics: "frame_panics varint_delimiter [255, 255, 255, 255, 255, 255, 255, 255, 255, 1]"
proof -
  have "varint_decode [255, 255, 255, 255, 255, 255, 255, 255, 255, 1] = Some (2 ^ 64 - 1, [])" by simp
  moreover have "0 < length (varint n)" for n by (simp add: varint.simps [of n])
  then have "2 ^ 64 \<le> length (varint (2 ^ 64 - 1)) + (2 ^ 64 - 1)" by (simp add: Suc_le_eq)
  ultimately show ?thesis by (simp add: frame_panics_def varint_delimiter_def)
qed

text \<open>The handshake signature covers its fields unambiguously: the payload has 112 bytes,
  and two payloads are equal only when nonce, timestamp, key, user id and certificate hash
  are all equal; the session certificate payload determines its key, times and device name,
  an absent device counting as an empty one.\<close>

theorem signed_payloads_injective:
  "length (build_auth_payload n t k u c) = 112 \<and>
   (build_auth_payload n t k u c = build_auth_payload n' t' k' u' c' \<longleftrightarrow>
     n = n' \<and> t = t' \<and> k = k' \<and> u = u' \<and> c = c') \<and>
   (build_session_cert_payload sk i x dev = build_session_cert_payload sk' i' x' dev' \<longleftrightarrow>
     sk = sk' \<and> i = i' \<and> x = x' \<and>
     (case dev of Some s \<Rightarrow> s | None \<Rightarrow> []) = (case dev' of Some s \<Rightarrow> s | None \<Rightarrow> []))"
  by (intro conjI length_auth_payload auth_payload_inject session_cert_payload_inject)

lemma hash_order_independent:
  assumes "mset rs = mset rs'" and "mset us = mset us'"
    and "distinct (map r_id rs)" and "distinct (map u_user_id us)"
  shows "compute_server_state_hash encode b3
      \<lparr>ss_rooms = map to_hash_input rs, ss_users = map user_to_proto us, ss_groups = gs, ss_slash_commands = cs\<rparr> =
    compute_server_state_hash encode b3
      \<lparr>ss_rooms = map to_hash_input rs', ss_users = map user_to_proto us', ss_groups = gs', ss_slash_commands = cs'\<rparr>"
proof -
  have "room_sort_key (to_hash_input r) = to_be_bytes 16 (r_id r)" for r
    by (simp add: room_sort_key_def to_hash_input_def room_to_proto_def room_id_from_uuid_def)
  moreover have "inj (to_be_bytes 16 :: uuid \<Rightarrow> bytes)" by (simp add: inj_def to_be_bytes_inject)
  ultimately have "distinct (map room_sort_key (map to_hash_input rs))"
    using assms(3) by (auto simp: distinct_map inj_on_def)
  moreover have "user_sort_key (user_to_proto u) = u_user_id u" for u
    by (simp add: user_sort_key_def user_to_proto_def)
  then have "distinct (map user_sort_key (map user_to_proto us))" using assms(4) by (simp add: comp_def)
  ultimately have "canonical_state \<lparr>ss_rooms = map to_hash_input rs, ss_users = map user_to_proto us,
        ss_groups = gs, ss_slash_commands = cs\<rparr> =
      canonical_state \<lparr>ss_rooms = map to_hash_input rs', ss_users = map user_to_proto us',
        ss_groups = gs', ss_slash_commands = cs'\<rparr>"
    using assms(1,2) by (intro canonical_state_cong) (simp_all add: mset_map)
  then show ?thesis by (simp add: compute_server_state_hash_def)
qed

text \<open>The permission overlay of a room is the part of a client's copy that is computed locally.\<close>

definition without_overlay :: "room \<Rightarrow> room" where
  "without_overlay r = r\<lparr>r_effective_permissions := 0\<rparr>"

lemma to_hash_input_overlay: "to_hash_input (without_overlay r) = to_hash_input r"
  by (simp add: without_overlay_def to_hash_input_eq_iff)

text \<open>C32: The state hash depends only on the rooms without their permission overlay and on the
  users: two states whose rooms, overlays removed, and whose users are the same up to their
  order have the same hash, whatever their overlays, groups and slash commands, provided
  rooms and users have distinct identifiers.\<close>

theorem state_hash_order_independent:
  assumes "mset (map without_overlay rs) = mset (map without_overlay rs')" and "mset us = mset us'"
    and "distinct (map r_id rs)" and "distinct (map u_user_id us)"
  shows "compute_server_state_hash encode b3
      \<lparr>ss_rooms = map to_hash_input rs, ss_users = map user_to_proto us, ss_groups = gs, ss_slash_commands = cs\<rparr> =
    compute_server_state_hash encode b3
      \<lparr>ss_rooms = map to_hash_input rs', ss_users = map user_to_proto us', ss_groups = gs', ss_slash_commands = cs'\<rparr>"
proof -
  have "map to_hash_input (map without_overlay l) = map to_hash_input l" for l
    by (simp add: comp_def to_hash_input_overlay)
  moreover have "distinct (map r_id (map without_overlay rs))"
    using assms(3) by (simp add: comp_def without_overlay_def)
  ultimately show ?thesis
    using hash_order_independent [OF assms(1,2) _ assms(4)] by metis
qed

definition hash_room :: "uuid \<Rightarrow> u32 \<Rightarrow> room" where
  "hash_room u perms =
     \<lparr>r_id = u, r_name = ''r'', r_parent = 0, r_description = None, r_inherit_acl = True, r_acls = [],
      r_effective_permissions = perms\<rparr>"

theorem state_hash_order_independent_witness:
  "compute_server_state_hash (\<lambda>_. []) (\<lambda>_. 0)
     \<lparr>ss_rooms = map to_hash_input [hash_room 1 0, hash_room 2 0], ss_users = map user_to_proto [],
      ss_groups = [], ss_slash_commands = []\<rparr> =
   compute_server_state_hash (\<lambda>_. []) (\<lambda>_. 0)
     \<lparr>ss_rooms = map to_hash_input [hash_room 2 7, hash_room 1 9], ss_users = map user_to_proto [],
      ss_groups = [], ss_slash_commands = []\<rparr>"
  by (rule state_hash_order_independent) (simp_all add: hash_room_def without_overlay_def)

text \<open>The access-list version is computed from bytes that determine the list: two different
  lists, or inheritance flags, are never hashed from the same bytes, and no version is the
  value 0 that asks for an unconditional write.\<close>

theorem acl_version_input_injective:
  assumes "list_all (\<lambda>e. length (rae_group e) < 2 ^ 64) es"
    and "list_all (\<lambda>e. length (rae_group e) < 2 ^ 64) es'"
  shows "(acl_version_input i es = acl_version_input i' es' \<longleftrightarrow> i = i' \<and> es = es') \<and>
    room_acl_version b3 i es \<noteq> 0"
  using assms acl_entries_bytes_inject [OF assms]
  by (auto simp: acl_version_input_def room_acl_version_nonzero)

theorem acl_version_input_injective_witness:
  "acl_version_input True [] \<noteq> acl_version_input True
     [\<lparr>rae_group = ''a'', rae_grant = 1, rae_deny = 0, rae_apply_here = True, rae_apply_subs = True\<rparr>]"
  using acl_version_input_injective [of "[]"
      "[\<lparr>rae_group = ''a'', rae_grant = 1, rae_deny = 0, rae_apply_here = True, rae_apply_subs = True\<rparr>]"
      True True "\<lambda>_. 0"]
  by simp

text \<open>Conversion to the wire types and back loses nothing: rooms with their access entries,
  users, group definitions, slash commands and chat attachments all come back as they were,
  and so does every group membership with an expiry other than the reserved 0.\<close>

theorem proto_roundtrips:
  "room_from_proto (room_to_proto r) = Some r \<and>
   user_from_proto (user_to_proto u) = Some u \<and>
   group_from_proto (group_to_proto g) = g \<and>
   slash_command_from_proto (slash_command_to_proto c) = c \<and>
   chat_attachment_from_proto (chat_attachment_to_proto a) = a \<and>
   (group_membership_from_proto (group_membership_to_proto m) = m \<longleftrightarrow> gm_expires_at m \<noteq> Some 0)"
  by (simp add: room_roundtrip user_roundtrip group_roundtrip slash_command_roundtrip
      chat_attachment_roundtrip group_membership_roundtrip)

end
