(* ===== verification/Persistence.thy ===== *)
theory Persistence
  imports Permissions
begin

text \<open>
  The database of the server (\<open>server/src/persistence.rs\<close>): registered users, known keys,
  rooms, permission groups, group memberships with their expiries, room access lists, bans
  and the sudo password. A tree holds decoded records under typed keys, in key order. Writes
  return a result: \<open>p_fault\<close> is the error every write reports while the storage refuses
  writes, and \<open>None\<close> while it accepts them. Reads of the source turn storage errors into
  absent values; here a stored record can always be read.
\<close>

section \<open>Records\<close>

record persisted_ban =
  banned_at_secs :: "u64 option"
  duration_seconds :: u64
  ban_reason :: string
  banned_by :: string

definition ban_is_expired :: "persisted_ban \<Rightarrow> u64 \<Rightarrow> bool" where
  "ban_is_expired b now_secs =
     (if duration_seconds b = 0 then False
      else case banned_at_secs b of
             Some at \<Rightarrow> now_secs \<ge> u64_saturating_add at (duration_seconds b)
           | None \<Rightarrow> False)"

record registered_user =
  ru_username :: string
  ru_last_room :: "uuid option"

record persisted_room =
  pr_name :: string
  pr_parent :: "uuid option"
  pr_description :: string
  pr_permanent :: bool

record persisted_group =
  pgr_permissions :: u32

record persisted_acl_entry =
  pe_group :: string
  pe_grant :: u32
  pe_deny :: u32
  pe_apply_here :: bool
  pe_apply_subs :: bool

record persisted_room_acl =
  pa_inherit_acl :: bool
  pa_entries :: "persisted_acl_entry list"

record persistence =
  p_registered_users :: "(key32, registered_user) tree"
  p_known_keys :: "(key32, unit) tree"
  p_rooms :: "(uuid, persisted_room) tree"
  p_groups :: "(string, persisted_group) tree"
  p_user_groups :: "(key32, string list) tree"
  p_group_expiries :: "(key32 \<times> string, u64) tree"
  p_room_acls :: "(uuid, persisted_room_acl) tree"
  p_sudo_password :: "string option"
  p_participant_defaults :: "(key32, string) tree"
  p_bans :: "(key32, persisted_ban) tree"
  p_fault :: "string option"

definition persistence_open :: persistence where
  "persistence_open =
     \<lparr>p_registered_users = [], p_known_keys = [], p_rooms = [], p_groups = [],
      p_user_groups = [], p_group_expiries = [], p_room_acls = [], p_sudo_password = None,
      p_participant_defaults = [], p_bans = [], p_fault = None\<rparr>"

type_synonym 'a persisted = "'a outcome \<times> persistence"

definition p_write :: "(persistence \<Rightarrow> persistence) \<Rightarrow> persistence \<Rightarrow> unit persisted" where
  "p_write f p = (case p_fault p of None \<Rightarrow> (Inr (), f p) | Some e \<Rightarrow> (Inl e, p))"

definition p_bind :: "'a persisted \<Rightarrow> ('a \<Rightarrow> persistence \<Rightarrow> 'b persisted) \<Rightarrow> 'b persisted" where
  "p_bind r f = (case r of (Inl e, p) \<Rightarrow> (Inl e, p) | (Inr a, p) \<Rightarrow> f a p)"

section \<open>Registered users and known keys\<close>

definition get_registered_user :: "persistence \<Rightarrow> key32 \<Rightarrow> registered_user option" where
  "get_registered_user p public_key = tree_get (p_registered_users p) public_key"

definition list_registered_users :: "persistence \<Rightarrow> (key32 \<times> registered_user) list" where
  "list_registered_users p = p_registered_users p"

definition register_user :: "key32 \<Rightarrow> registered_user \<Rightarrow> persistence \<Rightarrow> unit persisted" where
  "register_user public_key u =
     p_write (\<lambda>p. p\<lparr>p_registered_users := tree_insert public_key u (p_registered_users p)\<rparr>)"

definition unregister_user :: "key32 \<Rightarrow> persistence \<Rightarrow> unit persisted" where
  "unregister_user public_key =
     p_write (\<lambda>p. p\<lparr>p_registered_users := tree_remove public_key (p_registered_users p)\<rparr>)"

text \<open>The first record whose name matches decides; later ones are not looked at.\<close>

definition is_username_taken :: "persistence \<Rightarrow> string \<Rightarrow> key32 \<Rightarrow> bool" where
  "is_username_taken p username public_key =
     (case List.find (\<lambda>(_, u). eq_ignore_ascii_case (ru_username u) username)
             (p_registered_users p) of
        Some (key, _) \<Rightarrow> key \<noteq> public_key
      | None \<Rightarrow> False)"

definition is_registered :: "persistence \<Rightarrow> key32 \<Rightarrow> bool" where
  "is_registered p public_key = tree_contains (p_registered_users p) public_key"

definition is_known_key :: "persistence \<Rightarrow> key32 \<Rightarrow> bool" where
  "is_known_key p public_key = tree_contains (p_known_keys p) public_key"

definition add_known_key :: "key32 \<Rightarrow> persistence \<Rightarrow> unit persisted" where
  "add_known_key public_key =
     p_write (\<lambda>p. p\<lparr>p_known_keys := tree_insert public_key () (p_known_keys p)\<rparr>)"

definition remove_known_key :: "key32 \<Rightarrow> persistence \<Rightarrow> unit persisted" where
  "remove_known_key public_key =
     p_write (\<lambda>p. p\<lparr>p_known_keys := tree_remove public_key (p_known_keys p)\<rparr>)"

definition is_username_registered :: "persistence \<Rightarrow> string \<Rightarrow> bool" where
  "is_username_registered p username \<longleftrightarrow>
     list_ex (\<lambda>(_, u). eq_ignore_ascii_case (ru_username u) username) (p_registered_users p)"

section \<open>Rooms\<close>

definition get_room :: "persistence \<Rightarrow> uuid \<Rightarrow> persisted_room option" where
  "get_room p u = tree_get (p_rooms p) u"

definition save_room :: "uuid \<Rightarrow> persisted_room \<Rightarrow> persistence \<Rightarrow> unit persisted" where
  "save_room u r = p_write (\<lambda>p. p\<lparr>p_rooms := tree_insert u r (p_rooms p)\<rparr>)"

definition persist_delete_room :: "uuid \<Rightarrow> persistence \<Rightarrow> unit persisted" where
  "persist_delete_room u = p_write (\<lambda>p. p\<lparr>p_rooms := tree_remove u (p_rooms p)\<rparr>)"

definition get_all_rooms :: "persistence \<Rightarrow> (uuid \<times> persisted_room) list" where
  "get_all_rooms p = p_rooms p"

definition update_user_last_room :: "key32 \<Rightarrow> uuid option \<Rightarrow> persistence \<Rightarrow> unit persisted" where
  "update_user_last_room public_key room_uuid p =
     (case get_registered_user p public_key of
        Some u \<Rightarrow> register_user public_key (u\<lparr>ru_last_room := room_uuid\<rparr>) p
      | None \<Rightarrow> (Inr (), p))"

section \<open>Permission groups\<close>

definition create_group :: "string \<Rightarrow> u32 \<Rightarrow> persistence \<Rightarrow> unit persisted" where
  "create_group name perms =
     p_write (\<lambda>p. p\<lparr>p_groups := tree_insert name \<lparr>pgr_permissions = perms\<rparr> (p_groups p)\<rparr>)"

definition get_group :: "persistence \<Rightarrow> string \<Rightarrow> persisted_group option" where
  "get_group p name = tree_get (p_groups p) name"

definition delete_group :: "string \<Rightarrow> persistence \<Rightarrow> unit persisted" where
  "delete_group name = p_write (\<lambda>p. p\<lparr>p_groups := tree_remove name (p_groups p)\<rparr>)"

definition modify_group :: "string \<Rightarrow> u32 \<Rightarrow> persistence \<Rightarrow> bool persisted" where
  "modify_group name perms p =
     (if tree_contains (p_groups p) name
      then p_bind (create_group name perms p) (\<lambda>_ p'. (Inr True, p'))
      else (Inr False, p))"

text \<open>The compare-and-swap of the tree: read, compute and write in one step.\<close>

definition toggle_group_permission :: "string \<Rightarrow> u32 \<Rightarrow> bool \<Rightarrow> persistence \<Rightarrow> u32 option persisted" where
  "toggle_group_permission name bits enable p =
     (case get_group p name of
        None \<Rightarrow> p_bind (p_write (\<lambda>p. p) p) (\<lambda>_ p'. (Inr None, p'))
      | Some g \<Rightarrow>
          let perms = (if enable then pgr_permissions g OR bits
                       else pgr_permissions g AND NOT bits)
          in p_bind (create_group name perms p) (\<lambda>_ p'. (Inr (Some perms), p')))"

definition list_groups :: "persistence \<Rightarrow> (string \<times> persisted_group) list" where
  "list_groups p = p_groups p"

definition ensure_default_groups :: "persistence \<Rightarrow> unit persisted" where
  "ensure_default_groups p =
     p_bind
       (if p_groups p = [] then
          p_bind (create_group ''default'' DEFAULT_PERMISSIONS p)
            (\<lambda>_. create_group ''admin'' ADMIN_PERMISSIONS)
        else (Inr (), p))
       (\<lambda>_ p.
          case get_group p ''admin'' of
            None \<Rightarrow> (Inr (), p)
          | Some g \<Rightarrow>
              let perms = from_bits_truncate (pgr_permissions g) in
              if contains perms BANNED
              then p_bind (modify_group ''admin'' (perms AND NOT BANNED) p) (\<lambda>_ p'. (Inr (), p'))
              else (Inr (), p))"

section \<open>Group memberships\<close>

definition set_user_groups :: "key32 \<Rightarrow> string list \<Rightarrow> persistence \<Rightarrow> unit persisted" where
  "set_user_groups public_key gs =
     p_write (\<lambda>p. p\<lparr>p_user_groups := tree_insert public_key gs (p_user_groups p)\<rparr>)"

definition get_user_groups :: "persistence \<Rightarrow> key32 \<Rightarrow> string list" where
  "get_user_groups p public_key =
     (case tree_get (p_user_groups p) public_key of Some gs \<Rightarrow> gs | None \<Rightarrow> [])"

definition set_participant_default_group :: "key32 \<Rightarrow> string option \<Rightarrow> persistence \<Rightarrow> unit persisted" where
  "set_participant_default_group public_key grp =
     p_write (\<lambda>p. p\<lparr>p_participant_defaults :=
       (case grp of Some g \<Rightarrow> tree_insert public_key g (p_participant_defaults p)
        | None \<Rightarrow> tree_remove public_key (p_participant_defaults p))\<rparr>)"

definition get_participant_default_group :: "persistence \<Rightarrow> key32 \<Rightarrow> string option" where
  "get_participant_default_group p public_key = tree_get (p_participant_defaults p) public_key"

text \<open>A missing record is changed from the empty list, so it exists afterwards.\<close>

definition update_user_groups ::
  "key32 \<Rightarrow> (string list \<Rightarrow> string list) \<Rightarrow> persistence \<Rightarrow> unit persisted" where
  "update_user_groups public_key mutate =
     p_write (\<lambda>p. p\<lparr>p_user_groups :=
       tree_insert public_key (mutate (get_user_groups p public_key)) (p_user_groups p)\<rparr>)"

definition expiry_key :: "key32 \<Rightarrow> string \<Rightarrow> key32 \<times> string" where
  "expiry_key public_key grp = (public_key, grp)"

definition set_group_expiry :: "key32 \<Rightarrow> string \<Rightarrow> u64 \<Rightarrow> persistence \<Rightarrow> unit persisted" where
  "set_group_expiry public_key grp expires_at =
     p_write (\<lambda>p. p\<lparr>p_group_expiries :=
       (if expires_at = 0 then tree_remove (expiry_key public_key grp) (p_group_expiries p)
        else tree_insert (expiry_key public_key grp) expires_at (p_group_expiries p))\<rparr>)"

definition get_group_expiry :: "persistence \<Rightarrow> key32 \<Rightarrow> string \<Rightarrow> u64" where
  "get_group_expiry p public_key grp =
     (case tree_get (p_group_expiries p) (expiry_key public_key grp) of Some t \<Rightarrow> t | None \<Rightarrow> 0)"

definition add_user_to_group_with_expiry ::
  "key32 \<Rightarrow> string \<Rightarrow> u64 \<Rightarrow> persistence \<Rightarrow> unit persisted" where
  "add_user_to_group_with_expiry public_key grp expires_at p =
     p_bind (update_user_groups public_key (push_new grp) p)
       (\<lambda>_. set_group_expiry public_key grp expires_at)"

definition add_user_to_group :: "key32 \<Rightarrow> string \<Rightarrow> persistence \<Rightarrow> unit persisted" where
  "add_user_to_group public_key grp = add_user_to_group_with_expiry public_key grp 0"

definition remove_expiry :: "key32 \<Rightarrow> string \<Rightarrow> persistence \<Rightarrow> unit persisted" where
  "remove_expiry public_key grp =
     p_write (\<lambda>p. p\<lparr>p_group_expiries := tree_remove (expiry_key public_key grp) (p_group_expiries p)\<rparr>)"

definition remove_user_from_group :: "key32 \<Rightarrow> string \<Rightarrow> persistence \<Rightarrow> unit persisted" where
  "remove_user_from_group public_key grp p =
     p_bind (update_user_groups public_key (retain (\<lambda>g. g \<noteq> grp)) p)
       (\<lambda>_ p'. (Inr (), snd (remove_expiry public_key grp p')))"

definition remove_group_from_all_users :: "string \<Rightarrow> persistence \<Rightarrow> persistence" where
  "remove_group_from_all_users grp p =
     fold (\<lambda>key p. snd (remove_expiry key grp (snd (update_user_groups key (retain (\<lambda>g. g \<noteq> grp)) p))))
       (map fst (p_user_groups p)) p"

definition membership_expired :: "persistence \<Rightarrow> key32 \<Rightarrow> u64 \<Rightarrow> string \<Rightarrow> bool" where
  "membership_expired p public_key now_secs g \<longleftrightarrow>
     get_group_expiry p public_key g \<noteq> 0 \<and> now_secs \<ge> get_group_expiry p public_key g"

text \<open>The group list is read once; expired memberships are dropped while it is walked.\<close>

fun active_groups_loop ::
  "key32 \<Rightarrow> u64 \<Rightarrow> string list \<Rightarrow> string list \<Rightarrow> persistence \<Rightarrow> string list \<times> persistence" where
  "active_groups_loop public_key now_secs [] active p = (active, p)"
| "active_groups_loop public_key now_secs (g # gs) active p =
     (if membership_expired p public_key now_secs g
      then active_groups_loop public_key now_secs gs active (snd (remove_user_from_group public_key g p))
      else active_groups_loop public_key now_secs gs (active @ [g]) p)"

definition active_user_groups :: "key32 \<Rightarrow> u64 \<Rightarrow> persistence \<Rightarrow> string list \<times> persistence" where
  "active_user_groups public_key now_secs p =
     active_groups_loop public_key now_secs (get_user_groups p public_key) [] p"

definition expired_memberships :: "u64 \<Rightarrow> persistence \<Rightarrow> (key32 \<times> string) list" where
  "expired_memberships now_secs p =
     map fst (filter (\<lambda>(_, expires_at). \<not> (expires_at = 0 \<or> now_secs < expires_at))
       (p_group_expiries p))"

definition persist_sweep_expired_memberships ::
  "u64 \<Rightarrow> persistence \<Rightarrow> (key32 \<times> string) list \<times> persistence" where
  "persist_sweep_expired_memberships now_secs p =
     (let expired = expired_memberships now_secs p in
      (expired, fold (\<lambda>(key, grp) p. snd (remove_user_from_group key grp p)) expired p))"

section \<open>Room access lists, bans, sudo password\<close>

definition persist_set_room_acl :: "uuid \<Rightarrow> persisted_room_acl \<Rightarrow> persistence \<Rightarrow> unit persisted" where
  "persist_set_room_acl room_uuid acl =
     p_write (\<lambda>p. p\<lparr>p_room_acls := tree_insert room_uuid acl (p_room_acls p)\<rparr>)"

definition get_room_acl :: "persistence \<Rightarrow> uuid \<Rightarrow> persisted_room_acl option" where
  "get_room_acl p room_uuid = tree_get (p_room_acls p) room_uuid"

definition delete_room_acl :: "uuid \<Rightarrow> persistence \<Rightarrow> unit persisted" where
  "delete_room_acl room_uuid =
     p_write (\<lambda>p. p\<lparr>p_room_acls := tree_remove room_uuid (p_room_acls p)\<rparr>)"

definition set_ban :: "key32 \<Rightarrow> persisted_ban \<Rightarrow> persistence \<Rightarrow> unit persisted" where
  "set_ban public_key ban = p_write (\<lambda>p. p\<lparr>p_bans := tree_insert public_key ban (p_bans p)\<rparr>)"

definition get_ban :: "persistence \<Rightarrow> key32 \<Rightarrow> persisted_ban option" where
  "get_ban p public_key = tree_get (p_bans p) public_key"

definition remove_ban :: "key32 \<Rightarrow> persistence \<Rightarrow> unit persisted" where
  "remove_ban public_key = p_write (\<lambda>p. p\<lparr>p_bans := tree_remove public_key (p_bans p)\<rparr>)"

definition expired_bans :: "u64 \<Rightarrow> persistence \<Rightarrow> key32 list" where
  "expired_bans now_secs p = map fst (filter (\<lambda>(_, b). ban_is_expired b now_secs) (p_bans p))"

definition sweep_expired_bans :: "u64 \<Rightarrow> persistence \<Rightarrow> nat \<times> persistence" where
  "sweep_expired_bans now_secs p =
     (let expired = expired_bans now_secs p in
      (length expired,
       fold (\<lambda>key p. snd (remove_user_from_group key ''banned'' (snd (remove_ban key p)))) expired p))"

definition set_sudo_password :: "string \<Rightarrow> persistence \<Rightarrow> unit persisted" where
  "set_sudo_password hash = p_write (\<lambda>p. p\<lparr>p_sudo_password := Some hash\<rparr>)"

definition get_sudo_password :: "persistence \<Rightarrow> string option" where
  "get_sudo_password p = p_sudo_password p"

section \<open>Invariant\<close>

text \<open>Every tree is ordered by its keys, and no membership list names a group twice.\<close>

definition persistence_ok :: "persistence \<Rightarrow> bool" where
  "persistence_ok p \<longleftrightarrow>
     tree_ok (p_registered_users p) \<and> tree_ok (p_known_keys p) \<and> tree_ok (p_rooms p) \<and>
     tree_ok (p_groups p) \<and> tree_ok (p_user_groups p) \<and> tree_ok (p_group_expiries p) \<and>
     tree_ok (p_room_acls p) \<and> tree_ok (p_participant_defaults p) \<and> tree_ok (p_bans p) \<and>
     (\<forall>k. distinct (get_user_groups p k))"

lemma p_write_fault [simp]: "p_fault p = Some e \<Longrightarrow> p_write f p = (Inl e, p)"
  by (simp add: p_write_def)

lemma p_write_ok [simp]: "p_fault p = None \<Longrightarrow> p_write f p = (Inr (), f p)"
  by (simp add: p_write_def)

lemma p_write_preserves: "(\<And>q. P q \<Longrightarrow> P (f q)) \<Longrightarrow> P p \<Longrightarrow> P (snd (p_write f p))"
  by (simp add: p_write_def split: option.splits)

lemma p_write_fst: "fst (p_write f p) = (case p_fault p of None \<Rightarrow> Inr () | Some e \<Rightarrow> Inl e)"
  by (simp add: p_write_def split: option.splits)

lemma snd_p_bind: "snd (p_bind r f) = (case fst r of Inl e \<Rightarrow> snd r | Inr a \<Rightarrow> snd (f a (snd r)))"
  by (cases r) (auto simp: p_bind_def split: sum.splits)

lemma fst_p_bind: "fst (p_bind r f) = (case fst r of Inl e \<Rightarrow> Inl e | Inr a \<Rightarrow> fst (f a (snd r)))"
  by (cases r) (auto simp: p_bind_def split: sum.splits)

lemma p_bind_Inr [simp]: "p_bind (Inr a, p) f = f a p"
  by (simp add: p_bind_def)

lemma p_bind_Inl [simp]: "p_bind (Inl e, p) f = (Inl e, p)"
  by (simp add: p_bind_def)

lemma persistence_ok_open: "persistence_ok persistence_open"
  by (simp add: persistence_ok_def persistence_open_def get_user_groups_def)

lemma get_user_groups_insert:
  "get_user_groups (p\<lparr>p_user_groups := tree_insert k gs (p_user_groups p)\<rparr>) =
     (get_user_groups p)(k := gs)"
  by (auto simp: get_user_groups_def fun_eq_iff kv_simps)

text \<open>Writes to the other trees leave the memberships alone.\<close>

lemma get_user_groups_frame [frame_simps]:
  "get_user_groups (p\<lparr>p_registered_users := a\<rparr>) = get_user_groups p"
  "get_user_groups (p\<lparr>p_known_keys := b\<rparr>) = get_user_groups p"
  "get_user_groups (p\<lparr>p_rooms := c\<rparr>) = get_user_groups p"
  "get_user_groups (p\<lparr>p_groups := d\<rparr>) = get_user_groups p"
  "get_user_groups (p\<lparr>p_group_expiries := f\<rparr>) = get_user_groups p"
  "get_user_groups (p\<lparr>p_room_acls := g\<rparr>) = get_user_groups p"
  "get_user_groups (p\<lparr>p_sudo_password := h\<rparr>) = get_user_groups p"
  "get_user_groups (p\<lparr>p_participant_defaults := i\<rparr>) = get_user_groups p"
  "get_user_groups (p\<lparr>p_bans := j\<rparr>) = get_user_groups p"
  by (simp_all add: get_user_groups_def fun_eq_iff)

lemma persistence_ok_writes:
  "persistence_ok p \<Longrightarrow> persistence_ok (snd (register_user k u p))"
  "persistence_ok p \<Longrightarrow> persistence_ok (snd (unregister_user k p))"
  "persistence_ok p \<Longrightarrow> persistence_ok (snd (add_known_key k p))"
  "persistence_ok p \<Longrightarrow> persistence_ok (snd (remove_known_key k p))"
  "persistence_ok p \<Longrightarrow> persistence_ok (snd (save_room v r p))"
  "persistence_ok p \<Longrightarrow> persistence_ok (snd (persist_delete_room v p))"
  "persistence_ok p \<Longrightarrow> persistence_ok (snd (create_group n w p))"
  "persistence_ok p \<Longrightarrow> persistence_ok (snd (delete_group n p))"
  "persistence_ok p \<Longrightarrow> persistence_ok (snd (set_participant_default_group k x p))"
  "persistence_ok p \<Longrightarrow> persistence_ok (snd (set_group_expiry k n e p))"
  "persistence_ok p \<Longrightarrow> persistence_ok (snd (remove_expiry k n p))"
  "persistence_ok p \<Longrightarrow> persistence_ok (snd (persist_set_room_acl v acl p))"
  "persistence_ok p \<Longrightarrow> persistence_ok (snd (delete_room_acl v p))"
  "persistence_ok p \<Longrightarrow> persistence_ok (snd (set_ban k b p))"
  "persistence_ok p \<Longrightarrow> persistence_ok (snd (remove_ban k p))"
  "persistence_ok p \<Longrightarrow> persistence_ok (snd (set_sudo_password n p))"
  unfolding register_user_def unregister_user_def add_known_key_def remove_known_key_def
    save_room_def persist_delete_room_def create_group_def delete_group_def
    set_participant_default_group_def set_group_expiry_def remove_expiry_def
    persist_set_room_acl_def delete_room_acl_def set_ban_def remove_ban_def set_sudo_password_def
  by (erule p_write_preserves [rotated],
      simp add: persistence_ok_def frame_simps tree_ok_insert tree_ok_remove split: option.splits)+

lemma persistence_ok_update_user_groups:
  assumes "persistence_ok p" and "\<And>gs. distinct gs \<Longrightarrow> distinct (f gs)"
  shows "persistence_ok (snd (update_user_groups k f p))"
  using assms(1) unfolding update_user_groups_def
  by (rule p_write_preserves [rotated])
    (simp add: persistence_ok_def get_user_groups_insert tree_ok_insert assms(2))

lemma persistence_ok_memberships:
  assumes "persistence_ok p"
  shows "persistence_ok (snd (add_user_to_group_with_expiry k g e p))"
    and "persistence_ok (snd (add_user_to_group k g p))"
    and "persistence_ok (snd (remove_user_from_group k g p))"
  using assms persistence_ok_update_user_groups [OF assms, of "push_new g" k]
    persistence_ok_update_user_groups [OF assms, of "retain (\<lambda>x. x \<noteq> g)" k]
  by (auto simp: add_user_to_group_def add_user_to_group_with_expiry_def
      remove_user_from_group_def snd_p_bind persistence_ok_writes split: sum.splits)

lemma persistence_ok_fold:
  "(\<And>x q. persistence_ok q \<Longrightarrow> persistence_ok (f x q)) \<Longrightarrow> persistence_ok p \<Longrightarrow>
     persistence_ok (fold f xs p)"
  by (induction xs arbitrary: p) auto

lemma persistence_ok_group_ops:
  assumes "persistence_ok p"
  shows "persistence_ok (snd (modify_group n w p))"
    and "persistence_ok (snd (toggle_group_permission n w en p))"
    and "persistence_ok (remove_group_from_all_users n p)"
  using assms
  by (auto simp: modify_group_def toggle_group_permission_def remove_group_from_all_users_def
      snd_p_bind persistence_ok_writes Let_def p_write_def
      intro!: persistence_ok_fold persistence_ok_writes(11) persistence_ok_update_user_groups
      split: sum.splits option.splits)

lemma persistence_ok_sweeps:
  assumes "persistence_ok p"
  shows "persistence_ok (snd (persist_sweep_expired_memberships now p))"
    and "persistence_ok (snd (sweep_expired_bans now p))"
  using assms
  by (auto simp: persist_sweep_expired_memberships_def sweep_expired_bans_def Let_def
      persistence_ok_memberships persistence_ok_writes intro!: persistence_ok_fold)

lemma persistence_ok_active_loop:
  "persistence_ok p \<Longrightarrow> persistence_ok (snd (active_groups_loop k now gs acc p))"
  by (induction k now gs acc p rule: active_groups_loop.induct)
    (auto simp: persistence_ok_memberships)

lemma persistence_ok_update_last_room:
  "persistence_ok p \<Longrightarrow> persistence_ok (snd (update_user_last_room k r p))"
  by (simp add: update_user_last_room_def persistence_ok_writes split: option.splits)

section \<open>Memberships over time\<close>

lemma p_fault_membership_ops [simp]:
  "p_fault (snd (update_user_groups k f p)) = p_fault p"
  "p_fault (snd (set_group_expiry k g e p)) = p_fault p"
  "p_fault (snd (remove_expiry k g p)) = p_fault p"
  "p_fault (snd (remove_ban k p)) = p_fault p"
  by (simp_all add: update_user_groups_def set_group_expiry_def remove_expiry_def remove_ban_def
      p_write_def split: option.splits)

lemma p_fault_remove_user_from_group [simp]:
  "p_fault (snd (remove_user_from_group k g p)) = p_fault p"
  by (simp add: remove_user_from_group_def snd_p_bind split: sum.splits)

lemma get_user_groups_add:
  "p_fault p = None \<Longrightarrow>
     get_user_groups (snd (add_user_to_group_with_expiry k g e p)) =
       (get_user_groups p)(k := push_new g (get_user_groups p k))"
  by (simp add: add_user_to_group_with_expiry_def update_user_groups_def set_group_expiry_def
      get_user_groups_insert frame_simps)

lemma get_user_groups_remove:
  "p_fault p = None \<Longrightarrow>
     get_user_groups (snd (remove_user_from_group k g p)) =
       (get_user_groups p)(k := filter (\<lambda>x. x \<noteq> g) (get_user_groups p k))"
  by (simp add: remove_user_from_group_def update_user_groups_def remove_expiry_def
      get_user_groups_insert frame_simps)

lemma get_group_expiry_add:
  "p_fault p = None \<Longrightarrow>
     get_group_expiry (snd (add_user_to_group_with_expiry k g e p)) k' g' =
       (if k' = k \<and> g' = g then e else get_group_expiry p k' g')"
  by (auto simp: add_user_to_group_with_expiry_def update_user_groups_def set_group_expiry_def
      get_group_expiry_def expiry_key_def kv_simps)

lemma get_group_expiry_remove:
  "p_fault p = None \<Longrightarrow>
     get_group_expiry (snd (remove_user_from_group k g p)) k' g' =
       (if k' = k \<and> g' = g then 0 else get_group_expiry p k' g')"
  by (auto simp: remove_user_from_group_def update_user_groups_def remove_expiry_def
      get_group_expiry_def expiry_key_def kv_simps)

lemma get_group_expiry_remove_other:
  "(k', g') \<noteq> (k, g) \<Longrightarrow>
     get_group_expiry (snd (remove_user_from_group k g p)) k' g' = get_group_expiry p k' g'"
proof (cases "p_fault p")
  case (Some e)
  then have "snd (remove_user_from_group k g p) = p"
    by (simp add: remove_user_from_group_def update_user_groups_def)
  then show ?thesis by simp
qed (auto simp: get_group_expiry_remove)

lemma membership_expired_remove_other:
  "x \<noteq> g \<Longrightarrow>
     membership_expired (snd (remove_user_from_group k g p)) k now x = membership_expired p k now x"
  by (simp add: membership_expired_def get_group_expiry_remove_other)

lemma active_groups_loop_fst:
  "distinct gs \<Longrightarrow> fst (active_groups_loop k now gs acc p) =
     acc @ filter (\<lambda>g. \<not> membership_expired p k now g) gs"
proof (induction k now gs acc p rule: active_groups_loop.induct)
  case (2 k now g gs acc p)
  have same: "membership_expired (snd (remove_user_from_group k g p)) k now x =
      membership_expired p k now x" if "x \<in> set gs" for x
    by (rule membership_expired_remove_other) (use that 2(3) in auto)
  then have "filter (\<lambda>x. \<not> membership_expired (snd (remove_user_from_group k g p)) k now x) gs =
      filter (\<lambda>x. \<not> membership_expired p k now x) gs"
    by (auto intro!: filter_cong)
  with 2 show ?case by simp
qed simp

lemma active_user_groups_fst:
  "distinct (get_user_groups p k) \<Longrightarrow>
     fst (active_user_groups k now p) =
       filter (\<lambda>g. \<not> membership_expired p k now g) (get_user_groups p k)"
  by (simp add: active_user_groups_def active_groups_loop_fst)

lemma active_groups_loop_store:
  "p_fault p = None \<Longrightarrow> distinct gs \<Longrightarrow>
     get_user_groups (snd (active_groups_loop k now gs acc p)) k' =
       (if k' = k
        then filter (\<lambda>g. \<not> (g \<in> set gs \<and> membership_expired p k now g)) (get_user_groups p k)
        else get_user_groups p k')"
proof (induction k now gs acc p rule: active_groups_loop.induct)
  case (2 k now g gs acc p)
  let ?q = "snd (remove_user_from_group k g p)"
  have same: "membership_expired ?q k now x = membership_expired p k now x" if "x \<in> set gs" for x
    by (rule membership_expired_remove_other) (use that 2(4) in auto)
  show ?case
  proof (cases "membership_expired p k now g")
    case True
    with 2 same show ?thesis
      by (auto simp: get_user_groups_remove intro!: filter_cong)
  next
    case False
    with 2 show ?thesis by (auto intro!: filter_cong)
  qed
qed simp

lemma active_user_groups_store:
  assumes "p_fault p = None" and "distinct (get_user_groups p k)"
  shows "get_user_groups (snd (active_user_groups k now p)) k' =
    (if k' = k then fst (active_user_groups k now p) else get_user_groups p k')"
  using assms unfolding active_user_groups_def
  by (auto simp: active_groups_loop_store active_groups_loop_fst intro!: filter_cong)

lemma sweep_fold_groups:
  "p_fault p = None \<Longrightarrow>
     get_user_groups (fold (\<lambda>(key, grp) p. snd (remove_user_from_group key grp p)) l p) k =
       filter (\<lambda>g. (k, g) \<notin> set l) (get_user_groups p k)"
  by (induction l arbitrary: p) (auto simp: get_user_groups_remove intro!: filter_cong)

lemma sweep_fold_expiries:
  "p_fault p = None \<Longrightarrow>
     get_group_expiry (fold (\<lambda>(key, grp) p. snd (remove_user_from_group key grp p)) l p) k g =
       (if (k, g) \<in> set l then 0 else get_group_expiry p k g)"
  by (induction l arbitrary: p) (auto simp: get_group_expiry_remove split: if_splits)

lemma expired_memberships_iff:
  "tree_ok (p_group_expiries p) \<Longrightarrow>
     (k, g) \<in> set (expired_memberships now p) \<longleftrightarrow> membership_expired p k now g"
  by (force simp: expired_memberships_def membership_expired_def get_group_expiry_def
      expiry_key_def tr.entries_get split: option.splits)

section \<open>Bans and groups\<close>

lemma lift_ban_fold:
  "p_fault p = None \<Longrightarrow>
     get_ban (fold (\<lambda>key p. snd (remove_user_from_group key ''banned'' (snd (remove_ban key p)))) l p) k =
       (if k \<in> set l then None else get_ban p k) \<and>
     get_user_groups (fold (\<lambda>key p. snd (remove_user_from_group key ''banned'' (snd (remove_ban key p)))) l p) k =
       filter (\<lambda>g. \<not> (g = ''banned'' \<and> k \<in> set l)) (get_user_groups p k)"
proof (induction l arbitrary: p)
  case (Cons key l)
  let ?q = "snd (remove_user_from_group key ''banned'' (snd (remove_ban key p)))"
  have ban: "get_ban ?q = (get_ban p)(key := None)"
    using Cons.prems
    by (auto simp: fun_eq_iff get_ban_def remove_user_from_group_def remove_ban_def update_user_groups_def
        remove_expiry_def kv_simps)
  have groups: "get_user_groups ?q = (get_user_groups p)(key := filter (\<lambda>x. x \<noteq> ''banned'') (get_user_groups p key))"
    using Cons.prems by (subst get_user_groups_remove) (simp_all add: remove_ban_def frame_simps)
  have "p_fault ?q = None" using Cons.prems by simp
  from Cons.IH [OF this] show ?case by (auto simp: ban groups intro!: filter_cong)
qed simp

lemma get_group_create:
  "p_fault p = None \<Longrightarrow> get_group (snd (create_group n b p)) = (get_group p)(n \<mapsto> \<lparr>pgr_permissions = b\<rparr>)"
  by (auto simp: create_group_def get_group_def kv_simps fun_eq_iff)

lemma p_fault_create_group [simp]: "p_fault (snd (create_group n b p)) = p_fault p"
  by (simp add: create_group_def p_write_def split: option.splits)

lemma create_group_ok: "p_fault p = None \<Longrightarrow> create_group n b p = (Inr (), snd (create_group n b p))"
  by (simp add: create_group_def)

lemma p_bind_create_group:
  "p_fault p = None \<Longrightarrow> p_bind (create_group n b p) f = f () (snd (create_group n b p))"
  by (simp add: create_group_def)

section \<open>Properties\<close>

text \<open>Expired memberships stop counting. The active groups of a key are its stored groups
  without those whose expiry has passed, in order; the walk also drops exactly the expired
  ones from the database and touches no other key.\<close>

theorem active_user_groups_spec:
  assumes "persistence_ok p" and "p_fault p = None" and "active_user_groups k now p = (gs, p')"
  shows "gs = filter (\<lambda>g. \<not> membership_expired p k now g) (get_user_groups p k) \<and>
    get_user_groups p' = (get_user_groups p)(k := gs)"
proof -
  have d: "distinct (get_user_groups p k)" using assms(1) by (simp add: persistence_ok_def)
  from active_user_groups_fst [OF d, of now] active_user_groups_store [OF assms(2) d, of now]
  show ?thesis unfolding assms(3) by (auto simp: fun_eq_iff)
qed

definition expiring_db :: persistence where
  "expiring_db = snd (add_user_to_group_with_expiry 7 ''vip'' 500
     (snd (add_user_to_group 7 ''staff'' persistence_open)))"

theorem active_user_groups_spec_witness:
  "fst (active_user_groups 7 500 expiring_db) = [''staff'']"
proof -
  have ok: "persistence_ok expiring_db"
    by (simp add: expiring_db_def persistence_ok_open persistence_ok_memberships)
  have f: "p_fault expiring_db = None" by code_simp
  have e: "filter (\<lambda>g. \<not> membership_expired expiring_db 7 500 g) (get_user_groups expiring_db 7) = [''staff'']"
    by code_simp
  from active_user_groups_spec [OF ok f surjective_pairing [of "active_user_groups 7 500 expiring_db"]] e
  show ?thesis by simp
qed

text \<open>The sweep enforces expiry without anyone reading the membership: afterwards no stored
  membership is expired, every membership that was not expired is still there, and the pairs
  it reports are exactly the expired ones.\<close>

theorem sweep_expired_memberships_spec:
  assumes "persistence_ok p" and "p_fault p = None"
    and "persist_sweep_expired_memberships now p = (expired, p')"
  shows "(\<forall>k g. (k, g) \<in> set expired \<longleftrightarrow> membership_expired p k now g) \<and>
    (\<forall>k. get_user_groups p' k = filter (\<lambda>g. \<not> membership_expired p k now g) (get_user_groups p k)) \<and>
    (\<forall>k g. \<not> membership_expired p' k now g)"
proof -
  have ok: "tree_ok (p_group_expiries p)" using assms(1) by (simp add: persistence_ok_def)
  have e: "expired = expired_memberships now p"
    and p': "p' = fold (\<lambda>(key, grp) p. snd (remove_user_from_group key grp p)) expired p"
    using assms(3) by (auto simp: persist_sweep_expired_memberships_def Let_def)
  have in_e: "(k, g) \<in> set expired \<longleftrightarrow> membership_expired p k now g" for k g
    unfolding e by (rule expired_memberships_iff [OF ok])
  moreover have "get_user_groups p' k = filter (\<lambda>g. \<not> membership_expired p k now g) (get_user_groups p k)" for k
    unfolding p' sweep_fold_groups [OF assms(2)] by (simp add: in_e)
  moreover have "\<not> membership_expired p' k now g" for k g
    using in_e [of k g] sweep_fold_expiries [OF assms(2), of expired k g]
    by (auto simp: p' membership_expired_def)
  ultimately show ?thesis by blast
qed

theorem sweep_expired_memberships_spec_witness:
  "get_user_groups (snd (persist_sweep_expired_memberships 500 expiring_db)) 7 = [''staff'']"
proof -
  have ok: "persistence_ok expiring_db"
    by (simp add: expiring_db_def persistence_ok_open persistence_ok_memberships)
  have f: "p_fault expiring_db = None" by code_simp
  have e: "filter (\<lambda>g. \<not> membership_expired expiring_db 7 500 g) (get_user_groups expiring_db 7) = [''staff'']"
    by code_simp
  from sweep_expired_memberships_spec [OF ok f surjective_pairing [of "persist_sweep_expired_memberships 500 expiring_db"]] e
  show ?thesis by simp
qed

text \<open>A ban ends by itself and not before. The sweep removes exactly the ban records whose
  duration has passed, takes exactly those keys out of the banned group, and leaves
  permanent bans, running bans and all other memberships alone.\<close>

theorem sweep_expired_bans_spec:
  assumes "persistence_ok p" and "p_fault p = None"
  shows "get_ban (snd (sweep_expired_bans now p)) k =
      (case get_ban p k of Some b \<Rightarrow> if ban_is_expired b now then None else Some b | None \<Rightarrow> None) \<and>
    get_user_groups (snd (sweep_expired_bans now p)) k =
      filter (\<lambda>g. \<not> (g = ''banned'' \<and> (\<exists>b. get_ban p k = Some b \<and> ban_is_expired b now))) (get_user_groups p k) \<and>
    (\<forall>b. ban_is_expired b now \<longleftrightarrow> duration_seconds b \<noteq> 0 \<and>
       (\<exists>t. banned_at_secs b = Some t \<and> unat now \<ge> min (2 ^ 64 - 1) (unat t + unat (duration_seconds b))))"
proof -
  have "tree_ok (p_bans p)" using assms(1) by (simp add: persistence_ok_def)
  then have in_e: "k \<in> set (expired_bans now p) \<longleftrightarrow> (\<exists>b. get_ban p k = Some b \<and> ban_is_expired b now)" for k
    by (force simp: expired_bans_def get_ban_def tr.entries_get)
  have exp: "ban_is_expired b now \<longleftrightarrow> duration_seconds b \<noteq> 0 \<and>
       (\<exists>t. banned_at_secs b = Some t \<and> unat now \<ge> min (2 ^ 64 - 1) (unat t + unat (duration_seconds b)))" for b
    by (auto simp: ban_is_expired_def word_le_nat_alt unat_u64_saturating_add split: option.splits)
  from lift_ban_fold [OF assms(2), of "expired_bans now p" k] in_e [of k] show ?thesis
    by (auto simp: sweep_expired_bans_def Let_def exp split: option.splits intro!: filter_cong)
qed

definition banned_db :: persistence where
  "banned_db = snd (set_ban 7 \<lparr>banned_at_secs = Some 100, duration_seconds = 50, ban_reason = [], banned_by = []\<rparr>
     (snd (add_user_to_group 7 ''banned'' persistence_open)))"

theorem sweep_expired_bans_spec_witness:
  "get_ban (snd (sweep_expired_bans 150 banned_db)) 7 = None \<and>
   get_user_groups (snd (sweep_expired_bans 150 banned_db)) 7 = []"
proof -
  have ok: "persistence_ok banned_db"
    by (simp add: banned_db_def persistence_ok_open persistence_ok_memberships persistence_ok_writes)
  have f: "p_fault banned_db = None" by code_simp
  have b: "get_ban banned_db 7 = Some \<lparr>banned_at_secs = Some 100, duration_seconds = 50, ban_reason = [], banned_by = []\<rparr>"
    by code_simp
  have x: "ban_is_expired \<lparr>banned_at_secs = Some 100, duration_seconds = 50, ban_reason = [], banned_by = []\<rparr> 150"
    by (simp add: ban_is_expired_def word_le_nat_alt unat_u64_saturating_add)
  have g: "get_user_groups banned_db 7 = [''banned'']" by code_simp
  from sweep_expired_bans_spec [OF ok f, of 150 7] b x g show ?thesis by simp
qed

text \<open>Toggling group permissions changes the named bits and no others, reports the resulting
  set, and refuses nothing but unknown groups; another group is never affected, and
  repeating the same toggle changes nothing.\<close>

theorem toggle_group_permission_spec:
  assumes "p_fault p = None" and "toggle_group_permission name bits enable p = (res, p')"
  shows "(get_group p name = None \<longrightarrow> res = Inr None \<and> p' = p) \<and>
    (\<forall>g. get_group p name = Some g \<longrightarrow>
       (\<exists>perms. res = Inr (Some perms) \<and> get_group p' = (get_group p)(name \<mapsto> \<lparr>pgr_permissions = perms\<rparr>) \<and>
          (\<forall>n < 32. bit perms n \<longleftrightarrow> (if bit bits n then enable else bit (pgr_permissions g) n)) \<and>
          fst (toggle_group_permission name bits enable p') = Inr (Some perms)))"
proof (cases "get_group p name")
  case None
  with assms show ?thesis by (auto simp: toggle_group_permission_def p_bind_def)
next
  case (Some g)
  let ?perms = "if enable then pgr_permissions g OR bits else pgr_permissions g AND NOT bits"
  have res: "res = Inr (Some ?perms)" and p': "p' = snd (create_group name ?perms p)"
    using assms Some create_group_ok [OF assms(1), of name ?perms]
    by (auto simp: toggle_group_permission_def Let_def p_bind_def split: prod.splits sum.splits)
  have f': "p_fault p' = None" and g': "get_group p' name = Some \<lparr>pgr_permissions = ?perms\<rparr>"
    using assms(1) by (simp_all add: p' get_group_create)
  have again: "fst (toggle_group_permission name bits enable p') = Inr (Some ?perms)"
    using f' g' create_group_ok [OF f', of name ?perms]
    by (auto simp: toggle_group_permission_def Let_def fst_p_bind p_write_fst create_group_def or.assoc and.assoc
        split: sum.splits)
  have bits: "bit ?perms n \<longleftrightarrow> (if bit bits n then enable else bit (pgr_permissions g) n)" if "n < 32" for n
    using that by (auto simp: bit_or_iff bit_and_iff bit_not_iff)
  have "get_group p' = (get_group p)(name \<mapsto> \<lparr>pgr_permissions = ?perms\<rparr>)"
    unfolding p' by (rule get_group_create [OF assms(1)])
  with res bits again Some show ?thesis by auto
qed

definition grouped_db :: persistence where
  "grouped_db = snd (create_group ''mods'' (KICK OR BAN) persistence_open)"

theorem toggle_group_permission_spec_witness:
  "\<exists>perms. fst (toggle_group_permission ''mods'' KICK False grouped_db) = Inr (Some perms) \<and>
     \<not> bit perms 16 \<and> bit perms 17"
proof -
  have f: "p_fault grouped_db = None" by code_simp
  have g: "get_group grouped_db ''mods'' = Some \<lparr>pgr_permissions = KICK OR BAN\<rparr>" by code_simp
  have b: "bit KICK 16" "\<not> bit KICK 17" "bit (KICK OR BAN) 17" by (simp_all add: flag_defs)
  from toggle_group_permission_spec [OF f surjective_pairing [of "toggle_group_permission ''mods'' KICK False grouped_db"]] g
  obtain perms where "fst (toggle_group_permission ''mods'' KICK False grouped_db) = Inr (Some perms)"
    and "\<forall>n < 32. bit perms n \<longleftrightarrow> (if bit KICK n then False else bit (KICK OR BAN) n)" by auto
  with b show ?thesis by auto
qed

lemma modify_group_ok:
  "p_fault p = None \<Longrightarrow> get_group p n \<noteq> None \<Longrightarrow>
     modify_group n b p = (Inr True, snd (create_group n b p))"
  by (auto simp: modify_group_def tree_contains_def get_group_def create_group_def)

text \<open>Startup leaves the built-in groups in order. On storage that accepts writes it succeeds;
  on an empty table it creates the default group and the admin group with their standard
  permissions; afterwards the admin group never carries the flag that bans its members, and
  an existing table is otherwise unchanged.\<close>

theorem ensure_default_groups_spec:
  assumes "p_fault p = None" and "ensure_default_groups p = (res, p')"
  shows "res = Inr () \<and>
    (\<forall>g. get_group p' ''admin'' = Some g \<longrightarrow> \<not> contains (from_bits_truncate (pgr_permissions g)) BANNED) \<and>
    (p_groups p = [] \<longrightarrow> get_group p' = [''default'' \<mapsto> \<lparr>pgr_permissions = DEFAULT_PERMISSIONS\<rparr>,
                                           ''admin'' \<mapsto> \<lparr>pgr_permissions = ADMIN_PERMISSIONS\<rparr>]) \<and>
    (\<forall>n. p_groups p \<noteq> [] \<longrightarrow> n \<noteq> ''admin'' \<longrightarrow> get_group p' n = get_group p n)"
proof (cases "p_groups p = []")
  case True
  let ?q = "snd (create_group ''admin'' ADMIN_PERMISSIONS (snd (create_group ''default'' DEFAULT_PERMISSIONS p)))"
  have g: "get_group ?q = [''default'' \<mapsto> \<lparr>pgr_permissions = DEFAULT_PERMISSIONS\<rparr>,
      ''admin'' \<mapsto> \<lparr>pgr_permissions = ADMIN_PERMISSIONS\<rparr>]"
    using True assms(1) by (simp add: get_group_create) (simp add: get_group_def fun_eq_iff)
  have a: "\<not> contains (from_bits_truncate ADMIN_PERMISSIONS) BANNED"
    by (simp add: contains_def from_bits_truncate_def ADMIN_PERMISSIONS_def ALL_FLAGS_value BANNED_def)
  have "(res, p') = (Inr (), ?q)"
    using True assms(1) a g unfolding assms(2) [symmetric]
    by (simp add: ensure_default_groups_def p_bind_create_group)
  with g a True show ?thesis by auto
next
  case False
  show ?thesis
  proof (cases "\<exists>g. get_group p ''admin'' = Some g \<and> contains (from_bits_truncate (pgr_permissions g)) BANNED")
    case True
    then obtain g where g: "get_group p ''admin'' = Some g" "contains (from_bits_truncate (pgr_permissions g)) BANNED"
      by blast
    let ?perms = "from_bits_truncate (pgr_permissions g) AND NOT BANNED"
    have "(res, p') = (Inr (), snd (create_group ''admin'' ?perms p))"
      using False g modify_group_ok [OF assms(1), of "''admin''" ?perms] unfolding assms(2) [symmetric]
      by (simp add: ensure_default_groups_def Let_def)
    moreover have "\<not> contains (from_bits_truncate ?perms) BANNED"
    proof -
      have "\<not> bit (from_bits_truncate ?perms) 22"
        by (simp add: from_bits_truncate_def bit_and_iff bit_not_iff BANNED_def)
      then show ?thesis using contains_flag [of 22 "from_bits_truncate ?perms"] by (simp add: flag_powers)
    qed
    ultimately show ?thesis using False by (simp add: get_group_create [OF assms(1)])
  next
    case none: False
    then have "(res, p') = (Inr (), p)"
      using False unfolding assms(2) [symmetric]
      by (auto simp: ensure_default_groups_def Let_def split: option.splits)
    with none False show ?thesis by auto
  qed
qed

theorem ensure_default_groups_spec_witness:
  "fst (ensure_default_groups persistence_open) = Inr () \<and>
   get_group (snd (ensure_default_groups persistence_open)) ''admin'' = Some \<lparr>pgr_permissions = ADMIN_PERMISSIONS\<rparr>"
  using ensure_default_groups_spec
    [OF _ surjective_pairing [of "ensure_default_groups persistence_open"]]
  by (simp add: persistence_open_def)

end
