(* ===== verification/State.thy ===== *)
theory State
  imports Wire Persistence
begin

text \<open>
  The shared state of the server (\<open>server/src/state.rs\<close>): the roster of members, rooms and
  room membership, sessions, pending authentications, voice rate limiters and audio sinks.

  Objects the code shares by reference live in an explicit store inside the state: a client
  handle is an address of \<open>handles\<close>, an identity is found under the user id of the connection
  or participant it was created for, and the flags a connection shares between its streams
  (\<open>authenticated\<close> and the public key) under the connection's user id. Instants are
  nanoseconds of a monotone clock and are arguments of the operations that read it.
\<close>

section \<open>Voice rate limiter\<close>

record voice_rate_limit =
  window_start :: nat
  bytes_in_window :: nat

definition VOICE_RATE_LIMIT_BYTES_PER_SEC :: nat where
  "VOICE_RATE_LIMIT_BYTES_PER_SEC = 32000"

definition voice_rate_limit_new :: "nat \<Rightarrow> voice_rate_limit" where
  "voice_rate_limit_new now = \<lparr>window_start = now, bytes_in_window = 0\<rparr>"

definition as_secs :: "nat \<Rightarrow> nat" where
  "as_secs nanos = nanos div 1000000000"

definition rate_check :: "nat \<Rightarrow> nat \<Rightarrow> voice_rate_limit \<Rightarrow> bool \<times> voice_rate_limit" where
  "rate_check now bytes l =
     (if as_secs (now - window_start l) \<ge> 1
      then (True, l\<lparr>window_start := now, bytes_in_window := bytes\<rparr>)
      else if bytes_in_window l + bytes > VOICE_RATE_LIMIT_BYTES_PER_SEC then (False, l)
      else (True, l\<lparr>bytes_in_window := bytes_in_window l + bytes\<rparr>))"

section \<open>Roster types\<close>

record identity =
  display_name :: string
  verified_username :: "string option"
  id_label :: "string option"
  id_groups :: "string list"

definition identity_empty :: identity where
  "identity_empty = \<lparr>display_name = '''', verified_username = None, id_label = None, id_groups = []\<rparr>"

definition identity_participant ::
  "string \<Rightarrow> string option \<Rightarrow> string option \<Rightarrow> string list \<Rightarrow> identity" where
  "identity_participant name verified lbl gs =
     \<lparr>display_name = name, verified_username = verified, id_label = lbl, id_groups = gs\<rparr>"

datatype owner_id = Plugin u64 | Connection u64

type_synonym handle = nat

datatype binding = Client handle | Owned owner_id

record voice_frame =
  vf_sender_id :: u64
  vf_opus_data :: bytes
  vf_sequence :: u32
  vf_timestamp_us :: u64
  vf_end_of_stream :: bool

record audio_sink =
  sink_owner_id :: u64
  sink_sub_id :: u64
  sink_tx :: nat

record member =
  m_user_id :: u64
  m_binding :: binding

text \<open>
  The send half of a control stream: it accepts frames, it is finished (or reset), or the
  peer no longer reads and a write waits for flow-control credit.
\<close>

datatype stream_state = Flowing | Finished | Stalled

record client_handle =
  h_user_id :: u64
  is_controller :: bool
  is_superuser :: bool
  server_muted :: bool
  manually_server_muted :: bool
  torn_down :: bool
  send_stream :: stream_state

definition client_handle_new :: "u64 \<Rightarrow> client_handle" where
  "client_handle_new uid =
     \<lparr>h_user_id = uid, is_controller = False, is_superuser = False, server_muted = False,
      manually_server_muted = False, torn_down = False, send_stream = Flowing\<rparr>"

record user_status =
  st_is_muted :: bool
  st_is_deafened :: bool
  st_server_muted :: bool
  st_is_elevated :: bool

definition user_status_default :: user_status where
  "user_status_default =
     \<lparr>st_is_muted = False, st_is_deafened = False, st_server_muted = False, st_is_elevated = False\<rparr>"

record state_data =
  rooms :: "room list"
  memberships :: "(u64 \<times> uuid) list"
  user_statuses :: "(u64 \<times> user_status) list"

definition new_room :: "uuid \<Rightarrow> string \<Rightarrow> uuid \<Rightarrow> string option \<Rightarrow> room" where
  "new_room u name parent description =
     \<lparr>r_id = u, r_name = name, r_parent = parent, r_description = description,
      r_inherit_acl = True, r_acls = [], r_effective_permissions = 0\<rparr>"

definition state_data_new :: state_data where
  "state_data_new =
     \<lparr>rooms = [new_room ROOT_ROOM_UUID ''Root'' ROOT_ROOM_UUID None],
      memberships = [], user_statuses = []\<rparr>"

definition state_data_empty :: state_data where
  "state_data_empty = \<lparr>rooms = [], memberships = [], user_statuses = []\<rparr>"

record pending_auth_entry =
  pa_nonce :: key32
  pa_user_id :: u64
  pa_public_key :: key32
  pa_timestamp :: nat
  pa_username :: string

record session_entry =
  se_user_public_key :: key32
  se_session_public_key :: key32
  se_session_id :: key32
  se_issued_ms :: i64
  se_expires_ms :: i64
  se_device :: "string option"

record server_state =
  members :: "(u64, member) dashmap"
  data :: state_data
  next_user_id :: u64
  pending_auth :: "(u64, pending_auth_entry) dashmap"
  sessions :: "(u64, session_entry) dashmap"
  sessions_by_id :: "(key32, u64) dashmap"
  server_cert_der :: bytes
  voice_rate_limits :: "(u64, voice_rate_limit) dashmap"
  welcome_message :: "string option"
  audio_sinks :: "(uuid, audio_sink list) dashmap"
  next_sub_id :: u64
  slash_commands_cell :: "slash_command list option"
  handles :: "handle \<Rightarrow> client_handle"
  next_handle :: handle
  identities :: "u64 \<Rightarrow> identity"
  conn_authenticated :: "u64 \<Rightarrow> bool"
  conn_public_key :: "u64 \<Rightarrow> key32 option"

definition with_cert_and_welcome :: "bytes \<Rightarrow> string option \<Rightarrow> server_state" where
  "with_cert_and_welcome cert_der welcome =
     \<lparr>members = [], data = state_data_new, next_user_id = 1, pending_auth = [], sessions = [],
      sessions_by_id = [], server_cert_der = cert_der, voice_rate_limits = [],
      welcome_message = welcome, audio_sinks = [], next_sub_id = 1, slash_commands_cell = None,
      handles = (\<lambda>_. client_handle_new 0), next_handle = 0, identities = (\<lambda>_. identity_empty),
      conn_authenticated = (\<lambda>_. False), conn_public_key = (\<lambda>_. None)\<rparr>"

definition with_cert :: "bytes \<Rightarrow> server_state" where
  "with_cert cert_der = with_cert_and_welcome cert_der None"

definition server_state_new :: server_state where
  "server_state_new = with_cert []"

section \<open>Accessors of the shared objects\<close>

definition handle_at :: "server_state \<Rightarrow> handle \<Rightarrow> client_handle" where
  "handle_at s h = handles s h"

definition update_handle :: "handle \<Rightarrow> (client_handle \<Rightarrow> client_handle) \<Rightarrow> server_state \<Rightarrow> server_state" where
  "update_handle h f s = s\<lparr>handles := (handles s)(h := f (handles s h))\<rparr>"

definition identity_of :: "server_state \<Rightarrow> u64 \<Rightarrow> identity" where
  "identity_of s uid = identities s uid"

definition update_identity :: "u64 \<Rightarrow> (identity \<Rightarrow> identity) \<Rightarrow> server_state \<Rightarrow> server_state" where
  "update_identity uid f s = s\<lparr>identities := (identities s)(uid := f (identities s uid))\<rparr>"

definition update_data :: "(state_data \<Rightarrow> state_data) \<Rightarrow> server_state \<Rightarrow> server_state" where
  "update_data f s = s\<lparr>data := f (data s)\<rparr>"

definition handle_uid :: "server_state \<Rightarrow> handle \<Rightarrow> u64" where
  "handle_uid s h = h_user_id (handles s h)"

definition get_username :: "server_state \<Rightarrow> handle \<Rightarrow> string" where
  "get_username s h = display_name (identities s (handle_uid s h))"

definition set_username :: "handle \<Rightarrow> string \<Rightarrow> server_state \<Rightarrow> server_state" where
  "set_username h name s = update_identity (handle_uid s h) (display_name_update (\<lambda>_. name)) s"

text \<open>The first caller claims the teardown of a connection; later callers are told so.\<close>

definition begin_teardown :: "handle \<Rightarrow> server_state \<Rightarrow> bool \<times> server_state" where
  "begin_teardown h s =
     (if torn_down (handles s h) then (False, s)
      else (True, update_handle h (torn_down_update (\<lambda>_. True)) s))"

definition member_client :: "member \<Rightarrow> handle option" where
  "member_client m = (case m_binding m of Client h \<Rightarrow> Some h | Owned _ \<Rightarrow> None)"

definition member_is_controller :: "server_state \<Rightarrow> member \<Rightarrow> bool" where
  "member_is_controller s m =
     (case m_binding m of Client h \<Rightarrow> is_controller (handles s h) | Owned _ \<Rightarrow> False)"

definition member_is_superuser :: "server_state \<Rightarrow> member \<Rightarrow> bool" where
  "member_is_superuser s m =
     (case m_binding m of Client h \<Rightarrow> is_superuser (handles s h) | Owned _ \<Rightarrow> False)"

section \<open>Authentication and sessions\<close>

definition server_cert_hash :: "(bytes \<Rightarrow> key32) \<Rightarrow> server_state \<Rightarrow> key32" where
  "server_cert_hash sha256 s = compute_cert_hash sha256 (server_cert_der s)"

definition set_server_cert_der :: "bytes \<Rightarrow> server_state \<Rightarrow> server_state" where
  "set_server_cert_der cert_der s = s\<lparr>server_cert_der := cert_der\<rparr>"

definition set_pending_auth :: "pending_auth_entry \<Rightarrow> server_state \<Rightarrow> server_state" where
  "set_pending_auth pending s = s\<lparr>pending_auth := dm_insert (pa_user_id pending) pending (pending_auth s)\<rparr>"

definition take_pending_auth :: "u64 \<Rightarrow> server_state \<Rightarrow> pending_auth_entry option \<times> server_state" where
  "take_pending_auth uid s =
     (dm_get (pending_auth s) uid, s\<lparr>pending_auth := dm_remove uid (pending_auth s)\<rparr>)"

definition add_session :: "u64 \<Rightarrow> session_entry \<Rightarrow> server_state \<Rightarrow> server_state" where
  "add_session uid session s =
     s\<lparr>sessions := dm_insert uid session (sessions s),
       sessions_by_id := dm_insert (se_session_id session) uid (sessions_by_id s)\<rparr>"

definition remove_session :: "u64 \<Rightarrow> server_state \<Rightarrow> server_state" where
  "remove_session uid s =
     (case dm_get (sessions s) uid of
        None \<Rightarrow> s
      | Some session \<Rightarrow>
          s\<lparr>sessions := dm_remove uid (sessions s),
            sessions_by_id := dm_remove (se_session_id session) (sessions_by_id s)\<rparr>)"

definition get_session :: "server_state \<Rightarrow> u64 \<Rightarrow> session_entry option" where
  "get_session s uid = dm_get (sessions s) uid"

definition get_user_public_key :: "server_state \<Rightarrow> u64 \<Rightarrow> key32 option" where
  "get_user_public_key s uid = map_option se_user_public_key (dm_get (sessions s) uid)"

definition user_ids_with_key :: "server_state \<Rightarrow> key32 \<Rightarrow> u64 list" where
  "user_ids_with_key s key =
     map fst (filter (\<lambda>(_, e). se_user_public_key e = key) (sessions s))"

definition get_session_by_id :: "server_state \<Rightarrow> key32 \<Rightarrow> (u64 \<times> session_entry) option" where
  "get_session_by_id s sid =
     (case dm_get (sessions_by_id s) sid of
        None \<Rightarrow> None
      | Some uid \<Rightarrow> map_option (\<lambda>e. (uid, e)) (dm_get (sessions s) uid))"

section \<open>Roster\<close>

definition allocate_user_id :: "server_state \<Rightarrow> u64 \<times> server_state" where
  "allocate_user_id s = (next_user_id s, s\<lparr>next_user_id := next_user_id s + 1\<rparr>)"

definition register_client :: "handle \<Rightarrow> server_state \<Rightarrow> server_state" where
  "register_client h s =
     s\<lparr>members := dm_insert (handle_uid s h) \<lparr>m_user_id = handle_uid s h, m_binding = Client h\<rparr> (members s)\<rparr>"

definition remove_client :: "u64 \<Rightarrow> server_state \<Rightarrow> bool \<times> server_state" where
  "remove_client uid s =
     (dm_get (members s) uid \<noteq> None, s\<lparr>members := dm_remove uid (members s)\<rparr>)"

definition remove_client_by_handle :: "handle \<Rightarrow> server_state \<Rightarrow> bool \<times> server_state" where
  "remove_client_by_handle h s = remove_client (handle_uid s h) s"

definition get_member :: "server_state \<Rightarrow> u64 \<Rightarrow> member option" where
  "get_member s uid = dm_get (members s) uid"

definition get_client :: "server_state \<Rightarrow> u64 \<Rightarrow> handle option" where
  "get_client s uid = Option.bind (dm_get (members s) uid) member_client"

definition snapshot_clients :: "server_state \<Rightarrow> handle list" where
  "snapshot_clients s = List.map_filter (\<lambda>(_, m). member_client m) (members s)"

definition client_count :: "server_state \<Rightarrow> nat" where
  "client_count s = length (filter (\<lambda>(_, m). member_client m \<noteq> None) (members s))"

definition register_participant :: "member \<Rightarrow> server_state \<Rightarrow> server_state" where
  "register_participant m s = s\<lparr>members := dm_insert (m_user_id m) m (members s)\<rparr>"

definition is_participant_of :: "server_state \<Rightarrow> u64 \<Rightarrow> owner_id \<Rightarrow> bool" where
  "is_participant_of s uid owner =
     (case dm_get (members s) uid of
        None \<Rightarrow> False
      | Some m \<Rightarrow> (case m_binding m of Owned o' \<Rightarrow> o' = owner | Client _ \<Rightarrow> False))"

definition members_by_owner :: "server_state \<Rightarrow> owner_id \<Rightarrow> u64 list" where
  "members_by_owner s owner =
     map (m_user_id \<circ> snd) (filter (\<lambda>(_, m). m_binding m = Owned owner) (members s))"

definition delivery_client :: "server_state \<Rightarrow> u64 \<Rightarrow> handle option" where
  "delivery_client s uid =
     (case dm_get (members s) uid of
        None \<Rightarrow> None
      | Some m \<Rightarrow> (case m_binding m of
          Client h \<Rightarrow> Some h
        | Owned (Connection c) \<Rightarrow> get_client s c
        | Owned (Plugin _) \<Rightarrow> None))"

definition set_slash_commands :: "slash_command list \<Rightarrow> server_state \<Rightarrow> server_state" where
  "set_slash_commands cmds s =
     (case slash_commands_cell s of None \<Rightarrow> s\<lparr>slash_commands_cell := Some cmds\<rparr> | Some _ \<Rightarrow> s)"

definition slash_commands :: "server_state \<Rightarrow> slash_command list" where
  "slash_commands s = (case slash_commands_cell s of Some c \<Rightarrow> c | None \<Rightarrow> [])"

section \<open>Audio subscribers\<close>

definition sinks_of :: "server_state \<Rightarrow> uuid \<Rightarrow> audio_sink list" where
  "sinks_of s r = (case dm_get (audio_sinks s) r of Some l \<Rightarrow> l | None \<Rightarrow> [])"

definition subscribe_audio :: "uuid \<Rightarrow> u64 \<Rightarrow> nat \<Rightarrow> server_state \<Rightarrow> u64 \<times> server_state" where
  "subscribe_audio r owner tx s =
     (let sub_id = next_sub_id s in
      (sub_id,
       s\<lparr>next_sub_id := sub_id + 1,
         audio_sinks := dm_insert r
           (sinks_of s r @ [\<lparr>sink_owner_id = owner, sink_sub_id = sub_id, sink_tx = tx\<rparr>])
           (audio_sinks s)\<rparr>))"

definition unsubscribe_audio :: "uuid \<Rightarrow> u64 \<Rightarrow> server_state \<Rightarrow> server_state" where
  "unsubscribe_audio r sub_id s =
     (case dm_get (audio_sinks s) r of
        None \<Rightarrow> s
      | Some l \<Rightarrow> s\<lparr>audio_sinks := dm_insert r (retain (\<lambda>k. sink_sub_id k \<noteq> sub_id) l) (audio_sinks s)\<rparr>)"

text \<open>The channels a frame is offered to; each may drop it when it is full or closed.\<close>

definition fanout_audio :: "server_state \<Rightarrow> uuid \<Rightarrow> voice_frame \<Rightarrow> nat list" where
  "fanout_audio s r frame =
     map sink_tx (filter (\<lambda>k. sink_owner_id k \<noteq> vf_sender_id frame) (sinks_of s r))"

section \<open>Membership and status\<close>

definition set_user_room :: "u64 \<Rightarrow> uuid \<Rightarrow> server_state \<Rightarrow> server_state" where
  "set_user_room uid room_uuid =
     update_data (\<lambda>d. d\<lparr>memberships := retain (\<lambda>(u, _). u \<noteq> uid) (memberships d) @ [(uid, room_uuid)]\<rparr>)"

definition remove_user_membership :: "u64 \<Rightarrow> server_state \<Rightarrow> server_state" where
  "remove_user_membership uid =
     update_data (\<lambda>d. d\<lparr>memberships := retain (\<lambda>(u, _). u \<noteq> uid) (memberships d),
                        user_statuses := retain (\<lambda>(u, _). u \<noteq> uid) (user_statuses d)\<rparr>)"

definition set_user_status :: "u64 \<Rightarrow> user_status \<Rightarrow> server_state \<Rightarrow> server_state" where
  "set_user_status uid st =
     update_data (\<lambda>d. d\<lparr>user_statuses := retain (\<lambda>(u, _). u \<noteq> uid) (user_statuses d) @ [(uid, st)]\<rparr>)"

definition get_user_status :: "server_state \<Rightarrow> u64 \<Rightarrow> user_status" where
  "get_user_status s uid =
     (case map_of (user_statuses (data s)) uid of Some st \<Rightarrow> st | None \<Rightarrow> user_status_default)"

definition get_user_room :: "server_state \<Rightarrow> u64 \<Rightarrow> uuid option" where
  "get_user_room s uid = map_of (memberships (data s)) uid"

definition get_room_members :: "server_state \<Rightarrow> uuid \<Rightarrow> u64 list" where
  "get_room_members s room_uuid = map fst (filter (\<lambda>(_, r). r = room_uuid) (memberships (data s)))"

section \<open>Rooms\<close>

definition get_rooms :: "server_state \<Rightarrow> room list" where
  "get_rooms s = rooms (data s)"

definition room_ids :: "server_state \<Rightarrow> uuid set" where
  "room_ids s = r_id ` set (rooms (data s))"

definition find_room :: "room list \<Rightarrow> uuid \<Rightarrow> room option" where
  "find_room rs u = List.find (\<lambda>r. r_id r = u) rs"

definition add_room_with_uuid_and_parent_desc ::
  "uuid \<Rightarrow> string \<Rightarrow> uuid \<Rightarrow> string option \<Rightarrow> server_state \<Rightarrow> bool \<times> server_state" where
  "add_room_with_uuid_and_parent_desc u name parent description s =
     (if list_ex (\<lambda>r. r_id r = u) (rooms (data s)) then (False, s)
      else (True, update_data (\<lambda>d. d\<lparr>rooms := rooms d @ [new_room u name parent description]\<rparr>) s))"

definition add_room_with_uuid :: "uuid \<Rightarrow> string \<Rightarrow> server_state \<Rightarrow> bool \<times> server_state" where
  "add_room_with_uuid u name = add_room_with_uuid_and_parent_desc u name ROOT_ROOM_UUID None"

text \<open>\<open>new_uuid\<close> is the random identifier the code draws.\<close>

definition create_room_with_parent_desc ::
  "uuid \<Rightarrow> string \<Rightarrow> uuid \<Rightarrow> string option \<Rightarrow> server_state \<Rightarrow> uuid \<times> server_state" where
  "create_room_with_parent_desc new_uuid name parent description s =
     (new_uuid, update_data (\<lambda>d. d\<lparr>rooms := rooms d @ [new_room new_uuid name parent description]\<rparr>) s)"

definition delete_room :: "uuid \<Rightarrow> server_state \<Rightarrow> bool \<times> server_state" where
  "delete_room room_uuid s =
     (if room_uuid = ROOT_ROOM_UUID then (False, s)
      else
        let before_len = length (rooms (data s));
            rs = retain (\<lambda>r. r_id r \<noteq> room_uuid) (rooms (data s));
            deleted = (length rs < before_len)
        in (deleted,
            update_data (\<lambda>d. d\<lparr>rooms := rs,
              memberships := (if deleted
                then map (\<lambda>(u, r). if r = room_uuid then (u, ROOT_ROOM_UUID) else (u, r)) (memberships d)
                else memberships d)\<rparr>) s))"

definition update_room :: "uuid \<Rightarrow> (room \<Rightarrow> room) \<Rightarrow> server_state \<Rightarrow> bool \<times> server_state" where
  "update_room room_uuid f s =
     (list_ex (\<lambda>r. r_id r = room_uuid) (rooms (data s)),
      update_data (\<lambda>d. d\<lparr>rooms := update_first (\<lambda>r. r_id r = room_uuid) f (rooms d)\<rparr>) s)"

definition rename_room :: "uuid \<Rightarrow> string \<Rightarrow> server_state \<Rightarrow> bool \<times> server_state" where
  "rename_room room_uuid new_name = update_room room_uuid (r_name_update (\<lambda>_. new_name))"

definition room_exists :: "server_state \<Rightarrow> uuid \<Rightarrow> bool" where
  "room_exists s room_uuid \<longleftrightarrow>
     (if room_uuid = ROOT_ROOM_UUID then True
      else list_ex (\<lambda>r. r_id r = room_uuid) (rooms (data s)))"

definition room_parent_and_children :: "server_state \<Rightarrow> uuid \<Rightarrow> (uuid \<times> uuid list) option" where
  "room_parent_and_children s room_uuid =
     (case find_room (rooms (data s)) room_uuid of
        None \<Rightarrow> None
      | Some r \<Rightarrow> Some (r_parent r, map r_id (filter (\<lambda>c. r_parent c = room_uuid) (rooms (data s)))))"

definition move_room :: "uuid \<Rightarrow> uuid \<Rightarrow> server_state \<Rightarrow> bool \<times> server_state" where
  "move_room room_uuid new_parent_uuid = update_room room_uuid (r_parent_update (\<lambda>_. new_parent_uuid))"

definition set_room_acl :: "uuid \<Rightarrow> bool \<Rightarrow> room_acl_entry list \<Rightarrow> server_state \<Rightarrow> bool \<times> server_state" where
  "set_room_acl room_uuid inherit_acl acls =
     update_room room_uuid (\<lambda>r. r\<lparr>r_inherit_acl := inherit_acl, r_acls := acls\<rparr>)"

definition room_entry_of_persisted :: "persisted_acl_entry \<Rightarrow> room_acl_entry" where
  "room_entry_of_persisted e =
     \<lparr>rae_group = pe_group e, rae_grant = pe_grant e, rae_deny = pe_deny e,
      rae_apply_here = pe_apply_here e, rae_apply_subs = pe_apply_subs e\<rparr>"

definition hydrate_room_acls :: "persistence \<Rightarrow> server_state \<Rightarrow> server_state" where
  "hydrate_room_acls p s =
     fold (\<lambda>u s. case get_room_acl p u of
             Some acl \<Rightarrow> snd (set_room_acl u (pa_inherit_acl acl)
                          (map room_entry_of_persisted (pa_entries acl)) s)
           | None \<Rightarrow> s)
       (map r_id (get_rooms s)) s"

definition set_room_description :: "uuid \<Rightarrow> string \<Rightarrow> server_state \<Rightarrow> bool \<times> server_state" where
  "set_room_description room_uuid description =
     update_room room_uuid
       (r_description_update (\<lambda>_. if description = [] then None else Some description))"

section \<open>Snapshots\<close>

text \<open>\<open>available\<close> tells whether the read lock could be taken at once.\<close>

definition snapshot_state_sync :: "bool \<Rightarrow> server_state \<Rightarrow> state_data" where
  "snapshot_state_sync available s = (if available then data s else state_data_empty)"

definition build_user :: "server_state \<Rightarrow> u64 \<Rightarrow> uuid \<Rightarrow> member \<Rightarrow> user" where
  "build_user s uid rid m =
     (let st = get_user_status s uid; ident = identities s (m_user_id m) in
      \<lparr>u_user_id = uid, u_username = display_name ident, u_current_room = rid,
       u_is_muted = st_is_muted st, u_is_deafened = st_is_deafened st,
       u_server_muted = (case m_binding m of
          Client h \<Rightarrow> server_muted (handles s h) | Owned _ \<Rightarrow> st_server_muted st),
       u_is_elevated = member_is_superuser s m, u_groups = id_groups ident,
       u_label = id_label ident\<rparr>)"

definition build_user_list :: "server_state \<Rightarrow> user list" where
  "build_user_list s =
     List.map_filter (\<lambda>(uid, rid).
       case get_member s uid of
         None \<Rightarrow> None
       | Some m \<Rightarrow> if member_is_controller s m then None else Some (build_user s uid rid m))
     (memberships (data s))"

definition push_member :: "u64 \<times> uuid \<Rightarrow> (uuid \<rightharpoonup> u64 list) \<Rightarrow> (uuid \<rightharpoonup> u64 list)" where
  "push_member e m =
     (case e of (uid, rid) \<Rightarrow> m(rid \<mapsto> (case m rid of Some l \<Rightarrow> l | None \<Rightarrow> []) @ [uid]))"

definition snapshot_room_memberships :: "server_state \<Rightarrow> (uuid \<rightharpoonup> u64 list)" where
  "snapshot_room_memberships s = fold push_member (memberships (data s)) Map.empty"

definition snapshot_voice_routing :: "server_state \<Rightarrow> (uuid \<rightharpoonup> u64 list) \<times> u64 list" where
  "snapshot_voice_routing s =
     (fold push_member (memberships (data s)) Map.empty,
      map fst (filter (\<lambda>(_, st). st_is_deafened st) (user_statuses (data s))))"

definition check_voice_rate :: "nat \<Rightarrow> u64 \<Rightarrow> nat \<Rightarrow> server_state \<Rightarrow> bool \<times> server_state" where
  "check_voice_rate now uid bytes s =
     (let l = (case dm_get (voice_rate_limits s) uid of
                 Some l \<Rightarrow> l | None \<Rightarrow> voice_rate_limit_new now);
          (allowed, l') = rate_check now bytes l
      in (allowed, s\<lparr>voice_rate_limits := dm_insert uid l' (voice_rate_limits s)\<rparr>))"

definition remove_voice_rate :: "u64 \<Rightarrow> server_state \<Rightarrow> server_state" where
  "remove_voice_rate uid s = s\<lparr>voice_rate_limits := dm_remove uid (voice_rate_limits s)\<rparr>"

section \<open>Facts about rooms\<close>

lemma find_room_update_first:
  assumes "\<And>r. r_id (f r) = r_id r"
  shows "find_room (update_first (\<lambda>r. r_id r = u) f rs) v =
    (if v = u then map_option f (find_room rs u) else find_room rs v)"
  by (induction rs) (auto simp: find_room_def assms)

lemma rooms_update_room [simp]:
  "rooms (data (snd (update_room u f s))) = update_first (\<lambda>r. r_id r = u) f (rooms (data s))"
  by (simp add: update_room_def update_data_def)

lemma find_room_distinct:
  "distinct (map r_id rs) \<Longrightarrow> r \<in> set rs \<Longrightarrow> find_room rs (r_id r) = Some r"
  by (simp add: find_room_def find_distinct_key)

end
