(* ===== verification/Acl.thy ===== *)
theory Acl
  imports State
begin

text \<open>
  Evaluation of permissions against the live state and the database (\<open>server/src/acl.rs\<close>).
\<close>

section \<open>Room chain\<close>

text \<open>
  The walk from the target to the root along parent links. The guard of the source stops it
  when the path is longer than the number of rooms plus one, which bounds the recursion.
\<close>

function chain_walk :: "room list \<Rightarrow> uuid \<Rightarrow> uuid list \<Rightarrow> uuid list" where
  "chain_walk rs current path =
     (let path' = path @ [current] in
      if current = 0 then path'
      else case find_room rs current of
             None \<Rightarrow> path'
           | Some r \<Rightarrow> if length path' > length rs + 1 then path'
                       else chain_walk rs (r_parent r) path')"
  by pat_completeness auto
termination
  by (relation "measure (\<lambda>(rs, _, path). length rs + 2 - length path)") auto

declare chain_walk.simps [simp del]

text \<open>\<open>Vec::dedup\<close> drops elements equal to their predecessor.\<close>

fun dedup :: "'a list \<Rightarrow> 'a list" where
  "dedup [] = []"
| "dedup [x] = [x]"
| "dedup (x # y # ys) = (if x = y then dedup (x # ys) else x # dedup (y # ys))"

definition room_path :: "room list \<Rightarrow> uuid \<Rightarrow> uuid list" where
  "room_path rs target =
     (let path = rev (chain_walk rs target []);
          path' = (if path = [] \<or> hd path \<noteq> 0 then 0 # path else path)
      in dedup path')"

definition acl_entry_of_persisted :: "persisted_acl_entry \<Rightarrow> acl_entry" where
  "acl_entry_of_persisted e =
     \<lparr>ae_group = pe_group e, ae_grant = from_bits_truncate (pe_grant e),
      ae_deny = from_bits_truncate (pe_deny e), ae_apply_here = pe_apply_here e,
      ae_apply_subs = pe_apply_subs e\<rparr>"

definition acl_data_of_persisted :: "persisted_room_acl \<Rightarrow> room_acl_data" where
  "acl_data_of_persisted a =
     \<lparr>ra_inherit_acl = pa_inherit_acl a, ra_entries = map acl_entry_of_persisted (pa_entries a)\<rparr>"

definition build_room_chain_owned :: "server_state \<Rightarrow> uuid \<Rightarrow> persistence \<Rightarrow> room_chain" where
  "build_room_chain_owned s target p =
     map (\<lambda>u. (u, map_option acl_data_of_persisted (get_room_acl p u)))
       (room_path (get_rooms s) target)"

section \<open>Permission evaluation\<close>

definition identity_user_groups :: "identity \<Rightarrow> string list" where
  "identity_user_groups ident =
     (let gs = fold push_new (id_groups ident) [''default''] in
      case verified_username ident of Some n \<Rightarrow> push_new n gs | None \<Rightarrow> gs)"

definition group_permission_map :: "persistence \<Rightarrow> (string \<rightharpoonup> permissions)" where
  "group_permission_map p =
     fold (\<lambda>(name, pg) m. m(name \<mapsto> from_bits_truncate (pgr_permissions pg))) (list_groups p) Map.empty"

definition evaluate_identity_permissions ::
  "server_state \<Rightarrow> bool \<Rightarrow> identity \<Rightarrow> uuid \<Rightarrow> persistence \<Rightarrow> permissions" where
  "evaluate_identity_permissions s superuser ident room_uuid p =
     effective_permissions (identity_user_groups ident) (group_permission_map p)
       (build_room_chain_owned s room_uuid p) superuser"

definition evaluate_user_permissions ::
  "server_state \<Rightarrow> handle \<Rightarrow> uuid \<Rightarrow> persistence \<Rightarrow> permissions" where
  "evaluate_user_permissions s sender room_uuid p =
     evaluate_identity_permissions s (is_superuser (handles s sender))
       (identities s (handle_uid s sender)) room_uuid p"

definition evaluate_member_permissions ::
  "server_state \<Rightarrow> member \<Rightarrow> uuid \<Rightarrow> persistence \<Rightarrow> permissions" where
  "evaluate_member_permissions s m room_uuid p =
     evaluate_identity_permissions s (member_is_superuser s m)
       (identities s (m_user_id m)) room_uuid p"

record permission_denied =
  pd_required_permission :: u32
  pd_room_id :: bytes
  pd_message :: string

text \<open>\<open>debug\<close> is the debug rendering of a flag set by the flag library.\<close>

definition require ::
  "(permissions \<Rightarrow> string) \<Rightarrow> permissions \<Rightarrow> permissions \<Rightarrow> uuid \<Rightarrow> permission_denied + unit" where
  "require debug effective required room_uuid =
     (if contains effective required then Inr ()
      else Inl \<lparr>pd_required_permission = required, pd_room_id = to_be_bytes 16 room_uuid,
                pd_message = ''You do not have permission to perform this action (requires '' @
                  debug required @ '')''\<rparr>)"

definition check_permission ::
  "(permissions \<Rightarrow> string) \<Rightarrow> server_state \<Rightarrow> handle \<Rightarrow> uuid \<Rightarrow> permissions \<Rightarrow> persistence \<Rightarrow>
     permission_denied + unit" where
  "check_permission debug s sender room_uuid required p =
     require debug (evaluate_user_permissions s sender room_uuid p) required room_uuid"

definition check_member_permission ::
  "(permissions \<Rightarrow> string) \<Rightarrow> server_state \<Rightarrow> member \<Rightarrow> uuid \<Rightarrow> permissions \<Rightarrow> persistence \<Rightarrow>
     permission_denied + unit" where
  "check_member_permission debug s m room_uuid required p =
     require debug (evaluate_member_permissions s m room_uuid p) required room_uuid"

section \<open>Paths to the root\<close>

inductive path_to_root :: "room list \<Rightarrow> uuid \<Rightarrow> uuid list \<Rightarrow> bool" for rs where
  root: "path_to_root rs ROOT_ROOM_UUID [ROOT_ROOM_UUID]"
| step: "u \<noteq> ROOT_ROOM_UUID \<Longrightarrow> find_room rs u = Some r \<Longrightarrow> path_to_root rs (r_parent r) xs \<Longrightarrow>
    path_to_root rs u (u # xs)"

inductive_cases path_to_root_rootE: "path_to_root rs ROOT_ROOM_UUID xs"
inductive_cases path_to_root_NilE: "path_to_root rs u []"

lemma path_to_root_ends:
  "path_to_root rs u xs \<Longrightarrow> xs \<noteq> [] \<and> hd xs = u \<and> last xs = ROOT_ROOM_UUID"
  by (induction rule: path_to_root.induct) auto

lemma path_to_root_unique: "path_to_root rs u xs \<Longrightarrow> path_to_root rs u ys \<Longrightarrow> xs = ys"
proof (induction arbitrary: ys rule: path_to_root.induct)
  case root
  then show ?case by (auto elim: path_to_root.cases)
next
  case (step u r xs)
  from step.prems step.hyps obtain zs where "ys = u # zs" "path_to_root rs (r_parent r) zs"
    by (auto elim: path_to_root.cases)
  with step.IH show ?case by simp
qed

lemma path_to_root_suffix:
  "path_to_root rs u xs \<Longrightarrow> v \<in> set xs \<Longrightarrow> \<exists>ys. path_to_root rs v ys \<and> length ys \<le> length xs"
proof (induction rule: path_to_root.induct)
  case root
  then show ?case by (auto intro: path_to_root.root)
next
  case (step u r xs)
  then show ?case by (force intro: path_to_root.step)
qed

lemma path_to_root_distinct: "path_to_root rs u xs \<Longrightarrow> distinct xs"
proof (induction rule: path_to_root.induct)
  case (step u r xs)
  have "u \<notin> set xs"
  proof
    assume "u \<in> set xs"
    with path_to_root_suffix [OF step.hyps(3)] obtain ys
      where "path_to_root rs u ys" "length ys \<le> length xs" by blast
    with path_to_root_unique [OF path_to_root.step [OF step.hyps(1-3)]] show False by fastforce
  qed
  with step.IH show ?case by simp
qed simp

lemma path_to_root_subset:
  "path_to_root rs u xs \<Longrightarrow> set xs \<subseteq> insert ROOT_ROOM_UUID (r_id ` set rs)"
proof (induction rule: path_to_root.induct)
  case (step u r xs)
  then have "u \<in> r_id ` set rs"
    by (auto simp: find_room_def dest: find_Some_set)
  with step.IH show ?case by simp
qed simp

lemma path_to_root_length: "path_to_root rs u xs \<Longrightarrow> length xs \<le> length rs + 1"
proof -
  assume p: "path_to_root rs u xs"
  have "length xs = card (set xs)"
    using path_to_root_distinct [OF p] by (simp add: distinct_card)
  also have "\<dots> \<le> card (insert ROOT_ROOM_UUID (r_id ` set rs))"
    by (rule card_mono) (simp_all add: path_to_root_subset [OF p])
  also have "\<dots> \<le> Suc (card (r_id ` set rs))" by (rule card_insert_le_m1) simp_all
  also have "\<dots> \<le> Suc (length rs)"
    using card_image_le [of "set rs" r_id] card_length [of rs] by simp
  finally show ?thesis by simp
qed

lemma chain_walk_path:
  "path_to_root rs u xs \<Longrightarrow> length acc + length xs \<le> length rs + 2 \<Longrightarrow>
     chain_walk rs u acc = acc @ xs"
proof (induction arbitrary: acc rule: path_to_root.induct)
  case root
  then show ?case by (simp add: chain_walk.simps [of rs] ROOT_ROOM_UUID_def Let_def)
next
  case (step u r xs)
  have "xs \<noteq> []" using path_to_root_ends [OF step.hyps(3)] by simp
  then have "length acc + 1 \<le> length rs + 1" using step.prems by (cases xs) auto
  with step show ?case by (simp add: chain_walk.simps [of rs u] ROOT_ROOM_UUID_def Let_def)
qed

lemma dedup_distinct: "distinct xs \<Longrightarrow> dedup xs = xs"
  by (induction xs rule: dedup.induct) auto

lemma room_path_exact:
  assumes "path_to_root rs u xs"
  shows "room_path rs u = rev xs"
proof -
  have "chain_walk rs u [] = xs"
    using chain_walk_path [OF assms, of "[]"] path_to_root_length [OF assms] by simp
  moreover have "rev xs \<noteq> []" "hd (rev xs) = 0"
    using path_to_root_ends [OF assms] by (simp_all add: hd_rev ROOT_ROOM_UUID_def)
  ultimately show ?thesis
    using path_to_root_distinct [OF assms] by (simp add: room_path_def dedup_distinct)
qed

text \<open>On any room list, malformed ones included, the walk is bounded and starts at the target.\<close>

lemma chain_walk_bounds:
  "length acc \<le> length rs + 1 \<Longrightarrow>
     (\<exists>zs. chain_walk rs u acc = acc @ u # zs) \<and> length (chain_walk rs u acc) \<le> length rs + 2"
proof (induction rs u acc rule: chain_walk.induct)
  case (1 rs u acc)
  show ?case
  proof (cases "u \<noteq> 0 \<and> find_room rs u \<noteq> None \<and> length acc + 1 \<le> length rs + 1")
    case True
    then obtain r where r: "find_room rs u = Some r" by auto
    with True 1(1) [OF refl _ r] show ?thesis
      by (auto simp: chain_walk.simps [of rs u acc] Let_def)
  next
    case False
    with 1 show ?thesis by (auto simp: chain_walk.simps [of rs u acc] Let_def split: option.splits)
  qed
qed

lemma dedup_props:
  "xs \<noteq> [] \<Longrightarrow> dedup xs \<noteq> [] \<and> hd (dedup xs) = hd xs \<and> last (dedup xs) = last xs \<and>
     length (dedup xs) \<le> length xs"
  by (induction xs rule: dedup.induct) auto

lemma room_path_bounds:
  "room_path rs u \<noteq> [] \<and> hd (room_path rs u) = ROOT_ROOM_UUID \<and> last (room_path rs u) = u \<and>
     length (room_path rs u) \<le> length rs + 3"
proof -
  from chain_walk_bounds [of "[]" rs u] obtain zs
    where z: "chain_walk rs u [] = u # zs" and l: "length (chain_walk rs u []) \<le> length rs + 2"
    by auto
  define path where "path = rev (u # zs)"
  have ne: "path \<noteq> []" and la: "last path = u" by (simp_all add: path_def)
  let ?q = "if path = [] \<or> hd path \<noteq> 0 then 0 # path else path"
  have "room_path rs u = dedup ?q" by (simp add: room_path_def z path_def Let_def)
  moreover have "?q \<noteq> []" "hd ?q = 0" "last ?q = u" using ne la by auto
  moreover have "length ?q \<le> length rs + 3" using l z by (simp add: path_def)
  ultimately show ?thesis using dedup_props [of ?q] by (simp add: ROOT_ROOM_UUID_def)
qed

section \<open>Facts about the evaluation\<close>

lemma fold_map_upd_notin:
  "k \<notin> fst ` set xs \<Longrightarrow> fold (\<lambda>(n, v) m. m(n \<mapsto> f v)) xs m k = m k"
  by (induction xs arbitrary: m) auto

lemma fold_map_upd_map_of:
  "distinct (map fst xs) \<Longrightarrow>
     fold (\<lambda>(n, v) m. m(n \<mapsto> f v)) xs m k = (case map_of xs k of Some v \<Rightarrow> Some (f v) | None \<Rightarrow> m k)"
  by (induction xs arbitrary: m)
    (auto simp: fold_map_upd_notin rev_image_eqI split: option.splits)

lemma group_permission_map_get:
  "persistence_ok p \<Longrightarrow>
     group_permission_map p g = map_option (\<lambda>pg. from_bits_truncate (pgr_permissions pg)) (get_group p g)"
  unfolding group_permission_map_def list_groups_def get_group_def
  by (subst fold_map_upd_map_of)
    (auto simp: persistence_ok_def tree_ok_distinct split: option.splits)

lemma set_identity_user_groups:
  "set (identity_user_groups ident) =
     insert ''default'' (set (id_groups ident)) \<union> set_option (verified_username ident)"
  by (auto simp: identity_user_groups_def Let_def split: option.splits)

lemma evaluate_superuser [simp]:
  "evaluate_identity_permissions s True ident u p = ALL_FLAGS"
  by (simp add: evaluate_identity_permissions_def effective_permissions_def)

lemma check_permission_ok_iff:
  "check_permission debug s h u req p = Inr () \<longleftrightarrow> contains (evaluate_user_permissions s h u p) req"
  by (simp add: check_permission_def require_def)

lemma check_permission_cases:
  obtains (allowed) "check_permission debug s h u req p = Inr ()"
      "contains (evaluate_user_permissions s h u p) req"
    | (denied) d where "check_permission debug s h u req p = Inl d"
      "\<not> contains (evaluate_user_permissions s h u p) req"
  by (cases "contains (evaluate_user_permissions s h u p) req")
    (auto simp: check_permission_def require_def)

section \<open>Properties\<close>

text \<open>The chain a permission check walks is the path of the room tree. From a room whose
  parent links lead to the root it is exactly the rooms from the root down to it, each with
  its stored access list; on any room table, broken or cyclic ones included, it still
  starts at the root, ends at the room and is bounded by the number of rooms.\<close>

theorem room_chain_spec:
  "hd (map fst (build_room_chain_owned s u p)) = ROOT_ROOM_UUID \<and>
   last (map fst (build_room_chain_owned s u p)) = u \<and>
   length (build_room_chain_owned s u p) \<le> length (get_rooms s) + 3 \<and>
   (\<forall>xs. path_to_root (get_rooms s) u xs \<longrightarrow>
      build_room_chain_owned s u p = map (\<lambda>v. (v, map_option acl_data_of_persisted (get_room_acl p v))) (rev xs))"
  using room_path_bounds [of "get_rooms s" u] room_path_exact [of "get_rooms s" u]
  by (auto simp: build_room_chain_owned_def comp_def)

definition nested_state :: server_state where
  "nested_state = snd (create_room_with_parent_desc 6 ''Inner'' 5 None
     (snd (create_room_with_parent_desc 5 ''Outer'' 0 None server_state_new)))"

theorem room_chain_spec_witness:
  "build_room_chain_owned nested_state 6 persistence_open = [(0, None), (5, None), (6, None)]"
proof -
  have f: "find_room (get_rooms nested_state) 6 = Some (new_room 6 ''Inner'' 5 None)"
    "find_room (get_rooms nested_state) 5 = Some (new_room 5 ''Outer'' 0 None)"
    by code_simp+
  have "path_to_root (get_rooms nested_state) 0 [0]"
    using path_to_root.root [of "get_rooms nested_state"] by (simp add: ROOT_ROOM_UUID_def)
  then have "path_to_root (get_rooms nested_state) 5 [5, 0]"
    using path_to_root.step [OF _ f(2), of "[0]"] by (simp add: new_room_def ROOT_ROOM_UUID_def)
  then have "path_to_root (get_rooms nested_state) 6 [6, 5, 0]"
    using path_to_root.step [OF _ f(1), of "[5, 0]"] by (simp add: new_room_def ROOT_ROOM_UUID_def)
  with room_chain_spec [of nested_state 6 persistence_open] show ?thesis
    by (auto simp: get_room_acl_def persistence_open_def)
qed

text \<open>C5: What a connected user may do in a room. The permission check passes exactly when every
  flag asked for is effective: always for an elevated connection; otherwise by the entries
  in force along the room chain for the groups of the user's identity, the default group and
  the registered name included, over the stored permissions of those groups.\<close>

theorem check_permission_spec:
  assumes "persistence_ok p" and "bit ALL_FLAGS n"
  shows "check_permission debug s h u (2 ^ n) p = Inr () \<longleftrightarrow>
    is_superuser (handles s h) \<or>
    (let gs = identity_user_groups (identities s (handle_uid s h));
         gp = (\<lambda>g. map_option (from_bits_truncate \<circ> pgr_permissions) (get_group p g));
         chain = build_room_chain_owned s u p
     in traversable gs (base_permissions gs gp) chain \<and>
        last_word n (in_force gs chain) (base_permissions gs gp) \<and>
        (length chain > 1 \<longrightarrow> bit ALL_ROOM_SCOPED n))"
proof -
  have gp: "group_permission_map p = (\<lambda>g. map_option (from_bits_truncate \<circ> pgr_permissions) (get_group p g))"
    by (simp add: fun_eq_iff group_permission_map_get [OF assms(1)] comp_def)
  show ?thesis
    using contains_flag [OF bit_u32_lt [OF assms(2)]] effective_decides [OF assms(2)]
    by (simp add: check_permission_ok_iff evaluate_user_permissions_def evaluate_identity_permissions_def
        gp Let_def)
qed

theorem check_permission_spec_witness:
  "check_permission (\<lambda>_. []) nested_state 0 6 (2 ^ 1) grouped_db \<noteq> Inr ()"
proof -
  have ok: "persistence_ok grouped_db" by (simp add: grouped_db_def persistence_ok_open persistence_ok_writes)
  have b: "bit ALL_FLAGS 1" by (simp add: ALL_FLAGS_value)
  have su: "\<not> is_superuser (handles nested_state 0)" by code_simp
  have "\<not> traversable (identity_user_groups (identities nested_state (handle_uid nested_state 0)))
      (base_permissions (identity_user_groups (identities nested_state (handle_uid nested_state 0)))
        (\<lambda>g. map_option (from_bits_truncate \<circ> pgr_permissions) (get_group grouped_db g)))
      (build_room_chain_owned nested_state 6 grouped_db)"
    by code_simp
  with check_permission_spec [OF ok b, of "\<lambda>_. []" nested_state 0 6] su show ?thesis
    by (simp add: Let_def)
qed

end
