(* ===== verification/Effects.thy ===== *)
theory Effects
  imports Acl
begin

text \<open>
  What the server does to the outside, and the primitives every handler uses for it: frames
  on control streams, state broadcasts, permission-denied and command-result replies
  (\<open>server/src/handlers.rs\<close>). A world is the shared state, the database and the trace of
  effects. Time, randomness, the process environment and code outside the repository
  (hashing, signatures, password hashing, message encoding) are fields of \<open>env\<close>.
\<close>

section \<open>Messages\<close>

datatype update_msg =
    UserMoved u64 room_id
  | UserJoined user_info
  | UserLeft u64
  | RoomCreated room_info
  | RoomDeleted room_id room_id
  | RoomRenamed room_id string
  | RoomMoved "room_id option" "room_id option"
  | RoomDescriptionChanged room_id string
  | UserStatusChanged u64 bool bool bool bool
  | GroupChanged group_info bool
  | UserGroupChanged u64 string bool u64
  | RoomAclChanged room_id bool "proto_acl_entry list"

record chat_broadcast =
  cb_id :: bytes
  cb_timestamp_ms :: i64
  cb_sender :: string
  cb_sender_id :: u64
  cb_text :: string
  cb_tree :: "bool option"
  cb_attachment :: "chat_attachment_msg option"

record direct_message_received =
  dr_sender_id :: u64
  dr_sender_name :: string
  dr_text :: string
  dr_id :: bytes
  dr_timestamp_ms :: i64
  dr_target_user_id :: u64
  dr_target_username :: string

record voice_datagram =
  vd_opus_data :: bytes
  vd_sequence :: u32
  vd_timestamp_us :: u64
  vd_end_of_stream :: bool
  vd_sender_id :: "u64 option"
  vd_room_id :: "bytes option"

datatype server_msg =
    ServerHello bytes string u64
  | AuthFailed string
  | CommandResult string bool string
  | PermissionDenied permission_denied
  | UserKicked u64 string string
  | RegisteredUsers "registered_user_info list"
  | ParticipantRegistered u64 string
  | ServerStateEvent server_state_msg
  | StateUpdate bytes update_msg
  | WelcomeMessage string
  | ChatBroadcast chat_broadcast
  | DirectMessageReceived direct_message_received

datatype effect =
    Sent handle bytes server_msg
  | StreamFinished handle
  | ConnectionClosed u64 nat string
  | DatagramSent u64 bytes
  | FrameOffered nat voice_frame

record world =
  w_state :: server_state
  w_persist :: persistence
  w_trace :: "effect list"

record env =
  now_ms :: i64
  now_secs :: u64
  now_instant :: nat
  new_v4 :: uuid
  random_nonce :: key32
  server_password :: "string option"
  blake3 :: "bytes \<Rightarrow> key32"
  sha256 :: "bytes \<Rightarrow> key32"
  encode_state :: "server_state_msg \<Rightarrow> bytes"
  encode_voice :: "voice_datagram \<Rightarrow> bytes"
  valid_key :: "key32 \<Rightarrow> bool"
  verify_strict :: "key32 \<Rightarrow> bytes \<Rightarrow> bytes \<Rightarrow> bool"
  bcrypt_verify :: "string \<Rightarrow> string \<Rightarrow> bool"
  debug_flags :: "permissions \<Rightarrow> string"

section \<open>Primitives\<close>

definition on_state :: "(server_state \<Rightarrow> server_state) \<Rightarrow> world \<Rightarrow> world" where
  "on_state f w = w\<lparr>w_state := f (w_state w)\<rparr>"

definition on_persist :: "(persistence \<Rightarrow> persistence) \<Rightarrow> world \<Rightarrow> world" where
  "on_persist f w = w\<lparr>w_persist := f (w_persist w)\<rparr>"

definition emit :: "effect list \<Rightarrow> world \<Rightarrow> world" where
  "emit es w = w\<lparr>w_trace := w_trace w @ es\<rparr>"

text \<open>
  A frame is written when the stream accepts it. A write that waits on a stalled peer ends
  with the connection, in an error.
\<close>

definition send_frame :: "handle \<Rightarrow> bytes \<Rightarrow> server_msg \<Rightarrow> world \<Rightarrow> unit outcome \<times> world" where
  "send_frame h hash msg w =
     (if send_stream (handles (w_state w) h) = Flowing then (Inr (), emit [Sent h hash msg] w)
      else (Inl ''write error'', w))"

definition finish_stream :: "handle \<Rightarrow> world \<Rightarrow> world" where
  "finish_stream h w =
     emit [StreamFinished h] (on_state (update_handle h (send_stream_update (\<lambda>_. Finished))) w)"

definition close_connection :: "u64 \<Rightarrow> nat \<Rightarrow> string \<Rightarrow> world \<Rightarrow> world" where
  "close_connection uid code reason = emit [ConnectionClosed uid code reason]"

definition send_auth_failed :: "handle \<Rightarrow> string \<Rightarrow> world \<Rightarrow> world" where
  "send_auth_failed sender err w =
     (let w1 = snd (send_frame sender [] (AuthFailed err) w) in
      close_connection (handle_uid (w_state w) sender) 1 ''auth failed'' (finish_stream sender w1))"

definition send_permission_denied :: "handle \<Rightarrow> permission_denied \<Rightarrow> world \<Rightarrow> world" where
  "send_permission_denied sender denied w = snd (send_frame sender [] (PermissionDenied denied) w)"

definition send_command_result :: "handle \<Rightarrow> string \<Rightarrow> bool \<Rightarrow> string \<Rightarrow> world \<Rightarrow> world" where
  "send_command_result sender command success message w =
     snd (send_frame sender [] (CommandResult command success message) w)"

text \<open>The frames of a broadcast; a stalled client is closed after the send timeout.\<close>

definition broadcast_frame :: "handle list \<Rightarrow> bytes \<Rightarrow> server_msg \<Rightarrow> world \<Rightarrow> world" where
  "broadcast_frame clients hash msg w =
     fold (\<lambda>h w. case send_stream (handles (w_state w) h) of
              Flowing \<Rightarrow> emit [Sent h hash msg] w
            | Finished \<Rightarrow> w
            | Stalled \<Rightarrow> close_connection (handle_uid (w_state w) h) 0 ''control stream stalled'' w)
       clients w"

definition state_for_update :: "server_state \<Rightarrow> server_state_msg" where
  "state_for_update s =
     \<lparr>ss_rooms = map room_to_proto (get_rooms s),
      ss_users = map user_to_proto (build_user_list s), ss_groups = [], ss_slash_commands = []\<rparr>"

definition state_hash :: "env \<Rightarrow> server_state_msg \<Rightarrow> bytes" where
  "state_hash e = compute_server_state_hash (encode_state e) (blake3 e)"

definition broadcast_state_update :: "env \<Rightarrow> update_msg \<Rightarrow> world \<Rightarrow> world" where
  "broadcast_state_update e update w =
     (let expected_hash = state_hash e (state_for_update (w_state w)) in
      broadcast_frame (snapshot_clients (w_state w)) expected_hash
        (StateUpdate expected_hash update) w)"

definition BUILTIN_GROUPS :: "string list" where
  "BUILTIN_GROUPS = [''default'', ''admin'']"

definition group_infos :: "persistence \<Rightarrow> group_info list" where
  "group_infos p =
     map (\<lambda>(name, pg). \<lparr>gi_name = name, gi_permissions = pgr_permissions pg,
                        gi_is_builtin = (name \<in> set BUILTIN_GROUPS)\<rparr>) (list_groups p)"

definition client_server_state :: "server_state \<Rightarrow> persistence \<Rightarrow> handle \<Rightarrow> server_state_msg" where
  "client_server_state s p client =
     \<lparr>ss_rooms = map (\<lambda>r. room_to_proto
        (r\<lparr>r_effective_permissions := evaluate_user_permissions s client (r_id r) p\<rparr>)) (get_rooms s),
      ss_users = map user_to_proto (build_user_list s),
      ss_groups = group_infos p, ss_slash_commands = slash_commands s\<rparr>"

definition send_server_state_to_client :: "env \<Rightarrow> handle \<Rightarrow> world \<Rightarrow> unit outcome \<times> world" where
  "send_server_state_to_client e client w =
     (let s = w_state w; p = w_persist w;
          for_hash = \<lparr>ss_rooms = map room_to_proto (get_rooms s),
                      ss_users = map user_to_proto (build_user_list s),
                      ss_groups = group_infos p, ss_slash_commands = []\<rparr>
      in send_frame client (state_hash e for_hash) (ServerStateEvent (client_server_state s p client)) w)"

definition broadcast_server_state :: "env \<Rightarrow> world \<Rightarrow> world" where
  "broadcast_server_state e w =
     fold (\<lambda>h w. case send_stream (handles (w_state w) h) of
              Stalled \<Rightarrow> close_connection (handle_uid (w_state w) h) 0 ''control stream stalled'' w
            | _ \<Rightarrow> snd (send_server_state_to_client e h w))
       (snapshot_clients (w_state w)) w"

section \<open>What the primitives leave alone\<close>

lemma world_on_state [simp]:
  "w_state (on_state f w) = f (w_state w)" "w_persist (on_state f w) = w_persist w"
  "w_trace (on_state f w) = w_trace w"
  by (simp_all add: on_state_def)

lemma world_on_persist [simp]:
  "w_state (on_persist g w) = w_state w" "w_persist (on_persist g w) = g (w_persist w)"
  "w_trace (on_persist g w) = w_trace w"
  by (simp_all add: on_persist_def)

lemma world_emit [simp]:
  "w_state (emit es w) = w_state w" "w_persist (emit es w) = w_persist w"
  "w_trace (emit es w) = w_trace w @ es"
  by (simp_all add: emit_def)

lemma world_close_connection [simp]:
  "w_state (close_connection u c r w) = w_state w"
  "w_persist (close_connection u c r w) = w_persist w"
  "w_trace (close_connection u c r w) = w_trace w @ [ConnectionClosed u c r]"
  by (simp_all add: close_connection_def)

lemma world_send_frame [simp]:
  "w_state (snd (send_frame h b m w)) = w_state w"
  "w_persist (snd (send_frame h b m w)) = w_persist w"
  by (simp_all add: send_frame_def)

lemma trace_send_frame:
  "w_trace (snd (send_frame h b m w)) =
     w_trace w @ (if send_stream (handles (w_state w) h) = Flowing then [Sent h b m] else [])"
  by (simp add: send_frame_def)

lemma world_send_permission_denied [simp]:
  "w_state (send_permission_denied h d w) = w_state w"
  "w_persist (send_permission_denied h d w) = w_persist w"
  by (simp_all add: send_permission_denied_def)

lemma world_send_command_result [simp]:
  "w_state (send_command_result h c b m w) = w_state w"
  "w_persist (send_command_result h c b m w) = w_persist w"
  by (simp_all add: send_command_result_def)

definition broadcast_effect :: "server_state \<Rightarrow> bytes \<Rightarrow> server_msg \<Rightarrow> handle \<Rightarrow> effect list" where
  "broadcast_effect s hash msg h =
     (case send_stream (handles s h) of
        Flowing \<Rightarrow> [Sent h hash msg]
      | Finished \<Rightarrow> []
      | Stalled \<Rightarrow> [ConnectionClosed (handle_uid s h) 0 ''control stream stalled''])"

lemma broadcast_frame_eq:
  "broadcast_frame clients hash msg w =
     emit (concat (map (broadcast_effect (w_state w) hash msg) clients)) w"
proof -
  have "fold (\<lambda>h w. case send_stream (handles (w_state w) h) of
              Flowing \<Rightarrow> emit [Sent h hash msg] w
            | Finished \<Rightarrow> w
            | Stalled \<Rightarrow> close_connection (handle_uid (w_state w) h) 0 ''control stream stalled'' w)
       clients w = emit (concat (map (broadcast_effect (w_state w) hash msg) clients)) w" for w
    by (induction clients arbitrary: w)
      (simp_all add: broadcast_effect_def close_connection_def emit_def split: stream_state.splits)
  then show ?thesis by (simp add: broadcast_frame_def)
qed

lemma world_broadcast_state_update [simp]:
  "w_state (broadcast_state_update e u w) = w_state w"
  "w_persist (broadcast_state_update e u w) = w_persist w"
  by (simp_all add: broadcast_state_update_def Let_def broadcast_frame_eq)

definition update_effects :: "env \<Rightarrow> server_state \<Rightarrow> update_msg \<Rightarrow> effect list" where
  "update_effects e s u =
     (let hash = state_hash e (state_for_update s)
      in concat (map (broadcast_effect s hash (StateUpdate hash u)) (snapshot_clients s)))"

lemma trace_broadcast_state_update:
  "w_trace (broadcast_state_update e u w) = w_trace w @ update_effects e (w_state w) u"
  by (simp add: broadcast_state_update_def update_effects_def Let_def broadcast_frame_eq)

lemma broadcast_state_update_emit:
  "broadcast_state_update e u w = emit (update_effects e (w_state w) u) w"
  by (simp add: broadcast_state_update_def update_effects_def Let_def broadcast_frame_eq)

lemma world_send_server_state [simp]:
  "w_state (snd (send_server_state_to_client e h w)) = w_state w"
  "w_persist (snd (send_server_state_to_client e h w)) = w_persist w"
  by (simp_all add: send_server_state_to_client_def Let_def)

text \<open>
  The hash a full snapshot carries is the hash an incremental update of the same state
  carries: groups and slash commands are left out of it, and so is the permission overlay.
\<close>

lemma canonical_for_hash:
  "canonical_state \<lparr>ss_rooms = rs, ss_users = us, ss_groups = gs, ss_slash_commands = cs\<rparr> =
   canonical_state \<lparr>ss_rooms = rs, ss_users = us, ss_groups = [], ss_slash_commands = []\<rparr>"
  by (simp add: canonical_state_def)

lemma send_server_state_hash:
  "send_server_state_to_client e h w =
     send_frame h (state_hash e (state_for_update (w_state w)))
       (ServerStateEvent (client_server_state (w_state w) (w_persist w) h)) w"
proof -
  have "state_hash e \<lparr>ss_rooms = rs, ss_users = us, ss_groups = gs, ss_slash_commands = []\<rparr> =
        state_hash e \<lparr>ss_rooms = rs, ss_users = us, ss_groups = [], ss_slash_commands = []\<rparr>"
    for rs us gs
    by (simp add: state_hash_def compute_server_state_hash_def canonical_for_hash [of rs us gs])
  from this [of "map room_to_proto (get_rooms (w_state w))"
      "map user_to_proto (build_user_list (w_state w))" "group_infos (w_persist w)"]
  show ?thesis by (simp only: send_server_state_to_client_def state_for_update_def Let_def)
qed

section \<open>A concrete server\<close>

text \<open>
  Two authenticated users, \<open>alice\<close> in the root room and \<open>bob\<close> in a lobby with a room below it,
  on the groups of a fresh database. Concrete functions stand for the code outside the
  repository. The examples of the other theories start from here.
\<close>

definition sample_digest :: "bytes \<Rightarrow> key32" where
  "sample_digest bs = word_of_nat (nat_of_be bs)"

definition sample_signature :: "key32 \<Rightarrow> bytes \<Rightarrow> bytes" where
  "sample_signature key msg = to_be_bytes 64 (word_of_nat (unat key + nat_of_be msg) :: 512 word)"

definition sample_env :: env where
  "sample_env =
     \<lparr>now_ms = 1000000, now_secs = 1000, now_instant = 0, new_v4 = 77, random_nonce = 9,
      server_password = None, blake3 = sample_digest, sha256 = sample_digest,
      encode_state = (\<lambda>_. []), encode_voice = vd_opus_data, valid_key = (\<lambda>_. True),
      verify_strict = (\<lambda>key msg sig. sig = sample_signature key msg),
      bcrypt_verify = (\<lambda>pw hash. pw = hash), debug_flags = (\<lambda>_. [])\<rparr>"

definition sample_session :: "key32 \<Rightarrow> session_entry" where
  "sample_session key =
     \<lparr>se_user_public_key = key, se_session_public_key = key + 100, se_session_id = key + 200,
      se_issued_ms = 0, se_expires_ms = 2000000, se_device = None\<rparr>"

definition sample_identity :: "string \<Rightarrow> identity" where
  "sample_identity name =
     \<lparr>display_name = name, verified_username = None, id_label = None, id_groups = [''default'']\<rparr>"

definition sample_state :: server_state where
  "sample_state = server_state_new
     \<lparr>members := [(1, \<lparr>m_user_id = 1, m_binding = Client 0\<rparr>), (2, \<lparr>m_user_id = 2, m_binding = Client 1\<rparr>)],
      data := \<lparr>rooms = [new_room 0 ''Root'' 0 None, new_room 5 ''Lobby'' 0 None, new_room 6 ''Inner'' 5 None],
               memberships = [(1, 0), (2, 5)], user_statuses = []\<rparr>,
      next_user_id := 3,
      sessions := [(1, sample_session 11), (2, sample_session 12)],
      sessions_by_id := [(211, 1), (212, 2)],
      handles := (\<lambda>h. client_handle_new (if h = 0 then 1 else 2)), next_handle := 2,
      identities := (\<lambda>u. if u = 1 then sample_identity ''alice'' else if u = 2 then sample_identity ''bob''
                         else identity_empty),
      conn_authenticated := (\<lambda>u. u = 1 \<or> u = 2)\<rparr>"

definition sample_persist :: persistence where
  "sample_persist = persistence_open
     \<lparr>p_groups := [(''admin'', \<lparr>pgr_permissions = ADMIN_PERMISSIONS\<rparr>),
                   (''default'', \<lparr>pgr_permissions = DEFAULT_PERMISSIONS\<rparr>)],
      p_rooms := [(5, \<lparr>pr_name = ''Lobby'', pr_parent = None, pr_description = [], pr_permanent = True\<rparr>),
                  (6, \<lparr>pr_name = ''Inner'', pr_parent = Some 5, pr_description = [], pr_permanent = True\<rparr>)]\<rparr>"

definition sample_world :: world where
  "sample_world = \<lparr>w_state = sample_state, w_persist = sample_persist, w_trace = []\<rparr>"

end
