(* ===== verification/Roster.thy ===== *)
theory Roster
  imports Effects
begin

text \<open>
  Arrival and departure of roster members (\<open>server/src/handlers.rs\<close>): teardown of a client,
  eviction of superseded sessions, and the operations on participants that controllers and
  plugins share. The hooks of a server plugin are arguments: a record of functions on the
  world, as the trait \<open>ServerPlugin\<close> declares them.
\<close>

section \<open>Teardown\<close>

definition cleanup_participant :: "env \<Rightarrow> u64 \<Rightarrow> world \<Rightarrow> world" where
  "cleanup_participant e vu_id w =
     (case remove_client vu_id (w_state w) of
        (False, _) \<Rightarrow> w
      | (True, s) \<Rightarrow>
          broadcast_state_update e (UserLeft vu_id)
            (w\<lparr>w_state := remove_user_membership vu_id s\<rparr>))"

definition cleanup_client :: "env \<Rightarrow> handle \<Rightarrow> world \<Rightarrow> world" where
  "cleanup_client e h w =
     (let s0 = w_state w;
          user_id = handle_uid s0 h;
          controller = is_controller (handles s0 h);
          w1 = (if controller
                then fold (cleanup_participant e) (members_by_owner s0 (Connection user_id)) w
                else w);
          (was_present, s1) = remove_client_by_handle h (w_state w1);
          w2 = w1\<lparr>w_state := remove_voice_rate user_id
                   (remove_session user_id (remove_user_membership user_id s1))\<rparr>
      in if was_present \<and> conn_authenticated (w_state w2) user_id \<and> \<not> controller
         then broadcast_state_update e (UserLeft user_id) w2
         else w2)"

section \<open>Plugins and session takeover\<close>

record 'env plugin =
  pl_commands :: "slash_command list"
  pl_on_command :: "string \<Rightarrow> string \<Rightarrow> handle \<Rightarrow> world \<Rightarrow> unit outcome \<times> world"
  pl_on_message :: "'env \<Rightarrow> handle \<Rightarrow> world \<Rightarrow> bool outcome \<times> world"
  pl_on_chat_accepted :: "u64 \<Rightarrow> uuid \<Rightarrow> string \<Rightarrow> world \<Rightarrow> world"
  pl_on_disconnect :: "handle \<Rightarrow> world \<Rightarrow> world"

definition evict_session ::
  "env \<Rightarrow> 'e plugin list \<Rightarrow> string \<Rightarrow> u64 \<Rightarrow> u64 \<Rightarrow> world \<Rightarrow> world" where
  "evict_session e plugins username new_user_id old_id w =
     (if old_id = new_user_id then w
      else case get_client (w_state w) old_id of
        None \<Rightarrow> w
      | Some old \<Rightarrow>
          if get_username (w_state w) old \<noteq> username then w
          else case begin_teardown old (w_state w) of
            (False, _) \<Rightarrow> w
          | (True, s) \<Rightarrow>
              let w1 = w\<lparr>w_state := s\<rparr>;
                  w2 = snd (send_frame old []
                         (UserKicked old_id ''Superseded by a new login with the same identity'' ''server'') w1);
                  w3 = close_connection old_id 3 ''superseded'' w2;
                  w4 = fold (\<lambda>pl. pl_on_disconnect pl old) plugins w3
              in cleanup_client e old w4)"

definition evict_superseded_sessions ::
  "env \<Rightarrow> 'e plugin list \<Rightarrow> key32 \<Rightarrow> string \<Rightarrow> u64 \<Rightarrow> world \<Rightarrow> world" where
  "evict_superseded_sessions e plugins public_key username new_user_id w =
     fold (evict_session e plugins username new_user_id) (user_ids_with_key (w_state w) public_key) w"

section \<open>Participants\<close>

definition create_participant ::
  "env \<Rightarrow> owner_id \<Rightarrow> string \<Rightarrow> string option \<Rightarrow> string option \<Rightarrow> string list \<Rightarrow> bool \<Rightarrow> world \<Rightarrow> u64 \<times> world" where
  "create_participant e owner username lbl verified gs present w =
     (let (user_id, s1) = allocate_user_id (w_state w);
          s2 = update_identity user_id (\<lambda>_. identity_participant username verified lbl gs) s1;
          s3 = register_participant \<lparr>m_user_id = user_id, m_binding = Owned owner\<rparr> s2
      in (user_id,
          if present
          then broadcast_state_update e
                 (UserJoined \<lparr>ui_user_id = Some \<lparr>uid_value = user_id\<rparr>, ui_username = username,
                    ui_current_room = Some (room_id_from_uuid ROOT_ROOM_UUID), ui_is_muted = False,
                    ui_is_deafened = False, ui_server_muted = False, ui_is_elevated = False,
                    ui_groups = gs, ui_label = lbl\<rparr>)
                 (w\<lparr>w_state := set_user_room user_id ROOT_ROOM_UUID s3\<rparr>)
          else w\<lparr>w_state := s3\<rparr>))"

definition remove_participant :: "env \<Rightarrow> u64 \<Rightarrow> world \<Rightarrow> world" where
  "remove_participant e user_id w =
     (let was_present = (get_user_room (w_state w) user_id \<noteq> None);
          w1 = on_state (\<lambda>s. remove_user_membership user_id (snd (remove_client user_id s))) w
      in if was_present then broadcast_state_update e (UserLeft user_id) w1 else w1)"

definition move_participant_to_room :: "env \<Rightarrow> u64 \<Rightarrow> uuid \<Rightarrow> world \<Rightarrow> bool \<times> world" where
  "move_participant_to_room e user_id room_uuid w =
     (if \<not> list_ex (\<lambda>r. r_id r = room_uuid) (get_rooms (w_state w)) then (False, w)
      else
        let was_present = (get_user_room (w_state w) user_id \<noteq> None);
            w1 = on_state (set_user_room user_id room_uuid) w
        in (True,
            if was_present
            then broadcast_state_update e (UserMoved user_id (room_id_from_uuid room_uuid)) w1
            else case get_member (w_state w1) user_id of
                   None \<Rightarrow> w1
                 | Some m \<Rightarrow>
                     let st = get_user_status (w_state w1) user_id;
                         ident = identities (w_state w1) (m_user_id m)
                     in broadcast_state_update e
                          (UserJoined \<lparr>ui_user_id = Some \<lparr>uid_value = user_id\<rparr>,
                             ui_username = display_name ident,
                             ui_current_room = Some (room_id_from_uuid room_uuid),
                             ui_is_muted = st_is_muted st, ui_is_deafened = st_is_deafened st,
                             ui_server_muted = st_server_muted st, ui_is_elevated = st_is_elevated st,
                             ui_groups = id_groups ident, ui_label = id_label ident\<rparr>) w1))"

definition set_participant_status_core :: "env \<Rightarrow> u64 \<Rightarrow> bool \<Rightarrow> bool \<Rightarrow> world \<Rightarrow> world" where
  "set_participant_status_core e user_id muted deafened w =
     broadcast_state_update e (UserStatusChanged user_id muted deafened False False)
       (on_state (set_user_status user_id
          \<lparr>st_is_muted = muted, st_is_deafened = deafened, st_server_muted = False,
           st_is_elevated = False\<rparr>) w)"

section \<open>Properties\<close>

lemma dm_remove_twice [simp]: "dm_remove k (dm_remove k m) = dm_remove k m"
  by (simp add: dm_remove_def)

lemma remove_user_membership_twice [simp]:
  "remove_user_membership u (remove_user_membership u s) = remove_user_membership u s"
  by (simp add: remove_user_membership_def update_data_def)


definition departed :: "u64 \<Rightarrow> server_state \<Rightarrow> server_state" where
  "departed uid s =
     remove_voice_rate uid (remove_session uid (remove_user_membership uid (snd (remove_client uid s))))"

lemma departed_handles [simp]:
  "handles (departed u s) = handles s" "conn_authenticated (departed u s) = conn_authenticated s"
  "handle_uid (departed u s) = handle_uid s"
  by (auto simp: departed_def remove_voice_rate_def remove_session_def remove_user_membership_def
      update_data_def remove_client_def handle_uid_def fun_eq_iff split: option.splits)



lemma departed_twice [simp]: "departed u (departed u s) = departed u s"
  by (cases "dm_get (sessions s) u")
    (simp_all add: departed_def remove_voice_rate_def remove_session_def remove_user_membership_def
      update_data_def remove_client_def kv_simps comp_def)


lemma auth_roster_ops [simp]:
  "conn_authenticated (remove_voice_rate u s) = conn_authenticated s"
  "conn_authenticated (remove_session u s) = conn_authenticated s"
  "conn_authenticated (remove_user_membership u s) = conn_authenticated s"
  "conn_authenticated (snd (remove_client u s)) = conn_authenticated s"
  by (simp_all add: remove_voice_rate_def remove_session_def remove_user_membership_def update_data_def
      remove_client_def split: option.splits)

lemma auth_cleanup_participant [simp]:
  "conn_authenticated (w_state (cleanup_participant e u w)) = conn_authenticated (w_state w)"
  by (auto simp: cleanup_participant_def remove_client_def remove_user_membership_def update_data_def
      split: prod.splits bool.splits)

lemma auth_cleanup_client [simp]:
  "conn_authenticated (w_state (cleanup_client e h w)) = conn_authenticated (w_state w)"
proof -
  have "conn_authenticated (w_state (fold (cleanup_participant e) us w)) = conn_authenticated (w_state w)" for us w
    by (induction us arbitrary: w) simp_all
  then show ?thesis
    by (simp add: cleanup_client_def Let_def split_beta remove_client_by_handle_def)
qed

lemma auth_evict_superseded:
  assumes "\<And>pl h w. pl \<in> set plugins \<Longrightarrow>
    conn_authenticated (w_state (pl_on_disconnect pl h w)) = conn_authenticated (w_state w)"
  shows "conn_authenticated (w_state (evict_superseded_sessions e plugins k n u w)) = conn_authenticated (w_state w)"
proof -
  have hooks: "conn_authenticated (w_state (fold (\<lambda>pl. pl_on_disconnect pl h) pls w)) = conn_authenticated (w_state w)"
    if "set pls \<subseteq> set plugins" for pls h w
    using that by (induction pls arbitrary: w) (auto simp: assms)
  have one: "conn_authenticated (w_state (evict_session e plugins n u old w)) = conn_authenticated (w_state w)" for old w
    by (auto simp: evict_session_def begin_teardown_def hooks update_handle_def Let_def split: option.splits)
  have "conn_authenticated (w_state (fold (evict_session e plugins n u) us w)) = conn_authenticated (w_state w)" for us w
    by (induction us arbitrary: w) (simp_all add: one)
  then show ?thesis by (simp add: evict_superseded_sessions_def)
qed



end
