(* ===== verification/Ops.thy ===== *)
theory Ops
  imports Roster
begin

text \<open>
  The administrative mutations (\<open>server/src/ops.rs\<close>) that the protocol handlers and the web
  control plane share: moderation, registration, rooms, permission groups, memberships and
  room access lists. Each returns the user-facing message of the source, as an error or as a
  result, together with the world. A broadcast never fails, so its error branches are absent.
\<close>

section \<open>Moderation\<close>

definition not_a_client_reason :: "server_state \<Rightarrow> u64 \<Rightarrow> string \<Rightarrow> string" where
  "not_a_client_reason s target action =
     (if get_member s target \<noteq> None
      then ''Cannot '' @ action @ '' a controller-driven participant directly; moderate it through its controller''
      else ''User not found'')"

definition apply_kick :: "env \<Rightarrow> u64 \<Rightarrow> string \<Rightarrow> string \<Rightarrow> world \<Rightarrow> string outcome \<times> world" where
  "apply_kick e target reason actor w =
     (case get_client (w_state w) target of
        None \<Rightarrow> (Inl (not_a_client_reason (w_state w) target ''kick''), w)
      | Some h \<Rightarrow>
          if is_superuser (handles (w_state w) h) then (Inl ''Cannot kick a superuser'', w)
          else if is_controller (handles (w_state w) h) then (Inl ''Cannot kick a bridge connection'', w)
          else
            let target_username = get_username (w_state w) h;
                w1 = snd (send_frame h [] (UserKicked target reason actor) w);
                w2 = close_connection (handle_uid (w_state w1) h) 2 ''kicked'' w1
            in (Inr (''Kicked '' @ quoted target_username), cleanup_client e h w2))"

definition duration_desc :: "u64 \<Rightarrow> string" where
  "duration_desc d = (if d = 0 then ''permanent'' else decimal (unat d) @ ''s'')"

definition ban_message :: "string \<Rightarrow> string \<Rightarrow> string \<Rightarrow> string" where
  "ban_message actor desc reason =
     (if reason = [] then ''Banned by '' @ actor @ '' ('' @ desc @ '')''
      else ''Banned by '' @ actor @ '' ('' @ desc @ ''): '' @ reason)"

definition apply_ban ::
  "env \<Rightarrow> u64 \<Rightarrow> u64 \<Rightarrow> string \<Rightarrow> string \<Rightarrow> world \<Rightarrow> string outcome \<times> world" where
  "apply_ban e target duration reason actor w =
     (case get_client (w_state w) target of
        None \<Rightarrow> (Inl (not_a_client_reason (w_state w) target ''ban''), w)
      | Some h \<Rightarrow>
          if is_superuser (handles (w_state w) h) then (Inl ''Cannot ban a superuser'', w)
          else if is_controller (handles (w_state w) h) then (Inl ''Cannot ban a bridge connection'', w)
          else
            let w1 = (if get_group (w_persist w) ''banned'' = None
                      then on_persist (\<lambda>p. snd (create_group ''banned'' BANNED p)) w else w)
            in case get_user_public_key (w_state w1) target of
                 None \<Rightarrow> (Inl ''Cannot resolve user's public key'', w1)
               | Some key \<Rightarrow>
                   let w2 = on_persist (\<lambda>p. snd (add_user_to_group key ''banned'' p)) w1;
                       ban = \<lparr>banned_at_secs = Some (now_secs e), duration_seconds = duration,
                              ban_reason = reason, banned_by = actor\<rparr>;
                       w3 = on_persist (\<lambda>p. snd (set_ban key ban p)) w2;
                       uid = handle_uid (w_state w3) h;
                       w4 = on_state (update_identity uid
                              (\<lambda>i. i\<lparr>id_groups := push_new ''banned'' (id_groups i)\<rparr>)) w3;
                       target_username = get_username (w_state w4) h;
                       desc = duration_desc duration;
                       w5 = snd (send_frame h [] (UserKicked target (ban_message actor desc reason) actor) w4);
                       w6 = close_connection uid 3 ''banned'' w5
                   in (Inr (''Banned '' @ quoted target_username @ '' ('' @ desc @ '')''),
                       cleanup_client e h w6))"

section \<open>Registration\<close>

definition apply_register_user :: "u64 \<Rightarrow> world \<Rightarrow> string outcome \<times> world" where
  "apply_register_user target w =
     (case get_user_public_key (w_state w) target of
        None \<Rightarrow> (Inl ''User not found'', w)
      | Some key \<Rightarrow>
          (case get_client (w_state w) target of
             None \<Rightarrow> (Inl ''User not found'', w)
           | Some h \<Rightarrow>
               let username = get_username (w_state w) h in
               if get_registered_user (w_persist w) key \<noteq> None then (Inl ''User already registered'', w)
               else if username \<in> set BUILTIN_GROUPS \<or> get_group (w_persist w) username \<noteq> None
               then (Inl ''Username conflicts with an existing permission group'', w)
               else case register_user key \<lparr>ru_username = username, ru_last_room = None\<rparr> (w_persist w) of
                      (Inl err, p) \<Rightarrow> (Inl (''Registration failed: '' @ err), w\<lparr>w_persist := p\<rparr>)
                    | (Inr _, p) \<Rightarrow> (Inr (''Registered '' @ quoted username @ '' successfully''),
                                      w\<lparr>w_persist := p\<rparr>)))"

definition apply_unregister_user :: "u64 \<Rightarrow> world \<Rightarrow> string outcome \<times> world" where
  "apply_unregister_user target w =
     (case get_user_public_key (w_state w) target of
        None \<Rightarrow> (Inl ''User not found'', w)
      | Some key \<Rightarrow>
          let username = (case get_client (w_state w) target of
                            Some h \<Rightarrow> get_username (w_state w) h | None \<Rightarrow> ''user'')
          in case unregister_user key (w_persist w) of
               (Inl err, p) \<Rightarrow> (Inl (''Unregistration failed: '' @ err), w\<lparr>w_persist := p\<rparr>)
             | (Inr _, p) \<Rightarrow> (Inr (''Unregistered '' @ quoted username @ '' successfully''),
                               w\<lparr>w_persist := p\<rparr>))"

section \<open>Rooms\<close>

definition apply_create_room ::
  "env \<Rightarrow> string \<Rightarrow> uuid option \<Rightarrow> string option \<Rightarrow> world \<Rightarrow> uuid outcome \<times> world" where
  "apply_create_room e name parent_uuid description w =
     (if (case parent_uuid of Some u \<Rightarrow> \<not> room_exists (w_state w) u | None \<Rightarrow> False)
      then (Inl ''Parent room does not exist'', w)
      else
        let parent = (case parent_uuid of Some u \<Rightarrow> u | None \<Rightarrow> ROOT_ROOM_UUID);
            (room_uuid, s1) = create_room_with_parent_desc (new_v4 e) name parent description (w_state w);
            persisted = \<lparr>pr_name = name, pr_parent = parent_uuid,
                         pr_description = (case description of Some d \<Rightarrow> d | None \<Rightarrow> []),
                         pr_permanent = True\<rparr>;
            w1 = on_persist (\<lambda>p. snd (save_room room_uuid persisted p)) (w\<lparr>w_state := s1\<rparr>);
            room = new_room room_uuid name parent description
        in (Inr room_uuid, broadcast_state_update e (RoomCreated (room_to_proto room)) w1))"

definition reevaluate_member_mute :: "env \<Rightarrow> u64 \<Rightarrow> uuid \<Rightarrow> world \<Rightarrow> world" where
  "reevaluate_member_mute e member_id room w =
     (case get_client (w_state w) member_id of
        None \<Rightarrow> w
      | Some h \<Rightarrow>
          let s = w_state w;
              speak_denied = (\<not> contains (evaluate_user_permissions s h room (w_persist w)) SPEAK);
              should_mute = (speak_denied \<or> manually_server_muted (handles s h))
          in if should_mute = server_muted (handles s h) then w
             else
               let w1 = on_state (update_handle h (server_muted_update (\<lambda>_. should_mute))) w;
                   st = get_user_status (w_state w1) member_id
               in broadcast_state_update e
                    (UserStatusChanged member_id (st_is_muted st) (st_is_deafened st) should_mute
                       (is_superuser (handles (w_state w1) h))) w1)"

definition reparent_child :: "env \<Rightarrow> uuid \<Rightarrow> uuid \<Rightarrow> world \<Rightarrow> world" where
  "reparent_child e new_parent child w =
     (let w1 = on_state (\<lambda>s. snd (move_room child new_parent s)) w;
          w2 = (case get_room (w_persist w1) child of
                  Some r \<Rightarrow> on_persist (\<lambda>p. snd (save_room child (r\<lparr>pr_parent := Some new_parent\<rparr>) p)) w1
                | None \<Rightarrow> w1)
      in broadcast_state_update e
           (RoomMoved (Some (room_id_from_uuid child)) (Some (room_id_from_uuid new_parent))) w2)"

definition apply_delete_room :: "env \<Rightarrow> uuid \<Rightarrow> world \<Rightarrow> string outcome \<times> world" where
  "apply_delete_room e room_uuid w =
     (if room_uuid = ROOT_ROOM_UUID then (Inl ''Cannot delete the Root room'', w)
      else
        let room_name = (case find_room (get_rooms (w_state w)) room_uuid of
                           Some r \<Rightarrow> r_name r | None \<Rightarrow> ''room'');
            w1 = (case room_parent_and_children (w_state w) room_uuid of
                    Some (new_parent, children) \<Rightarrow> fold (reparent_child e new_parent) children w
                  | None \<Rightarrow> w);
            displaced = get_room_members (w_state w1) room_uuid
        in case delete_room room_uuid (w_state w1) of
             (False, s) \<Rightarrow> (Inl ''Room not found'', w1\<lparr>w_state := s\<rparr>)
           | (True, s) \<Rightarrow>
               let w2 = on_persist (\<lambda>p. snd (delete_room_acl room_uuid (snd (persist_delete_room room_uuid p))))
                          (w1\<lparr>w_state := s\<rparr>);
                   w3 = broadcast_state_update e
                          (RoomDeleted (room_id_from_uuid room_uuid) (room_id_from_uuid ROOT_ROOM_UUID)) w2
               in (Inr room_name,
                   fold (\<lambda>m. reevaluate_member_mute e m ROOT_ROOM_UUID) displaced w3))"

section \<open>Permission groups\<close>

definition group_changed :: "env \<Rightarrow> string \<Rightarrow> u32 \<Rightarrow> bool \<Rightarrow> bool \<Rightarrow> world \<Rightarrow> world" where
  "group_changed e name perms builtin deleted =
     broadcast_state_update e
       (GroupChanged \<lparr>gi_name = name, gi_permissions = perms, gi_is_builtin = builtin\<rparr> deleted)"

definition apply_create_group :: "env \<Rightarrow> string \<Rightarrow> u32 \<Rightarrow> world \<Rightarrow> string outcome \<times> world" where
  "apply_create_group e name perms w =
     (if name = [] then (Inl ''Group name cannot be empty'', w)
      else if CHR '':'' \<in> set name then (Inl (''Group name cannot contain '' @ quoted '':''), w)
      else if name \<in> set BUILTIN_GROUPS then (Inl ''Cannot create built-in groups'', w)
      else if get_group (w_persist w) name \<noteq> None then (Inl ''Group already exists'', w)
      else if is_username_registered (w_persist w) name
      then (Inl ''Group name conflicts with a registered username'', w)
      else case create_group name perms (w_persist w) of
             (Inl err, p) \<Rightarrow> (Inl (''Failed: '' @ err), w\<lparr>w_persist := p\<rparr>)
           | (Inr _, p) \<Rightarrow> (Inr (''Created group '' @ quoted name),
                             group_changed e name perms False False (w\<lparr>w_persist := p\<rparr>)))"

definition scrub_client_group :: "env \<Rightarrow> string \<Rightarrow> handle \<Rightarrow> world \<Rightarrow> world" where
  "scrub_client_group e name h w =
     (let uid = handle_uid (w_state w) h in
      if name \<in> set (id_groups (identities (w_state w) uid))
      then broadcast_state_update e (UserGroupChanged uid name False 0)
             (on_state (update_identity uid
                (\<lambda>i. i\<lparr>id_groups := retain (\<lambda>g. g \<noteq> name) (id_groups i)\<rparr>)) w)
      else w)"

definition apply_delete_group :: "env \<Rightarrow> string \<Rightarrow> world \<Rightarrow> string outcome \<times> world" where
  "apply_delete_group e name w =
     (if name \<in> set BUILTIN_GROUPS then (Inl ''Cannot delete built-in groups'', w)
      else
        let w1 = fold (scrub_client_group e name) (snapshot_clients (w_state w)) w;
            w2 = on_persist (remove_group_from_all_users name) w1
        in case delete_group name (w_persist w2) of
             (Inl err, p) \<Rightarrow> (Inl (''Failed: '' @ err), w2\<lparr>w_persist := p\<rparr>)
           | (Inr _, p) \<Rightarrow> (Inr (''Deleted group '' @ quoted name),
                             group_changed e name 0 False True (w2\<lparr>w_persist := p\<rparr>)))"

definition apply_modify_group :: "env \<Rightarrow> string \<Rightarrow> u32 \<Rightarrow> world \<Rightarrow> string outcome \<times> world" where
  "apply_modify_group e name perms w =
     (case modify_group name perms (w_persist w) of
        (Inr False, p) \<Rightarrow> (Inl ''Group not found'', w\<lparr>w_persist := p\<rparr>)
      | (Inl err, p) \<Rightarrow> (Inl (''Failed: '' @ err), w\<lparr>w_persist := p\<rparr>)
      | (Inr True, p) \<Rightarrow>
          (Inr (''Modified group '' @ quoted name),
           group_changed e name perms (name \<in> set BUILTIN_GROUPS) False (w\<lparr>w_persist := p\<rparr>)))"

definition apply_toggle_group_permission ::
  "env \<Rightarrow> string \<Rightarrow> u32 \<Rightarrow> bool \<Rightarrow> world \<Rightarrow> string outcome \<times> world" where
  "apply_toggle_group_permission e name bits enable w =
     (if bits = 0 then (Inl ''No permission bits specified'', w)
      else if bits AND NOT ALL_FLAGS \<noteq> 0 then (Inl ''Unknown permission bits'', w)
      else case toggle_group_permission name bits enable (w_persist w) of
             (Inr (Some perms), p) \<Rightarrow>
               (Inr (''Modified group '' @ quoted name),
                group_changed e name perms (name \<in> set BUILTIN_GROUPS) False (w\<lparr>w_persist := p\<rparr>))
           | (Inr None, p) \<Rightarrow> (Inl ''Group not found'', w\<lparr>w_persist := p\<rparr>)
           | (Inl err, p) \<Rightarrow> (Inl (''Failed: '' @ err), w\<lparr>w_persist := p\<rparr>))"

section \<open>Memberships\<close>

definition mirror_group_change ::
  "env \<Rightarrow> key32 \<Rightarrow> string \<Rightarrow> bool \<Rightarrow> u64 \<Rightarrow> handle \<Rightarrow> world \<Rightarrow> world" where
  "mirror_group_change e public_key grp add expires_at h w =
     (let uid = handle_uid (w_state w) h in
      if get_user_public_key (w_state w) uid \<noteq> Some public_key then w
      else broadcast_state_update e (UserGroupChanged uid grp add expires_at)
             (on_state (update_identity uid (\<lambda>i. i\<lparr>id_groups :=
                (if add then push_new grp (id_groups i)
                 else retain (\<lambda>g. g \<noteq> grp) (id_groups i))\<rparr>)) w))"

definition apply_set_user_group_by_key ::
  "env \<Rightarrow> key32 \<Rightarrow> string \<Rightarrow> bool \<Rightarrow> u64 \<Rightarrow> world \<Rightarrow> string outcome \<times> world" where
  "apply_set_user_group_by_key e public_key grp add expires_at w =
     (if add \<and> is_username_registered (w_persist w) grp
      then (Inl (quoted grp @ '' is a registered username, not a group''), w)
      else if add \<and> grp \<notin> set BUILTIN_GROUPS \<and> get_group (w_persist w) grp = None
      then (Inl (''Group '' @ quoted grp @ '' does not exist''), w)
      else
        case (if add then add_user_to_group_with_expiry public_key grp expires_at (w_persist w)
              else remove_user_from_group public_key grp (w_persist w)) of
          (Inl err, p) \<Rightarrow> (Inl (''Failed to persist group membership: '' @ err), w\<lparr>w_persist := p\<rparr>)
        | (Inr _, p) \<Rightarrow>
            let w1 = w\<lparr>w_persist := p\<rparr>;
                w2 = fold (mirror_group_change e public_key grp add expires_at)
                       (snapshot_clients (w_state w1)) w1
            in (Inr ((if add then ''Added'' else ''Removed'') @ '' user '' @
                     (if add then ''to'' else ''from'') @ '' group '' @ quoted grp), w2))"

definition apply_set_user_group ::
  "env \<Rightarrow> u64 \<Rightarrow> string \<Rightarrow> bool \<Rightarrow> u64 \<Rightarrow> world \<Rightarrow> string outcome \<times> world" where
  "apply_set_user_group e target grp add expires_at w =
     (case get_user_public_key (w_state w) target of
        None \<Rightarrow> (Inl ''User is not connected'', w)
      | Some key \<Rightarrow> apply_set_user_group_by_key e key grp add expires_at w)"

definition apply_add_controller :: "env \<Rightarrow> key32 \<Rightarrow> world \<Rightarrow> string outcome \<times> world" where
  "apply_add_controller e public_key w =
     (case (if get_group (w_persist w) ''controllers'' = None
            then apply_create_group e ''controllers'' MANAGE_PARTICIPANTS w
            else (Inr [], w)) of
        (Inl err, w1) \<Rightarrow> (Inl err, w1)
      | (Inr _, w1) \<Rightarrow>
          (case apply_set_user_group_by_key e public_key ''controllers'' True 0 w1 of
             (Inl err, w2) \<Rightarrow> (Inl err, w2)
           | (Inr _, w2) \<Rightarrow> (Inr ''Added key to controllers group (grants MANAGE_PARTICIPANTS)'', w2)))"

definition sweep_expired_memberships :: "env \<Rightarrow> world \<Rightarrow> nat \<times> world" where
  "sweep_expired_memberships e w =
     (let (expired, p) = persist_sweep_expired_memberships (now_secs e) (w_persist w);
          w1 = w\<lparr>w_persist := p\<rparr>
      in (length expired,
          fold (\<lambda>(key, grp) w. fold (mirror_group_change e key grp False 0) (snapshot_clients (w_state w)) w)
            expired w1))"

section \<open>Room access lists\<close>

definition ACL_CONFLICT_MSG :: string where
  "ACL_CONFLICT_MSG =
     ''Room ACL changed while you were editing '' @ [CHR 0xE2, CHR 0x80, CHR 0x94] @
     '' reopen the editor to load the latest rules and retry''"

definition current_room_acl_version :: "env \<Rightarrow> persistence \<Rightarrow> uuid \<Rightarrow> u64" where
  "current_room_acl_version e p room_uuid =
     (case get_room_acl p room_uuid of
        Some acl \<Rightarrow> room_acl_version (blake3 e) (pa_inherit_acl acl)
                      (map room_entry_of_persisted (pa_entries acl))
      | None \<Rightarrow> room_acl_version (blake3 e) True [])"

definition persisted_of_room_entry :: "room_acl_entry \<Rightarrow> persisted_acl_entry" where
  "persisted_of_room_entry r =
     \<lparr>pe_group = rae_group r, pe_grant = rae_grant r, pe_deny = rae_deny r,
      pe_apply_here = rae_apply_here r, pe_apply_subs = rae_apply_subs r\<rparr>"

definition apply_set_room_acl ::
  "env \<Rightarrow> uuid \<Rightarrow> bool \<Rightarrow> room_acl_entry list \<Rightarrow> u64 \<Rightarrow> world \<Rightarrow> string outcome \<times> world" where
  "apply_set_room_acl e room_uuid inherit_acl entries base_version w =
     (if base_version \<noteq> 0 \<and> base_version \<noteq> current_room_acl_version e (w_persist w) room_uuid
      then (Inl ACL_CONFLICT_MSG, w)
      else case set_room_acl room_uuid inherit_acl entries (w_state w) of
        (False, s) \<Rightarrow> (Inl ''Room not found'', w\<lparr>w_state := s\<rparr>)
      | (True, s) \<Rightarrow>
          (case persist_set_room_acl room_uuid
                  \<lparr>pa_inherit_acl = inherit_acl, pa_entries = map persisted_of_room_entry entries\<rparr>
                  (w_persist w) of
             (Inl _, p) \<Rightarrow> (Inl ''Failed to persist ACL'', w\<lparr>w_state := s, w_persist := p\<rparr>)
           | (Inr _, p) \<Rightarrow>
               let w1 = broadcast_state_update e
                          (RoomAclChanged (room_id_from_uuid room_uuid) inherit_acl
                             (map acl_entry_to_proto entries))
                          (w\<lparr>w_state := s, w_persist := p\<rparr>)
               in (Inr ''Room ACL updated'',
                   fold (\<lambda>m. reevaluate_member_mute e m room_uuid)
                     (get_room_members (w_state w1) room_uuid) w1)))"

section \<open>Deleting a room\<close>

lemma rooms_reparent_child:
  "rooms (data (w_state (reparent_child e np c w))) =
     update_first (\<lambda>r. r_id r = c) (r_parent_update (\<lambda>_. np)) (rooms (data (w_state w)))"
  by (simp add: reparent_child_def Let_def move_room_def split: option.splits)

lemma find_room_reparent_children:
  "find_room (rooms (data (w_state (fold (reparent_child e np) cs w)))) v =
     map_option (\<lambda>r. if v \<in> set cs then r\<lparr>r_parent := np\<rparr> else r) (find_room (rooms (data (w_state w))) v)"
  by (induction cs arbitrary: w)
    (auto simp: rooms_reparent_child find_room_update_first option.map_comp comp_def option.map_ident
      intro!: option.map_cong)

lemma memberships_reparent_children:
  "memberships (data (w_state (fold (reparent_child e np) cs w))) = memberships (data (w_state w))"
proof (induction cs arbitrary: w)
  case (Cons c cs)
  have "memberships (data (w_state (reparent_child e np c w))) = memberships (data (w_state w))"
    by (simp add: reparent_child_def Let_def move_room_def update_room_def update_data_def split: option.splits)
  with Cons.IH show ?case by simp
qed simp

lemma reevaluate_frame [simp]:
  "data (w_state (reevaluate_member_mute e m r w)) = data (w_state w)"
  "w_persist (reevaluate_member_mute e m r w) = w_persist w"
  by (auto simp: reevaluate_member_mute_def Let_def update_handle_def split: option.splits)

lemma reevaluate_fold_frame [simp]:
  "data (w_state (fold (\<lambda>m. reevaluate_member_mute e m r) ms w)) = data (w_state w)"
  "w_persist (fold (\<lambda>m. reevaluate_member_mute e m r) ms w) = w_persist w"
  by (induction ms arbitrary: w) simp_all

lemma find_room_filter:
  "find_room (filter (\<lambda>r. r_id r \<noteq> d) rs) v = (if v = d then None else find_room rs v)"
  by (induction rs) (auto simp: find_room_def)

lemma find_room_Some_iff:
  "find_room rs d \<noteq> None \<longleftrightarrow> length (filter (\<lambda>r. r_id r \<noteq> d) rs) < length rs"
proof
  assume "find_room rs d \<noteq> None"
  then obtain r where "r \<in> set rs" "r_id r = d" by (auto simp: find_room_def dest: find_Some_set)
  then show "length (filter (\<lambda>r. r_id r \<noteq> d) rs) < length rs" by (intro length_filter_less) auto
next
  assume "length (filter (\<lambda>r. r_id r \<noteq> d) rs) < length rs"
  then have "filter (\<lambda>r. r_id r \<noteq> d) rs \<noteq> rs" by auto
  then show "find_room rs d \<noteq> None" by (auto simp: find_room_def find_None_iff filter_id_conv)
qed

lemma delete_room_found:
  assumes "d \<noteq> ROOT_ROOM_UUID" and "find_room (rooms (data s)) d \<noteq> None"
  shows "fst (delete_room d s)"
    and "rooms (data (snd (delete_room d s))) = filter (\<lambda>r. r_id r \<noteq> d) (rooms (data s))"
    and "memberships (data (snd (delete_room d s))) =
      map (\<lambda>(u, r). if r = d then (u, ROOT_ROOM_UUID) else (u, r)) (memberships (data s))"
  using assms(1) assms(2) [unfolded find_room_Some_iff]
  by (simp_all add: delete_room_def Let_def update_data_def)

lemma map_of_relocate:
  "map_of (map (\<lambda>(u, r). if r = d then (u, z) else (u, r)) ms) u =
     map_option (\<lambda>r. if r = d then z else r) (map_of ms u)"
proof (induction ms)
  case (Cons e ms)
  obtain v r where "e = (v, r)" by force
  with Cons.IH show ?case by (cases "r = d"; cases "v = u") simp_all
qed simp

lemma apply_delete_room_found:
  assumes "d \<noteq> ROOT_ROOM_UUID" and "find_room (rooms (data (w_state w))) d = Some dr"
    and "w1 = fold (reparent_child e (r_parent dr))
      (map r_id (filter (\<lambda>c. r_parent c = d) (rooms (data (w_state w))))) w"
    and "delete_room d (w_state w1) = (True, s)"
  shows "fst (apply_delete_room e d w) = Inr (r_name dr)"
    and "data (w_state (snd (apply_delete_room e d w))) = data s"
proof -
  have mid: "(case room_parent_and_children (w_state w) d of
      Some (np, cs) \<Rightarrow> fold (reparent_child e np) cs w | None \<Rightarrow> w) = w1"
    using assms(2) by (simp add: room_parent_and_children_def assms(3))
  have nm: "(case find_room (get_rooms (w_state w)) d of Some r \<Rightarrow> r_name r | None \<Rightarrow> ''room'') = r_name dr"
    by (simp add: get_rooms_def assms(2))
  show "fst (apply_delete_room e d w) = Inr (r_name dr)"
    unfolding apply_delete_room_def Let_def mid nm assms(4) if_not_P [OF assms(1)] by simp
  show "data (w_state (snd (apply_delete_room e d w))) = data s"
    unfolding apply_delete_room_def Let_def mid nm assms(4) if_not_P [OF assms(1)] by simp
qed

lemma child_ids_iff:
  assumes "distinct (map r_id rs)" and r: "find_room rs v = Some r"
  shows "v \<in> set (map r_id (filter (\<lambda>c. r_parent c = d) rs)) \<longleftrightarrow> r_parent r = d"
proof
  assume "v \<in> set (map r_id (filter (\<lambda>c. r_parent c = d) rs))"
  then obtain c where "c \<in> set rs" "r_parent c = d" "v = r_id c" by auto
  with find_room_distinct [OF assms(1)] r show "r_parent r = d" by fastforce
next
  assume "r_parent r = d"
  moreover have "r \<in> set rs" "r_id r = v" using r by (auto simp: find_room_def dest: find_Some_set)
  ultimately show "v \<in> set (map r_id (filter (\<lambda>c. r_parent c = d) rs))" by auto
qed

definition without_room :: "uuid \<Rightarrow> uuid \<Rightarrow> room \<Rightarrow> room" where
  "without_room d np r = (if r_parent r = d then r\<lparr>r_parent := np\<rparr> else r)"

lemma apply_delete_room_effect:
  assumes "distinct (map r_id (rooms (data (w_state w))))" and "d \<noteq> ROOT_ROOM_UUID"
    and "find_room (rooms (data (w_state w))) d = Some dr"
    and "apply_delete_room e d w = (res, w')"
  shows "res = Inr (r_name dr) \<and>
    (\<forall>v. find_room (rooms (data (w_state w'))) v =
      (if v = d then None
       else map_option (without_room d (r_parent dr)) (find_room (rooms (data (w_state w))) v))) \<and>
    (\<forall>u. get_user_room (w_state w') u =
      map_option (\<lambda>r. if r = d then ROOT_ROOM_UUID else r) (get_user_room (w_state w) u))"
proof -
  let ?rs = "rooms (data (w_state w))"
  let ?cs = "map r_id (filter (\<lambda>c. r_parent c = d) ?rs)"
  define w1 where "w1 = fold (reparent_child e (r_parent dr)) ?cs w"
  have find1: "find_room (rooms (data (w_state w1))) v =
      map_option (without_room d (r_parent dr)) (find_room ?rs v)" for v
  proof (cases "find_room ?rs v")
    case (Some r)
    then show ?thesis
      unfolding w1_def find_room_reparent_children child_ids_iff [OF assms(1) Some] without_room_def by simp
  qed (simp add: w1_def find_room_reparent_children)
  have mem1: "memberships (data (w_state w1)) = memberships (data (w_state w))"
    by (simp add: w1_def memberships_reparent_children)
  have "find_room (rooms (data (w_state w1))) d \<noteq> None" using assms(3) find1 [of d] by simp
  note del = delete_room_found [OF assms(2) this]
  have "delete_room d (w_state w1) = (True, snd (delete_room d (w_state w1)))"
    using del(1) by (simp add: prod_eq_iff)
  note found = apply_delete_room_found [OF assms(2,3) w1_def this]
  show ?thesis
    using found assms(4)
    by (simp add: get_user_room_def del mem1 map_of_relocate find_room_filter find1)
qed

lemma reparent_child_state:
  "\<exists>d'. w_state (reparent_child e np c w) = (w_state w)\<lparr>data := d'\<rparr> \<and> user_statuses d' = user_statuses (data (w_state w))"
  by (auto simp: reparent_child_def Let_def move_room_def update_room_def update_data_def split: option.splits)

lemma reparent_children_state:
  "\<exists>d'. w_state (fold (reparent_child e np) cs w) = (w_state w)\<lparr>data := d'\<rparr> \<and> user_statuses d' = user_statuses (data (w_state w))"
proof (induction cs arbitrary: w)
  case Nil
  show ?case by (rule exI [of _ "data (w_state w)"]) simp
next
  case (Cons c cs)
  obtain d1 where "w_state (reparent_child e np c w) = (w_state w)\<lparr>data := d1\<rparr>" "user_statuses d1 = user_statuses (data (w_state w))"
    using reparent_child_state by blast
  with Cons.IH [of "reparent_child e np c w"] show ?case by auto
qed

lemma reparent_child_persist:
  assumes "p_fault (w_persist w) = None"
  shows "\<exists>t. w_persist (reparent_child e np c w) = (w_persist w)\<lparr>p_rooms := t\<rparr> \<and>
    (\<forall>v. tree_get t v = map_option (\<lambda>r. if v = c then r\<lparr>pr_parent := Some np\<rparr> else r) (get_room (w_persist w) v))"
proof (cases "get_room (w_persist w) c")
  case None
  then have "get_room (w_persist w) v = map_option (\<lambda>r. if v = c then r\<lparr>pr_parent := Some np\<rparr> else r) (get_room (w_persist w) v)" for v
    by (cases "v = c") (simp_all add: option.map_ident)
  with None show ?thesis
    by (intro exI [of _ "p_rooms (w_persist w)"]) (simp add: reparent_child_def Let_def get_room_def)
next
  case (Some r)
  then show ?thesis
    using assms
    by (intro exI [of _ "tree_insert c (r\<lparr>pr_parent := Some np\<rparr>) (p_rooms (w_persist w))"])
      (auto simp: reparent_child_def Let_def save_room_def get_room_def kv_simps option.map_ident)
qed

lemma reparent_children_persist:
  assumes "p_fault (w_persist w) = None"
  shows "\<exists>t. w_persist (fold (reparent_child e np) cs w) = (w_persist w)\<lparr>p_rooms := t\<rparr> \<and>
    (\<forall>v. tree_get t v = map_option (\<lambda>r. if v \<in> set cs then r\<lparr>pr_parent := Some np\<rparr> else r) (get_room (w_persist w) v))"
  using assms
proof (induction cs arbitrary: w)
  case Nil
  show ?case by (rule exI [of _ "p_rooms (w_persist w)"]) (simp add: get_room_def option.map_ident)
next
  case (Cons c cs)
  obtain t where t: "w_persist (reparent_child e np c w) = (w_persist w)\<lparr>p_rooms := t\<rparr>"
    "\<And>v. tree_get t v = map_option (\<lambda>r. if v = c then r\<lparr>pr_parent := Some np\<rparr> else r) (get_room (w_persist w) v)"
    using reparent_child_persist [OF Cons.prems] by blast
  have "p_fault (w_persist (reparent_child e np c w)) = None" using Cons.prems by (simp add: t(1))
  from Cons.IH [OF this] obtain t' where
    "w_persist (fold (reparent_child e np) cs (reparent_child e np c w)) = (w_persist (reparent_child e np c w))\<lparr>p_rooms := t'\<rparr>"
    "\<And>v. tree_get t' v = map_option (\<lambda>r. if v \<in> set cs then r\<lparr>pr_parent := Some np\<rparr> else r)
       (get_room (w_persist (reparent_child e np c w)) v)"
    by blast
  then show ?case
    by (intro exI [of _ t']) (auto simp: t get_room_def option.map_comp comp_def intro!: option.map_cong)
qed

text \<open>The mute of a member follows SPEAK in its room, unless it was muted by hand.\<close>

definition due_mute :: "handle \<Rightarrow> uuid \<Rightarrow> server_state \<Rightarrow> persistence \<Rightarrow> bool" where
  "due_mute h room s p \<longleftrightarrow>
     \<not> contains (evaluate_user_permissions s h room p) SPEAK \<or> manually_server_muted (handles s h)"

lemma server_muted_same: "\<exists>b. c = c\<lparr>server_muted := b\<rparr>"
  by (rule exI [of _ "server_muted c"]) simp

lemma due_mute_handles:
  "(\<And>k. \<exists>b. hs k = (handles s k)\<lparr>server_muted := b\<rparr>) \<Longrightarrow> due_mute h room (s\<lparr>handles := hs\<rparr>) p = due_mute h room s p"
proof -
  assume "\<And>k. \<exists>b. hs k = (handles s k)\<lparr>server_muted := b\<rparr>"
  then obtain b where "hs h = (handles s h)\<lparr>server_muted := b\<rparr>" by blast
  then show ?thesis
    by (simp add: due_mute_def evaluate_user_permissions_def evaluate_identity_permissions_def handle_uid_def
        build_room_chain_owned_def get_rooms_def)
qed

lemma reevaluate_state:
  "w_state (reevaluate_member_mute e m room w) =
     (w_state w)\<lparr>handles := (\<lambda>h. if get_client (w_state w) m = Some h
        then (handles (w_state w) h)\<lparr>server_muted := due_mute h room (w_state w) (w_persist w)\<rparr> else handles (w_state w) h)\<rparr>"
  by (auto simp: reevaluate_member_mute_def Let_def due_mute_def update_handle_def fun_eq_iff split: option.splits)

lemma reevaluate_fold_state:
  "w_state (fold (\<lambda>m. reevaluate_member_mute e m room) ms w) =
     (w_state w)\<lparr>handles := (\<lambda>h. if Some h \<in> get_client (w_state w) ` set ms
        then (handles (w_state w) h)\<lparr>server_muted := due_mute h room (w_state w) (w_persist w)\<rparr> else handles (w_state w) h)\<rparr>"
proof (induction ms arbitrary: w)
  case (Cons m ms)
  let ?w = "reevaluate_member_mute e m room w"
  have due: "due_mute h room (w_state ?w) (w_persist ?w) = due_mute h room (w_state w) (w_persist w)" for h
    unfolding reevaluate_state reevaluate_frame by (rule due_mute_handles) (auto intro: server_muted_same)
  have cl: "get_client (w_state ?w) = get_client (w_state w)" by (simp add: reevaluate_state get_client_def fun_eq_iff)
  show ?case
    unfolding fold.simps comp_apply Cons.IH due cl by (auto simp: reevaluate_state fun_eq_iff)
qed simp

lemma reparent_children_fault:
  "p_fault (w_persist w) = Some x \<Longrightarrow> w_persist (fold (reparent_child e np) cs w) = w_persist w"
proof (induction cs arbitrary: w)
  case (Cons c cs)
  then have "w_persist (reparent_child e np c w) = w_persist w"
    by (simp add: reparent_child_def Let_def save_room_def split: option.splits)
  with Cons show ?case by simp
qed simp

lemma apply_delete_room_run:
  assumes "d \<noteq> ROOT_ROOM_UUID" and "find_room (rooms (data (w_state w))) d = Some dr"
    and "w1 = fold (reparent_child e (r_parent dr))
      (map r_id (filter (\<lambda>c. r_parent c = d) (rooms (data (w_state w))))) w"
    and "w2 = on_persist (\<lambda>p. snd (delete_room_acl d (snd (persist_delete_room d p))))
      (w1\<lparr>w_state := snd (delete_room d (w_state w1))\<rparr>)"
  obtains w3 where "snd (apply_delete_room e d w) =
      fold (\<lambda>m. reevaluate_member_mute e m ROOT_ROOM_UUID) (get_room_members (w_state w1) d) w3"
    and "w_state w3 = w_state w2" and "w_persist w3 = w_persist w2"
proof -
  have mid: "(case room_parent_and_children (w_state w) d of
      Some (np, cs) \<Rightarrow> fold (reparent_child e np) cs w | None \<Rightarrow> w) = w1"
    using assms(2) by (simp add: room_parent_and_children_def assms(3))
  have "find_room (rooms (data (w_state w1))) d \<noteq> None"
    using assms(2) by (simp add: assms(3) find_room_reparent_children)
  from delete_room_found(1) [OF assms(1) this]
  have "delete_room d (w_state w1) = (True, snd (delete_room d (w_state w1)))" by (simp add: prod_eq_iff)
  then have "snd (apply_delete_room e d w) =
      fold (\<lambda>m. reevaluate_member_mute e m ROOT_ROOM_UUID) (get_room_members (w_state w1) d)
        (broadcast_state_update e (RoomDeleted (room_id_from_uuid d) (room_id_from_uuid ROOT_ROOM_UUID)) w2)"
    unfolding apply_delete_room_def Let_def mid if_not_P [OF assms(1)] assms(4) by (cases "delete_room d (w_state w1)") simp
  then show thesis by (rule that) simp_all
qed

lemma apply_delete_room_frame:
  assumes "d \<noteq> ROOT_ROOM_UUID" and "find_room (rooms (data (w_state w))) d = Some dr"
    and "w' = snd (apply_delete_room e d w)"
  shows "\<exists>d' hs. w_state w' = (w_state w)\<lparr>data := d', handles := hs\<rparr> \<and> user_statuses d' = user_statuses (data (w_state w))"
    and "handles (w_state w') h =
      (if \<exists>u. (u, d) \<in> set (memberships (data (w_state w))) \<and> get_client (w_state w) u = Some h
       then (handles (w_state w) h)\<lparr>server_muted := due_mute h ROOT_ROOM_UUID (w_state w') (w_persist w')\<rparr>
       else handles (w_state w) h)"
proof -
  let ?cs = "map r_id (filter (\<lambda>c. r_parent c = d) (rooms (data (w_state w))))"
  define w1 where "w1 = fold (reparent_child e (r_parent dr)) ?cs w"
  obtain w3 where w3: "w' = fold (\<lambda>m. reevaluate_member_mute e m ROOT_ROOM_UUID) (get_room_members (w_state w1) d) w3"
    "w_state w3 = snd (delete_room d (w_state w1))"
    by (rule apply_delete_room_run [OF assms(1,2) w1_def refl]) (simp add: assms(3))
  obtain d1 where d1: "w_state w1 = (w_state w)\<lparr>data := d1\<rparr>" "user_statuses d1 = user_statuses (data (w_state w))"
    using reparent_children_state unfolding w1_def by blast
  obtain d3 where d3: "w_state w3 = (w_state w)\<lparr>data := d3\<rparr>" "user_statuses d3 = user_statuses (data (w_state w))"
    using d1 assms(1) by (simp add: w3(2) delete_room_def Let_def update_data_def)
  have mem: "get_room_members (w_state w1) d = map fst (filter (\<lambda>(_, r). r = d) (memberships (data (w_state w))))"
    by (simp add: get_room_members_def w1_def memberships_reparent_children)
  have cl: "get_client (w_state w3) = get_client (w_state w)" by (simp add: d3(1) get_client_def fun_eq_iff)
  have who: "Some h \<in> get_client (w_state w3) ` set (get_room_members (w_state w1) d) \<longleftrightarrow>
      (\<exists>u. (u, d) \<in> set (memberships (data (w_state w))) \<and> get_client (w_state w) u = Some h)" for h
    unfolding mem cl by force
  note run = reevaluate_fold_state [of e ROOT_ROOM_UUID "get_room_members (w_state w1) d" w3, folded w3(1)]
  show "\<exists>d' hs. w_state w' = (w_state w)\<lparr>data := d', handles := hs\<rparr> \<and> user_statuses d' = user_statuses (data (w_state w))"
    unfolding run using d3 by auto
  have "due_mute h ROOT_ROOM_UUID (w_state w') (w_persist w') = due_mute h ROOT_ROOM_UUID (w_state w3) (w_persist w3)"
    unfolding run by (subst due_mute_handles) (auto intro: server_muted_same simp: w3(1))
  then show "handles (w_state w') h =
      (if \<exists>u. (u, d) \<in> set (memberships (data (w_state w))) \<and> get_client (w_state w) u = Some h
       then (handles (w_state w) h)\<lparr>server_muted := due_mute h ROOT_ROOM_UUID (w_state w') (w_persist w')\<rparr>
       else handles (w_state w) h)"
    unfolding who [symmetric] by (simp add: run d3(1))
qed

lemma apply_delete_room_store:
  assumes "d \<noteq> ROOT_ROOM_UUID" and "find_room (rooms (data (w_state w))) d = Some dr"
    and "p' = w_persist (snd (apply_delete_room e d w))" and "p = w_persist w"
  shows "if p_fault p = None
    then (\<exists>rt at. p' = p\<lparr>p_rooms := rt, p_room_acls := at\<rparr>) \<and>
      (\<forall>v. get_room p' v = (if v = d then None
         else map_option (\<lambda>r. if \<exists>c \<in> set (rooms (data (w_state w))). r_id c = v \<and> r_parent c = d
                then r\<lparr>pr_parent := Some (r_parent dr)\<rparr> else r) (get_room p v))) \<and>
      get_room_acl p' = (get_room_acl p)(d := None)
    else p' = p"
proof -
  let ?cs = "map r_id (filter (\<lambda>c. r_parent c = d) (rooms (data (w_state w))))"
  define w1 where "w1 = fold (reparent_child e (r_parent dr)) ?cs w"
  have p': "p' = snd (delete_room_acl d (snd (persist_delete_room d (w_persist w1))))"
    by (rule apply_delete_room_run [OF assms(1,2) w1_def refl]) (simp add: assms(3))
  show ?thesis
  proof (cases "p_fault p")
    case None
    then obtain t where t: "w_persist w1 = p\<lparr>p_rooms := t\<rparr>"
      "\<And>v. tree_get t v = map_option (\<lambda>r. if v \<in> set ?cs then r\<lparr>pr_parent := Some (r_parent dr)\<rparr> else r) (get_room p v)"
      using reparent_children_persist unfolding w1_def assms(4) by blast
    have "v \<in> set ?cs \<longleftrightarrow> (\<exists>c \<in> set (rooms (data (w_state w))). r_id c = v \<and> r_parent c = d)" for v by auto
    with None t show ?thesis
      by (auto simp: p' persist_delete_room_def delete_room_acl_def get_room_def get_room_acl_def kv_simps fun_eq_iff)
  next
    case (Some x)
    then show ?thesis
      by (simp add: p' w1_def reparent_children_fault assms(4) persist_delete_room_def delete_room_acl_def)
  qed
qed

text \<open>C19: Deleting a room, not the root, keeps the tree together. The operation succeeds; the room is gone,
  its children hang below its parent and every other room is untouched; its members are in the root
  room, the others where they were. Of the members it moved, each client is server-muted exactly when
  it may not speak in the root room or was muted by hand; statuses, roster, sessions and every other
  part of the state stay as they were. With working storage the record of the room and its access
  list are gone from the database, the records of its children name the new parent, and nothing else
  is changed there; with failing storage the database is as before.\<close>

theorem apply_delete_room_heals:
  assumes "distinct (map r_id (rooms (data s)))" and "d \<noteq> ROOT_ROOM_UUID"
    and "find_room (rooms (data s)) d = Some dr" and "apply_delete_room e d w = (res, w')"
    and "s = w_state w" and "s' = w_state w'" and "p = w_persist w" and "p' = w_persist w'"
  shows "res = Inr (r_name dr) \<and>
    (\<forall>v. find_room (rooms (data s')) v =
      (if v = d then None else map_option (without_room d (r_parent dr)) (find_room (rooms (data s)) v))) \<and>
    (\<forall>u. get_user_room s' u = map_option (\<lambda>r. if r = d then ROOT_ROOM_UUID else r) (get_user_room s u)) \<and>
    (\<exists>d' hs. s' = s\<lparr>data := d', handles := hs\<rparr> \<and> user_statuses d' = user_statuses (data s)) \<and>
    (\<forall>h. handles s' h =
      (if \<exists>u. (u, d) \<in> set (memberships (data s)) \<and> get_client s u = Some h
       then (handles s h)\<lparr>server_muted := due_mute h ROOT_ROOM_UUID s' p'\<rparr> else handles s h)) \<and>
    (if p_fault p = None
     then (\<exists>rt at. p' = p\<lparr>p_rooms := rt, p_room_acls := at\<rparr>) \<and>
       (\<forall>v. get_room p' v = (if v = d then None
          else map_option (\<lambda>r. if \<exists>c \<in> set (rooms (data s)). r_id c = v \<and> r_parent c = d
                 then r\<lparr>pr_parent := Some (r_parent dr)\<rparr> else r) (get_room p v))) \<and>
       get_room_acl p' = (get_room_acl p)(d := None)
     else p' = p)"
proof -
  have w': "w' = snd (apply_delete_room e d w)" by (simp add: assms(4))
  note found = assms(3) [unfolded assms(5)]
  show ?thesis
    using apply_delete_room_effect [OF assms(1) [unfolded assms(5)] assms(2) found assms(4)]
      apply_delete_room_frame [OF assms(2) found w'] apply_delete_room_store [OF assms(2) found refl assms(7), of e]
    unfolding assms(5,6,8) w' by blast
qed

theorem apply_delete_room_heals_witness:
  "map_option r_parent (find_room (rooms (data (w_state (snd (apply_delete_room sample_env 5 sample_world))))) 6) = Some 0 \<and>
   get_user_room (w_state (snd (apply_delete_room sample_env 5 sample_world))) 2 = Some 0"
proof -
  have a: "distinct (map r_id (rooms (data (w_state sample_world))))" by code_simp
  have b: "(5 :: uuid) \<noteq> ROOT_ROOM_UUID" by code_simp
  have c: "find_room (rooms (data (w_state sample_world))) 5 = Some (new_room 5 ''Lobby'' 0 None)" by code_simp
  have e: "map_option r_parent (map_option (without_room 5 (r_parent (new_room 5 ''Lobby'' 0 None)))
        (find_room (rooms (data (w_state sample_world))) 6)) = Some 0"
    "map_option (\<lambda>r. if r = 5 then ROOT_ROOM_UUID else r) (get_user_room (w_state sample_world) 2) = Some 0"
    by code_simp+
  from apply_delete_room_heals [OF a b c surjective_pairing [of "apply_delete_room sample_env 5 sample_world"] refl refl refl refl] e
  show ?thesis by simp
qed

section \<open>Access lists and memberships\<close>

lemma persisted_entry_roundtrip [simp]: "room_entry_of_persisted (persisted_of_room_entry r) = r"
  by (simp add: room_entry_of_persisted_def persisted_of_room_entry_def)

text \<open>C35: Editing an access list is an optimistic write. An edit based on a version that is no
  longer current is refused and changes nothing, so that no administrator overwrites rules
  they have not seen. An edit based on the current version, or an unconditional one, of an
  existing room on working storage succeeds: the live room and the database then hold the
  new list, and the version is that of the new list.\<close>

theorem apply_set_room_acl_spec:
  assumes "apply_set_room_acl e room inherit entries base w = (res, w')"
  shows "(base \<noteq> 0 \<and> base \<noteq> current_room_acl_version e (w_persist w) room \<longrightarrow>
      res = Inl ACL_CONFLICT_MSG \<and> w' = w) \<and>
    ((base = 0 \<or> base = current_room_acl_version e (w_persist w) room) \<and>
       find_room (rooms (data (w_state w))) room = Some r \<and> p_fault (w_persist w) = None \<longrightarrow>
      res = Inr ''Room ACL updated'' \<and>
      find_room (rooms (data (w_state w'))) room = Some (r\<lparr>r_inherit_acl := inherit, r_acls := entries\<rparr>) \<and>
      get_room_acl (w_persist w') = (get_room_acl (w_persist w))
        (room \<mapsto> \<lparr>pa_inherit_acl = inherit, pa_entries = map persisted_of_room_entry entries\<rparr>) \<and>
      current_room_acl_version e (w_persist w') room = room_acl_version (blake3 e) inherit entries)"
proof (intro conjI impI; (elim conjE)?)
  assume "base \<noteq> 0" "base \<noteq> current_room_acl_version e (w_persist w) room"
  with assms show "res = Inl ACL_CONFLICT_MSG" "w' = w" by (simp_all add: apply_set_room_acl_def)
next
  assume b: "base = 0 \<or> base = current_room_acl_version e (w_persist w) room"
    and r: "find_room (rooms (data (w_state w))) room = Some r" and f: "p_fault (w_persist w) = None"
  let ?acl = "\<lparr>pa_inherit_acl = inherit, pa_entries = map persisted_of_room_entry entries\<rparr>"
  have "list_ex (\<lambda>r. r_id r = room) (rooms (data (w_state w)))"
    using r by (auto simp: find_room_def list_ex_iff dest: find_Some_set)
  then obtain sa where s: "set_room_acl room inherit entries (w_state w) = (True, sa)"
    by (simp add: set_room_acl_def update_room_def)
  have p: "persist_set_room_acl room ?acl (w_persist w) =
      (Inr (), (w_persist w)\<lparr>p_room_acls := tree_insert room ?acl (p_room_acls (w_persist w))\<rparr>)"
    using f by (simp add: persist_set_room_acl_def)
  have eq: "apply_set_room_acl e room inherit entries base w =
      (let w1 = broadcast_state_update e (RoomAclChanged (room_id_from_uuid room) inherit (map acl_entry_to_proto entries))
             (w\<lparr>w_state := sa, w_persist := (w_persist w)\<lparr>p_room_acls := tree_insert room ?acl (p_room_acls (w_persist w))\<rparr>\<rparr>)
       in (Inr ''Room ACL updated'', fold (\<lambda>m. reevaluate_member_mute e m room) (get_room_members (w_state w1) room) w1))"
    using b s by (auto simp: apply_set_room_acl_def p Let_def)
  have d: "data (w_state w') = data sa"
    and pp: "w_persist w' = (w_persist w)\<lparr>p_room_acls := tree_insert room ?acl (p_room_acls (w_persist w))\<rparr>"
    using assms unfolding eq by (auto simp: Let_def)
  show "res = Inr ''Room ACL updated''" using assms unfolding eq by (simp add: Let_def)
  show "find_room (rooms (data (w_state w'))) room = Some (r\<lparr>r_inherit_acl := inherit, r_acls := entries\<rparr>)"
  proof -
    have "sa = snd (set_room_acl room inherit entries (w_state w))" by (simp add: s)
    then show ?thesis unfolding d by (simp add: set_room_acl_def find_room_update_first r)
  qed
  show g: "get_room_acl (w_persist w') = (get_room_acl (w_persist w))(room \<mapsto> ?acl)"
    by (simp add: pp get_room_acl_def fun_eq_iff kv_simps)
  show "current_room_acl_version e (w_persist w') room = room_acl_version (blake3 e) inherit entries"
    by (simp add: current_room_acl_version_def g comp_def)
qed

theorem apply_set_room_acl_spec_witness:
  "fst (apply_set_room_acl sample_env 5 False [] 0 sample_world) = Inr ''Room ACL updated''"
proof -
  have r: "find_room (rooms (data (w_state sample_world))) 5 = Some (new_room 5 ''Lobby'' 0 None)"
    and f: "p_fault (w_persist sample_world) = None"
    by code_simp+
  from apply_set_room_acl_spec [OF surjective_pairing [of "apply_set_room_acl sample_env 5 False [] 0 sample_world"],
      of "new_room 5 ''Lobby'' 0 None"] r f
  show ?thesis by simp
qed

definition change_group :: "string \<Rightarrow> bool \<Rightarrow> identity \<Rightarrow> identity" where
  "change_group grp add i =
     i\<lparr>id_groups := (if add then push_new grp (id_groups i) else retain (\<lambda>g. g \<noteq> grp) (id_groups i))\<rparr>"

lemma change_group_twice [simp]: "change_group grp add (change_group grp add i) = change_group grp add i"
  by (simp add: change_group_def push_new_def)

lemma mirror_group_change_eq:
  "mirror_group_change e key grp add x h w =
     (let uid = handle_uid (w_state w) h in
      if get_user_public_key (w_state w) uid \<noteq> Some key then w
      else broadcast_state_update e (UserGroupChanged uid grp add x)
             (on_state (update_identity uid (change_group grp add)) w))"
  by (simp add: mirror_group_change_def change_group_def [abs_def] Let_def)

lemma update_identity_frame [simp]:
  "handle_uid (update_identity u f s) = handle_uid s" "sessions (update_identity u f s) = sessions s"
  "members (update_identity u f s) = members s" "data (update_identity u f s) = data s"
  "get_user_public_key (update_identity u f s) = get_user_public_key s"
  by (simp_all add: update_identity_def handle_uid_def fun_eq_iff get_user_public_key_def)

lemma mirror_fold:
  "w_persist (fold (mirror_group_change e key grp add x) hs w) = w_persist w \<and>
   handle_uid (w_state (fold (mirror_group_change e key grp add x) hs w)) = handle_uid (w_state w) \<and>
   get_user_public_key (w_state (fold (mirror_group_change e key grp add x) hs w)) = get_user_public_key (w_state w) \<and>
   identities (w_state (fold (mirror_group_change e key grp add x) hs w)) u =
     (if (\<exists>h \<in> set hs. handle_uid (w_state w) h = u) \<and> get_user_public_key (w_state w) u = Some key
      then change_group grp add (identities (w_state w) u) else identities (w_state w) u)"
proof (induction hs arbitrary: w)
  case (Cons h hs)
  let ?w = "mirror_group_change e key grp add x h w"
  have frame: "w_persist ?w = w_persist w" "handle_uid (w_state ?w) = handle_uid (w_state w)"
    "get_user_public_key (w_state ?w) = get_user_public_key (w_state w)"
    by (simp_all add: mirror_group_change_eq Let_def)
  have "identities (w_state ?w) u = (if handle_uid (w_state w) h = u \<and> get_user_public_key (w_state w) u = Some key
      then change_group grp add (identities (w_state w) u) else identities (w_state w) u)"
    by (auto simp: mirror_group_change_eq Let_def update_identity_def)
  with Cons.IH [of ?w] frame show ?case by auto
qed simp

text \<open>A membership change is durable before it takes effect. When the storage refuses the
  write, the caller is told and nothing changes, neither live groups nor announcements; when
  it accepts it, the stored groups of the key change, and so do the live groups of every
  connected client of that key and of no other user.\<close>

theorem apply_set_user_group_by_key_spec:
  assumes "apply_set_user_group_by_key e key grp add expires w = (res, w')"
  shows "(\<forall>err. p_fault (w_persist w) = Some err \<longrightarrow> w' = w \<and> (\<exists>msg. res = Inl msg)) \<and>
    (\<forall>msg. res = Inr msg \<longrightarrow>
      get_user_groups (w_persist w') = (get_user_groups (w_persist w))
        (key := (if add then push_new grp (get_user_groups (w_persist w) key)
                 else retain (\<lambda>g. g \<noteq> grp) (get_user_groups (w_persist w) key))) \<and>
      get_group_expiry (w_persist w') key grp = (if add then expires else 0) \<and>
      (\<forall>u. identities (w_state w') u =
        (if (\<exists>h \<in> set (snapshot_clients (w_state w)). handle_uid (w_state w) h = u) \<and>
            get_user_public_key (w_state w) u = Some key
         then change_group grp add (identities (w_state w) u) else identities (w_state w) u)))"
proof (cases "p_fault (w_persist w)")
  case (Some err)
  then have "add_user_to_group_with_expiry key grp expires (w_persist w) = (Inl err, w_persist w)"
    "remove_user_from_group key grp (w_persist w) = (Inl err, w_persist w)"
    by (simp_all add: add_user_to_group_with_expiry_def remove_user_from_group_def update_user_groups_def)
  with assms Some show ?thesis by (auto simp: apply_set_user_group_by_key_def split: if_splits)
next
  case None
  define p where "p = (if add then snd (add_user_to_group_with_expiry key grp expires (w_persist w))
    else snd (remove_user_from_group key grp (w_persist w)))"
  have ok: "(if add then add_user_to_group_with_expiry key grp expires (w_persist w)
      else remove_user_from_group key grp (w_persist w)) = (Inr (), p)"
    using None by (simp add: p_def add_user_to_group_with_expiry_def remove_user_from_group_def
        update_user_groups_def set_group_expiry_def remove_expiry_def)
  have st: "get_user_groups p = (get_user_groups (w_persist w))
        (key := (if add then push_new grp (get_user_groups (w_persist w) key)
                 else retain (\<lambda>g. g \<noteq> grp) (get_user_groups (w_persist w) key)))"
    "get_group_expiry p key grp = (if add then expires else 0)"
    using None by (simp_all add: p_def get_user_groups_add get_user_groups_remove get_group_expiry_add
        get_group_expiry_remove)
  have "w' = fold (mirror_group_change e key grp add expires) (snapshot_clients (w_state w)) (w\<lparr>w_persist := p\<rparr>)"
    if "res = Inr msg" for msg
    using assms that unfolding apply_set_user_group_by_key_def ok by (auto split: if_splits)
  then show ?thesis
    using None st mirror_fold [of e key grp add expires "snapshot_clients (w_state w)" "w\<lparr>w_persist := p\<rparr>"]
    by auto
qed

theorem apply_set_user_group_by_key_spec_witness:
  "id_groups (identities (w_state (snd (apply_set_user_group_by_key sample_env 12 ''admin'' True 0 sample_world))) 2) =
     [''default'', ''admin'']"
proof -
  let ?r = "apply_set_user_group_by_key sample_env 12 ''admin'' True 0 sample_world"
  have "\<not> is_username_registered (w_persist sample_world) ''admin''" "p_fault (w_persist sample_world) = None"
    by code_simp+
  then have "\<exists>msg. fst ?r = Inr msg"
    by (simp add: apply_set_user_group_by_key_def BUILTIN_GROUPS_def add_user_to_group_with_expiry_def
        update_user_groups_def set_group_expiry_def Let_def)
  moreover have "\<exists>h \<in> set (snapshot_clients (w_state sample_world)). handle_uid (w_state sample_world) h = 2"
    "get_user_public_key (w_state sample_world) 2 = Some 12"
    "id_groups (change_group ''admin'' True (identities (w_state sample_world) 2)) = [''default'', ''admin'']"
    by code_simp+
  ultimately show ?thesis
    using apply_set_user_group_by_key_spec [OF surjective_pairing [of ?r]] by auto
qed

end
