(* ===== verification/Auth.thy ===== *)
theory Auth
  imports Ops
begin

text \<open>
  The authentication handshake (\<open>handle_client_hello\<close> and \<open>handle_authenticate\<close> of
  \<open>server/src/handlers.rs\<close>): username and password checks, the nonce challenge bound to the
  server certificate, ban enforcement, the session certificate, session takeover and the
  placement of the new user.
\<close>

record client_hello =
  hello_username :: string
  hello_public_key :: bytes
  hello_password :: "string option"

record session_certificate =
  cert_session_public_key :: bytes
  cert_issued_ms :: i64
  cert_expires_ms :: i64
  cert_device :: "string option"
  cert_user_signature :: bytes

record authenticate =
  auth_signature :: bytes
  auth_timestamp_ms :: i64
  auth_session_cert :: "session_certificate option"

section \<open>ClientHello\<close>

definition password_rejected :: "env \<Rightarrow> persistence \<Rightarrow> key32 \<Rightarrow> string option \<Rightarrow> bool" where
  "password_rejected e p public_key password \<longleftrightarrow>
     \<not> is_known_key p public_key \<and>
     (case server_password e of
        None \<Rightarrow> False
      | Some required \<Rightarrow> required \<noteq> [] \<and> password \<noteq> Some required)"

definition handle_client_hello :: "env \<Rightarrow> client_hello \<Rightarrow> handle \<Rightarrow> world \<Rightarrow> unit outcome \<times> world" where
  "handle_client_hello e ch sender w =
     (if length (hello_public_key ch) \<noteq> 32
      then (Inr (), send_auth_failed sender ''Invalid public key length'' w)
      else
        let public_key = from_be_bytes (hello_public_key ch);
            user_id = handle_uid (w_state w) sender
        in if is_username_taken (w_persist w) (hello_username ch) public_key
           then (Inr (), send_auth_failed sender ''Username is registered to a different key'' w)
           else if password_rejected e (w_persist w) public_key (hello_password ch)
           then (Inr (), send_auth_failed sender ''Password required for new users'' w)
           else
             let pending = \<lparr>pa_nonce = random_nonce e, pa_user_id = user_id, pa_public_key = public_key,
                            pa_timestamp = now_instant e, pa_username = hello_username ch\<rparr>;
                 w1 = on_state (\<lambda>s. (set_pending_auth pending s)
                        \<lparr>conn_public_key := (conn_public_key s)(user_id := Some public_key)\<rparr>) w
             in send_frame sender []
                  (ServerHello (to_be_bytes 32 (random_nonce e)) ''Rumble Server'' user_id) w1)"

section \<open>Authenticate\<close>

definition AUTH_WINDOW_MS :: i64 where
  "AUTH_WINDOW_MS = 5 * 60 * 1000"

definition timestamp_in_range :: "i64 \<Rightarrow> i64 \<Rightarrow> bool" where
  "timestamp_in_range now timestamp \<longleftrightarrow>
     \<not> (sint (i64_saturating_abs (i64_saturating_sub now timestamp)) > sint AUTH_WINDOW_MS)"

definition auth_check_groups :: "string list \<Rightarrow> registered_user option \<Rightarrow> string list" where
  "auth_check_groups user_groups registered =
     (let gs = fold push_new user_groups [''default''] in
      case registered of Some r \<Rightarrow> push_new (ru_username r) gs | None \<Rightarrow> gs)"

text \<open>An expired ban record is lifted first, with the membership it stands for.\<close>

definition lift_expired_ban :: "u64 \<Rightarrow> key32 \<Rightarrow> persistence \<Rightarrow> persistence" where
  "lift_expired_ban now key p =
     (case get_ban p key of
        Some ban \<Rightarrow>
          if ban_is_expired ban now
          then snd (remove_user_from_group key ''banned'' (snd (remove_ban key p)))
          else p
      | None \<Rightarrow> p)"

definition ban_check :: "u64 \<Rightarrow> key32 \<Rightarrow> persistence \<Rightarrow> bool \<times> persistence" where
  "ban_check now key p =
     (let p1 = lift_expired_ban now key p;
          (user_groups, p2) = active_user_groups key now p1;
          check_groups = auth_check_groups user_groups (get_registered_user p2 key);
          effective = effective_permissions check_groups (group_permission_map p2)
                        [(ROOT_ROOM_UUID, None)] False
      in (contains effective BANNED, p2))"

text \<open>The session certificate: \<open>Inl\<close> is the reason it is refused for.\<close>

definition check_session_cert ::
  "env \<Rightarrow> key32 \<Rightarrow> session_certificate option \<Rightarrow> session_entry outcome" where
  "check_session_cert e user_key cert_opt =
     (case cert_opt of
        None \<Rightarrow> Inl ''Missing session certificate''
      | Some cert \<Rightarrow>
          if length (cert_session_public_key cert) \<noteq> 32 then Inl ''Invalid session public key length''
          else if sint (cert_expires_ms cert) \<le> sint (cert_issued_ms cert)
          then Inl ''Session certificate expiry invalid''
          else if sint (cert_expires_ms cert) < sint (now_ms e) then Inl ''Session certificate expired''
          else if length (cert_user_signature cert) \<noteq> 64
          then Inl ''Invalid session certificate signature length''
          else
            let session_public_key = from_be_bytes (cert_session_public_key cert) in
            if \<not> verify_strict e user_key
                 (build_session_cert_payload session_public_key (cert_issued_ms cert)
                    (cert_expires_ms cert) (cert_device cert))
                 (cert_user_signature cert)
            then Inl ''Invalid session certificate signature''
            else Inr \<lparr>se_user_public_key = user_key, se_session_public_key = session_public_key,
                      se_session_id = compute_session_id (blake3 e) session_public_key,
                      se_issued_ms = cert_issued_ms cert, se_expires_ms = cert_expires_ms cert,
                      se_device = cert_device cert\<rparr>)"

definition initial_room :: "persistence \<Rightarrow> server_state \<Rightarrow> key32 \<Rightarrow> uuid" where
  "initial_room p s key =
     (case get_registered_user p key of
        None \<Rightarrow> ROOT_ROOM_UUID
      | Some r \<Rightarrow> (case ru_last_room r of
          None \<Rightarrow> ROOT_ROOM_UUID
        | Some u \<Rightarrow> if list_ex (\<lambda>r. r_id r = u) (get_rooms s) then u else ROOT_ROOM_UUID))"

text \<open>
  Steps 6 to 13 of the handler, once the proof of the key and the ban check passed: first the
  changes of the state up to the placement in a room, then the announcements.
\<close>

definition admit_user ::
  "env \<Rightarrow> 'e plugin list \<Rightarrow> pending_auth_entry \<Rightarrow> session_entry \<Rightarrow> handle \<Rightarrow> world \<Rightarrow>
     string \<times> uuid \<times> world" where
  "admit_user e plugins pending session sender w =
     (let key = pa_public_key pending;
          user_id = handle_uid (w_state w) sender;
          w1 = on_state (\<lambda>s. s\<lparr>conn_authenticated := (conn_authenticated s)(user_id := True)\<rparr>) w;
          w2 = on_persist (\<lambda>p. snd (add_known_key key p)) w1;
          (active, p3) = active_user_groups key (now_secs e) (w_persist w2);
          verified = map_option ru_username (get_registered_user p3 key);
          final_username = (case verified of Some n \<Rightarrow> n | None \<Rightarrow> pa_username pending);
          w3 = on_state (update_identity user_id (\<lambda>i. i\<lparr>
                 id_groups := fold push_new active [''default''],
                 verified_username := verified, display_name := final_username\<rparr>)) (w2\<lparr>w_persist := p3\<rparr>);
          w4 = evict_superseded_sessions e plugins key final_username user_id w3;
          w5 = on_state (add_session user_id session) w4;
          room = initial_room (w_persist w5) (w_state w5) key;
          w6 = on_state (set_user_room user_id room) w5
      in (final_username, room, w6))"

definition complete_authentication ::
  "env \<Rightarrow> 'e plugin list \<Rightarrow> pending_auth_entry \<Rightarrow> session_entry \<Rightarrow> handle \<Rightarrow> world \<Rightarrow>
     unit outcome \<times> world" where
  "complete_authentication e plugins pending session sender w =
     (let user_id = handle_uid (w_state w) sender;
          (final_username, room, w6) = admit_user e plugins pending session sender w
      in case send_server_state_to_client e sender w6 of
           (Inl err, w7) \<Rightarrow> (Inl err, w7)
         | (Inr _, w7) \<Rightarrow>
             let w8 = broadcast_state_update e
                   (UserJoined \<lparr>ui_user_id = Some \<lparr>uid_value = user_id\<rparr>, ui_username = final_username,
                      ui_current_room = Some (room_id_from_uuid room), ui_is_muted = False,
                      ui_is_deafened = False, ui_server_muted = False, ui_is_elevated = False,
                      ui_groups = id_groups (identities (w_state w7) user_id), ui_label = None\<rparr>) w7
             in case welcome_message (w_state w8) of
                  None \<Rightarrow> (Inr (), w8)
                | Some welcome \<Rightarrow> (Inr (), snd (send_frame sender [] (WelcomeMessage welcome) w8)))"

definition handle_authenticate ::
  "env \<Rightarrow> 'e plugin list \<Rightarrow> authenticate \<Rightarrow> handle \<Rightarrow> world \<Rightarrow> unit outcome \<times> world" where
  "handle_authenticate e plugins auth sender w =
     (let fail = (\<lambda>err w. (Inr (), send_auth_failed sender err w));
          (pending_opt, s1) = take_pending_auth (handle_uid (w_state w) sender) (w_state w);
          w1 = w\<lparr>w_state := s1\<rparr>
      in case pending_opt of
           None \<Rightarrow> fail ''No pending authentication'' w1
         | Some pending \<Rightarrow>
             if \<not> timestamp_in_range (now_ms e) (auth_timestamp_ms auth)
             then fail ''Timestamp out of range'' w1
             else if length (auth_signature auth) \<noteq> 64 then fail ''Invalid signature length'' w1
             else if \<not> valid_key e (pa_public_key pending) then fail ''Invalid public key'' w1
             else if \<not> verify_strict e (pa_public_key pending)
                    (build_auth_payload (pa_nonce pending) (auth_timestamp_ms auth)
                       (pa_public_key pending) (pa_user_id pending)
                       (server_cert_hash (sha256 e) (w_state w1)))
                    (auth_signature auth)
             then fail ''Invalid signature'' w1
             else
               let (banned, p2) = ban_check (now_secs e) (pa_public_key pending) (w_persist w1);
                   w2 = w1\<lparr>w_persist := p2\<rparr>
               in if banned then fail ''You are banned from this server'' w2
                  else case check_session_cert e (pa_public_key pending) (auth_session_cert auth) of
                         Inl err \<Rightarrow> fail err w2
                       | Inr session \<Rightarrow> complete_authentication e plugins pending session sender w2)"

section \<open>Facts\<close>

lemma sint_i64_abs_sub:
  "sint (i64_saturating_abs (i64_saturating_sub a b)) = min (2 ^ 63 - 1) \<bar>sint a - sint b\<bar>"
  using sint_i64_bounds [of a] sint_i64_bounds [of b]
  by (auto simp: i64_saturating_abs_def i64_saturating_sub_def sint_i64_saturate min_def max_def)

lemma send_auth_failed_frame [simp]:
  "conn_authenticated (w_state (send_auth_failed h err w)) = conn_authenticated (w_state w)"
  "w_persist (send_auth_failed h err w) = w_persist w"
  "members (w_state (send_auth_failed h err w)) = members (w_state w)"
  "sessions (w_state (send_auth_failed h err w)) = sessions (w_state w)"
  "data (w_state (send_auth_failed h err w)) = data (w_state w)"
  by (simp_all add: send_auth_failed_def finish_stream_def Let_def update_handle_def)

lemma take_pending_frame [simp]:
  "conn_authenticated (snd (take_pending_auth u s)) = conn_authenticated s"
  "fst (take_pending_auth u s) = dm_get (pending_auth s) u"
  by (simp_all add: take_pending_auth_def)

lemma remove_user_from_group_frame [simp]:
  "p_groups (snd (remove_user_from_group k g p)) = p_groups p"
  "p_registered_users (snd (remove_user_from_group k g p)) = p_registered_users p"
  by (simp_all add: remove_user_from_group_def update_user_groups_def remove_expiry_def snd_p_bind
      p_write_def split: option.splits sum.splits)

lemma active_groups_loop_frame [simp]:
  "p_groups (snd (active_groups_loop k now gs acc p)) = p_groups p"
  "p_registered_users (snd (active_groups_loop k now gs acc p)) = p_registered_users p"
  by (induction k now gs acc p rule: active_groups_loop.induct) simp_all

lemma set_auth_check_groups:
  "set (auth_check_groups gs reg) = insert ''default'' (set gs) \<union> ru_username ` set_option reg"
  by (auto simp: auth_check_groups_def Let_def split: option.splits)

lemma ban_check_iff:
  assumes "persistence_ok (lift_expired_ban now key p)"
  shows "fst (ban_check now key p) \<longleftrightarrow>
    (\<exists>g pg. (g = ''default'' \<or>
             g \<in> set (get_user_groups (lift_expired_ban now key p) key) \<and>
               \<not> membership_expired (lift_expired_ban now key p) key now g \<or>
             (\<exists>r. get_registered_user (lift_expired_ban now key p) key = Some r \<and> ru_username r = g)) \<and>
       get_group (lift_expired_ban now key p) g = Some pg \<and> bit (pgr_permissions pg) 22)"
proof -
  let ?p1 = "lift_expired_ban now key p"
  let ?p2 = "snd (active_user_groups key now ?p1)"
  have d: "distinct (get_user_groups ?p1 key)" using assms by (simp add: persistence_ok_def)
  have ok2: "persistence_ok ?p2"
    using persistence_ok_active_loop [OF assms] by (simp add: active_user_groups_def)
  have fr: "get_group ?p2 = get_group ?p1" "get_registered_user ?p2 = get_registered_user ?p1"
    by (simp_all add: fun_eq_iff get_group_def get_registered_user_def active_user_groups_def)
  have gpm: "group_permission_map ?p2 g =
      map_option (\<lambda>pg. from_bits_truncate (pgr_permissions pg)) (get_group ?p1 g)" for g
    by (simp add: group_permission_map_get [OF ok2] fr)
  have trunc: "bit (from_bits_truncate w) 22 = bit w 22" for w
    by (simp add: from_bits_truncate_def bit_and_iff ALL_FLAGS_value)
  have "fst (ban_check now key p) \<longleftrightarrow>
      bit (base_permissions (auth_check_groups (fst (active_user_groups key now ?p1))
        (get_registered_user ?p1 key)) (group_permission_map ?p2)) 22"
    using contains_flag [of 22]
    by (simp add: ban_check_def Let_def split_beta effective_permissions_def apply_room_def fr flag_powers)
  also have "\<dots> \<longleftrightarrow> (\<exists>g \<in> set (auth_check_groups (fst (active_user_groups key now ?p1))
      (get_registered_user ?p1 key)). \<exists>pg. get_group ?p1 g = Some pg \<and> bit (pgr_permissions pg) 22)"
    unfolding bit_base_permissions gpm by (intro bex_cong refl) (auto simp: trunc)
  also have "\<dots> \<longleftrightarrow> (\<exists>g pg. (g = ''default'' \<or>
             g \<in> set (get_user_groups ?p1 key) \<and> \<not> membership_expired ?p1 key now g \<or>
             (\<exists>r. get_registered_user ?p1 key = Some r \<and> ru_username r = g)) \<and>
       get_group ?p1 g = Some pg \<and> bit (pgr_permissions pg) 22)"
    unfolding set_auth_check_groups active_user_groups_fst [OF d] by auto
  finally show ?thesis .
qed

lemma timestamp_in_range_iff:
  "timestamp_in_range now t \<longleftrightarrow> \<bar>sint now - sint t\<bar> \<le> 5 * 60 * 1000"
  by (auto simp: timestamp_in_range_def sint_i64_abs_sub AUTH_WINDOW_MS_def)

section \<open>Properties\<close>

text \<open>The clock window of the handshake is five minutes to either side, exactly, for every
  pair of 64-bit timestamps: the saturating arithmetic lets no extreme value through.\<close>

theorem timestamp_in_range_spec:
  "timestamp_in_range now t \<longleftrightarrow> \<bar>sint now - sint t\<bar> \<le> 5 * 60 * 1000"
  by (rule timestamp_in_range_iff)

text \<open>C7: Nobody becomes authenticated without the proof. When the handler turns an
  unauthenticated connection into an authenticated one, a challenge was pending for it, the
  timestamp was in the window, the signature verified under the announced key over the
  server's nonce, that timestamp and the hash of the server's own certificate, the key was
  not banned, and a valid session certificate was presented.\<close>

theorem authentication_needs_proof:
  assumes "uid = handle_uid (w_state w) sender" and "\<not> conn_authenticated (w_state w) uid"
    and "conn_authenticated (w_state (snd (handle_authenticate e plugins auth sender w))) uid"
  shows "\<exists>pending session. dm_get (pending_auth (w_state w)) uid = Some pending \<and>
    \<bar>sint (now_ms e) - sint (auth_timestamp_ms auth)\<bar> \<le> 5 * 60 * 1000 \<and>
    length (auth_signature auth) = 64 \<and>
    verify_strict e (pa_public_key pending)
      (build_auth_payload (pa_nonce pending) (auth_timestamp_ms auth) (pa_public_key pending)
         (pa_user_id pending) (server_cert_hash (sha256 e) (w_state w))) (auth_signature auth) \<and>
    \<not> fst (ban_check (now_secs e) (pa_public_key pending) (w_persist w)) \<and>
    check_session_cert e (pa_public_key pending) (auth_session_cert auth) = Inr session"
proof -
  have cert: "server_cert_hash f (snd (take_pending_auth u s)) = server_cert_hash f s" for f u s
    by (simp add: server_cert_hash_def take_pending_auth_def)
  obtain pending_opt s1 where t: "take_pending_auth uid (w_state w) = (pending_opt, s1)" by force
  then have t': "pending_opt = dm_get (pending_auth (w_state w)) uid" "\<not> conn_authenticated s1 uid"
    "server_cert_hash (sha256 e) s1 = server_cert_hash (sha256 e) (w_state w)"
    using take_pending_frame [of uid "w_state w"] cert [of "sha256 e" uid "w_state w"] assms(2) by simp_all
  show ?thesis
    using assms(3) t' timestamp_in_range_iff [of "now_ms e" "auth_timestamp_ms auth"]
    by (auto simp: handle_authenticate_def Let_def assms(1) [symmetric] t split_beta
        split: option.splits if_splits sum.splits)
qed

definition login_payload :: bytes where
  "login_payload = build_auth_payload 9 1000000 21 3 (server_cert_hash (sha256 sample_env) sample_state)"

definition login_cert :: session_certificate where
  "login_cert =
     \<lparr>cert_session_public_key = to_be_bytes 32 (33 :: key32), cert_issued_ms = 0, cert_expires_ms = 2000000,
      cert_device = None,
      cert_user_signature = sample_signature 21 (build_session_cert_payload 33 0 2000000 None)\<rparr>"

definition login_auth :: authenticate where
  "login_auth =
     \<lparr>auth_signature = sample_signature 21 login_payload, auth_timestamp_ms = 1000000,
      auth_session_cert = Some login_cert\<rparr>"

text \<open>The sample server with a third connection that has answered the hello.\<close>

definition login_world :: world where
  "login_world = sample_world\<lparr>w_state := sample_state
     \<lparr>pending_auth := [(3, \<lparr>pa_nonce = 9, pa_user_id = 3, pa_public_key = 21, pa_timestamp = 0, pa_username = ''carol''\<rparr>)],
      handles := (\<lambda>h. client_handle_new (if h = 0 then 1 else if h = 1 then 2 else 3)), next_handle := 3,
      members := members sample_state @ [(3, \<lparr>m_user_id = 3, m_binding = Client 2\<rparr>)], next_user_id := 4\<rparr>\<rparr>"

lemma login_facts:
  "handle_uid (w_state login_world) 2 = 3" "\<not> conn_authenticated (w_state login_world) 3"
  "dm_get (pending_auth (w_state login_world)) 3 =
     Some \<lparr>pa_nonce = 9, pa_user_id = 3, pa_public_key = 21, pa_timestamp = 0, pa_username = ''carol''\<rparr>"
  "server_cert_hash f (w_state login_world) = server_cert_hash f sample_state"
  by (simp_all add: login_world_def sample_world_def handle_uid_def client_handle_new_def sample_state_def
      server_cert_hash_def)

lemma login_not_banned: "\<not> fst (ban_check 1000 21 (w_persist login_world))"
  by code_simp

lemma sample_verify [simp]: "verify_strict sample_env k m sig \<longleftrightarrow> sig = sample_signature k m"
  by (simp add: sample_env_def)

lemma login_cert_ok: "\<exists>session. check_session_cert sample_env 21 (Some login_cert) = Inr session"
  by (simp add: check_session_cert_def login_cert_def sample_signature_def from_to_be_bytes)
    (simp add: sample_env_def)

lemma complete_authentication_world:
  "w_state (snd (complete_authentication e plugins pending session sender w)) =
     w_state (snd (snd (admit_user e plugins pending session sender w))) \<and>
   w_persist (snd (complete_authentication e plugins pending session sender w)) =
     w_persist (snd (snd (admit_user e plugins pending session sender w)))"
proof -
  obtain n r w6 where a: "admit_user e plugins pending session sender w = (n, r, w6)" by (metis prod.collapse)
  obtain res w7 where b: "send_server_state_to_client e sender w6 = (res, w7)" by force
  have "w_state w7 = w_state w6" "w_persist w7 = w_persist w6"
    using world_send_server_state [of e sender w6] by (simp_all add: b)
  then show ?thesis
    by (simp add: complete_authentication_def a b Let_def split: sum.splits option.splits)
qed

lemma auth_evict_alone [simp]:
  "conn_authenticated (w_state (evict_superseded_sessions e [] k n u w)) = conn_authenticated (w_state w)"
  by (rule auth_evict_superseded) simp

lemma auth_admit_user:
  "conn_authenticated (w_state (snd (snd (admit_user e [] pending session sender w))))
     (handle_uid (w_state w) sender)"
  by (simp add: admit_user_def Let_def split_beta add_session_def
      set_user_room_def update_data_def update_identity_def)

lemma length_sample_signature: "length (sample_signature k m) = 64"
  by (simp add: sample_signature_def)

lemma login_signature:
  "auth_signature login_auth = sample_signature 21 (build_auth_payload 9 1000000 21 3
     (server_cert_hash (sha256 sample_env) sample_state))"
  "auth_timestamp_ms login_auth = 1000000" "auth_session_cert login_auth = Some login_cert"
  unfolding login_auth_def login_payload_def by (simp_all only: authenticate.simps)

lemma sample_env_times: "now_ms sample_env = 1000000" "now_secs sample_env = 1000" "valid_key sample_env k"
  by (simp_all add: sample_env_def)

lemma login_pending:
  obtains s1 where "take_pending_auth 3 (w_state login_world) =
      (Some \<lparr>pa_nonce = 9, pa_user_id = 3, pa_public_key = 21, pa_timestamp = 0, pa_username = ''carol''\<rparr>, s1)"
    and "handle_uid s1 2 = 3"
    and "server_cert_hash (sha256 sample_env) s1 = server_cert_hash (sha256 sample_env) sample_state"
  using login_facts by (auto simp: take_pending_auth_def handle_uid_def server_cert_hash_def)

lemma login_succeeds:
  "conn_authenticated (w_state (snd (handle_authenticate sample_env ([] :: unit plugin list) login_auth 2 login_world))) 3"
proof -
  let ?pending = "\<lparr>pa_nonce = 9, pa_user_id = 3, pa_public_key = 21, pa_timestamp = 0, pa_username = ''carol''\<rparr>"
  obtain session where cert: "check_session_cert sample_env 21 (Some login_cert) = Inr session"
    using login_cert_ok by blast
  obtain p2 where ban: "ban_check 1000 21 (w_persist login_world) = (False, p2)"
    using login_not_banned by (cases "ban_check 1000 21 (w_persist login_world)") simp
  obtain s1 where t: "take_pending_auth 3 (w_state login_world) = (Some ?pending, s1)"
    and h: "handle_uid s1 2 = 3"
    and c: "server_cert_hash (sha256 sample_env) s1 = server_cert_hash (sha256 sample_env) sample_state"
    by (rule login_pending)
  have ts: "timestamp_in_range 1000000 1000000" by (simp add: timestamp_in_range_iff)
  have "snd (handle_authenticate sample_env ([] :: unit plugin list) login_auth 2 login_world) =
      snd (complete_authentication sample_env ([] :: unit plugin list) ?pending session 2 (login_world\<lparr>w_state := s1, w_persist := p2\<rparr>))"
    unfolding handle_authenticate_def Let_def login_facts(1) t login_signature
    by (simp add: sample_env_times ts length_sample_signature c ban cert)
  moreover have "handle_uid (w_state (login_world\<lparr>w_state := s1, w_persist := p2\<rparr>)) 2 = 3" using h by simp
  ultimately show ?thesis
    using auth_admit_user [of sample_env ?pending session 2 "login_world\<lparr>w_state := s1, w_persist := p2\<rparr>"]
    by (simp add: complete_authentication_world)
qed

theorem authentication_needs_proof_witness:
  "conn_authenticated (w_state (snd (handle_authenticate sample_env ([] :: unit plugin list) login_auth 2 login_world))) 3 \<and>
   (\<exists>session. check_session_cert sample_env 21 (auth_session_cert login_auth) = Inr session)"
  using authentication_needs_proof [of 3 login_world 2 sample_env "[] :: unit plugin list" login_auth] login_facts login_succeeds
  by auto

text \<open>C8: A banned key stays out. While the banned group carries the ban flag and the key is a
  member of it, neither the membership nor the ban record having expired, no authentication
  attempt with that key succeeds, whatever else it presents: nobody becomes authenticated
  and roster, sessions and rooms stay as they were.\<close>

theorem banned_key_refused:
  assumes "persistence_ok (w_persist w)"
    and "dm_get (pending_auth (w_state w)) (handle_uid (w_state w) sender) = Some pending"
    and "''banned'' \<in> set (get_user_groups (w_persist w) (pa_public_key pending))"
    and "get_group (w_persist w) ''banned'' = Some pg" and "bit (pgr_permissions pg) 22"
    and "\<not> membership_expired (w_persist w) (pa_public_key pending) (now_secs e) ''banned''"
    and "\<forall>b. get_ban (w_persist w) (pa_public_key pending) = Some b \<longrightarrow> \<not> ban_is_expired b (now_secs e)"
    and "w' = snd (handle_authenticate e plugins auth sender w)"
  shows "conn_authenticated (w_state w') = conn_authenticated (w_state w) \<and>
    members (w_state w') = members (w_state w) \<and> sessions (w_state w') = sessions (w_state w) \<and>
    data (w_state w') = data (w_state w)"
proof -
  let ?key = "pa_public_key pending"
  have lift: "lift_expired_ban (now_secs e) ?key (w_persist w) = w_persist w"
    using assms(7) by (simp add: lift_expired_ban_def split: option.splits)
  have "fst (ban_check (now_secs e) ?key (w_persist w))"
    using ban_check_iff [of "now_secs e" ?key "w_persist w"] assms(1,3-6) by (auto simp: lift)
  then obtain p2 where ban: "ban_check (now_secs e) ?key (w_persist w) = (True, p2)"
    by (cases "ban_check (now_secs e) ?key (w_persist w)") simp
  show ?thesis
    using assms(2) unfolding assms(8) handle_authenticate_def Let_def
    by (simp add: take_pending_auth_def ban)
qed

definition banned_persist :: persistence where
  "banned_persist = snd (add_user_to_group 21 ''banned'' (snd (create_group ''banned'' BANNED sample_persist)))"

definition banned_login_world :: world where
  "banned_login_world = login_world\<lparr>w_persist := banned_persist\<rparr>"

lemma banned_login_parts:
  "w_state banned_login_world = w_state login_world" "w_persist banned_login_world = banned_persist"
  by (simp_all add: banned_login_world_def)

lemma banned_persist_facts:
  "''banned'' \<in> set (get_user_groups banned_persist 21)"
  "get_group banned_persist ''banned'' = Some \<lparr>pgr_permissions = BANNED\<rparr>"
  "\<not> membership_expired banned_persist 21 1000 ''banned''" "get_ban banned_persist 21 = None"
  by code_simp+

lemma banned_persist_ok: "persistence_ok banned_persist"
proof -
  have "persistence_ok sample_persist"
    by (simp add: sample_persist_def persistence_open_def persistence_ok_def tree_ok_def get_user_groups_def)
  then show ?thesis by (simp add: banned_persist_def persistence_ok_memberships persistence_ok_writes)
qed

theorem banned_key_refused_witness:
  "\<not> conn_authenticated
     (w_state (snd (handle_authenticate sample_env ([] :: unit plugin list) login_auth 2 banned_login_world))) 3"
proof -
  let ?pending = "\<lparr>pa_nonce = 9, pa_user_id = 3, pa_public_key = 21, pa_timestamp = 0, pa_username = ''carol''\<rparr>"
  have "bit (pgr_permissions \<lparr>pgr_permissions = BANNED\<rparr>) 22" by (simp add: BANNED_def)
  then have "conn_authenticated (w_state (snd (handle_authenticate sample_env ([] :: unit plugin list) login_auth 2
      banned_login_world))) = conn_authenticated (w_state login_world)"
    using banned_key_refused [of banned_login_world 2 ?pending "\<lparr>pgr_permissions = BANNED\<rparr>" sample_env
        _ "[] :: unit plugin list" login_auth, OF _ _ _ _ _ _ _ refl]
      banned_persist_facts banned_persist_ok login_facts
    by (simp add: banned_login_parts sample_env_times)
  then show ?thesis using login_facts by simp
qed

end
