(* ===== verification/Chat.thy ===== *)
theory Chat
  imports Ops
begin

text \<open>
  Text messages (\<open>server/src/handlers.rs\<close>): slash-command parsing, room and tree chat with
  its fan-out over delivery connections, direct messages and the chat of participants.
\<close>

section \<open>Slash commands\<close>

text \<open>
  The characters below are the one-byte white-space characters of Rust's
  \<open>char::is_whitespace\<close>; multi-byte white space is not recognised by this model.
\<close>

definition is_whitespace :: "char \<Rightarrow> bool" where
  "is_whitespace c \<longleftrightarrow> (of_char c :: nat) \<in> {9, 10, 11, 12, 13, 32}"

definition trim_start :: "string \<Rightarrow> string" where
  "trim_start s = dropWhile is_whitespace s"

definition trim :: "string \<Rightarrow> string" where
  "trim s = rev (dropWhile is_whitespace (rev (dropWhile is_whitespace s)))"

definition parse_slash_command :: "string \<Rightarrow> (string \<times> string) option" where
  "parse_slash_command line =
     (case trim_start line of
        [] \<Rightarrow> None
      | c # rest \<Rightarrow>
          if c \<noteq> CHR ''/'' then None
          else
            let cmd = takeWhile (\<lambda>c. \<not> is_whitespace c) rest;
                args = (case dropWhile (\<lambda>c. \<not> is_whitespace c) rest of
                          [] \<Rightarrow> [] | _ # a \<Rightarrow> trim a)
            in if cmd = [] then None else Some (to_ascii_lowercase cmd, args))"

section \<open>Descendants\<close>

definition children_map :: "room list \<Rightarrow> (uuid \<rightharpoonup> uuid list)" where
  "children_map rs =
     fold (\<lambda>r m. if r_id r = ROOT_ROOM_UUID then m
                 else m(r_parent r \<mapsto> (case m (r_parent r) of Some l \<Rightarrow> l | None \<Rightarrow> []) @ [r_id r]))
       rs Map.empty"

definition kids_of :: "(uuid \<rightharpoonup> uuid list) \<Rightarrow> uuid \<Rightarrow> uuid list" where
  "kids_of cm u = (case cm u of Some l \<Rightarrow> l | None \<Rightarrow> [])"

definition visit_kid :: "uuid \<Rightarrow> uuid list \<times> uuid list \<Rightarrow> uuid list \<times> uuid list" where
  "visit_kid kid acc =
     (case acc of (result, queue) \<Rightarrow>
        if kid \<in> set result then (result, queue) else (result @ [kid], queue @ [kid]))"

text \<open>
  The breadth-first search. Every iteration consumes one queue element and only rooms not
  yet in the result enter the queue, so as many iterations as there are rooms, plus the
  start, are enough; \<open>None\<close> would be the loop not ending within the fuel.
\<close>

fun bfs :: "nat \<Rightarrow> (uuid \<rightharpoonup> uuid list) \<Rightarrow> uuid list \<Rightarrow> uuid list \<Rightarrow> uuid list option" where
  "bfs fuel cm result [] = Some result"
| "bfs 0 cm result (current # queue) = None"
| "bfs (Suc fuel) cm result (current # queue) =
     (case fold visit_kid (kids_of cm current) (result, queue) of
        (result', queue') \<Rightarrow> bfs fuel cm result' queue')"

definition collect_descendant_rooms :: "room list \<Rightarrow> uuid \<Rightarrow> uuid list option" where
  "collect_descendant_rooms rs root = bfs (length rs + 1) (children_map rs) [root] [root]"

section \<open>Fan-out\<close>

text \<open>
  The room members in the order the membership snapshot is walked. The source iterates a
  hash map of rooms, whose order is unspecified; this is the order of the membership list.
\<close>

definition chat_recipients :: "server_state \<Rightarrow> uuid list \<Rightarrow> u64 list" where
  "chat_recipients s target_rooms =
     map fst (filter (\<lambda>(_, rid). rid \<in> set target_rooms) (memberships (data s)))"

definition deliver_chat :: "server_msg \<Rightarrow> u64 option \<Rightarrow> u64 \<Rightarrow> u64 list \<times> world \<Rightarrow> u64 list \<times> world" where
  "deliver_chat msg author_conn uid acc =
     (case acc of (sent_to, w) \<Rightarrow>
        case delivery_client (w_state w) uid of
          None \<Rightarrow> (sent_to, w)
        | Some h \<Rightarrow>
            let cid = handle_uid (w_state w) h in
            if Some cid = author_conn then (sent_to, w)
            else if cid \<in> set sent_to then (sent_to, w)
            else (cid # sent_to, snd (send_frame h [] msg w)))"

record chat_request =
  cr_text :: string
  cr_is_tree :: bool
  cr_id :: bytes
  cr_timestamp_ms :: i64
  cr_attachment :: "chat_attachment_msg option"

definition broadcast_chat_in_room ::
  "env \<Rightarrow> u64 \<Rightarrow> uuid \<Rightarrow> chat_request \<Rightarrow> world \<Rightarrow> bool \<times> world" where
  "broadcast_chat_in_room e sender_id room req w =
     (case get_member (w_state w) sender_id of
        None \<Rightarrow> (False, w)
      | Some m \<Rightarrow>
          (case check_member_permission (debug_flags e) (w_state w) m room TEXT_MESSAGE (w_persist w) of
             Inl denied \<Rightarrow>
               (False, case member_client m of
                         Some h \<Rightarrow> send_permission_denied h denied w | None \<Rightarrow> w)
           | Inr _ \<Rightarrow>
               let s = w_state w;
                   msg = ChatBroadcast
                     \<lparr>cb_id = cr_id req, cb_timestamp_ms = cr_timestamp_ms req,
                      cb_sender = display_name (identities s (m_user_id m)),
                      cb_sender_id = sender_id, cb_text = cr_text req,
                      cb_tree = (if cr_is_tree req then Some True else None),
                      cb_attachment = cr_attachment req\<rparr>;
                   target_rooms = (if cr_is_tree req
                     then (case collect_descendant_rooms (get_rooms s) room of
                             Some l \<Rightarrow> l | None \<Rightarrow> [])
                     else [room]);
                   author_conn = map_option (handle_uid s) (delivery_client s sender_id)
               in (True, snd (fold (deliver_chat msg author_conn) (chat_recipients s target_rooms) ([], w)))))"

definition broadcast_chat_as :: "env \<Rightarrow> u64 \<Rightarrow> chat_request \<Rightarrow> world \<Rightarrow> uuid option \<times> world" where
  "broadcast_chat_as e sender_id req w =
     (let room = (case get_user_room (w_state w) sender_id of Some r \<Rightarrow> r | None \<Rightarrow> ROOT_ROOM_UUID);
          (accepted, w') = broadcast_chat_in_room e sender_id room req w
      in (if accepted then Some room else None, w'))"

definition notify_chat_accepted :: "'e plugin list \<Rightarrow> u64 \<Rightarrow> uuid \<Rightarrow> string \<Rightarrow> world \<Rightarrow> world" where
  "notify_chat_accepted plugins author_id room line w =
     fold (\<lambda>pl. pl_on_chat_accepted pl author_id room line) plugins w"

section \<open>Handlers\<close>

record chat_message =
  cm_id :: bytes
  cm_timestamp_ms :: i64
  cm_sender :: string
  cm_text :: string
  cm_tree :: "bool option"
  cm_attachment :: "chat_attachment_msg option"

record direct_message =
  dm_target_user_id :: u64
  dm_text :: string
  dm_id :: bytes
  dm_timestamp_ms :: i64

definition message_id :: "env \<Rightarrow> bytes \<Rightarrow> bytes" where
  "message_id e i = (if length i = 16 then i else to_be_bytes 16 (new_v4 e))"

definition message_timestamp :: "env \<Rightarrow> i64 \<Rightarrow> i64" where
  "message_timestamp e t = (if sint t > 0 then t else now_ms e)"

definition handle_chat_message ::
  "env \<Rightarrow> 'e plugin list \<Rightarrow> chat_message \<Rightarrow> handle \<Rightarrow> world \<Rightarrow> world" where
  "handle_chat_message e plugins msg sender w =
     (let user_id = handle_uid (w_state w) sender;
          req = \<lparr>cr_text = cm_text msg, cr_is_tree = (cm_tree msg = Some True),
                 cr_id = message_id e (cm_id msg),
                 cr_timestamp_ms = message_timestamp e (cm_timestamp_ms msg),
                 cr_attachment = cm_attachment msg\<rparr>
      in case broadcast_chat_as e user_id req w of
           (None, w') \<Rightarrow> w'
         | (Some room, w') \<Rightarrow> notify_chat_accepted plugins user_id room (cm_text msg) w')"

definition handle_direct_message :: "env \<Rightarrow> direct_message \<Rightarrow> handle \<Rightarrow> world \<Rightarrow> world" where
  "handle_direct_message e dm sender w =
     (let s = w_state w; sender_id = handle_uid s sender; target = dm_target_user_id dm in
      if target = sender_id
      then send_command_result sender ''DirectMessage'' False ''Cannot send a DM to yourself'' w
      else case get_member s target of
             None \<Rightarrow> send_command_result sender ''DirectMessage'' False ''Target user not found'' w
           | Some m \<Rightarrow> (case delivery_client s target of
               None \<Rightarrow> send_command_result sender ''DirectMessage'' False ''Target user not found'' w
             | Some h \<Rightarrow>
                 snd (send_frame h [] (DirectMessageReceived
                   \<lparr>dr_sender_id = sender_id, dr_sender_name = get_username s sender,
                    dr_text = dm_text dm, dr_id = message_id e (dm_id dm),
                    dr_timestamp_ms = message_timestamp e (dm_timestamp_ms dm),
                    dr_target_user_id = target,
                    dr_target_username = display_name (identities s (m_user_id m))\<rparr>) w)))"

record participant_chat =
  pc_user_id :: u64
  pc_text :: string
  pc_room_id :: "room_id option"
  pc_tree :: "bool option"

definition handle_participant_chat ::
  "env \<Rightarrow> 'e plugin list \<Rightarrow> participant_chat \<Rightarrow> handle \<Rightarrow> world \<Rightarrow> world" where
  "handle_participant_chat e plugins pc sender w =
     (if \<not> is_participant_of (w_state w) (pc_user_id pc) (Connection (handle_uid (w_state w) sender))
      then send_command_result sender ''ParticipantChat'' False ''Not your participant'' w
      else
        let req = \<lparr>cr_text = pc_text pc, cr_is_tree = (pc_tree pc = Some True),
                   cr_id = to_be_bytes 16 (new_v4 e), cr_timestamp_ms = now_ms e,
                   cr_attachment = None\<rparr>;
            (accepted_room, w') =
              (case Option.bind (pc_room_id pc) uuid_from_room_id of
                 Some room \<Rightarrow>
                   (case broadcast_chat_in_room e (pc_user_id pc) room req w of
                      (accepted, w') \<Rightarrow> (if accepted then Some room else None, w'))
               | None \<Rightarrow> broadcast_chat_as e (pc_user_id pc) req w)
        in case accepted_room of
             None \<Rightarrow> w'
           | Some room \<Rightarrow> notify_chat_accepted plugins (pc_user_id pc) room (pc_text pc) w')"

section \<open>Breadth-first search\<close>

text \<open>The rooms below \<open>root\<close> in the tree of parent links, \<open>root\<close> included.\<close>

inductive descendant :: "room list \<Rightarrow> uuid \<Rightarrow> uuid \<Rightarrow> bool" for rs root where
  self: "descendant rs root root"
| child: "descendant rs root (r_parent r) \<Longrightarrow> r \<in> set rs \<Longrightarrow> r_id r \<noteq> ROOT_ROOM_UUID \<Longrightarrow>
    descendant rs root (r_id r)"

lemma kids_of_fold:
  "kids_of (fold (\<lambda>r m. if r_id r = ROOT_ROOM_UUID then m
       else m(r_parent r \<mapsto> (case m (r_parent r) of Some l \<Rightarrow> l | None \<Rightarrow> []) @ [r_id r])) rs m) u =
   kids_of m u @ map r_id (filter (\<lambda>r. r_id r \<noteq> ROOT_ROOM_UUID \<and> r_parent r = u) rs)"
  by (induction rs arbitrary: m) (auto simp: kids_of_def)

lemma kids_of_children_map:
  "kids_of (children_map rs) u =
     map r_id (filter (\<lambda>r. r_id r \<noteq> ROOT_ROOM_UUID \<and> r_parent r = u) rs)"
  by (simp add: children_map_def kids_of_fold) (simp add: kids_of_def)

lemma visit_kid_apply:
  "visit_kid k (result, queue) =
     (if k \<in> set result then (result, queue) else (result @ [k], queue @ [k]))"
  by (simp add: visit_kid_def)

lemma fold_visit_kid:
  "\<exists>new. fold visit_kid kids (result, queue) = (result @ new, queue @ new) \<and>
     set new = set kids - set result \<and> distinct new"
proof (induction kids arbitrary: result queue)
  case (Cons k kids)
  show ?case
  proof (cases "k \<in> set result")
    case True
    then have "fold visit_kid (k # kids) (result, queue) = fold visit_kid kids (result, queue)"
      and "set (k # kids) - set result = set kids - set result"
      by (auto simp: visit_kid_apply)
    with Cons.IH [of result queue] show ?thesis by simp
  next
    case False
    from Cons.IH [of "result @ [k]" "queue @ [k]"] obtain new where
      "fold visit_kid kids (result @ [k], queue @ [k]) = ((result @ [k]) @ new, (queue @ [k]) @ new)"
      "set new = set kids - set (result @ [k])" "distinct new" by blast
    with False show ?thesis by (intro exI [of _ "k # new"]) (auto simp: visit_kid_apply)
  qed
qed simp

definition bfs_inv :: "room list \<Rightarrow> uuid \<Rightarrow> uuid list \<Rightarrow> uuid list \<Rightarrow> bool" where
  "bfs_inv rs root result queue \<longleftrightarrow>
     distinct result \<and> set queue \<subseteq> set result \<and> root \<in> set result \<and>
     set result \<subseteq> insert root (r_id ` set rs) \<and>
     (\<forall>u \<in> set result. descendant rs root u) \<and>
     (\<forall>u \<in> set result - set queue. set (kids_of (children_map rs) u) \<subseteq> set result)"

lemma bfs_inv_step:
  assumes inv: "bfs_inv rs root result (c # queue)"
    and new: "set new = set (kids_of (children_map rs) c) - set result" "distinct new"
  shows "bfs_inv rs root (result @ new) (queue @ new)"
proof -
  have "descendant rs root k" if "k \<in> set new" for k
    using that new inv
    by (auto simp: kids_of_children_map bfs_inv_def intro!: descendant.child)
  moreover have "set new \<subseteq> r_id ` set rs"
    using new by (auto simp: kids_of_children_map)
  ultimately show ?thesis using inv new by (auto simp: bfs_inv_def)
qed

lemma bfs_inv_done:
  assumes "bfs_inv rs root result []"
  shows "set result = {u. descendant rs root u} \<and> distinct result"
proof -
  have "u \<in> set result" if "descendant rs root u" for u
    using that
  proof induction
    case self
    then show ?case using assms by (simp add: bfs_inv_def)
  next
    case (child r)
    then have "r_id r \<in> set (kids_of (children_map rs) (r_parent r))"
      by (auto simp: kids_of_children_map)
    with child assms show ?case by (auto simp: bfs_inv_def)
  qed
  with assms show ?thesis by (auto simp: bfs_inv_def)
qed

lemma bfs_terminates:
  assumes "bfs_inv rs root result queue"
    and "card (insert root (r_id ` set rs)) - length result + length queue \<le> fuel"
  shows "\<exists>l. bfs fuel (children_map rs) result queue = Some l \<and> bfs_inv rs root l []"
  using assms
proof (induction fuel "children_map rs" result queue rule: bfs.induct)
  case (1 fuel result)
  then show ?case by simp
next
  case (2 result c queue)
  then show ?case by simp
next
  case (3 fuel result c queue)
  obtain new where f: "fold visit_kid (kids_of (children_map rs) c) (result, queue) =
      (result @ new, queue @ new)"
    and new: "set new = set (kids_of (children_map rs) c) - set result" "distinct new"
    using fold_visit_kid by blast
  have inv: "bfs_inv rs root (result @ new) (queue @ new)"
    by (rule bfs_inv_step [OF 3(2) new])
  then have "length (result @ new) \<le> card (insert root (r_id ` set rs))"
    unfolding bfs_inv_def by (metis card_mono distinct_card finite.insertI finite_imageI finite_set)
  with 3(3) have "card (insert root (r_id ` set rs)) - length (result @ new) + length (queue @ new) \<le> fuel"
    by simp
  from 3(1) [OF f [symmetric] inv this] show ?case by (simp add: f)
qed

lemma collect_descendant_rooms_correct:
  "\<exists>l. collect_descendant_rooms rs root = Some l \<and> set l = {u. descendant rs root u} \<and> distinct l"
proof -
  have "card (insert root (r_id ` set rs)) \<le> Suc (length rs)"
    using card_image_le [of "set rs" r_id] card_length [of rs]
      card_insert_le_m1 [of "Suc (length rs)" "r_id ` set rs" root] by simp
  moreover have "bfs_inv rs root [root] [root]"
    by (auto simp: bfs_inv_def intro: descendant.self)
  ultimately show ?thesis
    using bfs_terminates [of rs root "[root]" "[root]" "length rs + 1"] bfs_inv_done
    by (fastforce simp: collect_descendant_rooms_def)
qed

section \<open>Delivery\<close>

fun chat_targets :: "server_state \<Rightarrow> u64 option \<Rightarrow> u64 list \<Rightarrow> u64 list \<Rightarrow> handle list" where
  "chat_targets s author sent [] = []"
| "chat_targets s author sent (uid # us) =
     (case delivery_client s uid of
        None \<Rightarrow> chat_targets s author sent us
      | Some h \<Rightarrow>
          if Some (handle_uid s h) = author \<or> handle_uid s h \<in> set sent
          then chat_targets s author sent us
          else h # chat_targets s author (handle_uid s h # sent) us)"

definition send_effects :: "server_state \<Rightarrow> server_msg \<Rightarrow> handle list \<Rightarrow> effect list" where
  "send_effects s msg hs =
     concat (map (\<lambda>h. if send_stream (handles s h) = Flowing then [Sent h [] msg] else []) hs)"

lemma deliver_chat_apply:
  "deliver_chat msg author uid (sent, w) =
     (case delivery_client (w_state w) uid of
        None \<Rightarrow> (sent, w)
      | Some h \<Rightarrow>
          if Some (handle_uid (w_state w) h) = author \<or> handle_uid (w_state w) h \<in> set sent
          then (sent, w)
          else (handle_uid (w_state w) h # sent, snd (send_frame h [] msg w)))"
  by (simp add: deliver_chat_def Let_def split: option.splits)

lemma deliver_chat_fold:
  "snd (fold (deliver_chat msg author) us (sent, w)) =
     emit (send_effects (w_state w) msg (chat_targets (w_state w) author sent us)) w"
proof (induction us arbitrary: sent w)
  case (Cons uid us)
  show ?case
  proof (cases "delivery_client (w_state w) uid")
    case None
    then show ?thesis by (simp add: deliver_chat_apply Cons.IH)
  next
    case (Some h)
    then show ?thesis
      by (auto simp: deliver_chat_apply Cons.IH send_frame_def send_effects_def emit_def)
  qed
qed (simp add: send_effects_def emit_def)

lemma chat_targets_spec:
  "distinct (map (handle_uid s) (chat_targets s author sent us)) \<and>
   handle_uid s ` set (chat_targets s author sent us) =
     {cid. (\<exists>uid \<in> set us. \<exists>h. delivery_client s uid = Some h \<and> handle_uid s h = cid) \<and>
           Some cid \<noteq> author \<and> cid \<notin> set sent}"
proof (induction us arbitrary: sent)
  case (Cons uid us)
  show ?case
  proof (cases "delivery_client s uid")
    case None
    with Cons.IH [of sent] show ?thesis by auto
  next
    case (Some h)
    show ?thesis
    proof (cases "Some (handle_uid s h) = author \<or> handle_uid s h \<in> set sent")
      case True
      with Some Cons.IH [of sent] show ?thesis by auto
    next
      case False
      with Some Cons.IH [of "handle_uid s h # sent"] show ?thesis by auto
    qed
  qed
qed simp

lemma world_broadcast_chat [simp]:
  "w_state (snd (broadcast_chat_in_room e u r q w)) = w_state w"
  "w_persist (snd (broadcast_chat_in_room e u r q w)) = w_persist w"
  by (auto simp: broadcast_chat_in_room_def Let_def deliver_chat_fold
      split: option.splits sum.splits)

lemma world_broadcast_chat_as [simp]:
  "w_state (snd (broadcast_chat_as e u q w)) = w_state w"
  "w_persist (snd (broadcast_chat_as e u q w)) = w_persist w"
  by (simp_all add: broadcast_chat_as_def split_beta Let_def)

lemma world_direct_message [simp]:
  "w_state (handle_direct_message e d h w) = w_state w"
  "w_persist (handle_direct_message e d h w) = w_persist w"
  by (auto simp: handle_direct_message_def Let_def split: option.splits)

section \<open>Properties\<close>

text \<open>The search for the rooms of a tree message ends and finds exactly the room and its
  descendants, each once, on every room table, including one whose links form a cycle.\<close>

theorem collect_descendant_rooms_spec:
  "\<exists>l. collect_descendant_rooms rs root = Some l \<and> set l = {u. descendant rs root u} \<and> distinct l"
  by (rule collect_descendant_rooms_correct)

definition in_reach :: "server_state \<Rightarrow> bool \<Rightarrow> uuid \<Rightarrow> uuid \<Rightarrow> bool" where
  "in_reach s tree room rid \<longleftrightarrow> (if tree then descendant (get_rooms s) room rid else rid = room)"

lemma chat_recipients_iff:
  "uid \<in> set (chat_recipients s rids) \<longleftrightarrow> (\<exists>rid. (uid, rid) \<in> set (memberships (data s)) \<and> rid \<in> set rids)"
  by (force simp: chat_recipients_def)

text \<open>C28: Fan-out of a chat message. When the author may write in the room, the message, stamped
  with the author's own id and display name, is sent once to each connection that delivers
  for a member of the room, or of a room below it for a tree message, and never back to the
  author's connection.\<close>

theorem chat_fanout:
  assumes "get_member (w_state w) author = Some m"
    and "contains (evaluate_member_permissions (w_state w) m room (w_persist w)) TEXT_MESSAGE"
    and "broadcast_chat_in_room e author room req w = (accepted, w')"
  shows "accepted \<and> w_state w' = w_state w \<and> w_persist w' = w_persist w \<and>
    (\<exists>cb hs. cb_sender_id cb = author \<and> cb_sender cb = display_name (identities (w_state w) (m_user_id m)) \<and>
       cb_text cb = cr_text req \<and>
       w_trace w' = w_trace w @ send_effects (w_state w) (ChatBroadcast cb) hs \<and>
       distinct (map (handle_uid (w_state w)) hs) \<and>
       handle_uid (w_state w) ` set hs =
         {c. (\<exists>(uid, rid) \<in> set (memberships (data (w_state w))).
                in_reach (w_state w) (cr_is_tree req) room rid \<and>
                map_option (handle_uid (w_state w)) (delivery_client (w_state w) uid) = Some c) \<and>
             map_option (handle_uid (w_state w)) (delivery_client (w_state w) author) \<noteq> Some c})"
proof -
  let ?s = "w_state w"
  let ?author = "map_option (handle_uid ?s) (delivery_client ?s author)"
  define targets where "targets = (if cr_is_tree req then (case collect_descendant_rooms (get_rooms ?s) room of
      Some l \<Rightarrow> l | None \<Rightarrow> []) else [room])"
  define cb where "cb = \<lparr>cb_id = cr_id req, cb_timestamp_ms = cr_timestamp_ms req,
      cb_sender = display_name (identities ?s (m_user_id m)), cb_sender_id = author, cb_text = cr_text req,
      cb_tree = (if cr_is_tree req then Some True else None), cb_attachment = cr_attachment req\<rparr>"
  let ?hs = "chat_targets ?s ?author [] (chat_recipients ?s targets)"
  have perm: "check_member_permission (debug_flags e) ?s m room TEXT_MESSAGE (w_persist w) = Inr ()"
    using assms(2) by (simp add: check_member_permission_def require_def)
  have "(accepted, w') = (True, emit (send_effects ?s (ChatBroadcast cb) ?hs) w)"
    unfolding assms(3) [symmetric] broadcast_chat_in_room_def assms(1) option.case perm sum.case Let_def
      targets_def [symmetric] cb_def [symmetric] deliver_chat_fold ..
  moreover have reach: "rid \<in> set targets \<longleftrightarrow> in_reach ?s (cr_is_tree req) room rid" for rid
    using collect_descendant_rooms_correct [of "get_rooms ?s" room] by (auto simp: targets_def in_reach_def)
  have "handle_uid ?s ` set ?hs = {c. (\<exists>(uid, rid) \<in> set (memberships (data ?s)).
                in_reach ?s (cr_is_tree req) room rid \<and>
                map_option (handle_uid ?s) (delivery_client ?s uid) = Some c) \<and> ?author \<noteq> Some c}"
    unfolding conjunct2 [OF chat_targets_spec [of ?s ?author "[]" "chat_recipients ?s targets"]]
      chat_recipients_iff reach Bex_def
    by (intro Collect_cong) (auto simp: eq_commute [of "Some _"])
  moreover have "distinct (map (handle_uid ?s) ?hs)"
    by (rule conjunct1 [OF chat_targets_spec])
  ultimately show ?thesis
    by (intro conjI exI [of _ cb] exI [of _ ?hs]) (simp_all add: cb_def)
qed

definition sample_chat :: chat_request where
  "sample_chat = \<lparr>cr_text = ''hello'', cr_is_tree = True, cr_id = [], cr_timestamp_ms = 1, cr_attachment = None\<rparr>"

theorem chat_fanout_witness:
  "fst (broadcast_chat_in_room sample_env 1 0 sample_chat sample_world)"
proof -
  have m: "get_member (w_state sample_world) 1 = Some \<lparr>m_user_id = 1, m_binding = Client 0\<rparr>" by code_simp
  have p: "contains (evaluate_member_permissions (w_state sample_world) \<lparr>m_user_id = 1, m_binding = Client 0\<rparr> 0
      (w_persist sample_world)) TEXT_MESSAGE" by code_simp
  show ?thesis
    using chat_fanout [OF m p surjective_pairing [of "broadcast_chat_in_room sample_env 1 0 sample_chat sample_world"]]
    by simp
qed

lemma dropWhile_whitespace: "\<forall>c \<in> set ws. is_whitespace c \<Longrightarrow> dropWhile is_whitespace (ws @ xs) = dropWhile is_whitespace xs"
  by (simp add: dropWhile_append2)

text \<open>A slash command line is read as typed: white space before the slash is skipped, the word
  after it is the command in lower case, and the rest without surrounding white space its
  arguments; a line whose first visible character is no slash, or with nothing after it,
  is no command.\<close>

theorem parse_slash_command_spec:
  assumes "\<forall>c \<in> set ws. is_whitespace c" and "\<forall>c \<in> set cmd. \<not> is_whitespace c"
  shows "parse_slash_command (ws @ CHR ''/'' # cmd @ CHR '' '' # args) =
      (if cmd = [] then None else Some (to_ascii_lowercase cmd, trim args)) \<and>
    parse_slash_command (ws @ CHR ''/'' # cmd) =
      (if cmd = [] then None else Some (to_ascii_lowercase cmd, [])) \<and>
    (\<forall>c line. c \<noteq> CHR ''/'' \<longrightarrow> \<not> is_whitespace c \<longrightarrow> parse_slash_command (ws @ c # line) = None)"
proof -
  have slash: "\<not> is_whitespace (CHR ''/'')" and sp: "is_whitespace (CHR '' '')"
    by (simp_all add: is_whitespace_def)
  have start: "trim_start (ws @ c # xs) = c # xs" if "\<not> is_whitespace c" for c xs
    using that assms(1) by (simp add: trim_start_def dropWhile_whitespace)
  have tw: "takeWhile (\<lambda>c. \<not> is_whitespace c) (cmd @ CHR '' '' # args) = cmd"
    "dropWhile (\<lambda>c. \<not> is_whitespace c) (cmd @ CHR '' '' # args) = CHR '' '' # args"
    "takeWhile (\<lambda>c. \<not> is_whitespace c) cmd = cmd" "dropWhile (\<lambda>c. \<not> is_whitespace c) cmd = []"
    using assms(2) sp by (simp_all add: takeWhile_append2 dropWhile_append2)
  show ?thesis
    unfolding parse_slash_command_def start [OF slash] Let_def list.case tw by (auto simp: start)
qed

theorem parse_slash_command_spec_witness:
  "parse_slash_command ''  /Msg hi '' = Some (''msg'', ''hi'')"
proof -
  have w: "\<forall>c \<in> set ''  ''. is_whitespace c" and c: "\<forall>c \<in> set ''Msg''. \<not> is_whitespace c"
    by (simp_all add: is_whitespace_def)
  have "to_ascii_lowercase ''Msg'' = ''msg''" "trim ''hi '' = ''hi''" by code_simp+
  with parse_slash_command_spec [OF w c, of "''hi ''"] show ?thesis by simp
qed

end
