(* ===== verification/Rooms.thy ===== *)
theory Rooms
  imports Ops
begin

text \<open>
  Handlers of room requests, status changes and state synchronisation
  (\<open>server/src/handlers.rs\<close>). The permission check every privileged handler starts with is
  \<open>gated\<close>: on denial the sender is told and the handler returns.
\<close>

section \<open>Permission gate\<close>

definition gated ::
  "env \<Rightarrow> handle \<Rightarrow> uuid \<Rightarrow> permissions \<Rightarrow> (world \<Rightarrow> world) \<Rightarrow> world \<Rightarrow> world" where
  "gated e sender room required act w =
     (case check_permission (debug_flags e) (w_state w) sender room required (w_persist w) of
        Inl denied \<Rightarrow> send_permission_denied sender denied w
      | Inr _ \<Rightarrow> act w)"

definition reply_result :: "handle \<Rightarrow> string \<Rightarrow> string outcome \<times> world \<Rightarrow> world" where
  "reply_result sender command r =
     (case r of
        (Inr msg, w) \<Rightarrow> send_command_result sender command True msg w
      | (Inl msg, w) \<Rightarrow> send_command_result sender command False msg w)"

definition requested_room :: "room_id option \<Rightarrow> uuid" where
  "requested_room r =
     (case Option.bind r uuid_from_room_id of Some u \<Rightarrow> u | None \<Rightarrow> ROOT_ROOM_UUID)"

definition room_name_or :: "string \<Rightarrow> server_state \<Rightarrow> uuid \<Rightarrow> string" where
  "room_name_or fallback s u =
     (case find_room (get_rooms s) u of Some r \<Rightarrow> r_name r | None \<Rightarrow> fallback)"

section \<open>Joining\<close>

definition join_room_body :: "env \<Rightarrow> uuid \<Rightarrow> handle \<Rightarrow> world \<Rightarrow> world" where
  "join_room_body e target_room sender w =
     (case find_room (get_rooms (w_state w)) target_room of
        None \<Rightarrow> send_command_result sender ''JoinRoom'' False ''Room not found'' w
      | Some r \<Rightarrow>
          let user_id = handle_uid (w_state w) sender;
              w1 = on_state (set_user_room user_id target_room) w;
              s1 = w_state w1;
              speak_denied = (\<not> contains (evaluate_user_permissions s1 sender target_room (w_persist w1)) SPEAK);
              should_mute = (speak_denied \<or> manually_server_muted (handles s1 sender));
              was_muted = server_muted (handles s1 sender);
              w2 = on_state (update_handle sender (server_muted_update (\<lambda>_. should_mute))) w1;
              st = get_user_status (w_state w2) user_id;
              w3 = (if should_mute \<noteq> was_muted
                    then broadcast_state_update e
                      (UserStatusChanged user_id (st_is_muted st) (st_is_deafened st) should_mute
                         (is_superuser (handles (w_state w2) sender))) w2
                    else w2);
              w4 = (case get_user_public_key (w_state w3) user_id of
                      None \<Rightarrow> w3
                    | Some key \<Rightarrow>
                        if is_registered (w_persist w3) key
                        then on_persist (\<lambda>p. snd (update_user_last_room key (Some target_room) p)) w3
                        else w3);
              w5 = broadcast_state_update e (UserMoved user_id (room_id_from_uuid target_room)) w4
          in send_command_result sender ''JoinRoom'' True (''Joined '' @ quoted (r_name r)) w5)"

definition handle_join_room :: "env \<Rightarrow> room_id option \<Rightarrow> handle \<Rightarrow> world \<Rightarrow> world" where
  "handle_join_room e jr sender =
     (let target_room = requested_room jr in gated e sender target_room ENTER (join_room_body e target_room sender))"

definition handle_disconnect :: "string \<Rightarrow> handle \<Rightarrow> world \<Rightarrow> world" where
  "handle_disconnect reason sender w = finish_stream sender w"

section \<open>Changing the tree\<close>

record create_room_req =
  crr_name :: string
  crr_parent_id :: "room_id option"
  crr_description :: "string option"

definition handle_create_room :: "env \<Rightarrow> create_room_req \<Rightarrow> handle \<Rightarrow> world \<Rightarrow> world" where
  "handle_create_room e cr sender =
     (let parent_uuid = Option.bind (crr_parent_id cr) uuid_from_room_id;
          check_room = (case parent_uuid of Some u \<Rightarrow> u | None \<Rightarrow> ROOT_ROOM_UUID)
      in gated e sender check_room MAKE_ROOM (\<lambda>w.
           case apply_create_room e (crr_name cr) parent_uuid (crr_description cr) w of
             (Inr _, w') \<Rightarrow> send_command_result sender ''CreateRoom'' True
                              (''Created room '' @ quoted (crr_name cr)) w'
           | (Inl msg, w') \<Rightarrow> send_command_result sender ''CreateRoom'' False msg w'))"

definition handle_delete_room :: "env \<Rightarrow> room_id option \<Rightarrow> handle \<Rightarrow> world \<Rightarrow> world" where
  "handle_delete_room e dr sender =
     (let room_uuid = requested_room dr in
      gated e sender room_uuid MODIFY_ROOM (\<lambda>w.
        case apply_delete_room e room_uuid w of
          (Inr name, w') \<Rightarrow> send_command_result sender ''DeleteRoom'' True
                              (''Deleted room '' @ quoted name) w'
        | (Inl msg, w') \<Rightarrow> send_command_result sender ''DeleteRoom'' False msg w'))"

definition persist_room_change :: "uuid \<Rightarrow> (persisted_room \<Rightarrow> persisted_room) \<Rightarrow> world \<Rightarrow> world" where
  "persist_room_change u f w =
     (case get_room (w_persist w) u of
        None \<Rightarrow> w
      | Some r \<Rightarrow> on_persist (\<lambda>p. snd (save_room u (f r) p)) w)"

definition handle_rename_room :: "env \<Rightarrow> room_id option \<Rightarrow> string \<Rightarrow> handle \<Rightarrow> world \<Rightarrow> world" where
  "handle_rename_room e rid new_name sender =
     (let room_uuid = requested_room rid in
      gated e sender room_uuid MODIFY_ROOM (\<lambda>w.
        let old_name = room_name_or ''room'' (w_state w) room_uuid in
        case rename_room room_uuid new_name (w_state w) of
          (False, s) \<Rightarrow> send_command_result sender ''RenameRoom'' False ''Room not found'' (w\<lparr>w_state := s\<rparr>)
        | (True, s) \<Rightarrow>
            let w1 = persist_room_change room_uuid (pr_name_update (\<lambda>_. new_name)) (w\<lparr>w_state := s\<rparr>);
                w2 = broadcast_state_update e (RoomRenamed (room_id_from_uuid room_uuid) new_name) w1
            in send_command_result sender ''RenameRoom'' True
                 (''Renamed '' @ quoted old_name @ '' to '' @ quoted new_name) w2))"

text \<open>
  The upward walk from the new parent; it answers whether it meets the room being moved.
  The step counter of the source is \<open>steps\<close>.
\<close>

definition parent_of :: "room list \<Rightarrow> uuid \<Rightarrow> uuid option" where
  "parent_of rs u =
     (case find_room rs u of
        None \<Rightarrow> None
      | Some r \<Rightarrow> if r_parent r \<noteq> ROOT_ROOM_UUID then Some (r_parent r) else None)"

function meets_room :: "room list \<Rightarrow> uuid \<Rightarrow> uuid option \<Rightarrow> nat \<Rightarrow> bool" where
  "meets_room rs room_uuid None steps = False"
| "meets_room rs room_uuid (Some c) steps =
     (if c = room_uuid then True
      else if steps + 1 > length rs then False
      else meets_room rs room_uuid (parent_of rs c) (steps + 1))"
  by pat_completeness auto
termination
  by (relation "measure (\<lambda>(rs, _, _, steps). length rs - steps)") auto

definition handle_move_room ::
  "env \<Rightarrow> room_id option \<Rightarrow> room_id option \<Rightarrow> handle \<Rightarrow> world \<Rightarrow> world" where
  "handle_move_room e rid new_parent_id sender =
     (let room_uuid = requested_room rid; new_parent = requested_room new_parent_id in
      gated e sender room_uuid MODIFY_ROOM (gated e sender new_parent MAKE_ROOM (\<lambda>w.
        let room_name = room_name_or ''room'' (w_state w) room_uuid;
            new_parent_name = room_name_or ''Root'' (w_state w) new_parent
        in if new_parent = room_uuid
           then send_command_result sender ''MoveRoom'' False ''Cannot move a room into itself'' w
           else if meets_room (get_rooms (w_state w)) room_uuid (Some new_parent) 0
           then send_command_result sender ''MoveRoom'' False ''Cannot move a room into its own descendant'' w
           else case move_room room_uuid new_parent (w_state w) of
             (False, s) \<Rightarrow> send_command_result sender ''MoveRoom'' False ''Room not found'' (w\<lparr>w_state := s\<rparr>)
           | (True, s) \<Rightarrow>
               let w1 = persist_room_change room_uuid (pr_parent_update (\<lambda>_. Some new_parent)) (w\<lparr>w_state := s\<rparr>);
                   w2 = broadcast_state_update e (RoomMoved rid new_parent_id) w1
               in send_command_result sender ''MoveRoom'' True
                    (''Moved '' @ quoted room_name @ '' into '' @ quoted new_parent_name) w2)))"

definition handle_set_room_description ::
  "env \<Rightarrow> room_id option \<Rightarrow> string \<Rightarrow> handle \<Rightarrow> world \<Rightarrow> world" where
  "handle_set_room_description e rid description sender =
     (let room_uuid = requested_room rid in
      gated e sender room_uuid MODIFY_ROOM (\<lambda>w.
        case set_room_description room_uuid description (w_state w) of
          (False, s) \<Rightarrow> send_command_result sender ''SetRoomDescription'' False ''Room not found'' (w\<lparr>w_state := s\<rparr>)
        | (True, s) \<Rightarrow>
            let w1 = persist_room_change room_uuid (pr_description_update (\<lambda>_. description)) (w\<lparr>w_state := s\<rparr>);
                w2 = broadcast_state_update e (RoomDescriptionChanged (room_id_from_uuid room_uuid) description) w1
            in send_command_result sender ''SetRoomDescription'' True ''Description updated'' w2))"

section \<open>Synchronisation and status\<close>

definition handle_request_state_sync :: "env \<Rightarrow> handle \<Rightarrow> world \<Rightarrow> unit outcome \<times> world" where
  "handle_request_state_sync e sender w = send_server_state_to_client e sender w"

definition handle_set_user_status :: "env \<Rightarrow> bool \<Rightarrow> bool \<Rightarrow> handle \<Rightarrow> world \<Rightarrow> world" where
  "handle_set_user_status e muted deafened sender w =
     (let user_id = handle_uid (w_state w) sender;
          existing = get_user_status (w_state w) user_id;
          w1 = on_state (set_user_status user_id
                 \<lparr>st_is_muted = muted, st_is_deafened = deafened,
                  st_server_muted = st_server_muted existing, st_is_elevated = st_is_elevated existing\<rparr>) w
      in broadcast_state_update e
           (UserStatusChanged user_id muted deafened (server_muted (handles (w_state w1) sender))
              (is_superuser (handles (w_state w1) sender))) w1)"

section \<open>Contract of a privileged handler\<close>

text \<open>
  A privileged handler names a room and the permission it needs there. When the sender lacks
  it, the handler does nothing but answer with one refusal.
\<close>

definition refusal :: "handle \<Rightarrow> effect \<Rightarrow> bool" where
  "refusal h ef \<longleftrightarrow> (\<exists>d. ef = Sent h [] (PermissionDenied d)) \<or> (\<exists>c m. ef = Sent h [] (CommandResult c False m))"

definition refused :: "handle \<Rightarrow> world \<Rightarrow> world \<Rightarrow> bool" where
  "refused h w w' \<longleftrightarrow> w_state w' = w_state w \<and> w_persist w' = w_persist w \<and>
     (\<exists>es. w_trace w' = w_trace w @ es \<and> length es \<le> 1 \<and> list_all (refusal h) es)"

locale privileged_handler =
  fixes handler :: "env \<Rightarrow> 'r \<Rightarrow> handle \<Rightarrow> world \<Rightarrow> world"
    and needs :: "'r \<Rightarrow> handle \<Rightarrow> world \<Rightarrow> (uuid \<times> permissions) list"
  assumes denies: "(room, perm) \<in> set (needs r h w) \<Longrightarrow>
    \<not> contains (evaluate_user_permissions (w_state w) h room (w_persist w)) perm \<Longrightarrow>
    refused h w (handler e r h w)"
begin

lemma denied_state: "(room, perm) \<in> set (needs r h w) \<Longrightarrow>
    \<not> contains (evaluate_user_permissions (w_state w) h room (w_persist w)) perm \<Longrightarrow>
    w_state (handler e r h w) = w_state w \<and> w_persist (handler e r h w) = w_persist w"
  using denies by (auto simp: refused_def)

lemma change_needs_permission:
  assumes "w_state (handler e r h w) \<noteq> w_state w \<or> w_persist (handler e r h w) \<noteq> w_persist w"
  shows "list_all (\<lambda>(room, perm). contains (evaluate_user_permissions (w_state w) h room (w_persist w)) perm)
    (needs r h w)"
  using assms denied_state by (force simp: list_all_iff)

end

lemma refused_permission_denied [simp]: "refused h w (send_permission_denied h d w)"
  by (auto simp: refused_def refusal_def send_permission_denied_def trace_send_frame)

lemma refused_command_result [simp]: "refused h w (send_command_result h c False m w)"
  by (auto simp: refused_def refusal_def send_command_result_def trace_send_frame)

lemma gated_denied:
  assumes "\<not> contains (evaluate_user_permissions (w_state w) h room (w_persist w)) perm"
  shows "refused h w (gated e h room perm act w)"
  using assms
  by (cases rule: check_permission_cases [where debug = "debug_flags e" and s = "w_state w" and h = h
        and u = room and req = perm and p = "w_persist w"])
    (auto simp: gated_def)

lemma gated_allowed:
  assumes "contains (evaluate_user_permissions (w_state w) h room (w_persist w)) perm"
  shows "gated e h room perm act w = act w"
  using assms by (simp add: gated_def check_permission_def require_def)

interpretation join: privileged_handler handle_join_room "\<lambda>r h w. [(requested_room r, ENTER)]"
  by unfold_locales (simp add: handle_join_room_def Let_def gated_denied)

definition creation_room :: "create_room_req \<Rightarrow> uuid" where
  "creation_room cr =
     (case Option.bind (crr_parent_id cr) uuid_from_room_id of Some u \<Rightarrow> u | None \<Rightarrow> ROOT_ROOM_UUID)"

interpretation create: privileged_handler handle_create_room "\<lambda>c h w. [(creation_room c, MAKE_ROOM)]"
  by unfold_locales (simp add: handle_create_room_def creation_room_def Let_def gated_denied)

interpretation delete: privileged_handler handle_delete_room "\<lambda>r h w. [(requested_room r, MODIFY_ROOM)]"
  by unfold_locales (simp add: handle_delete_room_def Let_def gated_denied)

interpretation rename: privileged_handler "\<lambda>e (r, n). handle_rename_room e r n"
  "\<lambda>(r, n) h w. [(requested_room r, MODIFY_ROOM)]"
  by unfold_locales (auto simp: handle_rename_room_def Let_def gated_denied)

interpretation describe: privileged_handler "\<lambda>e (r, d). handle_set_room_description e r d"
  "\<lambda>(r, d) h w. [(requested_room r, MODIFY_ROOM)]"
  by unfold_locales (auto simp: handle_set_room_description_def Let_def gated_denied)

interpretation move: privileged_handler "\<lambda>e (r, n). handle_move_room e r n"
  "\<lambda>(r, n) h w. [(requested_room r, MODIFY_ROOM), (requested_room n, MAKE_ROOM)]"
proof (unfold_locales, clarify)
  fix room perm r n h e and w :: world
  assume n: "(room, perm) \<in> set [(requested_room r, MODIFY_ROOM), (requested_room n, MAKE_ROOM)]"
    and d: "\<not> contains (evaluate_user_permissions (w_state w) h room (w_persist w)) perm"
  then show "refused h w (handle_move_room e r n h w)"
    by (cases "contains (evaluate_user_permissions (w_state w) h (requested_room r) (w_persist w)) MODIFY_ROOM")
      (auto simp: handle_move_room_def Let_def gated_denied gated_allowed)
qed

section \<open>Joining and muting\<close>

lemma evaluate_frame:
  assumes "rooms (data s') = rooms (data s)" and "identities s' = identities s"
    and "handle_uid s' h = handle_uid s h" and "is_superuser (handles s' h) = is_superuser (handles s h)"
  shows "evaluate_user_permissions s' h u p = evaluate_user_permissions s h u p"
  using assms by (simp add: evaluate_user_permissions_def evaluate_identity_permissions_def
      build_room_chain_owned_def get_rooms_def)

lemma set_user_room_frame [simp]:
  "rooms (data (set_user_room u r s)) = rooms (data s)" "identities (set_user_room u r s) = identities s"
  "handles (set_user_room u r s) = handles s" "handle_uid (set_user_room u r s) = handle_uid s"
  by (simp_all add: set_user_room_def update_data_def handle_uid_def fun_eq_iff)

lemma evaluate_set_user_room [simp]:
  "evaluate_user_permissions (set_user_room v r s) h u p = evaluate_user_permissions s h u p"
  by (rule evaluate_frame) simp_all

lemma get_user_room_set [simp]: "get_user_room (set_user_room u r s) = (get_user_room s)(u \<mapsto> r)"
proof -
  have "map_of (filter (\<lambda>(x, _). x \<noteq> u) ms @ [(u, r)]) = (map_of ms)(u \<mapsto> r)" for ms :: "(u64 \<times> uuid) list"
    by (induction ms) (auto simp: fun_eq_iff)
  then show ?thesis by (simp add: get_user_room_def set_user_room_def update_data_def fun_eq_iff)
qed

lemma update_handle_frame [simp]:
  "data (update_handle h f s) = data s" "identities (update_handle h f s) = identities s"
  "handles (update_handle h f s) h' = (if h' = h then f (handles s h) else handles s h')"
  "get_user_room (update_handle h f s) = get_user_room s"
  "get_user_public_key (update_handle h f s) = get_user_public_key s"
  by (simp_all add: update_handle_def get_user_room_def get_user_public_key_def fun_eq_iff)

text \<open>C34: Joining a room. A user who may enter an existing room is placed in it and in no other,
  keeps no voice the room denies, for the join makes the stream server-muted exactly when the
  user may not speak there or a moderator muted it by hand, and, when registered, is
  remembered there for the next login.\<close>

theorem handle_join_room_spec:
  assumes "contains (evaluate_user_permissions (w_state w) sender (requested_room jr) (w_persist w)) ENTER"
    and "find_room (get_rooms (w_state w)) (requested_room jr) = Some r"
    and "uid = handle_uid (w_state w) sender" and "w' = handle_join_room e jr sender w"
  shows "get_user_room (w_state w') = (get_user_room (w_state w))(uid \<mapsto> requested_room jr) \<and>
    (server_muted (handles (w_state w') sender) \<longleftrightarrow>
       \<not> contains (evaluate_user_permissions (w_state w) sender (requested_room jr) (w_persist w)) SPEAK \<or>
       manually_server_muted (handles (w_state w) sender)) \<and>
    (\<forall>key u. get_user_public_key (w_state w) uid = Some key \<and> get_registered_user (w_persist w) key = Some u \<and>
       p_fault (w_persist w) = None \<longrightarrow>
       get_registered_user (w_persist w') key = Some (u\<lparr>ru_last_room := Some (requested_room jr)\<rparr>))"
proof -
  have w': "w' = join_room_body e (requested_room jr) sender w"
    using assms(1,4) by (simp add: handle_join_room_def gated_allowed Let_def)
  have st: "w_state w' = update_handle sender (server_muted_update (\<lambda>_.
      \<not> contains (evaluate_user_permissions (w_state w) sender (requested_room jr) (w_persist w)) SPEAK \<or>
       manually_server_muted (handles (w_state w) sender))) (set_user_room uid (requested_room jr) (w_state w))"
    by (simp add: w' join_room_body_def assms(2) assms(3) [symmetric] Let_def split: option.splits)
  have ps: "w_persist w' = (case get_user_public_key (w_state w) uid of
      None \<Rightarrow> w_persist w
    | Some key \<Rightarrow> if is_registered (w_persist w) key
        then snd (update_user_last_room key (Some (requested_room jr)) (w_persist w)) else w_persist w)"
  proof -
    have "get_user_public_key (set_user_room u r s) = get_user_public_key s" for u r s
      by (simp add: get_user_public_key_def set_user_room_def update_data_def fun_eq_iff)
    then show ?thesis
      by (simp add: w' join_room_body_def assms(2) assms(3) [symmetric] Let_def split: option.splits)
  qed
  show ?thesis
    by (auto simp: st ps is_registered_def tree_contains_def get_registered_user_def update_user_last_room_def
        register_user_def kv_simps)
qed

theorem handle_join_room_spec_witness:
  "get_user_room (w_state (handle_join_room sample_env (Some (room_id_from_uuid 5)) 0 sample_world)) 1 = Some 5"
proof -
  have q: "requested_room (Some (room_id_from_uuid 5)) = 5" by (simp add: requested_room_def)
  have c: "contains (evaluate_user_permissions (w_state sample_world) 0 5 (w_persist sample_world)) ENTER" by code_simp
  have f: "find_room (get_rooms (w_state sample_world)) 5 = Some (new_room 5 ''Lobby'' 0 None)" by code_simp
  have u: "1 = handle_uid (w_state sample_world) 0" by code_simp
  show ?thesis
    using handle_join_room_spec [of sample_world 0 "Some (room_id_from_uuid 5)", unfolded q, OF c f u refl] by simp
qed

end
