(* ===== verification/Admin.thy ===== *)
theory Admin
  imports Rooms
begin

text \<open>
  Handlers of registration, moderation, groups, memberships and room access lists, and of
  the controller protocol (\<open>server/src/handlers.rs\<close>). Each privileged one is gated on its
  permission and then delegates to the operations of \<open>Ops\<close>.
\<close>

section \<open>Registration\<close>

definition register_permission :: "u64 \<Rightarrow> u64 \<Rightarrow> permissions" where
  "register_permission target sender_id = (if target = sender_id then SELF_REGISTER else REGISTER)"

definition target_user :: "user_id_msg option \<Rightarrow> u64" where
  "target_user u = (case u of Some i \<Rightarrow> uid_value i | None \<Rightarrow> 0)"

definition handle_register_user :: "env \<Rightarrow> user_id_msg option \<Rightarrow> handle \<Rightarrow> world \<Rightarrow> world" where
  "handle_register_user e req sender w =
     (let target = target_user req in
      gated e sender 0 (register_permission target (handle_uid (w_state w) sender))
        (\<lambda>w. reply_result sender ''RegisterUser'' (apply_register_user target w)) w)"

definition handle_unregister_user :: "env \<Rightarrow> user_id_msg option \<Rightarrow> handle \<Rightarrow> world \<Rightarrow> world" where
  "handle_unregister_user e req sender w =
     (let target = target_user req in
      gated e sender 0 (register_permission target (handle_uid (w_state w) sender))
        (\<lambda>w. reply_result sender ''UnregisterUser'' (apply_unregister_user target w)) w)"

section \<open>Moderation\<close>

definition handle_kick_user :: "env \<Rightarrow> u64 \<Rightarrow> string \<Rightarrow> handle \<Rightarrow> world \<Rightarrow> world" where
  "handle_kick_user e target reason sender =
     gated e sender 0 KICK (\<lambda>w.
       if target = handle_uid (w_state w) sender
       then send_command_result sender ''KickUser'' False ''Cannot kick yourself'' w
       else reply_result sender ''KickUser''
              (apply_kick e target reason (get_username (w_state w) sender) w))"

definition handle_ban_user :: "env \<Rightarrow> u64 \<Rightarrow> string \<Rightarrow> u64 \<Rightarrow> handle \<Rightarrow> world \<Rightarrow> world" where
  "handle_ban_user e target reason duration sender =
     gated e sender 0 BAN (\<lambda>w.
       if target = handle_uid (w_state w) sender
       then send_command_result sender ''BanUser'' False ''Cannot ban yourself'' w
       else reply_result sender ''BanUser''
              (apply_ban e target duration reason (get_username (w_state w) sender) w))"

definition user_room_or_root :: "server_state \<Rightarrow> u64 \<Rightarrow> uuid" where
  "user_room_or_root s uid = (case get_user_room s uid of Some r \<Rightarrow> r | None \<Rightarrow> ROOT_ROOM_UUID)"

definition handle_set_server_mute :: "env \<Rightarrow> u64 \<Rightarrow> bool \<Rightarrow> handle \<Rightarrow> world \<Rightarrow> world" where
  "handle_set_server_mute e target muted sender w =
     gated e sender (user_room_or_root (w_state w) target) MUTE_DEAFEN (\<lambda>w.
       case get_client (w_state w) target of
         None \<Rightarrow> send_command_result sender ''SetServerMute'' False
                   (not_a_client_reason (w_state w) target ''mute'') w
       | Some h \<Rightarrow>
           let w1 = on_state (update_handle h (manually_server_muted_update (\<lambda>_. muted))) w;
               s1 = w_state w1;
               effective_muted =
                 (if muted then True
                  else \<not> contains (evaluate_user_permissions s1 h (user_room_or_root s1 target)
                                     (w_persist w1)) SPEAK);
               w2 = on_state (update_handle h (server_muted_update (\<lambda>_. effective_muted))) w1;
               st = get_user_status (w_state w2) target;
               w3 = broadcast_state_update e
                      (UserStatusChanged target (st_is_muted st) (st_is_deafened st) effective_muted
                         (is_superuser (handles (w_state w2) h))) w2
           in send_command_result sender ''SetServerMute'' True
                ((if muted then ''Server muted '' else ''Server unmuted '') @
                 quoted (get_username (w_state w2) h)) w3) w"

definition handle_elevate :: "env \<Rightarrow> string \<Rightarrow> handle \<Rightarrow> world \<Rightarrow> world" where
  "handle_elevate e password sender =
     gated e sender 0 SUDO (\<lambda>w.
       case get_sudo_password (w_persist w) of
         None \<Rightarrow> send_command_result sender ''Elevate'' False ''Sudo password not configured'' w
       | Some hash \<Rightarrow>
           if \<not> bcrypt_verify e password hash
           then send_command_result sender ''Elevate'' False ''Incorrect password'' w
           else
             let w1 = on_state (update_handle sender (is_superuser_update (\<lambda>_. True))) w;
                 user_id = handle_uid (w_state w1) sender;
                 st = get_user_status (w_state w1) user_id;
                 w2 = broadcast_state_update e
                        (UserStatusChanged user_id (st_is_muted st) (st_is_deafened st)
                           (server_muted (handles (w_state w1) sender)) True) w1
             in send_command_result sender ''Elevate'' True ''Elevated to superuser'' w2)"

section \<open>Groups and memberships\<close>

definition handle_create_group :: "env \<Rightarrow> string \<Rightarrow> u32 \<Rightarrow> handle \<Rightarrow> world \<Rightarrow> world" where
  "handle_create_group e name perms sender =
     gated e sender 0 MANAGE_ACL (\<lambda>w. reply_result sender ''CreateGroup'' (apply_create_group e name perms w))"

definition handle_delete_group :: "env \<Rightarrow> string \<Rightarrow> handle \<Rightarrow> world \<Rightarrow> world" where
  "handle_delete_group e name sender =
     gated e sender 0 MANAGE_ACL (\<lambda>w. reply_result sender ''DeleteGroup'' (apply_delete_group e name w))"

definition handle_modify_group :: "env \<Rightarrow> string \<Rightarrow> u32 \<Rightarrow> handle \<Rightarrow> world \<Rightarrow> world" where
  "handle_modify_group e name perms sender =
     gated e sender 0 MANAGE_ACL (\<lambda>w. reply_result sender ''ModifyGroup'' (apply_modify_group e name perms w))"

definition handle_toggle_group_permission ::
  "env \<Rightarrow> string \<Rightarrow> u32 \<Rightarrow> bool \<Rightarrow> handle \<Rightarrow> world \<Rightarrow> world" where
  "handle_toggle_group_permission e name bits enable sender =
     gated e sender 0 MANAGE_ACL (\<lambda>w.
       reply_result sender ''ToggleGroupPermission'' (apply_toggle_group_permission e name bits enable w))"

definition handle_set_user_group ::
  "env \<Rightarrow> u64 \<Rightarrow> string \<Rightarrow> bool \<Rightarrow> u64 \<Rightarrow> handle \<Rightarrow> world \<Rightarrow> world" where
  "handle_set_user_group e target grp add expires_at sender =
     gated e sender 0 MANAGE_ACL (\<lambda>w.
       reply_result sender ''SetUserGroup'' (apply_set_user_group e target grp add expires_at w))"

text \<open>One roster entry; the walk of the group list drops expired memberships from the database.\<close>

definition registered_user_info_of ::
  "env \<Rightarrow> key32 list \<Rightarrow> key32 \<times> registered_user \<Rightarrow> registered_user_info list \<times> persistence \<Rightarrow>
     registered_user_info list \<times> persistence" where
  "registered_user_info_of e online_keys entry acc =
     (case entry of (key, user) \<Rightarrow> case acc of (infos, p) \<Rightarrow>
        case active_user_groups key (now_secs e) p of (gs, p') \<Rightarrow>
          (infos @ [registered_user_to_proto
             \<lparr>rue_public_key = key, rue_username = ru_username user,
              rue_groups = map (\<lambda>g. \<lparr>gm_group = g,
                gm_expires_at = (if get_group_expiry p' key g \<noteq> 0
                                 then Some (get_group_expiry p' key g) else None)\<rparr>) gs,
              rue_online = (key \<in> set online_keys)\<rparr>], p'))"

definition handle_request_registered_users :: "env \<Rightarrow> handle \<Rightarrow> world \<Rightarrow> world" where
  "handle_request_registered_users e sender =
     gated e sender 0 MANAGE_ACL (\<lambda>w.
       let online_keys = List.map_filter (\<lambda>h. get_user_public_key (w_state w) (handle_uid (w_state w) h))
                           (snapshot_clients (w_state w));
           (infos, p) = fold (registered_user_info_of e online_keys)
                          (list_registered_users (w_persist w)) ([], w_persist w)
       in snd (send_frame sender [] (RegisteredUsers infos) (w\<lparr>w_persist := p\<rparr>)))"

definition handle_set_registered_user_group ::
  "env \<Rightarrow> bytes \<Rightarrow> string \<Rightarrow> bool \<Rightarrow> u64 \<Rightarrow> handle \<Rightarrow> world \<Rightarrow> world" where
  "handle_set_registered_user_group e public_key grp add expires_at sender =
     gated e sender 0 MANAGE_ACL (\<lambda>w.
       if length public_key \<noteq> 32
       then send_command_result sender ''SetRegisteredUserGroup'' False ''Invalid public key'' w
       else reply_result sender ''SetRegisteredUserGroup''
              (apply_set_user_group_by_key e (from_be_bytes public_key) grp add expires_at w))"

record set_room_acl_req =
  sra_room_id :: bytes
  sra_inherit_acl :: bool
  sra_entries :: "proto_acl_entry list"
  sra_base_version :: u64

definition handle_set_room_acl :: "env \<Rightarrow> set_room_acl_req \<Rightarrow> handle \<Rightarrow> world \<Rightarrow> world" where
  "handle_set_room_acl e req sender w =
     (if length (sra_room_id req) \<noteq> 16
      then send_command_result sender ''SetRoomAcl'' False ''Missing or invalid room ID'' w
      else
        let room_uuid = from_be_bytes (sra_room_id req) in
        gated e sender room_uuid WRITE (\<lambda>w. reply_result sender ''SetRoomAcl''
          (apply_set_room_acl e room_uuid (sra_inherit_acl req)
             (map acl_entry_from_proto (sra_entries req)) (sra_base_version req) w)) w)"

section \<open>Controllers\<close>

definition handle_controller_hello :: "env \<Rightarrow> string \<Rightarrow> handle \<Rightarrow> world \<Rightarrow> world" where
  "handle_controller_hello e controller_name sender w =
     (if is_controller (handles (w_state w) sender)
      then send_command_result sender ''ControllerHello'' False ''Already a controller'' w
      else case check_permission (debug_flags e) (w_state w) sender 0 MANAGE_PARTICIPANTS (w_persist w) of
        Inl _ \<Rightarrow> send_command_result sender ''ControllerHello'' False
                   ''Missing MANAGE_PARTICIPANTS permission'' w
      | Inr _ \<Rightarrow>
          let user_id = handle_uid (w_state w) sender;
              w1 = on_state (\<lambda>s. remove_user_membership user_id
                     (update_handle sender (is_controller_update (\<lambda>_. True)) s)) w;
              w2 = broadcast_state_update e (UserLeft user_id) w1
          in send_command_result sender ''ControllerHello'' True ''Controller mode activated'' w2)"

definition handle_register_participant ::
  "env \<Rightarrow> string \<Rightarrow> string option \<Rightarrow> handle \<Rightarrow> world \<Rightarrow> world" where
  "handle_register_participant e username lbl sender w =
     (let uid = handle_uid (w_state w) sender;
          gs = (case conn_public_key (w_state w) uid of
                  Some pk \<Rightarrow> (case get_participant_default_group (w_persist w) pk of
                                Some g \<Rightarrow> [g] | None \<Rightarrow> [])
                | None \<Rightarrow> []);
          (user_id, w1) = create_participant e (Connection uid) username lbl None gs True w
      in snd (send_frame sender [] (ParticipantRegistered user_id username) w1))"

definition handle_unregister_participant :: "env \<Rightarrow> u64 \<Rightarrow> handle \<Rightarrow> world \<Rightarrow> world" where
  "handle_unregister_participant e user_id sender w =
     (if \<not> is_participant_of (w_state w) user_id (Connection (handle_uid (w_state w) sender))
      then send_command_result sender ''UnregisterParticipant'' False ''Not your participant'' w
      else send_command_result sender ''UnregisterParticipant'' True ''Participant removed''
             (remove_participant e user_id w))"

definition handle_move_participant :: "env \<Rightarrow> u64 \<Rightarrow> room_id option \<Rightarrow> handle \<Rightarrow> world \<Rightarrow> world" where
  "handle_move_participant e user_id rid sender w =
     (if \<not> is_participant_of (w_state w) user_id (Connection (handle_uid (w_state w) sender))
      then send_command_result sender ''MoveParticipant'' False ''Not your participant'' w
      else case move_participant_to_room e user_id (requested_room rid) w of
             (False, w') \<Rightarrow> send_command_result sender ''MoveParticipant'' False ''Room not found'' w'
           | (True, w') \<Rightarrow> send_command_result sender ''MoveParticipant'' True ''Participant moved'' w')"

definition handle_set_participant_status ::
  "env \<Rightarrow> u64 \<Rightarrow> bool \<Rightarrow> bool \<Rightarrow> handle \<Rightarrow> world \<Rightarrow> world" where
  "handle_set_participant_status e user_id muted deafened sender w =
     (if \<not> is_participant_of (w_state w) user_id (Connection (handle_uid (w_state w) sender))
      then send_command_result sender ''SetParticipantStatus'' False ''Not your participant'' w
      else set_participant_status_core e user_id muted deafened w)"

section \<open>Privileged handlers\<close>

interpretation enrol: privileged_handler handle_register_user
  "\<lambda>u h w. [(0, register_permission (target_user u) (handle_uid (w_state w) h))]"
  by unfold_locales (simp add: handle_register_user_def Let_def gated_denied)

interpretation expel: privileged_handler handle_unregister_user
  "\<lambda>u h w. [(0, register_permission (target_user u) (handle_uid (w_state w) h))]"
  by unfold_locales (simp add: handle_unregister_user_def Let_def gated_denied)

interpretation kick: privileged_handler "\<lambda>e (t, r). handle_kick_user e t r" "\<lambda>_ h w. [(0, KICK)]"
  by unfold_locales (auto simp: handle_kick_user_def gated_denied)

interpretation ban: privileged_handler "\<lambda>e (t, r, d). handle_ban_user e t r d" "\<lambda>_ h w. [(0, BAN)]"
  by unfold_locales (auto simp: handle_ban_user_def gated_denied)

interpretation mute: privileged_handler "\<lambda>e (t, m). handle_set_server_mute e t m"
  "\<lambda>(t, m) h w. [(user_room_or_root (w_state w) t, MUTE_DEAFEN)]"
  by unfold_locales (auto simp: handle_set_server_mute_def gated_denied)

interpretation elevate: privileged_handler handle_elevate "\<lambda>_ h w. [(0, SUDO)]"
  by unfold_locales (simp add: handle_elevate_def gated_denied)

interpretation group_create: privileged_handler "\<lambda>e (n, b). handle_create_group e n b" "\<lambda>_ h w. [(0, MANAGE_ACL)]"
  by unfold_locales (auto simp: handle_create_group_def gated_denied)

interpretation group_delete: privileged_handler handle_delete_group "\<lambda>_ h w. [(0, MANAGE_ACL)]"
  by unfold_locales (auto simp: handle_delete_group_def gated_denied)

interpretation group_modify: privileged_handler "\<lambda>e (n, b). handle_modify_group e n b" "\<lambda>_ h w. [(0, MANAGE_ACL)]"
  by unfold_locales (auto simp: handle_modify_group_def gated_denied)

interpretation group_toggle: privileged_handler "\<lambda>e (n, b, en). handle_toggle_group_permission e n b en"
  "\<lambda>_ h w. [(0, MANAGE_ACL)]"
  by unfold_locales (auto simp: handle_toggle_group_permission_def gated_denied)

interpretation user_group: privileged_handler "\<lambda>e (t, g, a, x). handle_set_user_group e t g a x"
  "\<lambda>_ h w. [(0, MANAGE_ACL)]"
  by unfold_locales (auto simp: handle_set_user_group_def gated_denied)

interpretation listing: privileged_handler "\<lambda>e (_ :: unit). handle_request_registered_users e"
  "\<lambda>_ h w. [(0, MANAGE_ACL)]"
  by unfold_locales (auto simp: handle_request_registered_users_def gated_denied)

interpretation key_group: privileged_handler "\<lambda>e (k, g, a, x). handle_set_registered_user_group e k g a x"
  "\<lambda>_ h w. [(0, MANAGE_ACL)]"
  by unfold_locales (auto simp: handle_set_registered_user_group_def gated_denied)

interpretation room_acl: privileged_handler handle_set_room_acl
  "\<lambda>r h w. if length (sra_room_id r) = 16 then [(from_be_bytes (sra_room_id r), WRITE)] else []"
  by unfold_locales (auto simp: handle_set_room_acl_def Let_def gated_denied split: if_splits)

interpretation controller: privileged_handler handle_controller_hello "\<lambda>_ h w. [(0, MANAGE_PARTICIPANTS)]"
  by unfold_locales (auto simp: handle_controller_hello_def check_permission_def require_def)

end
