(* ===== verification/Voice.thy ===== *)
theory Voice
  imports Effects
begin

text \<open>
  The voice relay (\<open>build_relay_packet\<close>, \<open>dedup_delivery_targets\<close>, \<open>handle_datagrams\<close> and
  \<open>relay_voice_as\<close> of \<open>server/src/handlers.rs\<close>): validation of the sender, mute and rate
  limits, server-stamped sender and room, and delivery to connections and audio subscribers.
\<close>

section \<open>Routing\<close>

record relay_packet =
  rp_bytes :: bytes
  rp_recipients :: "u64 list"
  rp_room :: uuid
  rp_frame :: voice_frame

text \<open>
  A controller speaks for a participant it owns; a plain client always speaks for itself.
  \<open>None\<close> is a dropped datagram.
\<close>

definition effective_sender :: "server_state \<Rightarrow> u64 \<Rightarrow> u64 option \<Rightarrow> u64 option" where
  "effective_sender s sender_user_id claimed =
     (if (case get_client s sender_user_id of Some h \<Rightarrow> is_controller (handles s h) | None \<Rightarrow> False)
      then (case claimed of
              Some c \<Rightarrow> if is_participant_of s c (Connection sender_user_id) then Some c else None
            | None \<Rightarrow> None)
      else Some sender_user_id)"

definition sender_server_muted :: "server_state \<Rightarrow> u64 \<Rightarrow> bool" where
  "sender_server_muted s sender_user_id =
     (case get_client s sender_user_id of
        Some h \<Rightarrow> \<not> is_controller (handles s h) \<and> server_muted (handles s h)
      | None \<Rightarrow> False)"

text \<open>
  The room whose member list contains the user. A user is in at most one room, so the order
  in which the source searches its hash map does not matter; here the membership list is
  searched in its own order.
\<close>

definition room_containing :: "server_state \<Rightarrow> (uuid \<rightharpoonup> u64 list) \<Rightarrow> u64 \<Rightarrow> uuid option" where
  "room_containing s routing uid =
     List.find (\<lambda>rid. case routing rid of Some l \<Rightarrow> uid \<in> set l | None \<Rightarrow> False)
       (map snd (memberships (data s)))"

definition voice_recipients :: "(uuid \<rightharpoonup> u64 list) \<Rightarrow> u64 list \<Rightarrow> uuid \<Rightarrow> u64 \<Rightarrow> u64 list" where
  "voice_recipients routing deafened room sender =
     (case routing room of
        Some l \<Rightarrow> filter (\<lambda>i. i \<noteq> sender \<and> i \<notin> set deafened) l
      | None \<Rightarrow> [])"

definition build_relay_packet ::
  "env \<Rightarrow> u64 \<Rightarrow> voice_datagram \<Rightarrow> nat \<Rightarrow> server_state \<Rightarrow> relay_packet option \<times> server_state" where
  "build_relay_packet e sender_user_id dgram datagram_len s =
     (case effective_sender s sender_user_id (vd_sender_id dgram) of
        None \<Rightarrow> (None, s)
      | Some sender \<Rightarrow>
          if sender_server_muted s sender_user_id then (None, s)
          else if st_is_muted (get_user_status s sender) then (None, s)
          else case check_voice_rate (now_instant e) sender_user_id datagram_len s of
            (False, s1) \<Rightarrow> (None, s1)
          | (True, s1) \<Rightarrow>
              (case snapshot_voice_routing s1 of (routing, deafened) \<Rightarrow>
                 case room_containing s1 routing sender of
                   None \<Rightarrow> (None, s1)
                 | Some room \<Rightarrow>
                     let stamped = dgram\<lparr>vd_sender_id := Some sender, vd_room_id := Some (to_be_bytes 16 room)\<rparr>;
                         frame = \<lparr>vf_sender_id = sender, vf_opus_data = vd_opus_data dgram,
                                  vf_sequence = vd_sequence dgram, vf_timestamp_us = vd_timestamp_us dgram,
                                  vf_end_of_stream = vd_end_of_stream dgram\<rparr>
                     in (Some \<lparr>rp_bytes = encode_voice e stamped,
                               rp_recipients = voice_recipients routing deafened room sender,
                               rp_room = room, rp_frame = frame\<rparr>, s1)))"

text \<open>The targets so far double as the set of connections already seen.\<close>

definition dedup_step :: "(u64 \<Rightarrow> u64 option) \<Rightarrow> u64 \<Rightarrow> u64 list \<Rightarrow> u64 list" where
  "dedup_step resolve recipient targets =
     (case resolve recipient of None \<Rightarrow> targets | Some d \<Rightarrow> push_new d targets)"

definition dedup_delivery_targets :: "u64 list \<Rightarrow> (u64 \<Rightarrow> u64 option) \<Rightarrow> u64 list" where
  "dedup_delivery_targets recipients resolve = fold (dedup_step resolve) recipients []"

definition delivery_id :: "server_state \<Rightarrow> u64 \<Rightarrow> u64 option" where
  "delivery_id s uid = map_option (handle_uid s) (delivery_client s uid)"

section \<open>Relay\<close>

definition relay_effects :: "server_state \<Rightarrow> u64 list \<Rightarrow> bytes \<Rightarrow> uuid \<Rightarrow> voice_frame \<Rightarrow> effect list" where
  "relay_effects s recipients bs room frame =
     List.map_filter (\<lambda>d. map_option (\<lambda>h. DatagramSent (handle_uid s h) bs) (get_client s d))
       (dedup_delivery_targets recipients (delivery_id s)) @
     map (\<lambda>tx. FrameOffered tx frame) (fanout_audio s room frame)"

definition handle_datagram :: "env \<Rightarrow> u64 \<Rightarrow> voice_datagram \<Rightarrow> nat \<Rightarrow> world \<Rightarrow> world" where
  "handle_datagram e sender_user_id dgram datagram_len w =
     (case build_relay_packet e sender_user_id dgram datagram_len (w_state w) of
        (None, s) \<Rightarrow> w\<lparr>w_state := s\<rparr>
      | (Some packet, s) \<Rightarrow>
          emit (relay_effects s (rp_recipients packet) (rp_bytes packet) (rp_room packet) (rp_frame packet))
            (w\<lparr>w_state := s\<rparr>))"

definition relay_voice_as ::
  "env \<Rightarrow> u64 \<Rightarrow> bytes \<Rightarrow> u32 \<Rightarrow> u64 \<Rightarrow> bool \<Rightarrow> world \<Rightarrow> world" where
  "relay_voice_as e sender_id opus sequence timestamp_us end_of_stream w =
     (let s = w_state w in
      case snapshot_voice_routing s of (routing, deafened) \<Rightarrow>
        case room_containing s routing sender_id of
          None \<Rightarrow> w
        | Some room \<Rightarrow>
            let bs = encode_voice e
                  \<lparr>vd_opus_data = opus, vd_sequence = sequence, vd_timestamp_us = timestamp_us,
                   vd_end_of_stream = end_of_stream, vd_sender_id = Some sender_id,
                   vd_room_id = Some (to_be_bytes 16 room)\<rparr>;
                frame = \<lparr>vf_sender_id = sender_id, vf_opus_data = opus, vf_sequence = sequence,
                         vf_timestamp_us = timestamp_us, vf_end_of_stream = end_of_stream\<rparr>
            in emit (relay_effects s (voice_recipients routing deafened room sender_id) bs room frame) w)"

section \<open>Facts\<close>

lemma fold_push_member:
  "fold push_member ms m r =
     (let us = map fst (filter (\<lambda>(_, rid). rid = r) ms) in
      if us = [] then m r else Some ((case m r of Some l \<Rightarrow> l | None \<Rightarrow> []) @ us))"
  by (induction ms arbitrary: m) (auto simp: push_member_def Let_def split: option.splits)

lemma snapshot_room_memberships_get:
  "snapshot_room_memberships s r =
     (if get_room_members s r = [] then None else Some (get_room_members s r))"
  by (simp add: snapshot_room_memberships_def fold_push_member get_room_members_def Let_def)

lemma snapshot_voice_routing_eq:
  "snapshot_voice_routing s =
     (snapshot_room_memberships s,
      map fst (filter (\<lambda>(_, st). st_is_deafened st) (user_statuses (data s))))"
  by (simp add: snapshot_voice_routing_def snapshot_room_memberships_def)

lemma in_get_room_members:
  "uid \<in> set (get_room_members s r) \<longleftrightarrow> (uid, r) \<in> set (memberships (data s))"
  by (force simp: get_room_members_def)

lemma room_containing_get_user_room:
  assumes "distinct (map fst (memberships (data s)))"
  shows "room_containing s (snapshot_room_memberships s) uid = get_user_room s uid"
proof -
  have *: "(case snapshot_room_memberships s r of Some l \<Rightarrow> uid \<in> set l | None \<Rightarrow> False) \<longleftrightarrow>
      (uid, r) \<in> set (memberships (data s))" for r
    using in_get_room_members [of uid s r] by (auto simp: snapshot_room_memberships_get)
  show ?thesis
  proof (cases "get_user_room s uid")
    case None
    then have "\<forall>r. (uid, r) \<notin> set (memberships (data s))"
      by (auto simp: get_user_room_def map_of_eq_None_iff rev_image_eqI)
    with None show ?thesis by (simp add: room_containing_def * find_None_iff)
  next
    case (Some r)
    then have in_r: "(uid, r) \<in> set (memberships (data s))"
      by (simp add: get_user_room_def map_of_SomeD)
    have uniq: "r' = r" if "(uid, r') \<in> set (memberships (data s))" for r'
      using that in_r assms by (auto simp: eq_key_imp_eq_value)
    have "r \<in> set (map snd (memberships (data s)))" using in_r by force
    then have "List.find (\<lambda>r'. (uid, r') \<in> set (memberships (data s)))
        (map snd (memberships (data s))) \<noteq> None"
      using in_r unfolding find_None_iff by blast
    then obtain r' where "List.find (\<lambda>r'. (uid, r') \<in> set (memberships (data s)))
        (map snd (memberships (data s))) = Some r'" by blast
    moreover from this have "r' = r" using uniq by (auto dest: find_Some_set)
    ultimately show ?thesis using Some by (simp add: room_containing_def *)
  qed
qed

lemma fold_dedup_step:
  "set (fold (dedup_step f) us ts) = set ts \<union> {d. \<exists>u \<in> set us. f u = Some d} \<and>
   (distinct (fold (dedup_step f) us ts) \<longleftrightarrow> distinct ts)"
proof (induction us arbitrary: ts)
  case (Cons u us)
  show ?case
  proof (cases "f u")
    case None
    with Cons.IH [of ts] show ?thesis by (auto simp: dedup_step_def)
  next
    case (Some d)
    with Cons.IH [of "push_new d ts"] show ?thesis by (auto simp: dedup_step_def)
  qed
qed simp

lemma dedup_delivery_targets_spec:
  "set (dedup_delivery_targets us f) = {d. \<exists>u \<in> set us. f u = Some d}"
  "distinct (dedup_delivery_targets us f)"
  using fold_dedup_step [of f us "[]"] by (simp_all add: dedup_delivery_targets_def)

lemma rate_check_denied: "fst (rate_check now n l) = False \<Longrightarrow> snd (rate_check now n l) = l"
  by (auto simp: rate_check_def split: if_splits)

lemma data_check_voice_rate [simp]: "data (snd (check_voice_rate now u n s)) = data s"
  by (simp add: check_voice_rate_def Let_def split_beta)

section \<open>Properties\<close>

lemma build_relay_packet_Some:
  assumes "build_relay_packet e uid d n s = (Some pkt, s')"
    and "distinct (map fst (memberships (data s)))"
  obtains sender room where "effective_sender s uid (vd_sender_id d) = Some sender"
    and "\<not> sender_server_muted s uid" and "\<not> st_is_muted (get_user_status s sender)"
    and "check_voice_rate (now_instant e) uid n s = (True, s')"
    and "get_user_room s sender = Some room"
    and "pkt = \<lparr>rp_bytes = encode_voice e (d\<lparr>vd_sender_id := Some sender, vd_room_id := Some (to_be_bytes 16 room)\<rparr>),
           rp_recipients = voice_recipients (snapshot_room_memberships s)
             (map fst (filter (\<lambda>(_, st). st_is_deafened st) (user_statuses (data s)))) room sender,
           rp_room = room,
           rp_frame = \<lparr>vf_sender_id = sender, vf_opus_data = vd_opus_data d, vf_sequence = vd_sequence d,
             vf_timestamp_us = vd_timestamp_us d, vf_end_of_stream = vd_end_of_stream d\<rparr>\<rparr>"
proof -
  have same: "room_containing s1 (snapshot_room_memberships s1) v = get_user_room s v"
    "snapshot_room_memberships s1 = snapshot_room_memberships s"
    if "s1 = snd (check_voice_rate (now_instant e) uid n s)" for s1 v
    using room_containing_get_user_room [of s1 v] assms(2) that
    by (simp_all add: get_user_room_def snapshot_room_memberships_def)
  obtain ok s1 where c: "check_voice_rate (now_instant e) uid n s = (ok, s1)" by force
  then have d1: "data s1 = data s" using data_check_voice_rate [of "now_instant e" uid n s] by simp
  from assms(1) c same [of s1] show thesis
    by (intro that [of "the (effective_sender s uid (vd_sender_id d))" "rp_room pkt"])
      (auto simp: build_relay_packet_def Let_def snapshot_voice_routing_eq d1
        split: option.splits if_splits bool.splits)
qed

definition may_speak_as :: "server_state \<Rightarrow> u64 \<Rightarrow> u64 \<Rightarrow> bool" where
  "may_speak_as s uid sender \<longleftrightarrow>
     (case get_client s uid of
        Some h \<Rightarrow> if is_controller (handles s h) then is_participant_of s sender (Connection uid) else sender = uid
      | None \<Rightarrow> sender = uid)"

text \<open>C10: No voice spoofing. A relayed packet names as its sender the connection itself, or, for a
  controller, a participant that controller owns, whatever the datagram claimed; the sender is
  neither server-muted nor self-muted, and the packet goes to exactly the other members of the
  sender's own room that are not deafened.\<close>

theorem relay_authentic:
  assumes "build_relay_packet e uid d n s = (Some pkt, s')"
    and "distinct (map fst (memberships (data s)))"
  shows "\<exists>sender. may_speak_as s uid sender \<and>
      vf_sender_id (rp_frame pkt) = sender \<and>
      rp_bytes pkt = encode_voice e (d\<lparr>vd_sender_id := Some sender, vd_room_id := Some (to_be_bytes 16 (rp_room pkt))\<rparr>) \<and>
      \<not> sender_server_muted s uid \<and> \<not> st_is_muted (get_user_status s sender) \<and>
      get_user_room s sender = Some (rp_room pkt) \<and>
      set (rp_recipients pkt) =
        {v. get_user_room s v = Some (rp_room pkt) \<and> v \<noteq> sender \<and>
            v \<notin> fst ` {x \<in> set (user_statuses (data s)). st_is_deafened (snd x)}}"
proof -
  from assms obtain sender room where es: "effective_sender s uid (vd_sender_id d) = Some sender"
    and rest: "\<not> sender_server_muted s uid" "\<not> st_is_muted (get_user_status s sender)"
      "get_user_room s sender = Some room"
    and pkt: "pkt = \<lparr>rp_bytes = encode_voice e (d\<lparr>vd_sender_id := Some sender, vd_room_id := Some (to_be_bytes 16 room)\<rparr>),
           rp_recipients = voice_recipients (snapshot_room_memberships s)
             (map fst (filter (\<lambda>(_, st). st_is_deafened st) (user_statuses (data s)))) room sender,
           rp_room = room,
           rp_frame = \<lparr>vf_sender_id = sender, vf_opus_data = vd_opus_data d, vf_sequence = vd_sequence d,
             vf_timestamp_us = vd_timestamp_us d, vf_end_of_stream = vd_end_of_stream d\<rparr>\<rparr>"
    by (rule build_relay_packet_Some)
  have "may_speak_as s uid sender"
    using es by (auto simp: effective_sender_def may_speak_as_def split: option.splits if_splits)
  moreover have "v \<in> set (get_room_members s room) \<longleftrightarrow> get_user_room s v = Some room" for v
    using assms(2) by (auto simp: in_get_room_members get_user_room_def)
  then have "set (rp_recipients pkt) = {v. get_user_room s v = Some room \<and> v \<noteq> sender \<and>
      v \<notin> fst ` {x \<in> set (user_statuses (data s)). st_is_deafened (snd x)}}"
    by (auto simp: pkt voice_recipients_def snapshot_room_memberships_get image_iff split: if_splits)
  ultimately show ?thesis using rest by (auto simp: pkt)
qed

definition spoofing_datagram :: voice_datagram where
  "spoofing_datagram =
     \<lparr>vd_opus_data = [1, 2], vd_sequence = 0, vd_timestamp_us = 0, vd_end_of_stream = False,
      vd_sender_id = Some 2, vd_room_id = None\<rparr>"

theorem relay_authentic_witness:
  "\<exists>pkt. fst (build_relay_packet sample_env 1 spoofing_datagram 10 (set_user_room 2 0 sample_state)) = Some pkt \<and>
     vf_sender_id (rp_frame pkt) = 1"
proof -
  let ?s = "set_user_room 2 0 sample_state"
  have d: "distinct (map fst (memberships (data ?s)))" by code_simp
  have parts: "effective_sender ?s 1 (vd_sender_id spoofing_datagram) = Some 1"
    "\<not> sender_server_muted ?s 1" "\<not> st_is_muted (get_user_status ?s 1)" "get_user_room ?s 1 = Some 0"
    by code_simp+
  have "fst (check_voice_rate (now_instant sample_env) 1 10 ?s)"
    by (simp add: check_voice_rate_def rate_check_def as_secs_def voice_rate_limit_new_def Let_def
        VOICE_RATE_LIMIT_BYTES_PER_SEC_def sample_env_def sample_state_def server_state_new_def
        with_cert_def with_cert_and_welcome_def set_user_room_def update_data_def)
  then obtain s1 where rate: "check_voice_rate (now_instant sample_env) 1 10 ?s = (True, s1)"
    by (metis prod.collapse)
  then have "data s1 = data ?s" using data_check_voice_rate [of "now_instant sample_env" 1 10 ?s] by simp
  then have "room_containing s1 (snapshot_room_memberships s1) 1 = Some 0"
    using d parts(4) room_containing_get_user_room [of s1 1] by (simp add: get_user_room_def)
  then have "fst (build_relay_packet sample_env 1 spoofing_datagram 10 ?s) \<noteq> None"
    unfolding build_relay_packet_def parts(1) option.case rate by (simp add: parts snapshot_voice_routing_eq Let_def)
  then obtain pkt s' where b: "build_relay_packet sample_env 1 spoofing_datagram 10 ?s = (Some pkt, s')"
    by (cases "build_relay_packet sample_env 1 spoofing_datagram 10 ?s") auto
  have "may_speak_as ?s 1 v = (v = 1)" for v
    by (simp add: may_speak_as_def get_client_def member_client_def sample_state_def set_user_room_def
        update_data_def client_handle_new_def)
  with relay_authentic [OF b d] b show ?thesis by simp
qed

fun admitted :: "(nat \<times> nat) list \<Rightarrow> voice_rate_limit \<Rightarrow> nat" where
  "admitted [] l = 0"
| "admitted ((now, n) # ds) l =
     (case rate_check now n l of (ok, l') \<Rightarrow> (if ok then n else 0) + admitted ds l')"

lemma admitted_in_window:
  assumes "\<forall>(now, n) \<in> set ds. as_secs (now - window_start l) = 0"
  shows "bytes_in_window l + admitted ds l \<le> max (bytes_in_window l) VOICE_RATE_LIMIT_BYTES_PER_SEC"
  using assms
proof (induction ds arbitrary: l)
  case (Cons d ds)
  obtain now n where d: "d = (now, n)" by force
  have z: "as_secs (now - window_start l) = 0" using Cons.prems by (simp add: d)
  show ?case
  proof (cases "bytes_in_window l + n > VOICE_RATE_LIMIT_BYTES_PER_SEC")
    case True
    with z Cons show ?thesis by (simp add: d rate_check_def)
  next
    case False
    have "\<forall>(t, k) \<in> set ds. as_secs (t - window_start (l\<lparr>bytes_in_window := bytes_in_window l + n\<rparr>)) = 0"
      using Cons.prems by simp
    from Cons.IH [OF this] False z show ?thesis by (simp add: d rate_check_def)
  qed
qed simp

text \<open>C33: The voice rate limit bounds what a connection injects in a window, up to its first datagram.
  From a new limiter, whatever arrives within the second is admitted up to the allowance. When the
  window of a limiter has elapsed, the next datagram opens a new one and is always admitted, even
  if it exceeds the allowance; together with it, whatever arrives within the second is admitted up
  to the allowance or, if that is larger, the size of the opening datagram.\<close>

theorem voice_rate_bound:
  assumes "\<forall>(now, n) \<in> set ds. as_secs (now - t0) = 0"
  shows "admitted ds (voice_rate_limit_new t0) \<le> VOICE_RATE_LIMIT_BYTES_PER_SEC \<and>
    (1 \<le> as_secs (t0 - window_start l) \<longrightarrow>
      admitted ((t0, n0) # ds) l \<in> {n0 .. max n0 VOICE_RATE_LIMIT_BYTES_PER_SEC})"
  using admitted_in_window [of ds "voice_rate_limit_new t0"] assms
    admitted_in_window [of ds "l\<lparr>window_start := t0, bytes_in_window := n0\<rparr>"]
  by (simp add: voice_rate_limit_new_def rate_check_def)

theorem voice_rate_bound_witness:
  "admitted [(5, 20000), (6, 20000)] (voice_rate_limit_new 0) \<le> 32000"
  using voice_rate_bound [of "[(5, 20000), (6, 20000)]" 0]
  by (simp add: as_secs_def VOICE_RATE_LIMIT_BYTES_PER_SEC_def)

text \<open>A relayed packet is sent at most once to each connection, and to exactly the connections
  that deliver for one of its recipients: a controller that owns several of them gets one
  copy.\<close>

theorem relay_delivers_once:
  "distinct (dedup_delivery_targets recipients (delivery_id s)) \<and>
   set (dedup_delivery_targets recipients (delivery_id s)) =
     {c. \<exists>v \<in> set recipients. \<exists>h. delivery_client s v = Some h \<and> handle_uid s h = c}"
  using dedup_delivery_targets_spec [where us = recipients and f = "delivery_id s"]
  by (auto simp: delivery_id_def)

end
