(* ===== verification/Dispatch.thy ===== *)
theory Dispatch
  imports Auth Chat Admin Voice
begin

text \<open>
  The envelope dispatcher (\<open>handle_envelope\<close> of \<open>server/src/handlers.rs\<close>): slash commands go
  to the plugin that declares them, then every plugin may consume the message, then the
  built-in handler runs behind the authentication guard of its payload.
\<close>

datatype payload =
    ClientHello client_hello
  | Authenticate authenticate
  | ChatMessage chat_message
  | DirectMessage direct_message
  | JoinRoom "room_id option"
  | Disconnect string
  | CreateRoom create_room_req
  | DeleteRoom "room_id option"
  | RenameRoom "room_id option" string
  | MoveRoom "room_id option" "room_id option"
  | SetRoomDescription "room_id option" string
  | RequestStateSync bytes bytes
  | SetUserStatus bool bool
  | RegisterUser "user_id_msg option"
  | UnregisterUser "user_id_msg option"
  | ControllerHello string
  | RegisterParticipant string "string option" "bytes option"
  | UnregisterParticipant u64
  | MoveParticipant u64 "room_id option"
  | SetParticipantStatus u64 bool bool
  | ParticipantChat participant_chat
  | KickUser u64 string
  | BanUser u64 string u64
  | SetServerMute u64 bool
  | Elevate string
  | CreateGroup string u32
  | DeleteGroup string
  | ModifyGroup string u32
  | ToggleGroupPermission string u32 bool
  | SetUserGroup u64 string bool u64
  | SetRoomAcl set_room_acl_req
  | RequestRegisteredUsers
  | SetRegisteredUserGroup bytes string bool u64
  | ServerToClient

record envelope =
  env_state_hash :: bytes
  env_payload :: "payload option"

section \<open>Guards\<close>

definition sender_authenticated :: "handle \<Rightarrow> world \<Rightarrow> bool" where
  "sender_authenticated sender w = conn_authenticated (w_state w) (handle_uid (w_state w) sender)"

definition authed :: "handle \<Rightarrow> (world \<Rightarrow> world) \<Rightarrow> world \<Rightarrow> unit outcome \<times> world" where
  "authed sender act w = (if \<not> sender_authenticated sender w then (Inr (), w) else (Inr (), act w))"

definition as_controller :: "handle \<Rightarrow> (world \<Rightarrow> world) \<Rightarrow> world \<Rightarrow> unit outcome \<times> world" where
  "as_controller sender act w =
     (if \<not> sender_authenticated sender w \<or> \<not> is_controller (handles (w_state w) sender)
      then (Inr (), w) else (Inr (), act w))"

section \<open>Dispatch\<close>

definition dispatch_payload ::
  "env \<Rightarrow> envelope plugin list \<Rightarrow> payload \<Rightarrow> handle \<Rightarrow> world \<Rightarrow> unit outcome \<times> world" where
  "dispatch_payload e plugins pl sender w =
     (case pl of
        ClientHello ch \<Rightarrow> handle_client_hello e ch sender w
      | Authenticate a \<Rightarrow> handle_authenticate e plugins a sender w
      | ChatMessage m \<Rightarrow> authed sender (handle_chat_message e plugins m sender) w
      | DirectMessage d \<Rightarrow> authed sender (handle_direct_message e d sender) w
      | JoinRoom r \<Rightarrow> authed sender (handle_join_room e r sender) w
      | Disconnect reason \<Rightarrow> (Inr (), handle_disconnect reason sender w)
      | CreateRoom c \<Rightarrow> authed sender (handle_create_room e c sender) w
      | DeleteRoom r \<Rightarrow> authed sender (handle_delete_room e r sender) w
      | RenameRoom r n \<Rightarrow> authed sender (handle_rename_room e r n sender) w
      | MoveRoom r n \<Rightarrow> authed sender (handle_move_room e r n sender) w
      | SetRoomDescription r d \<Rightarrow> authed sender (handle_set_room_description e r d sender) w
      | RequestStateSync _ _ \<Rightarrow>
          if \<not> sender_authenticated sender w then (Inr (), w) else handle_request_state_sync e sender w
      | SetUserStatus m d \<Rightarrow> authed sender (handle_set_user_status e m d sender) w
      | RegisterUser u \<Rightarrow> authed sender (handle_register_user e u sender) w
      | UnregisterUser u \<Rightarrow> authed sender (handle_unregister_user e u sender) w
      | ControllerHello n \<Rightarrow> authed sender (handle_controller_hello e n sender) w
      | RegisterParticipant n l _ \<Rightarrow> as_controller sender (handle_register_participant e n l sender) w
      | UnregisterParticipant u \<Rightarrow> as_controller sender (handle_unregister_participant e u sender) w
      | MoveParticipant u r \<Rightarrow> as_controller sender (handle_move_participant e u r sender) w
      | SetParticipantStatus u m d \<Rightarrow> as_controller sender (handle_set_participant_status e u m d sender) w
      | ParticipantChat c \<Rightarrow> as_controller sender (handle_participant_chat e plugins c sender) w
      | KickUser t r \<Rightarrow> authed sender (handle_kick_user e t r sender) w
      | BanUser t r d \<Rightarrow> authed sender (handle_ban_user e t r d sender) w
      | SetServerMute t m \<Rightarrow> authed sender (handle_set_server_mute e t m sender) w
      | Elevate p \<Rightarrow> authed sender (handle_elevate e p sender) w
      | CreateGroup n p \<Rightarrow> authed sender (handle_create_group e n p sender) w
      | DeleteGroup n \<Rightarrow> authed sender (handle_delete_group e n sender) w
      | ModifyGroup n p \<Rightarrow> authed sender (handle_modify_group e n p sender) w
      | ToggleGroupPermission n b en \<Rightarrow> authed sender (handle_toggle_group_permission e n b en sender) w
      | SetUserGroup t g a x \<Rightarrow> authed sender (handle_set_user_group e t g a x sender) w
      | SetRoomAcl r \<Rightarrow> authed sender (handle_set_room_acl e r sender) w
      | RequestRegisteredUsers \<Rightarrow> authed sender (handle_request_registered_users e sender) w
      | SetRegisteredUserGroup k g a x \<Rightarrow> authed sender (handle_set_registered_user_group e k g a x sender) w
      | ServerToClient \<Rightarrow> (Inr (), w))"

text \<open>Plugins in registration order until one consumes the message or fails.\<close>

fun try_plugins ::
  "envelope plugin list \<Rightarrow> envelope \<Rightarrow> handle \<Rightarrow> world \<Rightarrow> bool outcome \<times> world" where
  "try_plugins [] ev sender w = (Inr False, w)"
| "try_plugins (pl # pls) ev sender w =
     (case pl_on_message pl ev sender w of
        (Inl err, w') \<Rightarrow> (Inl err, w')
      | (Inr True, w') \<Rightarrow> (Inr True, w')
      | (Inr False, w') \<Rightarrow> try_plugins pls ev sender w')"

definition declares_command :: "string \<Rightarrow> envelope plugin \<Rightarrow> bool" where
  "declares_command cmd pl \<longleftrightarrow> list_ex (\<lambda>c. eq_ignore_ascii_case (sc_name c) cmd) (pl_commands pl)"

definition slash_target ::
  "envelope plugin list \<Rightarrow> envelope \<Rightarrow> handle \<Rightarrow> world \<Rightarrow> (envelope plugin \<times> string \<times> string) option" where
  "slash_target plugins ev sender w =
     (case env_payload ev of
        Some (ChatMessage m) \<Rightarrow>
          if \<not> sender_authenticated sender w then None
          else (case parse_slash_command (cm_text m) of
                  None \<Rightarrow> None
                | Some (cmd, args) \<Rightarrow>
                    map_option (\<lambda>pl. (pl, cmd, args)) (List.find (declares_command cmd) plugins))
      | _ \<Rightarrow> None)"

definition handle_envelope ::
  "env \<Rightarrow> envelope plugin list \<Rightarrow> envelope \<Rightarrow> handle \<Rightarrow> world \<Rightarrow> unit outcome \<times> world" where
  "handle_envelope e plugins ev sender w =
     (case slash_target plugins ev sender w of
        Some (pl, cmd, args) \<Rightarrow> pl_on_command pl cmd args sender w
      | None \<Rightarrow>
          (case try_plugins plugins ev sender w of
             (Inl err, w') \<Rightarrow> (Inl err, w')
           | (Inr True, w') \<Rightarrow> (Inr (), w')
           | (Inr False, w') \<Rightarrow>
               (case env_payload ev of
                  None \<Rightarrow> (Inr (), w')
                | Some pl \<Rightarrow> dispatch_payload e plugins pl sender w')))"

section \<open>Authentication and permission guards\<close>

definition before_login :: "payload \<Rightarrow> bool" where
  "before_login pl = (case pl of ClientHello _ \<Rightarrow> True | Authenticate _ \<Rightarrow> True | Disconnect _ \<Rightarrow> True | _ \<Rightarrow> False)"

lemma dispatch_unauthenticated:
  "\<not> sender_authenticated sender w \<Longrightarrow> \<not> before_login pl \<Longrightarrow> dispatch_payload e plugins pl sender w = (Inr (), w)"
  by (cases pl) (simp_all add: dispatch_payload_def authed_def as_controller_def before_login_def)

text \<open>A plugin that authenticates nobody, as far as this message is concerned.\<close>

definition leaves_login :: "envelope \<Rightarrow> handle \<Rightarrow> envelope plugin \<Rightarrow> bool" where
  "leaves_login ev sender pl \<longleftrightarrow>
     (\<forall>v. sender_authenticated sender (snd (pl_on_message pl ev sender v)) \<longrightarrow> sender_authenticated sender v)"

lemma try_plugins_login:
  "list_all (leaves_login ev sender) plugins \<Longrightarrow> \<not> sender_authenticated sender w \<Longrightarrow>
     \<not> sender_authenticated sender (snd (try_plugins plugins ev sender w))"
proof (induction plugins ev sender w rule: try_plugins.induct)
  case (2 pl pls ev sender w)
  obtain r w' where r: "pl_on_message pl ev sender w = (r, w')" by force
  have "\<not> sender_authenticated sender w'"
    using 2(2,3) r unfolding list.pred_inject leaves_login_def by (metis snd_conv)
  then show ?case using 2(1) [OF r [symmetric]] 2(2) r by (auto split: sum.splits bool.splits)
qed simp

text \<open>C9: Before login a message does what the plugins make of it and nothing else. When an
  unauthenticated connection sends anything but the two messages of the handshake or a
  disconnect notice, and no plugin authenticates it meanwhile, the result is that of offering the
  message to the plugins: no command of a plugin runs and no handler of the server does anything.
  On a server without plugins, state, database and network are untouched.\<close>

theorem unauthenticated_inert:
  assumes "\<not> sender_authenticated sender w" and "\<forall>pl. env_payload ev = Some pl \<longrightarrow> \<not> before_login pl"
    and "list_all (leaves_login ev sender) plugins" and "try_plugins plugins ev sender w = (r, w')"
  shows "handle_envelope e plugins ev sender w = (map_sum id (\<lambda>_. ()) r, w') \<and>
    (plugins = [] \<longrightarrow> handle_envelope e plugins ev sender w = (Inr (), w))"
proof -
  have "slash_target plugins ev sender w = None"
    using assms(1) by (simp add: slash_target_def split: option.splits payload.splits)
  moreover have "dispatch_payload e plugins pl sender w' = (Inr (), w')" if "env_payload ev = Some pl" for pl
    using dispatch_unauthenticated try_plugins_login [OF assms(3,1)] assms(2,4) that by simp
  ultimately show ?thesis
    using assms(4) by (auto simp: handle_envelope_def split: option.splits sum.splits bool.splits)
qed

theorem unauthenticated_inert_witness:
  "handle_envelope sample_env [] \<lparr>env_state_hash = [], env_payload = Some (KickUser 1 [])\<rparr> 1
     (sample_world\<lparr>w_state := sample_state\<lparr>conn_authenticated := (\<lambda>_. False)\<rparr>\<rparr>) =
   (Inr (), sample_world\<lparr>w_state := sample_state\<lparr>conn_authenticated := (\<lambda>_. False)\<rparr>\<rparr>)"
  using unauthenticated_inert [of 1 "sample_world\<lparr>w_state := sample_state\<lparr>conn_authenticated := (\<lambda>_. False)\<rparr>\<rparr>"
      "\<lparr>env_state_hash = [], env_payload = Some (KickUser 1 [])\<rparr>" "[]" "Inr False" _ sample_env]
  by (simp add: sender_authenticated_def before_login_def)

text \<open>What each payload needs, and where.\<close>

definition demands :: "payload \<Rightarrow> handle \<Rightarrow> world \<Rightarrow> (uuid \<times> permissions) list" where
  "demands pl h w =
     (case pl of
        JoinRoom r \<Rightarrow> [(requested_room r, ENTER)]
      | CreateRoom c \<Rightarrow> [(creation_room c, MAKE_ROOM)]
      | DeleteRoom r \<Rightarrow> [(requested_room r, MODIFY_ROOM)]
      | RenameRoom r _ \<Rightarrow> [(requested_room r, MODIFY_ROOM)]
      | SetRoomDescription r _ \<Rightarrow> [(requested_room r, MODIFY_ROOM)]
      | MoveRoom r n \<Rightarrow> [(requested_room r, MODIFY_ROOM), (requested_room n, MAKE_ROOM)]
      | RegisterUser u \<Rightarrow> [(0, register_permission (target_user u) (handle_uid (w_state w) h))]
      | UnregisterUser u \<Rightarrow> [(0, register_permission (target_user u) (handle_uid (w_state w) h))]
      | ControllerHello _ \<Rightarrow> [(0, MANAGE_PARTICIPANTS)]
      | KickUser _ _ \<Rightarrow> [(0, KICK)]
      | BanUser _ _ _ \<Rightarrow> [(0, BAN)]
      | SetServerMute t _ \<Rightarrow> [(user_room_or_root (w_state w) t, MUTE_DEAFEN)]
      | Elevate _ \<Rightarrow> [(0, SUDO)]
      | CreateGroup _ _ \<Rightarrow> [(0, MANAGE_ACL)]
      | DeleteGroup _ \<Rightarrow> [(0, MANAGE_ACL)]
      | ModifyGroup _ _ \<Rightarrow> [(0, MANAGE_ACL)]
      | ToggleGroupPermission _ _ _ \<Rightarrow> [(0, MANAGE_ACL)]
      | SetUserGroup _ _ _ _ \<Rightarrow> [(0, MANAGE_ACL)]
      | RequestRegisteredUsers \<Rightarrow> [(0, MANAGE_ACL)]
      | SetRegisteredUserGroup _ _ _ _ \<Rightarrow> [(0, MANAGE_ACL)]
      | SetRoomAcl r \<Rightarrow>
          if length (sra_room_id r) = 16 then [(from_be_bytes (sra_room_id r), WRITE)] else []
      | _ \<Rightarrow> [])"

lemmas privileged_denies =
  join.denies create.denies delete.denies rename.denies [where r = "(a, b)" for a b, simplified]
  describe.denies [where r = "(a, b)" for a b, simplified] move.denies [where r = "(a, b)" for a b, simplified]
  enrol.denies expel.denies kick.denies [where r = "(a, b)" for a b, simplified]
  ban.denies [where r = "(a, b, c)" for a b c, simplified] mute.denies [where r = "(a, b)" for a b, simplified]
  elevate.denies group_create.denies [where r = "(a, b)" for a b, simplified] group_delete.denies
  group_modify.denies [where r = "(a, b)" for a b, simplified]
  group_toggle.denies [where r = "(a, b, c)" for a b c, simplified]
  user_group.denies [where r = "(a, b, c, d)" for a b c d, simplified]
  listing.denies
  key_group.denies [where r = "(a, b, c, d)" for a b c d, simplified]
  room_acl.denies controller.denies

lemma refused_refl [simp]: "refused h w w"
  by (simp add: refused_def)

lemma refused_authed: "refused h w (act w) \<Longrightarrow> refused h w (snd (authed h act w))"
  by (simp add: authed_def)

text \<open>C6: Every privileged request is refused without its permission: when the sender lacks
  one of the permissions the payload demands in its room, the dispatcher changes neither the
  state nor the database and sends nothing but at most one refusal to the sender. The demands are
  those of the handlers, which differ from \<open>docs/acl-system.md\<close> in two cases: elevation demands
  SUDO at the root, and editing an access list demands WRITE in the room.\<close>

theorem privileged_payload_refused:
  assumes "(room, perm) \<in> set (demands pl sender w)"
    and "\<not> contains (evaluate_user_permissions (w_state w) sender room (w_persist w)) perm"
  shows "refused sender w (snd (dispatch_payload e plugins pl sender w))"
  using assms
  by (cases pl) (auto simp: demands_def dispatch_payload_def intro!: refused_authed privileged_denies
      split: if_splits)

theorem privileged_payload_refused_witness:
  "refused 0 sample_world (snd (dispatch_payload sample_env [] (KickUser 2 ''spam'') 0 sample_world))"
proof (rule privileged_payload_refused)
  show "(0, KICK) \<in> set (demands (KickUser 2 ''spam'') 0 sample_world)" by (simp add: demands_def)
  show "\<not> contains (evaluate_user_permissions (w_state sample_world) 0 0 (w_persist sample_world)) KICK"
    by code_simp
qed

end
