(* ===== verification/Server.thy ===== *)
theory Server
  imports Dispatch
begin

text \<open>
  The server process (\<open>server/src/server.rs\<close>) and the plugin capabilities
  (\<open>server/src/plugin.rs\<close>): loading of persisted rooms, the periodic sweep, the life of a
  connection with its primary and secondary streams, the framed read loop, and the step
  relation of the whole server.
\<close>

section \<open>Startup and sweep\<close>

definition load_room :: "uuid \<times> persisted_room \<Rightarrow> server_state \<Rightarrow> server_state" where
  "load_room entry s =
     (case entry of (u, r) \<Rightarrow>
        if u = ROOT_ROOM_UUID then s
        else
          let parent = (case pr_parent r of Some p \<Rightarrow> p | None \<Rightarrow> ROOT_ROOM_UUID);
              description = (if pr_description r = [] then None else Some (pr_description r))
          in snd (add_room_with_uuid_and_parent_desc u (pr_name r) parent description s))"

definition load_persisted_rooms :: "persistence \<Rightarrow> server_state \<Rightarrow> server_state" where
  "load_persisted_rooms p s = hydrate_room_acls p (fold load_room (get_all_rooms p) s)"

definition plugin_slash_commands :: "envelope plugin list \<Rightarrow> slash_command list" where
  "plugin_slash_commands plugins = concat (map pl_commands plugins)"

text \<open>\<open>Server::new\<close> and the first step of \<open>run\<close>; \<open>Inl\<close> is a startup failure.\<close>

definition server_start ::
  "bytes \<Rightarrow> string option \<Rightarrow> envelope plugin list \<Rightarrow> persistence \<Rightarrow> world outcome" where
  "server_start cert_der welcome plugins p =
     (case ensure_default_groups p of
        (Inl err, _) \<Rightarrow> Inl err
      | (Inr _, p1) \<Rightarrow>
          let s = set_slash_commands (plugin_slash_commands plugins) (with_cert_and_welcome cert_der welcome)
          in Inr \<lparr>w_state = load_persisted_rooms p1 s, w_persist = p1, w_trace = []\<rparr>)"

definition sweep_tick :: "env \<Rightarrow> world \<Rightarrow> world" where
  "sweep_tick e w =
     (let w1 = on_persist (\<lambda>p. snd (sweep_expired_bans (now_secs e) p)) w
      in snd (sweep_expired_memberships e w1))"

definition reload_certificate :: "bytes option \<Rightarrow> world \<Rightarrow> world" where
  "reload_certificate leaf w =
     (case leaf of None \<Rightarrow> w | Some der \<Rightarrow> on_state (set_server_cert_der der) w)"

section \<open>Connections\<close>

text \<open>Accepting a connection allocates its user id; the identity starts empty.\<close>

definition open_connection :: "world \<Rightarrow> u64 \<times> world" where
  "open_connection w =
     (let (uid, s) = allocate_user_id (w_state w) in
      (uid, w\<lparr>w_state := s\<lparr>identities := (identities s)(uid := identity_empty),
                          conn_authenticated := (conn_authenticated s)(uid := False),
                          conn_public_key := (conn_public_key s)(uid := None)\<rparr>\<rparr>))"

definition new_handle :: "u64 \<Rightarrow> world \<Rightarrow> handle \<times> world" where
  "new_handle uid w =
     (let s = w_state w; h = next_handle s in
      (h, w\<lparr>w_state := s\<lparr>handles := (handles s)(h := client_handle_new uid), next_handle := Suc h\<rparr>\<rparr>))"

definition open_primary_stream :: "u64 \<Rightarrow> world \<Rightarrow> handle \<times> world" where
  "open_primary_stream uid w =
     (case new_handle uid w of (h, w1) \<Rightarrow> (h, on_state (register_client h) w1))"

text \<open>The end of the primary stream and the end of the connection both try to tear down.\<close>

definition teardown :: "env \<Rightarrow> 'e plugin list \<Rightarrow> handle \<Rightarrow> world \<Rightarrow> world" where
  "teardown e plugins h w =
     (case begin_teardown h (w_state w) of
        (False, _) \<Rightarrow> w
      | (True, s) \<Rightarrow> cleanup_client e h (fold (\<lambda>pl. pl_on_disconnect pl h) plugins (w\<lparr>w_state := s\<rparr>)))"

section \<open>Framed read loop\<close>

text \<open>
  \<open>decode_env\<close> is the protobuf decoder. A frame that does not decode, and a handler that
  returns an error, are logged and skipped.
\<close>

definition process_frame ::
  "env \<Rightarrow> (bytes \<Rightarrow> envelope option) \<Rightarrow> envelope plugin list \<Rightarrow> handle \<Rightarrow> bytes \<Rightarrow> world \<Rightarrow> world" where
  "process_frame e decode_env plugins h frame w =
     (case decode_env frame of
        None \<Rightarrow> w
      | Some ev \<Rightarrow> snd (handle_envelope e plugins ev h w))"

text \<open>\<open>fuel\<close> bounds the frames taken from one buffer; its length is enough.\<close>

fun drain_frames ::
  "nat \<Rightarrow> delimiter \<Rightarrow> (bytes \<Rightarrow> world \<Rightarrow> world) \<Rightarrow> bytes \<Rightarrow> world \<Rightarrow> (bytes \<times> world) option" where
  "drain_frames fuel d process buf w =
     (case try_decode_frame d buf of
        (None, buf') \<Rightarrow> Some (buf', w)
      | (Some frame, buf') \<Rightarrow>
          (case fuel of 0 \<Rightarrow> None | Suc n \<Rightarrow> drain_frames n d process buf' (process frame w)))"

declare drain_frames.simps [simp del]

text \<open>One chunk read from the stream. \<open>Inl\<close>: the buffer exceeds the cap, the stream ends.\<close>

definition read_chunk ::
  "delimiter \<Rightarrow> (bytes \<Rightarrow> world \<Rightarrow> world) \<Rightarrow> bytes \<Rightarrow> bytes \<Rightarrow> world \<Rightarrow> (string + bytes \<times> world) option" where
  "read_chunk d process buf chunk w =
     (let buf1 = buf @ chunk in
      if length buf1 > MAX_FRAME_LEN then Some (Inl ''control frame exceeds MAX_FRAME_LEN'')
      else map_option Inr (drain_frames (length buf1) d process buf1 w))"

section \<open>Stream headers\<close>

record stream_header =
  sh_plugin :: string
  sh_metadata :: bytes

definition stream_header_encode :: "stream_header \<Rightarrow> bytes" where
  "stream_header_encode h =
     to_be_bytes 2 (word_of_nat (length (sh_plugin h)) :: u16) @ string_bytes (sh_plugin h) @ sh_metadata h"

definition bytes_string :: "bytes \<Rightarrow> string" where
  "bytes_string bs = map (\<lambda>b. char_of (unat b)) bs"

text \<open>\<open>utf8\<close> is the UTF-8 validity test of the standard library.\<close>

definition stream_header_decode :: "(bytes \<Rightarrow> bool) \<Rightarrow> bytes \<Rightarrow> stream_header outcome" where
  "stream_header_decode utf8 stream =
     (if length stream < 2 then Inl ''unexpected end of stream''
      else
        let name_len = unat (from_be_bytes (take 2 stream) :: u16);
            rest = drop 2 stream
        in if length rest < name_len then Inl ''unexpected end of stream''
           else if \<not> utf8 (take name_len rest) then Inl ''invalid UTF-8 in plugin name''
           else if length (drop name_len rest) > 64 * 1024 then Inl ''stream too long''
           else Inr \<lparr>sh_plugin = bytes_string (take name_len rest), sh_metadata = drop name_len rest\<rparr>)"

definition MAX_PLUGIN_NAME_LEN :: nat where
  "MAX_PLUGIN_NAME_LEN = 255"

datatype secondary = StreamClosed | PluginRejected | ToPlugin string bytes | EnvelopeStream bytes

text \<open>
  The probe of a secondary stream, on the bytes the peer sends before finishing it:
  the plugin it is routed to with the bytes left for it, or the seed of the envelope loop.
\<close>

definition dispatch_secondary_stream ::
  "(bytes \<Rightarrow> bool) \<Rightarrow> string list \<Rightarrow> bool \<Rightarrow> bytes \<Rightarrow> secondary" where
  "dispatch_secondary_stream utf8 plugin_names authenticated stream =
     (if length stream < 2 then StreamClosed
      else
        let name_len = unat (from_be_bytes (take 2 stream) :: u16);
            rest = drop 2 stream
        in if 0 < name_len \<and> name_len \<le> MAX_PLUGIN_NAME_LEN then
             if length rest < name_len then StreamClosed
             else
               let name_buf = take name_len rest in
               if utf8 name_buf \<and> bytes_string name_buf \<in> set plugin_names
               then if \<not> authenticated then PluginRejected
                    else ToPlugin (bytes_string name_buf) (drop name_len rest)
               else EnvelopeStream stream
           else EnvelopeStream stream)"

section \<open>Plugin capabilities\<close>

definition ctx_post_chat_as :: "env \<Rightarrow> u64 \<Rightarrow> uuid \<Rightarrow> string \<Rightarrow> world \<Rightarrow> world" where
  "ctx_post_chat_as e author_id room line w =
     snd (broadcast_chat_in_room e author_id room
       \<lparr>cr_text = line, cr_is_tree = False, cr_id = to_be_bytes 16 (new_v4 e),
        cr_timestamp_ms = now_ms e, cr_attachment = None\<rparr> w)"

definition ctx_register_participant ::
  "env \<Rightarrow> string \<Rightarrow> string option \<Rightarrow> string list \<Rightarrow> world \<Rightarrow> u64 \<times> world" where
  "ctx_register_participant e username lbl gs w =
     (case allocate_user_id (w_state w) of (token, s) \<Rightarrow>
        create_participant e (Plugin token) username lbl None gs False (w\<lparr>w_state := s\<rparr>))"

definition ctx_broadcast_room :: "uuid \<Rightarrow> bytes \<Rightarrow> server_msg \<Rightarrow> world \<Rightarrow> world" where
  "ctx_broadcast_room room hash msg w =
     fold (\<lambda>uid w. case get_client (w_state w) uid of
             Some h \<Rightarrow> snd (send_frame h hash msg w) | None \<Rightarrow> w)
       (get_room_members (w_state w) room) w"

definition ctx_send_to :: "u64 \<Rightarrow> bytes \<Rightarrow> server_msg \<Rightarrow> world \<Rightarrow> unit outcome \<times> world" where
  "ctx_send_to uid hash msg w =
     (case get_client (w_state w) uid of
        None \<Rightarrow> (Inl (''client '' @ decimal (unat uid) @ '' not found''), w)
      | Some h \<Rightarrow> send_frame h hash msg w)"

section \<open>Loading\<close>

definition room_of_persisted :: "uuid \<Rightarrow> persisted_room \<Rightarrow> room" where
  "room_of_persisted u r =
     new_room u (pr_name r) (case pr_parent r of Some p \<Rightarrow> p | None \<Rightarrow> ROOT_ROOM_UUID)
       (if pr_description r = [] then None else Some (pr_description r))"

definition with_stored_acl :: "persistence \<Rightarrow> room \<Rightarrow> room" where
  "with_stored_acl p r =
     (case get_room_acl p (r_id r) of
        Some acl \<Rightarrow> r\<lparr>r_inherit_acl := pa_inherit_acl acl, r_acls := map room_entry_of_persisted (pa_entries acl)\<rparr>
      | None \<Rightarrow> r)"

lemma r_id_with_stored_acl [simp]: "r_id (with_stored_acl p r) = r_id r"
  by (simp add: with_stored_acl_def split: option.splits)

lemma r_id_room_of_persisted [simp]: "r_id (room_of_persisted u r) = u"
  by (simp add: room_of_persisted_def new_room_def)

lemma load_room_eq:
  "load_room (u, r) s =
     (if u = ROOT_ROOM_UUID \<or> u \<in> room_ids s then s
      else s\<lparr>data := (data s)\<lparr>rooms := rooms (data s) @ [room_of_persisted u r]\<rparr>\<rparr>)"
  by (auto simp: load_room_def add_room_with_uuid_and_parent_desc_def update_data_def room_ids_def
      room_of_persisted_def Let_def list_ex_iff)

lemma load_rooms_fold:
  assumes "distinct (map fst l)" and "fst ` set l \<inter> room_ids s \<subseteq> {ROOT_ROOM_UUID}"
  shows "fold load_room l s = s\<lparr>data := (data s)\<lparr>rooms := rooms (data s) @
    map (\<lambda>(u, r). room_of_persisted u r) (filter (\<lambda>(u, _). u \<noteq> ROOT_ROOM_UUID) l)\<rparr>\<rparr>"
  using assms
proof (induction l arbitrary: s)
  case (Cons e l)
  obtain u r where e: "e = (u, r)" by force
  show ?case
  proof (cases "u = ROOT_ROOM_UUID")
    case True
    with Cons show ?thesis by (auto simp: e load_room_eq)
  next
    case False
    let ?s = "s\<lparr>data := (data s)\<lparr>rooms := rooms (data s) @ [room_of_persisted u r]\<rparr>\<rparr>"
    have u: "load_room (u, r) s = ?s" using False Cons.prems(2) by (auto simp: e load_room_eq)
    have "room_ids ?s = insert u (room_ids s)" by (auto simp: room_ids_def)
    with Cons.prems have "fst ` set l \<inter> room_ids ?s \<subseteq> {ROOT_ROOM_UUID}" by (auto simp: e)
    from Cons.IH [OF _ this] Cons.prems(1) False show ?thesis by (simp add: e u)
  qed
qed simp

definition map_rooms :: "(room \<Rightarrow> room) \<Rightarrow> server_state \<Rightarrow> server_state" where
  "map_rooms f s = s\<lparr>data := (data s)\<lparr>rooms := map f (rooms (data s))\<rparr>\<rparr>"

lemma map_rooms_comp: "map_rooms f (map_rooms g s) = map_rooms (\<lambda>r. f (g r)) s"
  by (simp add: map_rooms_def comp_def)

lemma map_rooms_id: "map_rooms (\<lambda>r. r) s = s"
  by (simp add: map_rooms_def)

definition hydrate_room :: "persistence \<Rightarrow> uuid \<Rightarrow> server_state \<Rightarrow> server_state" where
  "hydrate_room p u s =
     (case get_room_acl p u of
        Some acl \<Rightarrow> snd (set_room_acl u (pa_inherit_acl acl) (map room_entry_of_persisted (pa_entries acl)) s)
      | None \<Rightarrow> s)"

lemma update_first_map:
  "distinct (map r_id rs) \<Longrightarrow> update_first (\<lambda>r. r_id r = u) f rs = map (\<lambda>r. if r_id r = u then f r else r) rs"
  by (induction rs) (auto simp: image_iff intro!: map_idI [symmetric])

lemma hydrate_room_eq:
  assumes "distinct (map r_id (rooms (data s)))"
  shows "hydrate_room p u s = map_rooms (\<lambda>r. if r_id r = u then with_stored_acl p r else r) s"
proof (cases "get_room_acl p u")
  case None
  then have "(\<lambda>r. if r_id r = u then with_stored_acl p r else r) = (\<lambda>r. r)"
    by (auto simp: fun_eq_iff with_stored_acl_def)
  then show ?thesis by (simp add: hydrate_room_def None map_rooms_id)
next
  case (Some acl)
  have "(\<lambda>r. if r_id r = u then with_stored_acl p r else r) = (\<lambda>r. if r_id r = u then
      r\<lparr>r_inherit_acl := pa_inherit_acl acl, r_acls := map room_entry_of_persisted (pa_entries acl)\<rparr> else r)"
    using Some by (auto simp: fun_eq_iff with_stored_acl_def)
  then show ?thesis
    by (simp add: hydrate_room_def Some map_rooms_def set_room_acl_def update_room_def update_data_def
        update_first_map [OF assms])
qed

lemma hydrate_fold:
  assumes "distinct us" and "distinct (map r_id (rooms (data s)))"
  shows "fold (hydrate_room p) us s = map_rooms (\<lambda>r. if r_id r \<in> set us then with_stored_acl p r else r) s"
  using assms
proof (induction us arbitrary: s)
  case Nil
  then show ?case by (simp add: map_rooms_id)
next
  case (Cons u us)
  let ?g = "\<lambda>r. if r_id r = u then with_stored_acl p r else r"
  have "map r_id (map ?g rs) = map r_id rs" for rs by (induction rs) auto
  moreover have "rooms (data (map_rooms ?g s)) = map ?g (rooms (data s))" by (simp add: map_rooms_def)
  ultimately have "distinct (map r_id (rooms (data (map_rooms ?g s))))"
    using Cons.prems(2) by (simp only:)
  then have "fold (hydrate_room p) us (map_rooms ?g s) =
      map_rooms (\<lambda>r. if r_id (?g r) \<in> set us then with_stored_acl p (?g r) else ?g r) s"
    using Cons.IH [of "map_rooms ?g s"] Cons.prems(1) by (simp add: map_rooms_comp)
  moreover have "(\<lambda>r. if r_id (?g r) \<in> set us then with_stored_acl p (?g r) else ?g r) =
      (\<lambda>r. if r_id r \<in> set (u # us) then with_stored_acl p r else r)"
    using Cons.prems(1) by (auto simp: fun_eq_iff)
  ultimately show ?case by (simp only: fold_simps hydrate_room_eq [OF Cons.prems(2)])
qed

lemma hydrate_room_acls_eq:
  assumes "distinct (map r_id (rooms (data s)))"
  shows "hydrate_room_acls p s = map_rooms (with_stored_acl p) s"
proof -
  have "hydrate_room_acls p s = fold (hydrate_room p) (map r_id (rooms (data s))) s"
    unfolding hydrate_room_acls_def get_rooms_def hydrate_room_def [abs_def] ..
  also have "\<dots> = map_rooms (\<lambda>r. if r_id r \<in> set (map r_id (rooms (data s))) then with_stored_acl p r else r) s"
    by (rule hydrate_fold [OF assms assms])
  also have "\<dots> = map_rooms (with_stored_acl p) s"
    by (auto simp: map_rooms_def)
  finally show ?thesis .
qed

lemma load_persisted_rooms_eq:
  assumes "tree_ok (p_rooms p)" and "rooms (data s) = [new_room ROOT_ROOM_UUID ''Root'' ROOT_ROOM_UUID None]"
  shows "load_persisted_rooms p s = s\<lparr>data := (data s)\<lparr>rooms := map (with_stored_acl p)
    (new_room ROOT_ROOM_UUID ''Root'' ROOT_ROOM_UUID None #
     map (\<lambda>(u, r). room_of_persisted u r) (filter (\<lambda>(u, _). u \<noteq> ROOT_ROOM_UUID) (p_rooms p)))\<rparr>\<rparr>"
proof -
  let ?l = "filter (\<lambda>(u, _). u \<noteq> ROOT_ROOM_UUID) (p_rooms p)"
  let ?s = "s\<lparr>data := (data s)\<lparr>rooms := rooms (data s) @ map (\<lambda>(u, r). room_of_persisted u r) ?l\<rparr>\<rparr>"
  have "room_ids s = {ROOT_ROOM_UUID}" using assms(2) by (simp add: room_ids_def new_room_def)
  then have l: "fold load_room (p_rooms p) s = ?s"
    by (intro load_rooms_fold) (auto simp: tree_ok_distinct [OF assms(1)])
  have m: "map r_id (map (\<lambda>(u, r). room_of_persisted u r) ?l) = map fst ?l" by (auto simp: comp_def split_beta)
  have "distinct (map fst ?l)"
    using tree_ok_distinct [OF assms(1)] by (simp add: distinct_map_filter)
  moreover have "rooms (data ?s) = new_room ROOT_ROOM_UUID ''Root'' ROOT_ROOM_UUID None #
      map (\<lambda>(u, r). room_of_persisted u r) ?l"
    by (simp add: assms(2))
  moreover have "ROOT_ROOM_UUID \<notin> set (map fst ?l)" by auto
  ultimately have "distinct (map r_id (rooms (data ?s)))"
    by (simp only: list.map m distinct.simps) (simp add: new_room_def)
  from hydrate_room_acls_eq [OF this] show ?thesis
    by (simp add: load_persisted_rooms_def get_all_rooms_def l map_rooms_def assms(2))
qed

text \<open>C30: A restart brings the rooms back. From a well-formed database the loaded server has the
  root room and exactly the stored rooms, each with its stored name, parent, description and
  access list, and nobody in them.\<close>

theorem load_persisted_rooms_spec:
  assumes "tree_ok (p_rooms p)"
  shows "find_room (get_rooms (load_persisted_rooms p (with_cert_and_welcome der welcome))) u =
      map_option (with_stored_acl p)
        (if u = ROOT_ROOM_UUID then Some (new_room ROOT_ROOM_UUID ''Root'' ROOT_ROOM_UUID None)
         else map_option (room_of_persisted u) (get_room p u)) \<and>
    memberships (data (load_persisted_rooms p (with_cert_and_welcome der welcome))) = []"
proof -
  let ?root = "new_room ROOT_ROOM_UUID ''Root'' ROOT_ROOM_UUID None"
  have r: "rooms (data (with_cert_and_welcome der welcome)) = [?root]"
    by (simp add: with_cert_and_welcome_def state_data_new_def)
  have root: "r_id ?root = ROOT_ROOM_UUID" by (simp add: new_room_def)
  have map: "find_room (map (with_stored_acl p) rs) v = map_option (with_stored_acl p) (find_room rs v)" for rs v
    by (induction rs) (auto simp: find_room_def)
  have stored: "find_room (map (\<lambda>(u, r). room_of_persisted u r) (filter (\<lambda>(u, _). u \<noteq> ROOT_ROOM_UUID) l)) u =
      (if u = ROOT_ROOM_UUID then None else map_option (room_of_persisted u) (map_of l u))" for l
    by (induction l) (auto simp: find_room_def)
  have "rooms (data (load_persisted_rooms p (with_cert_and_welcome der welcome))) = map (with_stored_acl p)
    (?root # map (\<lambda>(u, r). room_of_persisted u r) (filter (\<lambda>(u, _). u \<noteq> ROOT_ROOM_UUID) (p_rooms p)))"
    and "memberships (data (load_persisted_rooms p (with_cert_and_welcome der welcome))) = []"
    unfolding load_persisted_rooms_eq [OF assms r] by (simp_all add: with_cert_and_welcome_def state_data_new_def)
  moreover have "find_room (?root # rs) u = (if u = ROOT_ROOM_UUID then Some ?root else find_room rs u)" for rs
    by (simp add: find_room_def root)
  ultimately show ?thesis
    unfolding get_rooms_def by (simp only: map stored) (simp add: get_room_def)
qed

theorem load_persisted_rooms_spec_witness:
  "map_option r_parent (find_room (get_rooms (load_persisted_rooms sample_persist (with_cert_and_welcome [] None))) 6) = Some 5"
proof -
  have t: "tree_ok (p_rooms sample_persist)" by code_simp
  have g: "map_option r_parent (map_option (with_stored_acl sample_persist)
      (if 6 = ROOT_ROOM_UUID then Some (new_room ROOT_ROOM_UUID ''Root'' ROOT_ROOM_UUID None)
       else map_option (room_of_persisted 6) (get_room sample_persist 6))) = Some 5"
    by code_simp
  show ?thesis using load_persisted_rooms_spec [OF t, of "[]" None 6] g by simp
qed

section \<open>The read loop\<close>

text \<open>Reading a length delimiter consumes at least one byte.\<close>

definition delimiter_consumes :: "delimiter \<Rightarrow> bool" where
  "delimiter_consumes d \<longleftrightarrow>
     (\<forall>src n rest. decode_length_delimiter d src = Some (n, rest) \<longrightarrow> length rest < length src)"

lemma try_decode_frame_shrinks:
  assumes "delimiter_consumes d" and "try_decode_frame d buf = (Some f, buf')"
  shows "length buf' < length buf"
  using assms unfolding try_decode_frame_def delimiter_consumes_def
  by (fastforce split: option.splits prod.splits if_splits)

lemma drain_frames_total:
  assumes "delimiter_consumes d"
  shows "length buf \<le> fuel \<Longrightarrow> \<exists>r. drain_frames fuel d process buf w = Some r"
proof (induction fuel arbitrary: buf w)
  case 0
  then have "fst (try_decode_frame d buf) = None"
    using try_decode_frame_shrinks [OF assms, of buf] by (cases "try_decode_frame d buf") fastforce
  then show ?case by (cases "try_decode_frame d buf") (simp add: drain_frames.simps)
next
  case (Suc fuel)
  obtain f buf' where t: "try_decode_frame d buf = (f, buf')" by force
  show ?case
  proof (cases f)
    case None
    with t show ?thesis by (simp add: drain_frames.simps)
  next
    case (Some x)
    with t try_decode_frame_shrinks [OF assms] Suc.prems have "length buf' \<le> fuel" by fastforce
    from Suc.IH [OF this] Some t show ?thesis by (subst drain_frames.simps) simp
  qed
qed

lemma drain_frames_concat:
  assumes "delimiter_laws d" and "try_decode_frame d rest = (None, rest)"
  shows "list_all (\<lambda>f. length f < 2 ^ 64) fs \<Longrightarrow> length fs \<le> fuel \<Longrightarrow>
    drain_frames fuel d process (concat (map (encode_frame_raw d) fs) @ rest) w = Some (rest, fold process fs w)"
proof (induction fs arbitrary: fuel w)
  case Nil
  then show ?case using assms(2) by (subst drain_frames.simps) simp
next
  case (Cons f fs)
  then obtain n where n: "fuel = Suc n" by (cases fuel) auto
  have "try_decode_frame d (encode_frame_raw d f @ concat (map (encode_frame_raw d) fs) @ rest) =
      (Some f, concat (map (encode_frame_raw d) fs) @ rest)"
    using Cons.prems(1) by (intro try_decode_frame_encode [OF assms(1)]) simp
  with Cons n show ?case by (subst drain_frames.simps) simp
qed

lemma frames_fit:
  assumes "delimiter_laws d" and "delimiter_consumes d" and "list_all (\<lambda>f. length f < 2 ^ 64) fs"
  shows "length fs \<le> length (concat (map (encode_frame_raw d) fs))"
  using assms(3)
proof (induction fs)
  case (Cons f fs)
  have "decode_length_delimiter d (encode_length_delimiter d (length f) @ []) = Some (length f, [])"
    using assms(1) Cons.prems by (simp add: delimiter_laws_def del: append_Nil2)
  then have "0 < length (encode_length_delimiter d (length f))"
    using assms(2) by (fastforce simp: delimiter_consumes_def)
  then have "1 \<le> length (encode_frame_raw d f)"
    unfolding encode_frame_raw_def length_append by linarith
  with Cons show ?case by simp
qed simp

text \<open>The read loop always comes back, and loses nothing. Every chunk read from a stream is
  answered, by the next buffer or by the end of the stream when the buffer exceeds the cap;
  when the buffer holds whole frames followed by a partial one, the frames are processed in
  order, each once, and the partial one is kept.\<close>

theorem read_chunk_spec:
  assumes "delimiter_laws d" and "delimiter_consumes d"
  shows "(\<exists>r. read_chunk d process buf chunk w = Some r) \<and>
    (length (buf @ chunk) > MAX_FRAME_LEN \<longrightarrow> (\<exists>err. read_chunk d process buf chunk w = Some (Inl err))) \<and>
    (\<forall>fs rest. buf @ chunk = concat (map (encode_frame_raw d) fs) @ rest \<and>
       length (buf @ chunk) \<le> MAX_FRAME_LEN \<and> list_all (\<lambda>f. length f < 2 ^ 64) fs \<and>
       try_decode_frame d rest = (None, rest) \<longrightarrow>
       read_chunk d process buf chunk w = Some (Inr (rest, fold process fs w)))"
proof (intro conjI allI impI)
  show "\<exists>r. read_chunk d process buf chunk w = Some r"
    using drain_frames_total [OF assms(2), of "buf @ chunk" "length (buf @ chunk)"]
    by (auto simp: read_chunk_def Let_def)
  show "\<exists>err. read_chunk d process buf chunk w = Some (Inl err)" if "length (buf @ chunk) > MAX_FRAME_LEN"
    using that by (simp add: read_chunk_def)
  fix fs rest
  assume a: "buf @ chunk = concat (map (encode_frame_raw d) fs) @ rest \<and>
       length (buf @ chunk) \<le> MAX_FRAME_LEN \<and> list_all (\<lambda>f. length f < 2 ^ 64) fs \<and>
       try_decode_frame d rest = (None, rest)"
  then have "length fs \<le> length (concat (map (encode_frame_raw d) fs) @ rest)"
    using frames_fit [OF assms] by fastforce
  with a drain_frames_concat [OF assms(1)]
  have "drain_frames (length (buf @ chunk)) d process (buf @ chunk) w = Some (rest, fold process fs w)"
    by (metis (no_types, lifting))
  moreover have "\<not> length (buf @ chunk) > MAX_FRAME_LEN" using a by linarith
  ultimately show "read_chunk d process buf chunk w = Some (Inr (rest, fold process fs w))"
    unfolding read_chunk_def Let_def by (simp only: if_False option.map)
qed

lemma varint_consumes: "delimiter_consumes varint_delimiter"
proof -
  have "varint_decode src = Some (n, rest) \<Longrightarrow> length rest < length src" for src n rest
    by (induction src arbitrary: n) (fastforce split: if_splits)+
  then show ?thesis by (auto simp: delimiter_consumes_def varint_delimiter_def)
qed

theorem read_chunk_spec_witness:
  "read_chunk varint_delimiter (\<lambda>f. emit [DatagramSent 0 f]) []
     (concat (map (encode_frame_raw varint_delimiter) [[1], [2, 3]]) @ []) sample_world =
   Some (Inr ([], fold (\<lambda>f. emit [DatagramSent 0 f]) [[1], [2, 3]] sample_world))"
proof -
  have "length (concat (map (encode_frame_raw varint_delimiter) [[1], [2, 3]]) @ []) \<le> MAX_FRAME_LEN"
    by (simp add: encode_frame_raw_def varint_delimiter_def varint.simps MAX_FRAME_LEN_def)
  moreover have "try_decode_frame varint_delimiter [] = (None, [])"
    by (simp add: try_decode_frame_def varint_delimiter_def)
  ultimately show ?thesis
    using read_chunk_spec [OF varint_delimiter_laws varint_consumes, of "\<lambda>f. emit [DatagramSent 0 f]" "[]"
        "concat (map (encode_frame_raw varint_delimiter) [[1], [2, 3]]) @ []" sample_world,
        THEN conjunct2, THEN conjunct2, rule_format, of "[[1], [2, 3]]" "[]"]
    by simp
qed

end
