(* ===== verification/Transitions.thy ===== *)
theory Transitions
  imports Server
begin

text \<open>
  The server as a transition system. Every handler changes the shared state only through a
  small set of primitive operations with their preconditions (\<open>state_op\<close>), and the database
  only through the primitive writes (\<open>persist_op\<close>). A primitive that raises a privilege needs a
  grant; \<open>evolves G\<close> is the refinement: a handler run is a sequence of primitives under the
  grants \<open>G\<close>, and \<open>grants\<close> are those of a message. Invariants are then proved once per primitive and hold
  in every reachable world (locale \<open>server_invariant\<close>).
\<close>

section \<open>Primitive operations\<close>

definition fresh_room :: "uuid \<Rightarrow> server_state \<Rightarrow> bool" where
  "fresh_room u s \<longleftrightarrow>
     u \<noteq> ROOT_ROOM_UUID \<and> (\<forall>r \<in> set (rooms (data s)). r_id r \<noteq> u \<and> r_parent r \<noteq> u)"

text \<open>
  What a step may grant: the authentication of a connection, superuser rights or the role of a
  controller. Every other operation of the state module leaves these three alone.
\<close>

datatype grant = Authenticates u64 | Elevates handle | Controls handle

inductive state_op :: "grant set \<Rightarrow> server_state \<Rightarrow> server_state \<Rightarrow> bool" for G where
  set_room: "room_exists s r \<Longrightarrow> state_op G s (set_user_room u r s)"
| drop_membership: "state_op G s (remove_user_membership u s)"
| set_status: "state_op G s (set_user_status u st s)"
| auto_mute: "state_op G s (update_handle h (server_muted_update (\<lambda>_. b)) s)"
| hand_mute: "state_op G s (update_handle h (manually_server_muted_update (\<lambda>_. b)) s)"
| claim_teardown: "state_op G s (update_handle h (torn_down_update (\<lambda>_. True)) s)"
| stream_state: "state_op G s (update_handle h (send_stream_update (\<lambda>_. st)) s)"
| elevate: "Elevates h \<in> G \<Longrightarrow> state_op G s (update_handle h (is_superuser_update (\<lambda>_. True)) s)"
| control: "Controls h \<in> G \<Longrightarrow> state_op G s (update_handle h (is_controller_update (\<lambda>_. True)) s)"
| authenticate: "Authenticates u \<in> G \<Longrightarrow> state_op G s (s\<lparr>conn_authenticated := (conn_authenticated s)(u := True)\<rparr>)"
| log_in: "Authenticates u \<in> G \<Longrightarrow> state_op G s (update_identity u f s)"
| regroup: "(\<And>i. i\<lparr>id_groups := id_groups (f i)\<rparr> = f i) \<Longrightarrow> state_op G s (update_identity u f s)"
| enrol: "state_op G s (update_identity u (\<lambda>_. identity_participant n v l gs) s)"
| challenge: "state_op G s ((set_pending_auth pending s)\<lparr>conn_public_key := (conn_public_key s)(u := k)\<rparr>)"
| answer: "state_op G s (snd (take_pending_auth u s))"
| open_session: "state_op G s (add_session u se s)"
| close_session: "state_op G s (remove_session u s)"
| rate: "state_op G s (snd (check_voice_rate now u n s))"
| drop_rate: "state_op G s (remove_voice_rate u s)"
| allocate: "state_op G s (snd (allocate_user_id s))"
| connect: "state_op G s (s\<lparr>identities := (identities s)(u := identity_empty),
    conn_authenticated := (conn_authenticated s)(u := False), conn_public_key := (conn_public_key s)(u := None)\<rparr>)"
| certificate: "state_op G s (set_server_cert_der der s)"
| add_participant: "m_binding m = Owned ow \<Longrightarrow> state_op G s (register_participant m s)"
| drop_member: "state_op G s (s\<lparr>members := dm_remove u (members s)\<rparr>)"
| add_handle: "state_op G s (s\<lparr>handles := (handles s)(next_handle s := client_handle_new u),
    next_handle := Suc (next_handle s)\<rparr>)"
| add_client: "h < next_handle s \<Longrightarrow> state_op G s (register_client h s)"
| edit_room: "(\<And>r. r_id (f r) = r_id r \<and> r_parent (f r) = r_parent r \<and>
      r_effective_permissions (f r) = r_effective_permissions r) \<Longrightarrow>
    state_op G s (snd (update_room u f s))"
| reparent: "p \<noteq> u \<Longrightarrow> \<not> meets_room (rooms (data s)) u (Some p) 0 \<Longrightarrow>
    state_op G s (snd (move_room u p s))"
| lift_child: "d \<noteq> ROOT_ROOM_UUID \<Longrightarrow> find_room (rooms (data s)) d = Some dr \<Longrightarrow>
    find_room (rooms (data s)) c = Some cr \<Longrightarrow> r_parent cr = d \<Longrightarrow>
    state_op G s (snd (move_room c (r_parent dr) s))"
| create: "room_exists s p \<Longrightarrow> fresh_room u s \<Longrightarrow>
    state_op G s (snd (create_room_with_parent_desc u n p desc s))"
| delete: "state_op G s (snd (delete_room d s))"

text \<open>The same steps by what they touch, for invariants of roster, rooms and memberships.\<close>

lemma state_op_shapes [consumes 1, case_names set_room drop_membership set_status flags aux add_participant
    drop_member add_handle add_client edit_room reparent lift_child create delete]:
  assumes "state_op G s s'"
  obtains r u where "s' = set_user_room u r s" "room_exists s r"
  | u where "s' = remove_user_membership u s"
  | u st where "s' = set_user_status u st s"
  | h f where "s' = update_handle h f s" "\<And>c. h_user_id (f c) = h_user_id c"
  | "members s' = members s" "data s' = data s" "handles s' = handles s" "next_handle s' = next_handle s"
  | m ow where "s' = register_participant m s" "m_binding m = Owned ow"
  | u where "s' = s\<lparr>members := dm_remove u (members s)\<rparr>"
  | u where "s' = s\<lparr>handles := (handles s)(next_handle s := client_handle_new u), next_handle := Suc (next_handle s)\<rparr>"
  | h where "s' = register_client h s" "h < next_handle s"
  | f u where "s' = snd (update_room u f s)"
      "\<And>r. r_id (f r) = r_id r \<and> r_parent (f r) = r_parent r \<and> r_effective_permissions (f r) = r_effective_permissions r"
  | p u where "s' = snd (move_room u p s)" "p \<noteq> u" "\<not> meets_room (rooms (data s)) u (Some p) 0"
  | d dr c cr where "s' = snd (move_room c (r_parent dr) s)" "d \<noteq> ROOT_ROOM_UUID" "find_room (rooms (data s)) d = Some dr"
      "find_room (rooms (data s)) c = Some cr" "r_parent cr = d"
  | p u n desc where "s' = snd (create_room_with_parent_desc u n p desc s)" "room_exists s p" "fresh_room u s"
  | d where "s' = snd (delete_room d s)"
  using assms
proof cases
  case (rate now u n)
  then show thesis by (intro that(5)) (simp_all add: check_voice_rate_def Let_def split_beta)
next
  case (close_session u)
  then show thesis by (intro that(5)) (simp_all add: remove_session_def split: option.splits)
next
  case (edit_room f u)
  then show thesis by (rule that(10))
qed ((rule that(1), assumption, assumption) | (rule that(2), assumption) | (rule that(3), assumption) |
    (rule that(4), assumption, simp (no_asm)) | (rule that(6), assumption, assumption) |
    (rule that(7), assumption) | (rule that(8), assumption) | (rule that(9), assumption, assumption) |
    (rule that(11), assumption, assumption, assumption) |
    (rule that(12), assumption, assumption, assumption, assumption, assumption) |
    (rule that(13), assumption, assumption, assumption) | (rule that(14), assumption) |
    (rule that(5); (hypsubst, simp (no_asm) add: update_identity_def set_pending_auth_def take_pending_auth_def
      add_session_def remove_voice_rate_def allocate_user_id_def set_server_cert_der_def)))+

text \<open>What a step did not grant, nobody gained.\<close>

lemma state_op_grants:
  assumes "state_op G s s'"
  shows "conn_authenticated s' u \<Longrightarrow> conn_authenticated s u \<or> Authenticates u \<in> G"
    and "is_superuser (handles s' k) \<Longrightarrow> is_superuser (handles s k) \<or> Elevates k \<in> G"
    and "is_controller (handles s' k) \<Longrightarrow> is_controller (handles s k) \<or> Controls k \<in> G"
  using assms
  by (cases; auto simp: set_user_room_def remove_user_membership_def set_user_status_def update_data_def
      update_handle_def update_identity_def set_pending_auth_def take_pending_auth_def add_session_def
      remove_session_def check_voice_rate_def Let_def split_beta remove_voice_rate_def allocate_user_id_def
      set_server_cert_der_def register_participant_def register_client_def update_room_def move_room_def
      create_room_with_parent_desc_def delete_room_def client_handle_new_def split: option.splits if_splits)+

lemma state_op_mono: "state_op G s s' \<Longrightarrow> G \<subseteq> H \<Longrightarrow> state_op H s s'"
  by (erule state_op.cases) (auto intro: state_op.intros)

lemma state_ops_mono: "(state_op G)\<^sup>*\<^sup>* s s' \<Longrightarrow> G \<subseteq> H \<Longrightarrow> (state_op H)\<^sup>*\<^sup>* s s'"
  by (erule rtranclp_mono [THEN predicate2D, rotated]) (auto intro: state_op_mono)

inductive persist_op :: "persistence \<Rightarrow> persistence \<Rightarrow> bool" where
  p_register: "persist_op p (snd (register_user k u p))"
| p_unregister: "persist_op p (snd (unregister_user k p))"
| p_known: "persist_op p (snd (add_known_key k p))"
| p_save_room: "persist_op p (snd (save_room v r p))"
| p_delete_room: "persist_op p (snd (persist_delete_room v p))"
| p_create_group: "persist_op p (snd (create_group n b p))"
| p_delete_group: "persist_op p (snd (delete_group n p))"
| p_join_group: "persist_op p (snd (add_user_to_group_with_expiry k g x p))"
| p_leave_group: "persist_op p (snd (remove_user_from_group k g p))"
| p_scrub_group: "persist_op p (remove_group_from_all_users g p)"
| p_set_acl: "persist_op p (snd (persist_set_room_acl v acl p))"
| p_delete_acl: "persist_op p (snd (delete_room_acl v p))"
| p_set_ban: "persist_op p (snd (set_ban k b p))"
| p_remove_ban: "persist_op p (snd (remove_ban k p))"

definition evolves :: "grant set \<Rightarrow> world \<Rightarrow> world \<Rightarrow> bool" where
  "evolves G w w' \<longleftrightarrow> (state_op G)\<^sup>*\<^sup>* (w_state w) (w_state w') \<and> persist_op\<^sup>*\<^sup>* (w_persist w) (w_persist w')"

lemma evolves_mono: "evolves G w w' \<Longrightarrow> G \<subseteq> H \<Longrightarrow> evolves H w w'"
  by (auto simp: evolves_def intro: state_ops_mono)

lemma evolves_grants:
  assumes "evolves G w w'"
  shows "conn_authenticated (w_state w') u \<Longrightarrow> conn_authenticated (w_state w) u \<or> Authenticates u \<in> G"
    and "is_superuser (handles (w_state w') k) \<Longrightarrow> is_superuser (handles (w_state w) k) \<or> Elevates k \<in> G"
    and "is_controller (handles (w_state w') k) \<Longrightarrow> is_controller (handles (w_state w) k) \<or> Controls k \<in> G"
proof -
  have "(state_op G)\<^sup>*\<^sup>* (w_state w) (w_state w')" using assms by (simp add: evolves_def)
  then have "(conn_authenticated (w_state w') u \<longrightarrow> conn_authenticated (w_state w) u \<or> Authenticates u \<in> G) \<and>
    (is_superuser (handles (w_state w') k) \<longrightarrow> is_superuser (handles (w_state w) k) \<or> Elevates k \<in> G) \<and>
    (is_controller (handles (w_state w') k) \<longrightarrow> is_controller (handles (w_state w) k) \<or> Controls k \<in> G)"
    by (induction rule: rtranclp_induct) (auto dest: state_op_grants)
  then show "conn_authenticated (w_state w') u \<Longrightarrow> conn_authenticated (w_state w) u \<or> Authenticates u \<in> G"
    and "is_superuser (handles (w_state w') k) \<Longrightarrow> is_superuser (handles (w_state w) k) \<or> Elevates k \<in> G"
    and "is_controller (handles (w_state w') k) \<Longrightarrow> is_controller (handles (w_state w) k) \<or> Controls k \<in> G"
    by blast+
qed

named_theorems evolves_intros \<open>a run followed by one more primitive\<close>

lemma evolves_refl [evolves_intros, simp]: "evolves G w w"
  by (simp add: evolves_def)

lemma evolves_trans [trans]: "evolves G w w' \<Longrightarrow> evolves G w' w'' \<Longrightarrow> evolves G w w''"
  by (auto simp: evolves_def)

lemma evolves_same:
  "evolves G w w' \<Longrightarrow> w_state w'' = w_state w' \<Longrightarrow> w_persist w'' = w_persist w' \<Longrightarrow> evolves G w w''"
  by (simp add: evolves_def)

lemma evolves_io [evolves_intros]:
  "evolves G w w' \<Longrightarrow> evolves G w (emit es w')"
  "evolves G w w' \<Longrightarrow> evolves G w (snd (send_frame h b m w'))"
  "evolves G w w' \<Longrightarrow> evolves G w (close_connection u c why w')"
  "evolves G w w' \<Longrightarrow> evolves G w (send_permission_denied h d w')"
  "evolves G w w' \<Longrightarrow> evolves G w (send_command_result h n s txt w')"
  "evolves G w w' \<Longrightarrow> evolves G w (broadcast_state_update e up w')"
  "evolves G w w' \<Longrightarrow> evolves G w (snd (send_server_state_to_client e h w'))"
  by (erule evolves_same, simp, simp)+

lemma evolves_on_state [evolves_intros]:
  "evolves G w w' \<Longrightarrow> state_op G (w_state w') (f (w_state w')) \<Longrightarrow> evolves G w (on_state f w')"
  by (auto simp: evolves_def)

lemma evolves_on_persist [evolves_intros]:
  "evolves G w w' \<Longrightarrow> persist_op (w_persist w') (f (w_persist w')) \<Longrightarrow> evolves G w (on_persist f w')"
  by (auto simp: evolves_def)

lemma evolves_set_state:
  "evolves G w w' \<Longrightarrow> (state_op G)\<^sup>*\<^sup>* (w_state w') s \<Longrightarrow> evolves G w (w'\<lparr>w_state := s\<rparr>)"
  by (auto simp: evolves_def)

lemma evolves_set_persist:
  "evolves G w w' \<Longrightarrow> persist_op\<^sup>*\<^sup>* (w_persist w') p \<Longrightarrow> evolves G w (w'\<lparr>w_persist := p\<rparr>)"
  by (auto simp: evolves_def)

lemma evolves_fold:
  "(\<And>x v. x \<in> set xs \<Longrightarrow> evolves G v (f x v)) \<Longrightarrow> evolves G w w' \<Longrightarrow> evolves G w (fold f xs w')"
proof (induction xs arbitrary: w')
  case (Cons x xs)
  have "evolves G w (f x w')" using Cons.prems by (auto intro: evolves_trans)
  with Cons show ?case by simp
qed simp

lemma state_ops2: "state_op G s t \<Longrightarrow> state_op G t u \<Longrightarrow> (state_op G)\<^sup>*\<^sup>* s u"
  by (meson r_into_rtranclp rtranclp.rtrancl_into_rtrancl)

section \<open>Roster and moderation\<close>

lemma drop_member_op: "state_op G s (snd (remove_client u s))"
  by (simp add: remove_client_def state_op.drop_member)

lemmas simple_ops = drop_member_op state_op.close_session state_op.drop_rate state_op.drop_membership

lemma evolves_cleanup_participant: "evolves G w (cleanup_participant e u w)"
proof -
  have "(state_op G)\<^sup>*\<^sup>* (w_state w) (remove_user_membership u (snd (remove_client u (w_state w))))"
    by (rule state_ops2) (rule simple_ops)+
  then show ?thesis
    by (cases "remove_client u (w_state w)")
      (auto simp: cleanup_participant_def intro!: evolves_io evolves_set_state split: bool.splits)
qed

lemma evolves_cleanup_client: "evolves G w (cleanup_client e h w)"
proof -
  define uid where "uid = handle_uid (w_state w) h"
  define w1 where "w1 = (if is_controller (handles (w_state w) h)
    then fold (cleanup_participant e) (members_by_owner (w_state w) (Connection uid)) w else w)"
  have w1: "evolves G w w1"
    by (simp add: w1_def evolves_fold evolves_cleanup_participant)
  let ?t = "remove_user_membership uid (snd (remove_client_by_handle h (w_state w1)))"
  have "(state_op G)\<^sup>*\<^sup>* (w_state w1) ?t"
    unfolding remove_client_by_handle_def by (rule state_ops2) (rule simple_ops)+
  also have "(state_op G)\<^sup>*\<^sup>* ?t (remove_voice_rate uid (remove_session uid ?t))"
    by (rule state_ops2) (rule simple_ops)+
  finally have "evolves G w (w1\<lparr>w_state := remove_voice_rate uid (remove_session uid ?t)\<rparr>)"
    by (rule evolves_set_state [OF w1])
  then show ?thesis
    unfolding cleanup_client_def Let_def split_beta uid_def [symmetric] w1_def [symmetric]
    by (cases "fst (remove_client_by_handle h (w_state w1))") (auto intro: evolves_io)
qed

text \<open>Plugins act through the primitives and grant nothing.\<close>

definition plugin_respects :: "'e plugin \<Rightarrow> bool" where
  "plugin_respects pl \<longleftrightarrow>
     (\<forall>c a h w. evolves {} w (snd (pl_on_command pl c a h w))) \<and>
     (\<forall>ev h w. evolves {} w (snd (pl_on_message pl ev h w))) \<and>
     (\<forall>u r t w. evolves {} w (pl_on_chat_accepted pl u r t w)) \<and>
     (\<forall>h w. evolves {} w (pl_on_disconnect pl h w))"

lemma plugin_evolves:
  assumes "list_all plugin_respects plugins" and "pl \<in> set plugins"
  shows "evolves G w (snd (pl_on_command pl c a h w))" "evolves G w (snd (pl_on_message pl ev h w))"
    "evolves G w (pl_on_chat_accepted pl u r t w)" "evolves G w (pl_on_disconnect pl h w)"
  using assms by (simp_all add: plugin_respects_def list_all_iff evolves_mono [OF _ empty_subsetI])

lemma evolves_plugin_disconnects:
  assumes "list_all plugin_respects plugins" and "evolves G w w'"
  shows "evolves G w (fold (\<lambda>pl. pl_on_disconnect pl h) plugins w')"
  using assms by (intro evolves_fold) (auto intro: plugin_evolves)

lemma evolves_evict_session:
  assumes "list_all plugin_respects plugins"
  shows "evolves G w (evict_session e plugins n new_id old_id w)"
proof -
  have "evolves G w (cleanup_client e h (fold (\<lambda>pl. pl_on_disconnect pl h) plugins
    (close_connection u c r (snd (send_frame h b m
      (w\<lparr>w_state := update_handle h (torn_down_update (\<lambda>_. True)) (w_state w)\<rparr>))))))"
    for h u c r b m
    by (rule evolves_trans [OF _ evolves_cleanup_client])
      (intro evolves_plugin_disconnects assms evolves_io evolves_set_state evolves_refl
        r_into_rtranclp state_op.claim_teardown)
  then show ?thesis
    by (auto simp: evict_session_def begin_teardown_def Let_def split: option.splits)
qed

lemma evolves_evict_superseded:
  "list_all plugin_respects plugins \<Longrightarrow> evolves G w (evict_superseded_sessions e plugins k n u w)"
  by (simp add: evict_superseded_sessions_def evolves_fold evolves_evict_session)

lemma room_exists_root [simp]: "room_exists s ROOT_ROOM_UUID"
  by (simp add: room_exists_def)

lemma evolves_create_participant: "evolves G w (snd (create_participant e ow n l v gs present w))"
proof -
  let ?u = "fst (allocate_user_id (w_state w))"
  let ?s1 = "snd (allocate_user_id (w_state w))"
  let ?s2 = "update_identity ?u (\<lambda>_. identity_participant n v l gs) ?s1"
  let ?s3 = "register_participant \<lparr>m_user_id = ?u, m_binding = Owned ow\<rparr> ?s2"
  have "(state_op G)\<^sup>*\<^sup>* (w_state w) ?s2"
    by (rule state_ops2 [OF state_op.allocate state_op.enrol])
  moreover have "state_op G ?s2 ?s3" by (rule state_op.add_participant) simp
  ultimately have 3: "(state_op G)\<^sup>*\<^sup>* (w_state w) ?s3" by simp
  moreover have "state_op G ?s3 (set_user_room ?u ROOT_ROOM_UUID ?s3)"
    by (rule state_op.set_room) simp
  ultimately have 4: "(state_op G)\<^sup>*\<^sup>* (w_state w) (set_user_room ?u ROOT_ROOM_UUID ?s3)" by simp
  from 3 4 show ?thesis
    by (simp add: create_participant_def Let_def split_beta evolves_io evolves_set_state)
qed

lemma evolves_remove_participant: "evolves G w (remove_participant e u w)"
proof -
  have "(state_op G)\<^sup>*\<^sup>* (w_state w) (remove_user_membership u (snd (remove_client u (w_state w))))"
    by (rule state_ops2) (rule simple_ops)+
  then have "evolves G w (on_state (\<lambda>s. remove_user_membership u (snd (remove_client u s))) w)"
    by (simp add: evolves_def)
  then show ?thesis by (simp add: remove_participant_def Let_def evolves_io)
qed

lemma evolves_move_participant: "evolves G w (snd (move_participant_to_room e u r w))"
proof (cases "list_ex (\<lambda>x. r_id x = r) (get_rooms (w_state w))")
  case True
  then have "evolves G w (on_state (set_user_room u r) w)"
    by (intro evolves_on_state evolves_refl state_op.set_room)
      (simp add: room_exists_def get_rooms_def)
  then show ?thesis
    by (auto simp: move_participant_to_room_def Let_def evolves_io split: option.splits)
qed (simp add: move_participant_to_room_def)

lemma evolves_set_participant_status: "evolves G w (set_participant_status_core e u m d w)"
  unfolding set_participant_status_core_def
  by (intro evolves_io evolves_on_state evolves_refl state_op.set_status)

lemma evolves_kick: "evolves G w (snd (apply_kick e t r a w))"
  by (auto simp: apply_kick_def Let_def split: option.splits
      intro!: evolves_trans [OF _ evolves_cleanup_client] evolves_io)

lemma add_user_to_group_op: "persist_op p (snd (add_user_to_group k g p))"
  by (simp add: add_user_to_group_def persist_op.p_join_group)

lemma evolves_ban: "evolves G w (snd (apply_ban e t d r a w))"
  by (auto simp: apply_ban_def Let_def split: option.splits
      intro!: evolves_trans [OF _ evolves_cleanup_client] evolves_io evolves_on_state
        evolves_on_persist state_op.regroup persist_op.intros add_user_to_group_op)

lemma evolves_register: "evolves G w (snd (apply_register_user t w))"
  using persist_op.p_register
  by (fastforce simp: apply_register_user_def Let_def split: option.splits prod.splits sum.splits
      intro!: evolves_set_persist dest: arg_cong [where f = snd])

lemma evolves_unregister: "evolves G w (snd (apply_unregister_user t w))"
  using persist_op.p_unregister
  by (fastforce simp: apply_unregister_user_def Let_def split: option.splits prod.splits sum.splits
      intro!: evolves_set_persist dest: arg_cong [where f = snd])

section \<open>Rooms\<close>

lemma evolves_create_room:
  assumes "fresh_room (new_v4 e) (w_state w)"
  shows "evolves G w (snd (apply_create_room e n p d w))"
proof -
  have "evolves G w (broadcast_state_update e up (on_persist (\<lambda>q. snd (save_room (new_v4 e) pr q))
     (w\<lparr>w_state := snd (create_room_with_parent_desc (new_v4 e) n q d (w_state w))\<rparr>)))"
    if "room_exists (w_state w) q" for up pr q
    by (intro evolves_io evolves_on_persist evolves_set_state evolves_refl r_into_rtranclp
        state_op.create persist_op.intros that assms)
  then show ?thesis
    by (auto simp: apply_create_room_def Let_def split_beta create_room_with_parent_desc_def
        split: option.splits)
qed

lemma evolves_reevaluate: "evolves G w (reevaluate_member_mute e m r w)"
  by (auto simp: reevaluate_member_mute_def Let_def split: option.splits
      intro!: evolves_io evolves_on_state state_op.auto_mute)

lemma evolves_reparent_child:
  assumes "d \<noteq> ROOT_ROOM_UUID" and "find_room (rooms (data (w_state w))) d = Some dr"
    and "find_room (rooms (data (w_state w))) c = Some cr" and "r_parent cr = d"
  shows "evolves G w (reparent_child e (r_parent dr) c w)"
proof -
  have "state_op G (w_state w) (snd (move_room c (r_parent dr) (w_state w)))"
    by (rule state_op.lift_child [OF assms])
  then show ?thesis
    by (auto simp: reparent_child_def Let_def split: option.splits
        intro!: evolves_io evolves_on_persist evolves_on_state persist_op.intros)
qed

lemma evolves_reparent_children:
  assumes "d \<noteq> ROOT_ROOM_UUID" and "distinct cs"
    and "map_option r_parent (find_room (rooms (data (w_state w))) d) = Some np"
    and "\<forall>c \<in> set cs. map_option r_parent (find_room (rooms (data (w_state w))) c) = Some d"
  shows "evolves G w (fold (reparent_child e np) cs w)"
  using assms(2-)
proof (induction cs arbitrary: w)
  case (Cons c cs)
  from Cons.prems obtain dr cr where "find_room (rooms (data (w_state w))) d = Some dr" "r_parent dr = np"
    and "find_room (rooms (data (w_state w))) c = Some cr" "r_parent cr = d" by auto
  then have one: "evolves G w (reparent_child e np c w)"
    using evolves_reparent_child [OF assms(1)] by blast
  have "evolves G (reparent_child e np c w) (fold (reparent_child e np) cs (reparent_child e np c w))"
    using Cons.prems
    by (intro Cons.IH)
      (auto simp: rooms_reparent_child find_room_update_first option.map_comp comp_def)
  with one show ?case by (auto intro: evolves_trans)
qed simp

lemma evolves_delete_room:
  assumes "distinct (map r_id (rooms (data (w_state w))))"
  shows "evolves G w (snd (apply_delete_room e d w))"
proof (cases "d = ROOT_ROOM_UUID")
  case False
  let ?rs = "rooms (data (w_state w))"
  define w1 where "w1 = (case room_parent_and_children (w_state w) d of
    Some (np, cs) \<Rightarrow> fold (reparent_child e np) cs w | None \<Rightarrow> w)"
  have "evolves G w w1"
  proof (cases "find_room ?rs d")
    case None
    then show ?thesis by (simp add: w1_def room_parent_and_children_def)
  next
    case (Some dr)
    let ?cs = "map r_id (filter (\<lambda>c. r_parent c = d) ?rs)"
    have "\<forall>c \<in> set ?cs. map_option r_parent (find_room ?rs c) = Some d"
      using find_room_distinct [OF assms] by auto
    moreover have "distinct ?cs" using assms by (simp add: distinct_map_filter)
    ultimately have "evolves G w (fold (reparent_child e (r_parent dr)) ?cs w)"
      using Some False by (intro evolves_reparent_children) auto
    with Some show ?thesis by (simp add: w1_def room_parent_and_children_def)
  qed
  moreover have "(state_op G)\<^sup>*\<^sup>* (w_state w1) (snd (delete_room d (w_state w1)))"
    by (rule r_into_rtranclp) (rule state_op.delete)
  ultimately have "evolves G w (w1\<lparr>w_state := snd (delete_room d (w_state w1))\<rparr>)"
    by (rule evolves_set_state)
  moreover have "persist_op\<^sup>*\<^sup>* p (snd (delete_room_acl d (snd (persist_delete_room d p))))" for p
    by (meson persist_op.p_delete_room persist_op.p_delete_acl r_into_rtranclp rtranclp_trans)
  ultimately have "evolves G w (on_persist (\<lambda>p. snd (delete_room_acl d (snd (persist_delete_room d p))))
      (w1\<lparr>w_state := snd (delete_room d (w_state w1))\<rparr>))"
    by (simp add: evolves_def) (meson rtranclp_trans)
  with \<open>evolves G w (w1\<lparr>w_state := snd (delete_room d (w_state w1))\<rparr>)\<close> False show ?thesis
    unfolding apply_delete_room_def Let_def w1_def [symmetric]
    by (cases "delete_room d (w_state w1)")
      (auto intro!: evolves_fold evolves_reevaluate evolves_io split: bool.splits)
qed (simp add: apply_delete_room_def)

section \<open>Groups, memberships, access lists\<close>

lemma evolves_group_changed [evolves_intros]: "evolves G w w' \<Longrightarrow> evolves G w (group_changed e n b bi d w')"
  by (simp add: group_changed_def evolves_io)

lemma persist_modify_group: "persist_op\<^sup>*\<^sup>* p (snd (modify_group n b p))"
  using persist_op.p_create_group [of p n b]
  by (auto simp: modify_group_def snd_p_bind split: sum.splits)

lemma persist_toggle: "persist_op\<^sup>*\<^sup>* p (snd (toggle_group_permission n b en p))"
  using persist_op.p_create_group [of p n]
  by (auto simp: toggle_group_permission_def snd_p_bind p_write_def Let_def
      split: sum.splits option.splits)

lemma persist_update_last_room: "persist_op\<^sup>*\<^sup>* p (snd (update_user_last_room k r p))"
  using persist_op.p_register by (auto simp: update_user_last_room_def split: option.splits)

lemma persist_active_loop: "persist_op\<^sup>*\<^sup>* p (snd (active_groups_loop k now gs acc p))"
proof (induction k now gs acc p rule: active_groups_loop.induct)
  case (2 k now g gs acc p)
  then show ?case
    by (auto intro: converse_rtranclp_into_rtranclp [where r = persist_op, OF persist_op.p_leave_group])
qed simp

lemma persist_active_user_groups: "persist_op\<^sup>*\<^sup>* p (snd (active_user_groups k now p))"
  by (simp add: active_user_groups_def persist_active_loop)

lemma persist_fold: "(\<And>x q. persist_op\<^sup>*\<^sup>* q (f x q)) \<Longrightarrow> persist_op\<^sup>*\<^sup>* p (fold f xs p)"
  by (induction xs arbitrary: p) (auto intro: rtranclp_trans)

lemma persist_sweep_memberships:
  "persist_op\<^sup>*\<^sup>* p (snd (persist_sweep_expired_memberships now p))"
  unfolding persist_sweep_expired_memberships_def Let_def snd_conv
  by (rule persist_fold) (auto intro: r_into_rtranclp persist_op.p_leave_group)

lemma persist_sweep_bans: "persist_op\<^sup>*\<^sup>* p (snd (sweep_expired_bans now p))"
  unfolding sweep_expired_bans_def Let_def snd_conv
  by (rule persist_fold)
    (meson persist_op.p_leave_group persist_op.p_remove_ban r_into_rtranclp rtranclp_trans)

lemma evolves_create_group: "evolves G w (snd (apply_create_group e n b w))"
  using persist_op.p_create_group [of "w_persist w" n b]
  by (cases "create_group n b (w_persist w)")
    (auto simp: apply_create_group_def intro!: evolves_intros evolves_set_persist split: sum.splits)

lemma evolves_scrub_client: "evolves G w (scrub_client_group e n h w)"
  by (auto simp: scrub_client_group_def Let_def
      intro!: evolves_io evolves_on_state state_op.regroup)

lemma evolves_delete_group: "evolves G w (snd (apply_delete_group e n w))"
proof -
  let ?w2 = "on_persist (remove_group_from_all_users n)
    (fold (scrub_client_group e n) (snapshot_clients (w_state w)) w)"
  have "evolves G w ?w2"
    by (intro evolves_on_persist evolves_fold evolves_scrub_client evolves_refl persist_op.intros)
  then show ?thesis
    using persist_op.p_delete_group [of "w_persist ?w2" n]
    by (cases "delete_group n (w_persist ?w2)")
      (auto simp: apply_delete_group_def Let_def intro!: evolves_intros evolves_set_persist
        split: sum.splits)
qed

lemma evolves_modify_group: "evolves G w (snd (apply_modify_group e n b w))"
  using persist_modify_group [of "w_persist w" n b]
  by (cases "modify_group n b (w_persist w)")
    (auto simp: apply_modify_group_def intro!: evolves_intros evolves_set_persist
      split: sum.splits bool.splits)

lemma evolves_toggle_group: "evolves G w (snd (apply_toggle_group_permission e n b en w))"
  using persist_toggle [of "w_persist w" n b en]
  by (cases "toggle_group_permission n b en (w_persist w)")
    (auto simp: apply_toggle_group_permission_def intro!: evolves_intros evolves_set_persist
      split: sum.splits option.splits)

lemma evolves_mirror: "evolves G w (mirror_group_change e k g add x h w)"
  by (auto simp: mirror_group_change_def Let_def
      intro!: evolves_io evolves_on_state state_op.regroup)

lemma evolves_set_group_by_key: "evolves G w (snd (apply_set_user_group_by_key e k g add x w))"
proof -
  let ?r = "if add then add_user_to_group_with_expiry k g x (w_persist w)
    else remove_user_from_group k g (w_persist w)"
  have "persist_op\<^sup>*\<^sup>* (w_persist w) (snd ?r)"
    by (auto intro!: r_into_rtranclp persist_op.intros)
  then show ?thesis
    by (cases ?r)
      (auto simp: apply_set_user_group_by_key_def Let_def
        intro!: evolves_fold evolves_mirror evolves_set_persist split: sum.splits)
qed

lemma evolves_set_user_group: "evolves G w (snd (apply_set_user_group e t g add x w))"
  by (simp add: apply_set_user_group_def evolves_set_group_by_key split: option.splits)

lemma evolves_add_controller: "evolves G w (snd (apply_add_controller e k w))"
proof -
  define r where "r = (if get_group (w_persist w) ''controllers'' = None
    then apply_create_group e ''controllers'' MANAGE_PARTICIPANTS w else (Inr [], w))"
  have 1: "evolves G w (snd r)" by (simp add: r_def evolves_create_group)
  then have "evolves G w (snd (apply_set_user_group_by_key e k ''controllers'' True 0 (snd r)))"
    by (rule evolves_trans) (rule evolves_set_group_by_key)
  with 1 show ?thesis
    unfolding apply_add_controller_def r_def [symmetric]
    by (auto simp: split_beta split: sum.splits)
qed

lemma evolves_sweep_memberships: "evolves G w (snd (sweep_expired_memberships e w))"
proof -
  let ?p = "snd (persist_sweep_expired_memberships (now_secs e) (w_persist w))"
  have "evolves G w (w\<lparr>w_persist := ?p\<rparr>)"
    by (intro evolves_set_persist evolves_refl persist_sweep_memberships)
  then show ?thesis
    unfolding sweep_expired_memberships_def Let_def split_beta snd_conv
    by (intro evolves_fold evolves_mirror evolves_refl)
qed

lemma evolves_set_acl: "evolves G w (snd (apply_set_room_acl e u i es v w))"
proof -
  let ?s = "snd (set_room_acl u i es (w_state w))"
  have "state_op G (w_state w) ?s"
    unfolding set_room_acl_def by (rule state_op.edit_room) simp
  then have "evolves G w (w\<lparr>w_state := ?s\<rparr>)"
    by (intro evolves_set_state evolves_refl r_into_rtranclp)
  moreover have "evolves G w (w\<lparr>w_state := ?s, w_persist := snd (persist_set_room_acl u acl (w_persist w))\<rparr>)"
    for acl
    using evolves_set_persist [OF calculation, of "snd (persist_set_room_acl u acl (w_persist w))"]
      persist_op.p_set_acl by auto
  ultimately show ?thesis
    by (auto simp: apply_set_room_acl_def split_beta Let_def
        intro!: evolves_fold evolves_reevaluate evolves_io split: sum.splits bool.splits)
qed

section \<open>Handlers\<close>

lemma evolves_gated: "(\<And>v. evolves G v (act v)) \<Longrightarrow> evolves G w (gated e h r q act w)"
  by (auto simp: gated_def intro!: evolves_io split: sum.splits)

lemma evolves_gated_at: "evolves G w (act w) \<Longrightarrow> evolves G w (gated e h r q act w)"
  by (auto simp: gated_def intro!: evolves_io split: sum.splits)

lemma evolves_reply [evolves_intros]: "evolves G w (snd r) \<Longrightarrow> evolves G w (reply_result h c r)"
  by (auto simp: reply_result_def split_beta intro!: evolves_io split: sum.splits)

lemma evolves_finish: "evolves G w w' \<Longrightarrow> evolves G w (finish_stream h w')"
  by (auto simp: finish_stream_def intro!: evolves_io evolves_on_state state_op.stream_state)

lemma evolves_auth_failed: "evolves G w w' \<Longrightarrow> evolves G w (send_auth_failed h m w')"
  by (simp add: send_auth_failed_def Let_def evolves_io evolves_finish)

lemma evolves_client_hello: "evolves G w (snd (handle_client_hello e ch h w))"
  by (auto simp: handle_client_hello_def Let_def
      intro!: evolves_auth_failed evolves_io evolves_on_state state_op.challenge)

lemma persist_lift_ban: "persist_op\<^sup>*\<^sup>* p (lift_expired_ban now k p)"
  unfolding lift_expired_ban_def
  by (auto split: option.splits)
    (meson persist_op.p_leave_group persist_op.p_remove_ban r_into_rtranclp rtranclp_trans)

lemma persist_ban_check: "persist_op\<^sup>*\<^sup>* p (snd (ban_check now k p))"
  unfolding ban_check_def Let_def split_beta snd_conv
  by (rule rtranclp_trans [OF persist_lift_ban persist_active_user_groups])

lemma initial_room_exists: "room_exists s (initial_room p s k)"
  by (auto simp: initial_room_def room_exists_def get_rooms_def split: option.splits)

lemma evolves_complete_authentication:
  assumes "list_all plugin_respects plugins" and "Authenticates (handle_uid (w_state w) h) \<in> G"
  shows "evolves G w (snd (complete_authentication e plugins pend sess h w))"
proof -
  define uid where "uid = handle_uid (w_state w) h"
  define w2 where "w2 = on_persist (\<lambda>p. snd (add_known_key (pa_public_key pend) p))
    (on_state (\<lambda>s. s\<lparr>conn_authenticated := (conn_authenticated s)(uid := True)\<rparr>) w)"
  define act where "act = active_user_groups (pa_public_key pend) (now_secs e) (w_persist w2)"
  have 2: "evolves G w w2"
    by (auto simp: w2_def intro!: evolves_on_persist evolves_on_state state_op.authenticate persist_op.intros assms(2) simp: uid_def)
  have "persist_op\<^sup>*\<^sup>* (w_persist w2) (snd act)" by (simp add: act_def persist_active_user_groups)
  then have "evolves G w (on_state (update_identity uid f) (w2\<lparr>w_persist := snd act\<rparr>))" for f
    using assms(2) by (intro evolves_on_state state_op.log_in evolves_set_persist 2) (simp_all add: uid_def)
  then have 5: "evolves G w (on_state (add_session uid sess) (evict_superseded_sessions e plugins k n uid
      (on_state (update_identity uid f) (w2\<lparr>w_persist := snd act\<rparr>))))" for f k n
    by (intro evolves_on_state state_op.open_session)
      (rule evolves_trans [OF _ evolves_evict_superseded [OF assms(1)]])
  have 6: "evolves G w (on_state f v) \<Longrightarrow>
      evolves G w (on_state (set_user_room uid (initial_room (w_persist v) (f (w_state v)) k)) (on_state f v))"
    for f v k
    by (rule evolves_on_state) (simp_all add: state_op.set_room initial_room_exists)
  show ?thesis
    unfolding complete_authentication_def admit_user_def Let_def split_beta uid_def [symmetric]
      w2_def [symmetric] act_def [symmetric]
    by (auto intro!: evolves_io 5 6 split: sum.splits option.splits)
qed

lemma evolves_authenticate:
  assumes "list_all plugin_respects plugins" and "Authenticates (handle_uid (w_state w) h) \<in> G"
  shows "evolves G w (snd (handle_authenticate e plugins a h w))"
proof -
  define w1 where "w1 = w\<lparr>w_state := snd (take_pending_auth (handle_uid (w_state w) h) (w_state w))\<rparr>"
  have 1: "evolves G w w1"
    by (auto simp: w1_def intro!: evolves_set_state r_into_rtranclp state_op.answer)
  have 2: "evolves G w (w1\<lparr>w_persist := snd (ban_check now k (w_persist w1))\<rparr>)" for now k
    by (intro evolves_set_persist 1 persist_ban_check)
  have 3: "evolves G w (snd (complete_authentication e plugins pend sess h v))"
    if "evolves G w v" "handle_uid (w_state v) h = handle_uid (w_state w) h" for pend sess v
    using that assms by (intro evolves_trans [OF that(1) evolves_complete_authentication]) simp_all
  have 4: "handle_uid (w_state w1) h = handle_uid (w_state w) h"
    by (simp add: w1_def take_pending_auth_def handle_uid_def)
  show ?thesis
    unfolding handle_authenticate_def Let_def split_beta w1_def [symmetric]
    by (auto simp: 4 intro!: evolves_auth_failed 1 2 3 split: option.splits sum.splits)
qed

lemma evolves_chat_accepted:
  assumes "list_all plugin_respects plugins" and "evolves G w w'"
  shows "evolves G w (notify_chat_accepted plugins u r t w')"
  unfolding notify_chat_accepted_def using assms
  by (intro evolves_fold) (auto intro: plugin_evolves)

lemma evolves_broadcast_chat:
  "evolves G w (snd (broadcast_chat_in_room e u r q w))" "evolves G w (snd (broadcast_chat_as e u q w))"
  by (auto intro: evolves_same [OF evolves_refl])

lemma evolves_chat_message:
  assumes "list_all plugin_respects plugins"
  shows "evolves G w (handle_chat_message e plugins m h w)"
  using evolves_chat_accepted [OF assms] evolves_broadcast_chat(2)
  by (auto simp: handle_chat_message_def Let_def split_beta split: option.splits)

lemma evolves_participant_chat:
  assumes "list_all plugin_respects plugins"
  shows "evolves G w (handle_participant_chat e plugins c h w)"
  using evolves_chat_accepted [OF assms] evolves_broadcast_chat
  by (auto simp: handle_participant_chat_def Let_def split_beta evolves_io
      split: option.splits prod.splits)

lemma evolves_direct_message: "evolves G w (handle_direct_message e d h w)"
  by (rule evolves_same [OF evolves_refl]) simp_all

lemma evolves_join_body: "evolves G w (join_room_body e r h w)"
proof (cases "find_room (get_rooms (w_state w)) r")
  case (Some rm)
  let ?u = "handle_uid (w_state w) h"
  have "room_exists (w_state w) r"
    using Some by (auto simp: room_exists_def find_room_def get_rooms_def list_ex_iff dest: find_Some_set)
  then have 2: "evolves G w (on_state (update_handle h (server_muted_update (\<lambda>_. b))) (on_state (set_user_room ?u r) w))"
    for b by (intro evolves_on_state state_op.set_room state_op.auto_mute evolves_refl) simp_all
  have 4: "evolves G w (on_persist (\<lambda>p. snd (update_user_last_room k (Some r) p)) v)" if "evolves G w v" for k v
    using that persist_update_last_room [of "w_persist v"]
    by (auto simp: evolves_def intro: rtranclp_trans)
  show ?thesis
    using Some by (auto simp: join_room_body_def Let_def intro!: evolves_io 2 4 split: option.splits)
qed (simp add: join_room_body_def evolves_io)

lemma evolves_persist_room_change: "evolves G w w' \<Longrightarrow> evolves G w (persist_room_change u f w')"
  by (auto simp: persist_room_change_def intro!: evolves_on_persist persist_op.intros
      split: option.splits)

lemma edit_room_steps:
  "evolves G w (w\<lparr>w_state := snd (rename_room u n (w_state w))\<rparr>)"
  "evolves G w (w\<lparr>w_state := snd (set_room_description u n (w_state w))\<rparr>)"
  unfolding rename_room_def set_room_description_def
  by (intro evolves_set_state evolves_refl r_into_rtranclp state_op.edit_room, simp)+

lemma evolves_rename_room: "evolves G w (handle_rename_room e r n h w)"
  unfolding handle_rename_room_def Let_def
  by (rule evolves_gated)
    (auto simp: split_beta intro!: evolves_io evolves_persist_room_change edit_room_steps
      split: prod.splits bool.splits)

lemma evolves_room_description: "evolves G w (handle_set_room_description e r n h w)"
  unfolding handle_set_room_description_def Let_def
  by (rule evolves_gated)
    (auto simp: split_beta intro!: evolves_io evolves_persist_room_change edit_room_steps
      split: prod.splits bool.splits)

lemma evolves_move_room: "evolves G w (handle_move_room e r n h w)"
proof -
  have "evolves G v (v\<lparr>w_state := snd (move_room u p (w_state v))\<rparr>)"
    if "p \<noteq> u" "\<not> meets_room (get_rooms (w_state v)) u (Some p) 0" for v u p
    using that
    by (intro evolves_set_state evolves_refl r_into_rtranclp state_op.reparent)
      (simp_all add: get_rooms_def)
  then show ?thesis
    unfolding handle_move_room_def Let_def
    by (intro evolves_gated)
      (auto simp: split_beta intro!: evolves_io evolves_persist_room_change split: bool.splits)
qed

lemma evolves_create_room_handler:
  assumes "fresh_room (new_v4 e) (w_state w)"
  shows "evolves G w (handle_create_room e c h w)"
  using evolves_create_room [OF assms]
  by (auto simp: handle_create_room_def Let_def split_beta
      intro!: evolves_gated_at evolves_io split: sum.splits)

lemma evolves_delete_room_handler:
  assumes "distinct (map r_id (rooms (data (w_state w))))"
  shows "evolves G w (handle_delete_room e r h w)"
  using evolves_delete_room [OF assms]
  by (auto simp: handle_delete_room_def Let_def split_beta
      intro!: evolves_gated_at evolves_io split: sum.splits)

lemma evolves_user_status: "evolves G w (handle_set_user_status e m d h w)"
  by (auto simp: handle_set_user_status_def Let_def
      intro!: evolves_io evolves_on_state state_op.set_status)

lemma evolves_server_mute: "evolves G w (handle_set_server_mute e t m h w)"
  unfolding handle_set_server_mute_def Let_def
  by (rule evolves_gated)
    (auto intro!: evolves_io evolves_on_state state_op.auto_mute state_op.hand_mute split: option.splits)

lemma evolves_elevate:
  assumes "\<And>hash. check_permission (debug_flags e) (w_state w) h 0 SUDO (w_persist w) = Inr () \<Longrightarrow>
    get_sudo_password (w_persist w) = Some hash \<Longrightarrow> bcrypt_verify e p hash \<Longrightarrow> Elevates h \<in> G"
  shows "evolves G w (handle_elevate e p h w)"
  using assms unfolding handle_elevate_def gated_def Let_def
  by (auto intro!: evolves_io evolves_on_state state_op.elevate split: option.splits sum.splits)

lemma evolves_registered_users: "evolves G w (handle_request_registered_users e h w)"
proof -
  have "persist_op\<^sup>*\<^sup>* p (snd (fold (registered_user_info_of e ks) es (is, p)))" for ks es "is" p
  proof (induction es arbitrary: "is" p)
    case (Cons x es)
    obtain k u where x: "x = (k, u)" by (cases x)
    obtain gs q where a: "active_user_groups k (now_secs e) p = (gs, q)" by force
    then have "persist_op\<^sup>*\<^sup>* p q" using persist_active_user_groups [of p k "now_secs e"] by simp
    then show ?case using Cons.IH by (auto simp: registered_user_info_of_def x a intro: rtranclp_trans)
  qed simp
  then show ?thesis
    unfolding handle_request_registered_users_def Let_def split_beta
    by (intro evolves_gated evolves_io evolves_set_persist evolves_refl) blast
qed

lemma evolves_controller_hello:
  assumes "check_permission (debug_flags e) (w_state w) h 0 MANAGE_PARTICIPANTS (w_persist w) = Inr () \<Longrightarrow>
    Controls h \<in> G"
  shows "evolves G w (handle_controller_hello e n h w)"
proof -
  have "(state_op G)\<^sup>*\<^sup>* s (remove_user_membership u (update_handle h (is_controller_update (\<lambda>_. True)) s))"
    if "Controls h \<in> G" for s u
    by (rule state_ops2 [OF state_op.control state_op.drop_membership]) (fact that)
  then have "evolves G w (on_state (\<lambda>s. remove_user_membership u
      (update_handle h (is_controller_update (\<lambda>_. True)) s)) w)" if "Controls h \<in> G" for u
    using that by (simp add: evolves_def)
  with assms show ?thesis
    by (auto simp: handle_controller_hello_def Let_def intro!: evolves_io split: sum.splits)
qed

lemma evolves_participant_handlers:
  "evolves G w (handle_register_participant e n l h w)"
  "evolves G w (handle_unregister_participant e u h w)"
  "evolves G w (handle_move_participant e u r h w)"
  "evolves G w (handle_set_participant_status e u m d h w)"
  using evolves_move_participant [of G w e u "requested_room r"]
  by (auto simp: handle_register_participant_def handle_unregister_participant_def
      handle_move_participant_def handle_set_participant_status_def Let_def split_beta
      intro!: evolves_io evolves_create_participant evolves_remove_participant
        evolves_set_participant_status split: prod.splits bool.splits)

lemma evolves_admin_handlers:
  "evolves G w (handle_register_user e ru h w)"
  "evolves G w (handle_unregister_user e ru h w)"
  "evolves G w (handle_kick_user e t why h w)"
  "evolves G w (handle_ban_user e t why d h w)"
  "evolves G w (handle_create_group e g b h w)"
  "evolves G w (handle_delete_group e g h w)"
  "evolves G w (handle_modify_group e g b h w)"
  "evolves G w (handle_toggle_group_permission e g b en h w)"
  "evolves G w (handle_set_user_group e t g en d h w)"
  "evolves G w (handle_set_registered_user_group e key g en d h w)"
  "evolves G w (handle_set_room_acl e req h w)"
  unfolding handle_register_user_def handle_unregister_user_def handle_kick_user_def
    handle_ban_user_def handle_create_group_def handle_delete_group_def handle_modify_group_def
    handle_toggle_group_permission_def handle_set_user_group_def
    handle_set_registered_user_group_def handle_set_room_acl_def Let_def
  by (auto intro!: evolves_gated evolves_intros evolves_register evolves_unregister evolves_kick
      evolves_ban evolves_create_group evolves_delete_group evolves_modify_group
      evolves_toggle_group evolves_set_user_group evolves_set_group_by_key evolves_set_acl)

section \<open>Dispatch and steps\<close>

definition distinct_rooms :: "server_state \<Rightarrow> bool" where
  "distinct_rooms s \<longleftrightarrow> distinct (map r_id (rooms (data s)))"

text \<open>
  What a message grants: authentication of its own connection for an answer to the challenge;
  superuser rights of its own handle for a correct password; controller mode of its own handle.
\<close>

definition grants :: "env \<Rightarrow> payload option \<Rightarrow> handle \<Rightarrow> world \<Rightarrow> grant set" where
  "grants e pl h w = (case pl of
     Some (Authenticate _) \<Rightarrow> {Authenticates (handle_uid (w_state w) h)}
   | Some (Elevate pw) \<Rightarrow>
       (if sender_authenticated h w \<and> check_permission (debug_flags e) (w_state w) h 0 SUDO (w_persist w) = Inr () \<and>
          (\<exists>hash. get_sudo_password (w_persist w) = Some hash \<and> bcrypt_verify e pw hash)
        then {Elevates h} else {})
   | Some (ControllerHello _) \<Rightarrow>
       (if sender_authenticated h w \<and>
          check_permission (debug_flags e) (w_state w) h 0 MANAGE_PARTICIPANTS (w_persist w) = Inr ()
        then {Controls h} else {})
   | _ \<Rightarrow> {})"

lemma grants_iff:
  "Authenticates u \<in> grants e pl h w \<longleftrightarrow> u = handle_uid (w_state w) h \<and> (\<exists>a. pl = Some (Authenticate a))"
  "Elevates k \<in> grants e pl h w \<longleftrightarrow> k = h \<and> sender_authenticated h w \<and>
     check_permission (debug_flags e) (w_state w) h 0 SUDO (w_persist w) = Inr () \<and>
     (\<exists>pw hash. pl = Some (Elevate pw) \<and> get_sudo_password (w_persist w) = Some hash \<and> bcrypt_verify e pw hash)"
  "Controls k \<in> grants e pl h w \<longleftrightarrow> k = h \<and> sender_authenticated h w \<and> (\<exists>n. pl = Some (ControllerHello n)) \<and>
     check_permission (debug_flags e) (w_state w) h 0 MANAGE_PARTICIPANTS (w_persist w) = Inr ()"
  by (auto simp: grants_def split: option.splits payload.splits)

lemma evolves_dispatch:
  assumes "list_all plugin_respects plugins" and "fresh_room (new_v4 e) (w_state w)"
    and "distinct_rooms (w_state w)"
  shows "evolves (grants e (Some pl) h w) w (snd (dispatch_payload e plugins pl h w))"
proof (cases pl)
  case (ControllerHello n)
  have "sender_authenticated h w \<Longrightarrow> evolves (grants e (Some pl) h w) w (handle_controller_hello e n h w)"
    by (rule evolves_controller_hello) (simp add: grants_def ControllerHello)
  then show ?thesis by (simp add: ControllerHello dispatch_payload_def authed_def)
next
  case (Elevate pw)
  have "sender_authenticated h w \<Longrightarrow> evolves (grants e (Some pl) h w) w (handle_elevate e pw h w)"
    by (rule evolves_elevate) (simp add: grants_def Elevate)
  then show ?thesis by (simp add: Elevate dispatch_payload_def authed_def)
qed (use assms in \<open>simp_all add: dispatch_payload_def authed_def as_controller_def handle_join_room_def Let_def
      handle_disconnect_def handle_request_state_sync_def distinct_rooms_def grants_def
      evolves_client_hello evolves_authenticate evolves_chat_message evolves_direct_message
      evolves_gated evolves_join_body evolves_finish evolves_create_room_handler
      evolves_delete_room_handler evolves_rename_room evolves_move_room evolves_room_description
      evolves_io evolves_user_status evolves_participant_handlers
      evolves_participant_chat evolves_server_mute evolves_registered_users
      evolves_admin_handlers\<close>)

lemma evolves_try_plugins:
  "list_all plugin_respects plugins \<Longrightarrow> evolves G w (snd (try_plugins plugins ev h w))"
proof (induction plugins ev h w rule: try_plugins.induct)
  case (2 pl pls ev h w)
  have 1: "evolves G w (snd (pl_on_message pl ev h w))"
    by (rule plugin_evolves [OF 2(2)]) simp
  show ?case
  proof (cases "pl_on_message pl ev h w")
    case (Pair r w')
    show ?thesis
    proof (cases r)
      case (Inr b)
      with Pair 1 2(1) [OF Pair [symmetric] Inr] 2(2) show ?thesis
        by (cases b) (auto intro: evolves_trans)
    qed (use 1 Pair in simp)
  qed
qed simp

text \<open>The identifiers the server draws at random are new when they are drawn.\<close>

definition draws_fresh :: "env \<Rightarrow> envelope plugin list \<Rightarrow> envelope \<Rightarrow> handle \<Rightarrow> world \<Rightarrow> bool" where
  "draws_fresh e plugins ev h w \<longleftrightarrow>
     fresh_room (new_v4 e) (w_state (snd (try_plugins plugins ev h w)))"

lemma distinct_rooms_op: "distinct_rooms s \<Longrightarrow> state_op G s s' \<Longrightarrow> distinct_rooms s'"
  by (erule state_op_shapes)
    (auto simp: distinct_rooms_def set_user_room_def remove_user_membership_def set_user_status_def
      update_data_def update_handle_def register_participant_def register_client_def
      move_room_def map_update_first create_room_with_parent_desc_def new_room_def fresh_room_def
      delete_room_def Let_def distinct_map_filter)

lemma distinct_rooms_evolves: "evolves G w w' \<Longrightarrow> distinct_rooms (w_state w) \<Longrightarrow> distinct_rooms (w_state w')"
proof -
  have "(state_op G)\<^sup>*\<^sup>* s s' \<Longrightarrow> distinct_rooms s \<Longrightarrow> distinct_rooms s'" for s s'
    by (induction rule: rtranclp_induct) (auto intro: distinct_rooms_op)
  then show "evolves G w w' \<Longrightarrow> distinct_rooms (w_state w) \<Longrightarrow> distinct_rooms (w_state w')"
    by (auto simp: evolves_def)
qed

lemma evolves_envelope:
  assumes pls: "list_all plugin_respects plugins" and fresh: "draws_fresh e plugins ev h w"
    and dist: "distinct_rooms (w_state w)" and w1: "w1 = snd (try_plugins plugins ev h w)"
  shows "evolves (grants e (env_payload ev) h w1) w (snd (handle_envelope e plugins ev h w))"
proof -
  obtain r where t: "try_plugins plugins ev h w = (r, w1)" using w1 by (cases "try_plugins plugins ev h w") auto
  have e1: "evolves G w w1" for G using evolves_try_plugins [OF pls, of G w ev h] by (simp add: t)
  then have "evolves (grants e (Some pl) h w1) w (snd (dispatch_payload e plugins pl h w1))" for pl
    using evolves_dispatch [OF pls, of e w1 pl h] fresh distinct_rooms_evolves [OF e1 dist]
    by (auto simp: draws_fresh_def t intro: evolves_trans)
  then show ?thesis
    using e1 t plugin_evolves(1) [OF pls]
    by (auto simp: handle_envelope_def slash_target_def
        split: option.splits sum.splits bool.splits payload.splits if_splits dest: find_Some_set)
qed

text \<open>
  The administrative operations the web control plane calls directly, and the operations
  plugins have on the participants they own.
\<close>

inductive admin_step :: "world \<Rightarrow> world \<Rightarrow> bool" where
  "admin_step w (snd (apply_kick e t r a w))"
| "admin_step w (snd (apply_ban e t d r a w))"
| "admin_step w (snd (apply_register_user t w))"
| "admin_step w (snd (apply_unregister_user t w))"
| "fresh_room (new_v4 e) (w_state w) \<Longrightarrow> admin_step w (snd (apply_create_room e n p desc w))"
| "admin_step w (snd (apply_delete_room e u w))"
| "admin_step w (snd (apply_create_group e g b w))"
| "admin_step w (snd (apply_delete_group e g w))"
| "admin_step w (snd (apply_modify_group e g b w))"
| "admin_step w (snd (apply_toggle_group_permission e g b en w))"
| "admin_step w (snd (apply_set_user_group e t g en d w))"
| "admin_step w (snd (apply_set_user_group_by_key e k g en d w))"
| "admin_step w (snd (apply_add_controller e k w))"
| "admin_step w (snd (apply_set_room_acl e u i es v w))"
| "admin_step w (ctx_post_chat_as e t u line w)"
| "admin_step w (snd (ctx_register_participant e g l gs w))"
| "admin_step w (remove_participant e t w)"
| "admin_step w (snd (move_participant_to_room e t u w))"
| "admin_step w (set_participant_status_core e t en i w)"
| "admin_step w (relay_voice_as e t bs sq ts en w)"

lemma evolves_admin_step:
  assumes "admin_step w w'" and "distinct_rooms (w_state w)"
  shows "evolves G w w'"
  using assms(1)
proof cases
  case (5 e n p desc)
  then show ?thesis by (simp add: evolves_create_room)
next
  case (6 e u)
  then show ?thesis using assms(2) by (simp add: evolves_delete_room distinct_rooms_def)
next
  case (15 e t u line)
  then show ?thesis by (simp add: ctx_post_chat_as_def evolves_broadcast_chat)
next
  case (16 e g l gs)
  have "evolves G w (w\<lparr>w_state := snd (allocate_user_id (w_state w))\<rparr>)"
    by (intro evolves_set_state evolves_refl r_into_rtranclp state_op.allocate)
  then show ?thesis
    using evolves_create_participant
    by (auto simp: 16 ctx_register_participant_def split_beta intro: evolves_trans)
next
  case (20 e t bs sq ts en)
  then show ?thesis
    by (auto simp: relay_voice_as_def Let_def split_beta intro!: evolves_io split: option.splits)
qed (simp_all add: evolves_kick evolves_ban evolves_register evolves_unregister evolves_create_group
    evolves_delete_group evolves_modify_group evolves_toggle_group evolves_set_user_group
    evolves_set_group_by_key evolves_add_controller evolves_set_acl evolves_remove_participant
    evolves_move_participant evolves_set_participant_status)

inductive server_step :: "envelope plugin list \<Rightarrow> world \<Rightarrow> world \<Rightarrow> bool" for plugins where
  accept: "server_step plugins w (snd (open_connection w))"
| primary: "server_step plugins w (snd (open_primary_stream u w))"
| secondary: "server_step plugins w (snd (new_handle u w))"
| deliver: "draws_fresh e plugins ev h w \<Longrightarrow> server_step plugins w (snd (handle_envelope e plugins ev h w))"
| voice: "server_step plugins w (handle_datagram e u d n w)"
| sweep: "server_step plugins w (sweep_tick e w)"
| hangup: "server_step plugins w (teardown e plugins h w)"
| certificate: "server_step plugins w (reload_certificate der w)"
| admin: "admin_step w w' \<Longrightarrow> server_step plugins w w'"
| network: "server_step plugins w (on_state (update_handle h (send_stream_update (\<lambda>_. st))) w)"
| storage: "server_step plugins w (w\<lparr>w_persist := (w_persist w)\<lparr>p_fault := f\<rparr>\<rparr>)"

definition reachable :: "envelope plugin list \<Rightarrow> world \<Rightarrow> world \<Rightarrow> bool" where
  "reachable plugins w0 w \<longleftrightarrow> (server_step plugins)\<^sup>*\<^sup>* w0 w"

lemma evolves_open_connection: "evolves G w (snd (open_connection w))"
  unfolding open_connection_def split_beta Let_def snd_conv
  by (intro evolves_set_state evolves_refl state_ops2 [OF state_op.allocate state_op.connect])

lemma evolves_new_handle: "evolves G w (snd (new_handle u w))"
  by (simp add: new_handle_def Let_def evolves_set_state state_op.add_handle r_into_rtranclp)

lemma evolves_open_primary: "evolves G w (snd (open_primary_stream u w))"
  unfolding open_primary_stream_def split_beta snd_conv
  by (intro evolves_on_state evolves_new_handle state_op.add_client)
    (simp add: new_handle_def Let_def)

lemma build_relay_state:
  "snd (build_relay_packet e u d n s) \<in> {s, snd (check_voice_rate (now_instant e) u n s)}"
  by (cases "check_voice_rate (now_instant e) u n s")
    (auto simp: build_relay_packet_def Let_def split_beta split: option.splits bool.splits)

lemma evolves_datagram: "evolves G w (handle_datagram e u d n w)"
proof -
  obtain r s where b: "build_relay_packet e u d n (w_state w) = (r, s)" by force
  then have "s = w_state w \<or> s = snd (check_voice_rate (now_instant e) u n (w_state w))"
    using build_relay_state [of e u d n "w_state w"] by auto
  then have "(state_op G)\<^sup>*\<^sup>* (w_state w) s" by (auto intro: state_op.rate)
  then show ?thesis
    by (auto simp: handle_datagram_def b intro!: evolves_io evolves_set_state split: option.splits)
qed

lemma evolves_sweep: "evolves G w (sweep_tick e w)"
proof -
  have "evolves G w (on_persist (\<lambda>p. snd (sweep_expired_bans (now_secs e) p)) w)"
    by (simp add: evolves_def persist_sweep_bans)
  then show ?thesis
    unfolding sweep_tick_def Let_def by (rule evolves_trans) (rule evolves_sweep_memberships)
qed

lemma evolves_teardown:
  assumes "list_all plugin_respects plugins"
  shows "evolves G w (teardown e plugins h w)"
proof -
  have "evolves G w (fold (\<lambda>pl. pl_on_disconnect pl h) plugins
      (w\<lparr>w_state := update_handle h (torn_down_update (\<lambda>_. True)) (w_state w)\<rparr>))"
    by (intro evolves_plugin_disconnects assms evolves_set_state evolves_refl r_into_rtranclp
        state_op.claim_teardown)
  then show ?thesis
    by (auto simp: teardown_def begin_teardown_def intro: evolves_trans [OF _ evolves_cleanup_client])
qed

lemma server_step_evolves:
  assumes "list_all plugin_respects plugins" and "distinct_rooms (w_state w)"
    and "server_step plugins w w'"
  shows "(\<exists>G. evolves G w w') \<or> (\<exists>f. w' = w\<lparr>w_persist := (w_persist w)\<lparr>p_fault := f\<rparr>\<rparr>)"
  using assms(3)
proof cases
  case (certificate der)
  then show ?thesis
    by (auto simp: reload_certificate_def split: option.splits
        intro!: exI evolves_on_state state_op.certificate)
next
  case (network h st)
  then show ?thesis by (auto intro!: exI evolves_on_state state_op.stream_state)
next
  case (storage f)
  then show ?thesis by blast
next
  case (deliver e ev h)
  then show ?thesis using evolves_envelope [OF assms(1) deliver(2) assms(2) refl] by blast
qed (simp_all add: evolves_open_connection evolves_open_primary evolves_new_handle
    evolves_datagram evolves_sweep evolves_teardown evolves_admin_step assms)

section \<open>Invariants of the server\<close>

locale server_invariant =
  fixes I :: "server_state \<Rightarrow> bool" and J :: "persistence \<Rightarrow> bool"
  assumes state_op_inv: "I s \<Longrightarrow> distinct_rooms s \<Longrightarrow> state_op G s s' \<Longrightarrow> I s'"
    and persist_op_inv: "J p \<Longrightarrow> persist_op p p' \<Longrightarrow> J p'"
    and fault_inv: "J p \<Longrightarrow> J (p\<lparr>p_fault := f\<rparr>)"
begin

lemma state_ops_inv: "(state_op G)\<^sup>*\<^sup>* s s' \<Longrightarrow> I s \<Longrightarrow> distinct_rooms s \<Longrightarrow> I s' \<and> distinct_rooms s'"
  by (induction rule: rtranclp_induct) (auto intro: state_op_inv distinct_rooms_op)

lemma persist_ops_inv: "persist_op\<^sup>*\<^sup>* p p' \<Longrightarrow> J p \<Longrightarrow> J p'"
  by (induction rule: rtranclp_induct) (auto intro: persist_op_inv)

lemma evolves_inv:
  "evolves G w w' \<Longrightarrow> I (w_state w) \<Longrightarrow> J (w_persist w) \<Longrightarrow> distinct_rooms (w_state w) \<Longrightarrow>
     I (w_state w') \<and> J (w_persist w') \<and> distinct_rooms (w_state w')"
  by (auto simp: evolves_def dest: state_ops_inv persist_ops_inv)

lemma step_inv:
  assumes "list_all plugin_respects plugins" and "server_step plugins w w'"
    and "I (w_state w)" "J (w_persist w)" "distinct_rooms (w_state w)"
  shows "I (w_state w') \<and> J (w_persist w') \<and> distinct_rooms (w_state w')"
  using server_step_evolves [OF assms(1) assms(5) assms(2)] assms(3-) evolves_inv
  by (auto intro: fault_inv)

lemma reachable_inv:
  assumes "list_all plugin_respects plugins" and "reachable plugins w0 w"
    and "I (w_state w0)" "J (w_persist w0)" "distinct_rooms (w_state w0)"
  shows "I (w_state w) \<and> J (w_persist w) \<and> distinct_rooms (w_state w)"
  using assms(2) unfolding reachable_def
proof (induction rule: rtranclp_induct)
  case base
  with assms show ?case by simp
next
  case (step v w)
  with step_inv [OF assms(1)] show ?case by blast
qed

end

end
