(* ===== verification/Invariants.thy ===== *)
theory Invariants
  imports Transitions
begin

text \<open>
  The invariants of the server, each an instance of \<open>server_invariant\<close>: the roster agrees
  with the client handles, every user is in at most one room and that room exists, and the
  parent links of the rooms below the root never close a cycle. With them, the database stays
  well formed.
\<close>

section \<open>Roster\<close>

definition roster_ok :: "server_state \<Rightarrow> bool" where
  "roster_ok s \<longleftrightarrow> dm_ok (members s) \<and>
     (\<forall>k m. dm_get (members s) k = Some m \<longrightarrow>
        m_user_id m = k \<and>
        (\<forall>h. m_binding m = Client h \<longrightarrow> h < next_handle s \<and> h_user_id (handles s h) = k))"

lemma roster_ok_insert:
  assumes "roster_ok s" and "m_user_id m = k"
    and "\<And>h. m_binding m = Client h \<Longrightarrow> h < next_handle s \<and> h_user_id (handles s h) = k"
  shows "roster_ok (s\<lparr>members := dm_insert k m (members s)\<rparr>)"
  using assms by (auto simp: roster_ok_def kv_simps dm_ok_insert)

lemma roster_ok_op: "roster_ok s \<Longrightarrow> state_op G s s' \<Longrightarrow> roster_ok s'"
proof (erule state_op_shapes, goal_cases)
  case 8
  then show ?case by (fastforce simp: roster_ok_def)
next
  case (9 h)
  then show ?case
    unfolding register_client_def by (auto intro!: roster_ok_insert simp: handle_uid_def)
qed (auto simp: roster_ok_def set_user_room_def remove_user_membership_def set_user_status_def
    update_data_def update_handle_def register_participant_def move_room_def update_room_def
    create_room_with_parent_desc_def delete_room_def Let_def dm_ok_remove dm_ok_insert kv_simps
    split: if_splits)

section \<open>Rooms and membership\<close>

definition membership_ok :: "server_state \<Rightarrow> bool" where
  "membership_ok s \<longleftrightarrow>
     ROOT_ROOM_UUID \<in> room_ids s \<and>
     distinct (map fst (memberships (data s))) \<and>
     distinct (map fst (user_statuses (data s))) \<and>
     snd ` set (memberships (data s)) \<subseteq> room_ids s"

lemma room_ids_update_room:
  assumes "\<And>r. r_id (f r) = r_id r"
  shows "room_ids (snd (update_room u f s)) = room_ids s"
proof -
  have "map r_id (update_first (\<lambda>r. r_id r = u) f (rooms (data s))) = map r_id (rooms (data s))"
    by (rule map_update_first) (simp add: assms)
  then show ?thesis unfolding room_ids_def rooms_update_room by (metis list.set_map)
qed

lemma data_update_room:
  "memberships (data (snd (update_room u f s))) = memberships (data s)"
  "user_statuses (data (snd (update_room u f s))) = user_statuses (data s)"
  by (simp_all add: update_room_def update_data_def)

lemma membership_ok_update_room:
  "membership_ok s \<Longrightarrow> (\<And>r. r_id (f r) = r_id r) \<Longrightarrow> membership_ok (snd (update_room u f s))"
  by (simp add: membership_ok_def room_ids_update_room data_update_room)

lemma room_exists_ids: "membership_ok s \<Longrightarrow> room_exists s r \<longleftrightarrow> r \<in> room_ids s"
  by (auto simp: room_exists_def room_ids_def membership_ok_def list_ex_iff)

lemma membership_ok_delete_room:
  assumes "membership_ok s"
  shows "membership_ok (snd (delete_room d s))"
proof (cases "d = ROOT_ROOM_UUID")
  case False
  let ?f = "\<lambda>(u, r). if r = d then (u, ROOT_ROOM_UUID) else (u, r)"
  have ids: "room_ids (snd (delete_room d s)) = room_ids s - {d}"
    using False by (auto simp: room_ids_def delete_room_def Let_def update_data_def)
  show ?thesis
  proof (cases "d \<in> room_ids s")
    case True
    then have "length (filter (\<lambda>r. r_id r \<noteq> d) (rooms (data s))) < length (rooms (data s))"
      by (auto simp: room_ids_def intro: length_filter_less)
    then have ms: "memberships (data (snd (delete_room d s))) = map ?f (memberships (data s))"
      and st: "user_statuses (data (snd (delete_room d s))) = user_statuses (data s)"
      using False by (simp_all add: delete_room_def Let_def update_data_def)
    have "map fst (map ?f (memberships (data s))) = map fst (memberships (data s))"
      by auto
    then have "distinct (map fst (map ?f (memberships (data s))))"
      using assms by (simp only: membership_ok_def)
    moreover have "snd ` set (map ?f (memberships (data s))) \<subseteq> room_ids s - {d}"
      using assms False by (auto simp: membership_ok_def split: if_splits)
    ultimately show ?thesis
      using assms False by (simp add: membership_ok_def ids ms st)
  next
    case False2: False
    then have "filter (\<lambda>r. r_id r \<noteq> d) (rooms (data s)) = rooms (data s)"
      by (auto simp: room_ids_def filter_id_conv)
    then show ?thesis
      using assms by (simp add: delete_room_def Let_def update_data_def membership_ok_def room_ids_def)
  qed
qed (simp add: delete_room_def assms)

lemma membership_ok_op: "membership_ok s \<Longrightarrow> state_op G s s' \<Longrightarrow> membership_ok s'"
proof (erule state_op_shapes, goal_cases)
  case (1 r u)
  then have "r \<in> room_ids s" by (simp add: room_exists_ids)
  with 1 show ?case
    by (auto simp: membership_ok_def set_user_room_def update_data_def room_ids_def
        distinct_map_filter image_iff)
next
  case (10 f u)
  then show ?case by (simp add: membership_ok_update_room)
next
  case (11 p u)
  then show ?case by (simp add: move_room_def membership_ok_update_room)
next
  case (12 d dr c cr)
  then show ?case by (simp add: move_room_def membership_ok_update_room)
next
  case (14 d)
  then show ?case by (simp add: membership_ok_delete_room)
qed (auto simp: membership_ok_def remove_user_membership_def set_user_status_def room_ids_def
    update_data_def update_handle_def register_participant_def register_client_def
    create_room_with_parent_desc_def Let_def distinct_map_filter image_iff)

section \<open>Walks up the room tree\<close>

text \<open>
  The upward walk from a room along parent links, as the permission check and the move handler
  take it: it stops at Root, whatever parent Root has, or at a room that does not exist. The list
  holds the rooms passed before that. In grounded rooms every walk stops; a cycle can only pass
  through Root, which the move handler lets become a child of one of its own descendants.
\<close>

inductive upward :: "room list \<Rightarrow> uuid \<Rightarrow> uuid list \<Rightarrow> bool" for rs where
  at_root: "upward rs ROOT_ROOM_UUID []"
| missing: "v \<noteq> ROOT_ROOM_UUID \<Longrightarrow> find_room rs v = None \<Longrightarrow> upward rs v []"
| up: "v \<noteq> ROOT_ROOM_UUID \<Longrightarrow> find_room rs v = Some r \<Longrightarrow> upward rs (r_parent r) xs \<Longrightarrow>
    upward rs v (v # xs)"

definition grounded_rooms :: "server_state \<Rightarrow> bool" where
  "grounded_rooms s \<longleftrightarrow> (\<forall>v. \<exists>xs. upward (rooms (data s)) v xs)"

lemma upward_unique: "upward rs v xs \<Longrightarrow> upward rs v ys \<Longrightarrow> xs = ys"
proof (induction arbitrary: ys rule: upward.induct)
  case (up v r xs)
  from up.prems up.hyps obtain zs where "ys = v # zs" "upward rs (r_parent r) zs"
    by (auto elim: upward.cases)
  with up.IH show ?case by simp
qed (auto elim: upward.cases)

lemma upward_suffix: "upward rs v xs \<Longrightarrow> u \<in> set xs \<Longrightarrow> \<exists>ys. upward rs u ys \<and> length ys \<le> length xs"
proof (induction rule: upward.induct)
  case (up v r xs)
  then show ?case by (force intro: upward.up)
qed simp_all

lemma upward_distinct: "upward rs v xs \<Longrightarrow> distinct xs"
proof (induction rule: upward.induct)
  case (up v r xs)
  have "v \<notin> set xs"
  proof
    assume "v \<in> set xs"
    with upward_suffix [OF up.hyps(3)] obtain ys where "upward rs v ys" "length ys \<le> length xs"
      by blast
    with upward_unique [OF upward.up [OF up.hyps(1-3)]] show False by fastforce
  qed
  with up.IH show ?case by simp
qed simp_all

lemma upward_subset: "upward rs v xs \<Longrightarrow> set xs \<subseteq> r_id ` set rs"
  by (induction rule: upward.induct) (auto simp: find_room_def dest!: find_Some_set)

lemma upward_length: "upward rs v xs \<Longrightarrow> length xs \<le> length rs"
proof -
  assume u: "upward rs v xs"
  have "length xs = card (set xs)" using upward_distinct [OF u] by (simp add: distinct_card)
  also have "\<dots> \<le> card (r_id ` set rs)" by (rule card_mono) (simp_all add: upward_subset [OF u])
  also have "\<dots> \<le> length rs"
    using card_image_le [of "set rs" r_id] card_length [of rs] by simp
  finally show ?thesis .
qed

text \<open>The cycle check of the move handler sees every room on the walk.\<close>

lemma meets_room_complete:
  "upward rs c xs \<Longrightarrow> u \<in> set xs \<Longrightarrow> k + length xs \<le> length rs \<Longrightarrow> meets_room rs u (Some c) k"
proof (induction arbitrary: k rule: upward.induct)
  case (up v r xs)
  show ?case
  proof (cases "v = u")
    case False
    with up.prems have "u \<in> set xs" by simp
    moreover from this have "r_parent r \<noteq> ROOT_ROOM_UUID" "xs \<noteq> []"
      using up.hyps(3) by (auto elim: upward.cases)
    ultimately show ?thesis
      using up.IH [of "Suc k"] up.prems False up.hyps(2)
      by (cases xs) (auto simp: parent_of_def)
  qed simp
qed simp_all

text \<open>It never sees Root, however: nothing stops Root from being moved below its own child.\<close>

lemma meets_room_root: "p \<noteq> ROOT_ROOM_UUID \<Longrightarrow> \<not> meets_room rs ROOT_ROOM_UUID (Some p) k"
proof (induction rs ROOT_ROOM_UUID "Some p" k arbitrary: p rule: meets_room.induct)
  case (2 rs c k)
  then show ?case by (cases "parent_of rs c") (auto simp: parent_of_def split: option.splits if_splits)
qed

lemma upward_cong:
  assumes "\<And>v. map_option r_parent (find_room rs' v) = map_option r_parent (find_room rs v)"
  shows "upward rs v xs \<Longrightarrow> upward rs' v xs"
proof (induction rule: upward.induct)
  case (missing v)
  with assms [of v] show ?case by (auto intro: upward.missing)
next
  case (up v r xs)
  from assms [of v] up.hyps(2) obtain r' where "find_room rs' v = Some r'" "r_parent r' = r_parent r"
    by auto
  with up show ?case by (metis upward.up)
qed (rule upward.at_root)

text \<open>Moving \<open>u\<close> below \<open>p\<close> is harmless when \<open>u\<close> is not on the walk from \<open>p\<close>.\<close>

lemma upward_avoid:
  assumes "\<And>v. v \<noteq> u \<Longrightarrow> find_room rs' v = find_room rs v"
    and "u = ROOT_ROOM_UUID \<or> find_room rs u \<noteq> None"
  shows "upward rs v xs \<Longrightarrow> u \<notin> set xs \<Longrightarrow> upward rs' v xs"
proof (induction rule: upward.induct)
  case (missing v)
  with assms show ?case by (cases "v = u") (auto intro: upward.missing)
next
  case (up v r xs)
  with assms(1) [of v] show ?case by (auto intro: upward.up)
qed (rule upward.at_root)

lemma upward_reparent:
  assumes find: "\<And>v. v \<noteq> u \<Longrightarrow> find_room rs' v = find_room rs v"
    and u: "find_room rs' u = Some r'" "r_parent r' = p" "find_room rs u \<noteq> None"
    and p: "upward rs p ps" "u = ROOT_ROOM_UUID \<or> u \<notin> set ps"
  shows "upward rs v xs \<Longrightarrow> \<exists>ys. upward rs' v ys"
proof (induction rule: upward.induct)
  case at_root
  then show ?case by (blast intro: upward.at_root)
next
  case (missing v)
  with u find [of v] show ?case by (cases "v = u") (auto intro: upward.missing)
next
  case (up v r xs)
  show ?case
  proof (cases "v = u")
    case True
    with up.hyps p have "upward rs' p ps" by (intro upward_avoid [OF find]) (auto simp: u)
    with True u up.hyps show ?thesis by (auto intro: upward.up)
  next
    case False
    with up find [of v] show ?thesis by (auto intro: upward.up)
  qed
qed

lemma grounded_move:
  assumes ground: "grounded_rooms s" and p: "upward (rooms (data s)) p ps"
    and u: "u = ROOT_ROOM_UUID \<or> u \<notin> set ps"
  shows "grounded_rooms (snd (move_room u p s))"
proof (cases "find_room (rooms (data s)) u")
  case None
  then have "find_room (rooms (data (snd (move_room u p s)))) v = find_room (rooms (data s)) v" for v
    by (simp add: move_room_def find_room_update_first)
  then show ?thesis
    using ground upward_cong [of "rooms (data (snd (move_room u p s)))" "rooms (data s)"]
    unfolding grounded_rooms_def by metis
next
  case (Some r)
  have "find_room (rooms (data (snd (move_room u p s)))) v =
      (if v = u then Some (r\<lparr>r_parent := p\<rparr>) else find_room (rooms (data s)) v)" for v
    using Some by (simp add: move_room_def find_room_update_first)
  then have "upward (rooms (data s)) v xs \<Longrightarrow> \<exists>ys. upward (rooms (data (snd (move_room u p s)))) v ys"
    for v xs
    using Some by (intro upward_reparent [OF _ _ _ _ p u, of _ "r\<lparr>r_parent := p\<rparr>"]) auto
  with ground show ?thesis unfolding grounded_rooms_def by meson
qed

lemma grounded_create:
  assumes ground: "grounded_rooms s" and p: "room_exists s p" and fresh: "fresh_room u s"
  shows "grounded_rooms (snd (create_room_with_parent_desc u n p desc s))"
proof -
  let ?rs = "rooms (data s)" and ?rs' = "rooms (data (snd (create_room_with_parent_desc u n p desc s)))"
  have un: "find_room ?rs u = None"
    using fresh by (auto simp: fresh_room_def find_room_def find_None_iff)
  have app: "find_room (xs @ [y]) v =
      (case find_room xs v of Some x \<Rightarrow> Some x | None \<Rightarrow> if r_id y = v then Some y else None)" for xs y v
    by (induction xs) (auto simp: find_room_def)
  have find: "find_room ?rs' v = (if v = u then Some (new_room u n p desc) else find_room ?rs v)" for v
    using un
    by (auto simp: create_room_with_parent_desc_def update_data_def new_room_def app split: option.splits)
  have "p \<noteq> u"
    using p fresh by (auto simp: room_exists_def fresh_room_def list_ex_iff split: if_splits)
  have up: "upward ?rs v xs \<Longrightarrow> v \<noteq> u \<Longrightarrow> upward ?rs' v xs" for v xs
  proof (induction rule: upward.induct)
    case (up v r xs)
    then have "r_parent r \<noteq> u"
      using fresh by (auto simp: fresh_room_def find_room_def dest: find_Some_set)
    with up find [of v] show ?case by (auto intro: upward.up)
  qed (auto simp: find intro: upward.at_root upward.missing)
  moreover from ground obtain ps where "upward ?rs p ps" by (auto simp: grounded_rooms_def)
  from up [OF this \<open>p \<noteq> u\<close>] have "upward ?rs' u (u # ps)"
    using fresh by (intro upward.up [of u _ "new_room u n p desc"])
      (auto simp: find fresh_room_def new_room_def)
  ultimately show ?thesis using ground unfolding grounded_rooms_def by metis
qed

lemma grounded_delete:
  assumes "grounded_rooms s"
  shows "grounded_rooms (snd (delete_room d s))"
proof (cases "d = ROOT_ROOM_UUID")
  case False
  let ?rs = "rooms (data s)" and ?rs' = "rooms (data (snd (delete_room d s)))"
  have "find_room (filter (\<lambda>r. r_id r \<noteq> d) xs) v = (if v = d then None else find_room xs v)" for xs v
    by (induction xs) (auto simp: find_room_def)
  then have find: "find_room ?rs' v = (if v = d then None else find_room ?rs v)" for v
    using False by (simp add: delete_room_def Let_def update_data_def)
  have "upward ?rs v xs \<Longrightarrow> \<exists>ys. upward ?rs' v ys" for v xs
  proof (induction rule: upward.induct)
    case (up v r xs)
    show ?case
    proof (cases "v = d")
      case True
      with False find [of d] show ?thesis by (auto intro: upward.missing)
    next
      case False
      with up find [of v] show ?thesis by (auto intro: upward.up)
    qed
  next
    case (missing v)
    with find [of v] show ?case by (auto intro: upward.missing split: if_splits)
  qed (blast intro: upward.at_root)
  with assms show ?thesis by (auto simp: grounded_rooms_def)
qed (simp add: delete_room_def assms)

lemma grounded_op:
  assumes ground: "grounded_rooms s" and op: "state_op G s s'"
  shows "grounded_rooms s'"
  using op
proof (cases rule: state_op_shapes)
  case (edit_room f u)
  have "map_option r_parent (find_room (rooms (data s')) v) = map_option r_parent (find_room (rooms (data s)) v)"
    for v
    using edit_room by (simp add: find_room_update_first option.map_comp comp_def)
  with ground show ?thesis unfolding grounded_rooms_def by (blast intro: upward_cong)
next
  case (reparent p u)
  from ground obtain ps where ps: "upward (rooms (data s)) p ps" by (auto simp: grounded_rooms_def)
  have "u \<notin> set ps"
    using meets_room_complete [OF ps, of u 0] upward_length [OF ps] reparent by auto
  with reparent grounded_move [OF ground ps] show ?thesis by simp
next
  case (lift_child d dr c cr)
  from ground obtain ps where ps: "upward (rooms (data s)) (r_parent dr) ps" by (auto simp: grounded_rooms_def)
  have "c \<notin> set ps" if "c \<noteq> ROOT_ROOM_UUID"
  proof -
    have "upward (rooms (data s)) d (d # ps)" by (rule upward.up [OF _ _ ps]) (use lift_child in auto)
    then have "upward (rooms (data s)) c (c # d # ps)"
      using lift_child that by (intro upward.up) auto
    from upward_distinct [OF this] show ?thesis by simp
  qed
  with lift_child grounded_move [OF ground ps] show ?thesis by auto
next
  case (create p u n desc)
  with grounded_create [OF ground] show ?thesis by simp
next
  case (delete d)
  with grounded_delete [OF ground] show ?thesis by simp
qed (use ground in \<open>auto simp: grounded_rooms_def set_user_room_def remove_user_membership_def
    set_user_status_def update_data_def update_handle_def register_participant_def
    register_client_def\<close>)

section \<open>Rooms carry no permission overlay\<close>

definition plain_rooms :: "server_state \<Rightarrow> bool" where
  "plain_rooms s \<longleftrightarrow> (\<forall>r \<in> set (rooms (data s)). r_effective_permissions r = 0)"

lemma plain_rooms_update_room:
  assumes "\<And>r. r_effective_permissions (f r) = r_effective_permissions r" and "plain_rooms s"
  shows "plain_rooms (snd (update_room u f s))"
proof -
  have "\<forall>r \<in> set (update_first P f rs). r_effective_permissions r = 0"
    if "\<forall>r \<in> set rs. r_effective_permissions r = 0" for P rs
    using that by (induction rs) (auto simp: assms(1))
  with assms(2) show ?thesis by (simp add: plain_rooms_def rooms_update_room)
qed

lemma plain_rooms_op:
  assumes "plain_rooms s" and "state_op G s s'"
  shows "plain_rooms s'"
  using assms(2)
proof (cases rule: state_op_shapes)
  case (edit_room f u)
  then show ?thesis using assms(1) by (simp add: plain_rooms_update_room)
next
  case (reparent p u)
  then show ?thesis using assms(1) by (simp add: move_room_def plain_rooms_update_room)
next
  case (lift_child d dr c cr)
  then show ?thesis using assms(1) by (simp add: move_room_def plain_rooms_update_room)
qed (use assms(1) in \<open>auto simp: plain_rooms_def set_user_room_def remove_user_membership_def
    set_user_status_def update_data_def update_handle_def register_participant_def
    register_client_def create_room_with_parent_desc_def delete_room_def new_room_def Let_def\<close>)

section \<open>Instances\<close>

lemma persistence_ok_op: "persistence_ok p \<Longrightarrow> persist_op p p' \<Longrightarrow> persistence_ok p'"
  by (erule persist_op.cases)
    (auto intro: persistence_ok_writes persistence_ok_memberships persistence_ok_group_ops)

lemma persistence_ok_fault: "persistence_ok p \<Longrightarrow> persistence_ok (p\<lparr>p_fault := f\<rparr>)"
  by (simp add: persistence_ok_def get_user_groups_def)

interpretation roster: server_invariant roster_ok persistence_ok
  by unfold_locales (auto intro: roster_ok_op persistence_ok_op persistence_ok_fault)

interpretation membership: server_invariant membership_ok persistence_ok
  by unfold_locales (auto intro: membership_ok_op persistence_ok_op persistence_ok_fault)

interpretation grounded_inv: server_invariant grounded_rooms persistence_ok
  by unfold_locales (auto intro: grounded_op persistence_ok_op persistence_ok_fault)

interpretation plain_inv: server_invariant plain_rooms persistence_ok
  by unfold_locales (auto intro: plain_rooms_op persistence_ok_op persistence_ok_fault)

definition server_ok :: "world \<Rightarrow> bool" where
  "server_ok w \<longleftrightarrow>
     distinct_rooms (w_state w) \<and> membership_ok (w_state w) \<and> roster_ok (w_state w) \<and>
     grounded_rooms (w_state w) \<and> plain_rooms (w_state w) \<and> persistence_ok (w_persist w)"

lemma server_ok_reachable:
  assumes "list_all plugin_respects plugins" and "reachable plugins w0 w" and "server_ok w0"
  shows "server_ok w"
  using roster.reachable_inv [OF assms(1,2)] membership.reachable_inv [OF assms(1,2)]
    grounded_inv.reachable_inv [OF assms(1,2)] plain_inv.reachable_inv [OF assms(1,2)] assms(3)
  by (auto simp: server_ok_def)

section \<open>Startup\<close>

lemma persistence_ok_ensure_default:
  assumes "persistence_ok p"
  shows "persistence_ok (snd (ensure_default_groups p))"
  using assms
  by (auto simp: ensure_default_groups_def snd_p_bind Let_def persistence_ok_writes persistence_ok_group_ops
      split: sum.splits option.splits)

lemma server_ok_start:
  assumes "server_start cert_der welcome plugins p = Inr w" and "persistence_ok p"
    and "grounded_rooms (w_state w)"
  shows "server_ok w"
proof -
  let ?p = "snd (ensure_default_groups p)"
  let ?s = "set_slash_commands (plugin_slash_commands plugins) (with_cert_and_welcome cert_der welcome)"
  have w: "w = \<lparr>w_state = load_persisted_rooms ?p ?s, w_persist = ?p, w_trace = []\<rparr>"
    using assms(1) by (auto simp: server_start_def Let_def split: prod.splits sum.splits)
  have pok: "persistence_ok ?p" by (rule persistence_ok_ensure_default [OF assms(2)])
  have s: "members ?s = []" "data ?s = state_data_new"
    by (simp_all add: set_slash_commands_def with_cert_and_welcome_def)
  define l where "l = filter (\<lambda>(u, _). u \<noteq> ROOT_ROOM_UUID) (p_rooms ?p)"
  have st: "load_persisted_rooms ?p ?s = ?s\<lparr>data := (data ?s)\<lparr>rooms := map (with_stored_acl ?p)
      (new_room ROOT_ROOM_UUID ''Root'' ROOT_ROOM_UUID None # map (\<lambda>(u, r). room_of_persisted u r) l)\<rparr>\<rparr>"
    unfolding l_def
    by (rule load_persisted_rooms_eq) (use pok in \<open>simp_all add: s state_data_new_def persistence_ok_def\<close>)
  have ids: "map r_id (map (with_stored_acl ?p) (new_room ROOT_ROOM_UUID ''Root'' ROOT_ROOM_UUID None #
      map (\<lambda>(u, r). room_of_persisted u r) l)) = ROOT_ROOM_UUID # map fst l"
    by (auto simp: new_room_def comp_def split_beta)
  have rs: "rooms (data (w_state w)) = map (with_stored_acl ?p)
      (new_room ROOT_ROOM_UUID ''Root'' ROOT_ROOM_UUID None # map (\<lambda>(u, r). room_of_persisted u r) l)"
    by (simp add: w st)
  have "distinct (map fst l)"
    unfolding l_def using pok by (auto simp: persistence_ok_def tree_ok_distinct distinct_map_filter)
  moreover have "ROOT_ROOM_UUID \<notin> set (map fst l)" by (auto simp: l_def)
  ultimately have "distinct_rooms (w_state w)"
    unfolding distinct_rooms_def rs ids by simp
  moreover have "membership_ok (w_state w)"
    by (simp add: w st membership_ok_def room_ids_def s state_data_new_def new_room_def)
  moreover have "roster_ok (w_state w)" by (simp add: w st roster_ok_def s)
  moreover have "plain_rooms (w_state w)"
    unfolding plain_rooms_def rs
    by (auto simp: with_stored_acl_def new_room_def room_of_persisted_def split: option.split)
  ultimately show ?thesis using assms(3) pok by (simp add: server_ok_def w)
qed

section \<open>The sample server is consistent\<close>

lemma grounded_sample: "grounded_rooms sample_state"
proof -
  let ?rs = "rooms (data sample_state)"
  have f: "find_room ?rs u = (if u = 0 then Some (new_room 0 ''Root'' 0 None)
      else if u = 5 then Some (new_room 5 ''Lobby'' 0 None)
      else if u = 6 then Some (new_room 6 ''Inner'' 5 None) else None)" for u
    by (simp add: sample_state_def find_room_def new_room_def)
  have at0: "\<exists>ps. upward ?rs 0 ps" using upward.at_root [of ?rs] by (auto simp: ROOT_ROOM_UUID_def)
  have at5: "\<exists>ps. upward ?rs 5 ps"
    using at0 upward.up [of 5 ?rs "new_room 5 ''Lobby'' 0 None"] by (auto simp: ROOT_ROOM_UUID_def f new_room_def)
  have at6: "\<exists>ps. upward ?rs 6 ps"
    using at5 upward.up [of 6 ?rs "new_room 6 ''Inner'' 5 None"] by (auto simp: ROOT_ROOM_UUID_def f new_room_def)
  have "\<exists>ps. upward ?rs v ps" for v
    using at0 at5 at6 upward.missing [of v ?rs] f [of v]
    by (cases "v = 0"; cases "v = 5"; cases "v = 6") (auto simp: ROOT_ROOM_UUID_def)
  then show ?thesis by (simp add: grounded_rooms_def)
qed

lemma server_ok_sample: "server_ok sample_world"
proof -
  have "persistence_ok sample_persist"
    by (simp add: persistence_ok_def sample_persist_def persistence_open_def tree_ok_def get_user_groups_def)
  moreover have "roster_ok sample_state"
    by (auto simp: roster_ok_def sample_state_def dm_ok_def client_handle_new_def)
  moreover have "membership_ok sample_state"
    by (auto simp: membership_ok_def sample_state_def room_ids_def new_room_def ROOT_ROOM_UUID_def)
  moreover have "plain_rooms sample_state" "distinct_rooms sample_state"
    by (auto simp: plain_rooms_def distinct_rooms_def sample_state_def new_room_def)
  ultimately show ?thesis using grounded_sample by (simp add: server_ok_def sample_world_def)
qed

end
