(* ===== verification/ClientState.thy ===== *)
theory ClientState
  imports State
begin

text \<open>
  The state of a client (\<open>rumble-client/src/events.rs\<close>): the snapshot the user interface
  reads, with the room tree derived from the room list, the chat log with its history
  exchange format, and the audio and connection states. Iteration order of a hash map,
  fresh identifiers, the clock and the JSON and hex libraries are parameters.
\<close>

section \<open>The room tree\<close>

record room_tree_node =
  tn_id :: uuid
  tn_name :: string
  tn_parent_id :: "uuid option"
  tn_children :: "uuid list"
  tn_description :: "string option"

type_synonym room_tree = "(uuid, room_tree_node) dashmap"

definition tree_node :: "room \<Rightarrow> room_tree_node" where
  "tree_node r =
     \<lparr>tn_id = r_id r, tn_name = r_name r,
      tn_parent_id = (if is_root r then None else Some (r_parent r)),
      tn_children = [], tn_description = r_description r\<rparr>"

definition attach_node :: "uuid \<Rightarrow> room_tree \<Rightarrow> room_tree" where
  "attach_node u nodes =
     (case Option.bind (dm_get nodes u) tn_parent_id of
        None \<Rightarrow> nodes
      | Some p \<Rightarrow> (case dm_get nodes p of
            None \<Rightarrow> nodes
          | Some n \<Rightarrow> dm_insert p (n\<lparr>tn_children := tn_children n @ [u]\<rparr>) nodes))"

definition node_name :: "room_tree \<Rightarrow> uuid \<Rightarrow> string" where
  "node_name nodes u = (case dm_get nodes u of Some n \<Rightarrow> tn_name n | None \<Rightarrow> [])"

text \<open>\<open>order\<close> is the order in which the hash map yields its keys.\<close>

definition rebuild :: "(uuid list \<Rightarrow> uuid list) \<Rightarrow> room list \<Rightarrow> room_tree" where
  "rebuild order rs =
     (let nodes = fold (\<lambda>r. dm_insert (r_id r) (tree_node r)) rs [];
          attached = fold attach_node (order (map fst nodes)) nodes
      in map (\<lambda>(u, n). (u, n\<lparr>tn_children := sort_key (node_name attached) (tn_children n)\<rparr>)) attached)"

definition tree_children :: "room_tree \<Rightarrow> uuid \<Rightarrow> uuid list" where
  "tree_children t u = (case dm_get t u of Some n \<Rightarrow> tn_children n | None \<Rightarrow> [])"

definition has_children :: "room_tree \<Rightarrow> uuid \<Rightarrow> bool" where
  "has_children t u = (case dm_get t u of Some n \<Rightarrow> tn_children n \<noteq> [] | None \<Rightarrow> False)"

fun ancestor_walk :: "room_tree \<Rightarrow> nat \<Rightarrow> uuid option \<Rightarrow> uuid list" where
  "ancestor_walk t 0 current = []"
| "ancestor_walk t (Suc remaining) None = []"
| "ancestor_walk t (Suc remaining) (Some u) =
     u # ancestor_walk t remaining (Option.bind (dm_get t u) tn_parent_id)"

definition ancestors :: "room_tree \<Rightarrow> uuid \<Rightarrow> uuid list" where
  "ancestors t u = ancestor_walk t (length t) (Option.bind (dm_get t u) tn_parent_id)"

definition is_ancestor :: "room_tree \<Rightarrow> uuid \<Rightarrow> uuid \<Rightarrow> bool" where
  "is_ancestor t a u \<longleftrightarrow> a \<in> set (ancestors t u)"

definition depth :: "room_tree \<Rightarrow> uuid \<Rightarrow> nat" where
  "depth t u = length (ancestors t u)"

section \<open>Connection\<close>

record pending_certificate =
  pc_certificate_der :: bytes
  pc_fingerprint :: key32
  pc_server_name :: string
  pc_server_addr :: string
  pc_username :: string
  pc_password :: "string option"
  pc_public_key :: key32

definition pending_certificate_eq :: "pending_certificate \<Rightarrow> pending_certificate \<Rightarrow> bool" where
  "pending_certificate_eq a b \<longleftrightarrow>
     pc_fingerprint a = pc_fingerprint b \<and> pc_server_name a = pc_server_name b \<and>
     pc_server_addr a = pc_server_addr b"

datatype connection_state =
    Disconnected
  | Connecting string
  | Connected string u64
  | ConnectionLost string
  | CertificatePending pending_certificate

definition is_connected :: "connection_state \<Rightarrow> bool" where
  "is_connected c = (case c of Connected _ _ \<Rightarrow> True | _ \<Rightarrow> False)"

definition is_connecting :: "connection_state \<Rightarrow> bool" where
  "is_connecting c = (case c of Connecting _ \<Rightarrow> True | _ \<Rightarrow> False)"

definition connection_user_id :: "connection_state \<Rightarrow> u64 option" where
  "connection_user_id c = (case c of Connected _ uid \<Rightarrow> Some uid | _ \<Rightarrow> None)"

section \<open>Audio\<close>

record audio_settings =
  as_bitrate :: "32 word"
  as_encoder_complexity :: "32 word"
  as_jitter_buffer_delay_packets :: u32
  as_fec_enabled :: bool
  as_packet_loss_percent :: "32 word"

definition audio_settings_default :: audio_settings where
  "audio_settings_default =
     \<lparr>as_bitrate = 64000, as_encoder_complexity = 10, as_jitter_buffer_delay_packets = 3,
      as_fec_enabled = True, as_packet_loss_percent = 5\<rparr>"

datatype voice_mode = PushToTalk | Continuous

definition requires_continuous_capture :: "voice_mode \<Rightarrow> bool" where
  "requires_continuous_capture m \<longleftrightarrow> m = Continuous"

record audio_device_info =
  adi_id :: string
  adi_name :: string
  adi_pipeline :: "string option"
  adi_is_default :: bool

record device_fault =
  df_message :: string
  df_recovering :: bool

text \<open>
  The configurations of the signal-processing pipelines are stored and handed on, never
  inspected: \<open>'p\<close> is the type of a pipeline configuration, \<open>'r\<close> that of a per-user override.
\<close>

record ('p, 'r) audio_state =
  au_input_devices :: "audio_device_info list"
  au_output_devices :: "audio_device_info list"
  au_selected_input :: "string option"
  au_selected_output :: "string option"
  au_voice_mode :: voice_mode
  au_self_muted :: bool
  au_self_deafened :: bool
  au_muted_users :: "u64 set"
  au_is_transmitting :: bool
  au_talking_users :: "u64 set"
  au_settings :: audio_settings
  au_tx_pipeline :: 'p
  au_rx_pipeline_defaults :: 'p
  au_per_user_rx :: "u64 \<rightharpoonup> 'r"
  au_input_fault :: "device_fault option"
  au_output_fault :: "device_fault option"

definition is_user_muted :: "('p, 'r) audio_state \<Rightarrow> u64 \<Rightarrow> bool" where
  "is_user_muted a u \<longleftrightarrow> u \<in> au_muted_users a"

definition selected_device :: "string option \<Rightarrow> audio_device_info list \<Rightarrow> audio_device_info option" where
  "selected_device sel devices =
     (case sel of
        Some i \<Rightarrow> List.find (\<lambda>d. adi_id d = i) devices
      | None \<Rightarrow> List.find adi_is_default devices)"

definition selected_input_device :: "('p, 'r) audio_state \<Rightarrow> audio_device_info option" where
  "selected_input_device a = selected_device (au_selected_input a) (au_input_devices a)"

definition selected_output_device :: "('p, 'r) audio_state \<Rightarrow> audio_device_info option" where
  "selected_output_device a = selected_device (au_selected_output a) (au_output_devices a)"

section \<open>Chat\<close>

datatype chat_kind = ChatRoom | ChatDirect u64 string | ChatTree

datatype chat_visibility = VisSystem | VisNormal | VisSenderDraft | VisSenderMirror

definition renders_locally :: "chat_visibility \<Rightarrow> bool" where
  "renders_locally v \<longleftrightarrow> v \<noteq> VisSenderMirror"

definition included_in_history_sync :: "chat_visibility \<Rightarrow> bool" where
  "included_in_history_sync v \<longleftrightarrow> v = VisNormal \<or> v = VisSenderMirror"

definition is_system :: "chat_visibility \<Rightarrow> bool" where
  "is_system v \<longleftrightarrow> v = VisSystem"

text \<open>A wall-clock time is the number of nanoseconds since the epoch, negative before it.\<close>

type_synonym system_time = int

definition time_of_millis :: "u64 \<Rightarrow> system_time" where
  "time_of_millis ms = int (unat ms) * 1000000"

definition millis_of_time :: "system_time \<Rightarrow> u64" where
  "millis_of_time t = (if 0 \<le> t then word_of_int (t div 1000000) else 0)"

record chat_entry =
  ce_id :: uuid
  ce_sender :: string
  ce_sender_id :: "u64 option"
  ce_text :: string
  ce_timestamp :: system_time
  ce_kind :: chat_kind
  ce_attachment :: "chat_attachment option"
  ce_visibility :: chat_visibility

subsection \<open>History exchange\<close>

datatype json =
    JNull
  | JBool bool
  | JNumber int
  | JString string
  | JArray "json list"
  | JObject "(string \<times> json) list"

definition json_type_is :: "string \<Rightarrow> json \<Rightarrow> bool" where
  "json_type_is t v =
     (case v of JObject kvs \<Rightarrow> map_of kvs ''type'' = Some (JString t) | _ \<Rightarrow> False)"

text \<open>\<open>from_str\<close> is the JSON parser.\<close>

definition history_request_parse :: "(string \<Rightarrow> json option) \<Rightarrow> string \<Rightarrow> unit option" where
  "history_request_parse from_str txt =
     (case from_str txt of
        Some (JObject kvs) \<Rightarrow>
          if json_type_is ''chat-history-request'' (JObject kvs) \<and>
             list_all (\<lambda>(k, _). k \<in> {''type'', CHR 0x24 # ''schema''}) kvs
          then Some () else None
      | _ \<Rightarrow> None)"

record history_entry =
  he_id :: string
  he_sender :: string
  he_sender_id :: "u64 option"
  he_text :: string
  he_timestamp :: u64
  he_attachment :: "chat_attachment option"

record history_content =
  hc_version :: u32
  hc_messages :: "history_entry list"

text \<open>\<open>from_value\<close> is the derived deserialiser of the share message.\<close>

definition history_share_parse ::
  "(string \<Rightarrow> json option) \<Rightarrow> (json \<Rightarrow> history_content option) \<Rightarrow> string \<Rightarrow> history_content option" where
  "history_share_parse from_str from_value txt =
     (case from_str txt of
        Some (JObject kvs) \<Rightarrow>
          if json_type_is ''chat-history-response'' (JObject kvs) then from_value (JObject kvs) else None
      | _ \<Rightarrow> None)"

definition history_from_messages :: "(bytes \<Rightarrow> string) \<Rightarrow> chat_entry list \<Rightarrow> history_content" where
  "history_from_messages hex_encode msgs =
     \<lparr>hc_version = 1,
      hc_messages = map (\<lambda>m.
        \<lparr>he_id = hex_encode (to_be_bytes 16 (ce_id m)), he_sender = ce_sender m,
         he_sender_id = ce_sender_id m, he_text = ce_text m,
         he_timestamp = millis_of_time (ce_timestamp m), he_attachment = ce_attachment m\<rparr>)
        (filter (\<lambda>m. included_in_history_sync (ce_visibility m)) msgs)\<rparr>"

definition history_to_messages :: "(string \<Rightarrow> bytes option) \<Rightarrow> history_content \<Rightarrow> chat_entry list" where
  "history_to_messages hex_decode c =
     List.map_filter (\<lambda>e.
       case hex_decode (he_id e) of
         None \<Rightarrow> None
       | Some bs \<Rightarrow>
           if length bs \<noteq> 16 then None
           else Some \<lparr>ce_id = from_be_bytes bs, ce_sender = he_sender e, ce_sender_id = he_sender_id e,
                      ce_text = he_text e, ce_timestamp = time_of_millis (he_timestamp e),
                      ce_kind = ChatRoom, ce_attachment = he_attachment e, ce_visibility = VisNormal\<rparr>)
       (hc_messages c)"

section \<open>The snapshot\<close>

record ('p, 'r) client_state =
  c_connection :: connection_state
  c_rooms :: "room list"
  c_users :: "user list"
  c_my_user_id :: "u64 option"
  c_my_room_id :: "uuid option"
  c_my_session_public_key :: "key32 option"
  c_my_session_id :: "key32 option"
  c_audio :: "('p, 'r) audio_state"
  c_chat_messages :: "chat_entry list"
  c_chat_epoch :: u64
  c_room_tree :: room_tree
  c_effective_permissions :: u32
  c_per_room_permissions :: "uuid \<rightharpoonup> u32"
  c_kicked :: "string option"
  c_group_definitions :: "group_def list"
  c_slash_commands :: "slash_command_def list"
  c_registered_users :: "registered_user_entry list"

definition rebuild_room_tree ::
  "(uuid list \<Rightarrow> uuid list) \<Rightarrow> ('p, 'r) client_state \<Rightarrow> ('p, 'r) client_state" where
  "rebuild_room_tree order s = s\<lparr>c_room_tree := rebuild order (c_rooms s)\<rparr>"

definition users_in_room :: "('p, 'r) client_state \<Rightarrow> uuid \<Rightarrow> user list" where
  "users_in_room s u = filter (\<lambda>x. u_current_room x = u) (c_users s)"

definition is_user_in_room :: "('p, 'r) client_state \<Rightarrow> u64 \<Rightarrow> uuid \<Rightarrow> bool" where
  "is_user_in_room s uid u \<longleftrightarrow> list_ex (\<lambda>x. u_user_id x = uid \<and> u_current_room x = u) (c_users s)"

definition client_get_room :: "('p, 'r) client_state \<Rightarrow> uuid \<Rightarrow> room option" where
  "client_get_room s u = List.find (\<lambda>r. r_id r = u) (c_rooms s)"

definition find_user :: "user list \<Rightarrow> u64 \<Rightarrow> user option" where
  "find_user us uid = List.find (\<lambda>x. u_user_id x = uid) us"

definition client_get_user :: "('p, 'r) client_state \<Rightarrow> u64 \<Rightarrow> user option" where
  "client_get_user s uid = find_user (c_users s) uid"

text \<open>The snapshot before anything happened, with units for the opaque configurations.\<close>

definition fresh_client :: "(unit, unit) client_state" where
  "fresh_client =
     \<lparr>c_connection = Disconnected, c_rooms = [], c_users = [], c_my_user_id = None, c_my_room_id = None,
      c_my_session_public_key = None, c_my_session_id = None,
      c_audio = \<lparr>au_input_devices = [], au_output_devices = [], au_selected_input = None,
        au_selected_output = None, au_voice_mode = PushToTalk, au_self_muted = False,
        au_self_deafened = False, au_muted_users = {}, au_is_transmitting = False,
        au_talking_users = {}, au_settings = audio_settings_default, au_tx_pipeline = (),
        au_rx_pipeline_defaults = (), au_per_user_rx = Map.empty, au_input_fault = None,
        au_output_fault = None\<rparr>,
      c_chat_messages = [], c_chat_epoch = 0, c_room_tree = [], c_effective_permissions = 0,
      c_per_room_permissions = Map.empty, c_kicked = None, c_group_definitions = [],
      c_slash_commands = [], c_registered_users = []\<rparr>"

section \<open>The tree mirrors the room list\<close>

definition node_parent :: "room_tree \<Rightarrow> uuid \<Rightarrow> uuid option" where
  "node_parent nodes u = Option.bind (dm_get nodes u) tn_parent_id"

lemma attach_get:
  "dm_get (attach_node c nodes) u =
     (if node_parent nodes c = Some u
      then map_option (\<lambda>n. n\<lparr>tn_children := tn_children n @ [c]\<rparr>) (dm_get nodes u)
      else dm_get nodes u)"
  by (auto simp: attach_node_def node_parent_def [symmetric] dm_get_insert split: option.split)

lemma attach_frame [simp]:
  "node_parent (attach_node c nodes) = node_parent nodes" "node_name (attach_node c nodes) = node_name nodes"
proof -
  show "node_parent (attach_node c nodes) = node_parent nodes"
  proof
    show "node_parent (attach_node c nodes) u = node_parent nodes u" for u
      unfolding node_parent_def [of "attach_node c nodes"] attach_get
      by (cases "dm_get nodes u") (simp_all add: node_parent_def)
  qed
  show "node_name (attach_node c nodes) = node_name nodes"
  proof
    show "node_name (attach_node c nodes) u = node_name nodes u" for u
      unfolding node_name_def attach_get by (simp split: option.split)
  qed
qed

lemma attach_fold:
  "dm_get (fold attach_node cs nodes) u =
     map_option (\<lambda>n. n\<lparr>tn_children := tn_children n @ filter (\<lambda>c. node_parent nodes c = Some u) cs\<rparr>) (dm_get nodes u)
   \<and> node_name (fold attach_node cs nodes) = node_name nodes"
proof (induction cs arbitrary: nodes)
  case (Cons c cs)
  from Cons.IH [of "attach_node c nodes"] show ?case
    by (simp add: attach_get option.map_comp comp_def)
qed (simp add: option.map_ident)

lemma insert_nodes:
  assumes "distinct (map r_id rs)"
  shows "dm_get (fold (\<lambda>r. dm_insert (r_id r) (tree_node r)) rs []) u = map_option tree_node (find_room rs u)"
proof -
  have "dm_get (fold (\<lambda>r. dm_insert (r_id r) (tree_node r)) rs m) u =
      (case find_room rs u of Some r \<Rightarrow> Some (tree_node r) | None \<Rightarrow> dm_get m u)" for m
    using assms
  proof (induction rs arbitrary: m)
    case (Cons r rs)
    have "find_room rs (r_id r) = None"
      using Cons.prems by (auto simp: find_room_def find_None_iff) (metis image_eqI)
    with Cons show ?case by (auto simp: find_room_def dm_get_insert split: option.split)
  qed (simp add: find_room_def)
  then show ?thesis by (simp add: option.case_eq_if map_option_case)
qed

lemma rebuild_get:
  assumes "distinct (map r_id rs)" and "\<And>xs. mset (order xs) = mset xs"
  obtains ids where "set ids = r_id ` set rs" and "distinct ids"
    and "\<And>u. dm_get (rebuild order rs) u = map_option (\<lambda>r. (tree_node r)\<lparr>tn_children :=
      sort_key (\<lambda>c. case find_room rs c of Some x \<Rightarrow> r_name x | None \<Rightarrow> [])
        (filter (\<lambda>c. \<exists>x. find_room rs c = Some x \<and> \<not> is_root x \<and> r_parent x = u) ids)\<rparr>) (find_room rs u)"
proof -
  define nodes where "nodes = fold (\<lambda>r. dm_insert (r_id r) (tree_node r)) rs []"
  have get: "dm_get nodes u = map_option tree_node (find_room rs u)" for u
    unfolding nodes_def by (rule insert_nodes [OF assms(1)])
  have ok: "dm_ok nodes"
  proof -
    have "dm_ok (fold (\<lambda>r. dm_insert (r_id r) (tree_node r)) rs m)" if "dm_ok m" for m
      using that by (induction rs arbitrary: m) (simp_all add: dm_ok_insert)
    then show ?thesis by (simp add: nodes_def)
  qed
  define ids where "ids = order (map fst nodes)"
  have m: "mset ids = mset (map fst nodes)" by (simp add: ids_def assms(2))
  have "distinct ids" using m dm_ok_distinct [OF ok] by (metis mset_eq_imp_distinct_iff)
  moreover have "set ids = r_id ` set rs"
  proof -
    have "set ids = dom (map_of nodes)" using mset_eq_setD [OF m] by (simp add: dom_map_of_conv_image_fst)
    also have "\<dots> = r_id ` set rs"
      by (auto simp: get dom_def find_room_def find_None_iff image_iff dest: find_Some_set)
    finally show ?thesis .
  qed
  moreover have par: "node_parent nodes c = Some u \<longleftrightarrow>
      (\<exists>x. find_room rs c = Some x \<and> \<not> is_root x \<and> r_parent x = u)" for c u
    by (auto simp: node_parent_def get tree_node_def bind_eq_Some_conv)
  have name: "node_name nodes = (\<lambda>c. case find_room rs c of Some x \<Rightarrow> r_name x | None \<Rightarrow> [])"
    by (auto simp: node_name_def get tree_node_def fun_eq_iff split: option.split)
  have "dm_get (rebuild order rs) u = map_option (\<lambda>r. (tree_node r)\<lparr>tn_children :=
      sort_key (\<lambda>c. case find_room rs c of Some x \<Rightarrow> r_name x | None \<Rightarrow> [])
        (filter (\<lambda>c. \<exists>x. find_room rs c = Some x \<and> \<not> is_root x \<and> r_parent x = u) ids)\<rparr>) (find_room rs u)" for u
  proof -
    have "dm_get (rebuild order rs) u = map_option (\<lambda>n. n\<lparr>tn_children := sort_key (node_name nodes) (tn_children n)\<rparr>)
        (dm_get (fold attach_node ids nodes) u)"
      using attach_fold [of ids nodes]
      by (simp add: rebuild_def Let_def nodes_def [symmetric] ids_def [symmetric] map_of_map comp_def)
    also have "dm_get (fold attach_node ids nodes) u =
        map_option (\<lambda>n. n\<lparr>tn_children := tn_children n @ filter (\<lambda>c. node_parent nodes c = Some u) ids\<rparr>) (dm_get nodes u)"
      using attach_fold [of ids nodes u] by blast
    finally show ?thesis
      unfolding get par name by (simp add: option.map_comp comp_def tree_node_def)
  qed
  ultimately show ?thesis by (intro that) auto
qed

text \<open>C40: The room tree shows the room list. Whatever order the hash map iterates in, every room
  has exactly one node with its name, description and parent, the root without parent; its
  children are the rooms that name it as parent, each once, in the order of their names; and
  there is no other node.\<close>

theorem rebuild_spec:
  assumes "distinct (map r_id rs)" and "\<And>xs. mset (order xs) = mset xs"
  shows "(\<forall>u. find_room rs u = None \<longrightarrow> dm_get (rebuild order rs) u = None) \<and>
    (\<forall>u r. find_room rs u = Some r \<longrightarrow> (\<exists>n. dm_get (rebuild order rs) u = Some n \<and>
       tn_id n = u \<and> tn_name n = r_name r \<and> tn_description n = r_description r \<and>
       tn_parent_id n = (if u = ROOT_ROOM_UUID then None else Some (r_parent r)) \<and>
       set (tn_children n) = r_id ` {c \<in> set rs. r_id c \<noteq> ROOT_ROOM_UUID \<and> r_parent c = u} \<and>
       distinct (tn_children n) \<and>
       sorted (map (\<lambda>c. case find_room rs c of Some x \<Rightarrow> r_name x | None \<Rightarrow> []) (tn_children n))))"
proof -
  obtain ids where ids: "set ids = r_id ` set rs" "distinct ids"
    and get: "\<And>u. dm_get (rebuild order rs) u = map_option (\<lambda>r. (tree_node r)\<lparr>tn_children :=
      sort_key (\<lambda>c. case find_room rs c of Some x \<Rightarrow> r_name x | None \<Rightarrow> [])
        (filter (\<lambda>c. \<exists>x. find_room rs c = Some x \<and> \<not> is_root x \<and> r_parent x = u) ids)\<rparr>) (find_room rs u)"
    by (rule rebuild_get [OF assms]) blast
  have kids: "{c \<in> set ids. \<exists>x. find_room rs c = Some x \<and> \<not> is_root x \<and> r_parent x = u} =
      r_id ` {c \<in> set rs. r_id c \<noteq> ROOT_ROOM_UUID \<and> r_parent c = u}" for u
  proof (intro equalityI subsetI)
    fix c assume "c \<in> {c \<in> set ids. \<exists>x. find_room rs c = Some x \<and> \<not> is_root x \<and> r_parent x = u}"
    then obtain x where "find_room rs c = Some x" "\<not> is_root x" "r_parent x = u" by blast
    moreover from this(1) have "x \<in> set rs" "r_id x = c" by (auto simp: find_room_def dest: find_Some_set)
    ultimately show "c \<in> r_id ` {c \<in> set rs. r_id c \<noteq> ROOT_ROOM_UUID \<and> r_parent c = u}"
      unfolding is_root_def by blast
  next
    fix c assume "c \<in> r_id ` {c \<in> set rs. r_id c \<noteq> ROOT_ROOM_UUID \<and> r_parent c = u}"
    then obtain x where x: "c = r_id x" "x \<in> set rs" "r_id x \<noteq> ROOT_ROOM_UUID" "r_parent x = u" by blast
    with find_room_distinct [OF assms(1)] ids(1)
    show "c \<in> {c \<in> set ids. \<exists>x. find_room rs c = Some x \<and> \<not> is_root x \<and> r_parent x = u}"
      unfolding is_root_def by blast
  qed
  show ?thesis
  proof (intro conjI allI impI)
    show "dm_get (rebuild order rs) u = None" if "find_room rs u = None" for u
      by (simp add: get that)
    fix u r assume r: "find_room rs u = Some r"
    then have "r_id r = u" by (auto simp: find_room_def dest: find_Some_set)
    let ?name = "\<lambda>c. case find_room rs c of Some x \<Rightarrow> r_name x | None \<Rightarrow> []"
    let ?kid = "\<lambda>c. \<exists>x. find_room rs c = Some x \<and> \<not> is_root x \<and> r_parent x = u"
    let ?n = "(tree_node r)\<lparr>tn_children := sort_key ?name (filter ?kid ids)\<rparr>"
    have "tn_id ?n = u" "tn_name ?n = r_name r" "tn_description ?n = r_description r"
      "tn_parent_id ?n = (if u = ROOT_ROOM_UUID then None else Some (r_parent r))"
      using \<open>r_id r = u\<close> by (simp_all add: tree_node_def is_root_def)
    moreover have "set (tn_children ?n) = r_id ` {c \<in> set rs. r_id c \<noteq> ROOT_ROOM_UUID \<and> r_parent c = u}"
      using kids [of u] by simp
    moreover have "distinct (tn_children ?n)" "sorted (map ?name (tn_children ?n))"
      using ids(2) by simp_all
    moreover have "dm_get (rebuild order rs) u = Some ?n" by (simp only: get r option.map)
    ultimately show "\<exists>n. dm_get (rebuild order rs) u = Some n \<and>
       tn_id n = u \<and> tn_name n = r_name r \<and> tn_description n = r_description r \<and>
       tn_parent_id n = (if u = ROOT_ROOM_UUID then None else Some (r_parent r)) \<and>
       set (tn_children n) = r_id ` {c \<in> set rs. r_id c \<noteq> ROOT_ROOM_UUID \<and> r_parent c = u} \<and>
       distinct (tn_children n) \<and> sorted (map ?name (tn_children n))"
      by blast
  qed
qed

definition sample_rooms :: "room list" where
  "sample_rooms = [new_room 0 ''Root'' 0 None, new_room 5 ''b'' 0 None, new_room 6 ''a'' 0 None]"

theorem rebuild_spec_witness:
  "\<exists>n. dm_get (rebuild rev sample_rooms) 0 = Some n \<and> set (tn_children n) = {5, 6} \<and> distinct (tn_children n)"
proof -
  have d: "distinct (map r_id sample_rooms)" by (simp add: sample_rooms_def new_room_def)
  have f: "find_room sample_rooms 0 = Some (new_room 0 ''Root'' 0 None)"
    by (simp add: sample_rooms_def find_room_def new_room_def)
  have "r_id ` {c \<in> set sample_rooms. r_id c \<noteq> ROOT_ROOM_UUID \<and> r_parent c = 0} =
      set (map r_id (filter (\<lambda>c. r_id c \<noteq> ROOT_ROOM_UUID \<and> r_parent c = 0) sample_rooms))"
    by simp
  also have "\<dots> = {5, 6}" by (simp add: sample_rooms_def new_room_def ROOT_ROOM_UUID_def)
  finally have "r_id ` {c \<in> set sample_rooms. r_id c \<noteq> ROOT_ROOM_UUID \<and> r_parent c = 0} = {5, 6}" .
  with rebuild_spec [OF d, of rev] f show ?thesis by fastforce
qed

end
