(* ===== verification/Projection.thy ===== *)
theory Projection
  imports ClientState Acl
begin

text \<open>
  The projection task of the client (\<open>rumble-client/src/projection.rs\<close>), sole writer of the
  snapshot: how each chat, voice, connection and room event is folded into it, how the own
  permissions are recomputed from the mirrored rooms and groups, and how the copy is checked
  against the hash the server announces. An event returns the new snapshot and the side
  effects in the order they are issued.
\<close>

section \<open>Events\<close>

datatype device_kind = DeviceInput | DeviceOutput

datatype chat_event =
    MessageAdded chat_entry
  | SystemNotice string
  | SenderDraftInserted chat_entry
  | SenderMirrorInserted chat_entry
  | HistoryMerged "chat_entry list"

datatype ('p, 'r) voice_event =
    UserStartedTalking u64
  | UserStoppedTalking u64
  | SelfMutedChanged bool
  | SelfDeafenedChanged bool
  | LocalMuteToggled u64 bool
  | ServerMutedChanged bool
  | TransmittingChanged bool
  | DevicesEnumerated "audio_device_info list" "audio_device_info list"
  | SelectedDeviceChanged device_kind "string option"
  | DeviceUnavailable device_kind string
  | DeviceError device_kind string bool
  | VoiceModeChanged voice_mode
  | AudioSettingsChanged audio_settings
  | TxPipelineChanged 'p
  | RxPipelineDefaultsChanged 'p
  | UserRxConfigChanged u64 'r
  | UserRxOverrideCleared u64

datatype connection_event =
    EvConnectStarted string
  | EvCertificatePending pending_certificate
  | EvConnected string u64 key32 key32
  | EvDisconnected
  | EvConnectionLost string
  | EvKicked string
  | EvPermissionDenied string
  | EvElevatedChanged bool
  | EvWelcomeMessageReceived string

datatype room_event =
    FullStateReplaced "room list" "user list" "group_def list" "slash_command_def list" "uuid \<rightharpoonup> u32"
  | EvRoomAdded room
  | EvRoomRemoved uuid
  | EvRoomRenamed uuid string
  | EvRoomMoved uuid "uuid option"
  | EvRoomDescriptionSet uuid "string option"
  | EvRoomAclChanged uuid bool "room_acl_entry list"
  | EvUserJoined user
  | EvUserLeft u64
  | EvUserMoved u64 "uuid option"
  | EvUserStatusChanged u64 bool bool bool bool
  | EvUserGroupChanged u64 string bool
  | RegisteredUsersReplaced "registered_user_entry list"
  | EvGroupAdded group_def
  | EvGroupRemoved string
  | EvGroupModified group_def
  | SelfMovedToRoom uuid
  | StateHashCheckpoint bytes

datatype client_effect =
    RoomChanged "u64 list"
  | UserJoinedRoom u64
  | UserLeftRoom u64
  | SetServerMuted bool
  | FileTransferRoom uuid
  | ResyncRequested bytes bytes
  | Repaint

text \<open>The surroundings of the task: iteration order of hash maps, a fresh identifier, the
  clock, the presence of the file-transfer plugin and the two functions of the state hash.\<close>

record client_env =
  ce_order :: "uuid list \<Rightarrow> uuid list"
  ce_new_id :: uuid
  ce_now :: system_time
  ce_file_transfer :: bool
  ce_encode_state :: "server_state_msg \<Rightarrow> bytes"
  ce_blake3 :: "bytes \<Rightarrow> key32"

section \<open>Chat\<close>

text \<open>The identifiers already in the log travel beside the snapshot.\<close>

definition push_chat :: "chat_entry \<Rightarrow> ('p, 'r) client_state \<Rightarrow> ('p, 'r) client_state" where
  "push_chat m s = s\<lparr>c_chat_messages := c_chat_messages s @ [m]\<rparr>"

definition merge_message :: "chat_entry \<Rightarrow> chat_entry list \<times> uuid set \<times> bool \<Rightarrow> chat_entry list \<times> uuid set \<times> bool" where
  "merge_message m acc =
     (case acc of (log, ids, added) \<Rightarrow>
        if ce_id m \<in> ids then (log, ids, added) else (log @ [m], insert (ce_id m) ids, True))"

definition apply_chat ::
  "client_env \<Rightarrow> chat_event \<Rightarrow> ('p, 'r) client_state \<times> uuid set \<Rightarrow>
     (('p, 'r) client_state \<times> uuid set) \<times> client_effect list" where
  "apply_chat e ev st =
     (case st of (s, ids) \<Rightarrow>
        (case ev of
           MessageAdded m \<Rightarrow>
             if ce_id m \<in> ids then ((s, ids), [])
             else ((push_chat m s, insert (ce_id m) ids), [Repaint])
         | SystemNotice txt \<Rightarrow>
             ((push_chat \<lparr>ce_id = ce_new_id e, ce_sender = [], ce_sender_id = None, ce_text = txt,
                          ce_timestamp = ce_now e, ce_kind = ChatRoom, ce_attachment = None,
                          ce_visibility = VisSystem\<rparr> s,
               insert (ce_new_id e) ids), [Repaint])
         | SenderDraftInserted m \<Rightarrow> ((push_chat m s, insert (ce_id m) ids), [Repaint])
         | SenderMirrorInserted m \<Rightarrow> ((push_chat m s, insert (ce_id m) ids), [Repaint])
         | HistoryMerged ms \<Rightarrow>
             (case fold merge_message ms (c_chat_messages s, ids, False) of
                (log, ids', added) \<Rightarrow>
                  ((if added
                    then s\<lparr>c_chat_messages := sort_key ce_timestamp log, c_chat_epoch := c_chat_epoch s + 1\<rparr>
                    else s\<lparr>c_chat_messages := log\<rparr>, ids'), [Repaint]))))"

section \<open>Voice\<close>

definition set_fault ::
  "device_kind \<Rightarrow> device_fault option \<Rightarrow> ('p, 'r) audio_state \<Rightarrow> ('p, 'r) audio_state" where
  "set_fault k f a =
     (case k of DeviceInput \<Rightarrow> a\<lparr>au_input_fault := f\<rparr> | DeviceOutput \<Rightarrow> a\<lparr>au_output_fault := f\<rparr>)"

definition apply_voice_audio ::
  "('p, 'r) voice_event \<Rightarrow> ('p, 'r) audio_state \<Rightarrow> ('p, 'r) audio_state" where
  "apply_voice_audio ev a =
     (case ev of
        UserStartedTalking u \<Rightarrow> a\<lparr>au_talking_users := insert u (au_talking_users a)\<rparr>
      | UserStoppedTalking u \<Rightarrow> a\<lparr>au_talking_users := au_talking_users a - {u}\<rparr>
      | SelfMutedChanged b \<Rightarrow> a\<lparr>au_self_muted := b\<rparr>
      | SelfDeafenedChanged b \<Rightarrow> a\<lparr>au_self_deafened := b\<rparr>
      | LocalMuteToggled u b \<Rightarrow>
          a\<lparr>au_muted_users := (if b then insert u (au_muted_users a) else au_muted_users a - {u})\<rparr>
      | ServerMutedChanged _ \<Rightarrow> a
      | TransmittingChanged b \<Rightarrow> a\<lparr>au_is_transmitting := b\<rparr>
      | DevicesEnumerated i out \<Rightarrow> a\<lparr>au_input_devices := i, au_output_devices := out\<rparr>
      | SelectedDeviceChanged k i \<Rightarrow>
          (case k of
             DeviceInput \<Rightarrow> a\<lparr>au_selected_input := i, au_input_fault := None\<rparr>
           | DeviceOutput \<Rightarrow> a\<lparr>au_selected_output := i, au_output_fault := None\<rparr>)
      | DeviceUnavailable k msg \<Rightarrow> set_fault k (Some \<lparr>df_message = msg, df_recovering = False\<rparr>) a
      | DeviceError k msg r \<Rightarrow> set_fault k (Some \<lparr>df_message = msg, df_recovering = r\<rparr>) a
      | VoiceModeChanged m \<Rightarrow> a\<lparr>au_voice_mode := m\<rparr>
      | AudioSettingsChanged x \<Rightarrow> a\<lparr>au_settings := x\<rparr>
      | TxPipelineChanged c \<Rightarrow> a\<lparr>au_tx_pipeline := c\<rparr>
      | RxPipelineDefaultsChanged c \<Rightarrow> a\<lparr>au_rx_pipeline_defaults := c\<rparr>
      | UserRxConfigChanged u c \<Rightarrow> a\<lparr>au_per_user_rx := (au_per_user_rx a)(u \<mapsto> c)\<rparr>
      | UserRxOverrideCleared u \<Rightarrow> a\<lparr>au_per_user_rx := (au_per_user_rx a)(u := None)\<rparr>)"

definition apply_voice ::
  "('p, 'r) voice_event \<Rightarrow> ('p, 'r) client_state \<Rightarrow> ('p, 'r) client_state \<times> client_effect list" where
  "apply_voice ev s = (s\<lparr>c_audio := apply_voice_audio ev (c_audio s)\<rparr>, [Repaint])"

section \<open>Own permissions\<close>

text \<open>The parent walk of the client stops at a room it has visited.\<close>

function client_chain_walk :: "room list \<Rightarrow> uuid \<Rightarrow> uuid list \<Rightarrow> uuid list" where
  "client_chain_walk rs current path =
     (if current \<in> set path then path
      else let path' = path @ [current] in
        if current = ROOT_ROOM_UUID then path'
        else case find_room rs current of
               None \<Rightarrow> path'
             | Some r \<Rightarrow> client_chain_walk rs (r_parent r) path')"
  by pat_completeness auto
termination
proof (relation "measure (\<lambda>(rs, _, path). card (r_id ` set rs - set path))", goal_cases)
  case (2 rs current path path' r)
  then have "current \<in> r_id ` set rs - set path"
    by (auto simp: find_room_def dest: find_Some_set)
  then have "r_id ` set rs - set (path @ [current]) \<subset> r_id ` set rs - set path" by auto
  then show ?case using 2(2) by (simp add: psubset_card_mono)
qed simp

declare client_chain_walk.simps [simp del]

definition client_room_path :: "room list \<Rightarrow> uuid \<Rightarrow> uuid list" where
  "client_room_path rs target =
     (let path = rev (client_chain_walk rs target []);
          path' = (if path = [] \<or> hd path \<noteq> ROOT_ROOM_UUID then ROOT_ROOM_UUID # path else path)
      in dedup path')"

definition acl_entry_of_room :: "room_acl_entry \<Rightarrow> acl_entry" where
  "acl_entry_of_room e =
     \<lparr>ae_group = rae_group e, ae_grant = from_bits_truncate (rae_grant e),
      ae_deny = from_bits_truncate (rae_deny e), ae_apply_here = rae_apply_here e,
      ae_apply_subs = rae_apply_subs e\<rparr>"

definition client_acl :: "room list \<Rightarrow> uuid \<Rightarrow> room_acl_data option" where
  "client_acl rs u =
     map_option (\<lambda>r. \<lparr>ra_inherit_acl = r_inherit_acl r, ra_entries = map acl_entry_of_room (r_acls r)\<rparr>)
       (List.find (\<lambda>r. r_id r = u \<and> r_acls r \<noteq> []) rs)"

definition client_build_room_chain :: "room list \<Rightarrow> uuid \<Rightarrow> room_chain" where
  "client_build_room_chain rs target = map (\<lambda>u. (u, client_acl rs u)) (client_room_path rs target)"

definition client_user_groups :: "user option \<Rightarrow> string list" where
  "client_user_groups me =
     (case me of
        None \<Rightarrow> [''default'']
      | Some u \<Rightarrow> push_new (u_username u) (fold push_new (u_groups u) [''default'']))"

definition client_group_perms :: "group_def list \<Rightarrow> (string \<rightharpoonup> permissions)" where
  "client_group_perms gs = fold (\<lambda>g m. m(g_name g \<mapsto> from_bits_truncate (g_permissions g))) gs Map.empty"

definition client_permissions :: "('p, 'r) client_state \<Rightarrow> u64 \<Rightarrow> uuid \<Rightarrow> permissions" where
  "client_permissions s my_user_id room =
     (let me = find_user (c_users s) my_user_id in
      effective_permissions (client_user_groups me) (client_group_perms (c_group_definitions s))
        (client_build_room_chain (c_rooms s) room)
        (case me of Some u \<Rightarrow> u_is_elevated u | None \<Rightarrow> False))"

definition recompute_effective_permissions :: "('p, 'r) client_state \<Rightarrow> ('p, 'r) client_state" where
  "recompute_effective_permissions s =
     (case c_my_user_id s of
        None \<Rightarrow> s
      | Some me \<Rightarrow>
          let per_room = fold (\<lambda>r m. m(r_id r \<mapsto> client_permissions s me (r_id r))) (c_rooms s) Map.empty;
              s1 = s\<lparr>c_per_room_permissions := per_room\<rparr>
          in case Option.bind (c_my_room_id s) per_room of
               Some perms \<Rightarrow> s1\<lparr>c_effective_permissions := perms\<rparr>
             | None \<Rightarrow> s1)"

section \<open>Connection\<close>

definition forget_session :: "('p, 'r) client_state \<Rightarrow> ('p, 'r) client_state" where
  "forget_session s =
     s\<lparr>c_my_user_id := None, c_my_room_id := None, c_my_session_public_key := None,
       c_my_session_id := None, c_registered_users := []\<rparr>"

definition apply_connection ::
  "connection_event \<Rightarrow> ('p, 'r) client_state \<times> uuid set \<Rightarrow>
     (('p, 'r) client_state \<times> uuid set) \<times> client_effect list" where
  "apply_connection ev st =
     (case st of (s, ids) \<Rightarrow>
        ((case ev of
            EvConnectStarted addr \<Rightarrow>
              (s\<lparr>c_connection := Connecting addr, c_chat_messages := [], c_chat_epoch := c_chat_epoch s + 1\<rparr>, {})
          | EvCertificatePending c \<Rightarrow> (s\<lparr>c_connection := CertificatePending c\<rparr>, ids)
          | EvConnected name uid key sid \<Rightarrow>
              (recompute_effective_permissions
                 (s\<lparr>c_connection := Connected name uid, c_kicked := None, c_my_user_id := Some uid,
                    c_my_session_public_key := Some key, c_my_session_id := Some sid\<rparr>), ids)
          | EvDisconnected \<Rightarrow> (forget_session (s\<lparr>c_connection := Disconnected\<rparr>), ids)
          | EvConnectionLost err \<Rightarrow> (forget_session (s\<lparr>c_connection := ConnectionLost err\<rparr>), ids)
          | EvKicked reason \<Rightarrow> (s\<lparr>c_kicked := Some reason\<rparr>, ids)
          | EvPermissionDenied _ \<Rightarrow> (s, ids)
          | EvElevatedChanged _ \<Rightarrow> (s, ids)
          | EvWelcomeMessageReceived _ \<Rightarrow> (s, ids)),
         [Repaint]))"

section \<open>The state hash\<close>

definition state_hash_input :: "('p, 'r) client_state \<Rightarrow> server_state_msg" where
  "state_hash_input s =
     \<lparr>ss_rooms = map to_hash_input (c_rooms s), ss_users = map user_to_proto (c_users s),
      ss_groups = [], ss_slash_commands = []\<rparr>"

definition request_resync :: "bytes \<Rightarrow> bytes \<Rightarrow> client_effect list" where
  "request_resync expected actual = [ResyncRequested expected actual]"

definition on_lag :: "client_effect list" where
  "on_lag = request_resync [] []"

definition verify_state_hash :: "client_env \<Rightarrow> bytes \<Rightarrow> ('p, 'r) client_state \<Rightarrow> client_effect list" where
  "verify_state_hash e expected s =
     (let actual = compute_server_state_hash (ce_encode_state e) (ce_blake3 e) (state_hash_input s) in
      if actual \<noteq> expected then request_resync expected actual else [])"

section \<open>Rooms, users and groups\<close>

definition room_user_ids :: "('p, 'r) client_state \<Rightarrow> uuid \<Rightarrow> u64 option \<Rightarrow> u64 list" where
  "room_user_ids s room exclude =
     map u_user_id (filter (\<lambda>u. u_current_room u = room \<and> Some (u_user_id u) \<noteq> exclude) (c_users s))"

text \<open>
  What an event does under the write lock: the new snapshot, the audio commands, the room to
  tell the file-transfer plugin and whether the permissions have to be recomputed.
\<close>

record ('p, 'r) room_change =
  rc_state :: "('p, 'r) client_state"
  rc_audio :: "client_effect list"
  rc_room :: "uuid option"
  rc_recompute :: bool

definition mutated :: "('p, 'r) client_state \<Rightarrow> bool \<Rightarrow> ('p, 'r) room_change" where
  "mutated s recompute = \<lparr>rc_state = s, rc_audio = [], rc_room = None, rc_recompute = recompute\<rparr>"

definition edit_room :: "uuid \<Rightarrow> (room \<Rightarrow> room) \<Rightarrow> ('p, 'r) client_state \<Rightarrow> ('p, 'r) client_state" where
  "edit_room u f s = s\<lparr>c_rooms := update_first (\<lambda>r. r_id r = u) f (c_rooms s)\<rparr>"

definition edit_user :: "u64 \<Rightarrow> (user \<Rightarrow> user) \<Rightarrow> ('p, 'r) client_state \<Rightarrow> ('p, 'r) client_state" where
  "edit_user u f s = s\<lparr>c_users := update_first (\<lambda>x. u_user_id x = u) f (c_users s)\<rparr>"

definition replace_full_state ::
  "client_env \<Rightarrow> room list \<Rightarrow> user list \<Rightarrow> group_def list \<Rightarrow> slash_command_def list \<Rightarrow> (uuid \<rightharpoonup> u32) \<Rightarrow>
     ('p, 'r) client_state \<Rightarrow> ('p, 'r) room_change" where
  "replace_full_state e rs us gs cs perms s =
     (let s1 = rebuild_room_tree (ce_order e)
            (s\<lparr>c_per_room_permissions := perms, c_rooms := rs, c_users := us,
               c_group_definitions := gs, c_slash_commands := cs\<rparr>);
          s2 = (case Option.bind (c_my_room_id s1) (c_per_room_permissions s1) of
                  Some p \<Rightarrow> s1\<lparr>c_effective_permissions := p\<rparr> | None \<Rightarrow> s1)
      in \<lparr>rc_state = s2,
          rc_audio =
            (case c_my_room_id s2 of
               Some room \<Rightarrow> [RoomChanged (room_user_ids s2 room (c_my_user_id s2))] | None \<Rightarrow> []) @
            (case Option.bind (c_my_user_id s2) (find_user (c_users s2)) of
               Some u \<Rightarrow> [SetServerMuted (u_server_muted u)] | None \<Rightarrow> []),
          rc_room = None, rc_recompute = True\<rparr>)"

definition enter_room :: "uuid \<Rightarrow> ('p, 'r) client_state \<Rightarrow> ('p, 'r) room_change" where
  "enter_room room s =
     (let s1 = s\<lparr>c_my_room_id := Some room\<rparr> in
      \<lparr>rc_state = s1, rc_audio = [RoomChanged (room_user_ids s1 room (c_my_user_id s1))],
       rc_room = Some room, rc_recompute = True\<rparr>)"

definition user_moved :: "u64 \<Rightarrow> uuid option \<Rightarrow> ('p, 'r) client_state \<Rightarrow> ('p, 'r) room_change" where
  "user_moved uid room s =
     (let from = map_option u_current_room (find_user (c_users s) uid);
          s1 = edit_user uid
                 (u_current_room_update (\<lambda>_. case room of Some r \<Rightarrow> r | None \<Rightarrow> ROOT_ROOM_UUID)) s
      in if c_my_user_id s = Some uid
         then (case room of Some r \<Rightarrow> enter_room r s1 | None \<Rightarrow> mutated s1 False)
         else (mutated s1 False)\<lparr>rc_audio :=
                (if c_my_room_id s \<noteq> None \<and> room = c_my_room_id s then [UserJoinedRoom uid]
                 else if c_my_room_id s \<noteq> None \<and> from = c_my_room_id s then [UserLeftRoom uid]
                 else [])\<rparr>)"

definition user_status_changed ::
  "u64 \<Rightarrow> bool \<Rightarrow> bool \<Rightarrow> bool \<Rightarrow> bool \<Rightarrow> ('p, 'r) client_state \<Rightarrow> ('p, 'r) room_change" where
  "user_status_changed uid muted deaf smuted elevated s =
     (case find_user (c_users s) uid of
        None \<Rightarrow> mutated s False
      | Some u \<Rightarrow>
          let mine = (c_my_user_id s = Some uid) in
          (mutated (edit_user uid (\<lambda>x. x\<lparr>u_is_muted := muted, u_is_deafened := deaf,
                                        u_server_muted := smuted, u_is_elevated := elevated\<rparr>) s)
             (mine \<and> u_is_elevated u \<noteq> elevated))
          \<lparr>rc_audio := (if mine \<and> u_server_muted u \<noteq> smuted then [SetServerMuted smuted] else [])\<rparr>)"

definition user_group_changed ::
  "u64 \<Rightarrow> string \<Rightarrow> bool \<Rightarrow> ('p, 'r) client_state \<Rightarrow> ('p, 'r) room_change" where
  "user_group_changed uid grp added s =
     (case find_user (c_users s) uid of
        None \<Rightarrow> mutated s False
      | Some u \<Rightarrow>
          let gs = (if added then push_new grp (u_groups u) else filter (\<lambda>g. g \<noteq> grp) (u_groups u)) in
          mutated (edit_user uid (u_groups_update (\<lambda>_. gs)) s)
            (length gs \<noteq> length (u_groups u) \<and> c_my_user_id s = Some uid))"

definition upsert_group :: "group_def \<Rightarrow> ('p, 'r) client_state \<Rightarrow> ('p, 'r) client_state" where
  "upsert_group g s =
     s\<lparr>c_group_definitions :=
        (if list_ex (\<lambda>x. g_name x = g_name g) (c_group_definitions s)
         then update_first (\<lambda>x. g_name x = g_name g) (\<lambda>_. g) (c_group_definitions s)
         else c_group_definitions s @ [g])\<rparr>"

definition room_mutation ::
  "client_env \<Rightarrow> room_event \<Rightarrow> ('p, 'r) client_state \<Rightarrow> ('p, 'r) room_change" where
  "room_mutation e ev s =
     (case ev of
        FullStateReplaced rs us gs cs perms \<Rightarrow> replace_full_state e rs us gs cs perms s
      | EvRoomAdded r \<Rightarrow> mutated (rebuild_room_tree (ce_order e) (s\<lparr>c_rooms := c_rooms s @ [r]\<rparr>)) True
      | EvRoomRemoved u \<Rightarrow>
          mutated (rebuild_room_tree (ce_order e) (s\<lparr>c_rooms := filter (\<lambda>r. r_id r \<noteq> u) (c_rooms s)\<rparr>)) True
      | EvRoomRenamed u name \<Rightarrow>
          mutated (rebuild_room_tree (ce_order e) (edit_room u (r_name_update (\<lambda>_. name)) s)) False
      | EvRoomMoved u p \<Rightarrow>
          mutated (rebuild_room_tree (ce_order e)
            (edit_room u (r_parent_update (\<lambda>_. case p of Some x \<Rightarrow> x | None \<Rightarrow> ROOT_ROOM_UUID)) s)) False
      | EvRoomDescriptionSet u d \<Rightarrow>
          mutated (rebuild_room_tree (ce_order e) (edit_room u (r_description_update (\<lambda>_. d)) s)) False
      | EvRoomAclChanged u inherit acls \<Rightarrow>
          mutated (edit_room u (\<lambda>r. r\<lparr>r_inherit_acl := inherit, r_acls := acls\<rparr>) s) True
      | EvUserJoined x \<Rightarrow>
          if list_ex (\<lambda>y. u_user_id y = u_user_id x) (c_users s) then mutated s False
          else (mutated (s\<lparr>c_users := c_users s @ [x]\<rparr>) False)
                 \<lparr>rc_audio := (if c_my_room_id s = Some (u_current_room x)
                               then [UserJoinedRoom (u_user_id x)] else [])\<rparr>
      | EvUserLeft uid \<Rightarrow>
          (mutated (s\<lparr>c_users := filter (\<lambda>x. u_user_id x \<noteq> uid) (c_users s)\<rparr>) False)
            \<lparr>rc_audio :=
               (case find_user (c_users s) uid of
                  Some x \<Rightarrow> if Some (u_current_room x) = c_my_room_id s then [UserLeftRoom uid] else []
                | None \<Rightarrow> [])\<rparr>
      | EvUserMoved uid room \<Rightarrow> user_moved uid room s
      | EvUserStatusChanged uid m d sm el \<Rightarrow> user_status_changed uid m d sm el s
      | EvUserGroupChanged uid grp added \<Rightarrow> user_group_changed uid grp added s
      | EvGroupAdded g \<Rightarrow> mutated (upsert_group g s) True
      | EvGroupModified g \<Rightarrow> mutated (upsert_group g s) True
      | EvGroupRemoved name \<Rightarrow>
          mutated (s\<lparr>c_group_definitions := filter (\<lambda>g. g_name g \<noteq> name) (c_group_definitions s)\<rparr>) True
      | RegisteredUsersReplaced us \<Rightarrow> mutated (s\<lparr>c_registered_users := us\<rparr>) False
      | SelfMovedToRoom room \<Rightarrow> enter_room room s
      | StateHashCheckpoint _ \<Rightarrow> mutated s False)"

definition client_apply_room ::
  "client_env \<Rightarrow> room_event \<Rightarrow> ('p, 'r) client_state \<Rightarrow> ('p, 'r) client_state \<times> client_effect list" where
  "client_apply_room e ev s =
     (case ev of
        StateHashCheckpoint expected \<Rightarrow> (s, verify_state_hash e expected s)
      | _ \<Rightarrow>
          let c = room_mutation e ev s in
          (if rc_recompute c then recompute_effective_permissions (rc_state c) else rc_state c,
           rc_audio c @
           (case rc_room c of Some r \<Rightarrow> if ce_file_transfer e then [FileTransferRoom r] else [] | None \<Rightarrow> []) @
           [Repaint]))"

section \<open>What the steps leave alone\<close>

lemma recompute_frame [simp]:
  "c_rooms (recompute_effective_permissions s) = c_rooms s"
  "c_users (recompute_effective_permissions s) = c_users s"
  "c_my_user_id (recompute_effective_permissions s) = c_my_user_id s"
  "c_my_room_id (recompute_effective_permissions s) = c_my_room_id s"
  "c_group_definitions (recompute_effective_permissions s) = c_group_definitions s"
  "c_room_tree (recompute_effective_permissions s) = c_room_tree s"
  "c_chat_messages (recompute_effective_permissions s) = c_chat_messages s"
  by (simp_all add: recompute_effective_permissions_def Let_def split: option.split)

lemma rebuild_room_tree_frame [simp]:
  "c_rooms (rebuild_room_tree order s) = c_rooms s" "c_users (rebuild_room_tree order s) = c_users s"
  "c_my_user_id (rebuild_room_tree order s) = c_my_user_id s"
  "c_my_room_id (rebuild_room_tree order s) = c_my_room_id s"
  "c_group_definitions (rebuild_room_tree order s) = c_group_definitions s"
  by (simp_all add: rebuild_room_tree_def)

lemma mutated_simps [simp]:
  "rc_state (mutated s b) = s" "rc_audio (mutated s b) = []" "rc_room (mutated s b) = None"
  "rc_recompute (mutated s b) = b"
  by (simp_all add: mutated_def)

lemma edit_simps [simp]:
  "c_rooms (edit_room u f s) = update_first (\<lambda>r. r_id r = u) f (c_rooms s)"
  "c_users (edit_room u f s) = c_users s" "c_rooms (edit_user uid g s) = c_rooms s"
  "c_users (edit_user uid g s) = update_first (\<lambda>x. u_user_id x = uid) g (c_users s)"
  by (simp_all add: edit_room_def edit_user_def)

lemma client_apply_room_tables:
  "c_rooms (fst (client_apply_room e ev s)) = c_rooms (rc_state (room_mutation e ev s))"
  "c_users (fst (client_apply_room e ev s)) = c_users (rc_state (room_mutation e ev s))"
  by (cases ev; simp add: client_apply_room_def room_mutation_def Let_def)+

lemma find_user_update_first:
  assumes "\<And>x. u_user_id (f x) = u_user_id x"
  shows "find_user (update_first (\<lambda>x. u_user_id x = u) f us) v =
    (if v = u then map_option f (find_user us u) else find_user us v)"
  by (induction us) (auto simp: find_user_def assms)

lemma find_user_append:
  "find_user (us @ [x]) v = (case find_user us v of Some y \<Rightarrow> Some y | None \<Rightarrow> if u_user_id x = v then Some x else None)"
  by (induction us) (auto simp: find_user_def)

lemma find_user_retain: "find_user (filter (\<lambda>x. u_user_id x \<noteq> uid) us) v = (if v = uid then None else find_user us v)"
  by (induction us) (auto simp: find_user_def)

lemma find_room_append:
  "find_room (rs @ [r]) v = (case find_room rs v of Some y \<Rightarrow> Some y | None \<Rightarrow> if r_id r = v then Some r else None)"
  by (induction rs) (auto simp: find_room_def)

lemma find_room_retain: "find_room (filter (\<lambda>r. r_id r \<noteq> u) rs) v = (if v = u then None else find_room rs v)"
  by (induction rs) (auto simp: find_room_def)

lemma find_user_None_iff: "find_user us uid = None \<longleftrightarrow> (\<forall>x \<in> set us. u_user_id x \<noteq> uid)"
  by (auto simp: find_user_def find_None_iff)

lemma find_room_None_iff: "find_room rs u = None \<longleftrightarrow> (\<forall>r \<in> set rs. r_id r \<noteq> u)"
  by (auto simp: find_room_def find_None_iff)

lemma client_permissions_recompute [simp]:
  "client_permissions (recompute_effective_permissions s) = client_permissions s"
  by (simp add: client_permissions_def fun_eq_iff)

lemma recompute_per_room:
  assumes "c_my_user_id s = Some me" and "u \<in> r_id ` set (c_rooms s)"
  shows "c_per_room_permissions (recompute_effective_permissions s) u = Some (client_permissions s me u)"
proof -
  have "fold (\<lambda>r m. m(r_id r \<mapsto> f (r_id r))) l m u = (if u \<in> r_id ` set l then Some (f u) else m u)"
    for f :: "uuid \<Rightarrow> u32" and l m
    by (induction l arbitrary: m) auto
  from this [of "client_permissions s me" "c_rooms s" Map.empty] assms show ?thesis
    unfolding recompute_effective_permissions_def Let_def by (auto split: option.split)
qed

section \<open>The chain of the client\<close>

lemma client_chain_walk_path:
  "path_to_root rs u xs \<Longrightarrow> set acc \<inter> set xs = {} \<Longrightarrow> client_chain_walk rs u acc = acc @ xs"
proof (induction arbitrary: acc rule: path_to_root.induct)
  case root
  then show ?case by (simp add: client_chain_walk.simps [of rs])
next
  case (step u r xs)
  have "u \<notin> set xs"
    using path_to_root_distinct [OF path_to_root.step [OF step.hyps(1-3)]] by simp
  with step.prems have "set (acc @ [u]) \<inter> set xs = {}" by auto
  from step.IH [OF this] step.prems step.hyps show ?case
    by (simp add: client_chain_walk.simps [of rs u])
qed

lemma client_room_path_exact:
  assumes "path_to_root rs u xs"
  shows "client_room_path rs u = rev xs"
proof -
  have "client_chain_walk rs u [] = xs" using client_chain_walk_path [OF assms, of "[]"] by simp
  moreover have "rev xs \<noteq> []" "hd (rev xs) = ROOT_ROOM_UUID"
    using path_to_root_ends [OF assms] by (simp_all add: hd_rev)
  ultimately show ?thesis
    using path_to_root_distinct [OF assms] by (simp add: client_room_path_def dedup_distinct)
qed

lemma client_chain_walk_distinct:
  "distinct path \<Longrightarrow> distinct (client_chain_walk rs u path)"
proof (induction rs u path rule: client_chain_walk.induct)
  case (1 rs u path)
  then show ?case
    by (auto simp: client_chain_walk.simps [of rs u path] Let_def split: option.split)
qed

lemma client_chain_walk_subset:
  "set (client_chain_walk rs u path) \<subseteq> insert u (set path \<union> r_parent ` set rs)"
proof (induction rs u path rule: client_chain_walk.induct)
  case (1 rs u path)
  show ?case
  proof (cases "u \<in> set path \<or> u = ROOT_ROOM_UUID \<or> find_room rs u = None")
    case True
    then show ?thesis by (auto simp: client_chain_walk.simps [of rs u path] Let_def split: option.split)
  next
    case False
    then obtain r where r: "find_room rs u = Some r" by auto
    then have "r \<in> set rs" by (auto simp: find_room_def dest: find_Some_set)
    with False r 1 [of "path @ [u]" r] show ?thesis
      by (auto simp: client_chain_walk.simps [of rs u path] Let_def)
  qed
qed

lemma client_acl_find:
  assumes "distinct (map r_id rs)"
  shows "client_acl rs u =
    (case find_room rs u of
       None \<Rightarrow> None
     | Some r \<Rightarrow> if r_acls r = [] then None
         else Some \<lparr>ra_inherit_acl = r_inherit_acl r, ra_entries = map acl_entry_of_room (r_acls r)\<rparr>)"
  using assms
proof (induction rs)
  case (Cons r rs)
  have "List.find (\<lambda>x. r_id x = r_id r \<and> P x) rs = None" for P
    using Cons.prems by (auto simp: find_None_iff) (metis image_eqI)
  with Cons show ?case by (auto simp: client_acl_def find_room_def)
qed (simp add: client_acl_def find_room_def)

section \<open>The chat log\<close>

lemma merge_fold:
  "fold merge_message ms (log, ids, added) = (log', ids', added') \<Longrightarrow>
     \<exists>new. log' = log @ new \<and> ids' = ids \<union> ce_id ` set ms \<and> distinct (map ce_id new) \<and>
       ce_id ` set new = ce_id ` set ms - ids \<and> set new \<subseteq> set ms \<and> (added' \<longleftrightarrow> added \<or> new \<noteq> [])"
proof (induction ms arbitrary: log ids added)
  case (Cons m ms)
  have step: "merge_message m (log, ids, added) =
      (if ce_id m \<in> ids then (log, ids, added) else (log @ [m], insert (ce_id m) ids, True))"
    by (simp add: merge_message_def)
  show ?case
  proof (cases "ce_id m \<in> ids")
    case True
    with Cons.prems have "fold merge_message ms (log, ids, added) = (log', ids', added')"
      by (simp add: step)
    with Cons.IH True show ?thesis by fastforce
  next
    case False
    with Cons.prems have "fold merge_message ms (log @ [m], insert (ce_id m) ids, True) = (log', ids', added')"
      by (simp add: step)
    from Cons.IH [OF this] obtain new where new: "log' = (log @ [m]) @ new"
        "ids' = insert (ce_id m) ids \<union> ce_id ` set ms" "distinct (map ce_id new)"
        "ce_id ` set new = ce_id ` set ms - insert (ce_id m) ids" "set new \<subseteq> set ms" "added'"
      by blast
    then show ?thesis using False by (intro exI [of _ "m # new"]) auto
  qed
qed auto

text \<open>C39: Chat events only add to the log, and a reader can tell when it was reordered. While every
  identifier of the log is in the set kept beside it, every chat event keeps that so and loses no
  entry; as long as the epoch is unchanged, the old log is a prefix of the new one. A message that
  comes over the wire is appended exactly when its identifier is new; of a merged history exactly
  one message for every new identifier enters, and the log is left in the order of its timestamps.
  Starting a new connection, which is not a chat event, empties the log and the set.\<close>

theorem chat_log_spec:
  assumes "ce_id ` set (c_chat_messages s) \<subseteq> ids" and "apply_chat e ev (s, ids) = ((s', ids'), fs)"
  shows "ce_id ` set (c_chat_messages s') \<subseteq> ids' \<and> ids \<subseteq> ids' \<and>
    mset (c_chat_messages s) \<subseteq># mset (c_chat_messages s') \<and>
    (c_chat_epoch s' = c_chat_epoch s \<longrightarrow> (\<exists>new. c_chat_messages s' = c_chat_messages s @ new)) \<and>
    (\<forall>m. ev = MessageAdded m \<longrightarrow> c_chat_messages s' = c_chat_messages s @ (if ce_id m \<in> ids then [] else [m]) \<and>
       ids' = insert (ce_id m) ids \<and>
       (distinct (map ce_id (c_chat_messages s)) \<longrightarrow> distinct (map ce_id (c_chat_messages s')))) \<and>
    (\<forall>ms. ev = HistoryMerged ms \<longrightarrow> ids' = ids \<union> ce_id ` set ms \<and>
       (\<exists>new. mset (c_chat_messages s') = mset (c_chat_messages s) + mset new \<and> distinct (map ce_id new) \<and>
          set new \<subseteq> set ms \<and> ce_id ` set new = ce_id ` set ms - ids) \<and>
       (distinct (map ce_id (c_chat_messages s)) \<longrightarrow> distinct (map ce_id (c_chat_messages s'))) \<and>
       (c_chat_messages s' \<noteq> c_chat_messages s \<longrightarrow> sorted (map ce_timestamp (c_chat_messages s'))))"
proof (cases ev)
  case (HistoryMerged ms)
  obtain log' ids2 added where f: "fold merge_message ms (c_chat_messages s, ids, False) = (log', ids2, added)"
    by (cases "fold merge_message ms (c_chat_messages s, ids, False)") auto
  from merge_fold [OF this] obtain new where new: "log' = c_chat_messages s @ new" "ids2 = ids \<union> ce_id ` set ms"
      "distinct (map ce_id new)" "ce_id ` set new = ce_id ` set ms - ids" "set new \<subseteq> set ms" "added \<longleftrightarrow> new \<noteq> []"
    by auto
  have i: "ids' = ids2" using assms(2) by (simp add: HistoryMerged apply_chat_def f)
  have log: "c_chat_messages s' = (if new = [] then c_chat_messages s else sort_key ce_timestamp log')"
    and ep: "c_chat_epoch s' = (if new = [] then c_chat_epoch s else c_chat_epoch s + 1)"
    using assms(2) new(1,6) by (auto simp: HistoryMerged apply_chat_def f)
  have "distinct (map ce_id log')" if "distinct (map ce_id (c_chat_messages s))"
    using that new assms(1) by auto
  then have "distinct (map ce_id (c_chat_messages s'))" if "distinct (map ce_id (c_chat_messages s))"
    using that unfolding log by (simp add: distinct_map)
  moreover have "mset (c_chat_messages s) \<subseteq># mset (c_chat_messages s')" by (simp add: log new(1))
  moreover have "ce_id ` set (c_chat_messages s') \<subseteq> ids'" using assms(1) new i by (auto simp: log)
  moreover have "\<exists>l. c_chat_messages s' = c_chat_messages s @ l" if "c_chat_epoch s' = c_chat_epoch s"
    using that ep by (auto simp: log split: if_splits)
  moreover have "\<exists>n. mset (c_chat_messages s') = mset (c_chat_messages s) + mset n \<and> distinct (map ce_id n) \<and>
      set n \<subseteq> set ms \<and> ce_id ` set n = ce_id ` set ms - ids"
    using new by (intro exI [of _ new]) (simp add: log)
  ultimately show ?thesis
    using new(2) i by (auto simp: HistoryMerged log)
qed (use assms in \<open>auto simp: apply_chat_def push_chat_def image_subset_iff split: if_splits\<close>)

definition sample_chat :: "uuid \<Rightarrow> system_time \<Rightarrow> chat_entry" where
  "sample_chat i t = \<lparr>ce_id = i, ce_sender = ''bob'', ce_sender_id = Some 2, ce_text = ''hi'', ce_timestamp = t,
     ce_kind = ChatRoom, ce_attachment = None, ce_visibility = VisNormal\<rparr>"

definition sample_task_env :: client_env where
  "sample_task_env = \<lparr>ce_order = id, ce_new_id = 9, ce_now = 0, ce_file_transfer = True,
     ce_encode_state = (\<lambda>_. []), ce_blake3 = (\<lambda>_. 0)\<rparr>"

theorem chat_log_spec_witness:
  "\<exists>s' ids' fs. apply_chat sample_task_env (HistoryMerged [sample_chat 1 20, sample_chat 2 10]) (fresh_client, {}) = ((s', ids'), fs) \<and>
     sorted (map ce_timestamp (c_chat_messages s'))"
proof -
  obtain s' ids' fs where r: "apply_chat sample_task_env (HistoryMerged [sample_chat 1 20, sample_chat 2 10]) (fresh_client, {}) =
      ((s', ids'), fs)"
    by (metis prod.exhaust)
  then have "c_chat_messages s' \<noteq> c_chat_messages fresh_client"
    by (auto simp: apply_chat_def fresh_client_def merge_message_def sample_chat_def)
  with chat_log_spec [OF _ r] r show ?thesis by (auto simp: fresh_client_def)
qed

end
