(* ===== verification/Mirror.thy ===== *)
theory Mirror
  imports Dispatch Projection
begin

text \<open>
  The connection between the two ends: how a client turns a message of the server into events
  (\<open>handle_server_message\<close> and \<open>apply_state_update\<close> of \<open>rumble-client/src/handle.rs\<close>), and that
  a client which applies the announced updates in order keeps a true copy of the rooms and
  users of the server, so that the hash of the server confirms it. The abstract side is a
  view: rooms and users as finite maps, without the permission overlay.
\<close>

section \<open>Translation of server messages\<close>

definition state_update_events :: "update_msg \<Rightarrow> room_event list" where
  "state_update_events u =
     (case u of
        RoomCreated info \<Rightarrow> (case room_from_proto info of Some r \<Rightarrow> [EvRoomAdded r] | None \<Rightarrow> [])
      | RoomDeleted i _ \<Rightarrow> (case uuid_from_room_id i of Some r \<Rightarrow> [EvRoomRemoved r] | None \<Rightarrow> [])
      | RoomRenamed i name \<Rightarrow> (case uuid_from_room_id i of Some r \<Rightarrow> [EvRoomRenamed r name] | None \<Rightarrow> [])
      | RoomMoved i p \<Rightarrow>
          (case Option.bind i uuid_from_room_id of
             Some r \<Rightarrow> [EvRoomMoved r (Option.bind p uuid_from_room_id)] | None \<Rightarrow> [])
      | RoomDescriptionChanged i d \<Rightarrow>
          (case uuid_from_room_id i of
             Some r \<Rightarrow> [EvRoomDescriptionSet r (if d = [] then None else Some d)] | None \<Rightarrow> [])
      | UserJoined info \<Rightarrow> (case user_from_proto info of Some x \<Rightarrow> [EvUserJoined x] | None \<Rightarrow> [])
      | UserLeft uid \<Rightarrow> [EvUserLeft uid]
      | UserMoved uid i \<Rightarrow> [EvUserMoved uid (uuid_from_room_id i)]
      | UserStatusChanged uid m d sm el \<Rightarrow> [EvUserStatusChanged uid m d sm el]
      | GroupChanged g deleted \<Rightarrow>
          if deleted then [EvGroupRemoved (gi_name g)] else [EvGroupModified (group_from_proto g)]
      | UserGroupChanged uid grp added _ \<Rightarrow> [EvUserGroupChanged uid grp added]
      | RoomAclChanged i inherit entries \<Rightarrow>
          (case uuid_from_room_id i of
             Some r \<Rightarrow> [EvRoomAclChanged r inherit (map acl_entry_from_proto entries)] | None \<Rightarrow> []))"

definition apply_state_update :: "bytes \<Rightarrow> update_msg \<Rightarrow> room_event list" where
  "apply_state_update expected_hash u =
     state_update_events u @ (if expected_hash = [] then [] else [StateHashCheckpoint expected_hash])"

definition server_state_event :: "server_state_msg \<Rightarrow> room_event" where
  "server_state_event ss =
     (let rs = List.map_filter room_from_proto (ss_rooms ss) in
      FullStateReplaced rs (List.map_filter user_from_proto (ss_users ss))
        (map group_from_proto (ss_groups ss)) (map slash_command_from_proto (ss_slash_commands ss))
        (fold (\<lambda>r m. m(r_id r \<mapsto> r_effective_permissions r)) rs Map.empty))"

datatype emission =
    ToChat chat_event
  | ToConnection connection_event
  | ToRoom room_event
  | ToastWarn string
  | ToastError string
  | ShareChatHistory

record message_env =
  me_new_id :: uuid
  me_now :: system_time
  me_from_str :: "string \<Rightarrow> json option"
  me_from_value :: "json \<Rightarrow> history_content option"
  me_hex_decode :: "string \<Rightarrow> bytes option"

definition message_id :: "message_env \<Rightarrow> bytes \<Rightarrow> uuid" where
  "message_id e bs = (if length bs = 16 then from_be_bytes bs else me_new_id e)"

definition message_time :: "message_env \<Rightarrow> i64 \<Rightarrow> system_time" where
  "message_time e ms = (if 0 <s ms then time_of_millis ms else me_now e)"

definition handle_chat_broadcast ::
  "message_env \<Rightarrow> ('p, 'r) client_state \<Rightarrow> chat_broadcast \<Rightarrow> emission list" where
  "handle_chat_broadcast e s cb =
     (if history_request_parse (me_from_str e) (cb_text cb) \<noteq> None then [ShareChatHistory]
      else case history_share_parse (me_from_str e) (me_from_value e) (cb_text cb) of
        Some content \<Rightarrow>
          let to_add = filter (\<lambda>m. ce_id m \<notin> ce_id ` set (c_chat_messages s))
                         (history_to_messages (me_hex_decode e) content)
          in if to_add = [] then [] else [ToChat (HistoryMerged to_add)]
      | None \<Rightarrow>
          [ToChat (MessageAdded
             \<lparr>ce_id = message_id e (cb_id cb), ce_sender = cb_sender cb,
              ce_sender_id = (if cb_sender_id cb \<noteq> 0 then Some (cb_sender_id cb) else None),
              ce_text = cb_text cb, ce_timestamp = message_time e (cb_timestamp_ms cb),
              ce_kind = (if cb_tree cb = Some True then ChatTree else ChatRoom),
              ce_attachment = map_option chat_attachment_from_proto (cb_attachment cb),
              ce_visibility = VisNormal\<rparr>)])"

text \<open>The marks before a command result are U+2714 and U+2716 in UTF-8.\<close>

definition result_mark :: "bool \<Rightarrow> string" where
  "result_mark ok = [CHR 0xE2, CHR 0x9C, if ok then CHR 0x94 else CHR 0x96]"

definition handle_server_message ::
  "message_env \<Rightarrow> ('p, 'r) client_state \<Rightarrow> server_msg \<Rightarrow> emission list" where
  "handle_server_message e s msg =
     (case msg of
        CommandResult command success txt \<Rightarrow>
          (if \<not> success \<and> command = ''SetRoomAcl'' then [ToastError txt] else []) @
          [ToChat (SystemNotice (result_mark success @ '' '' @ txt))]
      | ServerStateEvent ss \<Rightarrow> [ToRoom (server_state_event ss)]
      | StateUpdate hash u \<Rightarrow> map ToRoom (apply_state_update hash u)
      | ChatBroadcast cb \<Rightarrow> handle_chat_broadcast e s cb
      | DirectMessageReceived dm \<Rightarrow>
          [ToChat (MessageAdded
             \<lparr>ce_id = message_id e (dr_id dm), ce_sender = dr_sender_name dm,
              ce_sender_id = Some (dr_sender_id dm), ce_text = dr_text dm,
              ce_timestamp = message_time e (dr_timestamp_ms dm),
              ce_kind = ChatDirect (dr_sender_id dm) (dr_sender_name dm),
              ce_attachment = None, ce_visibility = VisNormal\<rparr>)]
      | WelcomeMessage txt \<Rightarrow> [ToChat (SystemNotice txt)]
      | PermissionDenied pd \<Rightarrow>
          [ToastWarn (pd_message pd), ToConnection (EvPermissionDenied (pd_message pd))]
      | UserKicked uid reason by_whom \<Rightarrow>
          if c_my_user_id s = Some uid
          then [ToConnection (EvKicked
                  (if reason = [] then ''Kicked by '' @ by_whom
                   else ''Kicked by '' @ by_whom @ '': '' @ reason))]
          else []
      | RegisteredUsers us \<Rightarrow>
          [ToRoom (RegisteredUsersReplaced (List.map_filter registered_user_from_proto us))]
      | _ \<Rightarrow> [])"

text \<open>The room channel keeps the order of its events.\<close>

fun run_room_events ::
  "client_env \<Rightarrow> room_event list \<Rightarrow> ('p, 'r) client_state \<Rightarrow> ('p, 'r) client_state \<times> client_effect list" where
  "run_room_events e [] s = (s, [])"
| "run_room_events e (ev # evs) s =
     (case client_apply_room e ev s of
        (s1, fs) \<Rightarrow> (case run_room_events e evs s1 of (s2, gs) \<Rightarrow> (s2, fs @ gs)))"

section \<open>Views\<close>

type_synonym view = "(uuid \<rightharpoonup> room) \<times> (u64 \<rightharpoonup> user)"

definition plain_room :: "room \<Rightarrow> room" where
  "plain_room r = r\<lparr>r_effective_permissions := 0\<rparr>"

definition view_of :: "room list \<Rightarrow> user list \<Rightarrow> view" where
  "view_of rs us = (\<lambda>u. map_option plain_room (find_room rs u), find_user us)"

definition client_view :: "('p, 'r) client_state \<Rightarrow> view" where
  "client_view s = view_of (c_rooms s) (c_users s)"

definition server_view :: "server_state \<Rightarrow> view" where
  "server_view s = view_of (get_rooms s) (build_user_list s)"

definition edit_at :: "'k \<Rightarrow> ('v \<Rightarrow> 'v) \<Rightarrow> ('k \<rightharpoonup> 'v) \<Rightarrow> ('k \<rightharpoonup> 'v)" where
  "edit_at k f m = m(k := map_option f (m k))"

definition add_at :: "'k \<Rightarrow> 'v \<Rightarrow> ('k \<rightharpoonup> 'v) \<Rightarrow> ('k \<rightharpoonup> 'v)" where
  "add_at k v m = (if m k = None then m(k \<mapsto> v) else m)"

text \<open>What an update means for a view.\<close>

definition announce :: "update_msg \<Rightarrow> view \<Rightarrow> view" where
  "announce u v =
     (case u of
        RoomCreated info \<Rightarrow>
          (case room_from_proto info of
             Some r \<Rightarrow> apfst (add_at (r_id r) (plain_room r)) v | None \<Rightarrow> v)
      | RoomDeleted i _ \<Rightarrow>
          (case uuid_from_room_id i of Some r \<Rightarrow> apfst (\<lambda>m. m(r := None)) v | None \<Rightarrow> v)
      | RoomRenamed i name \<Rightarrow>
          (case uuid_from_room_id i of
             Some r \<Rightarrow> apfst (edit_at r (r_name_update (\<lambda>_. name))) v | None \<Rightarrow> v)
      | RoomMoved i p \<Rightarrow>
          (case Option.bind i uuid_from_room_id of
             Some r \<Rightarrow> apfst (edit_at r (r_parent_update (\<lambda>_. requested_room p))) v | None \<Rightarrow> v)
      | RoomDescriptionChanged i d \<Rightarrow>
          (case uuid_from_room_id i of
             Some r \<Rightarrow> apfst (edit_at r (r_description_update (\<lambda>_. if d = [] then None else Some d))) v
           | None \<Rightarrow> v)
      | RoomAclChanged i inherit entries \<Rightarrow>
          (case uuid_from_room_id i of
             Some r \<Rightarrow> apfst (edit_at r (\<lambda>x. x\<lparr>r_inherit_acl := inherit,
                                              r_acls := map acl_entry_from_proto entries\<rparr>)) v
           | None \<Rightarrow> v)
      | UserJoined info \<Rightarrow>
          (case user_from_proto info of Some x \<Rightarrow> apsnd (add_at (u_user_id x) x) v | None \<Rightarrow> v)
      | UserLeft uid \<Rightarrow> apsnd (\<lambda>m. m(uid := None)) v
      | UserMoved uid i \<Rightarrow>
          apsnd (edit_at uid (u_current_room_update (\<lambda>_. requested_room (Some i)))) v
      | UserStatusChanged uid m d sm el \<Rightarrow>
          apsnd (edit_at uid (\<lambda>x. x\<lparr>u_is_muted := m, u_is_deafened := d, u_server_muted := sm,
                                   u_is_elevated := el\<rparr>)) v
      | UserGroupChanged uid grp added _ \<Rightarrow>
          apsnd (edit_at uid (\<lambda>x. x\<lparr>u_groups :=
            (if added then push_new grp (u_groups x) else filter (\<lambda>g. g \<noteq> grp) (u_groups x))\<rparr>)) v
      | GroupChanged _ _ \<Rightarrow> v)"

subsection \<open>The client implements the meaning of updates\<close>

lemma view_of_edit_room:
  assumes "\<And>r. r_id (f r) = r_id r" and "\<And>r. plain_room (f r) = f (plain_room r)"
  shows "view_of (update_first (\<lambda>r. r_id r = u) f rs) us = apfst (edit_at u f) (view_of rs us)"
  by (auto simp: view_of_def edit_at_def find_room_update_first assms option.map_comp comp_def fun_eq_iff)

lemma view_of_edit_user:
  assumes "\<And>x. u_user_id (f x) = u_user_id x"
  shows "view_of rs (update_first (\<lambda>x. u_user_id x = u) f us) = apsnd (edit_at u f) (view_of rs us)"
  by (auto simp: view_of_def edit_at_def find_user_update_first assms fun_eq_iff)

lemma view_of_drop_room: "view_of (filter (\<lambda>r. r_id r \<noteq> u) rs) us = apfst (\<lambda>m. m(u := None)) (view_of rs us)"
  by (auto simp: view_of_def find_room_retain fun_eq_iff)

lemma view_of_drop_user: "view_of rs (filter (\<lambda>x. u_user_id x \<noteq> u) us) = apsnd (\<lambda>m. m(u := None)) (view_of rs us)"
  by (auto simp: view_of_def find_user_retain fun_eq_iff)

lemma view_of_add_room: "view_of (rs @ [r]) us = apfst (add_at (r_id r) (plain_room r)) (view_of rs us)"
  by (auto simp: view_of_def add_at_def find_room_append fun_eq_iff split: option.splits)

lemma view_of_add_user:
  "view_of rs (us @ [x]) = apsnd (add_at (u_user_id x) x) (view_of rs us)"
  by (auto simp: view_of_def add_at_def find_user_append fun_eq_iff split: option.splits)

lemma view_of_known_user:
  "list_ex (\<lambda>y. u_user_id y = u_user_id x) us \<Longrightarrow> apsnd (add_at (u_user_id x) x) (view_of rs us) = view_of rs us"
  by (auto simp: view_of_def add_at_def find_user_None_iff list_ex_iff)

lemma view_of_unknown_user:
  "find_user us uid = None \<Longrightarrow> apsnd (edit_at uid f) (view_of rs us) = view_of rs us"
  by (auto simp: view_of_def edit_at_def fun_eq_iff)

lemmas view_of_simps = view_of_drop_room view_of_drop_user view_of_add_room view_of_add_user
  view_of_known_user view_of_unknown_user

lemma plain_room_simps [simp]:
  "plain_room (r\<lparr>r_name := n\<rparr>) = (plain_room r)\<lparr>r_name := n\<rparr>"
  "plain_room (r\<lparr>r_parent := p\<rparr>) = (plain_room r)\<lparr>r_parent := p\<rparr>"
  "plain_room (r\<lparr>r_description := d\<rparr>) = (plain_room r)\<lparr>r_description := d\<rparr>"
  "plain_room (r\<lparr>r_inherit_acl := i\<rparr>) = (plain_room r)\<lparr>r_inherit_acl := i\<rparr>"
  "plain_room (r\<lparr>r_acls := a\<rparr>) = (plain_room r)\<lparr>r_acls := a\<rparr>"
  "r_id (plain_room r) = r_id r"
  by (simp_all add: plain_room_def)

definition event_view :: "room_event \<Rightarrow> view \<Rightarrow> view" where
  "event_view ev v =
     (case ev of
        EvRoomAdded r \<Rightarrow> apfst (add_at (r_id r) (plain_room r)) v
      | EvRoomRemoved r \<Rightarrow> apfst (\<lambda>m. m(r := None)) v
      | EvRoomRenamed r name \<Rightarrow> apfst (edit_at r (r_name_update (\<lambda>_. name))) v
      | EvRoomMoved r p \<Rightarrow> apfst (edit_at r (r_parent_update (\<lambda>_. case p of Some x \<Rightarrow> x | None \<Rightarrow> ROOT_ROOM_UUID))) v
      | EvRoomDescriptionSet r d \<Rightarrow> apfst (edit_at r (r_description_update (\<lambda>_. d))) v
      | EvRoomAclChanged r i a \<Rightarrow> apfst (edit_at r (\<lambda>x. x\<lparr>r_inherit_acl := i, r_acls := a\<rparr>)) v
      | EvUserJoined x \<Rightarrow> apsnd (add_at (u_user_id x) x) v
      | EvUserLeft uid \<Rightarrow> apsnd (\<lambda>m. m(uid := None)) v
      | EvUserMoved uid p \<Rightarrow>
          apsnd (edit_at uid (u_current_room_update (\<lambda>_. case p of Some x \<Rightarrow> x | None \<Rightarrow> ROOT_ROOM_UUID))) v
      | EvUserStatusChanged uid m d sm el \<Rightarrow>
          apsnd (edit_at uid (\<lambda>x. x\<lparr>u_is_muted := m, u_is_deafened := d, u_server_muted := sm,
                                   u_is_elevated := el\<rparr>)) v
      | EvUserGroupChanged uid grp added \<Rightarrow>
          apsnd (edit_at uid (\<lambda>x. x\<lparr>u_groups :=
            (if added then push_new grp (u_groups x) else filter (\<lambda>g. g \<noteq> grp) (u_groups x))\<rparr>)) v
      | FullStateReplaced rs us _ _ _ \<Rightarrow> view_of rs us
      | _ \<Rightarrow> v)"

lemma user_group_view:
  "client_view (rc_state (user_group_changed uid grp added s)) =
     event_view (EvUserGroupChanged uid grp added) (client_view s)"
  by (auto simp: user_group_changed_def event_view_def client_view_def view_of_def edit_at_def
      find_user_update_first fun_eq_iff Let_def split: option.split)

lemma mutation_view: "client_view (rc_state (room_mutation e ev s)) = event_view ev (client_view s)"
proof (cases ev)
  case (EvUserGroupChanged uid grp added)
  then show ?thesis by (simp add: user_group_view room_mutation_def)
qed (simp_all add: room_mutation_def event_view_def client_view_def view_of_edit_room view_of_edit_user
      view_of_simps user_moved_def enter_room_def user_status_changed_def upsert_group_def
      replace_full_state_def Let_def split: option.split)

lemma client_apply_room_view: "client_view (fst (client_apply_room e ev s)) = event_view ev (client_view s)"
  using mutation_view [of e ev s] by (simp add: client_view_def client_apply_room_tables)

lemma run_room_events_append:
  "run_room_events e (xs @ ys) s =
     (let r1 = run_room_events e xs s; r2 = run_room_events e ys (fst r1)
      in (fst r2, snd r1 @ snd r2))"
  by (induction xs arbitrary: s) (simp_all add: Let_def case_prod_beta)

lemma run_room_events_view:
  "client_view (fst (run_room_events e evs s)) = fold event_view evs (client_view s)"
  by (induction evs arbitrary: s) (simp_all add: case_prod_beta client_apply_room_view)

lemma fold_events_announce: "fold event_view (apply_state_update hash u) v = announce u v"
proof -
  have "event_view (StateHashCheckpoint h) v = v" for h v by (simp add: event_view_def)
  then have "fold event_view (apply_state_update hash u) v = fold event_view (state_update_events u) v"
    by (simp add: apply_state_update_def)
  also have "\<dots> = announce u v"
    by (cases u) (simp_all add: state_update_events_def announce_def event_view_def requested_room_def
        split: option.split)
  finally show ?thesis .
qed

lemma update_view:
  "client_view (fst (run_room_events e (apply_state_update hash u) s)) = announce u (client_view s)"
  by (simp add: run_room_events_view fold_events_announce)

subsection \<open>Equal views have equal hashes\<close>

definition tables_ok :: "room list \<Rightarrow> user list \<Rightarrow> bool" where
  "tables_ok rs us \<longleftrightarrow> distinct (map r_id rs) \<and> distinct (map u_user_id us)"

definition client_ok :: "('p, 'r) client_state \<Rightarrow> bool" where
  "client_ok s \<longleftrightarrow> tables_ok (c_rooms s) (c_users s)"

lemma view_of_plain: "view_of (map plain_room rs) us = view_of rs us"
proof -
  have "plain_room (plain_room r) = plain_room r" for r by (simp add: plain_room_def)
  then have "map_option plain_room (find_room (map plain_room rs) u) = map_option plain_room (find_room rs u)" for u
    by (induction rs) (simp_all add: find_room_def)
  then show ?thesis by (simp add: view_of_def)
qed

lemma view_of_eq_sets:
  assumes "view_of rs us = view_of rs' us'" and "tables_ok rs us"
  shows "plain_room ` set rs \<subseteq> plain_room ` set rs'" and "set us \<subseteq> set us'"
proof -
  show "plain_room ` set rs \<subseteq> plain_room ` set rs'"
  proof (rule image_subsetI)
    fix r assume r: "r \<in> set rs"
    then have "find_room rs (r_id r) = Some r"
      using assms(2) by (simp add: tables_ok_def find_room_distinct)
    moreover have "map_option plain_room (find_room rs (r_id r)) = map_option plain_room (find_room rs' (r_id r))"
      using assms(1) unfolding view_of_def prod.inject by meson
    ultimately have "map_option plain_room (find_room rs' (r_id r)) = Some (plain_room r)"
      by (simp only: option.map)
    then show "plain_room r \<in> plain_room ` set rs'"
      by (auto simp: find_room_def dest!: find_Some_set intro: rev_image_eqI)
  qed
  show "set us \<subseteq> set us'"
  proof
    fix x assume "x \<in> set us"
    then have "find_user us (u_user_id x) = Some x"
      using assms(2) by (simp add: tables_ok_def find_user_def find_distinct_key)
    then have "find_user us' (u_user_id x) = Some x"
      using assms(1) by (auto simp: view_of_def)
    then show "x \<in> set us'" by (auto simp: find_user_def dest: find_Some_set)
  qed
qed

lemma view_of_eq_mset:
  assumes "view_of rs us = view_of rs' us'" and "tables_ok rs us" and "tables_ok rs' us'"
  shows "mset (map plain_room rs) = mset (map plain_room rs')" and "mset us = mset us'"
proof -
  have d: "distinct (map plain_room l)" if "distinct (map r_id l)" for l
  proof -
    have "map r_id l = map r_id (map plain_room l)" by simp
    then show ?thesis using that by (metis distinct_map)
  qed
  have "distinct (map plain_room rs)" "distinct (map plain_room rs')"
    using assms(2,3) by (auto simp: tables_ok_def intro: d)
  moreover have "set (map plain_room rs) = set (map plain_room rs')"
    using view_of_eq_sets(1) [OF assms(1,2)] view_of_eq_sets(1) [OF assms(1) [symmetric] assms(3)] by auto
  ultimately show "mset (map plain_room rs) = mset (map plain_room rs')"
    by (simp only: set_eq_iff_mset_eq_distinct)
  have "distinct us" "distinct us'" using assms(2,3) by (auto simp: tables_ok_def distinct_map)
  moreover have "set us = set us'"
    using view_of_eq_sets(2) [OF assms(1,2)] view_of_eq_sets(2) [OF assms(1) [symmetric] assms(3)] by auto
  ultimately show "mset us = mset us'" by (simp only: set_eq_iff_mset_eq_distinct)
qed

lemma hash_of_view:
  assumes "view_of rs us = view_of rs' us'" and "tables_ok rs us" and "tables_ok rs' us'"
  shows "compute_server_state_hash encode b3
      \<lparr>ss_rooms = map to_hash_input rs, ss_users = map user_to_proto us, ss_groups = [], ss_slash_commands = []\<rparr> =
    compute_server_state_hash encode b3
      \<lparr>ss_rooms = map to_hash_input rs', ss_users = map user_to_proto us', ss_groups = [], ss_slash_commands = []\<rparr>"
proof -
  have h: "map to_hash_input l = map to_hash_input (map plain_room l)" for l
    by (simp add: to_hash_input_def room_to_proto_def plain_room_def)
  show ?thesis
    unfolding h [of rs] h [of rs']
    using view_of_eq_mset [OF assms] assms(2)
    by (intro hash_order_independent) (simp_all add: tables_ok_def comp_def)
qed

section \<open>A client that follows the server\<close>

definition event_fits :: "room_event \<Rightarrow> view \<Rightarrow> bool" where
  "event_fits ev v =
     (case ev of
        EvRoomAdded r \<Rightarrow> fst v (r_id r) = None
      | FullStateReplaced rs us _ _ _ \<Rightarrow> tables_ok rs us
      | _ \<Rightarrow> True)"

text \<open>A created room has to be new; every other update fits.\<close>

definition fits :: "update_msg \<Rightarrow> view \<Rightarrow> bool" where
  "fits u v =
     (case u of
        RoomCreated info \<Rightarrow> (case room_from_proto info of Some r \<Rightarrow> fst v (r_id r) = None | None \<Rightarrow> True)
      | _ \<Rightarrow> True)"

lemma distinct_update_first:
  "(\<And>x. key (f x) = key x) \<Longrightarrow> distinct (map key xs) \<Longrightarrow> distinct (map key (update_first P f xs))"
  by (simp add: map_update_first)

lemma tables_ok_edit:
  "tables_ok rs us \<Longrightarrow> (\<And>r. r_id (f r) = r_id r) \<Longrightarrow> tables_ok (update_first P f rs) us"
  "tables_ok rs us \<Longrightarrow> (\<And>x. u_user_id (g x) = u_user_id x) \<Longrightarrow> tables_ok rs (update_first Q g us)"
  by (simp_all add: tables_ok_def distinct_update_first)

lemma tables_ok_filter:
  "tables_ok rs us \<Longrightarrow> tables_ok (filter P rs) us" "tables_ok rs us \<Longrightarrow> tables_ok rs (filter Q us)"
  by (simp_all add: tables_ok_def distinct_map_filter)

lemma tables_ok_append:
  "tables_ok rs us \<Longrightarrow> find_room rs (r_id r) = None \<Longrightarrow> tables_ok (rs @ [r]) us"
  "tables_ok rs us \<Longrightarrow> \<not> list_ex (\<lambda>y. u_user_id y = u_user_id x) us \<Longrightarrow> tables_ok rs (us @ [x])"
  by (auto simp: tables_ok_def find_room_None_iff list_ex_iff)

lemma client_ok_mutation:
  assumes "client_ok s" and "event_fits ev (client_view s)"
  shows "client_ok (rc_state (room_mutation e ev s))"
proof (cases ev)
  case (EvRoomAdded r)
  with assms(2) have "find_room (c_rooms s) (r_id r) = None"
    by (simp add: event_fits_def client_view_def view_of_def)
  with EvRoomAdded assms(1) show ?thesis by (simp add: client_ok_def room_mutation_def tables_ok_append)
qed (use assms in \<open>simp_all add: client_ok_def room_mutation_def tables_ok_edit tables_ok_filter
      tables_ok_append event_fits_def user_moved_def enter_room_def user_status_changed_def
      user_group_changed_def upsert_group_def replace_full_state_def Let_def split: option.split\<close>)

lemma client_ok_apply_room:
  "client_ok s \<Longrightarrow> event_fits ev (client_view s) \<Longrightarrow> client_ok (fst (client_apply_room e ev s))"
  using client_ok_mutation [of s ev e] by (simp add: client_ok_def client_apply_room_tables)

definition no_resync :: "client_effect list \<Rightarrow> bool" where
  "no_resync fs \<longleftrightarrow> list_all (\<lambda>f. case f of ResyncRequested _ _ \<Rightarrow> False | _ \<Rightarrow> True) fs"

lemma no_resync_append [simp]: "no_resync (xs @ ys) \<longleftrightarrow> no_resync xs \<and> no_resync ys"
  by (simp add: no_resync_def)

lemma no_resync_mutation:
  assumes "\<And>h. ev \<noteq> StateHashCheckpoint h"
  shows "no_resync (snd (client_apply_room e ev s))"
proof (cases ev)
  case (StateHashCheckpoint h)
  with assms show ?thesis by blast
qed (simp_all add: client_apply_room_def room_mutation_def no_resync_def user_moved_def enter_room_def
      user_status_changed_def user_group_changed_def upsert_group_def replace_full_state_def Let_def
      split: option.split)

definition hash_ok :: "server_state \<Rightarrow> bool" where
  "hash_ok s \<longleftrightarrow> distinct (map r_id (get_rooms s)) \<and> distinct (map fst (memberships (data s))) \<and>
     (\<forall>r \<in> set (get_rooms s). r_effective_permissions r = 0)"

definition listed_user :: "server_state \<Rightarrow> u64 \<Rightarrow> uuid \<Rightarrow> user option" where
  "listed_user s uid rid =
     (case get_member s uid of
        None \<Rightarrow> None
      | Some m \<Rightarrow> if member_is_controller s m then None else Some (build_user s uid rid m))"

lemma build_user_list_listed: "build_user_list s = List.map_filter (\<lambda>(u, r). listed_user s u r) (memberships (data s))"
  by (simp add: build_user_list_def listed_user_def)

lemma listed_user_id: "listed_user s uid rid = Some x \<Longrightarrow> u_user_id x = uid"
  by (auto simp: listed_user_def build_user_def Let_def split: option.splits if_splits)

lemma find_user_build:
  "find_user (build_user_list s) uid = Option.bind (map_of (memberships (data s)) uid) (listed_user s uid)"
proof -
  have "find_user (List.map_filter (\<lambda>(u, r). listed_user s u r) ms) uid = Option.bind (map_of ms uid) (listed_user s uid)" for ms
  proof (induction ms)
    case (Cons a ms)
    obtain u r where a: "a = (u, r)" by force
    show ?case
    proof (cases "listed_user s u r")
      case None
      then have "listed_user s u = (\<lambda>_. None)"
        by (auto simp: listed_user_def fun_eq_iff split: option.splits if_splits)
      moreover have "Option.bind x (\<lambda>_. None) = None" for x :: "uuid option" by (cases x) simp_all
      ultimately show ?thesis using Cons None by (auto simp: a)
    next
      case (Some x)
      then show ?thesis using Cons listed_user_id [OF Some] by (auto simp: a find_user_def)
    qed
  qed (simp add: find_user_def)
  then show ?thesis by (simp add: build_user_list_listed)
qed

lemma hash_ok_tables: "hash_ok s \<Longrightarrow> tables_ok (get_rooms s) (build_user_list s)"
proof -
  have "map u_user_id (List.map_filter (\<lambda>(u, r). listed_user s u r) ms) =
      map fst (filter (\<lambda>(u, r). listed_user s u r \<noteq> None) ms)" for ms
    by (induction ms) (auto simp: listed_user_id)
  then show "hash_ok s \<Longrightarrow> tables_ok (get_rooms s) (build_user_list s)"
    by (simp add: hash_ok_def tables_ok_def build_user_list_listed distinct_map_filter)
qed

lemma server_hash_input:
  assumes "hash_ok s"
  shows "state_for_update s =
    \<lparr>ss_rooms = map to_hash_input (get_rooms s), ss_users = map user_to_proto (build_user_list s),
     ss_groups = [], ss_slash_commands = []\<rparr>"
  using assms by (simp add: state_for_update_def to_hash_input_def hash_ok_def room_to_proto_def)

definition same_hashing :: "env \<Rightarrow> client_env \<Rightarrow> bool" where
  "same_hashing e ce \<longleftrightarrow> ce_encode_state ce = encode_state e \<and> ce_blake3 ce = blake3 e"

lemma checkpoint_passes:
  assumes "hash_ok s" and "client_view c = server_view s" and "client_ok c" and "same_hashing e ce"
  shows "verify_state_hash ce (state_hash e (state_for_update s)) c = []"
proof -
  have "compute_server_state_hash (encode_state e) (blake3 e) (state_hash_input c) =
      compute_server_state_hash (encode_state e) (blake3 e) (state_for_update s)"
    unfolding server_hash_input [OF assms(1)] state_hash_input_def
    using assms(1-3) by (intro hash_of_view) (auto simp: client_view_def server_view_def client_ok_def hash_ok_tables)
  then show ?thesis
    using assms(4) by (simp add: verify_state_hash_def state_hash_def same_hashing_def Let_def)
qed

lemma state_update_events_single:
  obtains "state_update_events u = []" "\<And>v. announce u v = v"
  | ev where "state_update_events u = [ev]" "\<And>h. ev \<noteq> StateHashCheckpoint h"
      "\<And>v. event_fits ev v \<longleftrightarrow> fits u v"
proof (cases "state_update_events u")
  case Nil
  then have "announce u v = v" for v using fold_events_announce [of "[]" u v] by (simp add: apply_state_update_def)
  with Nil show ?thesis by (rule that(1))
next
  case (Cons ev evs)
  have "evs = []" "ev \<noteq> StateHashCheckpoint h" "event_fits ev v \<longleftrightarrow> fits u v" for h v
    using Cons by (cases u; auto simp: state_update_events_def event_fits_def fits_def
        split: option.splits if_splits)+
  with Cons show ?thesis by (intro that(2)) auto
qed

lemma update_step:
  assumes ok: "client_ok c" and fit: "fits u (client_view c)"
    and srv: "hash_ok s" "server_view s = announce u (client_view c)" and "same_hashing e ce"
    and r: "r = run_room_events ce (apply_state_update (state_hash e (state_for_update s)) u) c"
  shows "client_view (fst r) = announce u (client_view c) \<and> client_ok (fst r) \<and> no_resync (snd r)"
proof -
  let ?hash = "state_hash e (state_for_update s)"
  have "length ?hash = 32" by (simp add: state_hash_def compute_server_state_hash_def)
  then have hash: "?hash \<noteq> []" by auto
  define r1 where "r1 = run_room_events ce (state_update_events u) c"
  have v1: "client_view (fst r1) = announce u (client_view c)"
    using update_view [of ce "[]" u c] by (simp add: r1_def apply_state_update_def)
  have ok1: "client_ok (fst r1) \<and> no_resync (snd r1)"
  proof (cases rule: state_update_events_single [of u])
    case 1
    then show ?thesis using ok by (simp add: r1_def no_resync_def)
  next
    case (2 ev)
    then show ?thesis
      using client_ok_apply_room [OF ok, of ev ce] no_resync_mutation [of ev ce c] fit
      by (simp add: r1_def case_prod_beta)
  qed
  have "run_room_events ce [StateHashCheckpoint ?hash] (fst r1) = (fst r1, [])"
    using checkpoint_passes [of s "fst r1" e ce] assms v1 ok1 by (simp add: client_apply_room_def)
  then have "r = (fst r1, snd r1)"
    using hash by (simp add: r apply_state_update_def run_room_events_append r1_def Let_def)
  with v1 ok1 show ?thesis by simp
qed

text \<open>
  A sequence of announcements that leads from one view to another: each update fits and carries
  the hash of a state whose view is the one it leads to.
\<close>

fun follows :: "env \<Rightarrow> view \<Rightarrow> (bytes \<times> update_msg) list \<Rightarrow> view \<Rightarrow> bool" where
  "follows e v [] v' \<longleftrightarrow> v' = v"
| "follows e v (hu # ups) v' \<longleftrightarrow>
     fits (snd hu) v \<and>
     (\<exists>s. hash_ok s \<and> server_view s = announce (snd hu) v \<and> fst hu = state_hash e (state_for_update s)) \<and>
     follows e (announce (snd hu) v) ups v'"

lemma follows_append:
  "follows e v (xs @ ys) v'' \<longleftrightarrow> (\<exists>v'. follows e v xs v' \<and> follows e v' ys v'')"
  by (induction xs arbitrary: v) auto

definition receive_updates ::
  "client_env \<Rightarrow> (bytes \<times> update_msg) list \<Rightarrow> ('p, 'r) client_state \<Rightarrow> ('p, 'r) client_state \<times> client_effect list" where
  "receive_updates ce ups = run_room_events ce (concat (map (\<lambda>(hash, u). apply_state_update hash u) ups))"

lemma client_keeps_up:
  assumes "follows e (client_view c) ups v'" and "client_ok c" and "same_hashing e ce"
  shows "client_view (fst (receive_updates ce ups c)) = v' \<and> client_ok (fst (receive_updates ce ups c)) \<and>
    no_resync (snd (receive_updates ce ups c))"
  using assms(1,2)
proof (induction ups arbitrary: c)
  case Nil
  then show ?case by (simp add: receive_updates_def no_resync_def)
next
  case (Cons hu ups)
  obtain hash u where hu: "hu = (hash, u)" by force
  from Cons.prems obtain s where s: "hash_ok s" "server_view s = announce u (client_view c)"
      "hash = state_hash e (state_for_update s)" and f: "fits u (client_view c)"
      "follows e (announce u (client_view c)) ups v'"
    by (auto simp: hu)
  let ?c = "fst (run_room_events ce (apply_state_update hash u) c)"
  have st: "client_view ?c = announce u (client_view c) \<and> client_ok ?c \<and>
      no_resync (snd (run_room_events ce (apply_state_update hash u) c))"
    using update_step [OF Cons.prems(2) f(1) s(1,2) assms(3)] s(3) by simp
  with Cons.IH [of ?c] f(2) show ?case
    by (simp add: receive_updates_def hu run_room_events_append Let_def)
qed

section \<open>A server that announces what it does\<close>

definition update_sent :: "handle \<Rightarrow> effect \<Rightarrow> (bytes \<times> update_msg) option" where
  "update_sent h ef =
     (case ef of
        Sent h' _ msg \<Rightarrow>
          (case msg of StateUpdate hash u \<Rightarrow> if h' = h then Some (hash, u) else None | _ \<Rightarrow> None)
      | _ \<Rightarrow> None)"

definition updates_to :: "handle \<Rightarrow> effect list \<Rightarrow> (bytes \<times> update_msg) list" where
  "updates_to h es = List.map_filter (update_sent h) es"

lemma updates_to_simps [simp]:
  "updates_to h [] = []" "updates_to h (es @ fs) = updates_to h es @ updates_to h fs"
  by (simp_all add: updates_to_def map_filter_def)

text \<open>A connection that is on the roster once and takes what is written to it.\<close>

definition listens :: "handle \<Rightarrow> server_state \<Rightarrow> bool" where
  "listens h s \<longleftrightarrow> filter (\<lambda>h'. h' = h) (snapshot_clients s) = [h] \<and> send_stream (handles s h) = Flowing"

lemma updates_to_broadcast:
  "updates_to h (concat (map (broadcast_effect s b (StateUpdate hash u)) hs)) =
     (if send_stream (handles s h) = Flowing then map (\<lambda>_. (hash, u)) (filter (\<lambda>h'. h' = h) hs) else [])"
  by (induction hs)
    (auto simp: broadcast_effect_def updates_to_def map_filter_def update_sent_def split: stream_state.splits)

lemma updates_to_update_effects:
  "listens h s \<Longrightarrow> updates_to h (update_effects e s u) = [(state_hash e (state_for_update s), u)]"
  by (simp add: update_effects_def Let_def updates_to_broadcast listens_def)

definition in_step :: "env \<Rightarrow> handle \<Rightarrow> world \<Rightarrow> world \<Rightarrow> bool" where
  "in_step e h w w' \<longleftrightarrow>
     (\<exists>es. w_trace w' = w_trace w @ es \<and>
       follows e (server_view (w_state w)) (updates_to h es) (server_view (w_state w')))"

lemma in_step_refl [simp]: "in_step e h w w"
  by (auto simp: in_step_def intro: exI [of _ "[]"])

lemma in_step_trans [trans]: "in_step e h w w' \<Longrightarrow> in_step e h w' w'' \<Longrightarrow> in_step e h w w''"
proof -
  assume "in_step e h w w'" "in_step e h w' w''"
  then obtain es fs where "w_trace w' = w_trace w @ es" "w_trace w'' = w_trace w' @ fs"
      "follows e (server_view (w_state w)) (updates_to h es) (server_view (w_state w'))"
      "follows e (server_view (w_state w')) (updates_to h fs) (server_view (w_state w''))"
    unfolding in_step_def by blast
  then show ?thesis
    unfolding in_step_def by (intro exI [of _ "es @ fs"]) (auto simp: follows_append simp del: split_paired_Ex)
qed

lemma in_step_quiet:
  assumes "server_view (w_state w') = server_view (w_state w)" and "w_trace w' = w_trace w @ es"
    and "updates_to h es = []"
  shows "in_step e h w w'"
  unfolding in_step_def using assms by auto

lemma in_step_reply [simp]:
  "in_step e h w (send_command_result h' c b m w)" "in_step e h w (send_permission_denied h' d w)"
  "in_step e h w (on_persist f w)"
  by (auto intro!: in_step_quiet [OF _ trace_send_frame] in_step_quiet [of _ _ "[]"]
      simp: send_command_result_def send_permission_denied_def updates_to_def map_filter_def update_sent_def)

lemma in_step_announce:
  assumes "server_view s' = announce u (server_view (w_state w))" and "fits u (server_view (w_state w))"
    and "hash_ok s'" and "listens h s'"
  shows "in_step e h w (broadcast_state_update e u (w\<lparr>w_state := s', w_persist := p'\<rparr>))"
  unfolding in_step_def
  using assms by (intro exI [of _ "update_effects e s' u"])
    (auto simp: trace_broadcast_state_update updates_to_update_effects)

lemma in_step_gated:
  assumes "in_step e h w (act w)"
  shows "in_step e h w (gated e sender room perm act w)"
  using assms by (simp add: gated_def split: sum.split)

subsection \<open>Rooms\<close>

lemma update_data_frame [simp]:
  "snapshot_clients (update_data f s) = snapshot_clients s" "handles (update_data f s) = handles s"
  "members (update_data f s) = members s" "identities (update_data f s) = identities s"
  "data (update_data f s) = f (data s)"
  by (simp_all add: update_data_def snapshot_clients_def)

lemma listens_update_data [simp]: "listens h (update_data f s) = listens h s"
  by (simp add: listens_def)

lemma user_list_cong:
  assumes "members s' = members s" and "identities s' = identities s" and "handles s' = handles s"
    and "memberships (data s') = memberships (data s)" and "user_statuses (data s') = user_statuses (data s)"
  shows "build_user_list s' = build_user_list s"
proof -
  have "build_user s' = build_user s"
    by (intro ext) (simp add: assms build_user_def get_user_status_def member_is_superuser_def Let_def
        split: binding.split)
  moreover have "member_is_controller s' = member_is_controller s"
    by (intro ext) (simp add: assms member_is_controller_def split: binding.split)
  ultimately show ?thesis unfolding build_user_list_def get_member_def assms by (simp only:)
qed

lemma user_list_rooms [simp]: "build_user_list (update_data (\<lambda>d. d\<lparr>rooms := f d\<rparr>) s) = build_user_list s"
  by (rule user_list_cong) simp_all

lemma update_room_view:
  assumes "\<And>r. r_id (f r) = r_id r" and "\<And>r. plain_room (f r) = f (plain_room r)"
    and "\<And>r. r_effective_permissions (f r) = r_effective_permissions r"
  shows "server_view (snd (update_room u f s)) = apfst (edit_at u f) (server_view s)"
    and "hash_ok s \<Longrightarrow> hash_ok (snd (update_room u f s))"
    and "listens h (snd (update_room u f s)) = listens h s"
proof -
  have us: "build_user_list (snd (update_room u f s)) = build_user_list s" by (simp add: update_room_def)
  have rs: "get_rooms (snd (update_room u f s)) = update_first (\<lambda>r. r_id r = u) f (get_rooms s)"
    by (simp add: get_rooms_def update_room_def)
  show "server_view (snd (update_room u f s)) = apfst (edit_at u f) (server_view s)"
    by (simp add: server_view_def us rs view_of_edit_room assms)
  have "\<forall>x \<in> set (update_first P f xs). r_effective_permissions x = 0"
    if "\<forall>x \<in> set xs. r_effective_permissions x = 0" for xs P
    using that by (induction xs) (auto simp: assms(3))
  then show "hash_ok s \<Longrightarrow> hash_ok (snd (update_room u f s))"
    by (auto simp: hash_ok_def rs distinct_update_first assms(1)) (simp add: update_room_def)
  show "listens h (snd (update_room u f s)) = listens h s" by (simp add: update_room_def)
qed

lemma world_split: "w\<lparr>w_state := s\<rparr> = w\<lparr>w_state := s, w_persist := w_persist w\<rparr>"
  by simp

lemma persist_room_change_eq:
  "persist_room_change u f w = w\<lparr>w_persist := w_persist (persist_room_change u f w)\<rparr>"
  by (simp add: persist_room_change_def on_persist_def split: option.split)

locale room_edit =
  fixes edit :: "room \<Rightarrow> room" and target :: uuid and msg :: update_msg
  assumes keeps_id: "r_id (edit r) = r_id r"
    and keeps_plain: "plain_room (edit r) = edit (plain_room r)"
    and keeps_perms: "r_effective_permissions (edit r) = r_effective_permissions r"
    and meaning: "announce msg v = apfst (edit_at target edit) v"
    and always_fits: "fits msg v"
begin

lemmas edit_view = update_room_view [of edit, OF keeps_id keeps_plain keeps_perms]

lemma announced:
  assumes "hash_ok (w_state w)" and "listens h (w_state w)"
  shows "in_step e h w (broadcast_state_update e msg
    (persist_room_change target g (w\<lparr>w_state := snd (update_room target edit (w_state w))\<rparr>)))"
proof -
  let ?s = "snd (update_room target edit (w_state w))"
  let ?w = "persist_room_change target g (w\<lparr>w_state := ?s\<rparr>)"
  have "?w = w\<lparr>w_state := ?s, w_persist := w_persist ?w\<rparr>"
    by (subst persist_room_change_eq) simp
  moreover have "in_step e h w (broadcast_state_update e msg (w\<lparr>w_state := ?s, w_persist := w_persist ?w\<rparr>))"
    using assms by (intro in_step_announce) (simp_all add: edit_view meaning always_fits)
  ultimately show ?thesis by simp
qed

lemma missing_quiet:
  assumes "\<not> fst (update_room target edit (w_state w))"
  shows "in_step e h w (w\<lparr>w_state := snd (update_room target edit (w_state w))\<rparr>)"
proof (rule in_step_quiet [of _ _ "[]"])
  have "find_room (get_rooms (w_state w)) target = None"
    using assms by (auto simp: update_room_def find_room_None_iff list_ex_iff get_rooms_def)
  then have "fst (server_view (w_state w)) target = None" by (simp add: server_view_def view_of_def)
  then have "apfst (edit_at target edit) (server_view (w_state w)) = server_view (w_state w)"
    by (cases "server_view (w_state w)") (auto simp: edit_at_def)
  then show "server_view (w_state (w\<lparr>w_state := snd (update_room target edit (w_state w))\<rparr>)) =
      server_view (w_state w)"
    by (simp add: edit_view)
qed simp_all

lemma edited:
  assumes "hash_ok (w_state w)" and "listens h (w_state w)"
  shows "in_step e h w
    (case update_room target edit (w_state w) of
       (False, s) \<Rightarrow> send_command_result sender c1 b1 m1 (w\<lparr>w_state := s\<rparr>)
     | (True, s) \<Rightarrow> send_command_result sender c2 b2 m2 (broadcast_state_update e msg
                       (persist_room_change target g (w\<lparr>w_state := s\<rparr>))))"
  using announced [OF assms, of e g] missing_quiet [of w e h]
  by (cases "update_room target edit (w_state w)") (auto intro: in_step_trans split: bool.split)

end

interpretation rename: room_edit "r_name_update (\<lambda>_. name)" u "RoomRenamed (room_id_from_uuid u) name" for name u
  by unfold_locales (simp_all add: announce_def fits_def)

interpretation describe: room_edit "r_description_update (\<lambda>_. if d = [] then None else Some d)" u
    "RoomDescriptionChanged (room_id_from_uuid u) d" for d u
  by unfold_locales (simp_all add: announce_def fits_def)

interpretation reparent: room_edit "r_parent_update (\<lambda>_. p)" u
    "RoomMoved (Some (room_id_from_uuid u)) (Some (room_id_from_uuid p))" for p u
  by unfold_locales (simp_all add: announce_def fits_def requested_room_def)

interpretation access: room_edit "\<lambda>r. r\<lparr>r_inherit_acl := i, r_acls := acls\<rparr>" u
    "RoomAclChanged (room_id_from_uuid u) i (map acl_entry_to_proto acls)" for i acls u
  by unfold_locales (simp_all add: announce_def fits_def comp_def)

lemma in_step_rename_room:
  assumes "hash_ok (w_state w)" and "listens h (w_state w)"
  shows "in_step e h w (handle_rename_room e rid name sender w)"
  unfolding handle_rename_room_def Let_def rename_room_def
  by (intro in_step_gated rename.edited assms)

lemma in_step_set_room_description:
  assumes "hash_ok (w_state w)" and "listens h (w_state w)"
  shows "in_step e h w (handle_set_room_description e rid d sender w)"
  unfolding handle_set_room_description_def Let_def set_room_description_def
  by (intro in_step_gated describe.edited assms)

lemma move_room_meaning:
  assumes "Option.bind rid uuid_from_room_id = Some u"
  shows "room_edit (r_parent_update (\<lambda>_. requested_room p)) u (RoomMoved rid p)"
  using assms by unfold_locales (simp_all add: announce_def fits_def)

lemma in_step_move_room:
  assumes "hash_ok (w_state w)" and "listens h (w_state w)" and "Option.bind rid uuid_from_room_id = Some u"
  shows "in_step e h w (handle_move_room e rid p sender w)"
proof -
  have u: "requested_room rid = u" using assms(3) by (simp add: requested_room_def)
  show ?thesis
    unfolding handle_move_room_def Let_def u move_room_def
    by (intro in_step_gated) (simp add: room_edit.edited [OF move_room_meaning [OF assms(3)] assms(1,2)])
qed

lemma in_step_create_room:
  assumes "hash_ok (w_state w)" and "listens h (w_state w)" and "new_v4 e \<notin> r_id ` set (get_rooms (w_state w))"
  shows "in_step e h w (handle_create_room e cr sender w)"
proof -
  have new: "find_room (get_rooms (w_state w)) (new_v4 e) = None"
    using assms(3) unfolding find_room_None_iff by (metis image_eqI)
  have fresh: "fst (server_view (w_state w)) (new_v4 e) = None"
    by (simp add: server_view_def view_of_def new)
  let ?s = "\<lambda>parent. snd (create_room_with_parent_desc (new_v4 e) (crr_name cr) parent (crr_description cr) (w_state w))"
  let ?room = "\<lambda>parent. new_room (new_v4 e) (crr_name cr) parent (crr_description cr)"
  have id: "r_id (?room p) = new_v4 e" "r_effective_permissions (?room p) = 0" for p
    by (simp_all add: new_room_def)
  have rooms: "get_rooms (?s p) = get_rooms (w_state w) @ [?room p]" for p
    by (simp add: create_room_with_parent_desc_def get_rooms_def)
  have users: "build_user_list (?s p) = build_user_list (w_state w)" "listens h (?s p) = listens h (w_state w)" for p
    by (simp_all add: create_room_with_parent_desc_def)
  have v: "server_view (?s p) = announce (RoomCreated (room_to_proto (?room p))) (server_view (w_state w))" for p
    by (simp add: server_view_def rooms users view_of_add_room announce_def id room_roundtrip)
  have fit: "fits (RoomCreated (room_to_proto (?room p))) (server_view (w_state w))" for p
    by (simp add: fits_def id fresh room_roundtrip)
  have ok: "hash_ok (?s p)" for p
    using assms(1,3) by (auto simp: hash_ok_def rooms id) (simp add: create_room_with_parent_desc_def)
  have "in_step e h w (snd (apply_create_room e (crr_name cr) parent (crr_description cr) w))" for parent
    using in_step_announce [OF v fit ok, of h _ e] users(2) assms(2)
    by (auto simp: apply_create_room_def Let_def case_prod_beta on_persist_def create_room_with_parent_desc_def)
  then show ?thesis
    unfolding handle_create_room_def Let_def
    by (intro in_step_gated)
      (auto simp: case_prod_beta split: sum.split prod.split intro: in_step_trans [OF _ in_step_reply(1)])
qed

subsection \<open>Users\<close>

lemma server_view_user:
  assumes "get_rooms s' = get_rooms s"
    and "\<And>k. find_user (build_user_list s') k =
      (if k = uid then map_option f (find_user (build_user_list s) uid) else find_user (build_user_list s) k)"
  shows "server_view s' = apsnd (edit_at uid f) (server_view s)"
  using assms by (auto simp: server_view_def view_of_def edit_at_def fun_eq_iff)

lemma server_view_listed:
  assumes "get_rooms s' = get_rooms s" and "memberships (data s') = memberships (data s)"
    and "\<And>rid. listed_user s' uid rid = map_option f (listed_user s uid rid)"
    and "\<And>k rid. k \<noteq> uid \<Longrightarrow> listed_user s' k rid = listed_user s k rid"
  shows "server_view s' = apsnd (edit_at uid f) (server_view s)"
proof (rule server_view_user [OF assms(1)])
  show "find_user (build_user_list s') k =
      (if k = uid then map_option f (find_user (build_user_list s) uid) else find_user (build_user_list s) k)" for k
    using assms(2-4) by (cases "map_of (memberships (data s)) k") (auto simp: find_user_build)
qed

text \<open>A handle belongs to one entry of the roster.\<close>

definition handles_ok :: "server_state \<Rightarrow> bool" where
  "handles_ok s \<longleftrightarrow> dm_ok (members s) \<and>
     (\<forall>k m h. dm_get (members s) k = Some m \<and> m_binding m = Client h \<longrightarrow> h_user_id (handles s h) = k)"

abbreviation status_fields :: "bool \<Rightarrow> bool \<Rightarrow> bool \<Rightarrow> bool \<Rightarrow> user \<Rightarrow> user" where
  "status_fields m d sm el x \<equiv> x\<lparr>u_is_muted := m, u_is_deafened := d, u_server_muted := sm, u_is_elevated := el\<rparr>"

lemma get_client_member:
  "get_client s uid = Some h \<longleftrightarrow> (\<exists>m. get_member s uid = Some m \<and> m_binding m = Client h)"
proof -
  have "member_client m = Some h \<longleftrightarrow> m_binding m = Client h" for m
    by (cases "m_binding m") (simp_all add: member_client_def)
  then show ?thesis by (simp add: get_client_def get_member_def bind_eq_Some_conv)
qed

lemma server_mute_view:
  assumes "handles_ok s" and "get_client s uid = Some h"
  shows "server_view (update_handle h (server_muted_update (\<lambda>_. b)) s) =
    announce (UserStatusChanged uid (st_is_muted (get_user_status s uid)) (st_is_deafened (get_user_status s uid)) b
      (is_superuser (handles s h))) (server_view s)"
    (is "_ = announce (UserStatusChanged uid ?m ?d b ?el) _")
proof -
  define s' where "s' = update_handle h (server_muted_update (\<lambda>_. b)) s"
  have other: "h' \<noteq> h" if "k \<noteq> uid" "get_member s k = Some m" "m_binding m = Client h'" for k m h'
    using assms that unfolding handles_ok_def get_client_member get_member_def by metis
  have same: "get_member s' = get_member s" "get_user_status s' = get_user_status s"
    "identities s' = identities s" "memberships (data s') = memberships (data s)" "get_rooms s' = get_rooms s"
    by (simp_all add: s'_def update_handle_def get_member_def get_user_status_def get_rooms_def fun_eq_iff)
  have hs: "server_muted (handles s' h') = (if h' = h then b else server_muted (handles s h'))"
    "is_superuser (handles s' h') = is_superuser (handles s h')" for h'
    by (simp_all add: s'_def update_handle_def)
  have ctl: "member_is_controller s' m = member_is_controller s m" "member_is_superuser s' m = member_is_superuser s m" for m
    by (simp_all add: s'_def member_is_controller_def member_is_superuser_def update_handle_def split: binding.split)
  have "listed_user s' uid rid = map_option (status_fields ?m ?d b ?el) (listed_user s uid rid)" for rid
    using assms(2) unfolding get_client_member
    by (auto simp: listed_user_def same ctl build_user_def Let_def hs member_is_superuser_def)
  moreover have "listed_user s' k rid = listed_user s k rid" if "k \<noteq> uid" for k rid
    using other [OF that]
    by (auto simp: listed_user_def same ctl build_user_def Let_def hs split: option.split binding.split)
  ultimately have "server_view s' = apsnd (edit_at uid (status_fields ?m ?d b ?el)) (server_view s)"
    by (intro server_view_listed) (auto simp: same)
  then show ?thesis by (simp add: announce_def s'_def)
qed

lemma user_status_view:
  assumes "\<And>m. get_member s uid = Some m \<Longrightarrow> sm = (case m_binding m of
        Client h \<Rightarrow> server_muted (handles s h) | Owned _ \<Rightarrow> st_server_muted st) \<and> el = member_is_superuser s m"
  shows "server_view (set_user_status uid st s) =
    announce (UserStatusChanged uid (st_is_muted st) (st_is_deafened st) sm el) (server_view s)"
proof -
  define s' where "s' = set_user_status uid st s"
  have map_of_retain: "map_of (retain (\<lambda>(u, _). u \<noteq> k) xs) v = (if v = k then None else map_of xs v)"
    for k v and xs :: "(u64 \<times> user_status) list"
    by (induction xs) auto
  have st: "get_user_status s' k = (if k = uid then st else get_user_status s k)" for k
    by (simp add: s'_def set_user_status_def get_user_status_def map_add_def map_of_retain split: option.split)
  have same: "get_member s' = get_member s" "identities s' = identities s" "handles s' = handles s"
    "memberships (data s') = memberships (data s)" "get_rooms s' = get_rooms s"
    by (simp_all add: s'_def set_user_status_def get_member_def get_rooms_def fun_eq_iff)
  have ctl: "member_is_controller s' m = member_is_controller s m" "member_is_superuser s' m = member_is_superuser s m" for m
    by (simp_all add: same member_is_controller_def member_is_superuser_def split: binding.split)
  have "listed_user s' uid rid = map_option (status_fields (st_is_muted st) (st_is_deafened st) sm el) (listed_user s uid rid)"
    for rid
    using assms by (auto simp: listed_user_def same ctl build_user_def Let_def st split: option.split binding.split)
  moreover have "listed_user s' k rid = listed_user s k rid" if "k \<noteq> uid" for k rid
    using that by (auto simp: listed_user_def same ctl build_user_def Let_def st split: option.split binding.split)
  ultimately have "server_view s' =
      apsnd (edit_at uid (status_fields (st_is_muted st) (st_is_deafened st) sm el)) (server_view s)"
    by (intro server_view_listed) (auto simp: same)
  then show ?thesis by (simp add: announce_def s'_def)
qed

lemma user_room_view:
  assumes "get_user_room s uid \<noteq> None \<or> get_member s uid = None"
  shows "server_view (set_user_room uid r s) = announce (UserMoved uid (room_id_from_uuid r)) (server_view s)"
proof -
  define s' where "s' = set_user_room uid r s"
  have ms: "map_of (memberships (data s')) k = (if k = uid then Some r else map_of (memberships (data s)) k)" for k
    by (metis fun_upd_apply get_user_room_def get_user_room_set s'_def)
  have same: "get_member s' = get_member s" "identities s' = identities s" "handles s' = handles s"
    "get_user_status s' = get_user_status s" "get_rooms s' = get_rooms s"
    by (simp_all add: s'_def set_user_room_def get_member_def get_rooms_def get_user_status_def fun_eq_iff)
  have ctl: "member_is_controller s' m = member_is_controller s m" "member_is_superuser s' m = member_is_superuser s m" for m
    by (simp_all add: same member_is_controller_def member_is_superuser_def split: binding.split)
  have "listed_user s' k rid = listed_user s k rid" for k rid
    by (auto simp: listed_user_def same ctl build_user_def Let_def split: option.split binding.split)
  moreover have "map_option (u_current_room_update (\<lambda>_. r)) (listed_user s uid rid) = listed_user s uid r" for rid
    by (auto simp: listed_user_def build_user_def Let_def split: option.split)
  moreover have "listed_user s uid r = None" if "get_member s uid = None"
    using that by (simp add: listed_user_def)
  ultimately have "find_user (build_user_list s') k =
      (if k = uid then map_option (u_current_room_update (\<lambda>_. r)) (find_user (build_user_list s) uid)
       else find_user (build_user_list s) k)" for k
    using assms by (cases "map_of (memberships (data s)) k")
      (auto simp: find_user_build ms get_user_room_def)
  then have "server_view s' = apsnd (edit_at uid (u_current_room_update (\<lambda>_. r))) (server_view s)"
    by (intro server_view_user) (auto simp: same)
  then show ?thesis by (simp add: announce_def s'_def requested_room_def)
qed

text \<open>What the broadcasts of a running server rest on.\<close>

definition mirror_ok :: "handle \<Rightarrow> server_state \<Rightarrow> bool" where
  "mirror_ok h s \<longleftrightarrow> hash_ok s \<and> listens h s \<and> handles_ok s"

lemma mirror_ok_update_room:
  assumes "\<And>r. r_id (f r) = r_id r" and "\<And>r. plain_room (f r) = f (plain_room r)"
    and "\<And>r. r_effective_permissions (f r) = r_effective_permissions r" and "mirror_ok h s"
  shows "mirror_ok h (snd (update_room u f s))"
  using assms(4) update_room_view [of f, OF assms(1-3)]
  by (auto simp: mirror_ok_def handles_ok_def update_room_def)

lemma status_update_handle [simp]: "get_user_status (update_handle h f s) = get_user_status s"
  by (simp add: update_handle_def get_user_status_def fun_eq_iff)

lemma mirror_ok_server_muted:
  "mirror_ok h s \<Longrightarrow> mirror_ok h (update_handle h' (server_muted_update (\<lambda>_. b)) s)"
  by (auto simp: mirror_ok_def hash_ok_def listens_def handles_ok_def update_handle_def get_rooms_def snapshot_clients_def)

lemma in_step_reevaluate:
  assumes "mirror_ok h (w_state w)"
  shows "in_step e h w (reevaluate_member_mute e uid room w) \<and>
    mirror_ok h (w_state (reevaluate_member_mute e uid room w))"
proof (cases "get_client (w_state w) uid")
  case None
  then show ?thesis using assms by (simp add: reevaluate_member_mute_def)
next
  case (Some h')
  define b where "b \<longleftrightarrow> \<not> contains (evaluate_user_permissions (w_state w) h' room (w_persist w)) SPEAK \<or>
    manually_server_muted (handles (w_state w) h')"
  let ?s = "update_handle h' (server_muted_update (\<lambda>_. b)) (w_state w)"
  let ?u = "UserStatusChanged uid (st_is_muted (get_user_status (w_state w) uid))
      (st_is_deafened (get_user_status (w_state w) uid)) b (is_superuser (handles (w_state w) h'))"
  have eq: "reevaluate_member_mute e uid room w =
      (if b = server_muted (handles (w_state w) h') then w
       else broadcast_state_update e ?u (w\<lparr>w_state := ?s, w_persist := w_persist w\<rparr>))"
    unfolding reevaluate_member_mute_def Some option.case Let_def b_def [symmetric]
    by (simp add: on_state_def)
  have ok: "mirror_ok h ?s" using assms by (rule mirror_ok_server_muted)
  have step: "in_step e h w (broadcast_state_update e ?u (w\<lparr>w_state := ?s, w_persist := w_persist w\<rparr>))"
    using ok server_mute_view [OF _ Some, of b] assms
    by (intro in_step_announce) (auto simp: mirror_ok_def fits_def)
  have choose: "P (if c then w else w1)" if "P w" "P w1" for P c and w1 :: world using that by simp
  show ?thesis
    unfolding eq
    by (rule choose [where P = "\<lambda>w'. in_step e h w w' \<and> mirror_ok h (w_state w')"])
      (use step ok assms in simp_all)
qed

lemma in_step_reevaluate_all:
  "mirror_ok h (w_state w) \<Longrightarrow> in_step e h w (fold (\<lambda>m. reevaluate_member_mute e m room) ms w)"
proof (induction ms arbitrary: w)
  case (Cons m ms)
  then show ?case
    using in_step_reevaluate [OF Cons.prems, of e m room] by (simp add: in_step_trans [OF _ Cons.IH])
qed simp

lemma in_step_set_room_acl:
  assumes "mirror_ok h (w_state w)" and "p_fault (w_persist w) = None"
  shows "in_step e h w (snd (apply_set_room_acl e u i entries base w))"
proof (cases "base \<noteq> 0 \<and> base \<noteq> current_room_acl_version e (w_persist w) u \<or>
    \<not> fst (set_room_acl u i entries (w_state w))")
  case True
  then show ?thesis
    using access.missing_quiet
    by (auto simp: apply_set_room_acl_def set_room_acl_def case_prod_beta)
next
  case False
  then obtain s where s: "set_room_acl u i entries (w_state w) = (True, s)"
    by (cases "set_room_acl u i entries (w_state w)") auto
  obtain p where p: "persist_set_room_acl u \<lparr>pa_inherit_acl = i, pa_entries = map persisted_of_room_entry entries\<rparr>
      (w_persist w) = (Inr (), p)"
    using assms(2) by (simp add: persist_set_room_acl_def)
  let ?w = "broadcast_state_update e (RoomAclChanged (room_id_from_uuid u) i (map acl_entry_to_proto entries))
    (w\<lparr>w_state := s, w_persist := p\<rparr>)"
  have eq: "s = snd (update_room u (\<lambda>r. r\<lparr>r_inherit_acl := i, r_acls := entries\<rparr>) (w_state w))"
    using s by (simp add: set_room_acl_def prod_eq_iff)
  then have ok: "mirror_ok h s" using assms(1) by (simp add: mirror_ok_update_room)
  have "in_step e h w ?w"
    using assms(1) ok unfolding eq
    by (intro in_step_announce) (auto simp: mirror_ok_def access.edit_view access.meaning access.always_fits)
  also have "in_step e h ?w (snd (apply_set_room_acl e u i entries base w))"
    using False ok in_step_reevaluate_all [of h ?w e u] s p by (auto simp: apply_set_room_acl_def Let_def)
  finally show ?thesis .
qed

lemma mirror_ok_update_data:
  assumes "mirror_ok h s" and "rooms (f (data s)) = rooms (data s)"
    and "distinct (map fst (memberships (f (data s))))"
  shows "mirror_ok h (update_data f s)"
  using assms by (simp add: mirror_ok_def hash_ok_def handles_ok_def get_rooms_def)

lemma in_step_set_user_status:
  assumes ok: "mirror_ok h (w_state w)"
    and own: "get_client (w_state w) (handle_uid (w_state w) sender) = Some sender"
  shows "in_step e h w (handle_set_user_status e m d sender w)"
proof -
  let ?uid = "handle_uid (w_state w) sender"
  let ?st = "\<lparr>st_is_muted = m, st_is_deafened = d,
    st_server_muted = st_server_muted (get_user_status (w_state w) ?uid),
    st_is_elevated = st_is_elevated (get_user_status (w_state w) ?uid)\<rparr>"
  let ?s = "set_user_status ?uid ?st (w_state w)"
  have "mirror_ok h ?s"
    unfolding set_user_status_def using ok
    by (intro mirror_ok_update_data) (simp_all add: mirror_ok_def hash_ok_def)
  moreover have "server_view ?s = announce (UserStatusChanged ?uid m d (server_muted (handles (w_state w) sender))
      (is_superuser (handles (w_state w) sender))) (server_view (w_state w))"
    using user_status_view [of "w_state w" ?uid _ ?st] own
    by (simp add: get_client_member member_is_superuser_def) force
  ultimately have "in_step e h w (broadcast_state_update e (UserStatusChanged ?uid m d
      (server_muted (handles (w_state w) sender)) (is_superuser (handles (w_state w) sender)))
      (w\<lparr>w_state := ?s, w_persist := w_persist w\<rparr>))"
    by (intro in_step_announce) (auto simp: mirror_ok_def fits_def)
  moreover have "handles ?s = handles (w_state w)" by (simp add: set_user_status_def)
  ultimately show ?thesis by (simp add: handle_set_user_status_def Let_def on_state_def)
qed

text \<open>Deleting an empty room: each child is moved up by an announcement of its own.\<close>

lemma in_step_reparent:
  assumes "mirror_ok h (w_state w)"
  shows "in_step e h w (reparent_child e np c w) \<and> mirror_ok h (w_state (reparent_child e np c w)) \<and>
    memberships (data (w_state (reparent_child e np c w))) = memberships (data (w_state w))"
proof -
  have eq: "reparent_child e np c w = broadcast_state_update e
      (RoomMoved (Some (room_id_from_uuid c)) (Some (room_id_from_uuid np)))
      (persist_room_change c (\<lambda>r. r\<lparr>pr_parent := Some np\<rparr>)
        (w\<lparr>w_state := snd (update_room c (r_parent_update (\<lambda>_. np)) (w_state w))\<rparr>))"
    by (simp add: reparent_child_def persist_room_change_def move_room_def on_state_def Let_def)
  have st: "w_state (persist_room_change u g w') = w_state w'" for u g w'
    by (simp add: persist_room_change_def split: option.split)
  show ?thesis
    using reparent.announced [of w h e c np] assms
    by (simp add: eq st mirror_ok_update_room) (simp add: mirror_ok_def update_room_def)
qed

lemma in_step_reparent_all:
  "mirror_ok h (w_state w) \<Longrightarrow>
     in_step e h w (fold (reparent_child e np) cs w) \<and> mirror_ok h (w_state (fold (reparent_child e np) cs w)) \<and>
     memberships (data (w_state (fold (reparent_child e np) cs w))) = memberships (data (w_state w))"
proof (induction cs arbitrary: w)
  case (Cons c cs)
  from in_step_reparent [OF Cons.prems, of e np c] Cons.IH [of "reparent_child e np c w"]
  show ?case by (auto intro: in_step_trans)
qed simp

lemma in_step_delete_empty_room:
  assumes ok: "mirror_ok h (w_state w)" and empty: "get_room_members (w_state w) u = []"
  shows "in_step e h w (snd (apply_delete_room e u w))"
proof (cases "u = ROOT_ROOM_UUID")
  case False
  define w1 where "w1 = (case room_parent_and_children (w_state w) u of
      Some (np, cs) \<Rightarrow> fold (reparent_child e np) cs w | None \<Rightarrow> w)"
  have w1: "in_step e h w w1" "mirror_ok h (w_state w1)"
      "memberships (data (w_state w1)) = memberships (data (w_state w))"
    using in_step_reparent_all [OF ok] ok by (auto simp: w1_def split: option.split)
  have none: "get_room_members (w_state w1) u = []"
    using empty by (simp add: get_room_members_def w1(3))
  then have ids: "map (\<lambda>(x, r). if r = u then (x, ROOT_ROOM_UUID) else (x, r)) (memberships (data (w_state w1))) =
      memberships (data (w_state w1))"
    by (intro map_idI) (auto simp: get_room_members_def filter_empty_conv)
  let ?rs = "retain (\<lambda>r. r_id r \<noteq> u) (rooms (data (w_state w1)))"
  define s where "s = update_data (\<lambda>d. d\<lparr>rooms := ?rs\<rparr>) (w_state w1)"
  have del: "delete_room u (w_state w1) = (length ?rs < length (rooms (data (w_state w1))), s)"
    using False by (simp add: delete_room_def Let_def s_def update_data_def ids)
  have ok2: "mirror_ok h s"
    using w1(2) by (auto simp: s_def mirror_ok_def hash_ok_def handles_ok_def get_rooms_def distinct_map_filter)
  have rs: "get_rooms s = filter (\<lambda>r. r_id r \<noteq> u) (get_rooms (w_state w1))" by (simp add: s_def get_rooms_def)
  have us: "build_user_list s = build_user_list (w_state w1)" by (simp add: s_def)
  have view: "server_view s = announce (RoomDeleted (room_id_from_uuid u) (room_id_from_uuid ROOT_ROOM_UUID))
      (server_view (w_state w1))"
    by (simp add: announce_def server_view_def view_of_drop_room rs us)
  show ?thesis
  proof (cases "length ?rs < length (rooms (data (w_state w1)))")
    case True
    have "in_step e h w1 (broadcast_state_update e (RoomDeleted (room_id_from_uuid u) (room_id_from_uuid ROOT_ROOM_UUID))
        (w1\<lparr>w_state := s, w_persist := p\<rparr>))" for p
      using ok2 view by (intro in_step_announce) (auto simp: mirror_ok_def fits_def)
    then show ?thesis
      using w1(1) False True by (simp add: apply_delete_room_def Let_def w1_def [symmetric] del none on_persist_def
          in_step_trans)
  next
    case False
    then have "?rs = rooms (data (w_state w1))"
      by (metis length_filter_less linorder_neqE_nat filter_id_conv)
    then have "s = w_state w1" by (simp add: s_def update_data_def)
    then show ?thesis
      using w1(1) \<open>u \<noteq> ROOT_ROOM_UUID\<close> False
      by (simp add: apply_delete_room_def Let_def w1_def [symmetric] del)
  qed
qed (simp add: apply_delete_room_def)

lemma in_step_join_room:
  assumes ok: "mirror_ok h (w_state w)" and room: "get_user_room (w_state w) (handle_uid (w_state w) sender) \<noteq> None"
    and mute: "server_muted (handles (w_state w) sender) \<longleftrightarrow>
      \<not> contains (evaluate_user_permissions (w_state w) sender (requested_room jr) (w_persist w)) SPEAK \<or>
      manually_server_muted (handles (w_state w) sender)"
  shows "in_step e h w (handle_join_room e jr sender w)"
proof -
  let ?u = "requested_room jr" and ?uid = "handle_uid (w_state w) sender"
  let ?s = "set_user_room ?uid ?u (w_state w)"
  have hs: "handles ?s = handles (w_state w)" by (simp add: set_user_room_def)
  have id: "update_handle sender (server_muted_update (\<lambda>_. server_muted (handles (w_state w) sender))) ?s = ?s"
    by (simp add: update_handle_def hs)
  have "mirror_ok h ?s"
    unfolding set_user_room_def using ok
    by (intro mirror_ok_update_data)
      (auto simp: mirror_ok_def hash_ok_def distinct_map_filter)
  then have "in_step e h w (broadcast_state_update e (UserMoved ?uid (room_id_from_uuid ?u))
      (w\<lparr>w_state := ?s, w_persist := p\<rparr>))" for p
    using user_room_view [of "w_state w" ?uid ?u] room
    by (intro in_step_announce) (auto simp: mirror_ok_def fits_def)
  then have moved: "in_step e h w (send_command_result sender c b m (broadcast_state_update e
      (UserMoved ?uid (room_id_from_uuid ?u)) (w\<lparr>w_state := ?s, w_persist := p\<rparr>)))" for p c b m
    by (rule in_step_trans) (rule in_step_reply)
  have b: "(\<not> contains (evaluate_user_permissions ?s sender ?u (w_persist w)) SPEAK \<or>
      manually_server_muted (handles ?s sender)) = server_muted (handles (w_state w) sender)"
    using mute by (simp add: hs)
  have "in_step e h w (join_room_body e ?u sender w)"
    unfolding join_room_body_def Let_def world_on_state world_on_persist b
    by (auto simp: hs id on_state_def on_persist_def moved moved [where p = "w_persist w", simplified] split: option.split)
  then show ?thesis by (simp add: handle_join_room_def Let_def in_step_gated)
qed

section \<open>Requests whose announcements are complete\<close>

text \<open>
  The requests that change rooms or users, with the circumstances under which the announcements
  tell everything: a room is moved by its identifier, deleted when nobody is in it, its access
  list is written on working storage, a status is set on the stream the roster knows, and a join
  does not change the automatic mute.
\<close>

definition announced_fully :: "env \<Rightarrow> payload \<Rightarrow> handle \<Rightarrow> world \<Rightarrow> bool" where
  "announced_fully e pl sender w =
     (let s = w_state w; uid = handle_uid s sender in
      case pl of
        RenameRoom _ _ \<Rightarrow> True
      | SetRoomDescription _ _ \<Rightarrow> True
      | CreateRoom _ \<Rightarrow> new_v4 e \<notin> r_id ` set (get_rooms s)
      | MoveRoom rid _ \<Rightarrow> Option.bind rid uuid_from_room_id \<noteq> None
      | DeleteRoom rid \<Rightarrow> get_room_members s (requested_room rid) = []
      | SetRoomAcl _ \<Rightarrow> p_fault (w_persist w) = None
      | SetUserStatus _ _ \<Rightarrow> get_client s uid = Some sender
      | JoinRoom jr \<Rightarrow> get_user_room s uid \<noteq> None \<and>
          (server_muted (handles s sender) \<longleftrightarrow>
             \<not> contains (evaluate_user_permissions s sender (requested_room jr) (w_persist w)) SPEAK \<or>
             manually_server_muted (handles s sender))
      | _ \<Rightarrow> False)"

lemma in_step_authed: "in_step e h w (act w) \<Longrightarrow> in_step e h w (snd (authed sender act w))"
  by (simp add: authed_def)

lemma in_step_replied:
  "in_step e h w (snd r) \<Longrightarrow>
     in_step e h w (case r of (Inr x, w') \<Rightarrow> send_command_result s1 c1 b1 (m1 x) w'
                            | (Inl x, w') \<Rightarrow> send_command_result s2 c2 b2 (m2 x) w')"
  by (auto split: prod.split sum.split intro: in_step_trans)

lemma in_step_dispatch:
  assumes "announced_fully e pl sender w" and "mirror_ok h (w_state w)"
  shows "in_step e h w (snd (dispatch_payload e plugins pl sender w))"
proof (cases pl)
  case (MoveRoom rid p)
  with assms show ?thesis
    by (auto simp: dispatch_payload_def announced_fully_def mirror_ok_def Let_def
        intro!: in_step_authed in_step_move_room)
next
  case (DeleteRoom rid)
  then have "in_step e h w (handle_delete_room e rid sender w)"
    unfolding handle_delete_room_def Let_def
    using assms by (intro in_step_gated in_step_replied in_step_delete_empty_room)
      (simp_all add: announced_fully_def Let_def)
  with DeleteRoom show ?thesis by (simp add: dispatch_payload_def in_step_authed)
next
  case (SetRoomAcl req)
  then have "in_step e h w (handle_set_room_acl e req sender w)"
    unfolding handle_set_room_acl_def Let_def reply_result_def
    using assms by (auto simp: announced_fully_def Let_def
        intro!: in_step_gated in_step_replied in_step_set_room_acl)
  with SetRoomAcl show ?thesis by (simp add: dispatch_payload_def in_step_authed)
next
  case (JoinRoom jr)
  with assms have "in_step e h w (handle_join_room e jr sender w)"
    by (intro in_step_join_room) (simp_all add: announced_fully_def Let_def)
  with JoinRoom show ?thesis by (simp add: dispatch_payload_def in_step_authed)
next
  case (SetUserStatus m d)
  with assms have "in_step e h w (handle_set_user_status e m d sender w)"
    by (intro in_step_set_user_status) (simp_all add: announced_fully_def Let_def)
  with SetUserStatus show ?thesis by (simp add: dispatch_payload_def in_step_authed)
next
  case (CreateRoom cr)
  with assms have "in_step e h w (handle_create_room e cr sender w)"
    by (intro in_step_create_room) (simp_all add: announced_fully_def mirror_ok_def Let_def)
  with CreateRoom show ?thesis by (simp add: dispatch_payload_def in_step_authed)
next
  case (RenameRoom rid name)
  with assms show ?thesis
    by (simp add: dispatch_payload_def in_step_authed in_step_rename_room mirror_ok_def)
next
  case (SetRoomDescription rid d)
  with assms show ?thesis
    by (simp add: dispatch_payload_def in_step_authed in_step_set_room_description mirror_ok_def)
qed (use assms in \<open>simp_all add: announced_fully_def\<close>)

lemma in_step_client:
  assumes "in_step e h w w'" and "client_view c = server_view (w_state w)" and "client_ok c" and "same_hashing e ce"
  shows "\<exists>es. w_trace w' = w_trace w @ es \<and>
    (\<exists>c' fs. receive_updates ce (updates_to h es) c = (c', fs) \<and>
       client_view c' = server_view (w_state w') \<and> client_ok c' \<and> no_resync fs)"
proof -
  from assms(1) obtain es where es: "w_trace w' = w_trace w @ es"
      "follows e (server_view (w_state w)) (updates_to h es) (server_view (w_state w'))"
    by (auto simp: in_step_def)
  from client_keeps_up [OF es(2) [folded assms(2)] assms(3,4)] es(1) show ?thesis
    by (metis prod.collapse)
qed

section \<open>Snapshots\<close>

lemma list_roundtrips:
  "List.map_filter room_from_proto (map (\<lambda>x. room_to_proto (g x)) rs) = map g rs"
  "List.map_filter user_from_proto (map user_to_proto us) = us"
  by (induction rs, simp_all add: room_roundtrip) (induction us, simp_all add: user_roundtrip)

lemma snapshot_view:
  "client_view (fst (client_apply_room ce (server_state_event (client_server_state s p h)) c)) = server_view s"
proof -
  have "view_of (map (\<lambda>r. r\<lparr>r_effective_permissions := f r\<rparr>) rs) us = view_of rs us" for f rs us
    using view_of_plain [of "map (\<lambda>r. r\<lparr>r_effective_permissions := f r\<rparr>) rs" us] view_of_plain [of rs us]
    by (simp add: plain_room_def [abs_def] comp_def)
  then show ?thesis
    by (simp add: client_apply_room_view event_view_def server_state_event_def client_server_state_def Let_def
        list_roundtrips server_view_def)
qed

text \<open>C37: A snapshot repairs any copy. Whatever a client held before, after it applied the full
  state the server sends on request, its rooms and users are those of the server, so that the
  next hash of the server confirms it, and its per-room permissions are recomputed from the copy
  once it knows its own user.\<close>

theorem resync_restores_copy:
  assumes "hash_ok s" and "same_hashing e ce"
    and "c' = fst (client_apply_room ce (server_state_event (client_server_state s p h)) c)"
  shows "client_view c' = server_view s \<and> client_ok c' \<and>
    verify_state_hash ce (state_hash e (state_for_update s)) c' = [] \<and>
    c_group_definitions c' = map group_from_proto (group_infos p) \<and>
    (\<forall>me r. c_my_user_id c = Some me \<and> r \<in> set (get_rooms s) \<longrightarrow>
       c_per_room_permissions c' (r_id r) = Some (client_permissions c' me (r_id r)))"
proof -
  define rs where "rs = map (\<lambda>r. r\<lparr>r_effective_permissions := evaluate_user_permissions s h (r_id r) p\<rparr>) (get_rooms s)"
  define us where "us = build_user_list s"
  let ?gs = "map group_from_proto (group_infos p)"
  obtain cs perms where ev: "server_state_event (client_server_state s p h) = FullStateReplaced rs us ?gs cs perms"
    by (simp add: server_state_event_def client_server_state_def Let_def rs_def us_def list_roundtrips)
  have tables: "c_rooms c' = rs" "c_users c' = us" "c_group_definitions c' = ?gs"
    by (simp_all add: assms(3) ev client_apply_room_def room_mutation_def replace_full_state_def Let_def
        split: option.split)
  have view: "client_view c' = server_view s" by (simp add: assms(3) snapshot_view)
  have ids: "map r_id rs = map r_id (get_rooms s)" by (simp add: rs_def)
  then have ok: "client_ok c'"
    using hash_ok_tables [OF assms(1)] unfolding client_ok_def tables_ok_def tables us_def by metis
  obtain s2 where c': "c' = recompute_effective_permissions s2" "c_my_user_id s2 = c_my_user_id c"
    by (auto simp: assms(3) ev client_apply_room_def room_mutation_def replace_full_state_def Let_def
        split: option.split)
  then have "c_per_room_permissions c' u = Some (client_permissions c' me u)"
    if "c_my_user_id c = Some me" "u \<in> r_id ` set rs" for me u
    using recompute_per_room [of s2 me u] that tables(1) by simp
  moreover have "r_id r \<in> r_id ` set rs" if "r \<in> set (get_rooms s)" for r
    using that ids by (metis image_eqI list.set_map)
  ultimately show ?thesis
    using view ok checkpoint_passes [OF assms(1) view ok assms(2)] tables by blast
qed

definition sample_client_env :: client_env where
  "sample_client_env =
     \<lparr>ce_order = id, ce_new_id = 78, ce_now = 0, ce_file_transfer = False,
      ce_encode_state = encode_state sample_env, ce_blake3 = blake3 sample_env\<rparr>"

lemma sample_hash_ok: "hash_ok sample_state"
  by (simp add: hash_ok_def sample_state_def get_rooms_def new_room_def)

lemma sample_same_hashing: "same_hashing sample_env sample_client_env"
  by (simp add: same_hashing_def sample_client_env_def)

definition sample_client :: "(unit, unit) client_state" where
  "sample_client = fst (client_apply_room sample_client_env
     (server_state_event (client_server_state sample_state sample_persist 1)) fresh_client)"

theorem resync_restores_copy_witness:
  "client_view sample_client = server_view sample_state \<and> client_ok sample_client"
  using resync_restores_copy [OF sample_hash_ok sample_same_hashing sample_client_def] by simp

lemma snapshot_ok:
  assumes "hash_ok s"
  shows "client_ok (fst (client_apply_room ce (server_state_event (client_server_state s p h)) fresh_client))"
proof -
  have "event_fits (server_state_event (client_server_state s p h)) (client_view fresh_client)"
    using hash_ok_tables [OF assms]
    by (simp add: event_fits_def server_state_event_def client_server_state_def Let_def list_roundtrips
        tables_ok_def comp_def)
  moreover have "client_ok fresh_client" by (simp add: client_ok_def tables_ok_def fresh_client_def)
  ultimately show ?thesis by (intro client_ok_apply_room)
qed


lemma sample_client_ok: "client_ok sample_client"
  unfolding sample_client_def by (rule snapshot_ok [OF sample_hash_ok])

section \<open>Deleting an occupied room\<close>

definition keeps_places :: "update_msg \<Rightarrow> bool" where
  "keeps_places u = (case u of UserMoved _ _ \<Rightarrow> False | UserJoined _ \<Rightarrow> False | UserLeft _ \<Rightarrow> False | _ \<Rightarrow> True)"

definition place :: "view \<Rightarrow> u64 \<Rightarrow> uuid option" where
  "place v uid = map_option u_current_room (snd v uid)"

lemma place_announce: "keeps_places u \<Longrightarrow> place (announce u v) uid = place v uid"
  by (cases u) (auto simp: keeps_places_def announce_def place_def edit_at_def option.map_comp comp_def
      split: option.split)

definition says_only :: "(update_msg \<Rightarrow> bool) \<Rightarrow> handle \<Rightarrow> world \<Rightarrow> world \<Rightarrow> bool" where
  "says_only P h w w' \<longleftrightarrow> (\<exists>es. w_trace w' = w_trace w @ es \<and> (\<forall>x \<in> set (updates_to h es). P (snd x)))"

lemma says_only_trans: "says_only P h w w' \<Longrightarrow> says_only P h w' w'' \<Longrightarrow> says_only P h w w''"
  unfolding says_only_def by (elim exE conjE, rename_tac es fs, rule_tac x = "es @ fs" in exI) auto

lemma says_only_broadcast:
  assumes "P u" and "w_trace w1 = w_trace w"
  shows "says_only P h w (broadcast_state_update e u w1)"
proof -
  have "P (snd x)" if "x \<in> set (updates_to h (update_effects e (w_state w1) u))" for x
    using that assms(1) by (auto simp: update_effects_def Let_def updates_to_broadcast split: if_splits)
  then show ?thesis
    unfolding says_only_def using assms(2) by (auto simp: trace_broadcast_state_update)
qed

lemma says_only_same: "w_trace w' = w_trace w \<Longrightarrow> says_only P h w w'"
  by (auto simp: says_only_def intro: exI [of _ "[]"])

lemma says_only_fold: "(\<And>x w. says_only P h w (f x w)) \<Longrightarrow> says_only P h w (fold f xs w)"
  by (induction xs arbitrary: w) (auto simp: says_only_same intro: says_only_trans)

lemma delete_room_says: "says_only keeps_places h w (snd (apply_delete_room e d w))"
proof -
  have r: "says_only keeps_places h w (reparent_child e np c w)" for np c w
    by (auto simp: reparent_child_def Let_def on_state_def on_persist_def keeps_places_def
        intro!: says_only_broadcast split: option.split)
  have m: "says_only keeps_places h w (reevaluate_member_mute e u rm w)" for u rm w
    by (auto simp: reevaluate_member_mute_def Let_def on_state_def keeps_places_def
        intro!: says_only_broadcast simp: says_only_same [OF refl] split: option.split)
  define w1 where "w1 = (case room_parent_and_children (w_state w) d of
      Some (np, cs) \<Rightarrow> fold (reparent_child e np) cs w | None \<Rightarrow> w)"
  have w1: "says_only keeps_places h w w1"
    by (auto simp: w1_def says_only_same says_only_fold [OF r] split: option.split)
  have "says_only keeps_places h w1 (snd (apply_delete_room e d w))" if "d \<noteq> ROOT_ROOM_UUID"
    unfolding apply_delete_room_def Let_def w1_def [symmetric] if_not_P [OF that]
    by (auto simp: on_persist_def keeps_places_def says_only_same split: prod.split bool.split
        intro!: says_only_trans [OF says_only_broadcast says_only_fold [OF m]])
  with w1 show ?thesis
    by (cases "d = ROOT_ROOM_UUID")
      (auto simp: apply_delete_room_def says_only_same intro: says_only_trans)
qed

lemma place_receive:
  assumes "\<forall>x \<in> set ups. keeps_places (snd x)"
  shows "place (client_view (fst (receive_updates ce ups c))) uid = place (client_view c) uid"
  using assms
proof (induction ups arbitrary: c)
  case (Cons x ups)
  then show ?case
    by (cases x) (simp add: receive_updates_def run_room_events_append Let_def update_view place_announce)
qed (simp add: receive_updates_def)

text \<open>C38: The deletion of an occupied room is not told in full. The server moves the members of
  the room to the root room, but no update it sends says so: a client that applies them all in
  order still shows every such member in the room that is gone, whatever else it holds, and only
  a full state repairs it.\<close>

theorem occupied_delete_diverges:
  assumes "hash_ok (w_state w)" and "d \<noteq> ROOT_ROOM_UUID"
    and "find_room (get_rooms (w_state w)) d = Some dr" and "get_user_room (w_state w) uid = Some d"
    and "place (client_view c) uid = Some d"
    and "w' = snd (apply_delete_room e d w)"
  shows "get_user_room (w_state w') uid = Some ROOT_ROOM_UUID \<and>
    (\<exists>es. w_trace w' = w_trace w @ es \<and>
       place (client_view (fst (receive_updates ce (updates_to h es) c))) uid = Some d)"
proof
  have "distinct (map r_id (rooms (data (w_state w))))" "find_room (rooms (data (w_state w))) d = Some dr"
    using assms(1,3) by (simp_all add: hash_ok_def get_rooms_def)
  from apply_delete_room_effect [OF this(1) assms(2) this(2), of e "fst (apply_delete_room e d w)" w']
  show "get_user_room (w_state w') uid = Some ROOT_ROOM_UUID"
    using assms(4,6) by (simp add: prod_eq_iff)
  from delete_room_says [of h w e d] obtain es where
    "w_trace w' = w_trace w @ es" "\<forall>x \<in> set (updates_to h es). keeps_places (snd x)"
    unfolding says_only_def assms(6) by blast
  then show "\<exists>es. w_trace w' = w_trace w @ es \<and>
       place (client_view (fst (receive_updates ce (updates_to h es) c))) uid = Some d"
    using assms(5) by (auto simp: place_receive)
qed

theorem occupied_delete_diverges_witness:
  "\<exists>es. w_trace (snd (apply_delete_room sample_env 5 sample_world)) = w_trace sample_world @ es \<and>
     place (client_view (fst (receive_updates sample_client_env (updates_to 0 es) sample_client))) 2 = Some 5"
proof -
  have r: "(5 :: uuid) \<noteq> ROOT_ROOM_UUID" by (simp add: ROOT_ROOM_UUID_def)
  have f: "find_room (get_rooms (w_state sample_world)) 5 = Some (new_room 5 ''Lobby'' 0 None)" by code_simp
  have u: "get_user_room (w_state sample_world) 2 = Some 5" by code_simp
  have "place (server_view sample_state) 2 = Some 5" by code_simp
  moreover have "client_view sample_client = server_view sample_state"
    by (simp add: sample_client_def snapshot_view)
  ultimately have "place (client_view sample_client) 2 = Some 5" by simp
  from occupied_delete_diverges [OF _ r f u this refl, of sample_env sample_client_env 0] sample_hash_ok
  show ?thesis by (simp add: sample_world_def)
qed

section \<open>The permissions a client shows\<close>














end
