(* ===== verification/MumbleWire.thy ===== *)
theory MumbleWire
  imports Wire
begin

text \<open>
  The Mumble side of the bridge at the byte level: message types
  (\<open>mumble-bridge/src/mumble_proto.rs\<close>), the six-byte frame header
  (\<open>mumble_framing.rs\<close>, \<open>write_raw_frame\<close> of \<open>mumble_server.rs\<close>), and the variable
  length integers and Opus voice packets of \<open>mumble_voice.rs\<close>. The protobuf bodies of
  the generated Mumble messages are an argument.
\<close>

section \<open>Message types\<close>

datatype message_type =
    MtVersion | MtUdpTunnel | MtAuthenticate | MtPing | MtReject | MtServerSync
  | MtChannelRemove | MtChannelState | MtUserRemove | MtUserState | MtBanList | MtTextMessage
  | MtPermissionDenied | MtAcl | MtQueryUsers | MtCryptSetup | MtContextActionModify
  | MtContextAction | MtUserList | MtVoiceTarget | MtPermissionQuery | MtCodecVersion
  | MtUserStats | MtRequestBlob | MtServerConfig | MtSuggestConfig

definition message_types :: "message_type list" where
  "message_types =
     [MtVersion, MtUdpTunnel, MtAuthenticate, MtPing, MtReject, MtServerSync,
      MtChannelRemove, MtChannelState, MtUserRemove, MtUserState, MtBanList, MtTextMessage,
      MtPermissionDenied, MtAcl, MtQueryUsers, MtCryptSetup, MtContextActionModify,
      MtContextAction, MtUserList, MtVoiceTarget, MtPermissionQuery, MtCodecVersion,
      MtUserStats, MtRequestBlob, MtServerConfig, MtSuggestConfig]"

text \<open>The \<open>repr(u16)\<close> discriminants, and the partial inverse \<open>from_u16\<close>.\<close>

fun message_type_u16 :: "message_type \<Rightarrow> u16" where
  "message_type_u16 MtVersion = 0"
| "message_type_u16 MtUdpTunnel = 1"
| "message_type_u16 MtAuthenticate = 2"
| "message_type_u16 MtPing = 3"
| "message_type_u16 MtReject = 4"
| "message_type_u16 MtServerSync = 5"
| "message_type_u16 MtChannelRemove = 6"
| "message_type_u16 MtChannelState = 7"
| "message_type_u16 MtUserRemove = 8"
| "message_type_u16 MtUserState = 9"
| "message_type_u16 MtBanList = 10"
| "message_type_u16 MtTextMessage = 11"
| "message_type_u16 MtPermissionDenied = 12"
| "message_type_u16 MtAcl = 13"
| "message_type_u16 MtQueryUsers = 14"
| "message_type_u16 MtCryptSetup = 15"
| "message_type_u16 MtContextActionModify = 16"
| "message_type_u16 MtContextAction = 17"
| "message_type_u16 MtUserList = 18"
| "message_type_u16 MtVoiceTarget = 19"
| "message_type_u16 MtPermissionQuery = 20"
| "message_type_u16 MtCodecVersion = 21"
| "message_type_u16 MtUserStats = 22"
| "message_type_u16 MtRequestBlob = 23"
| "message_type_u16 MtServerConfig = 24"
| "message_type_u16 MtSuggestConfig = 25"

definition message_type_from_u16 :: "u16 \<Rightarrow> message_type option" where
  "message_type_from_u16 v =
     (if unat v < length message_types then Some (message_types ! unat v) else None)"

lemma message_type_from_to_u16: "message_type_from_u16 (message_type_u16 t) = Some t"
  by (cases t) (simp_all add: message_type_from_u16_def message_types_def)

lemma length_message_types [simp]: "length message_types = 26"
  by (simp add: message_types_def)

lemma message_type_table: "map message_type_u16 message_types = map word_of_nat [0..<26]"
  by (simp add: message_types_def upt_rec)

lemma message_type_to_from_u16: "message_type_from_u16 v = Some t \<Longrightarrow> message_type_u16 t = v"
proof -
  assume "message_type_from_u16 v = Some t"
  then have v: "unat v < 26" and t: "t = message_types ! unat v"
    by (auto simp: message_type_from_u16_def split: if_splits)
  have "message_type_u16 t = map message_type_u16 message_types ! unat v"
    using v by (simp add: t)
  also have "\<dots> = v" using v by (simp add: message_type_table)
  finally show ?thesis .
qed

section \<open>Frames\<close>

record mumble_message =
  mm_type :: u16
  mm_payload :: bytes

definition MAX_MESSAGE_SIZE :: u32 where "MAX_MESSAGE_SIZE = 0x7FFFFF"

text \<open>
  The reader is the sequence of bytes the peer delivers before it closes; a read past
  its end fails.
\<close>

datatype frame_error = UnexpectedEof | MessageTooLarge u32

definition read_message :: "bytes \<Rightarrow> frame_error + mumble_message \<times> bytes" where
  "read_message reader =
     (if length reader < 2 then Inl UnexpectedEof
      else
        let msg_type = from_be_bytes (take 2 reader); reader' = drop 2 reader in
        if length reader' < 4 then Inl UnexpectedEof
        else
          let len = from_be_bytes (take 4 reader'); reader'' = drop 4 reader' in
          if MAX_MESSAGE_SIZE < len then Inl (MessageTooLarge len)
          else if length reader'' < unat len then Inl UnexpectedEof
          else Inr (\<lparr>mm_type = msg_type, mm_payload = take (unat len) reader''\<rparr>,
                    drop (unat len) reader''))"

definition write_raw_frame :: "u16 \<Rightarrow> bytes \<Rightarrow> bytes" where
  "write_raw_frame msg_type payload =
     to_be_bytes 2 msg_type @ to_be_bytes 4 (word_of_nat (length payload) :: u32) @ payload"

definition write_message :: "('m \<Rightarrow> bytes) \<Rightarrow> message_type \<Rightarrow> 'm \<Rightarrow> bytes" where
  "write_message encode_to_vec msg_type msg =
     to_be_bytes 2 (message_type_u16 msg_type) @
     to_be_bytes 4 (word_of_nat (length (encode_to_vec msg)) :: u32) @ encode_to_vec msg"

definition write_udp_tunnel :: "bytes \<Rightarrow> bytes" where
  "write_udp_tunnel voice_data =
     to_be_bytes 2 (message_type_u16 MtUdpTunnel) @
     to_be_bytes 4 (word_of_nat (length voice_data) :: u32) @ voice_data"

lemma write_message_raw:
  "write_message enc t m = write_raw_frame (message_type_u16 t) (enc m)"
  by (simp add: write_message_def write_raw_frame_def)

lemma write_udp_tunnel_raw:
  "write_udp_tunnel v = write_raw_frame (message_type_u16 MtUdpTunnel) v"
  by (simp add: write_udp_tunnel_def write_raw_frame_def)

lemma read_message_frame:
  assumes "length payload \<le> 0x7FFFFF"
  shows "read_message (write_raw_frame t payload @ rest) =
    Inr (\<lparr>mm_type = t, mm_payload = payload\<rparr>, rest)"
proof -
  let ?n = "word_of_nat (length payload) :: u32"
  have n: "unat ?n = length payload" using assms by (simp add: unat_of_nat take_bit_nat_eq_self)
  have "\<not> MAX_MESSAGE_SIZE < ?n"
    using assms n by (simp add: MAX_MESSAGE_SIZE_def word_less_nat_alt)
  with n show ?thesis
    by (simp add: read_message_def write_raw_frame_def Let_def from_to_be_bytes)
qed

lemma read_message_oversized:
  assumes "0x7FFFFF < length payload" and "length payload < 2 ^ 32"
  shows "read_message (write_raw_frame t payload @ rest) =
    Inl (MessageTooLarge (word_of_nat (length payload)))"
proof -
  let ?n = "word_of_nat (length payload) :: u32"
  have n: "unat ?n = length payload" using assms by (simp add: unat_of_nat take_bit_nat_eq_self)
  have "MAX_MESSAGE_SIZE < ?n"
    using assms n by (simp add: MAX_MESSAGE_SIZE_def word_less_nat_alt)
  then show ?thesis
    by (simp add: read_message_def write_raw_frame_def Let_def from_to_be_bytes)
qed

lemma read_message_truncated:
  assumes "length payload \<le> 0x7FFFFF" and k: "k < length (write_raw_frame t payload)"
  shows "read_message (take k (write_raw_frame t payload)) = Inl UnexpectedEof"
proof -
  let ?n = "word_of_nat (length payload) :: u32"
  let ?f = "write_raw_frame t payload"
  have n: "unat ?n = length payload" using assms(1) by (simp add: unat_of_nat take_bit_nat_eq_self)
  have small: "\<not> MAX_MESSAGE_SIZE < ?n"
    using assms(1) n by (simp add: MAX_MESSAGE_SIZE_def word_less_nat_alt)
  show ?thesis
  proof (cases "k < 6")
    case True
    then show ?thesis by (auto simp: read_message_def Let_def)
  next
    case False
    then have "take k ?f = to_be_bytes 2 t @ to_be_bytes 4 ?n @ take (k - 6) payload"
      by (simp add: write_raw_frame_def)
    moreover have "k < length payload + 6" using k by (simp add: write_raw_frame_def)
    ultimately show ?thesis using False small n
      by (simp add: read_message_def Let_def from_to_be_bytes)
  qed
qed

lemma read_message_progress:
  assumes "read_message reader = Inr (m, rest)"
  shows "length (mm_payload m) \<le> 0x7FFFFF \<and> reader = write_raw_frame (mm_type m) (mm_payload m) @ rest"
proof -
  let ?len = "from_be_bytes (take 4 (drop 2 reader)) :: u32"
  from assms have l: "6 \<le> length reader" and le: "\<not> MAX_MESSAGE_SIZE < ?len"
    and enough: "unat ?len \<le> length reader - 6"
    and m: "m = \<lparr>mm_type = from_be_bytes (take 2 reader), mm_payload = take (unat ?len) (drop 6 reader)\<rparr>"
    and rest: "rest = drop (unat ?len) (drop 6 reader)"
    by (auto simp: read_message_def Let_def not_less split: if_splits)
  have n: "length (mm_payload m) = unat ?len" using enough by (simp add: m)
  have "write_raw_frame (mm_type m) (mm_payload m) =
      take 2 reader @ take 4 (drop 2 reader) @ mm_payload m"
    using l by (simp add: write_raw_frame_def n) (simp add: m to_from_be_bytes)
  moreover have "mm_payload m @ rest = drop 4 (drop 2 reader)"
    by (simp only: m rest mumble_message.select_convs append_take_drop_id) simp
  ultimately have "write_raw_frame (mm_type m) (mm_payload m) @ rest = reader"
    by (simp only: append_assoc append_take_drop_id)
  with le n show ?thesis by (simp add: MAX_MESSAGE_SIZE_def word_le_nat_alt not_less)
qed

section \<open>Variable length integers\<close>

definition OPUS_TYPE :: u8 where "OPUS_TYPE = 4"

text \<open>The widening cast \<open>as u64\<close> of a byte and the truncating cast \<open>as u8\<close>.\<close>

abbreviation as_u64 :: "u8 \<Rightarrow> u64" where "as_u64 \<equiv> ucast"
abbreviation as_u8 :: "u64 \<Rightarrow> u8" where "as_u8 \<equiv> ucast"

definition read_varint :: "bytes \<Rightarrow> (u64 \<times> nat) option" where
  "read_varint dat =
     (if dat = [] then None
      else
        let first = dat ! 0 in
        if first AND 0x80 = 0 then Some (as_u64 first, 1)
        else if first AND 0xC0 = 0x80 then
          (if length dat < 2 then None
           else Some (push_bit 8 (as_u64 first AND 0x3F) OR as_u64 (dat ! 1), 2))
        else if first AND 0xE0 = 0xC0 then
          (if length dat < 3 then None
           else Some (push_bit 16 (as_u64 first AND 0x1F) OR push_bit 8 (as_u64 (dat ! 1)) OR
                      as_u64 (dat ! 2), 3))
        else if first AND 0xF0 = 0xE0 then
          (if length dat < 4 then None
           else Some (push_bit 24 (as_u64 first AND 0x0F) OR push_bit 16 (as_u64 (dat ! 1)) OR
                      push_bit 8 (as_u64 (dat ! 2)) OR as_u64 (dat ! 3), 4))
        else if first AND 0xF0 = 0xF0 then
          (if first AND 0x0C = 0x00 then
             (if length dat < 5 then None
              else Some (push_bit 24 (as_u64 (dat ! 1)) OR push_bit 16 (as_u64 (dat ! 2)) OR
                         push_bit 8 (as_u64 (dat ! 3)) OR as_u64 (dat ! 4), 5))
           else if first AND 0x0C = 0x04 then
             (if length dat < 9 then None
              else Some (push_bit 56 (as_u64 (dat ! 1)) OR push_bit 48 (as_u64 (dat ! 2)) OR
                         push_bit 40 (as_u64 (dat ! 3)) OR push_bit 32 (as_u64 (dat ! 4)) OR
                         push_bit 24 (as_u64 (dat ! 5)) OR push_bit 16 (as_u64 (dat ! 6)) OR
                         push_bit 8 (as_u64 (dat ! 7)) OR as_u64 (dat ! 8), 9))
           else None)
        else None)"

definition encode_varint :: "u64 \<Rightarrow> bytes" where
  "encode_varint val =
     (if val < 0x80 then [as_u8 val]
      else if val < 0x4000 then [as_u8 (drop_bit 8 val) OR 0x80, as_u8 val]
      else if val < 0x200000 then
        [as_u8 (drop_bit 16 val) OR 0xC0, as_u8 (drop_bit 8 val), as_u8 val]
      else if val < 0x10000000 then
        [as_u8 (drop_bit 24 val) OR 0xE0, as_u8 (drop_bit 16 val), as_u8 (drop_bit 8 val), as_u8 val]
      else if val \<le> 0xFFFFFFFF then
        [0xF0, as_u8 (drop_bit 24 val), as_u8 (drop_bit 16 val), as_u8 (drop_bit 8 val), as_u8 val]
      else
        [0xF4, as_u8 (drop_bit 56 val), as_u8 (drop_bit 48 val), as_u8 (drop_bit 40 val),
         as_u8 (drop_bit 32 val), as_u8 (drop_bit 24 val), as_u8 (drop_bit 16 val),
         as_u8 (drop_bit 8 val), as_u8 val])"

lemma high_bits_clear: "v < 2 ^ k \<Longrightarrow> k \<le> n \<Longrightarrow> \<not> bit (v :: u64) n"
proof -
  assume v: "v < 2 ^ k" and n: "k \<le> n"
  show ?thesis
  proof (cases "n < 64")
    case True
    with n have "k < 64" by simp
    then have "(2::nat) ^ k < 2 ^ 64" by (intro power_strict_increasing) simp_all
    then have "unat (word_of_nat (2 ^ k) :: u64) = 2 ^ k"
      by (subst unat_of_nat) (simp add: take_bit_nat_eq_self)
    with v have "unat v < 2 ^ k" by (simp add: word_less_nat_alt)
    also have "(2::nat) ^ k \<le> 2 ^ n" using n by simp
    finally have "unat v div 2 ^ n = 0" by simp
    then have "\<not> bit (unat v) n" by (simp add: bit_iff_odd)
    then show ?thesis using True by (simp add: bit_unsigned_iff)
  qed (use bit_imp_le_length [of v n] in auto)
qed

lemma byte_join: "k + 8 \<le> 64 \<Longrightarrow>
    push_bit k (as_u64 (as_u8 (drop_bit k v))) OR take_bit k v = take_bit (k + 8) v"
  by (rule bit_word_eqI) (auto simp: bit_simps)

lemma low_byte: "as_u64 (as_u8 v) = take_bit 8 v"
  by (rule bit_word_eqI) (auto simp: bit_simps)

lemma take_bit_below: "v < 2 ^ k \<Longrightarrow> take_bit k v = (v :: u64)"
  by (rule bit_word_eqI) (use high_bits_clear [of v k] in \<open>auto simp: bit_simps not_less [symmetric]\<close>)

lemma u8_eqI:
  fixes v w :: u8
  assumes "bit v 0 = bit w 0" "bit v 1 = bit w 1" "bit v 2 = bit w 2" "bit v 3 = bit w 3"
    and "bit v 4 = bit w 4" "bit v 5 = bit w 5" "bit v 6 = bit w 6" "bit v 7 = bit w 7"
  shows "v = w"
proof (rule bit_word_eqI)
  fix n :: nat
  assume "n < LENGTH(8)"
  then have "n = 0 \<or> n = 1 \<or> n = 2 \<or> n = 3 \<or> n = 4 \<or> n = 5 \<or> n = 6 \<or> n = 7" by auto
  with assms show "bit v n = bit w n" by blast
qed

lemma as_u64_and:
  "as_u64 b AND 0x3F = as_u64 (b AND 0x3F)"
  "as_u64 b AND 0x1F = as_u64 (b AND 0x1F)"
  "as_u64 b AND 0x0F = as_u64 (b AND 0x0F)"
  by (simp_all add: unsigned_and_eq)

lemma u8_neqI: "bit v n \<noteq> bit w n \<Longrightarrow> v \<noteq> (w :: u8)"
  by blast

text \<open>The prefix of the first byte tells the width, and the payload bits survive it.\<close>

lemma tag_none: "\<not> bit b 7 \<Longrightarrow> b AND 0x80 = (0::u8)"
  by (rule u8_eqI) (simp_all add: bit_simps)

lemma tag_80:
  assumes "\<not> bit b 6" "\<not> bit b 7"
  shows "(b OR 0x80) AND 0x80 \<noteq> (0::u8)" "(b OR 0x80) AND 0xC0 = 0x80" "(b OR 0x80) AND 0x3F = b"
  by (rule u8_neqI [of _ 7] u8_eqI; use assms in \<open>simp add: bit_simps\<close>)+

lemma tag_C0:
  assumes "\<not> bit b 5" "\<not> bit b 6" "\<not> bit b 7"
  shows "(b OR 0xC0) AND 0x80 \<noteq> (0::u8)" "(b OR 0xC0) AND 0xC0 \<noteq> 0x80"
    "(b OR 0xC0) AND 0xE0 = 0xC0" "(b OR 0xC0) AND 0x1F = b"
  by (rule u8_neqI [of _ 7], simp add: bit_simps) (rule u8_neqI [of _ 6] u8_eqI; use assms in \<open>simp add: bit_simps\<close>)+

lemma tag_E0:
  assumes "\<not> bit b 4" "\<not> bit b 5" "\<not> bit b 6" "\<not> bit b 7"
  shows "(b OR 0xE0) AND 0x80 \<noteq> (0::u8)" "(b OR 0xE0) AND 0xC0 \<noteq> 0x80"
    "(b OR 0xE0) AND 0xE0 \<noteq> 0xC0" "(b OR 0xE0) AND 0xF0 = 0xE0" "(b OR 0xE0) AND 0x0F = b"
  by (rule u8_neqI [of _ 7], simp add: bit_simps) (rule u8_neqI [of _ 6], simp add: bit_simps,
      (rule u8_neqI [of _ 5] u8_eqI; use assms in \<open>simp add: bit_simps\<close>)+)

lemma byte_bits_clear:
  "val < 2 ^ k \<Longrightarrow> k \<le> m + n \<Longrightarrow> \<not> bit (as_u8 (drop_bit m val)) n"
  using high_bits_clear [of val k "m + n"] by (simp add: bit_simps)

lemma join_bytes:
  "push_bit 8 (as_u64 (as_u8 (drop_bit 8 v))) OR as_u64 (as_u8 v) = take_bit 16 v"
  "push_bit 16 (as_u64 (as_u8 (drop_bit 16 v))) OR push_bit 8 (as_u64 (as_u8 (drop_bit 8 v))) OR
   as_u64 (as_u8 v) = take_bit 24 v"
  "push_bit 24 (as_u64 (as_u8 (drop_bit 24 v))) OR push_bit 16 (as_u64 (as_u8 (drop_bit 16 v))) OR
   push_bit 8 (as_u64 (as_u8 (drop_bit 8 v))) OR as_u64 (as_u8 v) = take_bit 32 v"
  using byte_join [of 8 v] byte_join [of 16 v] byte_join [of 24 v]
  by (simp_all add: low_byte or.assoc)

lemma join_all_bytes:
  "push_bit 56 (as_u64 (as_u8 (drop_bit 56 v))) OR push_bit 48 (as_u64 (as_u8 (drop_bit 48 v))) OR
   push_bit 40 (as_u64 (as_u8 (drop_bit 40 v))) OR push_bit 32 (as_u64 (as_u8 (drop_bit 32 v))) OR
   push_bit 24 (as_u64 (as_u8 (drop_bit 24 v))) OR push_bit 16 (as_u64 (as_u8 (drop_bit 16 v))) OR
   push_bit 8 (as_u64 (as_u8 (drop_bit 8 v))) OR as_u64 (as_u8 v) = v"
  using byte_join [of 32 v] byte_join [of 40 v] byte_join [of 48 v] byte_join [of 56 v]
  by (subst join_bytes(3)) (simp add: take_bit_word_eq_self)

lemma varint_ranges:
  fixes v :: u64
  shows "v < 0x80 \<Longrightarrow> v < 0x4000" "v < 0x4000 \<Longrightarrow> v < 0x200000" "v < 0x200000 \<Longrightarrow> v < 0x10000000"
    "v < 0x10000000 \<Longrightarrow> v \<le> 0xFFFFFFFF" "v \<le> 0xFFFFFFFF \<Longrightarrow> v < 2 ^ 32"
  by (simp_all add: word_less_nat_alt word_le_nat_alt)

lemma read_encode_varint:
  "read_varint (encode_varint val @ rest) = Some (val, length (encode_varint val))"
proof -
  consider "val < 0x80" | "\<not> val < 0x80" "val < 0x4000" | "\<not> val < 0x4000" "val < 0x200000"
    | "\<not> val < 0x200000" "val < 0x10000000" | "\<not> val < 0x10000000" "val \<le> 0xFFFFFFFF"
    | "\<not> val \<le> 0xFFFFFFFF" by blast
  then show ?thesis
  proof cases
    case 1
    then have v: "val < 2 ^ 7" by simp
    then have "take_bit 8 val = val" by (intro take_bit_below) (simp add: word_less_nat_alt)
    with 1 tag_none [of "as_u8 val"] byte_bits_clear [OF v, of 0 7] show ?thesis
      by (simp add: read_varint_def encode_varint_def low_byte)
  next
    case 2
    then have v: "val < 2 ^ 14" by simp
    then have "take_bit 16 val = val" by (intro take_bit_below) (simp add: word_less_nat_alt)
    with 2 tag_80 [OF byte_bits_clear [OF v, of 8] byte_bits_clear [OF v, of 8]] show ?thesis
      by (simp add: read_varint_def encode_varint_def as_u64_and join_bytes)
  next
    case 3
    then have v: "val < 2 ^ 21" by simp
    then have "take_bit 24 val = val" by (intro take_bit_below) (simp add: word_less_nat_alt)
    with 3 varint_ranges [of val] show ?thesis
      using tag_C0 [OF byte_bits_clear [OF v, of 16] byte_bits_clear [OF v, of 16] byte_bits_clear [OF v, of 16]]
      by (auto simp: read_varint_def encode_varint_def as_u64_and join_bytes byte_join)
  next
    case 4
    then have v: "val < 2 ^ 28" by simp
    then have "take_bit 32 val = val" by (intro take_bit_below) (simp add: word_less_nat_alt)
    with 4 varint_ranges [of val] show ?thesis
      using tag_E0 [OF byte_bits_clear [OF v, of 24] byte_bits_clear [OF v, of 24]
          byte_bits_clear [OF v, of 24] byte_bits_clear [OF v, of 24]]
      by (auto simp: read_varint_def encode_varint_def as_u64_and join_bytes byte_join)
  next
    case 5
    then have "take_bit 32 val = val" by (intro take_bit_below varint_ranges(5))
    with 5 varint_ranges [of val] show ?thesis
      by (auto simp: read_varint_def encode_varint_def join_bytes byte_join)
  next
    case 6
    with varint_ranges [of val] show ?thesis
      by (auto simp: read_varint_def encode_varint_def join_all_bytes)
  qed
qed

lemma read_varint_bounds:
  "read_varint dat = Some (v, n) \<Longrightarrow> 0 < n \<and> n \<le> length dat \<and> n \<le> 9"
  by (auto simp: read_varint_def Let_def not_less Suc_le_eq split: if_splits)

lemma length_encode_varint: "0 < length (encode_varint v)" "length (encode_varint v) \<le> 9"
  by (simp_all add: encode_varint_def)

text \<open>A varint in progress is never mistaken for a complete one.\<close>

lemma read_varint_take:
  "read_varint dat = Some (v, n) \<Longrightarrow> k < n \<Longrightarrow> read_varint (take k dat) = None"
  by (auto simp: read_varint_def Let_def split: if_splits)

section \<open>Voice packets\<close>

record mumble_voice_packet =
  mv_target :: u8
  mv_sequence :: u64
  mv_opus_data :: bytes
  mv_is_last :: bool

definition parse_voice_packet :: "bytes \<Rightarrow> mumble_voice_packet option" where
  "parse_voice_packet dat =
     (if dat = [] then None
      else
        let header = dat ! 0;
            voice_type = drop_bit 5 header AND 0x07;
            target = header AND 0x1F in
        if voice_type \<noteq> OPUS_TYPE then None
        else
          let rest = drop 1 dat in
          case read_varint rest of
            None \<Rightarrow> None
          | Some (sequence, consumed) \<Rightarrow>
              let rest = drop consumed rest in
              case read_varint rest of
                None \<Rightarrow> None
              | Some (opus_header, consumed) \<Rightarrow>
                  let opus_len = unat (opus_header AND 0x1FFF);
                      is_last = opus_header AND 0x2000 \<noteq> 0;
                      rest = drop consumed rest in
                  if length rest < opus_len then None
                  else Some \<lparr>mv_target = target, mv_sequence = sequence,
                             mv_opus_data = take opus_len rest, mv_is_last = is_last\<rparr>)"

definition encode_voice_packet :: "u32 \<Rightarrow> u64 \<Rightarrow> bytes \<Rightarrow> bool \<Rightarrow> bytes" where
  "encode_voice_packet session_id sequence opus_data is_last =
     (let header = push_bit 5 OPUS_TYPE;
          session_varint = encode_varint (ucast session_id);
          sequence_varint = encode_varint sequence;
          opus_len = (word_of_nat (length opus_data) :: u64);
          opus_len = (if is_last then opus_len OR 0x2000 else opus_len);
          len_varint = encode_varint opus_len
      in [header] @ session_varint @ sequence_varint @ len_varint @ opus_data)"

text \<open>
  What a receiver of the server-to-client format reads: the same layout as the
  client-to-server one, with the speaker's session in front of the sequence number.
\<close>

definition split_session :: "bytes \<Rightarrow> (u64 \<times> bytes) option" where
  "split_session packet =
     (case packet of
        [] \<Rightarrow> None
      | header # rest \<Rightarrow>
          map_option (\<lambda>(session, consumed). (session, header # drop consumed rest)) (read_varint rest))"

lemma parse_voice_layout:
  assumes "drop_bit 5 header AND 0x07 = OPUS_TYPE"
  shows "parse_voice_packet ([header] @ encode_varint seq @ encode_varint oh @ body) =
    (if length body < unat (oh AND 0x1FFF) then None
     else Some \<lparr>mv_target = header AND 0x1F, mv_sequence = seq,
                mv_opus_data = take (unat (oh AND 0x1FFF)) body, mv_is_last = oh AND 0x2000 \<noteq> 0\<rparr>)"
  using assms by (simp add: parse_voice_packet_def Let_def read_encode_varint)

lemma bit_0x2000: "bit (0x2000 :: u64) n \<longleftrightarrow> n = 13"
proof -
  have "bit (2 ^ 13 :: u64) n \<longleftrightarrow> n = 13"
    by (simp only: bit_exp_iff) auto
  then show ?thesis by simp
qed

lemma bit_0x1FFF: "bit (0x1FFF :: u64) n \<longleftrightarrow> n < 13"
proof -
  have "bit (mask 13 :: u64) n \<longleftrightarrow> n < 13"
    by (simp only: bit_mask_iff) auto
  then show ?thesis by (simp add: mask_eq_exp_minus_1)
qed

lemma opus_header_fields:
  assumes "n < 0x2000"
  shows "unat ((word_of_nat n :: u64) AND 0x1FFF) = n" "((word_of_nat n :: u64) AND 0x2000) = 0"
    "unat ((word_of_nat n OR 0x2000 :: u64) AND 0x1FFF) = n" "((word_of_nat n OR 0x2000 :: u64) AND 0x2000) \<noteq> 0"
proof -
  define w where "w = (word_of_nat n :: u64)"
  have n: "unat w = n" using assms by (simp add: w_def unat_of_nat take_bit_nat_eq_self)
  then have "w < 2 ^ 13" using assms by (simp add: word_less_nat_alt)
  then have clear: "bit w k \<Longrightarrow> k < 13" for k using high_bits_clear [of w 13 k] by (meson not_le)
  have "w AND 0x1FFF = w" "(w OR 0x2000) AND 0x1FFF = w" "w AND 0x2000 = 0"
    by (rule bit_word_eqI; use clear in \<open>auto simp: bit_and_iff bit_or_iff bit_0x2000 bit_0x1FFF
        simp del: bit_word_of_int_iff bit_numeral_word_iff\<close>)+
  moreover have "bit ((w OR 0x2000) AND 0x2000) 13" by (simp add: bit_and_iff bit_or_iff bit_0x2000)
  ultimately show "unat ((word_of_nat n :: u64) AND 0x1FFF) = n" "((word_of_nat n :: u64) AND 0x2000) = 0"
    "unat ((word_of_nat n OR 0x2000 :: u64) AND 0x1FFF) = n" "((word_of_nat n OR 0x2000 :: u64) AND 0x2000) \<noteq> 0"
    unfolding w_def [symmetric] using n by auto
qed

lemma voice_header: "drop_bit 5 (push_bit 5 OPUS_TYPE) AND 0x07 = OPUS_TYPE" "push_bit 5 OPUS_TYPE AND 0x1F = 0"
  by (simp_all add: OPUS_TYPE_def)

lemma split_session_encode:
  "split_session (encode_voice_packet s seq opus fin) =
     Some (ucast s, [push_bit 5 OPUS_TYPE] @ encode_varint seq @
       encode_varint (if fin then word_of_nat (length opus) OR 0x2000 else word_of_nat (length opus)) @ opus)"
  by (simp add: split_session_def encode_voice_packet_def Let_def read_encode_varint)

text \<open>What a receiver of an encoded packet reads.\<close>

lemma voice_packet_decodes:
  assumes "length opus < 0x2000"
  shows "\<exists>tail. split_session (encode_voice_packet s seq opus fin) = Some (ucast s, tail) \<and>
    parse_voice_packet tail = Some \<lparr>mv_target = 0, mv_sequence = seq, mv_opus_data = opus, mv_is_last = fin\<rparr>"
proof (intro exI conjI)
  show "split_session (encode_voice_packet s seq opus fin) = Some (ucast s, [push_bit 5 OPUS_TYPE] @
      encode_varint seq @ encode_varint (if fin then word_of_nat (length opus) OR 0x2000
        else word_of_nat (length opus)) @ opus)"
    by (rule split_session_encode)
qed (use opus_header_fields [OF assms] in \<open>simp add: parse_voice_layout [OF voice_header(1), simplified] voice_header\<close>)

section \<open>Properties\<close>

text \<open>The bridge's Mumble framing is lossless: a frame within the size limit is read back with
  exactly its type and payload and leaves the bytes behind it, every proper prefix of it is
  reported as an early end, a frame whose header announces more than the limit is refused
  before its body is read, and whatever is accepted is the frame of what was returned.\<close>

theorem mumble_frame_roundtrip:
  "(length payload \<le> 0x7FFFFF \<longrightarrow>
     read_message (write_raw_frame t payload @ rest) = Inr (\<lparr>mm_type = t, mm_payload = payload\<rparr>, rest) \<and>
     (\<forall>k < length (write_raw_frame t payload).
        read_message (take k (write_raw_frame t payload)) = Inl UnexpectedEof)) \<and>
   (0x7FFFFF < length payload \<and> length payload < 2 ^ 32 \<longrightarrow>
     read_message (write_raw_frame t payload @ rest) =
       Inl (MessageTooLarge (word_of_nat (length payload)))) \<and>
   (read_message reader = Inr (m, rest') \<longrightarrow>
     length (mm_payload m) \<le> 0x7FFFFF \<and> reader = write_raw_frame (mm_type m) (mm_payload m) @ rest')"
  using read_message_frame read_message_truncated read_message_oversized read_message_progress by blast

theorem mumble_frame_roundtrip_witness:
  "read_message (write_raw_frame 9 [1, 2, 3] @ [7]) = Inr (\<lparr>mm_type = 9, mm_payload = [1, 2, 3]\<rparr>, [7])"
  using mumble_frame_roundtrip [of "[1, 2, 3]" 9 "[7]"] by simp

text \<open>Voice integers are exact on the whole 64-bit range: whatever follows it, an encoded
  integer reads back as itself and consumes exactly its own one to nine bytes; no prefix of it
  is accepted; and the reader never consumes more than it was given.\<close>

theorem voice_varint_roundtrip:
  "read_varint (encode_varint val @ rest) = Some (val, length (encode_varint val)) \<and>
   0 < length (encode_varint val) \<and> length (encode_varint val) \<le> 9 \<and>
   (\<forall>k < length (encode_varint val). read_varint (take k (encode_varint val @ rest)) = None) \<and>
   (read_varint dat = Some (v, n) \<longrightarrow> 0 < n \<and> n \<le> length dat)"
  using read_encode_varint length_encode_varint read_varint_take read_varint_bounds by blast

theorem voice_varint_roundtrip_witness:
  "read_varint (encode_varint 300 @ [5]) = Some (300, 2) \<and>
   (read_varint [0x80, 1] = Some (1, 2) \<longrightarrow> (2::nat) \<le> 2)"
  using voice_varint_roundtrip [of 300 "[5]" "[0x80, 1]" 1 2] by (simp add: encode_varint_def)

text \<open>A voice packet the bridge builds for a Mumble client carries what it was built from: the
  receiver reads the speaker's session first, and the rest parses, in the client-to-server
  layout, to normal speech with the same sequence number, audio and end-of-stream mark. The
  length field has thirteen bits, so this holds for frames below 8192 bytes.\<close>

theorem voice_packet_roundtrip:
  assumes "length opus < 0x2000"
  shows "\<exists>tail. split_session (encode_voice_packet s seq opus fin) = Some (ucast s, tail) \<and>
    parse_voice_packet tail = Some \<lparr>mv_target = 0, mv_sequence = seq, mv_opus_data = opus, mv_is_last = fin\<rparr>"
  using assms by (rule voice_packet_decodes)

theorem voice_packet_roundtrip_witness:
  "\<exists>tail. split_session (encode_voice_packet 1000 7 [1, 2] True) = Some (1000, tail) \<and>
    parse_voice_packet tail = Some \<lparr>mv_target = 0, mv_sequence = 7, mv_opus_data = [1, 2], mv_is_last = True\<rparr>"
  using voice_packet_roundtrip [of "[1, 2]" 1000 7 True] by simp

end
