(* ===== verification/BridgeMaps.thy ===== *)
theory BridgeMaps
  imports Effects
begin

text \<open>
  The bookkeeping of the Mumble bridge (\<open>mumble-bridge/src/state.rs\<close>): the two-way tables
  between Rumble rooms and Mumble channels and between Rumble users and Mumble sessions,
  the clients connected on the Mumble side, and the bridge's shared state. Both tables
  hand out fresh 32-bit numbers from a counter; the contract they share is a locale.

  The counters are 32-bit words. An increment past the largest word wraps (an unchecked
  build) or panics (a checked one); the facts below are stated for tables with room left.
\<close>

section \<open>The contract of a two-way table\<close>

text \<open>
  \<open>left m\<close> is the number of fresh numbers the table can still hand out.
\<close>

locale id_table =
  fixes number_of :: "'m \<Rightarrow> 'k \<Rightarrow> u32 option"
    and key_of :: "'m \<Rightarrow> u32 \<Rightarrow> 'k option"
    and get_or_insert :: "'k \<Rightarrow> 'm \<Rightarrow> u32 \<times> 'm"
    and remove :: "'k \<Rightarrow> 'm \<Rightarrow> 'm"
    and ok :: "'m \<Rightarrow> bool"
    and left :: "'m \<Rightarrow> nat"
  assumes two_way: "ok m \<Longrightarrow> number_of m k = Some i \<longleftrightarrow> key_of m i = Some k"
    and insert_number: "ok m \<Longrightarrow> number_of (snd (get_or_insert k m)) = (number_of m)(k \<mapsto> fst (get_or_insert k m))"
    and insert_known: "ok m \<Longrightarrow> number_of m k = Some i \<Longrightarrow> fst (get_or_insert k m) = i"
    and insert_ok: "ok m \<Longrightarrow> 0 < left m \<Longrightarrow> ok (snd (get_or_insert k m))"
    and insert_left: "ok m \<Longrightarrow> left m \<le> Suc (left (snd (get_or_insert k m)))"
    and insert_known_left: "ok m \<Longrightarrow> number_of m k = Some i \<Longrightarrow> left (snd (get_or_insert k m)) = left m"
    and remove_number: "ok m \<Longrightarrow> number_of (remove k m) = (number_of m)(k := None)"
    and remove_ok: "ok m \<Longrightarrow> ok (remove k m)"
    and remove_left: "ok m \<Longrightarrow> left (remove k m) = left m"
begin

lemma number_inject: "ok m \<Longrightarrow> number_of m k = Some i \<Longrightarrow> number_of m k' = Some i \<Longrightarrow> k = k'"
  using two_way [of m k i] two_way [of m k' i] by simp

lemma insert_unchanged: "ok m \<Longrightarrow> number_of m k = Some i \<Longrightarrow> number_of (snd (get_or_insert k m)) = number_of m"
  by (simp add: insert_number insert_known fun_upd_idem)

lemma insert_stable:
  "ok m \<Longrightarrow> number_of m k' = Some i \<Longrightarrow> number_of (snd (get_or_insert k m)) k' = Some i"
  by (cases "k' = k") (simp_all add: insert_number insert_known)

lemma insert_fresh:
  assumes "ok m" "0 < left m" "number_of m k = None"
  shows "key_of m (fst (get_or_insert k m)) = None"
proof (cases "key_of m (fst (get_or_insert k m))")
  case (Some k')
  let ?m = "snd (get_or_insert k m)"
  from Some assms(1) have k': "number_of m k' = Some (fst (get_or_insert k m))" by (simp add: two_way)
  with assms(3) have "k' \<noteq> k" by auto
  with k' assms(1) have "number_of ?m k' = Some (fst (get_or_insert k m))" "number_of ?m k = Some (fst (get_or_insert k m))"
    by (simp_all add: insert_number)
  with number_inject [OF insert_ok [OF assms(1,2)]] \<open>k' \<noteq> k\<close> show ?thesis by blast
qed

lemma insert_spec:
  assumes "ok m" "0 < left m" "get_or_insert k m = (i, m')"
  shows "ok m'" "number_of m' k = Some i" "key_of m' i = Some k"
    "number_of m k' = Some i' \<Longrightarrow> number_of m' k' = Some i' \<and> (i' = i \<longrightarrow> k' = k)"
proof -
  show ok: "ok m'" and get: "number_of m' k = Some i"
    using insert_ok [OF assms(1,2), of k] insert_number [OF assms(1), of k] by (simp_all add: assms(3))
  then show "key_of m' i = Some k" by (simp add: two_way)
  show "number_of m' k' = Some i' \<and> (i' = i \<longrightarrow> k' = k)" if "number_of m k' = Some i'"
    using insert_stable [OF assms(1) that, of k] number_inject [OF ok get, of k'] by (auto simp: assms(3))
qed

lemma remove_key:
  "ok m \<Longrightarrow> number_of m k = Some i \<Longrightarrow> key_of (remove k m) i = None"
proof (cases "key_of (remove k m) i")
  case (Some k')
  assume m: "ok m" and k: "number_of m k = Some i"
  from Some m have "number_of (remove k m) k' = Some i" by (simp add: two_way remove_ok)
  with m have "k' \<noteq> k" "number_of m k' = Some i" by (auto simp: remove_number split: if_splits)
  with number_inject [OF m k] show ?thesis by blast
qed

lemma remove_insert: "ok m \<Longrightarrow> 0 < left m \<Longrightarrow> number_of (remove k (snd (get_or_insert k m))) = (number_of m)(k := None)"
  by (simp add: remove_number insert_ok insert_number)

text \<open>A run of removals.\<close>

lemma fold_remove: "ok m \<Longrightarrow> ok (fold remove ks m) \<and> left (fold remove ks m) = left m \<and>
    number_of (fold remove ks m) k = (if k \<in> set ks then None else number_of m k)"
  by (induction ks arbitrary: m) (auto simp: remove_ok remove_left remove_number)

end

section \<open>Rooms and channels\<close>

record channel_map =
  cm_rumble_to_mumble :: "(uuid, u32) dashmap"
  cm_mumble_to_rumble :: "(u32, uuid) dashmap"
  cm_next_id :: u32

definition channel_map_new :: channel_map where
  "channel_map_new = \<lparr>cm_rumble_to_mumble = [], cm_mumble_to_rumble = [], cm_next_id = 1\<rparr>"

definition channel_get_or_insert :: "uuid \<Rightarrow> channel_map \<Rightarrow> u32 \<times> channel_map" where
  "channel_get_or_insert uuid m =
     (if uuid = ROOT_ROOM_UUID then
        (0, m\<lparr>cm_rumble_to_mumble := dm_insert uuid 0 (cm_rumble_to_mumble m),
              cm_mumble_to_rumble := dm_insert 0 uuid (cm_mumble_to_rumble m)\<rparr>)
      else case dm_get (cm_rumble_to_mumble m) uuid of
        Some i \<Rightarrow> (i, m)
      | None \<Rightarrow>
          let i = cm_next_id m in
          (i, m\<lparr>cm_next_id := i + 1,
                 cm_rumble_to_mumble := dm_insert uuid i (cm_rumble_to_mumble m),
                 cm_mumble_to_rumble := dm_insert i uuid (cm_mumble_to_rumble m)\<rparr>))"

definition get_mumble_id :: "channel_map \<Rightarrow> uuid \<Rightarrow> u32 option" where
  "get_mumble_id m uuid = dm_get (cm_rumble_to_mumble m) uuid"

definition get_rumble_uuid :: "channel_map \<Rightarrow> u32 \<Rightarrow> uuid option" where
  "get_rumble_uuid m mumble_id = dm_get (cm_mumble_to_rumble m) mumble_id"

definition remove_by_uuid :: "uuid \<Rightarrow> channel_map \<Rightarrow> channel_map" where
  "remove_by_uuid uuid m =
     (case dm_get (cm_rumble_to_mumble m) uuid of
        None \<Rightarrow> m
      | Some i \<Rightarrow> m\<lparr>cm_rumble_to_mumble := dm_remove uuid (cm_rumble_to_mumble m),
                     cm_mumble_to_rumble := dm_remove i (cm_mumble_to_rumble m)\<rparr>)"

definition rumble_uuids :: "channel_map \<Rightarrow> uuid list" where
  "rumble_uuids m = map fst (cm_rumble_to_mumble m)"

text \<open>
  Well-formed: the two directions are inverse to each other, the root room and only the
  root room is channel 0, and every other channel number was handed out by the counter.
\<close>

definition inverse_tables :: "('a, 'b) dashmap \<Rightarrow> ('b, 'a) dashmap \<Rightarrow> bool" where
  "inverse_tables f g \<longleftrightarrow> dm_ok f \<and> dm_ok g \<and> set g = (\<lambda>(a, b). (b, a)) ` set f"

definition channel_ok :: "channel_map \<Rightarrow> bool" where
  "channel_ok m \<longleftrightarrow>
     inverse_tables (cm_rumble_to_mumble m) (cm_mumble_to_rumble m) \<and> 0 < cm_next_id m \<and>
     (\<forall>(uuid, i) \<in> set (cm_rumble_to_mumble m).
        if uuid = ROOT_ROOM_UUID then i = 0 else 0 < i \<and> i < cm_next_id m)"

definition channel_left :: "channel_map \<Rightarrow> nat" where
  "channel_left m = 2 ^ 32 - 1 - unat (cm_next_id m)"

section \<open>Users and sessions\<close>

record user_map =
  um_rumble_to_mumble :: "(u64, u32) dashmap"
  um_mumble_to_rumble :: "(u32, u64) dashmap"
  um_next_session :: u32

definition user_map_new :: user_map where
  "user_map_new = \<lparr>um_rumble_to_mumble = [], um_mumble_to_rumble = [], um_next_session = 100000\<rparr>"

definition user_get_or_insert :: "u64 \<Rightarrow> user_map \<Rightarrow> u32 \<times> user_map" where
  "user_get_or_insert rumble_id m =
     (case dm_get (um_rumble_to_mumble m) rumble_id of
        Some session \<Rightarrow> (session, m)
      | None \<Rightarrow>
          let session = um_next_session m in
          (session, m\<lparr>um_next_session := session + 1,
                      um_rumble_to_mumble := dm_insert rumble_id session (um_rumble_to_mumble m),
                      um_mumble_to_rumble := dm_insert session rumble_id (um_mumble_to_rumble m)\<rparr>))"

definition get_mumble_session :: "user_map \<Rightarrow> u64 \<Rightarrow> u32 option" where
  "get_mumble_session m rumble_id = dm_get (um_rumble_to_mumble m) rumble_id"

definition get_rumble_id :: "user_map \<Rightarrow> u32 \<Rightarrow> u64 option" where
  "get_rumble_id m session = dm_get (um_mumble_to_rumble m) session"

definition remove_by_rumble_id :: "u64 \<Rightarrow> user_map \<Rightarrow> user_map" where
  "remove_by_rumble_id rumble_id m =
     (case dm_get (um_rumble_to_mumble m) rumble_id of
        None \<Rightarrow> m
      | Some session \<Rightarrow> m\<lparr>um_rumble_to_mumble := dm_remove rumble_id (um_rumble_to_mumble m),
                          um_mumble_to_rumble := dm_remove session (um_mumble_to_rumble m)\<rparr>)"

definition user_entries :: "user_map \<Rightarrow> (u64 \<times> u32) list" where
  "user_entries m = um_rumble_to_mumble m"

definition user_ok :: "user_map \<Rightarrow> bool" where
  "user_ok m \<longleftrightarrow>
     inverse_tables (um_rumble_to_mumble m) (um_mumble_to_rumble m) \<and> 100000 \<le> um_next_session m \<and>
     (\<forall>(_, session) \<in> set (um_rumble_to_mumble m). 100000 \<le> session \<and> session < um_next_session m)"

definition user_left :: "user_map \<Rightarrow> nat" where
  "user_left m = 2 ^ 32 - 1 - unat (um_next_session m)"

section \<open>The tables meet the contract\<close>

lemma inverse_tables_get:
  "inverse_tables f g \<Longrightarrow> dm_get f a = Some b \<longleftrightarrow> dm_get g b = Some a"
  by (auto simp: inverse_tables_def dm_ok_def map_of_eq_Some_iff)

lemma inverse_tables_insert:
  assumes "inverse_tables f g" and "dm_get f a = None" and "dm_get g b = None"
  shows "inverse_tables (dm_insert a b f) (dm_insert b a g)"
proof -
  have "filter (\<lambda>e. fst e \<noteq> a) f = f" "filter (\<lambda>e. fst e \<noteq> b) g = g"
    using assms(2,3) by (auto simp: filter_id_conv map_of_eq_None_iff)
  with assms show ?thesis
    by (simp add: inverse_tables_def dm_insert_def dm_ok_def map_of_eq_None_iff)
qed

lemma inverse_tables_insert_same:
  assumes "inverse_tables f g" and "dm_get f a = Some b"
  shows "inverse_tables (dm_insert a b f) (dm_insert b a g)"
proof -
  have ga: "dm_get g b = Some a" using assms by (simp add: inverse_tables_get)
  have same: "set (dm_insert k v m) = set m" if "dm_ok m" "dm_get m k = Some v" for k v and m :: "('x, 'y) dashmap"
    using that by (auto simp: dm_insert_def dm_ok_def map_of_eq_Some_iff dest: eq_key_imp_eq_value)
  from assms(1) have "dm_ok f" "dm_ok g" by (simp_all add: inverse_tables_def)
  with assms ga show ?thesis by (simp add: inverse_tables_def dm_ok_insert same)
qed

lemma inverse_tables_remove:
  assumes "inverse_tables f g" and "dm_get f a = Some b"
  shows "inverse_tables (dm_remove a f) (dm_remove b g)"
proof -
  have ga: "dm_get g b = Some a" using assms by (simp add: inverse_tables_get)
  have "(x = a) = (y = b)" if "(x, y) \<in> set f" for x y
    using that assms ga
    by (metis (no_types, lifting) inverse_tables_def dm_ok_def inverse_tables_get map_of_eq_Some_iff option.inject)
  then have "set (dm_remove b g) = (\<lambda>(a, b). (b, a)) ` set (dm_remove a f)"
    using assms(1) by (force simp: dm_remove_def inverse_tables_def)
  with assms(1) show ?thesis by (simp add: inverse_tables_def dm_ok_remove)
qed

lemma inverse_tables_Nil [simp]: "inverse_tables [] []"
  by (simp add: inverse_tables_def)

lemma unat_succ: "unat (n :: u32) < 2 ^ 32 - 1 \<Longrightarrow> unat (n + 1) = Suc (unat n)"
  by (simp add: unat_word_ariths)

lemma less_succ: "unat (n :: u32) < 2 ^ 32 - 1 \<Longrightarrow> n < n + 1 \<and> (m < n \<longrightarrow> m < n + 1)"
  using unat_succ [of n] by (auto simp: word_less_nat_alt)

lemma channel_ok_bound: "channel_ok m \<Longrightarrow> dm_get (cm_rumble_to_mumble m) u = Some i \<Longrightarrow>
    (if u = ROOT_ROOM_UUID then i = 0 else 0 < i \<and> i < cm_next_id m)"
  by (auto simp: channel_ok_def dest!: map_of_SomeD)

lemma channel_fresh:
  assumes "channel_ok m"
  shows "dm_get (cm_mumble_to_rumble m) (cm_next_id m) = None"
    "dm_get (cm_rumble_to_mumble m) ROOT_ROOM_UUID = None \<Longrightarrow> dm_get (cm_mumble_to_rumble m) 0 = None"
proof -
  have inv: "inverse_tables (cm_rumble_to_mumble m) (cm_mumble_to_rumble m)" and pos: "0 < cm_next_id m"
    using assms by (simp_all add: channel_ok_def)
  have key: "dm_get (cm_rumble_to_mumble m) u = Some i" if "dm_get (cm_mumble_to_rumble m) i = Some u" for u i
    using that by (simp add: inverse_tables_get [OF inv])
  show "dm_get (cm_mumble_to_rumble m) (cm_next_id m) = None"
  proof (cases "dm_get (cm_mumble_to_rumble m) (cm_next_id m)")
    case (Some u)
    from channel_ok_bound [OF assms key [OF Some]] pos show ?thesis by (auto split: if_splits)
  qed
  show "dm_get (cm_mumble_to_rumble m) 0 = None" if "dm_get (cm_rumble_to_mumble m) ROOT_ROOM_UUID = None"
  proof (cases "dm_get (cm_mumble_to_rumble m) 0")
    case (Some u)
    from channel_ok_bound [OF assms key [OF Some]] key [OF Some] that show ?thesis
      by (auto split: if_splits)
  qed
qed

lemma channel_insert_ok:
  assumes ok: "channel_ok m" and left: "0 < channel_left m"
  shows "channel_ok (snd (channel_get_or_insert u m))"
proof -
  let ?f = "cm_rumble_to_mumble m" and ?g = "cm_mumble_to_rumble m"
  have inv: "inverse_tables ?f ?g" using ok by (simp add: channel_ok_def)
  consider "u = ROOT_ROOM_UUID" | i where "u \<noteq> ROOT_ROOM_UUID" "dm_get ?f u = Some i"
    | "u \<noteq> ROOT_ROOM_UUID" "dm_get ?f u = None" by fastforce
  then show ?thesis
  proof cases
    case 1
    have "inverse_tables (dm_insert u 0 ?f) (dm_insert 0 u ?g)"
    proof (cases "dm_get ?f u")
      case None
      with 1 channel_fresh(2) [OF ok] show ?thesis by (intro inverse_tables_insert [OF inv]) simp_all
    next
      case (Some i)
      with channel_ok_bound [OF ok Some] 1 show ?thesis by (intro inverse_tables_insert_same [OF inv]) simp
    qed
    with 1 ok show ?thesis
      by (auto simp: channel_ok_def channel_get_or_insert_def dm_insert_def)
  next
    case 2
    with ok show ?thesis by (simp add: channel_get_or_insert_def)
  next
    case 3
    have lt: "unat (cm_next_id m) < 2 ^ 32 - 1" using left by (simp add: channel_left_def)
    have "inverse_tables (dm_insert u (cm_next_id m) ?f) (dm_insert (cm_next_id m) u ?g)"
      using 3 channel_fresh(1) [OF ok] by (intro inverse_tables_insert [OF inv])
    moreover have "0 < cm_next_id m" using ok by (simp add: channel_ok_def)
    ultimately show ?thesis using 3 ok less_succ [OF lt]
      by (auto simp: channel_ok_def channel_get_or_insert_def Let_def dm_insert_def intro: order.strict_trans)
  qed
qed

interpretation channels: id_table get_mumble_id get_rumble_uuid channel_get_or_insert remove_by_uuid channel_ok channel_left
proof unfold_locales
  fix m u i
  assume ok: "channel_ok m"
  have inv: "inverse_tables (cm_rumble_to_mumble m) (cm_mumble_to_rumble m)"
    using ok by (simp add: channel_ok_def)
  show "(get_mumble_id m u = Some i) = (get_rumble_uuid m i = Some u)"
    by (simp add: get_mumble_id_def get_rumble_uuid_def inverse_tables_get [OF inv])
  show "get_mumble_id (snd (channel_get_or_insert u m)) = (get_mumble_id m)(u \<mapsto> fst (channel_get_or_insert u m))"
    by (auto simp: get_mumble_id_def channel_get_or_insert_def Let_def dm_get_insert fun_eq_iff split: option.splits)
  show "fst (channel_get_or_insert u m) = i" if "get_mumble_id m u = Some i"
    using that channel_ok_bound [OF ok, of u i] by (auto simp: get_mumble_id_def channel_get_or_insert_def)
  show "channel_left (snd (channel_get_or_insert u m)) = channel_left m" if "get_mumble_id m u = Some i"
    using that by (auto simp: get_mumble_id_def channel_get_or_insert_def channel_left_def)
  show "channel_left m \<le> Suc (channel_left (snd (channel_get_or_insert u m)))"
  proof (cases "unat (cm_next_id m) < 2 ^ 32 - 1")
    case True
    then show ?thesis using unat_succ [OF True]
      by (auto simp: channel_get_or_insert_def channel_left_def Let_def split: option.splits)
  qed (simp add: channel_left_def)
  show "get_mumble_id (remove_by_uuid u m) = (get_mumble_id m)(u := None)"
    by (auto simp: get_mumble_id_def remove_by_uuid_def dm_get_remove fun_eq_iff split: option.splits)
  show "channel_ok (remove_by_uuid u m)"
    using ok inverse_tables_remove [OF inv]
    by (auto simp: channel_ok_def remove_by_uuid_def dm_remove_def split: option.splits)
  show "channel_left (remove_by_uuid u m) = channel_left m"
    by (simp add: remove_by_uuid_def channel_left_def split: option.splits)
qed (rule channel_insert_ok)

lemma user_ok_bound: "user_ok m \<Longrightarrow> dm_get (um_rumble_to_mumble m) u = Some i \<Longrightarrow>
    100000 \<le> i \<and> i < um_next_session m"
  by (auto simp: user_ok_def dest!: map_of_SomeD)

lemma user_insert_ok:
  assumes ok: "user_ok m" and left: "0 < user_left m"
  shows "user_ok (snd (user_get_or_insert u m))"
proof (cases "dm_get (um_rumble_to_mumble m) u")
  case None
  let ?f = "um_rumble_to_mumble m" and ?g = "um_mumble_to_rumble m" and ?n = "um_next_session m"
  have inv: "inverse_tables ?f ?g" using ok by (simp add: user_ok_def)
  have "dm_get ?g ?n = None"
  proof (cases "dm_get ?g ?n")
    case (Some k)
    then have "dm_get ?f k = Some ?n" by (simp add: inverse_tables_get [OF inv])
    from user_ok_bound [OF ok this] show ?thesis by simp
  qed
  then have "inverse_tables (dm_insert u ?n ?f) (dm_insert ?n u ?g)"
    using None by (intro inverse_tables_insert [OF inv])
  moreover have lt: "unat ?n < 2 ^ 32 - 1" using left by (simp add: user_left_def)
  moreover have "100000 \<le> ?n" using ok by (simp add: user_ok_def)
  moreover from this have "100000 \<le> ?n + 1" using less_succ [OF lt] by (meson order.trans less_imp_le)
  ultimately show ?thesis using None ok less_succ [OF lt]
    by (auto simp: user_ok_def user_get_or_insert_def Let_def dm_insert_def intro: order.strict_trans order.trans less_imp_le)
qed (use ok in \<open>simp add: user_get_or_insert_def\<close>)

interpretation users: id_table get_mumble_session get_rumble_id user_get_or_insert remove_by_rumble_id user_ok user_left
proof unfold_locales
  fix m u i
  assume ok: "user_ok m"
  have inv: "inverse_tables (um_rumble_to_mumble m) (um_mumble_to_rumble m)"
    using ok by (simp add: user_ok_def)
  show "(get_mumble_session m u = Some i) = (get_rumble_id m i = Some u)"
    by (simp add: get_mumble_session_def get_rumble_id_def inverse_tables_get [OF inv])
  show "get_mumble_session (snd (user_get_or_insert u m)) = (get_mumble_session m)(u \<mapsto> fst (user_get_or_insert u m))"
    by (auto simp: get_mumble_session_def user_get_or_insert_def Let_def dm_get_insert fun_eq_iff split: option.splits)
  show "fst (user_get_or_insert u m) = i" if "get_mumble_session m u = Some i"
    using that by (simp add: get_mumble_session_def user_get_or_insert_def)
  show "user_left (snd (user_get_or_insert u m)) = user_left m" if "get_mumble_session m u = Some i"
    using that by (simp add: get_mumble_session_def user_get_or_insert_def)
  show "user_left m \<le> Suc (user_left (snd (user_get_or_insert u m)))"
  proof (cases "unat (um_next_session m) < 2 ^ 32 - 1")
    case True
    then show ?thesis using unat_succ [OF True]
      by (auto simp: user_get_or_insert_def user_left_def Let_def split: option.splits)
  qed (simp add: user_left_def)
  show "get_mumble_session (remove_by_rumble_id u m) = (get_mumble_session m)(u := None)"
    by (auto simp: get_mumble_session_def remove_by_rumble_id_def dm_get_remove fun_eq_iff split: option.splits)
  show "user_ok (remove_by_rumble_id u m)"
    using ok inverse_tables_remove [OF inv]
    by (auto simp: user_ok_def remove_by_rumble_id_def dm_remove_def split: option.splits)
  show "user_left (remove_by_rumble_id u m) = user_left m"
    by (simp add: remove_by_rumble_id_def user_left_def split: option.splits)
qed (rule user_insert_ok)

section \<open>The bridge state\<close>

record mumble_client =
  mc_session :: u32
  mc_username :: string
  mc_channel_id :: u32
  mc_is_muted :: bool
  mc_is_deafened :: bool

record bridge_state =
  bs_channels :: channel_map
  bs_users :: user_map
  bs_mumble_clients :: "(u32, mumble_client) dashmap"
  bs_next_mumble_session :: u32
  bs_rumble_rooms :: "room list"
  bs_rumble_users :: "user list"
  bs_bridge_user_id :: "u64 option"
  bs_rumble_connected :: bool
  bs_pending_registrations :: "(string \<times> u32) list"
  bs_virtual_user_map :: "(u32, u64) dashmap"
  bs_reverse_virtual_user_map :: "(u64, u32) dashmap"
  bs_welcome_message :: "string option"

definition bridge_state_new :: bridge_state where
  "bridge_state_new =
     \<lparr>bs_channels = channel_map_new, bs_users = user_map_new, bs_mumble_clients = [],
      bs_next_mumble_session = 1000, bs_rumble_rooms = [], bs_rumble_users = [],
      bs_bridge_user_id = None, bs_rumble_connected = False, bs_pending_registrations = [],
      bs_virtual_user_map = [], bs_reverse_virtual_user_map = [], bs_welcome_message = None\<rparr>"

definition allocate_mumble_session :: "bridge_state \<Rightarrow> u32 \<times> bridge_state" where
  "allocate_mumble_session s =
     (let session = bs_next_mumble_session s
      in (session, s\<lparr>bs_next_mumble_session := session + 1\<rparr>))"

lemma new_tables_ok [simp]:
  "channel_ok channel_map_new" "user_ok user_map_new" "channel_left channel_map_new = 2 ^ 32 - 2"
  "user_left user_map_new = 2 ^ 32 - 100001"
  by (simp_all add: channel_ok_def channel_map_new_def user_ok_def user_map_new_def channel_left_def user_left_def)

section \<open>Properties\<close>

text \<open>The bridge numbers rooms and users consistently. From the empty tables, as long as fresh
  numbers remain, asking for a number keeps every number handed out before, gives distinct
  rooms and distinct users distinct numbers, and the reverse lookup returns what was asked for;
  the root room is channel 0, no other room is, and no user has a number below 100000.\<close>

theorem bridge_tables_consistent:
  assumes "channel_ok cm" "0 < channel_left cm" "user_ok um" "0 < user_left um"
    and "channel_get_or_insert r cm = (c, cm')" and "user_get_or_insert u um = (s, um')"
  shows "channel_ok cm' \<and> user_ok um' \<and>
    get_mumble_id cm' r = Some c \<and> get_rumble_uuid cm' c = Some r \<and> (c = 0 \<longleftrightarrow> r = ROOT_ROOM_UUID) \<and>
    get_mumble_session um' u = Some s \<and> get_rumble_id um' s = Some u \<and> 100000 \<le> s \<and>
    (\<forall>r' c'. get_mumble_id cm r' = Some c' \<longrightarrow> get_mumble_id cm' r' = Some c' \<and> (c' = c \<longrightarrow> r' = r)) \<and>
    (\<forall>u' s'. get_mumble_session um u' = Some s' \<longrightarrow> get_mumble_session um' u' = Some s' \<and> (s' = s \<longrightarrow> u' = u))"
proof -
  note c = channels.insert_spec [OF assms(1,2,5)] and u = users.insert_spec [OF assms(3,4,6)]
  have "c = 0 \<longleftrightarrow> r = ROOT_ROOM_UUID"
    using channel_ok_bound [OF c(1), of r c] c(2) by (auto simp: get_mumble_id_def split: if_splits)
  moreover have "100000 \<le> s" using user_ok_bound [OF u(1), of u s] u(2) by (simp add: get_mumble_session_def)
  ultimately show ?thesis using c u by blast
qed

theorem bridge_tables_consistent_witness:
  "get_rumble_uuid (snd (channel_get_or_insert 5 channel_map_new)) 1 = Some 5 \<and>
   get_rumble_id (snd (user_get_or_insert 7 user_map_new)) 100000 = Some 7"
proof -
  have "fst (channel_get_or_insert 5 channel_map_new) = 1" "fst (user_get_or_insert 7 user_map_new) = 100000"
    by (simp_all add: channel_get_or_insert_def user_get_or_insert_def channel_map_new_def user_map_new_def
        ROOT_ROOM_UUID_def Let_def)
  then have eq: "channel_get_or_insert 5 channel_map_new = (1, snd (channel_get_or_insert 5 channel_map_new))"
    "user_get_or_insert 7 user_map_new = (100000, snd (user_get_or_insert 7 user_map_new))"
    by (simp_all add: prod_eq_iff)
  have left: "0 < channel_left channel_map_new" "0 < user_left user_map_new" by simp_all
  show ?thesis using bridge_tables_consistent [OF new_tables_ok(1) left(1) new_tables_ok(2) left(2) eq] by blast
qed

text \<open>Sessions of Mumble clients and proxy sessions of Rumble users share one number space that
  is kept apart only by its starting points: while fewer than 99000 clients have connected, a
  new client's session is nobody's proxy session; the client after that may be given the
  session a Rumble user already has.\<close>

theorem session_partition:
  "(user_ok (bs_users st) \<and> bs_next_mumble_session st < 100000 \<longrightarrow>
      get_rumble_id (bs_users st) (fst (allocate_mumble_session st)) = None) \<and>
   (\<exists>st. user_ok (bs_users st) \<and> bs_next_mumble_session st = 100000 \<and>
      get_rumble_id (bs_users st) (fst (allocate_mumble_session st)) \<noteq> None)"
proof (intro conjI impI)
  assume a: "user_ok (bs_users st) \<and> bs_next_mumble_session st < 100000"
  show "get_rumble_id (bs_users st) (fst (allocate_mumble_session st)) = None"
  proof (cases "get_rumble_id (bs_users st) (bs_next_mumble_session st)")
    case (Some u)
    with a have "get_mumble_session (bs_users st) u = Some (bs_next_mumble_session st)" by (simp add: users.two_way)
    with user_ok_bound [of "bs_users st" u] a show ?thesis by (auto simp: get_mumble_session_def not_less [symmetric])
  qed (simp add: allocate_mumble_session_def Let_def)
next
  let ?st = "bridge_state_new\<lparr>bs_next_mumble_session := 100000, bs_users := snd (user_get_or_insert 7 user_map_new)\<rparr>"
  have "user_ok (snd (user_get_or_insert 7 user_map_new))" by (rule users.insert_ok) simp_all
  then have "user_ok (bs_users ?st) \<and> bs_next_mumble_session ?st = 100000 \<and>
      get_rumble_id (bs_users ?st) (fst (allocate_mumble_session ?st)) \<noteq> None"
    by (simp add: allocate_mumble_session_def user_get_or_insert_def user_map_new_def get_rumble_id_def dm_insert_def)
  then show "\<exists>st. user_ok (bs_users st) \<and> bs_next_mumble_session st = 100000 \<and>
      get_rumble_id (bs_users st) (fst (allocate_mumble_session st)) \<noteq> None" by blast
qed

theorem session_partition_witness:
  "get_rumble_id (bs_users bridge_state_new) (fst (allocate_mumble_session bridge_state_new)) = None"
  using session_partition [of bridge_state_new] by (simp add: bridge_state_new_def)

end
