(* ===== verification/Reconcile.thy ===== *)
theory Reconcile
  imports BridgeMaps "HOL-Library.Sublist"
begin

text \<open>
  Full-state reconciliation of the Mumble bridge (\<open>mumble-bridge/src/reconcile.rs\<close>): the
  difference of two Rumble snapshots as an ordered list of Mumble messages. What a Mumble
  client shows is specified by \<open>view_apply\<close>: a message overwrites the fields it carries
  and leaves the fields it omits.
\<close>

section \<open>Mumble messages\<close>

text \<open>The fields of the generated messages that the bridge sets; all others stay unset.\<close>

record channel_state_msg =
  cs_channel_id :: "u32 option"
  cs_parent :: "u32 option"
  cs_name :: "string option"
  cs_description :: "string option"

record user_state_msg =
  us_session :: "u32 option"
  us_actor :: "u32 option"
  us_name :: "string option"
  us_channel_id :: "u32 option"
  us_self_mute :: "bool option"
  us_self_deaf :: "bool option"

record user_remove_msg =
  ur_session :: u32
  ur_reason :: "string option"

record channel_remove_msg =
  cr_channel_id :: u32

definition channel_state_default :: channel_state_msg where
  "channel_state_default = \<lparr>cs_channel_id = None, cs_parent = None, cs_name = None, cs_description = None\<rparr>"

definition user_state_default :: user_state_msg where
  "user_state_default = \<lparr>us_session = None, us_actor = None, us_name = None, us_channel_id = None,
     us_self_mute = None, us_self_deaf = None\<rparr>"

datatype sync_message =
    SyncUserRemove user_remove_msg
  | SyncUserState user_state_msg
  | SyncChannelRemove channel_remove_msg
  | SyncChannelState channel_state_msg

section \<open>The algorithm\<close>

record skip_rules =
  sk_bridge_user_id :: "u64 option"
  sk_virtual_user_ids :: "u64 set"
  sk_pending_usernames :: "string set"

definition skips :: "skip_rules \<Rightarrow> user \<Rightarrow> bool" where
  "skips skip u \<longleftrightarrow>
     Some (u_user_id u) = sk_bridge_user_id skip \<or>
     u_user_id u \<in> sk_virtual_user_ids skip \<or>
     u_username u \<in> sk_pending_usernames skip"

text \<open>
  The lookup tables collected from a snapshot: a later entry with the same key replaces
  an earlier one.
\<close>

definition room_by_uuid :: "room list \<Rightarrow> uuid \<Rightarrow> room option" where
  "room_by_uuid rs = map_of (rev (map (\<lambda>r. (r_id r, r)) rs))"

definition user_by_id :: "user list \<Rightarrow> u64 \<Rightarrow> user option" where
  "user_by_id us = map_of (rev (map (\<lambda>u. (u_user_id u, u)) us))"

text \<open>
  \<open>old_depth\<close>: the walk up the old tree. The loop runs while the depth is at most the number
  of old rooms, so that number plus one bounds its rounds.
\<close>

fun old_depth_walk :: "(uuid \<Rightarrow> room option) \<Rightarrow> nat \<Rightarrow> uuid \<Rightarrow> nat" where
  "old_depth_walk old 0 cur = 0"
| "old_depth_walk old (Suc n) cur =
     (if cur = ROOT_ROOM_UUID then 0
      else case old cur of
        Some room \<Rightarrow> Suc (old_depth_walk old n (r_parent room))
      | None \<Rightarrow> 0)"

definition old_depth :: "uuid \<Rightarrow> room list \<Rightarrow> nat" where
  "old_depth u old_rooms =
     old_depth_walk (room_by_uuid old_rooms) (Suc (length (remdups (map r_id old_rooms)))) u"

text \<open>Proxy sessions whose user is gone or is not to be shown, in ascending order.\<close>

definition vanished_users :: "user list \<Rightarrow> user_map \<Rightarrow> skip_rules \<Rightarrow> (u64 \<times> u32) list" where
  "vanished_users new_users um skip =
     (let new_user_ids = set (map u_user_id (filter (\<lambda>u. \<not> skips skip u) new_users))
      in sort (filter (\<lambda>(i, _). i \<notin> new_user_ids) (user_entries um)))"

definition user_removes :: "(u64 \<times> u32) list \<Rightarrow> sync_message list" where
  "user_removes vanished =
     map (\<lambda>(_, session). SyncUserRemove \<lparr>ur_session = session, ur_reason = Some ''Left''\<rparr>) vanished"

text \<open>
  The breadth-first walk over the new rooms. The queue holds the rooms the source's index
  queue points to; \<open>children_of\<close> is its adjacency table. The source has no bound on the
  walk: the result \<open>None\<close> means that it is still running after \<open>n\<close> rounds.
\<close>

definition children_of :: "room list \<Rightarrow> uuid \<Rightarrow> room list" where
  "children_of rs u = filter (\<lambda>r. r_id r \<noteq> ROOT_ROOM_UUID \<and> r_parent r = u) rs"

definition bfs_start :: "room list \<Rightarrow> room list" where
  "bfs_start rs =
     (case List.find (\<lambda>r. r_id r = ROOT_ROOM_UUID) rs of
        Some root \<Rightarrow> [root]
      | None \<Rightarrow> children_of rs ROOT_ROOM_UUID)"

definition room_changed :: "room list \<Rightarrow> room \<Rightarrow> bool" where
  "room_changed old_rooms r =
     (case room_by_uuid old_rooms (r_id r) of
        None \<Rightarrow> True
      | Some old \<Rightarrow> r_name old \<noteq> r_name r \<or> r_description old \<noteq> r_description r \<or> r_parent old \<noteq> r_parent r)"

text \<open>One round: the channel numbers of the room and of its parent, and the message, if any.\<close>

definition channel_step :: "room list \<Rightarrow> room \<Rightarrow> channel_map \<Rightarrow> channel_map \<times> sync_message list" where
  "channel_step old_rooms r cm =
     (let (channel_id, cm) = channel_get_or_insert (r_id r) cm;
          (parent, cm) = (if r_id r \<noteq> ROOT_ROOM_UUID
                          then (case channel_get_or_insert (r_parent r) cm of (p, cm) \<Rightarrow> (Some p, cm))
                          else (None, cm))
      in (cm, if room_changed old_rooms r
              then [SyncChannelState \<lparr>cs_channel_id = Some channel_id, cs_parent = parent,
                      cs_name = Some (r_name r), cs_description = r_description r\<rparr>]
              else []))"

fun channel_bfs :: "nat \<Rightarrow> room list \<Rightarrow> room list \<Rightarrow> room list \<Rightarrow> channel_map \<Rightarrow> (channel_map \<times> sync_message list) option" where
  "channel_bfs n old_rooms new_rooms [] cm = Some (cm, [])"
| "channel_bfs 0 old_rooms new_rooms (r # queue) cm = None"
| "channel_bfs (Suc n) old_rooms new_rooms (r # queue) cm =
     (case channel_step old_rooms r cm of
        (cm', msgs) \<Rightarrow>
          map_option (\<lambda>(cm'', msgs'). (cm'', msgs @ msgs'))
            (channel_bfs n old_rooms new_rooms (queue @ children_of new_rooms (r_id r)) cm'))"

definition user_changed :: "user list \<Rightarrow> user_map \<Rightarrow> user \<Rightarrow> bool" where
  "user_changed old_users um u =
     (case (get_mumble_session um (u_user_id u), user_by_id old_users (u_user_id u)) of
        (None, _) \<Rightarrow> True
      | (Some _, None) \<Rightarrow> True
      | (Some _, Some old) \<Rightarrow>
          u_username old \<noteq> u_username u \<or> u_current_room old \<noteq> u_current_room u \<or>
          u_is_muted old \<noteq> u_is_muted u \<or> u_is_deafened old \<noteq> u_is_deafened u)"

definition user_step :: "user list \<Rightarrow> user \<Rightarrow> channel_map \<times> user_map \<Rightarrow> (channel_map \<times> user_map) \<times> sync_message list" where
  "user_step old_users u = (\<lambda>(cm, um).
     let (channel_id, cm) = channel_get_or_insert (u_current_room u) cm;
         changed = user_changed old_users um u;
         (session, um) = user_get_or_insert (u_user_id u) um
     in ((cm, um),
         if changed
         then [SyncUserState (user_state_default
                 \<lparr>us_session := Some session, us_name := Some (u_username u), us_channel_id := Some channel_id,
                  us_self_mute := Some (u_is_muted u), us_self_deaf := Some (u_is_deafened u)\<rparr>)]
         else []))"

fun user_updates :: "user list \<Rightarrow> user list \<Rightarrow> channel_map \<times> user_map \<Rightarrow> (channel_map \<times> user_map) \<times> sync_message list" where
  "user_updates old_users [] maps = (maps, [])"
| "user_updates old_users (u # us) maps =
     (case user_step old_users u maps of
        (maps', msgs) \<Rightarrow>
          (case user_updates old_users us maps' of (maps'', msgs') \<Rightarrow> (maps'', msgs @ msgs')))"

text \<open>
  Removed channels, deepest in the old tree first and by number among equals. A number that
  a room of the table does not have cannot occur (the source unwraps it).
\<close>

definition removed_channels :: "room list \<Rightarrow> room list \<Rightarrow> channel_map \<Rightarrow> (nat \<times> u32 \<times> uuid) list" where
  "removed_channels old_rooms new_rooms cm =
     sort_key (\<lambda>(depth, channel_id, _). (- int depth, channel_id))
       (map (\<lambda>u. (old_depth u old_rooms, the (get_mumble_id cm u), u))
         (filter (\<lambda>u. u \<noteq> ROOT_ROOM_UUID \<and> u \<notin> set (map r_id new_rooms)) (rumble_uuids cm)))"

record reconcile_output =
  ro_messages :: "sync_message list"
  ro_removed_user_ids :: "u64 list"

definition reconcile_server_state ::
  "nat \<Rightarrow> room list \<Rightarrow> user list \<Rightarrow> room list \<Rightarrow> user list \<Rightarrow> channel_map \<Rightarrow> user_map \<Rightarrow> skip_rules \<Rightarrow>
   (reconcile_output \<times> channel_map \<times> user_map) option" where
  "reconcile_server_state fuel old_rooms old_users new_rooms new_users cm um skip =
     (let vanished = vanished_users new_users um skip;
          um = fold remove_by_rumble_id (map fst vanished) um
      in map_option (\<lambda>(cm, channel_msgs).
           let ((cm, um), user_msgs) = user_updates old_users (filter (\<lambda>u. \<not> skips skip u) new_users) (cm, um);
               removed = removed_channels old_rooms new_rooms cm;
               cm = fold remove_by_uuid (map (snd \<circ> snd) removed) cm
           in (\<lparr>ro_messages = user_removes vanished @ channel_msgs @ user_msgs @
                  map (\<lambda>(_, channel_id, _). SyncChannelRemove \<lparr>cr_channel_id = channel_id\<rparr>) removed,
                ro_removed_user_ids = map fst vanished\<rparr>, cm, um))
         (channel_bfs fuel old_rooms new_rooms (bfs_start new_rooms) cm))"

section \<open>What a Mumble client shows\<close>

record channel_view =
  cv_parent :: "u32 option"
  cv_name :: "string option"
  cv_description :: "string option"

record user_view =
  uv_name :: "string option"
  uv_channel :: "u32 option"
  uv_mute :: "bool option"
  uv_deaf :: "bool option"

record mumble_view =
  vw_channels :: "u32 \<Rightarrow> channel_view option"
  vw_users :: "u32 \<Rightarrow> user_view option"

definition empty_view :: mumble_view where
  "empty_view = \<lparr>vw_channels = Map.empty, vw_users = Map.empty\<rparr>"

text \<open>A field that is present replaces what was shown, an absent one does not.\<close>

fun overlay :: "'a option \<Rightarrow> 'a option \<Rightarrow> 'a option" where
  "overlay (Some x) old = Some x"
| "overlay None old = old"

lemma overlay_present: "x \<noteq> None \<Longrightarrow> overlay x z = x"
  by (cases x) simp_all

definition overlay_channel :: "channel_state_msg \<Rightarrow> channel_view option \<Rightarrow> channel_view" where
  "overlay_channel m old =
     (let prev = (case old of Some cv \<Rightarrow> cv | None \<Rightarrow> \<lparr>cv_parent = None, cv_name = None, cv_description = None\<rparr>)
      in \<lparr>cv_parent = overlay (cs_parent m) (cv_parent prev), cv_name = overlay (cs_name m) (cv_name prev),
          cv_description = overlay (cs_description m) (cv_description prev)\<rparr>)"

definition overlay_user :: "user_state_msg \<Rightarrow> user_view option \<Rightarrow> user_view" where
  "overlay_user m old =
     (let prev = (case old of Some uv \<Rightarrow> uv | None \<Rightarrow> \<lparr>uv_name = None, uv_channel = None, uv_mute = None, uv_deaf = None\<rparr>)
      in \<lparr>uv_name = overlay (us_name m) (uv_name prev), uv_channel = overlay (us_channel_id m) (uv_channel prev),
          uv_mute = overlay (us_self_mute m) (uv_mute prev), uv_deaf = overlay (us_self_deaf m) (uv_deaf prev)\<rparr>)"

fun view_apply :: "sync_message \<Rightarrow> mumble_view \<Rightarrow> mumble_view" where
  "view_apply (SyncUserRemove m) v = v\<lparr>vw_users := (vw_users v)(ur_session m := None)\<rparr>"
| "view_apply (SyncUserState m) v =
     (case us_session m of
        None \<Rightarrow> v
      | Some s \<Rightarrow> v\<lparr>vw_users := (vw_users v)(s \<mapsto> overlay_user m (vw_users v s))\<rparr>)"
| "view_apply (SyncChannelRemove m) v = v\<lparr>vw_channels := (vw_channels v)(cr_channel_id m := None)\<rparr>"
| "view_apply (SyncChannelState m) v =
     (case cs_channel_id m of
        None \<Rightarrow> v
      | Some c \<Rightarrow> v\<lparr>vw_channels := (vw_channels v)(c \<mapsto> overlay_channel m (vw_channels v c))\<rparr>)"

abbreviation view_after :: "sync_message list \<Rightarrow> mumble_view \<Rightarrow> mumble_view" where
  "view_after \<equiv> fold view_apply"

text \<open>
  A room is shown: its channel exists with the room's name and, below the root, with the
  channel of the room's parent. A description is shown when the room has one; a message
  cannot take a description back.
\<close>

definition channel_shown :: "channel_map \<Rightarrow> mumble_view \<Rightarrow> room \<Rightarrow> bool" where
  "channel_shown cm v r \<longleftrightarrow>
     (\<exists>c cv. get_mumble_id cm (r_id r) = Some c \<and> vw_channels v c = Some cv \<and>
        cv_name cv = Some (r_name r) \<and>
        (r_id r \<noteq> ROOT_ROOM_UUID \<longrightarrow>
           (\<exists>p. get_mumble_id cm (r_parent r) = Some p \<and> cv_parent cv = Some p)) \<and>
        (r_description r \<noteq> None \<longrightarrow> cv_description cv = r_description r))"

definition user_shown :: "channel_map \<Rightarrow> user_map \<Rightarrow> mumble_view \<Rightarrow> user \<Rightarrow> bool" where
  "user_shown cm um v u \<longleftrightarrow>
     (\<exists>s c. get_mumble_session um (u_user_id u) = Some s \<and> get_mumble_id cm (u_current_room u) = Some c \<and>
        vw_users v s = Some \<lparr>uv_name = Some (u_username u), uv_channel = Some c,
          uv_mute = Some (u_is_muted u), uv_deaf = Some (u_is_deafened u)\<rparr>)"

section \<open>The walk\<close>

inductive reaches_root :: "room list \<Rightarrow> uuid \<Rightarrow> bool" for rs where
  root: "reaches_root rs ROOT_ROOM_UUID"
| child: "r \<in> set rs \<Longrightarrow> reaches_root rs (r_parent r) \<Longrightarrow> reaches_root rs (r_id r)"

text \<open>A proper room tree: distinct rooms, the root among them, and every room hangs below it.\<close>

definition room_tree_ok :: "room list \<Rightarrow> bool" where
  "room_tree_ok rs \<longleftrightarrow>
     distinct (map r_id rs) \<and> ROOT_ROOM_UUID \<in> r_id ` set rs \<and> (\<forall>r \<in> set rs. reaches_root rs (r_id r))"

text \<open>The order in which the walk visits the rooms, and the work along an order.\<close>

fun bfs_order :: "nat \<Rightarrow> room list \<Rightarrow> room list \<Rightarrow> room list option" where
  "bfs_order n rs [] = Some []"
| "bfs_order 0 rs (r # queue) = None"
| "bfs_order (Suc n) rs (r # queue) = map_option ((#) r) (bfs_order n rs (queue @ children_of rs (r_id r)))"

fun channel_steps :: "room list \<Rightarrow> room list \<Rightarrow> channel_map \<Rightarrow> channel_map \<times> sync_message list" where
  "channel_steps old_rooms [] cm = (cm, [])"
| "channel_steps old_rooms (r # ord) cm =
     (case channel_step old_rooms r cm of
        (cm', msgs) \<Rightarrow> (case channel_steps old_rooms ord cm' of (cm'', msgs') \<Rightarrow> (cm'', msgs @ msgs')))"

lemma channel_bfs_order:
  "channel_bfs n old_rooms rs q cm = map_option (\<lambda>ord. channel_steps old_rooms ord cm) (bfs_order n rs q)"
proof (induction n rs q arbitrary: cm rule: bfs_order.induct)
  case (3 n rs r queue)
  obtain cm' msgs where step: "channel_step old_rooms r cm = (cm', msgs)" by (cases "channel_step old_rooms r cm")
  show ?case using "3.IH" [of cm'] by (cases "bfs_order n rs (queue @ children_of rs (r_id r))")
      (simp_all add: step split: prod.splits)
qed simp_all

fun parent_first :: "uuid set \<Rightarrow> room list \<Rightarrow> bool" where
  "parent_first seen [] \<longleftrightarrow> True"
| "parent_first seen (r # rs) \<longleftrightarrow>
     (r_id r = ROOT_ROOM_UUID \<or> r_parent r \<in> seen) \<and> parent_first (insert (r_id r) seen) rs"

definition walk_inv :: "room list \<Rightarrow> room list \<Rightarrow> room list \<Rightarrow> bool" where
  "walk_inv rs V Q \<longleftrightarrow>
     distinct (V @ Q) \<and> set (V @ Q) \<subseteq> set rs \<and> (\<forall>r \<in> set V. set (children_of rs (r_id r)) \<subseteq> set (V @ Q)) \<and>
     (\<forall>r \<in> set (V @ Q). r_id r = ROOT_ROOM_UUID \<or> r_parent r \<in> r_id ` set V \<or>
        (r_parent r = ROOT_ROOM_UUID \<and> ROOT_ROOM_UUID \<notin> r_id ` set rs))"

lemma walk_inv_step:
  assumes d: "distinct (map r_id rs)" and inv: "walk_inv rs V (r # queue)"
  shows "walk_inv rs (V @ [r]) (queue @ children_of rs (r_id r))"
proof -
  let ?K = "children_of rs (r_id r)"
  have r: "r \<in> set rs" "r \<notin> set V" using inv by (auto simp: walk_inv_def)
  have inj: "x = y" if "x \<in> set rs" "y \<in> set rs" "r_id x = r_id y" for x y
    using d that by (meson distinct_map inj_onD)
  have new: "k \<notin> set (V @ r # queue)" if "k \<in> set ?K" for k
  proof
    assume k: "k \<in> set (V @ r # queue)"
    from that have kp: "k \<in> set rs" "r_id k \<noteq> ROOT_ROOM_UUID" "r_parent k = r_id r" by (auto simp: children_of_def)
    with inv k have "r_id r \<in> r_id ` set V \<or> (r_id r = ROOT_ROOM_UUID \<and> ROOT_ROOM_UUID \<notin> r_id ` set rs)"
      unfolding walk_inv_def by metis
    then obtain x where "x \<in> set V" "r_id x = r_id r" using r(1) by (metis image_iff)
    with inj [of x r] r inv show False by (auto simp: walk_inv_def)
  qed
  have "distinct rs" using d by (simp add: distinct_map)
  then have dk: "distinct ?K" and sub: "set ?K \<subseteq> set rs" by (auto simp: children_of_def)
  have up: "r_parent k = r_id r" if "k \<in> set ?K" for k using that by (simp add: children_of_def)
  show ?thesis using inv new dk sub up unfolding walk_inv_def by auto
qed

lemma bfs_order_total:
  assumes d: "distinct (map r_id rs)" and "walk_inv rs V Q" and "length rs \<le> n + length V"
  shows "\<exists>ord. bfs_order n rs Q = Some ord \<and> walk_inv rs (V @ ord) [] \<and>
    parent_first (insert ROOT_ROOM_UUID (r_id ` set V)) ord \<and>
    (ROOT_ROOM_UUID \<in> r_id ` set rs \<longrightarrow> parent_first (r_id ` set V) ord) \<and> set Q \<subseteq> set ord"
  using assms
proof (induction n rs Q arbitrary: V rule: bfs_order.induct)
  case (2 rs r queue)
  then have "distinct (V @ r # queue)" and "set (V @ r # queue) \<subseteq> set rs" by (auto simp: walk_inv_def)
  then have "length (V @ r # queue) \<le> length rs" by (metis card_mono distinct_card finite_set card_length le_trans)
  with "2.prems"(3) show ?case by simp
next
  case (3 n rs r queue)
  from "3.IH" [OF "3.prems"(1) walk_inv_step [OF "3.prems"(1,2)]] "3.prems" obtain ord where
    ord: "bfs_order n rs (queue @ children_of rs (r_id r)) = Some ord" "walk_inv rs ((V @ [r]) @ ord) []"
      "parent_first (insert ROOT_ROOM_UUID (r_id ` set (V @ [r]))) ord" "set (queue @ children_of rs (r_id r)) \<subseteq> set ord"
      "ROOT_ROOM_UUID \<in> r_id ` set rs \<longrightarrow> parent_first (r_id ` set (V @ [r])) ord"
    by auto
  from "3.prems"(2) have "r_id r = ROOT_ROOM_UUID \<or> r_parent r \<in> insert ROOT_ROOM_UUID (r_id ` set V)"
    by (auto simp: walk_inv_def)
  moreover from "3.prems"(2) have "r_id r = ROOT_ROOM_UUID \<or> r_parent r \<in> r_id ` set V" if "ROOT_ROOM_UUID \<in> r_id ` set rs"
    using that by (auto simp: walk_inv_def)
  ultimately show ?case using ord by (auto simp: insert_commute)
qed simp_all

lemma walk_inv_start:
  assumes "distinct (map r_id rs)"
  shows "walk_inv rs [] (bfs_start rs)"
proof (cases "List.find (\<lambda>r. r_id r = ROOT_ROOM_UUID) rs")
  case None
  then have "ROOT_ROOM_UUID \<notin> r_id ` set rs" by (auto simp: find_None_iff)
  moreover have "distinct rs" using assms by (simp add: distinct_map)
  ultimately show ?thesis using None by (auto simp: walk_inv_def bfs_start_def children_of_def)
next
  case (Some root)
  with find_Some_set [OF Some] show ?thesis by (simp add: walk_inv_def bfs_start_def)
qed

lemma bfs_order_distinct:
  assumes "distinct (map r_id rs)" and "length rs \<le> n"
  obtains ord where "bfs_order n rs (bfs_start rs) = Some ord" "walk_inv rs ord []"
    "ROOT_ROOM_UUID \<in> r_id ` set rs \<longrightarrow> parent_first {} ord" "set (bfs_start rs) \<subseteq> set ord"
  using bfs_order_total [OF assms(1) walk_inv_start [OF assms(1)], of n] assms(2) by auto

lemma bfs_order_tree:
  assumes ok: "room_tree_ok rs" and n: "length rs \<le> n"
  obtains ord where "bfs_order n rs (bfs_start rs) = Some ord" "parent_first {} ord"
    "distinct (map r_id ord)" "set ord = set rs"
proof -
  have d: "distinct (map r_id rs)" using ok by (simp add: room_tree_ok_def)
  obtain ord where ord: "bfs_order n rs (bfs_start rs) = Some ord" "walk_inv rs ord []"
    "ROOT_ROOM_UUID \<in> r_id ` set rs \<longrightarrow> parent_first {} ord" "set (bfs_start rs) \<subseteq> set ord"
    by (rule bfs_order_distinct [OF d n])
  have sub: "set ord \<subseteq> set rs" and dist: "distinct ord"
    and kids: "\<forall>r \<in> set ord. set (children_of rs (r_id r)) \<subseteq> set ord"
    using ord(2) by (simp_all add: walk_inv_def)
  have closed: "k \<in> set ord" if "r \<in> set ord" "k \<in> set rs" "r_id k \<noteq> ROOT_ROOM_UUID" "r_parent k = r_id r" for r k
    using bspec [OF kids that(1)] that(2-4) by (auto simp: children_of_def)
  have inj: "x = y" if "x \<in> set rs" "y \<in> set rs" "r_id x = r_id y" for x y
    using d that by (meson distinct_map inj_onD)
  from ok obtain top where top: "top \<in> set rs" "r_id top = ROOT_ROOM_UUID" by (auto simp: room_tree_ok_def)
  then have "\<exists>x. List.find (\<lambda>r. r_id r = ROOT_ROOM_UUID) rs = Some x"
    by (cases "List.find (\<lambda>r. r_id r = ROOT_ROOM_UUID) rs") (auto simp: find_None_iff)
  then obtain x where x: "List.find (\<lambda>r. r_id r = ROOT_ROOM_UUID) rs = Some x" ..
  have "x = top" using find_Some_set [OF x] top by (intro inj) simp_all
  with x ord(4) have rin: "top \<in> set ord" by (simp add: bfs_start_def)
  have "u \<in> r_id ` set ord" if "reaches_root rs u" for u
    using that
  proof induction
    case root
    show ?case using rin top(2) by (metis imageI)
  next
    case (child r)
    then obtain p where p: "r_parent r = r_id p" "p \<in> set ord" by blast
    show ?case
    proof (cases "r_id r = ROOT_ROOM_UUID")
      case True
      then show ?thesis using rin top(2) by (metis imageI)
    next
      case False
      from closed [OF p(2) child(1) False p(1)] show ?thesis by (rule imageI)
    qed
  qed
  then have "r_id r \<in> r_id ` set ord" if "r \<in> set rs" for r using ok that by (simp add: room_tree_ok_def)
  then have "r \<in> set ord" if "r \<in> set rs" for r
  proof -
    from \<open>r \<in> set rs \<Longrightarrow> r_id r \<in> r_id ` set ord\<close> [OF that] obtain y where y: "r_id r = r_id y" "y \<in> set ord" by (rule imageE)
    then have "r = y" using that sub by (intro inj) blast+
    with y show ?thesis by simp
  qed
  then have eq: "set ord = set rs" using sub by (intro equalityI subsetI) (erule subsetD, assumption, simp)
  have "inj_on r_id (set ord)" unfolding eq by (rule inj_onI) (rule inj)
  with dist have "distinct (map r_id ord)" by (simp add: distinct_map)
  moreover have "parent_first {} ord" using ord(3) ok by (simp add: room_tree_ok_def)
  ultimately show ?thesis using eq by (intro that [OF ord(1)])
qed

section \<open>Showing rooms\<close>

lemma channel_shown_cong:
  "channel_shown cm v r \<Longrightarrow> r_id r' = r_id r \<Longrightarrow> r_name r' = r_name r \<Longrightarrow> r_parent r' = r_parent r \<Longrightarrow>
   r_description r' = r_description r \<Longrightarrow> channel_shown cm v r'"
  by (simp add: channel_shown_def)

lemma channel_shown_mono:
  assumes "channel_shown cm v r"
    and "\<And>u c. get_mumble_id cm u = Some c \<Longrightarrow> u = r_id r \<or> r_id r \<noteq> ROOT_ROOM_UUID \<and> u = r_parent r \<Longrightarrow>
      get_mumble_id cm' u = Some c"
    and "\<And>c. get_mumble_id cm (r_id r) = Some c \<Longrightarrow> vw_channels v' c = vw_channels v c"
  shows "channel_shown cm' v' r"
proof -
  from assms(1) obtain c cv where c: "get_mumble_id cm (r_id r) = Some c" "vw_channels v c = Some cv"
      "cv_name cv = Some (r_name r)"
      "r_id r \<noteq> ROOT_ROOM_UUID \<Longrightarrow> \<exists>p. get_mumble_id cm (r_parent r) = Some p \<and> cv_parent cv = Some p"
      "r_description r \<noteq> None \<Longrightarrow> cv_description cv = r_description r"
    unfolding channel_shown_def by blast
  have "get_mumble_id cm' (r_id r) = Some c" "vw_channels v' c = Some cv"
    using assms(2) [OF c(1)] assms(3) [OF c(1)] c(2) by simp_all
  moreover have "\<exists>p. get_mumble_id cm' (r_parent r) = Some p \<and> cv_parent cv = Some p" if "r_id r \<noteq> ROOT_ROOM_UUID"
    using c(4) [OF that] assms(2) that by blast
  ultimately show ?thesis using c(3,5) unfolding channel_shown_def by blast
qed

definition keeps_numbers :: "channel_map \<Rightarrow> channel_map \<Rightarrow> bool" where
  "keeps_numbers cm cm' \<longleftrightarrow> (\<forall>u c. get_mumble_id cm u = Some c \<longrightarrow> get_mumble_id cm' u = Some c)"

lemma keeps_numbersD: "keeps_numbers cm cm' \<Longrightarrow> get_mumble_id cm u = Some c \<Longrightarrow> get_mumble_id cm' u = Some c"
  by (simp add: keeps_numbers_def)

lemma keeps_numbers_refl [simp]: "keeps_numbers cm cm"
  by (simp add: keeps_numbers_def)

lemma keeps_numbers_trans: "keeps_numbers a b \<Longrightarrow> keeps_numbers b c \<Longrightarrow> keeps_numbers a c"
  by (simp add: keeps_numbers_def)

lemma keeps_numbers_insert: "channel_ok cm \<Longrightarrow> keeps_numbers cm (snd (channel_get_or_insert u cm))"
  by (simp add: keeps_numbers_def channels.insert_stable)

text \<open>The tables after the two allocations of a round.\<close>

definition room_numbers :: "room \<Rightarrow> uuid set" where
  "room_numbers r = (if r_id r = ROOT_ROOM_UUID then {r_id r} else {r_id r, r_parent r})"

lemma channel_step_map:
  assumes ok: "channel_ok cm" and left: "2 \<le> channel_left cm" and step: "channel_step old r cm = (cm', msgs)"
  shows "channel_ok cm'" "channel_left cm \<le> channel_left cm' + 2" "keeps_numbers cm cm'"
    "dom (get_mumble_id cm') = dom (get_mumble_id cm) \<union> room_numbers r"
    "msgs = (if room_changed old r
       then [SyncChannelState \<lparr>cs_channel_id = get_mumble_id cm' (r_id r),
               cs_parent = (if r_id r \<noteq> ROOT_ROOM_UUID then get_mumble_id cm' (r_parent r) else None),
               cs_name = Some (r_name r), cs_description = r_description r\<rparr>] else [])"
proof -
  obtain c cm1 where one: "channel_get_or_insert (r_id r) cm = (c, cm1)" by force
  note s1 = channels.insert_spec [OF ok _ one] 
  have l1: "0 < channel_left cm" using left by simp
  have left1: "channel_left cm \<le> Suc (channel_left cm1)" using channels.insert_left [OF ok, of "r_id r"] one by simp
  have dom1: "get_mumble_id cm1 = (get_mumble_id cm)(r_id r \<mapsto> c)" using channels.insert_number [OF ok, of "r_id r"] one by simp
  have keep1: "keeps_numbers cm cm1" using keeps_numbers_insert [OF ok, of "r_id r"] one by simp
  obtain p cm2 where two: "channel_get_or_insert (r_parent r) cm1 = (p, cm2)" by force
  note ok1 = s1(1) [OF l1]
  have l2: "0 < channel_left cm1" using left left1 by simp
  note s2 = channels.insert_spec [OF ok1 l2 two]
  have left2: "channel_left cm1 \<le> Suc (channel_left cm2)" using channels.insert_left [OF ok1, of "r_parent r"] two by simp
  have dom2: "get_mumble_id cm2 = (get_mumble_id cm1)(r_parent r \<mapsto> p)" using channels.insert_number [OF ok1, of "r_parent r"] two by simp
  have keep2: "keeps_numbers cm1 cm2" using keeps_numbers_insert [OF ok1, of "r_parent r"] two by simp
  have c2: "get_mumble_id cm2 (r_id r) = Some c" using s2(4) [OF s1(2) [OF l1]] by simp
  show "channel_ok cm'" "channel_left cm \<le> channel_left cm' + 2" "keeps_numbers cm cm'"
    "dom (get_mumble_id cm') = dom (get_mumble_id cm) \<union> room_numbers r"
    "msgs = (if room_changed old r
       then [SyncChannelState \<lparr>cs_channel_id = get_mumble_id cm' (r_id r),
               cs_parent = (if r_id r \<noteq> ROOT_ROOM_UUID then get_mumble_id cm' (r_parent r) else None),
               cs_name = Some (r_name r), cs_description = r_description r\<rparr>] else [])"
    using step ok1 s1(2) [OF l1] s2(1,2) c2 left1 left2 dom1 dom2 keep1 keep2
    by (auto simp: channel_step_def Let_def one two room_numbers_def intro: keeps_numbers_trans split: if_splits)
qed

lemma room_by_uuid_Some: "room_by_uuid rs u = Some r \<Longrightarrow> r \<in> set rs \<and> r_id r = u"
  by (auto simp: room_by_uuid_def dest!: map_of_SomeD)

lemma user_by_id_Some: "user_by_id us i = Some u \<Longrightarrow> u \<in> set us \<and> u_user_id u = i"
  by (auto simp: user_by_id_def dest!: map_of_SomeD)

lemma channel_step_shown:
  assumes ok: "channel_ok cm" and left: "2 \<le> channel_left cm" and step: "channel_step old r cm = (cm', msgs)"
    and old: "\<forall>x. room_by_uuid old (r_id r) = Some x \<longrightarrow> channel_shown cm v x"
  shows "channel_shown cm' (view_after msgs v) r"
    "r_id r' \<noteq> r_id r \<Longrightarrow> channel_shown cm v r' \<Longrightarrow> channel_shown cm' (view_after msgs v) r'"
    "vw_users (view_after msgs v) = vw_users v"
    "dom (vw_channels (view_after msgs v)) = dom (vw_channels v) \<union> {the (get_mumble_id cm' (r_id r))}"
proof -
  note m = channel_step_map [OF ok left step]
  from m(4) obtain c where c: "get_mumble_id cm' (r_id r) = Some c" by (auto simp: room_numbers_def split: if_splits)
  have p: "get_mumble_id cm' (r_parent r) = Some (the (get_mumble_id cm' (r_parent r)))" if "r_id r \<noteq> ROOT_ROOM_UUID"
  proof -
    have "r_parent r \<in> dom (get_mumble_id cm')" using that by (simp add: m(4) room_numbers_def)
    then show ?thesis by auto
  qed
  let ?m = "\<lparr>cs_channel_id = Some c,
    cs_parent = (if r_id r \<noteq> ROOT_ROOM_UUID then get_mumble_id cm' (r_parent r) else None),
    cs_name = Some (r_name r), cs_description = r_description r\<rparr>"
  have msgs: "msgs = (if room_changed old r then [SyncChannelState ?m] else [])" using m(5) c by simp
  have view: "view_after msgs v =
      (if room_changed old r then v\<lparr>vw_channels := (vw_channels v)(c \<mapsto> overlay_channel ?m (vw_channels v c))\<rparr> else v)"
    by (simp add: msgs)
  show "vw_users (view_after msgs v) = vw_users v" by (simp add: view)
  show "channel_shown cm' (view_after msgs v) r'" if "r_id r' \<noteq> r_id r" "channel_shown cm v r'"
  proof (rule channel_shown_mono [OF that(2)])
    show "get_mumble_id cm' u = Some d" if "get_mumble_id cm u = Some d" for u d
      using keeps_numbersD [OF m(3) that] .
    show "vw_channels (view_after msgs v) d = vw_channels v d" if "get_mumble_id cm (r_id r') = Some d" for d
      using channels.number_inject [OF m(1) c, of "r_id r'"] keeps_numbersD [OF m(3) that] \<open>r_id r' \<noteq> r_id r\<close>
      by (auto simp: view)
  qed
  have shown: "channel_shown cm' (view_after msgs v) r"
  proof (cases "room_changed old r")
    case True
    define cv where "cv = overlay_channel ?m (vw_channels v c)"
    have "cv_name cv = Some (r_name r)"
      "r_id r \<noteq> ROOT_ROOM_UUID \<longrightarrow> cv_parent cv = get_mumble_id cm' (r_parent r)"
      "r_description r \<noteq> None \<longrightarrow> cv_description cv = r_description r"
      using p by (simp_all add: cv_def overlay_channel_def Let_def) (auto intro!: overlay_present)
    moreover have "vw_channels (view_after msgs v) c = Some cv" using True by (simp add: view cv_def)
    moreover have "\<exists>q. get_mumble_id cm' (r_parent r) = Some q \<and> cv_parent cv = Some q" if "r_id r \<noteq> ROOT_ROOM_UUID"
      using p [OF that] calculation(2) that by (intro exI conjI) simp_all
    ultimately show ?thesis using c unfolding channel_shown_def
      by (intro exI [of _ c] exI [of _ cv]) simp
  next
    case False
    then obtain x where x: "room_by_uuid old (r_id r) = Some x" "r_name x = r_name r"
        "r_description x = r_description r" "r_parent x = r_parent r"
      by (auto simp: room_changed_def split: option.splits)
    have "channel_shown cm v r"
      by (rule channel_shown_cong [OF old [rule_format, OF x(1)]]) (simp_all add: x room_by_uuid_Some [OF x(1)])
    then have "channel_shown cm' v r" by (rule channel_shown_mono) (simp_all add: keeps_numbersD [OF m(3)])
    then show ?thesis using False by (simp add: view)
  qed
  then show "channel_shown cm' (view_after msgs v) r" .
  from shown c have "c \<in> dom (vw_channels (view_after msgs v))" by (auto simp: channel_shown_def)
  then show "dom (vw_channels (view_after msgs v)) = dom (vw_channels v) \<union> {the (get_mumble_id cm' (r_id r))}"
    using c by (auto simp: view)
qed

lemma channel_steps_shown:
  assumes "channel_ok cm" "2 * length ord \<le> channel_left cm" "channel_steps old ord cm = (cm', msgs)"
    and "distinct (map r_id ord)"
    and "\<forall>x \<in> set old. r_id x \<in> r_id ` set ord \<longrightarrow> channel_shown cm v x"
  shows "channel_ok cm' \<and> channel_left cm \<le> channel_left cm' + 2 * length ord \<and> keeps_numbers cm cm' \<and>
    dom (get_mumble_id cm') = dom (get_mumble_id cm) \<union> \<Union> (room_numbers ` set ord) \<and>
    (\<forall>r \<in> set ord. channel_shown cm' (view_after msgs v) r) \<and>
    (\<forall>r. r_id r \<notin> r_id ` set ord \<longrightarrow> channel_shown cm v r \<longrightarrow> channel_shown cm' (view_after msgs v) r) \<and>
    vw_users (view_after msgs v) = vw_users v \<and>
    dom (vw_channels (view_after msgs v)) =
      dom (vw_channels v) \<union> (\<lambda>r. the (get_mumble_id cm' (r_id r))) ` set ord"
  using assms
proof (induction ord arbitrary: cm v msgs)
  case (Cons r ord)
  obtain cm1 m1 where s1: "channel_step old r cm = (cm1, m1)" by force
  obtain m2 where s2: "channel_steps old ord cm1 = (cm', m2)" and msgs: "msgs = m1 @ m2"
    using Cons.prems(3) by (auto simp: s1 split: prod.splits)
  have left: "2 \<le> channel_left cm" using Cons.prems(2) by simp
  note map1 = channel_step_map [OF Cons.prems(1) left s1]
  have old: "\<forall>x. room_by_uuid old (r_id r) = Some x \<longrightarrow> channel_shown cm v x"
    using Cons.prems(5) room_by_uuid_Some by fastforce
  note shown1 = channel_step_shown [OF Cons.prems(1) left s1 old]
  let ?v = "view_after m1 v"
  have old1: "\<forall>x \<in> set old. r_id x \<in> r_id ` set ord \<longrightarrow> channel_shown cm1 ?v x"
    using Cons.prems(4,5) by (intro ballI impI shown1(2)) auto
  have left1: "2 * length ord \<le> channel_left cm1" and d: "distinct (map r_id ord)"
    using Cons.prems(2,4) map1(2) by simp_all
  note all = Cons.IH [OF map1(1) left1 s2 d old1]
  note ih = conjunct1 [OF all] conjunct1 [OF conjunct2 [OF all]] conjunct1 [OF conjunct2 [OF conjunct2 [OF all]]]
    conjunct1 [OF conjunct2 [OF conjunct2 [OF conjunct2 [OF all]]]]
    conjunct1 [OF conjunct2 [OF conjunct2 [OF conjunct2 [OF conjunct2 [OF all]]]]]
    conjunct1 [OF conjunct2 [OF conjunct2 [OF conjunct2 [OF conjunct2 [OF conjunct2 [OF all]]]]]]
    conjunct1 [OF conjunct2 [OF conjunct2 [OF conjunct2 [OF conjunct2 [OF conjunct2 [OF conjunct2 [OF all]]]]]]]
    conjunct2 [OF conjunct2 [OF conjunct2 [OF conjunct2 [OF conjunct2 [OF conjunct2 [OF conjunct2 [OF all]]]]]]]
  have rnew: "r_id r \<notin> r_id ` set ord" using Cons.prems(4) by simp
  have same: "get_mumble_id cm' (r_id r) = get_mumble_id cm1 (r_id r)"
    using shown1(1) keeps_numbersD [OF ih(3)] by (auto simp: channel_shown_def)
  show ?case unfolding msgs fold_append comp_apply
  proof (intro conjI)
    show "channel_left cm \<le> channel_left cm' + 2 * length (r # ord)" using ih(2) map1(2) by simp
    show "keeps_numbers cm cm'" by (rule keeps_numbers_trans [OF map1(3) ih(3)])
    show "dom (get_mumble_id cm') = dom (get_mumble_id cm) \<union> \<Union> (room_numbers ` set (r # ord))"
      by (simp add: ih(4) map1(4) Un_assoc)
    show "\<forall>x \<in> set (r # ord). channel_shown cm' (view_after m2 ?v) x"
      using ih(5,6) rnew shown1(1) by simp
    show "\<forall>x. r_id x \<notin> r_id ` set (r # ord) \<longrightarrow> channel_shown cm v x \<longrightarrow> channel_shown cm' (view_after m2 ?v) x"
      using ih(6) shown1(2) by simp
    show "vw_users (view_after m2 ?v) = vw_users v" by (simp only: ih(7) shown1(3))
    show "dom (vw_channels (view_after m2 ?v)) = dom (vw_channels v) \<union>
        (\<lambda>r. the (get_mumble_id cm' (r_id r))) ` set (r # ord)"
      by (simp add: ih(8) shown1(4) same)
  qed (rule ih(1))
qed simp

section \<open>Showing users\<close>

lemma user_shown_mono:
  assumes "user_shown cm um v u" and "get_mumble_id cm' = get_mumble_id cm"
    and "\<And>s. get_mumble_session um (u_user_id u) = Some s \<Longrightarrow>
      get_mumble_session um' (u_user_id u) = Some s \<and> vw_users v' s = vw_users v s"
  shows "user_shown cm' um' v' u"
  using assms unfolding user_shown_def by fastforce

lemma user_shown_keep:
  assumes "user_shown cm um v u"
    and "\<And>c. get_mumble_id cm (u_current_room u) = Some c \<Longrightarrow> get_mumble_id cm' (u_current_room u) = Some c"
    and "\<And>s. get_mumble_session um (u_user_id u) = Some s \<Longrightarrow>
      get_mumble_session um' (u_user_id u) = Some s \<and> vw_users v' s = vw_users v s"
  shows "user_shown cm' um' v' u"
  using assms unfolding user_shown_def by fastforce

lemma user_shown_cong:
  "user_shown cm um v x \<Longrightarrow> u_user_id u = u_user_id x \<Longrightarrow> u_username u = u_username x \<Longrightarrow>
   u_current_room u = u_current_room x \<Longrightarrow> u_is_muted u = u_is_muted x \<Longrightarrow> u_is_deafened u = u_is_deafened x \<Longrightarrow>
   user_shown cm um v u"
  by (simp add: user_shown_def)

lemma user_step_shown:
  assumes ok: "channel_ok cm" and known: "get_mumble_id cm (u_current_room u) = Some c" and left_c: "0 < channel_left cm"
    and uok: "user_ok um" and left: "0 < user_left um"
    and step: "user_step old u (cm, um) = ((cm', um'), msgs)"
    and old: "\<forall>x. user_by_id old (u_user_id u) = Some x \<longrightarrow> get_mumble_session um (u_user_id u) \<noteq> None \<longrightarrow>
      user_shown cm um v x"
  shows "channel_ok cm'" "get_mumble_id cm' = get_mumble_id cm" "channel_left cm' = channel_left cm"
    "user_ok um'" "user_left um \<le> Suc (user_left um')"
    "\<exists>s. get_mumble_session um' = (get_mumble_session um)(u_user_id u \<mapsto> s) \<and>
       dom (vw_users (view_after msgs v)) = insert s (dom (vw_users v))"
    "user_shown cm' um' (view_after msgs v) u"
    "u_user_id x \<noteq> u_user_id u \<Longrightarrow> user_shown cm um v x \<Longrightarrow> user_shown cm' um' (view_after msgs v) x"
    "vw_channels (view_after msgs v) = vw_channels v"
proof -
  obtain s um1 where ins: "user_get_or_insert (u_user_id u) um = (s, um1)" by force
  have c: "fst (channel_get_or_insert (u_current_room u) cm) = c" by (rule channels.insert_known [OF ok known])
  have cm': "cm' = snd (channel_get_or_insert (u_current_room u) cm)" and um': "um' = um1"
    using step ins by (auto simp: user_step_def Let_def split: prod.splits)
  let ?m = "user_state_default\<lparr>us_session := Some s, us_name := Some (u_username u), us_channel_id := Some c,
    us_self_mute := Some (u_is_muted u), us_self_deaf := Some (u_is_deafened u)\<rparr>"
  have msgs: "msgs = (if user_changed old um u then [SyncUserState ?m] else [])"
    using step ins c by (auto simp: user_step_def Let_def split: prod.splits)
  let ?uv = "\<lparr>uv_name = Some (u_username u), uv_channel = Some c, uv_mute = Some (u_is_muted u), uv_deaf = Some (u_is_deafened u)\<rparr>"
  have view: "view_after msgs v = (if user_changed old um u then v\<lparr>vw_users := (vw_users v)(s \<mapsto> ?uv)\<rparr> else v)"
    by (simp add: msgs user_state_default_def overlay_user_def Let_def)
  note spec = users.insert_spec [OF uok left ins]
  have upd: "get_mumble_session um' = (get_mumble_session um)(u_user_id u \<mapsto> s)"
    using users.insert_number [OF uok, of "u_user_id u"] ins by (simp add: um')
  show "channel_ok cm'" by (simp add: cm' channels.insert_ok [OF ok left_c])
  show same: "get_mumble_id cm' = get_mumble_id cm" by (simp add: cm' channels.insert_unchanged [OF ok known])
  show "channel_left cm' = channel_left cm" by (simp add: cm' channels.insert_known_left [OF ok known])
  show "user_ok um'" using spec(1) by (simp add: um')
  show "user_left um \<le> Suc (user_left um')" using users.insert_left [OF uok, of "u_user_id u"] ins by (simp add: um')
  show "vw_channels (view_after msgs v) = vw_channels v" by (simp add: view)
  show "user_shown cm' um' (view_after msgs v) x" if "u_user_id x \<noteq> u_user_id u" "user_shown cm um v x"
  proof (rule user_shown_mono [OF that(2) same])
    fix t
    assume t: "get_mumble_session um (u_user_id x) = Some t"
    from spec(4) [OF this] that(1) have "t \<noteq> s" by auto
    then show "get_mumble_session um' (u_user_id x) = Some t \<and> vw_users (view_after msgs v) t = vw_users v t"
      using t that(1) by (simp add: upd view)
  qed
  have shown: "user_shown cm' um' (view_after msgs v) u"
  proof (cases "user_changed old um u")
    case True
    then show ?thesis using known by (simp add: user_shown_def view upd same)
  next
    case False
    then obtain t x where t: "get_mumble_session um (u_user_id u) = Some t" and x: "user_by_id old (u_user_id u) = Some x"
        "u_username u = u_username x" "u_current_room u = u_current_room x" "u_is_muted u = u_is_muted x"
        "u_is_deafened u = u_is_deafened x"
      by (auto simp: user_changed_def split: option.splits)
    have "s = t" using users.insert_known [OF uok t] ins by simp
    have "user_shown cm um v u"
      by (rule user_shown_cong [OF old [rule_format, OF x(1)]]) (simp_all add: t x(2-) user_by_id_Some [OF x(1)])
    then show ?thesis using False t \<open>s = t\<close> by (intro user_shown_mono [OF _ same]) (auto simp: view upd)
  qed
  then show "user_shown cm' um' (view_after msgs v) u" .
  have "s \<in> dom (vw_users (view_after msgs v))" using shown by (auto simp: user_shown_def upd)
  then have "dom (vw_users (view_after msgs v)) = insert s (dom (vw_users v))" by (auto simp: view split: if_splits)
  with upd show "\<exists>s. get_mumble_session um' = (get_mumble_session um)(u_user_id u \<mapsto> s) \<and>
       dom (vw_users (view_after msgs v)) = insert s (dom (vw_users v))" by blast
qed

definition shown_sessions :: "user_map \<Rightarrow> user list \<Rightarrow> u32 set" where
  "shown_sessions um us = {s. \<exists>u \<in> set us. get_mumble_session um (u_user_id u) = Some s}"

lemma user_updates_shown:
  assumes "channel_ok cm" "0 < channel_left cm" "\<forall>u \<in> set us. get_mumble_id cm (u_current_room u) \<noteq> None"
    and "user_ok um" "length us \<le> user_left um" "user_updates old us (cm, um) = ((cm', um'), msgs)"
    and "distinct (map u_user_id us)"
    and "\<forall>x \<in> set old. u_user_id x \<in> u_user_id ` set us \<longrightarrow> get_mumble_session um (u_user_id x) \<noteq> None \<longrightarrow>
      user_shown cm um v x"
  shows "channel_ok cm' \<and> get_mumble_id cm' = get_mumble_id cm \<and> user_ok um' \<and>
    dom (get_mumble_session um') = dom (get_mumble_session um) \<union> u_user_id ` set us \<and>
    (\<forall>i s. get_mumble_session um i = Some s \<longrightarrow> get_mumble_session um' i = Some s) \<and>
    (\<forall>u \<in> set us. user_shown cm' um' (view_after msgs v) u) \<and>
    (\<forall>x. u_user_id x \<notin> u_user_id ` set us \<longrightarrow> user_shown cm um v x \<longrightarrow> user_shown cm' um' (view_after msgs v) x) \<and>
    vw_channels (view_after msgs v) = vw_channels v \<and>
    dom (vw_users (view_after msgs v)) = dom (vw_users v) \<union> shown_sessions um' us"
  using assms
proof (induction us arbitrary: cm um v msgs)
  case (Cons u us)
  obtain cm1 um1 m1 where s1: "user_step old u (cm, um) = ((cm1, um1), m1)" by (metis prod.exhaust)
  obtain m2 where s2: "user_updates old us (cm1, um1) = ((cm', um'), m2)" and msgs: "msgs = m1 @ m2"
    using Cons.prems(6) by (auto simp: s1 split: prod.splits)
  from Cons.prems(3) obtain c where c: "get_mumble_id cm (u_current_room u) = Some c" by auto
  have left: "0 < user_left um" using Cons.prems(5) by simp
  have old: "\<forall>x. user_by_id old (u_user_id u) = Some x \<longrightarrow> get_mumble_session um (u_user_id u) \<noteq> None \<longrightarrow>
      user_shown cm um v x"
    using Cons.prems(8) user_by_id_Some by fastforce
  note st = user_step_shown [OF Cons.prems(1) c Cons.prems(2,4) left s1 old]
  obtain s where s: "get_mumble_session um1 = (get_mumble_session um)(u_user_id u \<mapsto> s)"
    "dom (vw_users (view_after m1 v)) = insert s (dom (vw_users v))" using st(6) by blast
  let ?v = "view_after m1 v"
  have unew: "u_user_id u \<notin> u_user_id ` set us" using Cons.prems(7) by simp
  have old1: "\<forall>x \<in> set old. u_user_id x \<in> u_user_id ` set us \<longrightarrow> get_mumble_session um1 (u_user_id x) \<noteq> None \<longrightarrow>
      user_shown cm1 um1 ?v x"
  proof (intro ballI impI)
    fix x
    assume x: "x \<in> set old" "u_user_id x \<in> u_user_id ` set us" "get_mumble_session um1 (u_user_id x) \<noteq> None"
    have ne: "u_user_id x \<noteq> u_user_id u" using x(2) unew by auto
    with x s(1) Cons.prems(8) have "user_shown cm um v x" by auto
    with ne show "user_shown cm1 um1 ?v x" by (rule st(8))
  qed
  have pre: "\<forall>x \<in> set us. get_mumble_id cm1 (u_current_room x) \<noteq> None"
    using Cons.prems(3) by (simp add: st(2))
  have "0 < channel_left cm1" "length us \<le> user_left um1" "distinct (map u_user_id us)"
    using Cons.prems(2,5,7) st(3,5) by simp_all
  note all = Cons.IH [OF st(1) this(1) pre st(4) this(2) s2 this(3) old1]
  have su: "get_mumble_session um' (u_user_id u) = Some s" using all s(1) by simp
  have keep: "get_mumble_session um' i = Some t" if "get_mumble_session um i = Some t" for i t
  proof (cases "i = u_user_id u")
    case True
    have "user_shown cm1 um1 ?v u" by (rule st(7))
    from users.insert_stable [OF Cons.prems(4) that, of "u_user_id u"] s1 have "get_mumble_session um1 i = Some t"
      by (auto simp: user_step_def Let_def split: prod.splits)
    then show ?thesis using all by blast
  next
    case False
    with that s(1) have "get_mumble_session um1 i = Some t" by simp
    then show ?thesis using all by blast
  qed
  show ?case unfolding msgs fold_append comp_apply
  proof (intro conjI)
    show "\<forall>i t. get_mumble_session um i = Some t \<longrightarrow> get_mumble_session um' i = Some t" using keep by blast
    show "\<forall>x \<in> set (u # us). user_shown cm' um' (view_after m2 ?v) x" using all unew st(7) by simp
    show "\<forall>x. u_user_id x \<notin> u_user_id ` set (u # us) \<longrightarrow> user_shown cm um v x \<longrightarrow> user_shown cm' um' (view_after m2 ?v) x"
      using all st(8) by simp
    show "dom (vw_users (view_after m2 ?v)) = dom (vw_users v) \<union> shown_sessions um' (u # us)"
      using all s(2) su by (auto simp: shown_sessions_def)
    show "dom (get_mumble_session um') = dom (get_mumble_session um) \<union> u_user_id ` set (u # us)"
      using all s(1) by auto
  qed (use all st in simp_all)
qed (simp add: shown_sessions_def)

section \<open>Removals\<close>

lemma view_user_removes:
  "view_after (user_removes vs) v = v\<lparr>vw_users := (\<lambda>s. if s \<in> snd ` set vs then None else vw_users v s)\<rparr>"
proof (induction vs arbitrary: v)
  case (Cons e vs)
  show ?case using Cons.IH by (auto simp: user_removes_def fun_eq_iff split: prod.splits)
qed (simp add: user_removes_def)

lemma view_channel_removes:
  "view_after (map (\<lambda>(_, c, _). SyncChannelRemove \<lparr>cr_channel_id = c\<rparr>) vs) v =
     v\<lparr>vw_channels := (\<lambda>c. if c \<in> (fst \<circ> snd) ` set vs then None else vw_channels v c)\<rparr>"
proof (induction vs arbitrary: v)
  case (Cons e vs)
  show ?case using Cons.IH by (auto simp: fun_eq_iff split: prod.splits)
qed simp

lemma view_fields_channel_removes:
  "vw_channels (view_after (map (\<lambda>(_, c, _). SyncChannelRemove \<lparr>cr_channel_id = c\<rparr>) vs) v) c =
     (if c \<in> (fst \<circ> snd) ` set vs then None else vw_channels v c)"
  "vw_users (view_after (map (\<lambda>(_, c, _). SyncChannelRemove \<lparr>cr_channel_id = c\<rparr>) vs) v) = vw_users v"
  by (simp_all add: view_channel_removes)

lemma dom_get_mumble_id: "set (rumble_uuids cm) = dom (get_mumble_id cm)"
proof -
  have "get_mumble_id cm = dm_get (cm_rumble_to_mumble cm)" by (simp add: get_mumble_id_def fun_eq_iff)
  then show ?thesis by (simp add: rumble_uuids_def dom_map_of_conv_image_fst)
qed

lemma set_user_entries: "user_ok um \<Longrightarrow> (i, s) \<in> set (user_entries um) \<longleftrightarrow> get_mumble_session um i = Some s"
  by (simp add: user_entries_def get_mumble_session_def user_ok_def inverse_tables_def dm_ok_def map_of_eq_Some_iff)

lemma set_vanished_users:
  "user_ok um \<Longrightarrow> (i, s) \<in> set (vanished_users us um skip) \<longleftrightarrow>
     get_mumble_session um i = Some s \<and> i \<notin> u_user_id ` {u \<in> set us. \<not> skips skip u}"
  by (auto simp: vanished_users_def Let_def set_user_entries)

lemma prune_users:
  assumes "user_ok um" and "um' = fold remove_by_rumble_id (map fst (vanished_users us um skip)) um"
  shows "user_ok um'" "user_left um' = user_left um"
    "get_mumble_session um' i = (if i \<in> u_user_id ` {u \<in> set us. \<not> skips skip u} then get_mumble_session um i else None)"
proof -
  note f = users.fold_remove [OF assms(1), of "map fst (vanished_users us um skip)" i]
  show "user_ok um'" "user_left um' = user_left um" using f by (simp_all add: assms(2))
  have "i \<in> fst ` set (vanished_users us um skip) \<longleftrightarrow> (\<exists>s. (i, s) \<in> set (vanished_users us um skip))" by force
  also have "\<dots> \<longleftrightarrow> get_mumble_session um i \<noteq> None \<and> i \<notin> u_user_id ` {u \<in> set us. \<not> skips skip u}"
    by (simp add: set_vanished_users [OF assms(1)])
  finally have "i \<in> set (map fst (vanished_users us um skip)) \<longleftrightarrow>
    get_mumble_session um i \<noteq> None \<and> i \<notin> u_user_id ` {u \<in> set us. \<not> skips skip u}" by simp
  with f show "get_mumble_session um' i =
      (if i \<in> u_user_id ` {u \<in> set us. \<not> skips skip u} then get_mumble_session um i else None)"
    by (auto simp: assms(2))
qed

lemma removed_channels_sets:
  "(snd \<circ> snd) ` set (removed_channels old rs cm) = {u \<in> dom (get_mumble_id cm). u \<noteq> ROOT_ROOM_UUID \<and> u \<notin> r_id ` set rs}"
  "(fst \<circ> snd) ` set (removed_channels old rs cm) =
     {c. \<exists>u. get_mumble_id cm u = Some c \<and> u \<noteq> ROOT_ROOM_UUID \<and> u \<notin> r_id ` set rs}"
  by (auto simp: removed_channels_def image_image dom_get_mumble_id dom_def image_iff) force+

lemma prune_channels:
  assumes "channel_ok cm" and "cm' = fold remove_by_uuid (map (snd \<circ> snd) (removed_channels old rs cm)) cm"
  shows "channel_ok cm'" "channel_left cm' = channel_left cm"
    "get_mumble_id cm' u = (if u = ROOT_ROOM_UUID \<or> u \<in> r_id ` set rs then get_mumble_id cm u else None)"
proof -
  note f = channels.fold_remove [OF assms(1), of "map (snd \<circ> snd) (removed_channels old rs cm)" u]
  show "channel_ok cm'" "channel_left cm' = channel_left cm" using f by (simp_all add: assms(2))
  have "set (map (snd \<circ> snd) (removed_channels old rs cm)) =
      {u \<in> dom (get_mumble_id cm). u \<noteq> ROOT_ROOM_UUID \<and> u \<notin> r_id ` set rs}"
    using removed_channels_sets(1) by (simp add: image_image)
  with f show "get_mumble_id cm' u = (if u = ROOT_ROOM_UUID \<or> u \<in> r_id ` set rs then get_mumble_id cm u else None)"
    by (auto simp: assms(2))
qed

lemma tree_parent:
  assumes "room_tree_ok rs" "r \<in> set rs" "r_id r \<noteq> ROOT_ROOM_UUID"
  shows "r_parent r \<in> r_id ` set rs"
proof -
  have d: "distinct (map r_id rs)" and root: "ROOT_ROOM_UUID \<in> r_id ` set rs" and reach: "reaches_root rs (r_id r)"
    using assms(1,2) by (auto simp: room_tree_ok_def)
  have mem: "u \<in> r_id ` set rs" if "reaches_root rs u" for u
    using that root by cases auto
  from reach show ?thesis
  proof cases
    case root
    with assms(3) show ?thesis by simp
  next
    case (child x)
    have "x = r" using d child(1,2) assms(2) by (metis distinct_map inj_onD)
    with child(3) show ?thesis by (intro mem) simp
  qed
qed

section \<open>The whole reconciliation\<close>

text \<open>
  What a connected client shows before a reconciliation: the rooms of the last snapshot, its
  users as far as they were announced, and nothing else besides the clients of the bridge
  itself, whose sessions lie below the proxy sessions.
\<close>

definition bridge_shows :: "room list \<Rightarrow> user list \<Rightarrow> channel_map \<Rightarrow> user_map \<Rightarrow> mumble_view \<Rightarrow> bool" where
  "bridge_shows rs us cm um v \<longleftrightarrow>
     (\<forall>r \<in> set rs. channel_shown cm v r) \<and>
     (\<forall>u \<in> set us. get_mumble_session um (u_user_id u) \<noteq> None \<longrightarrow> user_shown cm um v u) \<and>
     (\<forall>c \<in> dom (vw_channels v). get_rumble_uuid cm c \<noteq> None) \<and>
     (\<forall>s \<in> dom (vw_users v). s < 100000 \<or> get_rumble_id um s \<noteq> None)"

definition visible_users :: "skip_rules \<Rightarrow> user list \<Rightarrow> user list" where
  "visible_users skip us = filter (\<lambda>u. \<not> skips skip u) us"

definition exactly_shows :: "room list \<Rightarrow> user list \<Rightarrow> channel_map \<Rightarrow> user_map \<Rightarrow> mumble_view \<Rightarrow> bool" where
  "exactly_shows rs us cm um v \<longleftrightarrow>
     (\<forall>r \<in> set rs. channel_shown cm v r) \<and> (\<forall>u \<in> set us. user_shown cm um v u) \<and>
     dom (vw_channels v) = {c. \<exists>r \<in> set rs. get_mumble_id cm (r_id r) = Some c} \<and>
     {s \<in> dom (vw_users v). 100000 \<le> s} = shown_sessions um us \<and>
     dom (get_mumble_id cm) = r_id ` set rs \<and> dom (get_mumble_session um) = u_user_id ` set us"

definition reconcilable ::
  "room list \<Rightarrow> user list \<Rightarrow> channel_map \<Rightarrow> user_map \<Rightarrow> bool" where
  "reconcilable new_rooms new_users cm um \<longleftrightarrow>
     channel_ok cm \<and> user_ok um \<and> room_tree_ok new_rooms \<and> distinct (map u_user_id new_users) \<and>
     (\<forall>u \<in> set new_users. u_current_room u \<in> r_id ` set new_rooms) \<and>
     2 * length new_rooms < channel_left cm \<and> length new_users \<le> user_left um"

text \<open>The four phases of a reconciliation that returns.\<close>

lemma reconcile_phases:
  assumes "reconcilable new_rooms new_users cm um" and "length new_rooms \<le> fuel"
  obtains ord cm2 msgs2 cm3 um3 msgs3 where
    "parent_first {} ord" "distinct (map r_id ord)" "set ord = set new_rooms" "length ord = length new_rooms"
    "channel_steps old_rooms ord cm = (cm2, msgs2)"
    "user_updates old_users (visible_users skip new_users)
       (cm2, fold remove_by_rumble_id (map fst (vanished_users new_users um skip)) um) = ((cm3, um3), msgs3)"
    "reconcile_server_state fuel old_rooms old_users new_rooms new_users cm um skip =
       Some (\<lparr>ro_messages = user_removes (vanished_users new_users um skip) @ msgs2 @ msgs3 @
                map (\<lambda>(_, c, _). SyncChannelRemove \<lparr>cr_channel_id = c\<rparr>) (removed_channels old_rooms new_rooms cm3),
              ro_removed_user_ids = map fst (vanished_users new_users um skip)\<rparr>,
             fold remove_by_uuid (map (snd \<circ> snd) (removed_channels old_rooms new_rooms cm3)) cm3, um3)"
proof -
  have tree: "room_tree_ok new_rooms" using assms(1) by (simp add: reconcilable_def)
  obtain ord where ord: "bfs_order fuel new_rooms (bfs_start new_rooms) = Some ord" "parent_first {} ord"
    "distinct (map r_id ord)" "set ord = set new_rooms" by (rule bfs_order_tree [OF tree assms(2)])
  have len: "length ord = length new_rooms"
    using ord(3,4) tree by (metis distinct_card distinct_map room_tree_ok_def)
  obtain cm2 msgs2 where two: "channel_steps old_rooms ord cm = (cm2, msgs2)" by force
  obtain cm3 um3 msgs3 where three: "user_updates old_users (visible_users skip new_users)
       (cm2, fold remove_by_rumble_id (map fst (vanished_users new_users um skip)) um) = ((cm3, um3), msgs3)"
    by (metis prod.exhaust)
  show ?thesis
    by (rule that [OF ord(2-4) len two three])
      (use three in \<open>simp add: reconcile_server_state_def Let_def channel_bfs_order ord(1) two visible_users_def\<close>)
qed

lemma set_visible_users [simp]: "set (visible_users skip us) = {u \<in> set us. \<not> skips skip u}"
  by (simp add: visible_users_def)

text \<open>Phase one: proxy sessions that went away.\<close>

lemma user_prune_phase:
  assumes ok: "user_ok um" and shows_old: "bridge_shows old_rooms old_users cm um v"
    and um1: "um1 = fold remove_by_rumble_id (map fst (vanished_users new_users um skip)) um"
    and v1: "v1 = view_after (user_removes (vanished_users new_users um skip)) v"
  shows "vw_channels v1 = vw_channels v"
    "\<forall>x \<in> set old_users. u_user_id x \<in> u_user_id ` set (visible_users skip new_users) \<longrightarrow>
       get_mumble_session um1 (u_user_id x) \<noteq> None \<longrightarrow> user_shown cm um1 v1 x"
    "s \<in> dom (vw_users v1) \<Longrightarrow> 100000 \<le> s \<Longrightarrow>
       \<exists>i \<in> u_user_id ` set (visible_users skip new_users). get_mumble_session um1 i = Some s"
proof -
  let ?V = "vanished_users new_users um skip" and ?ids = "u_user_id ` set (visible_users skip new_users)"
  have us1: "vw_users v1 s = (if s \<in> snd ` set ?V then None else vw_users v s)" for s
    by (simp add: v1 view_user_removes)
  have sess1: "get_mumble_session um1 i = (if i \<in> ?ids then get_mumble_session um i else None)" for i
    using prune_users(3) [OF ok um1] by simp
  have gone: "s \<in> snd ` set ?V \<longleftrightarrow> (\<exists>i. get_mumble_session um i = Some s \<and> i \<notin> ?ids)" for s
  proof -
    have "s \<in> snd ` set ?V \<longleftrightarrow> (\<exists>i. (i, s) \<in> set ?V)" by force
    then show ?thesis by (simp add: set_vanished_users [OF ok])
  qed
  show "vw_channels v1 = vw_channels v" by (simp add: v1 view_user_removes)
  show "\<forall>x \<in> set old_users. u_user_id x \<in> ?ids \<longrightarrow> get_mumble_session um1 (u_user_id x) \<noteq> None \<longrightarrow> user_shown cm um1 v1 x"
  proof (intro ballI impI)
    fix x assume x: "x \<in> set old_users" "u_user_id x \<in> ?ids" "get_mumble_session um1 (u_user_id x) \<noteq> None"
    have same: "get_mumble_session um1 (u_user_id x) = get_mumble_session um (u_user_id x)" using x(2) sess1 by simp
    show "user_shown cm um1 v1 x"
    proof (rule user_shown_keep)
      show "user_shown cm um v x" using x(1,3) shows_old same by (simp add: bridge_shows_def)
      fix s assume s: "get_mumble_session um (u_user_id x) = Some s"
      have "s \<notin> snd ` set ?V" using users.number_inject [OF ok s] x(2) gone by blast
      with s same show "get_mumble_session um1 (u_user_id x) = Some s \<and> vw_users v1 s = vw_users v s" by (simp only: us1 if_False)
    qed
  qed
  show "\<exists>i \<in> ?ids. get_mumble_session um1 i = Some s" if "s \<in> dom (vw_users v1)" "100000 \<le> s"
  proof -
    have s: "s \<in> dom (vw_users v)" "s \<notin> snd ` set ?V" using that(1) by (simp_all add: dom_def us1 split: if_splits)
    moreover have "\<not> s < 100000" using that(2) by (simp add: not_less)
    ultimately have "get_rumble_id um s \<noteq> None" using shows_old unfolding bridge_shows_def by blast
    then obtain i where i: "get_mumble_session um i = Some s" using users.two_way [OF ok] by blast
    with s(2) gone have "i \<in> ?ids" by blast
    with i sess1 show ?thesis by (intro bexI [of _ i]) (simp only: if_True)
  qed
qed

text \<open>Phase two: channels of the new tree.\<close>

lemma channel_phase:
  assumes ok: "channel_ok cm" and tree: "room_tree_ok new_rooms" and left: "2 * length new_rooms < channel_left cm"
    and ord: "distinct (map r_id ord)" "set ord = set new_rooms" "length ord = length new_rooms"
    and steps: "channel_steps old_rooms ord cm = (cm2, msgs2)"
    and old: "\<forall>x \<in> set old_rooms. channel_shown cm v x" and keys: "\<forall>c \<in> dom (vw_channels v). get_rumble_uuid cm c \<noteq> None"
    and v2: "v2 = view_after msgs2 v"
  shows "channel_ok cm2" "0 < channel_left cm2" "keeps_numbers cm cm2"
    "dom (get_mumble_id cm2) = dom (get_mumble_id cm) \<union> r_id ` set new_rooms"
    "\<forall>r \<in> set new_rooms. channel_shown cm2 v2 r" "vw_users v2 = vw_users v"
    "\<forall>c \<in> dom (vw_channels v2). \<exists>u. get_mumble_id cm2 u = Some c"
proof -
  have lord: "2 * length ord \<le> channel_left cm" using left ord(3) by simp
  have old': "\<forall>x \<in> set old_rooms. r_id x \<in> r_id ` set ord \<longrightarrow> channel_shown cm v x" using old by blast
  note all = channel_steps_shown [OF ok lord steps ord(1) old', folded v2]
  show "channel_ok cm2" "keeps_numbers cm cm2" "\<forall>r \<in> set new_rooms. channel_shown cm2 v2 r" "vw_users v2 = vw_users v"
    using all by (simp_all add: ord(2))
  show "0 < channel_left cm2" using all left ord(3) by simp
  have "ROOT_ROOM_UUID \<in> r_id ` set new_rooms" using tree by (simp add: room_tree_ok_def)
  then have "\<Union> (room_numbers ` set new_rooms) = r_id ` set new_rooms"
    using tree_parent [OF tree] by (auto simp: room_numbers_def split: if_splits)
  with all show "dom (get_mumble_id cm2) = dom (get_mumble_id cm) \<union> r_id ` set new_rooms" by (simp add: ord(2))
  show "\<forall>c \<in> dom (vw_channels v2). \<exists>u. get_mumble_id cm2 u = Some c"
  proof
    fix c assume "c \<in> dom (vw_channels v2)"
    then consider "c \<in> dom (vw_channels v)" | r where "r \<in> set new_rooms" "c = the (get_mumble_id cm2 (r_id r))"
      using all by (auto simp: ord(2))
    then show "\<exists>u. get_mumble_id cm2 u = Some c"
    proof cases
      case 1
      with keys have "get_rumble_uuid cm c \<noteq> None" by blast
      then obtain u where "get_mumble_id cm u = Some c" using channels.two_way [OF ok] by blast
      moreover have "keeps_numbers cm cm2" using all by blast
      ultimately show ?thesis using keeps_numbersD by blast
    next
      case 2
      with all have "channel_shown cm2 v2 r" by (simp add: ord(2))
      with 2 show ?thesis by (auto simp: channel_shown_def)
    qed
  qed
qed

text \<open>Phase four: channels that went away.\<close>

lemma channel_prune_phase:
  assumes ok: "channel_ok cm" and tree: "room_tree_ok new_rooms"
    and shown: "\<forall>r \<in> set new_rooms. channel_shown cm v r"
    and keys: "\<forall>c \<in> dom (vw_channels v). \<exists>u. get_mumble_id cm u = Some c"
    and cm': "cm' = fold remove_by_uuid (map (snd \<circ> snd) (removed_channels old_rooms new_rooms cm)) cm"
    and v': "v' = view_after (map (\<lambda>(_, c, _). SyncChannelRemove \<lparr>cr_channel_id = c\<rparr>) (removed_channels old_rooms new_rooms cm)) v"
  shows "\<forall>r \<in> set new_rooms. channel_shown cm' v' r"
    "dom (vw_channels v') = {c. \<exists>r \<in> set new_rooms. get_mumble_id cm' (r_id r) = Some c}"
    "get_mumble_id cm' u = (if u \<in> r_id ` set new_rooms then get_mumble_id cm u else None)"
    "vw_users v' = vw_users v"
proof -
  have root: "ROOT_ROOM_UUID \<in> r_id ` set new_rooms" using tree by (simp add: room_tree_ok_def)
  show num: "get_mumble_id cm' u = (if u \<in> r_id ` set new_rooms then get_mumble_id cm u else None)" for u
    using prune_channels(3) [OF ok cm', of u] root by auto
  have ch: "vw_channels v' c = (if \<exists>u. get_mumble_id cm u = Some c \<and> u \<notin> r_id ` set new_rooms then None else vw_channels v c)" for c
  proof -
    have "c \<in> (fst \<circ> snd) ` set (removed_channels old_rooms new_rooms cm) \<longleftrightarrow>
        (\<exists>u. get_mumble_id cm u = Some c \<and> u \<notin> r_id ` set new_rooms)"
      unfolding removed_channels_sets using root by auto
    then show ?thesis unfolding v' view_fields_channel_removes by (simp only:)
  qed
  have keep: "vw_channels v' c = vw_channels v c" if "get_mumble_id cm u = Some c" "u \<in> r_id ` set new_rooms" for u c
    using channels.number_inject [OF ok that(1)] that(2) by (auto simp: ch)
  show shown': "\<forall>r \<in> set new_rooms. channel_shown cm' v' r"
  proof
    fix r assume r: "r \<in> set new_rooms"
    show "channel_shown cm' v' r"
    proof (rule channel_shown_mono)
      show "channel_shown cm v r" using shown r by blast
      show "get_mumble_id cm' u = Some c" if "get_mumble_id cm u = Some c"
        "u = r_id r \<or> r_id r \<noteq> ROOT_ROOM_UUID \<and> u = r_parent r" for u c
        using that r tree_parent [OF tree r] by (auto simp: num)
      show "vw_channels v' c = vw_channels v c" if "get_mumble_id cm (r_id r) = Some c" for c
        using that r by (intro keep [of "r_id r"]) auto
    qed
  qed
  show "dom (vw_channels v') = {c. \<exists>r \<in> set new_rooms. get_mumble_id cm' (r_id r) = Some c}"
  proof (intro equalityI subsetI)
    fix c assume "c \<in> dom (vw_channels v')"
    then have "c \<in> dom (vw_channels v)" "\<forall>u. get_mumble_id cm u = Some c \<longrightarrow> u \<in> r_id ` set new_rooms"
      by (auto simp: ch split: if_splits)
    with keys show "c \<in> {c. \<exists>r \<in> set new_rooms. get_mumble_id cm' (r_id r) = Some c}" by (force simp: num)
  next
    fix c assume "c \<in> {c. \<exists>r \<in> set new_rooms. get_mumble_id cm' (r_id r) = Some c}"
    then show "c \<in> dom (vw_channels v')" using shown' by (fastforce simp: channel_shown_def)
  qed
  show "vw_users v' = vw_users v" unfolding v' by (rule view_fields_channel_removes(2))
qed

text \<open>
  All stages together: \<open>v1\<close>, \<open>v2\<close> and \<open>v3\<close> are the views after the user removals, the channel
  announcements and the user announcements.
\<close>

lemma reconcile_stages:
  assumes pre: "reconcilable new_rooms new_users cm um" and fuel: "length new_rooms \<le> fuel"
    and shows_old: "bridge_shows old_rooms old_users cm um v"
  obtains ord cm2 msgs2 um1 cm3 um3 msgs3 v1 v2 v3 where
    "parent_first {} ord" "distinct (map r_id ord)" "set ord = set new_rooms" "length ord = length new_rooms"
    "channel_steps old_rooms ord cm = (cm2, msgs2)"
    "user_updates old_users (visible_users skip new_users) (cm2, um1) = ((cm3, um3), msgs3)"
    "reconcile_server_state fuel old_rooms old_users new_rooms new_users cm um skip =
       Some (\<lparr>ro_messages = user_removes (vanished_users new_users um skip) @ msgs2 @ msgs3 @
                map (\<lambda>(_, c, _). SyncChannelRemove \<lparr>cr_channel_id = c\<rparr>) (removed_channels old_rooms new_rooms cm3),
              ro_removed_user_ids = map fst (vanished_users new_users um skip)\<rparr>,
             fold remove_by_uuid (map (snd \<circ> snd) (removed_channels old_rooms new_rooms cm3)) cm3, um3)"
    "v1 = view_after (user_removes (vanished_users new_users um skip)) v" "v2 = view_after msgs2 v1" "v3 = view_after msgs3 v2"
    "vw_channels v1 = vw_channels v" "\<forall>x \<in> set old_rooms. channel_shown cm v1 x"
    "\<forall>s. s \<in> dom (vw_users v1) \<longrightarrow> 100000 \<le> s \<longrightarrow>
       (\<exists>i \<in> u_user_id ` set (visible_users skip new_users). get_mumble_session um1 i = Some s)"
    "user_ok um1" "length (visible_users skip new_users) \<le> user_left um1"
    "dom (get_mumble_session um1) \<subseteq> u_user_id ` set (visible_users skip new_users)"
    "channel_ok cm2" "0 < channel_left cm2" "keeps_numbers cm cm2"
    "dom (get_mumble_id cm2) = dom (get_mumble_id cm) \<union> r_id ` set new_rooms"
    "\<forall>r \<in> set new_rooms. channel_shown cm2 v2 r" "vw_users v2 = vw_users v1"
    "\<forall>c \<in> dom (vw_channels v2). \<exists>u. get_mumble_id cm2 u = Some c"
    "channel_ok cm3" "get_mumble_id cm3 = get_mumble_id cm2" "user_ok um3"
    "dom (get_mumble_session um3) = u_user_id ` set (visible_users skip new_users)"
    "\<forall>i s. get_mumble_session um1 i = Some s \<longrightarrow> get_mumble_session um3 i = Some s"
    "\<forall>u \<in> set (visible_users skip new_users). user_shown cm3 um3 v3 u" "vw_channels v3 = vw_channels v2"
    "dom (vw_users v3) = dom (vw_users v2) \<union> shown_sessions um3 (visible_users skip new_users)"
proof -
  obtain ord cm2 msgs2 cm3 um3 msgs3 where
    ord: "parent_first {} ord" "distinct (map r_id ord)" "set ord = set new_rooms" "length ord = length new_rooms"
    and two: "channel_steps old_rooms ord cm = (cm2, msgs2)"
    and three: "user_updates old_users (visible_users skip new_users)
       (cm2, fold remove_by_rumble_id (map fst (vanished_users new_users um skip)) um) = ((cm3, um3), msgs3)"
    and result: "reconcile_server_state fuel old_rooms old_users new_rooms new_users cm um skip =
       Some (\<lparr>ro_messages = user_removes (vanished_users new_users um skip) @ msgs2 @ msgs3 @
                map (\<lambda>(_, c, _). SyncChannelRemove \<lparr>cr_channel_id = c\<rparr>) (removed_channels old_rooms new_rooms cm3),
              ro_removed_user_ids = map fst (vanished_users new_users um skip)\<rparr>,
             fold remove_by_uuid (map (snd \<circ> snd) (removed_channels old_rooms new_rooms cm3)) cm3, um3)"
    by (rule reconcile_phases [OF pre fuel])
  let ?V = "vanished_users new_users um skip" and ?us = "visible_users skip new_users"
  define um1 where "um1 = fold remove_by_rumble_id (map fst ?V) um"
  define v1 where "v1 = view_after (user_removes ?V) v"
  define v2 where "v2 = view_after msgs2 v1"
  define v3 where "v3 = view_after msgs3 v2"
  have ok: "channel_ok cm" "user_ok um" and tree: "room_tree_ok new_rooms" and du: "distinct (map u_user_id ?us)"
    and rooms: "\<forall>u \<in> set ?us. u_current_room u \<in> r_id ` set new_rooms"
    and left: "2 * length new_rooms < channel_left cm" "length new_users \<le> user_left um"
    using pre by (auto simp: reconcilable_def visible_users_def distinct_map_filter)
  note p1 = prune_users [OF ok(2) um1_def] and w1 = user_prune_phase [OF ok(2) shows_old um1_def v1_def]
  have shown1: "\<forall>x \<in> set old_rooms. channel_shown cm v1 x"
    and keys1: "\<forall>c \<in> dom (vw_channels v1). get_rumble_uuid cm c \<noteq> None"
    using shows_old w1(1) by (simp_all add: bridge_shows_def channel_shown_def)
  note w2 = channel_phase [OF ok(1) tree left(1) ord(2-4) two shown1 keys1 v2_def]
  have known: "\<forall>u \<in> set ?us. get_mumble_id cm2 (u_current_room u) \<noteq> None" using rooms w2(4) by (auto simp: dom_def)
  have old2: "\<forall>x \<in> set old_users. u_user_id x \<in> u_user_id ` set ?us \<longrightarrow> get_mumble_session um1 (u_user_id x) \<noteq> None \<longrightarrow>
      user_shown cm2 um1 v2 x"
  proof (intro ballI impI)
    fix x assume "x \<in> set old_users" "u_user_id x \<in> u_user_id ` set ?us" "get_mumble_session um1 (u_user_id x) \<noteq> None"
    then have "user_shown cm um1 v1 x" using w1(2) by blast
    then show "user_shown cm2 um1 v2 x" by (rule user_shown_keep) (simp_all add: keeps_numbersD [OF w2(3)] w2(6))
  qed
  have left3: "length ?us \<le> user_left um1"
    unfolding visible_users_def p1(2) by (rule order.trans [OF length_filter_le left(2)])
  have dom1: "dom (get_mumble_session um1) \<subseteq> u_user_id ` set ?us" by (auto simp: dom_def p1(3) split: if_splits)
  note three' = three [folded um1_def]
  note all3 = user_updates_shown [OF w2(1,2) known p1(1) left3 three' du old2, folded v3_def]
  then have u3: "channel_ok cm3" "get_mumble_id cm3 = get_mumble_id cm2" "user_ok um3"
    "\<forall>i s. get_mumble_session um1 i = Some s \<longrightarrow> get_mumble_session um3 i = Some s"
    "\<forall>u \<in> set ?us. user_shown cm3 um3 v3 u" "vw_channels v3 = vw_channels v2"
    "dom (vw_users v3) = dom (vw_users v2) \<union> shown_sessions um3 ?us"
    and "dom (get_mumble_session um3) = dom (get_mumble_session um1) \<union> u_user_id ` set ?us" by simp_all
  then have dom3: "dom (get_mumble_session um3) = u_user_id ` set ?us" using dom1 by blast
  have sess1: "\<forall>s. s \<in> dom (vw_users v1) \<longrightarrow> 100000 \<le> s \<longrightarrow> (\<exists>i \<in> u_user_id ` set ?us. get_mumble_session um1 i = Some s)"
    using w1(3) by blast
  show ?thesis
    by (rule that [OF ord two three' result v1_def v2_def v3_def w1(1) shown1 sess1 p1(1) left3 dom1 w2(1-7) u3(1-3) dom3 u3(4-7)])
qed

lemma reconcile_exact:
  assumes pre: "reconcilable new_rooms new_users cm um" and fuel: "length new_rooms \<le> fuel"
    and shows_old: "bridge_shows old_rooms old_users cm um v"
  shows "\<exists>out cm' um'. reconcile_server_state fuel old_rooms old_users new_rooms new_users cm um skip = Some (out, cm', um') \<and>
    channel_ok cm' \<and> user_ok um' \<and>
    exactly_shows new_rooms (visible_users skip new_users) cm' um' (view_after (ro_messages out) v)"
  using pre fuel shows_old
proof (rule reconcile_stages)
  fix ord cm2 msgs2 um1 cm3 um3 msgs3 v1 v2 v3
  let ?us = "visible_users skip new_users"
  assume result: "reconcile_server_state fuel old_rooms old_users new_rooms new_users cm um skip =
       Some (\<lparr>ro_messages = user_removes (vanished_users new_users um skip) @ msgs2 @ msgs3 @
                map (\<lambda>(_, c, _). SyncChannelRemove \<lparr>cr_channel_id = c\<rparr>) (removed_channels old_rooms new_rooms cm3),
              ro_removed_user_ids = map fst (vanished_users new_users um skip)\<rparr>,
             fold remove_by_uuid (map (snd \<circ> snd) (removed_channels old_rooms new_rooms cm3)) cm3, um3)"
    and v: "v1 = view_after (user_removes (vanished_users new_users um skip)) v" "v2 = view_after msgs2 v1" "v3 = view_after msgs3 v2"
    and sess1: "\<forall>s. s \<in> dom (vw_users v1) \<longrightarrow> 100000 \<le> s \<longrightarrow> (\<exists>i \<in> u_user_id ` set ?us. get_mumble_session um1 i = Some s)"
    and dom2: "dom (get_mumble_id cm2) = dom (get_mumble_id cm) \<union> r_id ` set new_rooms"
    and shown2: "\<forall>r \<in> set new_rooms. channel_shown cm2 v2 r" and us2: "vw_users v2 = vw_users v1"
    and keys2: "\<forall>c \<in> dom (vw_channels v2). \<exists>u. get_mumble_id cm2 u = Some c"
    and ok3: "channel_ok cm3" "user_ok um3" and num3: "get_mumble_id cm3 = get_mumble_id cm2"
    and dom3: "dom (get_mumble_session um3) = u_user_id ` set ?us"
    and keep3: "\<forall>i s. get_mumble_session um1 i = Some s \<longrightarrow> get_mumble_session um3 i = Some s"
    and users3: "\<forall>u \<in> set ?us. user_shown cm3 um3 v3 u" and ch3: "vw_channels v3 = vw_channels v2"
    and domv3: "dom (vw_users v3) = dom (vw_users v2) \<union> shown_sessions um3 ?us"
  define v4 where "v4 = view_after (map (\<lambda>(_, c, _). SyncChannelRemove \<lparr>cr_channel_id = c\<rparr>) (removed_channels old_rooms new_rooms cm3)) v3"
  define cm4 where "cm4 = fold remove_by_uuid (map (snd \<circ> snd) (removed_channels old_rooms new_rooms cm3)) cm3"
  have tree: "room_tree_ok new_rooms" and rooms: "\<forall>u \<in> set ?us. u_current_room u \<in> r_id ` set new_rooms"
    using pre by (simp_all add: reconcilable_def)
  have shown3: "\<forall>r \<in> set new_rooms. channel_shown cm3 v3 r" "\<forall>c \<in> dom (vw_channels v3). \<exists>u. get_mumble_id cm3 u = Some c"
    using shown2 keys2 by (simp_all add: channel_shown_def num3 ch3)
  note w4 = channel_prune_phase [OF ok3(1) tree shown3 cm4_def v4_def]
  have bound: "100000 \<le> s" if "get_mumble_session um3 i = Some s" for i s
    using user_ok_bound [OF ok3(2)] that by (simp add: get_mumble_session_def)
  have sess: "{s \<in> dom (vw_users v4). 100000 \<le> s} = shown_sessions um3 ?us"
  proof (intro equalityI subsetI)
    fix s assume "s \<in> {s \<in> dom (vw_users v4). 100000 \<le> s}"
    then consider "s \<in> dom (vw_users v1)" "100000 \<le> s" | "s \<in> shown_sessions um3 ?us" using domv3 by (auto simp: w4(4) us2)
    then show "s \<in> shown_sessions um3 ?us"
    proof cases
      case 1
      with sess1 obtain i where "i \<in> u_user_id ` set ?us" "get_mumble_session um1 i = Some s" by blast
      with keep3 show ?thesis by (auto simp: shown_sessions_def)
    qed
  next
    fix s assume "s \<in> shown_sessions um3 ?us"
    with domv3 bound show "s \<in> {s \<in> dom (vw_users v4). 100000 \<le> s}" by (auto simp: shown_sessions_def w4(4))
  qed
  have "user_shown cm4 um3 v4 u" if u: "u \<in> set ?us" for u
  proof (rule user_shown_keep)
    show "user_shown cm3 um3 v3 u" using users3 u by blast
    show "get_mumble_id cm4 (u_current_room u) = Some c" if "get_mumble_id cm3 (u_current_room u) = Some c" for c
      using bspec [OF rooms u] that by (simp add: w4(3))
  qed (simp add: w4(4))
  moreover have "dom (get_mumble_id cm4) = r_id ` set new_rooms" using dom2 by (auto simp: dom_def w4(3) num3)
  ultimately have "exactly_shows new_rooms ?us cm4 um3 v4" using w4(1,2) sess dom3 by (simp add: exactly_shows_def)
  then show ?thesis using result prune_channels(1) [OF ok3(1) cm4_def] ok3(2) by (simp add: cm4_def v4_def v)
qed

text \<open>
  Descriptions: a message without one leaves what the client showed for the channel, so that a room
  without a description shows whatever was there before.
\<close>

definition description_at :: "mumble_view \<Rightarrow> u32 \<Rightarrow> string option" where
  "description_at v c = Option.bind (vw_channels v c) cv_description"

lemma description_at_cong: "vw_channels v' c = vw_channels v c \<Longrightarrow> description_at v' c = description_at v c"
  by (simp add: description_at_def)

lemma channel_steps_description:
  assumes "channel_ok cm" "2 * length ord \<le> channel_left cm" "channel_steps old ord cm = (cm', msgs)"
    and "keeps_numbers cm' cm''"
    and "\<forall>x \<in> set ord. get_mumble_id cm'' (r_id x) = Some c \<longrightarrow> r_description x = None"
  shows "keeps_numbers cm cm' \<and> description_at (view_after msgs v) c = description_at v c"
  using assms
proof (induction ord arbitrary: cm v msgs)
  case (Cons r ord)
  obtain cm1 m1 where s1: "channel_step old r cm = (cm1, m1)" by force
  obtain m2 where s2: "channel_steps old ord cm1 = (cm', m2)" and msgs: "msgs = m1 @ m2"
    using Cons.prems(3) by (auto simp: s1 split: prod.splits)
  have left: "2 \<le> channel_left cm" using Cons.prems(2) by simp
  note m1 = channel_step_map [OF Cons.prems(1) left s1]
  have "2 * length ord \<le> channel_left cm1" using Cons.prems(2) m1(2) by simp
  then have ih: "keeps_numbers cm1 cm'" "description_at (view_after m2 x) c = description_at x c" for x
    using Cons.IH [OF m1(1) _ s2 Cons.prems(4)] Cons.prems(5) by simp_all
  have "r_description r = None" if "get_mumble_id cm1 (r_id r) = Some c"
    using Cons.prems(4,5) ih(1) that by (auto dest: keeps_numbersD)
  then have "description_at (view_after m1 v) c = description_at v c"
    by (auto simp: m1(5) description_at_def overlay_channel_def Let_def split: option.splits)
  with ih m1(3) show ?case by (auto simp: msgs intro: keeps_numbers_trans)
qed simp

lemma reconcile_description:
  assumes pre: "reconcilable new_rooms new_users cm um" and fuel: "length new_rooms \<le> fuel"
    and shows_old: "bridge_shows old_rooms old_users cm um v"
    and run: "reconcile_server_state fuel old_rooms old_users new_rooms new_users cm um skip = Some (out, cm', um')"
    and r: "r \<in> set new_rooms" "r_description r = None" "get_mumble_id cm' (r_id r) = Some c"
  shows "description_at (view_after (ro_messages out) v) c = description_at v c"
  using pre fuel shows_old
proof (rule reconcile_stages)
  fix ord cm2 msgs2 um1 cm3 um3 msgs3 v1 v2 v3
  let ?R = "removed_channels old_rooms new_rooms cm3"
  assume ord: "set ord = set new_rooms" "length ord = length new_rooms"
    and two: "channel_steps old_rooms ord cm = (cm2, msgs2)"
    and result: "reconcile_server_state fuel old_rooms old_users new_rooms new_users cm um skip =
       Some (\<lparr>ro_messages = user_removes (vanished_users new_users um skip) @ msgs2 @ msgs3 @
                map (\<lambda>(_, c, _). SyncChannelRemove \<lparr>cr_channel_id = c\<rparr>) ?R,
              ro_removed_user_ids = map fst (vanished_users new_users um skip)\<rparr>,
             fold remove_by_uuid (map (snd \<circ> snd) ?R) cm3, um3)"
    and v: "v1 = view_after (user_removes (vanished_users new_users um skip)) v" "v2 = view_after msgs2 v1" "v3 = view_after msgs3 v2"
    and ch: "vw_channels v1 = vw_channels v" "vw_channels v3 = vw_channels v2"
    and ok: "channel_ok cm2" "channel_ok cm3" and num3: "get_mumble_id cm3 = get_mumble_id cm2"
  have cm: "channel_ok cm" "2 * length ord \<le> channel_left cm" and d: "distinct (map r_id new_rooms)"
    using pre ord(2) by (simp_all add: reconcilable_def room_tree_ok_def)
  have "cm' = fold remove_by_uuid (map (snd \<circ> snd) ?R) cm3" using result run by simp
  then have c2: "get_mumble_id cm2 (r_id r) = Some c"
    using prune_channels(3) [OF ok(2), of cm' old_rooms new_rooms "r_id r"] r(1,3) by (simp add: num3)
  have inj: "u = r_id r" if "get_mumble_id cm2 u = Some c" for u
    by (rule channels.number_inject [OF ok(1) that c2])
  have "x = r" if "x \<in> set new_rooms" "get_mumble_id cm2 (r_id x) = Some c" for x
    using inj [OF that(2)] d that(1) r(1) by (auto simp: distinct_map dest: inj_onD)
  with r(2) ord(1) have "\<forall>x \<in> set ord. get_mumble_id cm2 (r_id x) = Some c \<longrightarrow> r_description x = None" by auto
  from channel_steps_description [OF cm two keeps_numbers_refl this]
  have "description_at v3 c = description_at v c"
    using ch v(2) description_at_cong [of v3 c v2] description_at_cong [of v1 c v] by simp
  moreover have "c \<notin> (fst \<circ> snd) ` set ?R"
    unfolding removed_channels_sets num3 using inj r(1) by auto
  then have "vw_channels (view_after (map (\<lambda>(_, c, _). SyncChannelRemove \<lparr>cr_channel_id = c\<rparr>) ?R) v3) c = vw_channels v3 c"
    unfolding view_fields_channel_removes by simp
  then have "description_at (view_after (map (\<lambda>(_, c, _). SyncChannelRemove \<lparr>cr_channel_id = c\<rparr>) ?R) v3) c = description_at v3 c"
    by (rule description_at_cong)
  ultimately show ?thesis using result run by (simp add: v)
qed

section \<open>When the walk ends\<close>

lemma bfs_order_stuck:
  assumes "r \<in> set rs" "r_id r \<noteq> ROOT_ROOM_UUID" "r_parent r = r_id r" "r \<in> set q"
  shows "bfs_order n rs q = None"
  using assms
proof (induction n rs q rule: bfs_order.induct)
  case (3 n rs x q)
  have "r \<in> set (q @ children_of rs (r_id x))" using "3.prems" by (auto simp: children_of_def)
  with "3.IH" "3.prems"(1-3) show ?case by simp
qed simp_all

definition sample_channel :: "uuid \<Rightarrow> string \<Rightarrow> uuid \<Rightarrow> string option \<Rightarrow> room" where
  "sample_channel i name parent description =
     \<lparr>r_id = i, r_name = name, r_parent = parent, r_description = description, r_inherit_acl = True,
      r_acls = [], r_effective_permissions = 0\<rparr>"

definition sample_user :: "u64 \<Rightarrow> string \<Rightarrow> uuid \<Rightarrow> user" where
  "sample_user i name rm =
     \<lparr>u_user_id = i, u_username = name, u_current_room = rm, u_is_muted = False, u_is_deafened = False,
      u_server_muted = False, u_is_elevated = False, u_groups = [], u_label = None\<rparr>"

definition no_skips :: skip_rules where
  "no_skips = \<lparr>sk_bridge_user_id = None, sk_virtual_user_ids = {}, sk_pending_usernames = {}\<rparr>"

definition doubled_rooms :: "room list" where
  "doubled_rooms = [sample_channel 0 ''Root'' 0 None, sample_channel 7 ''A'' 0 None, sample_channel 7 ''A'' 7 None]"

lemma doubled_rooms_stuck: "bfs_order n doubled_rooms (bfs_start doubled_rooms) = None"
proof -
  let ?a = "sample_channel 7 ''A'' 0 None" and ?b = "sample_channel 7 ''A'' 7 None" and ?root = "sample_channel 0 ''Root'' 0 None"
  have kids: "children_of doubled_rooms 0 = [?a]" "children_of doubled_rooms 7 = [?b]"
    by (simp_all add: children_of_def doubled_rooms_def sample_channel_def ROOT_ROOM_UUID_def)
  have start: "bfs_start doubled_rooms = [?root]"
    by (simp add: bfs_start_def doubled_rooms_def sample_channel_def ROOT_ROOM_UUID_def)
  have ids: "r_id ?root = 0" "r_id ?a = 7" by (simp_all add: sample_channel_def)
  have stuck: "bfs_order k doubled_rooms [?b] = None" for k
    by (rule bfs_order_stuck [of ?b]) (simp_all add: doubled_rooms_def sample_channel_def ROOT_ROOM_UUID_def)
  show ?thesis
  proof (cases n)
    case (Suc m)
    then show ?thesis by (cases m) (simp_all add: start kids ids stuck)
  qed (simp add: start)
qed

section \<open>Nothing to do\<close>

lemma room_by_uuid_distinct: "distinct (map r_id rs) \<Longrightarrow> r \<in> set rs \<Longrightarrow> room_by_uuid rs (r_id r) = Some r"
  unfolding room_by_uuid_def by (rule map_of_is_SomeI) (auto simp: rev_map comp_def distinct_map inj_on_def)

lemma user_by_id_distinct: "distinct (map u_user_id us) \<Longrightarrow> u \<in> set us \<Longrightarrow> user_by_id us (u_user_id u) = Some u"
  unfolding user_by_id_def by (rule map_of_is_SomeI) (auto simp: rev_map comp_def distinct_map inj_on_def)

lemma channel_steps_idle:
  assumes "\<forall>r \<in> set ord. room_by_uuid old (r_id r) = Some r" "channel_steps old ord cm = (cm', msgs)"
  shows "msgs = []"
  using assms
proof (induction ord arbitrary: cm msgs)
  case (Cons r ord)
  obtain cm1 m1 where s1: "channel_step old r cm = (cm1, m1)" by force
  have "m1 = []" using s1 Cons.prems(1) by (auto simp: channel_step_def Let_def room_changed_def split: prod.splits)
  with Cons s1 show ?case by (auto split: prod.splits)
qed simp

lemma user_updates_idle:
  assumes "\<forall>u \<in> set us. user_by_id old (u_user_id u) = Some u \<and> get_mumble_session um (u_user_id u) \<noteq> None"
    and "user_updates old us (cm, um) = ((cm', um'), msgs)"
  shows "msgs = [] \<and> um' = um"
  using assms
proof (induction us arbitrary: cm msgs)
  case (Cons u us)
  obtain s where s: "get_mumble_session um (u_user_id u) = Some s" using Cons.prems(1) by auto
  then have keep: "user_get_or_insert (u_user_id u) um = (s, um)" by (simp add: user_get_or_insert_def get_mumble_session_def)
  have quiet: "\<not> user_changed old um u" using Cons.prems(1) s by (simp add: user_changed_def)
  obtain cm1 where "user_step old u (cm, um) = ((cm1, um), [])"
    using keep quiet by (cases "channel_get_or_insert (u_current_room u) cm") (auto simp: user_step_def)
  with Cons show ?case by (auto split: prod.splits)
qed simp

lemma reconcile_idle:
  assumes pre: "reconcilable rs us cm um" and fuel: "length rs \<le> fuel"
    and shown: "exactly_shows rs (visible_users skip us) cm um v"
  shows "\<exists>cm'. reconcile_server_state fuel rs us rs us cm um skip =
    Some (\<lparr>ro_messages = [], ro_removed_user_ids = []\<rparr>, cm', um)"
proof -
  obtain ord cm2 msgs2 cm3 um3 msgs3 where
    ord: "set ord = set rs" "distinct (map r_id ord)" "length ord = length rs"
    and two: "channel_steps rs ord cm = (cm2, msgs2)"
    and three: "user_updates us (visible_users skip us)
       (cm2, fold remove_by_rumble_id (map fst (vanished_users us um skip)) um) = ((cm3, um3), msgs3)"
    and result: "reconcile_server_state fuel rs us rs us cm um skip =
       Some (\<lparr>ro_messages = user_removes (vanished_users us um skip) @ msgs2 @ msgs3 @
                map (\<lambda>(_, c, _). SyncChannelRemove \<lparr>cr_channel_id = c\<rparr>) (removed_channels rs rs cm3),
              ro_removed_user_ids = map fst (vanished_users us um skip)\<rparr>,
             fold remove_by_uuid (map (snd \<circ> snd) (removed_channels rs rs cm3)) cm3, um3)"
    by (rule reconcile_phases [OF pre fuel])
  have ok: "channel_ok cm" "user_ok um" and tree: "room_tree_ok rs" and du: "distinct (map u_user_id us)"
    and rooms: "\<forall>u \<in> set us. u_current_room u \<in> r_id ` set rs" and left: "2 * length rs < channel_left cm"
    using pre by (simp_all add: reconcilable_def)
  have dom_um: "dom (get_mumble_session um) = u_user_id ` set (visible_users skip us)"
    and dom_cm: "dom (get_mumble_id cm) = r_id ` set rs" and sh: "\<forall>r \<in> set rs. channel_shown cm v r"
    and keys: "\<forall>c \<in> dom (vw_channels v). get_rumble_uuid cm c \<noteq> None"
    using shown channels.two_way [OF ok(1)] by (auto simp: exactly_shows_def)
  have "(i, s) \<notin> set (vanished_users us um skip)" for i s
    using set_vanished_users [OF ok(2), of i s us skip] dom_um by auto
  then have V: "vanished_users us um skip = []" by (metis last_in_set surj_pair)
  have m2: "msgs2 = []"
    using tree ord(1) by (intro channel_steps_idle [OF _ two]) (simp add: room_by_uuid_distinct room_tree_ok_def)
  have m3: "msgs3 = [] \<and> um3 = um"
    using three du dom_um by (intro user_updates_idle [of "visible_users skip us" us um cm2]) (auto simp: V user_by_id_distinct)
  note w2 = channel_phase [OF ok(1) tree left ord(2,1,3) two sh keys refl]
  have known: "\<forall>u \<in> set (visible_users skip us). get_mumble_id cm2 (u_current_room u) \<noteq> None"
    using rooms w2(4) by (auto simp: dom_def)
  have old: "\<forall>x \<in> set us. u_user_id x \<in> u_user_id ` set (visible_users skip us) \<longrightarrow> get_mumble_session um (u_user_id x) \<noteq> None \<longrightarrow>
      user_shown cm2 um v x"
  proof (intro ballI impI)
    fix x assume x: "x \<in> set us" "u_user_id x \<in> u_user_id ` set (visible_users skip us)"
    then have "x \<in> set (visible_users skip us)" using du by (auto simp: distinct_map dest: inj_onD)
    then have "user_shown cm um v x" using shown by (simp add: exactly_shows_def)
    then show "user_shown cm2 um v x" by (rule user_shown_keep) (simp_all add: keeps_numbersD [OF w2(3)])
  qed
  have "length (visible_users skip us) \<le> user_left um"
    using pre by (auto simp: reconcilable_def visible_users_def intro: order.trans [OF length_filter_le])
  moreover have "distinct (map u_user_id (visible_users skip us))" using du by (simp add: visible_users_def distinct_map_filter)
  ultimately have "get_mumble_id cm3 = get_mumble_id cm2"
    using user_updates_shown [OF w2(1,2) known ok(2) _ three [unfolded V, simplified] _ old] by blast
  then have "(snd \<circ> snd) ` set (removed_channels rs rs cm3) = {}"
    unfolding removed_channels_sets using w2(4) dom_cm by auto
  then have R: "removed_channels rs rs cm3 = []" by simp
  show ?thesis using result m2 m3 by (simp add: V R user_removes_def)
qed

section \<open>Properties\<close>

text \<open>A reconciliation refines the announcement of the new state. If a Mumble client shows the
  last snapshot, then on a new snapshot whose rooms form a tree below the root the
  reconciliation returns, and after applying its messages in order the client shows exactly the
  new rooms, with their names and parents, and exactly the new users that are to be shown, each
  in the channel of its room with its name and status; proxy sessions and channel numbers of
  everything else are released.\<close>

theorem reconcile_refines:
  assumes "reconcilable new_rooms new_users cm um" and "length new_rooms \<le> fuel"
    and "bridge_shows old_rooms old_users cm um v"
  shows "\<exists>out cm' um'. reconcile_server_state fuel old_rooms old_users new_rooms new_users cm um skip = Some (out, cm', um') \<and>
    channel_ok cm' \<and> user_ok um' \<and>
    exactly_shows new_rooms (visible_users skip new_users) cm' um' (view_after (ro_messages out) v)"
  by (rule reconcile_exact [OF assms])

definition sample_channels :: "room list" where
  "sample_channels = [sample_channel 0 ''Root'' 0 None, sample_channel 6 ''Inner'' 5 None, sample_channel 5 ''Lobby'' 0 (Some ''hi'')]"

lemma length_sample_channels: "length sample_channels = 3"
  by (simp add: sample_channels_def)

lemma sample_channels_tree: "room_tree_ok sample_channels"
proof -
  let ?in = "sample_channel 6 ''Inner'' 5 None" and ?lob = "sample_channel 5 ''Lobby'' 0 (Some ''hi'')"
  have root: "reaches_root sample_channels 0" using reaches_root.root by (simp add: ROOT_ROOM_UUID_def)
  have "reaches_root sample_channels (r_id ?lob)"
    by (rule reaches_root.child) (use root in \<open>simp_all add: sample_channels_def, simp add: sample_channel_def\<close>)
  then have lob: "reaches_root sample_channels 5" by (simp add: sample_channel_def)
  have "reaches_root sample_channels (r_id ?in)"
    by (rule reaches_root.child) (use lob in \<open>simp_all add: sample_channels_def, simp add: sample_channel_def\<close>)
  then have "reaches_root sample_channels 6" by (simp add: sample_channel_def)
  with root lob show ?thesis
    unfolding room_tree_ok_def by (simp add: sample_channels_def ROOT_ROOM_UUID_def) (simp add: sample_channel_def)
qed

lemma sample_reconcilable: "reconcilable sample_channels [sample_user 1 ''alice'' 5] channel_map_new user_map_new"
  using sample_channels_tree by (simp add: reconcilable_def) (simp add: sample_channels_def sample_user_def sample_channel_def)

theorem reconcile_refines_witness:
  "\<exists>out cm' um'. reconcile_server_state 3 [] [] sample_channels [sample_user 1 ''alice'' 5] channel_map_new user_map_new no_skips =
     Some (out, cm', um') \<and> channel_ok cm' \<and> user_ok um' \<and>
     exactly_shows sample_channels (visible_users no_skips [sample_user 1 ''alice'' 5]) cm' um' (view_after (ro_messages out) empty_view)"
  by (rule reconcile_refines [OF sample_reconcilable])
    (simp_all add: sample_channels_def bridge_shows_def empty_view_def)

text \<open>Reconciling a state that every client already shows sends nothing, removes nobody and
  changes no session.\<close>

theorem reconcile_unchanged_silent:
  assumes "reconcilable rs us cm um" and "length rs \<le> fuel"
    and "exactly_shows rs (visible_users skip us) cm um v"
  shows "\<exists>cm'. reconcile_server_state fuel rs us rs us cm um skip =
    Some (\<lparr>ro_messages = [], ro_removed_user_ids = []\<rparr>, cm', um)"
  by (rule reconcile_idle [OF assms])

definition lone_root :: "room list" where
  "lone_root = [sample_channel 0 ''Root'' 0 None]"

definition lone_map :: channel_map where
  "lone_map = \<lparr>cm_rumble_to_mumble = [(0, 0)], cm_mumble_to_rumble = [(0, 0)], cm_next_id = 1\<rparr>"

definition lone_view :: mumble_view where
  "lone_view = \<lparr>vw_channels = [0 \<mapsto> \<lparr>cv_parent = None, cv_name = Some ''Root'', cv_description = None\<rparr>], vw_users = Map.empty\<rparr>"

lemma lone_root_reconcilable: "reconcilable lone_root [] lone_map user_map_new"
  using reaches_root.root
  by (simp add: reconcilable_def room_tree_ok_def lone_root_def lone_map_def sample_channel_def channel_ok_def channel_left_def
      inverse_tables_def dm_ok_def ROOT_ROOM_UUID_def)

lemma lone_root_shown: "exactly_shows lone_root (visible_users no_skips []) lone_map user_map_new lone_view"
  by (auto simp: exactly_shows_def lone_root_def lone_map_def lone_view_def sample_channel_def visible_users_def channel_shown_def
      shown_sessions_def get_mumble_id_def get_mumble_session_def user_map_new_def ROOT_ROOM_UUID_def split: if_splits)

theorem reconcile_unchanged_silent_witness:
  "\<exists>cm'. reconcile_server_state 1 lone_root [] lone_root [] lone_map user_map_new no_skips =
    Some (\<lparr>ro_messages = [], ro_removed_user_ids = []\<rparr>, cm', user_map_new)"
  by (rule reconcile_unchanged_silent [OF lone_root_reconcilable _ lone_root_shown]) (simp add: lone_root_def)

text \<open>The breadth-first walk of a reconciliation ends on every snapshot without duplicate room
  identifiers, whatever its parent links, after at most one round per room. On a snapshot that
  lists a room a second time below itself it never ends.\<close>

theorem reconcile_terminates:
  "(distinct (map r_id new_rooms) \<longrightarrow>
     reconcile_server_state (length new_rooms) old_rooms old_users new_rooms new_users cm um skip \<noteq> None) \<and>
   (\<forall>fuel. reconcile_server_state fuel old_rooms old_users doubled_rooms new_users cm um skip = None)"
proof (intro conjI impI allI)
  assume "distinct (map r_id new_rooms)"
  then obtain ord where "bfs_order (length new_rooms) new_rooms (bfs_start new_rooms) = Some ord"
    by (rule bfs_order_distinct [OF _ order_refl])
  then show "reconcile_server_state (length new_rooms) old_rooms old_users new_rooms new_users cm um skip \<noteq> None"
    by (simp add: reconcile_server_state_def Let_def channel_bfs_order)
next
  show "reconcile_server_state fuel old_rooms old_users doubled_rooms new_users cm um skip = None" for fuel
    by (simp add: reconcile_server_state_def Let_def channel_bfs_order doubled_rooms_stuck)
qed

theorem reconcile_terminates_witness:
  "reconcile_server_state 3 [] [] sample_channels [] channel_map_new user_map_new no_skips \<noteq> None"
  using reconcile_terminates [of sample_channels "[]" "[]" "[]" channel_map_new user_map_new no_skips] sample_channels_tree
  by (simp add: room_tree_ok_def length_sample_channels)

text \<open>A description that was cleared is not taken back: the message for the room carries no
  description, so a client that shows the old one keeps it.\<close>

theorem cleared_description_stays:
  assumes "room_by_uuid old_rooms (r_id r) = Some old" "r_description old = Some d" "r_description r = None"
    and "channel_ok cm" "2 \<le> channel_left cm"
    and "get_mumble_id cm (r_id r) = Some c" "vw_channels v c = Some cv" "cv_description cv = Some d"
  shows "\<exists>cv'. vw_channels (view_after (snd (channel_step old_rooms r cm)) v) c = Some cv' \<and> cv_description cv' = Some d"
proof -
  obtain cm' msgs where step: "channel_step old_rooms r cm = (cm', msgs)" by force
  note m = channel_step_map [OF assms(4,5) step]
  have "room_changed old_rooms r" using assms(1-3) by (simp add: room_changed_def)
  moreover have "get_mumble_id cm' (r_id r) = Some c" by (rule keeps_numbersD [OF m(3) assms(6)])
  ultimately show ?thesis using assms(3,7,8) by (simp add: step m(5) overlay_channel_def)
qed

definition described_view :: mumble_view where
  "described_view = \<lparr>vw_channels = [1 \<mapsto> \<lparr>cv_parent = Some 0, cv_name = Some ''Lobby'', cv_description = Some ''hi''\<rparr>],
     vw_users = Map.empty\<rparr>"

definition described_map :: channel_map where
  "described_map = \<lparr>cm_rumble_to_mumble = [(5, 1), (0, 0)], cm_mumble_to_rumble = [(1, 5), (0, 0)], cm_next_id = 2\<rparr>"

theorem cleared_description_stays_witness:
  "\<exists>cv'. vw_channels (view_after (snd (channel_step sample_channels (sample_channel 5 ''Lobby'' 0 None) described_map)) described_view) 1 =
     Some cv' \<and> cv_description cv' = Some ''hi''"
proof (rule cleared_description_stays [where cv = "\<lparr>cv_parent = Some 0, cv_name = Some ''Lobby'', cv_description = Some ''hi''\<rparr>"
      and old = "sample_channel 5 ''Lobby'' 0 (Some ''hi'')"])
  show "channel_ok described_map" "2 \<le> channel_left described_map"
    by (simp_all add: channel_ok_def described_map_def inverse_tables_def dm_ok_def ROOT_ROOM_UUID_def channel_left_def insert_commute)
  show "room_by_uuid sample_channels (r_id (sample_channel 5 ''Lobby'' 0 None)) = Some (sample_channel 5 ''Lobby'' 0 (Some ''hi''))"
    by (simp add: room_by_uuid_def sample_channels_def) (simp add: sample_channel_def)
qed (simp_all add: sample_channel_def described_map_def described_view_def get_mumble_id_def)

end
