(* ===== verification/MumbleServer.thy ===== *)
theory MumbleServer
  imports MumbleWire Reconcile Dispatch
begin

text \<open>
  The side of the bridge that Mumble clients connect to (\<open>mumble-bridge/src/mumble_server.rs\<close>):
  the authentication handshake with its registration under the state lock, the translation
  of a client's messages into events of the bridge, and the channel and user lists a new
  client is sent. Messages are kept as the records they encode; the generated decoders
  are the fields of \<open>mumble_codec\<close>.
\<close>

section \<open>Messages\<close>

record text_message_msg =
  tm_actor :: "u32 option"
  tm_session :: "u32 list"
  tm_channel_id :: "u32 list"
  tm_tree_id :: "u32 list"
  tm_message :: "string option"

definition text_message_default :: text_message_msg where
  "text_message_default = \<lparr>tm_actor = None, tm_session = [], tm_channel_id = [], tm_tree_id = [], tm_message = None\<rparr>"

text \<open>The four averages of a ping are floating-point numbers; the bridge only ever sends zero.\<close>

record ping_msg =
  pg_timestamp :: "u64 option"
  pg_good :: "u32 option"
  pg_late :: "u32 option"
  pg_lost :: "u32 option"
  pg_resync :: "u32 option"
  pg_udp_packets :: "u32 option"
  pg_tcp_packets :: "u32 option"
  pg_udp_ping_avg :: "int option"
  pg_udp_ping_var :: "int option"
  pg_tcp_ping_avg :: "int option"
  pg_tcp_ping_var :: "int option"

record server_sync_msg =
  sy_session :: "u32 option"
  sy_max_bandwidth :: "u32 option"
  sy_welcome_text :: "string option"
  sy_permissions :: "u64 option"

record server_config_msg =
  sc_max_bandwidth :: "u32 option"
  sc_welcome_text :: "string option"
  sc_allow_html :: "bool option"
  sc_message_length :: "u32 option"
  sc_image_message_length :: "u32 option"
  sc_max_users :: "u32 option"
  sc_recording_allowed :: "bool option"

record version_msg =
  vm_version_v1 :: "u32 option"
  vm_version_v2 :: "u64 option"
  vm_release :: "string option"
  vm_os :: "string option"
  vm_os_version :: "string option"

record crypt_setup_msg =
  cy_key :: "bytes option"
  cy_client_nonce :: "bytes option"
  cy_server_nonce :: "bytes option"

record codec_version_msg =
  cdv_alpha :: u32
  cdv_beta :: u32
  cdv_prefer_alpha :: bool
  cdv_opus :: "bool option"

datatype reject_type = InvalidUsername | UsernameInUse

record reject_msg =
  rj_type :: "reject_type option"
  rj_reason :: "string option"

datatype mumble_msg =
    MsgVersion version_msg
  | MsgReject reject_msg
  | MsgCryptSetup crypt_setup_msg
  | MsgCodecVersion codec_version_msg
  | MsgServerSync server_sync_msg
  | MsgServerConfig server_config_msg
  | MsgPing ping_msg
  | MsgTextMessage text_message_msg
  | MsgUserState user_state_msg
  | MsgUserRemove user_remove_msg
  | MsgChannelState channel_state_msg
  | MsgChannelRemove channel_remove_msg

text \<open>What is put into a client's outbound channel; a payload is a message or bytes passed on as they came.\<close>

datatype mumble_payload = Encoded mumble_msg | Raw bytes

datatype mumble_outbound = Protobuf u16 mumble_payload | VoiceOut bytes

record mumble_codec =
  decode_authenticate :: "bytes \<Rightarrow> string option option"
  decode_text_message :: "bytes \<Rightarrow> text_message_msg option"
  decode_user_state :: "bytes \<Rightarrow> user_state_msg option"
  decode_ping :: "bytes \<Rightarrow> ping_msg option"

section \<open>Events of the bridge\<close>

text \<open>
  Messages of the Rumble server as the bridge receives them, with the fields of the wire
  format that may be absent as options. The sending half of an outbound channel is named by
  a number.
\<close>

type_synonym tx = nat

datatype state_update =
    SuUserJoined "user_info option"
  | SuUserLeft "user_id_msg option"
  | SuUserMoved "user_id_msg option" "room_id option"
  | SuUserStatusChanged "user_id_msg option" bool bool
  | SuRoomCreated "room_info option"
  | SuRoomDeleted "room_id option"
  | SuRoomRenamed "room_id option" string
  | SuRoomMoved "room_id option" "room_id option"
  | SuRoomDescriptionChanged "room_id option" string
  | SuGroupChanged
  | SuUserGroupChanged
  | SuRoomAclChanged

datatype server_event =
    KindServerState server_state_msg
  | KindStateUpdate "state_update option"
  | KindChatBroadcast chat_broadcast
  | KindDirectMessageReceived direct_message_received
  | KindKeepAlive
  | KindWelcomeMessage string

datatype rumble_payload =
    PayServerEvent "server_event option"
  | PayParticipantRegistered u64 string
  | PayCommandResult string bool string
  | PayOther

datatype bridge_event =
    MumbleClientJoined u32 string
  | MumbleClientLeft u32
  | MumbleClientSender u32 tx
  | MumblePing u32 bytes
  | MumbleVoice u32 bytes
  | MumbleChat u32 string "u32 list" "u32 list"
  | MumbleChannelChange u32 u32
  | MumbleMuteDeafChange u32 "bool option" "bool option"
  | RumbleEnvelope "rumble_payload option"
  | RumbleVoice voice_datagram
  | RumbleReceiverDied

section \<open>The handshake\<close>

datatype handshake_error = ReadFailed | DecodeFailed | EmptyUsername | NameInUse string | WriteFailed

text \<open>
  Messages are read until one is an authentication. The list holds the messages that can
  still be read; at its end the stream ended, broke or the deadline passed.
\<close>

fun await_username :: "mumble_codec \<Rightarrow> mumble_message list \<Rightarrow> handshake_error + string \<times> mumble_message list" where
  "await_username codec [] = Inl ReadFailed"
| "await_username codec (msg # msgs) =
     (if message_type_from_u16 (mm_type msg) = Some MtAuthenticate
      then (case decode_authenticate codec (mm_payload msg) of
              None \<Rightarrow> Inl DecodeFailed
            | Some n \<Rightarrow>
                let name = (case n of Some s \<Rightarrow> s | None \<Rightarrow> []) in
                if name = [] then Inl EmptyUsername else Inr (name, msgs))
      else await_username codec msgs)"

text \<open>The registration, under one lock: the session and the session it replaces, if the name is free.\<close>

definition rumble_taken :: "string \<Rightarrow> bridge_state \<Rightarrow> bool" where
  "rumble_taken name st =
     list_ex (\<lambda>u. u_username u = name \<and> dm_get (bs_reverse_virtual_user_map st) (u_user_id u) = None)
       (bs_rumble_users st)"

definition register_mumble_client :: "string \<Rightarrow> bridge_state \<Rightarrow> (u32 \<times> u32 option) option \<times> bridge_state" where
  "register_mumble_client name st =
     (if rumble_taken name st then (None, st)
      else
        let superseded = map_option mc_session
              (List.find (\<lambda>c. mc_username c = name) (map snd (bs_mumble_clients st)));
            st1 = (case superseded of
                     Some old \<Rightarrow> st\<lparr>bs_mumble_clients := dm_remove old (bs_mumble_clients st)\<rparr>
                   | None \<Rightarrow> st);
            (session, st2) = allocate_mumble_session st1
        in (Some (session, superseded),
            st2\<lparr>bs_mumble_clients := dm_insert session
                 \<lparr>mc_session = session, mc_username = name, mc_channel_id = 0, mc_is_muted = False,
                  mc_is_deafened = False\<rparr> (bs_mumble_clients st2)\<rparr>))"

record handshake_env =
  he_os :: string
  he_key :: bytes
  he_client_nonce :: bytes
  he_server_nonce :: bytes

definition server_version :: "handshake_env \<Rightarrow> version_msg" where
  "server_version e =
     \<lparr>vm_version_v1 = Some 0x00010400, vm_version_v2 = None, vm_release = Some ''Rumble Mumble Bridge 0.1.0'',
      vm_os = Some (he_os e), vm_os_version = Some []\<rparr>"

text \<open>The replies after the registration; the codec numbers are 32-bit signed integers.\<close>

definition handshake_replies :: "handshake_env \<Rightarrow> (message_type \<times> mumble_msg) list" where
  "handshake_replies e =
     [(MtVersion, MsgVersion (server_version e)),
      (MtCryptSetup, MsgCryptSetup \<lparr>cy_key = Some (he_key e), cy_client_nonce = Some (he_client_nonce e),
         cy_server_nonce = Some (he_server_nonce e)\<rparr>),
      (MtCodecVersion, MsgCodecVersion \<lparr>cdv_alpha = - 2147483637, cdv_beta = 0, cdv_prefer_alpha = False, cdv_opus = Some True\<rparr>)]"

definition reject_frame :: "reject_type \<Rightarrow> string \<Rightarrow> message_type \<times> mumble_msg" where
  "reject_frame t reason = (MtReject, MsgReject \<lparr>rj_type = Some t, rj_reason = Some reason\<rparr>)"

text \<open>
  The whole handshake: outcome, frames written and state. \<open>quota\<close> is the number of frames
  the connection takes before a write fails or the deadline passes.
\<close>

definition mumble_auth_handshake ::
  "mumble_codec \<Rightarrow> handshake_env \<Rightarrow> nat \<Rightarrow> mumble_message list \<Rightarrow> bridge_state \<Rightarrow>
   (handshake_error + string \<times> u32 \<times> u32 option) \<times> (message_type \<times> mumble_msg) list \<times> bridge_state" where
  "mumble_auth_handshake codec e quota msgs st =
     (case await_username codec msgs of
        Inl EmptyUsername \<Rightarrow>
          (Inl (if quota = 0 then WriteFailed else EmptyUsername),
           take quota [reject_frame InvalidUsername ''Username cannot be empty''], st)
      | Inl err \<Rightarrow> (Inl err, [], st)
      | Inr (name, _) \<Rightarrow>
          (case register_mumble_client name st of
             (None, st') \<Rightarrow>
               (Inl (if quota = 0 then WriteFailed else NameInUse name),
                take quota [reject_frame UsernameInUse
                  (''Username '' @ [CHR 0x22] @ name @ [CHR 0x22] @ '' is already in use'')], st')
           | (Some (session, superseded), st') \<Rightarrow>
               (if quota < length (handshake_replies e) then Inl WriteFailed else Inr (name, session, superseded),
                take quota (handshake_replies e), st')))"

section \<open>The message loop\<close>

text \<open>The events one message of an authenticated client gives rise to.\<close>

definition client_message_events :: "mumble_codec \<Rightarrow> u32 \<Rightarrow> mumble_message \<Rightarrow> bridge_event list" where
  "client_message_events codec session msg =
     (case message_type_from_u16 (mm_type msg) of
        Some MtPing \<Rightarrow> [MumblePing session (mm_payload msg)]
      | Some MtUdpTunnel \<Rightarrow> [MumbleVoice session (mm_payload msg)]
      | Some MtTextMessage \<Rightarrow>
          (case decode_text_message codec (mm_payload msg) of
             Some m \<Rightarrow> (case tm_message m of
                          Some text \<Rightarrow> [MumbleChat session text (tm_session m) (tm_tree_id m)]
                        | None \<Rightarrow> [])
           | None \<Rightarrow> [])
      | Some MtUserState \<Rightarrow>
          (case decode_user_state codec (mm_payload msg) of
             Some m \<Rightarrow>
               (case us_channel_id m of Some c \<Rightarrow> [MumbleChannelChange session c] | None \<Rightarrow> []) @
               (if us_self_mute m \<noteq> None \<or> us_self_deaf m \<noteq> None
                then [MumbleMuteDeafChange session (us_self_mute m) (us_self_deaf m)] else [])
           | None \<Rightarrow> [])
      | _ \<Rightarrow> [])"

text \<open>The events a handler announces its client with, and the cleanup when the connection ends.\<close>

definition client_joined_events :: "string \<Rightarrow> u32 \<Rightarrow> u32 option \<Rightarrow> tx \<Rightarrow> bridge_event list" where
  "client_joined_events name session superseded sender =
     (case superseded of Some old \<Rightarrow> [MumbleClientLeft old] | None \<Rightarrow> []) @
     [MumbleClientJoined session name, MumbleClientSender session sender]"

definition forget_client :: "u32 \<Rightarrow> bridge_state \<Rightarrow> bridge_state" where
  "forget_client session st = st\<lparr>bs_mumble_clients := dm_remove session (bs_mumble_clients st)\<rparr>"

section \<open>The initial lists\<close>

text \<open>
  All rooms get a channel number first; then they are listed breadth-first from the root,
  which is made up when the snapshot has none. As in the reconciliation the walk has no bound
  of its own, and \<open>None\<close> means that it still runs after \<open>n\<close> rounds.
\<close>

definition assign_channels :: "room list \<Rightarrow> channel_map \<Rightarrow> channel_map" where
  "assign_channels rs cm = fold (\<lambda>r cm. snd (channel_get_or_insert (r_id r) cm)) rs cm"

fun channel_list_bfs :: "nat \<Rightarrow> room list \<Rightarrow> room list \<Rightarrow> channel_map \<Rightarrow> (channel_map \<times> channel_state_msg list) option" where
  "channel_list_bfs n rs [] cm = Some (cm, [])"
| "channel_list_bfs 0 rs (r # queue) cm = None"
| "channel_list_bfs (Suc n) rs (r # queue) cm =
     (let (channel_id, cm) = channel_get_or_insert (r_id r) cm;
          (parent, cm) = (if r_id r = ROOT_ROOM_UUID then (None, cm)
                          else (case channel_get_or_insert (r_parent r) cm of (p, cm) \<Rightarrow> (Some p, cm)))
      in map_option (\<lambda>(cm', msgs).
           (cm', \<lparr>cs_channel_id = Some channel_id, cs_parent = parent, cs_name = Some (r_name r),
                  cs_description = r_description r\<rparr> # msgs))
           (channel_list_bfs n rs (queue @ children_of rs (r_id r)) cm))"

definition build_channel_states :: "nat \<Rightarrow> bridge_state \<Rightarrow> (channel_state_msg list \<times> bridge_state) option" where
  "build_channel_states fuel st =
     (let rs = bs_rumble_rooms st;
          cm = assign_channels rs (bs_channels st);
          synthesized = (if list_ex (\<lambda>r. r_id r = ROOT_ROOM_UUID) rs then []
            else [channel_state_default\<lparr>cs_channel_id := Some 0, cs_name := Some ''Root''\<rparr>])
      in map_option (\<lambda>(cm, msgs). (synthesized @ msgs, st\<lparr>bs_channels := cm\<rparr>))
           (channel_list_bfs fuel rs (bfs_start rs) cm))"

definition rumble_user_state :: "bridge_state \<Rightarrow> user \<Rightarrow> user_state_msg list" where
  "rumble_user_state st u =
     (if Some (u_user_id u) = bs_bridge_user_id st then []
      else case get_mumble_session (bs_users st) (u_user_id u) of
             None \<Rightarrow> []
           | Some session \<Rightarrow>
               [user_state_default\<lparr>us_session := Some session, us_name := Some (u_username u),
                  us_channel_id := get_mumble_id (bs_channels st) (u_current_room u),
                  us_self_mute := Some (u_is_muted u), us_self_deaf := Some (u_is_deafened u)\<rparr>])"

definition client_user_state :: "mumble_client \<Rightarrow> user_state_msg" where
  "client_user_state c =
     user_state_default\<lparr>us_session := Some (mc_session c), us_name := Some (mc_username c),
       us_channel_id := Some (mc_channel_id c), us_self_mute := Some (mc_is_muted c),
       us_self_deaf := Some (mc_is_deafened c)\<rparr>"

definition build_user_states :: "bridge_state \<Rightarrow> u32 \<Rightarrow> user_state_msg list" where
  "build_user_states st exclude_session =
     concat (map (rumble_user_state st) (bs_rumble_users st)) @
     map client_user_state
       (filter (\<lambda>c. mc_session c \<noteq> exclude_session) (map snd (bs_mumble_clients st)))"

end
