(* ===== verification/Bridge.thy ===== *)
theory Bridge
  imports MumbleServer
begin

text \<open>
  The event loop of the Mumble bridge (\<open>mumble-bridge/src/bridge.rs\<close>): every event of a
  Mumble client or of the Rumble connection is handled in one step that changes the bridge's
  state, puts messages into the outbound channels of Mumble clients and sends messages to the
  Rumble server (\<open>mumble-bridge/src/rumble_client.rs\<close>). A failed send to the server is only
  logged by the source, so the trace records attempts.
\<close>

section \<open>The loop's world\<close>

record bridge_loop_state =
  ls_client_senders :: "(u32, tx) dashmap"
  ls_mumble_to_rumble_seq :: "(u32, u32) dashmap"
  ls_rumble_outbound_seq :: "(u64, u64) dashmap"

definition bridge_loop_state_new :: bridge_loop_state where
  "bridge_loop_state_new = \<lparr>ls_client_senders = [], ls_mumble_to_rumble_seq = [], ls_rumble_outbound_seq = []\<rparr>"

datatype rumble_out = OutEnvelope payload | OutDatagram voice_datagram | OutClose

record bridge_world =
  bw_state :: bridge_state
  bw_loop :: bridge_loop_state
  bw_out :: "(tx \<times> mumble_outbound) list"
  bw_rumble :: "rumble_out list"

abbreviation senders :: "bridge_world \<Rightarrow> (u32, tx) dashmap" where
  "senders w \<equiv> ls_client_senders (bw_loop w)"

abbreviation clients :: "bridge_world \<Rightarrow> (u32, mumble_client) dashmap" where
  "clients w \<equiv> bs_mumble_clients (bw_state w)"

record bridge_config =
  cf_bridge_name :: string
  cf_welcome_text :: string
  cf_max_bandwidth :: u32

text \<open>Fresh message identifiers and the clock, by the number of messages sent before.\<close>

record bridge_env =
  be_codec :: mumble_codec
  be_new_v4 :: "nat \<Rightarrow> uuid"
  be_now_ms :: "nat \<Rightarrow> i64"

definition on_bridge :: "(bridge_state \<Rightarrow> bridge_state) \<Rightarrow> bridge_world \<Rightarrow> bridge_world" where
  "on_bridge f w = w\<lparr>bw_state := f (bw_state w)\<rparr>"

definition on_loop :: "(bridge_loop_state \<Rightarrow> bridge_loop_state) \<Rightarrow> bridge_world \<Rightarrow> bridge_world" where
  "on_loop f w = w\<lparr>bw_loop := f (bw_loop w)\<rparr>"

definition tell :: "(tx \<times> mumble_outbound) list \<Rightarrow> bridge_world \<Rightarrow> bridge_world" where
  "tell ms w = w\<lparr>bw_out := bw_out w @ ms\<rparr>"

definition to_rumble :: "rumble_out \<Rightarrow> bridge_world \<Rightarrow> bridge_world" where
  "to_rumble x w = w\<lparr>bw_rumble := bw_rumble w @ [x]\<rparr>"

section \<open>Sending\<close>

definition protobuf :: "message_type \<Rightarrow> mumble_msg \<Rightarrow> mumble_outbound" where
  "protobuf t m = Protobuf (message_type_u16 t) (Encoded m)"

definition send_to_mumble_session :: "u32 \<Rightarrow> message_type \<Rightarrow> mumble_msg \<Rightarrow> bridge_world \<Rightarrow> bridge_world" where
  "send_to_mumble_session session t m w =
     (case dm_get (senders w) session of
        Some sender \<Rightarrow> tell [(sender, protobuf t m)] w
      | None \<Rightarrow> w)"

definition broadcast_to_all_mumble :: "message_type \<Rightarrow> mumble_msg \<Rightarrow> bridge_world \<Rightarrow> bridge_world" where
  "broadcast_to_all_mumble t m w = tell (map (\<lambda>(_, sender). (sender, protobuf t m)) (senders w)) w"

definition broadcast_to_mumble_except :: "u32 \<Rightarrow> message_type \<Rightarrow> mumble_msg \<Rightarrow> bridge_world \<Rightarrow> bridge_world" where
  "broadcast_to_mumble_except exclude_session t m w =
     tell (map (\<lambda>(_, sender). (sender, protobuf t m))
       (filter (\<lambda>(session, _). session \<noteq> exclude_session) (senders w))) w"

text \<open>To the clients that are in one of the channels, all but an excluded one.\<close>

definition send_in_channels :: "u32 list \<Rightarrow> u32 option \<Rightarrow> mumble_outbound \<Rightarrow> bridge_world \<Rightarrow> bridge_world" where
  "send_in_channels target_channels exclude x w =
     tell (map (\<lambda>(_, sender). (sender, x))
       (filter (\<lambda>(session, _). exclude \<noteq> Some session \<and>
          (case dm_get (clients w) session of
             Some c \<Rightarrow> mc_channel_id c \<in> set target_channels
           | None \<Rightarrow> False)) (senders w))) w"

definition send_register_participant :: "string \<Rightarrow> string option \<Rightarrow> bridge_world \<Rightarrow> bridge_world" where
  "send_register_participant username lbl = to_rumble (OutEnvelope (RegisterParticipant username lbl None))"

definition send_unregister_participant :: "u64 \<Rightarrow> bridge_world \<Rightarrow> bridge_world" where
  "send_unregister_participant user_id = to_rumble (OutEnvelope (UnregisterParticipant user_id))"

definition send_move_participant :: "u64 \<Rightarrow> room_id \<Rightarrow> bridge_world \<Rightarrow> bridge_world" where
  "send_move_participant user_id room_id = to_rumble (OutEnvelope (MoveParticipant user_id (Some room_id)))"

definition send_set_participant_status :: "u64 \<Rightarrow> bool \<Rightarrow> bool \<Rightarrow> bridge_world \<Rightarrow> bridge_world" where
  "send_set_participant_status user_id muted deafened =
     to_rumble (OutEnvelope (SetParticipantStatus user_id muted deafened))"

definition send_participant_chat :: "u64 \<Rightarrow> string \<Rightarrow> room_id option \<Rightarrow> bool \<Rightarrow> bridge_world \<Rightarrow> bridge_world" where
  "send_participant_chat user_id text room_id tree =
     to_rumble (OutEnvelope (ParticipantChat \<lparr>pc_user_id = user_id, pc_text = text, pc_room_id = room_id,
       pc_tree = (if tree then Some True else None)\<rparr>))"

definition send_chat :: "bridge_env \<Rightarrow> string \<Rightarrow> string \<Rightarrow> bool \<Rightarrow> bridge_world \<Rightarrow> bridge_world" where
  "send_chat e sender text tree w =
     to_rumble (OutEnvelope (ChatMessage
       \<lparr>cm_id = to_be_bytes 16 (be_new_v4 e (length (bw_rumble w))),
        cm_timestamp_ms = be_now_ms e (length (bw_rumble w)), cm_sender = sender, cm_text = text,
        cm_tree = (if tree then Some True else None), cm_attachment = None\<rparr>)) w"

definition send_direct_message :: "bridge_env \<Rightarrow> u64 \<Rightarrow> string \<Rightarrow> bridge_world \<Rightarrow> bridge_world" where
  "send_direct_message e target_user_id text w =
     to_rumble (OutEnvelope (DirectMessage
       \<lparr>dm_target_user_id = target_user_id, dm_text = text,
        dm_id = to_be_bytes 16 (be_new_v4 e (length (bw_rumble w))),
        dm_timestamp_ms = be_now_ms e (length (bw_rumble w))\<rparr>)) w"

section \<open>Channels of senders and subtrees\<close>

definition roster_user_channel :: "bridge_state \<Rightarrow> user \<Rightarrow> u32 option" where
  "roster_user_channel st u =
     (case get_mumble_id (bs_channels st) (u_current_room u) of
        Some c \<Rightarrow> Some c
      | None \<Rightarrow> if u_current_room u = ROOT_ROOM_UUID then Some 0 else None)"

definition resolve_by_name :: "bridge_state \<Rightarrow> string \<Rightarrow> u32 option" where
  "resolve_by_name st sender_name =
     (case List.find (\<lambda>c. mc_username c = sender_name) (map snd (bs_mumble_clients st)) of
        Some c \<Rightarrow> Some (mc_channel_id c)
      | None \<Rightarrow> Option.bind (List.find (\<lambda>u. u_username u = sender_name) (bs_rumble_users st))
                  (roster_user_channel st))"

definition resolve_by_id :: "bridge_state \<Rightarrow> u64 \<Rightarrow> u32 option" where
  "resolve_by_id st sender_id =
     (case Option.bind (dm_get (bs_reverse_virtual_user_map st) sender_id) (dm_get (bs_mumble_clients st)) of
        Some c \<Rightarrow> Some (mc_channel_id c)
      | None \<Rightarrow> Option.bind (List.find (\<lambda>u. u_user_id u = sender_id) (bs_rumble_users st))
                  (roster_user_channel st))"

definition resolve_chat_sender_channel :: "bridge_state \<Rightarrow> u64 \<Rightarrow> string \<Rightarrow> u32 option" where
  "resolve_chat_sender_channel st sender_id sender_name =
     (case (if sender_id \<noteq> 0 then resolve_by_id st sender_id else None) of
        Some c \<Rightarrow> Some c
      | None \<Rightarrow> resolve_by_name st sender_name)"

definition channel_room :: "channel_map \<Rightarrow> u32 \<Rightarrow> uuid option" where
  "channel_room cm c =
     (case get_rumble_uuid cm c of
        Some u \<Rightarrow> Some u
      | None \<Rightarrow> if c = 0 then Some ROOT_ROOM_UUID else None)"

text \<open>
  The subtree walk: visited rooms, queue and the channels found. Only rooms not visited
  before enter the queue, so as many rounds as there are rooms, plus the start, are enough.
\<close>

definition visit_channel_kid :: "channel_map \<Rightarrow> uuid \<Rightarrow> uuid list \<times> uuid list \<times> u32 list \<Rightarrow> uuid list \<times> uuid list \<times> u32 list" where
  "visit_channel_kid cm kid = (\<lambda>(visited, queue, result).
     if kid \<in> set visited then (visited, queue, result)
     else (visited @ [kid], queue @ [kid],
           case get_mumble_id cm kid of Some ch \<Rightarrow> push_new ch result | None \<Rightarrow> result))"

fun subtree_walk :: "nat \<Rightarrow> channel_map \<Rightarrow> (uuid \<rightharpoonup> uuid list) \<Rightarrow> uuid list \<times> uuid list \<times> u32 list \<Rightarrow> u32 list option" where
  "subtree_walk fuel cm kids (visited, [], result) = Some result"
| "subtree_walk 0 cm kids (visited, current # queue, result) = None"
| "subtree_walk (Suc fuel) cm kids (visited, current # queue, result) =
     subtree_walk fuel cm kids (fold (visit_channel_kid cm) (kids_of kids current) (visited, queue, result))"

definition collect_subtree_channels :: "room list \<Rightarrow> channel_map \<Rightarrow> u32 \<Rightarrow> u32 list" where
  "collect_subtree_channels rs cm root_channel =
     (case channel_room cm root_channel of
        None \<Rightarrow> [root_channel]
      | Some root \<Rightarrow>
          (case subtree_walk (length rs + 1) cm (children_map rs) ([root], [root], [root_channel]) of
             Some result \<Rightarrow> result
           | None \<Rightarrow> []))"

section \<open>Events of Mumble clients\<close>

definition on_client_joined :: "u32 \<Rightarrow> string \<Rightarrow> bridge_world \<Rightarrow> bridge_world" where
  "on_client_joined session username w =
     (let w1 = broadcast_to_mumble_except session MtUserState
                 (MsgUserState (user_state_default\<lparr>us_session := Some session, us_name := Some username,
                    us_channel_id := Some 0\<rparr>)) w;
          w2 = on_bridge (\<lambda>st. st\<lparr>bs_pending_registrations := bs_pending_registrations st @ [(username, session)]\<rparr>) w1
      in send_register_participant username (Some ''Mumble'') w2)"

definition release_session :: "u32 \<Rightarrow> bridge_state \<Rightarrow> bridge_state" where
  "release_session session st =
     (let st1 = (case dm_get (bs_virtual_user_map st) session of
                   Some vid \<Rightarrow> st\<lparr>bs_virtual_user_map := dm_remove session (bs_virtual_user_map st),
                                 bs_reverse_virtual_user_map := dm_remove vid (bs_reverse_virtual_user_map st)\<rparr>
                 | None \<Rightarrow> st)
      in st1\<lparr>bs_pending_registrations := retain (\<lambda>(_, s). s \<noteq> session) (bs_pending_registrations st1)\<rparr>)"

definition on_client_left :: "u32 \<Rightarrow> bridge_world \<Rightarrow> bridge_world" where
  "on_client_left session w =
     (let virtual_user_id = dm_get (bs_virtual_user_map (bw_state w)) session;
          w1 = on_loop (\<lambda>l. l\<lparr>ls_client_senders := dm_remove session (ls_client_senders l),
                             ls_mumble_to_rumble_seq := dm_remove session (ls_mumble_to_rumble_seq l)\<rparr>) w;
          w2 = on_bridge (release_session session) w1;
          w3 = (case virtual_user_id of Some vid \<Rightarrow> send_unregister_participant vid w2 | None \<Rightarrow> w2)
      in broadcast_to_all_mumble MtUserRemove
           (MsgUserRemove \<lparr>ur_session = session, ur_reason = Some ''Disconnected''\<rparr>) w3)"

text \<open>The messages of the initial synchronisation, or \<open>None\<close> while the channel walk still runs.\<close>

definition initial_sync_messages ::
  "bridge_config \<Rightarrow> u32 \<Rightarrow> mumble_client \<Rightarrow> channel_state_msg list \<Rightarrow> user_state_msg list \<Rightarrow> string option \<Rightarrow>
   (message_type \<times> mumble_msg) list" where
  "initial_sync_messages cf session client channels users welcome =
     (let welcome_text = (case welcome of Some t \<Rightarrow> t | None \<Rightarrow> cf_welcome_text cf) in
      map (\<lambda>ch. (MtChannelState, MsgChannelState ch)) channels @
      map (\<lambda>us. (MtUserState, MsgUserState us)) users @
      [(MtUserState, MsgUserState (user_state_default\<lparr>us_session := Some session,
          us_name := Some (mc_username client), us_channel_id := Some (mc_channel_id client)\<rparr>)),
       (MtServerSync, MsgServerSync \<lparr>sy_session = Some session, sy_max_bandwidth = Some (cf_max_bandwidth cf),
          sy_welcome_text = Some welcome_text, sy_permissions = Some 0x07FFFFFF\<rparr>),
       (MtServerConfig, MsgServerConfig \<lparr>sc_max_bandwidth = Some (cf_max_bandwidth cf),
          sc_welcome_text = Some welcome_text, sc_allow_html = Some True, sc_message_length = Some 5000,
          sc_image_message_length = Some 131072, sc_max_users = Some 100, sc_recording_allowed = Some False\<rparr>)])"

definition send_initial_sync :: "bridge_config \<Rightarrow> nat \<Rightarrow> u32 \<Rightarrow> tx \<Rightarrow> bridge_world \<Rightarrow> bridge_world option" where
  "send_initial_sync cf fuel session sender w =
     map_option (\<lambda>(channels, st).
       let w1 = w\<lparr>bw_state := st\<rparr> in
       case dm_get (bs_mumble_clients st) session of
         None \<Rightarrow> w1
       | Some client \<Rightarrow>
           tell (map (\<lambda>(t, m). (sender, protobuf t m))
             (initial_sync_messages cf session client channels (build_user_states st session) (bs_welcome_message st))) w1)
       (build_channel_states fuel (bw_state w))"

definition on_client_sender :: "bridge_config \<Rightarrow> nat \<Rightarrow> u32 \<Rightarrow> tx \<Rightarrow> bridge_world \<Rightarrow> bridge_world option" where
  "on_client_sender cf fuel session sender w =
     map_option (on_loop (\<lambda>l. l\<lparr>ls_client_senders := dm_insert session sender (ls_client_senders l)\<rparr>))
       (send_initial_sync cf fuel session sender w)"

definition on_ping :: "bridge_env \<Rightarrow> u32 \<Rightarrow> bytes \<Rightarrow> bridge_world \<Rightarrow> bridge_world" where
  "on_ping e session payload w =
     (case dm_get (senders w) session of
        None \<Rightarrow> w
      | Some sender \<Rightarrow>
          let response = (case decode_ping (be_codec e) payload of
                Some ping \<Rightarrow> Encoded (MsgPing \<lparr>pg_timestamp = pg_timestamp ping, pg_good = Some 0, pg_late = Some 0,
                   pg_lost = Some 0, pg_resync = Some 0, pg_udp_packets = Some 0, pg_tcp_packets = Some 0,
                   pg_udp_ping_avg = Some 0, pg_udp_ping_var = Some 0, pg_tcp_ping_avg = Some 0,
                   pg_tcp_ping_var = Some 0\<rparr>)
              | None \<Rightarrow> Raw payload)
          in tell [(sender, Protobuf (message_type_u16 MtPing) response)] w)"

definition next_mumble_seq :: "u32 \<Rightarrow> bridge_world \<Rightarrow> u32 \<times> bridge_world" where
  "next_mumble_seq session w =
     (let seq = (case dm_get (ls_mumble_to_rumble_seq (bw_loop w)) session of Some n \<Rightarrow> n | None \<Rightarrow> 0) + 1
      in (seq, on_loop (\<lambda>l. l\<lparr>ls_mumble_to_rumble_seq := dm_insert session seq (ls_mumble_to_rumble_seq l)\<rparr>) w))"

definition on_mumble_voice :: "u32 \<Rightarrow> bytes \<Rightarrow> bridge_world \<Rightarrow> bridge_world" where
  "on_mumble_voice session dat w =
     (let sender_muted = (case dm_get (clients w) session of Some c \<Rightarrow> mc_is_muted c | None \<Rightarrow> False) in
      if sender_muted then w
      else case dm_get (bs_virtual_user_map (bw_state w)) session of
        None \<Rightarrow> w
      | Some virtual_user_id \<Rightarrow>
          (case parse_voice_packet dat of
             None \<Rightarrow> w
           | Some voice \<Rightarrow>
               if mv_target voice = 31
               then (case dm_get (senders w) session of
                       Some sender \<Rightarrow> tell [(sender, VoiceOut (encode_voice_packet session (mv_sequence voice)
                                        (mv_opus_data voice) (mv_is_last voice)))] w
                     | None \<Rightarrow> w)
               else if mv_target voice \<noteq> 0 then w
               else
                 let (seq, w1) = next_mumble_seq session w
                 in to_rumble (OutDatagram \<lparr>vd_opus_data = mv_opus_data voice, vd_sequence = seq,
                      vd_timestamp_us = ucast seq * 20000, vd_end_of_stream = mv_is_last voice,
                      vd_sender_id = Some virtual_user_id, vd_room_id = None\<rparr>) w1))"

text \<open>
  A chat message. The targets of a private message are resolved to users of the server; all
  other messages go to the server for the sender, or for the bridge while the sender is not
  registered, and to the other Mumble clients in the channels concerned.
\<close>

definition private_targets :: "bridge_state \<Rightarrow> u32 list \<Rightarrow> u64 list" where
  "private_targets st target_sessions =
     List.map_filter (\<lambda>ts. case dm_get (bs_virtual_user_map st) ts of
                             Some vid \<Rightarrow> Some vid
                           | None \<Rightarrow> get_rumble_id (bs_users st) ts) target_sessions"

definition forward_chat :: "bridge_config \<Rightarrow> bridge_env \<Rightarrow> u32 \<Rightarrow> string \<Rightarrow> u32 list \<Rightarrow> bridge_world \<Rightarrow> bridge_world" where
  "forward_chat cf e session message target_tree_ids w =
     (let is_tree = (target_tree_ids \<noteq> []) in
      case dm_get (bs_virtual_user_map (bw_state w)) session of
        Some vid \<Rightarrow>
          let room_id = (case target_tree_ids of
                           [] \<Rightarrow> None
                         | ch # _ \<Rightarrow> map_option room_id_from_uuid (channel_room (bs_channels (bw_state w)) ch))
          in send_participant_chat vid message room_id is_tree w
      | None \<Rightarrow>
          let username = (case dm_get (clients w) session of
                            Some c \<Rightarrow> mc_username c
                          | None \<Rightarrow> ''session-'' @ decimal (unat session))
          in send_chat e (cf_bridge_name cf) (''['' @ username @ ''] '' @ message) is_tree w)"

definition local_chat_targets :: "bridge_world \<Rightarrow> u32 \<Rightarrow> u32 list \<Rightarrow> u32 \<times> u32 list" where
  "local_chat_targets w session target_tree_ids =
     (case target_tree_ids of
        ch # _ \<Rightarrow>
          (ch, concat (map (collect_subtree_channels (bs_rumble_rooms (bw_state w)) (bs_channels (bw_state w))) target_tree_ids))
      | [] \<Rightarrow>
          let ch = (case dm_get (clients w) session of Some c \<Rightarrow> mc_channel_id c | None \<Rightarrow> 0)
          in (ch, [ch]))"

definition on_mumble_chat ::
  "bridge_config \<Rightarrow> bridge_env \<Rightarrow> u32 \<Rightarrow> string \<Rightarrow> u32 list \<Rightarrow> u32 list \<Rightarrow> bridge_world \<Rightarrow> bridge_world" where
  "on_mumble_chat cf e session message target_sessions target_tree_ids w =
     (if target_sessions \<noteq> []
      then fold (\<lambda>target_id. send_direct_message e target_id message)
             (private_targets (bw_state w) target_sessions) w
      else
        let w1 = forward_chat cf e session message target_tree_ids w;
            (origin_channel, target_channels) = local_chat_targets w1 session target_tree_ids
        in send_in_channels target_channels (Some session)
             (protobuf MtTextMessage (MsgTextMessage (text_message_default\<lparr>tm_actor := Some session,
                tm_channel_id := [origin_channel], tm_message := Some message\<rparr>))) w1)"

definition update_client :: "u32 \<Rightarrow> (mumble_client \<Rightarrow> mumble_client) \<Rightarrow> bridge_state \<Rightarrow> bridge_state" where
  "update_client session f st =
     (case dm_get (bs_mumble_clients st) session of
        Some c \<Rightarrow> st\<lparr>bs_mumble_clients := dm_insert session (f c) (bs_mumble_clients st)\<rparr>
      | None \<Rightarrow> st)"

definition on_channel_change :: "u32 \<Rightarrow> u32 \<Rightarrow> bridge_world \<Rightarrow> bridge_world" where
  "on_channel_change session channel_id w =
     (let w1 = on_bridge (update_client session (\<lambda>c. c\<lparr>mc_channel_id := channel_id\<rparr>)) w;
          w2 = (case (dm_get (bs_virtual_user_map (bw_state w1)) session,
                      get_rumble_uuid (bs_channels (bw_state w1)) channel_id) of
                  (Some vid, Some u) \<Rightarrow> send_move_participant vid (room_id_from_uuid u) w1
                | _ \<Rightarrow> w1)
      in broadcast_to_all_mumble MtUserState
           (MsgUserState (user_state_default\<lparr>us_session := Some session, us_channel_id := Some channel_id\<rparr>)) w2)"

definition set_mute_deaf :: "bool option \<Rightarrow> bool option \<Rightarrow> mumble_client \<Rightarrow> mumble_client" where
  "set_mute_deaf is_muted is_deafened c =
     (let c = (case is_muted of Some m \<Rightarrow> c\<lparr>mc_is_muted := m\<rparr> | None \<Rightarrow> c);
          c = (case is_deafened of Some d \<Rightarrow> c\<lparr>mc_is_deafened := d\<rparr> | None \<Rightarrow> c);
          c = (if mc_is_deafened c then c\<lparr>mc_is_muted := True\<rparr> else c);
          c = (if \<not> mc_is_muted c then c\<lparr>mc_is_deafened := False\<rparr> else c)
      in c)"

definition on_mute_deaf_change :: "u32 \<Rightarrow> bool option \<Rightarrow> bool option \<Rightarrow> bridge_world \<Rightarrow> bridge_world" where
  "on_mute_deaf_change session is_muted is_deafened w =
     (let w1 = on_bridge (update_client session (set_mute_deaf is_muted is_deafened)) w;
          final_muted = (case dm_get (clients w1) session of Some c \<Rightarrow> mc_is_muted c | None \<Rightarrow> False);
          final_deafened = (case dm_get (clients w1) session of Some c \<Rightarrow> mc_is_deafened c | None \<Rightarrow> False);
          w2 = (case dm_get (bs_virtual_user_map (bw_state w1)) session of
                  Some vid \<Rightarrow> send_set_participant_status vid final_muted final_deafened w1
                | None \<Rightarrow> w1)
      in broadcast_to_all_mumble MtUserState
           (MsgUserState (user_state_default\<lparr>us_session := Some session, us_actor := Some session,
              us_self_mute := Some final_muted, us_self_deaf := Some final_deafened\<rparr>)) w2)"

section \<open>Events of the Rumble server\<close>

definition update_uid :: "user_id_msg option \<Rightarrow> u64" where
  "update_uid i = (case i of Some m \<Rightarrow> uid_value m | None \<Rightarrow> 0)"

definition on_user_joined :: "user_info option \<Rightarrow> bridge_world \<Rightarrow> bridge_world" where
  "on_user_joined info w =
     (case info of
        None \<Rightarrow> w
      | Some user \<Rightarrow>
          let rumble_id = update_uid (ui_user_id user); st = bw_state w in
          if Some rumble_id = bs_bridge_user_id st then w
          else if dm_get (bs_reverse_virtual_user_map st) rumble_id \<noteq> None then w
          else if list_ex (\<lambda>(n, _). n = ui_username user) (bs_pending_registrations st) then w
          else
            let (session, um) = user_get_or_insert rumble_id (bs_users st);
                (channel_id, cm) = (case Option.bind (ui_current_room user) uuid_from_room_id of
                    Some u \<Rightarrow> channel_get_or_insert u (bs_channels st)
                  | None \<Rightarrow> (0, bs_channels st));
                roster = (case user_from_proto user of
                    Some d \<Rightarrow> bs_rumble_users st @ [d]
                  | None \<Rightarrow> bs_rumble_users st);
                w1 = w\<lparr>bw_state := st\<lparr>bs_users := um, bs_channels := cm, bs_rumble_users := roster\<rparr>\<rparr>
            in broadcast_to_all_mumble MtUserState
                 (MsgUserState (user_state_default\<lparr>us_session := Some session, us_name := Some (ui_username user),
                    us_channel_id := Some channel_id, us_self_mute := Some (ui_is_muted user),
                    us_self_deaf := Some (ui_is_deafened user)\<rparr>)) w1)"

definition on_user_left :: "user_id_msg option \<Rightarrow> bridge_world \<Rightarrow> bridge_world" where
  "on_user_left i w =
     (let rumble_id = update_uid i; st = bw_state w in
      if dm_get (bs_reverse_virtual_user_map st) rumble_id \<noteq> None then w
      else
        let session = get_mumble_session (bs_users st) rumble_id;
            w1 = w\<lparr>bw_state := st\<lparr>bs_users := remove_by_rumble_id rumble_id (bs_users st),
                     bs_rumble_users := retain (\<lambda>u. u_user_id u \<noteq> rumble_id) (bs_rumble_users st)\<rparr>\<rparr>;
            w2 = on_loop (\<lambda>l. l\<lparr>ls_rumble_outbound_seq := dm_remove rumble_id (ls_rumble_outbound_seq l)\<rparr>) w1
        in case session of
             Some session \<Rightarrow> broadcast_to_all_mumble MtUserRemove
               (MsgUserRemove \<lparr>ur_session = session, ur_reason = Some ''Left''\<rparr>) w2
           | None \<Rightarrow> w2)"

definition on_user_moved :: "user_id_msg option \<Rightarrow> room_id option \<Rightarrow> bridge_world \<Rightarrow> bridge_world" where
  "on_user_moved i to_room_id w =
     (let rumble_id = update_uid i; st = bw_state w; target = Option.bind to_room_id uuid_from_room_id in
      if dm_get (bs_reverse_virtual_user_map st) rumble_id \<noteq> None then w
      else
        let roster = update_first (\<lambda>u. u_user_id u = rumble_id)
              (\<lambda>u. u\<lparr>u_current_room := (case target of Some r \<Rightarrow> r | None \<Rightarrow> ROOT_ROOM_UUID)\<rparr>) (bs_rumble_users st);
            session = get_mumble_session (bs_users st) rumble_id;
            (channel_id, cm) = (case target of
                Some u \<Rightarrow> (case channel_get_or_insert u (bs_channels st) of (c, cm) \<Rightarrow> (Some c, cm))
              | None \<Rightarrow> (None, bs_channels st));
            w1 = w\<lparr>bw_state := st\<lparr>bs_rumble_users := roster, bs_channels := cm\<rparr>\<rparr>
        in case (session, channel_id) of
             (Some session, Some channel_id) \<Rightarrow> broadcast_to_all_mumble MtUserState
               (MsgUserState (user_state_default\<lparr>us_session := Some session, us_channel_id := Some channel_id\<rparr>)) w1
           | _ \<Rightarrow> w1)"

definition on_user_status :: "user_id_msg option \<Rightarrow> bool \<Rightarrow> bool \<Rightarrow> bridge_world \<Rightarrow> bridge_world" where
  "on_user_status i muted deafened w =
     (let rumble_id = update_uid i; st = bw_state w in
      if dm_get (bs_reverse_virtual_user_map st) rumble_id \<noteq> None then w
      else
        let roster = update_first (\<lambda>u. u_user_id u = rumble_id)
              (\<lambda>u. u\<lparr>u_is_muted := muted, u_is_deafened := deafened\<rparr>) (bs_rumble_users st);
            w1 = w\<lparr>bw_state := st\<lparr>bs_rumble_users := roster\<rparr>\<rparr>
        in case get_mumble_session (bs_users st) rumble_id of
             Some session \<Rightarrow> broadcast_to_all_mumble MtUserState
               (MsgUserState (user_state_default\<lparr>us_session := Some session,
                  us_self_mute := Some muted, us_self_deaf := Some deafened\<rparr>)) w1
           | None \<Rightarrow> w1)"

definition on_room_created :: "room_info option \<Rightarrow> bridge_world \<Rightarrow> bridge_world" where
  "on_room_created info w =
     (case info of
        None \<Rightarrow> w
      | Some room \<Rightarrow>
          (case Option.bind (ri_id room) uuid_from_room_id of
             None \<Rightarrow> w
           | Some u \<Rightarrow>
               let st = bw_state w;
                   (channel_id, cm1) = channel_get_or_insert u (bs_channels st);
                   (parent, cm2) = (case Option.bind (ri_parent_id room) uuid_from_room_id of
                       Some p \<Rightarrow> channel_get_or_insert p cm1
                     | None \<Rightarrow> (0, cm1));
                   cache = (case room_from_proto room of
                       Some d \<Rightarrow> bs_rumble_rooms st @ [d]
                     | None \<Rightarrow> bs_rumble_rooms st);
                   w1 = w\<lparr>bw_state := st\<lparr>bs_channels := cm2, bs_rumble_rooms := cache\<rparr>\<rparr>
               in broadcast_to_all_mumble MtChannelState
                    (MsgChannelState \<lparr>cs_channel_id = Some channel_id, cs_parent = Some parent,
                       cs_name = Some (ri_name room), cs_description = ri_description room\<rparr>) w1))"

definition on_room_deleted :: "room_id option \<Rightarrow> bridge_world \<Rightarrow> bridge_world" where
  "on_room_deleted rid w =
     (case Option.bind rid uuid_from_room_id of
        None \<Rightarrow> w
      | Some u \<Rightarrow>
          let st = bw_state w;
              channel_id = get_mumble_id (bs_channels st) u;
              w1 = w\<lparr>bw_state := st\<lparr>bs_channels := remove_by_uuid u (bs_channels st),
                       bs_rumble_rooms := retain (\<lambda>r. r_id r \<noteq> u) (bs_rumble_rooms st)\<rparr>\<rparr>
          in case channel_id of
               Some c \<Rightarrow> broadcast_to_all_mumble MtChannelRemove (MsgChannelRemove \<lparr>cr_channel_id = c\<rparr>) w1
             | None \<Rightarrow> w1)"

definition on_room_renamed :: "room_id option \<Rightarrow> string \<Rightarrow> bridge_world \<Rightarrow> bridge_world" where
  "on_room_renamed rid new_name w =
     (case Option.bind (Option.bind rid uuid_from_room_id) (get_mumble_id (bs_channels (bw_state w))) of
        Some c \<Rightarrow> broadcast_to_all_mumble MtChannelState
          (MsgChannelState (channel_state_default\<lparr>cs_channel_id := Some c, cs_name := Some new_name\<rparr>)) w
      | None \<Rightarrow> w)"

definition on_room_moved :: "room_id option \<Rightarrow> room_id option \<Rightarrow> bridge_world \<Rightarrow> bridge_world" where
  "on_room_moved rid new_parent_id w =
     (case (Option.bind (Option.bind rid uuid_from_room_id) (get_mumble_id (bs_channels (bw_state w))),
            Option.bind (Option.bind new_parent_id uuid_from_room_id) (get_mumble_id (bs_channels (bw_state w)))) of
        (Some c, Some p) \<Rightarrow> broadcast_to_all_mumble MtChannelState
          (MsgChannelState (channel_state_default\<lparr>cs_channel_id := Some c, cs_parent := Some p\<rparr>)) w
      | _ \<Rightarrow> w)"

definition on_room_description :: "room_id option \<Rightarrow> string \<Rightarrow> bridge_world \<Rightarrow> bridge_world" where
  "on_room_description rid description w =
     (case Option.bind rid uuid_from_room_id of
        None \<Rightarrow> w
      | Some u \<Rightarrow>
          let d = (if description = [] then None else Some description);
              w1 = on_bridge (\<lambda>st. st\<lparr>bs_rumble_rooms :=
                     update_first (\<lambda>r. r_id r = u) (\<lambda>r. r\<lparr>r_description := d\<rparr>) (bs_rumble_rooms st)\<rparr>) w
          in case get_mumble_id (bs_channels (bw_state w1)) u of
               Some c \<Rightarrow> broadcast_to_all_mumble MtChannelState
                 (MsgChannelState (channel_state_default\<lparr>cs_channel_id := Some c, cs_description := d\<rparr>)) w1
             | None \<Rightarrow> w1)"

fun handle_state_update :: "state_update option \<Rightarrow> bridge_world \<Rightarrow> bridge_world" where
  "handle_state_update (Some (SuUserJoined info)) w = on_user_joined info w"
| "handle_state_update (Some (SuUserLeft i)) w = on_user_left i w"
| "handle_state_update (Some (SuUserMoved i r)) w = on_user_moved i r w"
| "handle_state_update (Some (SuUserStatusChanged i m d)) w = on_user_status i m d w"
| "handle_state_update (Some (SuRoomCreated info)) w = on_room_created info w"
| "handle_state_update (Some (SuRoomDeleted r)) w = on_room_deleted r w"
| "handle_state_update (Some (SuRoomRenamed r n)) w = on_room_renamed r n w"
| "handle_state_update (Some (SuRoomMoved r p)) w = on_room_moved r p w"
| "handle_state_update (Some (SuRoomDescriptionChanged r d)) w = on_room_description r d w"
| "handle_state_update (Some SuGroupChanged) w = w"
| "handle_state_update (Some SuUserGroupChanged) w = w"
| "handle_state_update (Some SuRoomAclChanged) w = w"
| "handle_state_update None w = w"

definition bridge_skip_rules :: "bridge_state \<Rightarrow> skip_rules" where
  "bridge_skip_rules st =
     \<lparr>sk_bridge_user_id = bs_bridge_user_id st,
      sk_virtual_user_ids = fst ` set (bs_reverse_virtual_user_map st),
      sk_pending_usernames = fst ` set (bs_pending_registrations st)\<rparr>"

fun sync_broadcast :: "sync_message \<Rightarrow> bridge_world \<Rightarrow> bridge_world" where
  "sync_broadcast (SyncUserRemove m) w = broadcast_to_all_mumble MtUserRemove (MsgUserRemove m) w"
| "sync_broadcast (SyncUserState m) w = broadcast_to_all_mumble MtUserState (MsgUserState m) w"
| "sync_broadcast (SyncChannelRemove m) w = broadcast_to_all_mumble MtChannelRemove (MsgChannelRemove m) w"
| "sync_broadcast (SyncChannelState m) w = broadcast_to_all_mumble MtChannelState (MsgChannelState m) w"

definition on_server_state :: "nat \<Rightarrow> server_state_msg \<Rightarrow> bridge_world \<Rightarrow> bridge_world option" where
  "on_server_state fuel ss w =
     (let st = bw_state w;
          new_rooms = List.map_filter room_from_proto (ss_rooms ss);
          new_users = List.map_filter user_from_proto (ss_users ss)
      in map_option (\<lambda>(out, cm, um).
           let w1 = w\<lparr>bw_state := st\<lparr>bs_channels := cm, bs_users := um, bs_rumble_rooms := new_rooms,
                        bs_rumble_users := new_users\<rparr>\<rparr>;
               w2 = on_loop (\<lambda>l. l\<lparr>ls_rumble_outbound_seq :=
                      fold dm_remove (ro_removed_user_ids out) (ls_rumble_outbound_seq l)\<rparr>) w1
           in fold sync_broadcast (ro_messages out) w2)
         (reconcile_server_state fuel (bs_rumble_rooms st) (bs_rumble_users st) new_rooms new_users
            (bs_channels st) (bs_users st) (bridge_skip_rules st)))"

definition chat_actor :: "bridge_state \<Rightarrow> chat_broadcast \<Rightarrow> u32 option" where
  "chat_actor st cb =
     (let rumble_user_id = (if cb_sender_id cb \<noteq> 0 then Some (cb_sender_id cb)
            else map_option u_user_id (List.find (\<lambda>u. u_username u = cb_sender cb) (bs_rumble_users st)))
      in Option.bind rumble_user_id (\<lambda>rid.
           case dm_get (bs_reverse_virtual_user_map st) rid of
             Some session \<Rightarrow> Some session
           | None \<Rightarrow> get_mumble_session (bs_users st) rid))"

definition on_chat_broadcast :: "chat_broadcast \<Rightarrow> bridge_world \<Rightarrow> bridge_world" where
  "on_chat_broadcast cb w =
     (let st = bw_state w;
          text = cb_sender cb @ '': '' @ cb_text cb;
          is_tree = (cb_tree cb = Some True);
          text_msg = (\<lambda>channel. MsgTextMessage (text_message_default\<lparr>tm_actor := chat_actor st cb,
                        tm_channel_id := [channel], tm_message := Some text\<rparr>))
      in case resolve_chat_sender_channel st (cb_sender_id cb) (cb_sender cb) of
           Some sender_channel \<Rightarrow>
             send_in_channels
               (if is_tree then collect_subtree_channels (bs_rumble_rooms st) (bs_channels st) sender_channel
                else [sender_channel]) None
               (protobuf MtTextMessage (text_msg sender_channel)) w
         | None \<Rightarrow> broadcast_to_all_mumble MtTextMessage (text_msg 0) w)"

definition on_direct_message :: "direct_message_received \<Rightarrow> bridge_world \<Rightarrow> bridge_world" where
  "on_direct_message dm w =
     (case dm_get (bs_reverse_virtual_user_map (bw_state w)) (dr_target_user_id dm) of
        None \<Rightarrow> w
      | Some session \<Rightarrow>
          send_to_mumble_session session MtTextMessage
            (MsgTextMessage (text_message_default
               \<lparr>tm_actor := get_mumble_session (bs_users (bw_state w)) (dr_sender_id dm),
                tm_message := Some (''[DM] '' @ dr_sender_name dm @ '': '' @ dr_text dm)\<rparr>)) w)"

text \<open>The first pending registration of a name, and the others.\<close>

fun take_pending :: "string \<Rightarrow> (string \<times> u32) list \<Rightarrow> (u32 \<times> (string \<times> u32) list) option" where
  "take_pending name [] = None"
| "take_pending name ((n, s) # ps) =
     (if n = name then Some (s, ps) else map_option (\<lambda>(s', ps'). (s', (n, s) # ps')) (take_pending name ps))"

text \<open>What an envelope leaves to do: whether the controller was rejected, participants to place and participants to drop.\<close>

record envelope_result =
  er_rejected :: bool
  er_join_rooms :: "(u64 \<times> u32) list"
  er_unregister :: "u64 list"
  er_world :: bridge_world

definition plain_result :: "bridge_world \<Rightarrow> envelope_result" where
  "plain_result w = \<lparr>er_rejected = False, er_join_rooms = [], er_unregister = [], er_world = w\<rparr>"

definition on_participant_registered :: "u64 \<Rightarrow> string \<Rightarrow> bridge_world \<Rightarrow> envelope_result" where
  "on_participant_registered user_id username w =
     (case take_pending username (bs_pending_registrations (bw_state w)) of
        Some (session, pending) \<Rightarrow>
          (plain_result (on_bridge (\<lambda>st. st\<lparr>bs_pending_registrations := pending,
              bs_virtual_user_map := dm_insert session user_id (bs_virtual_user_map st),
              bs_reverse_virtual_user_map := dm_insert user_id session (bs_reverse_virtual_user_map st)\<rparr>) w))
            \<lparr>er_join_rooms := [(user_id, session)]\<rparr>
      | None \<Rightarrow> (plain_result w)\<lparr>er_unregister := [user_id]\<rparr>)"

fun handle_rumble_envelope :: "nat \<Rightarrow> rumble_payload option \<Rightarrow> bridge_world \<Rightarrow> envelope_result option" where
  "handle_rumble_envelope fuel (Some (PayServerEvent (Some (KindServerState ss)))) w =
     map_option plain_result (on_server_state fuel ss w)"
| "handle_rumble_envelope fuel (Some (PayServerEvent (Some (KindStateUpdate su)))) w =
     Some (plain_result (handle_state_update su w))"
| "handle_rumble_envelope fuel (Some (PayServerEvent (Some (KindChatBroadcast cb)))) w =
     Some (plain_result (on_chat_broadcast cb w))"
| "handle_rumble_envelope fuel (Some (PayServerEvent (Some (KindDirectMessageReceived dm)))) w =
     Some (plain_result (on_direct_message dm w))"
| "handle_rumble_envelope fuel (Some (PayServerEvent (Some KindKeepAlive))) w = Some (plain_result w)"
| "handle_rumble_envelope fuel (Some (PayServerEvent (Some (KindWelcomeMessage text)))) w =
     Some (plain_result (on_bridge (\<lambda>st. st\<lparr>bs_welcome_message := Some text\<rparr>) w))"
| "handle_rumble_envelope fuel (Some (PayServerEvent None)) w = Some (plain_result w)"
| "handle_rumble_envelope fuel (Some (PayParticipantRegistered user_id username)) w =
     Some (on_participant_registered user_id username w)"
| "handle_rumble_envelope fuel (Some (PayCommandResult command success message)) w =
     Some ((plain_result w)\<lparr>er_rejected := (\<not> success \<and> command = ''ControllerHello'')\<rparr>)"
| "handle_rumble_envelope fuel (Some PayOther) w = Some (plain_result w)"
| "handle_rumble_envelope fuel None w = Some (plain_result w)"

text \<open>Placing a participant that was just registered where its client is.\<close>

definition place_participant :: "u64 \<times> u32 \<Rightarrow> bridge_world \<Rightarrow> bridge_world" where
  "place_participant = (\<lambda>(vid, session) w.
     let client = dm_get (clients w) session;
         room_id = (case Option.bind client (\<lambda>c. get_rumble_uuid (bs_channels (bw_state w)) (mc_channel_id c)) of
                      Some u \<Rightarrow> room_id_from_uuid u
                    | None \<Rightarrow> root_room_id);
         muted = (case client of Some c \<Rightarrow> mc_is_muted c | None \<Rightarrow> False);
         deafened = (case client of Some c \<Rightarrow> mc_is_deafened c | None \<Rightarrow> False);
         w1 = send_move_participant vid room_id w
     in if muted \<or> deafened then send_set_participant_status vid muted deafened w1 else w1)"

text \<open>A voice datagram of the server.\<close>

definition next_rumble_seq :: "u64 \<Rightarrow> bridge_world \<Rightarrow> u64 \<times> bridge_world" where
  "next_rumble_seq sender_id w =
     (let seq = (case dm_get (ls_rumble_outbound_seq (bw_loop w)) sender_id of Some n \<Rightarrow> n | None \<Rightarrow> 0) + 2
      in (seq, on_loop (\<lambda>l. l\<lparr>ls_rumble_outbound_seq := dm_insert sender_id seq (ls_rumble_outbound_seq l)\<rparr>) w))"

definition voice_target :: "bridge_state \<Rightarrow> voice_datagram \<Rightarrow> u32 option" where
  "voice_target st dg =
     Option.bind (Option.bind (vd_room_id dg) (\<lambda>b. uuid_from_room_id \<lparr>rid_uuid = b\<rparr>)) (get_mumble_id (bs_channels st))"

definition hears_voice :: "bridge_state \<Rightarrow> u32 option \<Rightarrow> u32 option \<Rightarrow> u32 \<Rightarrow> bool" where
  "hears_voice st exclude_session target_channel session =
     (exclude_session \<noteq> Some session \<and>
      (case (dm_get (bs_mumble_clients st) session, target_channel) of
         (Some c, Some ch) \<Rightarrow> \<not> mc_is_deafened c \<and> mc_channel_id c = ch
       | (None, Some ch) \<Rightarrow> False
       | (Some c, None) \<Rightarrow> \<not> mc_is_deafened c
       | (None, None) \<Rightarrow> True))"

definition handle_rumble_voice :: "voice_datagram \<Rightarrow> bridge_world \<Rightarrow> bridge_world" where
  "handle_rumble_voice dg w =
     (if vd_opus_data dg = [] \<and> \<not> vd_end_of_stream dg then w
      else case vd_sender_id dg of
        None \<Rightarrow> w
      | Some sender_id \<Rightarrow>
          let st = bw_state w;
              vu_session = dm_get (bs_reverse_virtual_user_map st) sender_id;
              session = (case vu_session of
                           Some s \<Rightarrow> Some s
                         | None \<Rightarrow> get_mumble_session (bs_users st) sender_id)
          in case session of
               None \<Rightarrow> w
             | Some session \<Rightarrow>
                 let (current_seq, w1) = next_rumble_seq sender_id w;
                     voice_data = encode_voice_packet session current_seq (vd_opus_data dg) (vd_end_of_stream dg)
                 in tell (map (\<lambda>(_, sender). (sender, VoiceOut voice_data))
                      (filter (\<lambda>(client_session, _). hears_voice st vu_session (voice_target st dg) client_session)
                        (senders w1))) w1)"

section \<open>The event loop\<close>

datatype bridge_exit = EventLoopEnded | ControllerRejected

definition on_envelope :: "nat \<Rightarrow> rumble_payload option \<Rightarrow> bridge_world \<Rightarrow> (bridge_exit option \<times> bridge_world) option" where
  "on_envelope fuel env w =
     map_option (\<lambda>r.
       if er_rejected r then (Some ControllerRejected, er_world r)
       else (None, fold send_unregister_participant (er_unregister r)
                     (fold place_participant (er_join_rooms r) (er_world r))))
       (handle_rumble_envelope fuel env w)"

text \<open>One event: whether the loop ends, and the world; \<open>None\<close> while a walk over the rooms still runs.\<close>

fun bridge_step :: "bridge_config \<Rightarrow> bridge_env \<Rightarrow> nat \<Rightarrow> bridge_event \<Rightarrow> bridge_world \<Rightarrow> (bridge_exit option \<times> bridge_world) option" where
  "bridge_step cf e fuel (MumbleClientJoined session username) w = Some (None, on_client_joined session username w)"
| "bridge_step cf e fuel (MumbleClientLeft session) w = Some (None, on_client_left session w)"
| "bridge_step cf e fuel (MumbleClientSender session sender) w =
     map_option (Pair None) (on_client_sender cf fuel session sender w)"
| "bridge_step cf e fuel (MumblePing session payload) w = Some (None, on_ping e session payload w)"
| "bridge_step cf e fuel (MumbleVoice session dat) w = Some (None, on_mumble_voice session dat w)"
| "bridge_step cf e fuel (MumbleChat session message ts trees) w = Some (None, on_mumble_chat cf e session message ts trees w)"
| "bridge_step cf e fuel (MumbleChannelChange session c) w = Some (None, on_channel_change session c w)"
| "bridge_step cf e fuel (MumbleMuteDeafChange session m d) w = Some (None, on_mute_deaf_change session m d w)"
| "bridge_step cf e fuel (RumbleEnvelope env) w = on_envelope fuel env w"
| "bridge_step cf e fuel (RumbleVoice dg) w = Some (None, handle_rumble_voice dg w)"
| "bridge_step cf e fuel RumbleReceiverDied w = Some (Some EventLoopEnded, w)"

text \<open>After the loop ended by a shutdown request.\<close>

definition shutdown_bridge :: "bridge_world \<Rightarrow> bridge_world" where
  "shutdown_bridge w =
     to_rumble OutClose (fold send_unregister_participant (map snd (bs_virtual_user_map (bw_state w))) w)"

text \<open>
  A new connection to the server (\<open>mumble-bridge/src/main.rs\<close>): the connected Mumble clients
  are registered anew, and the snapshot of the server enters the loop as an event.
\<close>

definition reregister_client :: "u32 \<times> string \<Rightarrow> bridge_world \<Rightarrow> bridge_world" where
  "reregister_client = (\<lambda>(session, username) w.
     send_register_participant username (Some ''Mumble'')
       (on_bridge (\<lambda>st. st\<lparr>bs_pending_registrations := bs_pending_registrations st @ [(username, session)]\<rparr>) w))"

definition reconnect_bridge :: "u64 \<Rightarrow> room list \<Rightarrow> user list \<Rightarrow> bridge_world \<Rightarrow> bridge_world \<times> bridge_event" where
  "reconnect_bridge user_id rs us w =
     (let w1 = on_bridge (\<lambda>st. st\<lparr>bs_bridge_user_id := Some user_id, bs_rumble_connected := True\<rparr>) w;
          todo = map (\<lambda>(_, c). (mc_session c, mc_username c)) (clients w1);
          w2 = (if todo = [] then w1
                else fold reregister_client todo
                       (on_bridge (\<lambda>st. st\<lparr>bs_virtual_user_map := [], bs_reverse_virtual_user_map := [],
                          bs_pending_registrations := []\<rparr>) w1))
      in (w2, RumbleEnvelope (Some (PayServerEvent (Some (KindServerState
                \<lparr>ss_rooms = map room_to_proto rs, ss_users = map user_to_proto us, ss_groups = [],
                 ss_slash_commands = []\<rparr>))))))"

end
