(* ===== verification/BridgeEvents.thy ===== *)
theory BridgeEvents
  imports Bridge
begin

text \<open>
  What one event of the Mumble bridge does: which Mumble clients hear a voice packet of the
  server, which packets of a Mumble client reach the server and how they are numbered, who
  sees a chat message, and how the mute and deaf marks of a client change.
\<close>

section \<open>Frames of the primitives\<close>

lemma on_bridge_simps [simp]:
  "bw_state (on_bridge f w) = f (bw_state w)" "bw_loop (on_bridge f w) = bw_loop w"
  "bw_out (on_bridge f w) = bw_out w" "bw_rumble (on_bridge f w) = bw_rumble w"
  by (simp_all add: on_bridge_def)

lemma on_loop_simps [simp]:
  "bw_state (on_loop g w) = bw_state w" "bw_loop (on_loop g w) = g (bw_loop w)"
  "bw_out (on_loop g w) = bw_out w" "bw_rumble (on_loop g w) = bw_rumble w"
  by (simp_all add: on_loop_def)

lemma tell_simps [simp]:
  "bw_state (tell ms w) = bw_state w" "bw_loop (tell ms w) = bw_loop w"
  "bw_out (tell ms w) = bw_out w @ ms" "bw_rumble (tell ms w) = bw_rumble w"
  by (simp_all add: tell_def)

lemma to_rumble_simps [simp]:
  "bw_state (to_rumble x w) = bw_state w" "bw_loop (to_rumble x w) = bw_loop w"
  "bw_out (to_rumble x w) = bw_out w" "bw_rumble (to_rumble x w) = bw_rumble w @ [x]"
  by (simp_all add: to_rumble_def)

lemma broadcast_simps [simp]:
  "bw_state (broadcast_to_all_mumble t m w) = bw_state w"
  "bw_loop (broadcast_to_all_mumble t m w) = bw_loop w"
  "bw_rumble (broadcast_to_all_mumble t m w) = bw_rumble w"
  "bw_state (broadcast_to_mumble_except s t m w) = bw_state w"
  "bw_loop (broadcast_to_mumble_except s t m w) = bw_loop w"
  "bw_rumble (broadcast_to_mumble_except s t m w) = bw_rumble w"
  "bw_state (send_in_channels cs ex x w) = bw_state w"
  "bw_loop (send_in_channels cs ex x w) = bw_loop w"
  "bw_rumble (send_in_channels cs ex x w) = bw_rumble w"
  by (simp_all add: broadcast_to_all_mumble_def broadcast_to_mumble_except_def send_in_channels_def)

lemma send_to_mumble_session_simps [simp]:
  "bw_state (send_to_mumble_session s t m w) = bw_state w"
  "bw_loop (send_to_mumble_session s t m w) = bw_loop w"
  "bw_rumble (send_to_mumble_session s t m w) = bw_rumble w"
  by (simp_all add: send_to_mumble_session_def split: option.splits)

lemmas participant_sends =
  send_register_participant_def send_unregister_participant_def send_move_participant_def
  send_set_participant_status_def send_participant_chat_def send_chat_def send_direct_message_def

section \<open>Subtrees\<close>

text \<open>The walk over channels visits the rooms the server's own search for descendants visits.\<close>

lemma visit_channel_kid_apply:
  "visit_channel_kid cm kid (v, q, r) =
     (if kid \<in> set v then (v, q, r)
      else (v @ [kid], q @ [kid], case get_mumble_id cm kid of Some ch \<Rightarrow> push_new ch r | None \<Rightarrow> r))"
  by (simp add: visit_channel_kid_def)

lemma fold_visit_channel_kid:
  "\<exists>r'. fold (visit_channel_kid cm) ks (v, q, r) =
          (fst (fold visit_kid ks (v, q)), snd (fold visit_kid ks (v, q)), r') \<and>
        set r' = set r \<union> {ch. \<exists>u \<in> set (fst (fold visit_kid ks (v, q))) - set v. get_mumble_id cm u = Some ch} \<and>
        set v \<subseteq> set (fst (fold visit_kid ks (v, q)))"
proof (induction ks arbitrary: v q r)
  case (Cons k ks)
  show ?case
  proof (cases "k \<in> set v")
    case True
    then show ?thesis using Cons.IH [of v q r] by (simp add: visit_channel_kid_apply visit_kid_apply)
  next
    case False
    let ?r = "case get_mumble_id cm k of Some ch \<Rightarrow> push_new ch r | None \<Rightarrow> r"
    let ?v = "fst (fold visit_kid ks (v @ [k], q @ [k]))"
    obtain r' where r': "fold (visit_channel_kid cm) ks (v @ [k], q @ [k], ?r) = (?v, snd (fold visit_kid ks (v @ [k], q @ [k])), r')"
      "set r' = set ?r \<union> {ch. \<exists>u \<in> set ?v - set (v @ [k]). get_mumble_id cm u = Some ch}" "set (v @ [k]) \<subseteq> set ?v"
      using Cons.IH [of "v @ [k]" "q @ [k]" ?r] by blast
    have "set ?r = set r \<union> {ch. get_mumble_id cm k = Some ch}"
      by (auto split: option.splits simp: set_push_new)
    with r'(2,3) False have "set r' = set r \<union> {ch. \<exists>u \<in> set ?v - set v. get_mumble_id cm u = Some ch}" by auto
    with r'(1,3) False show ?thesis
      by (intro exI [of _ r']) (simp add: visit_channel_kid_apply visit_kid_apply)
  qed
qed simp

lemma subtree_walk_bfs:
  assumes "bfs n kids v q = Some l"
  shows "\<exists>r'. subtree_walk n cm kids (v, q, r) = Some r' \<and> set v \<subseteq> set l \<and>
    set r' = set r \<union> {ch. \<exists>u \<in> set l - set v. get_mumble_id cm u = Some ch}"
  using assms
proof (induction n kids v q arbitrary: r rule: bfs.induct)
  case (3 n kids v c q)
  obtain v' q' where vq: "fold visit_kid (kids_of kids c) (v, q) = (v', q')" by force
  obtain r1 where r1: "fold (visit_channel_kid cm) (kids_of kids c) (v, q, r) = (v', q', r1)"
    "set r1 = set r \<union> {ch. \<exists>u \<in> set v' - set v. get_mumble_id cm u = Some ch}" "set v \<subseteq> set v'"
    using fold_visit_channel_kid [of cm "kids_of kids c" v q r] by (auto simp: vq)
  obtain r2 where "subtree_walk n cm kids (v', q', r1) = Some r2" "set v' \<subseteq> set l"
    "set r2 = set r1 \<union> {ch. \<exists>u \<in> set l - set v'. get_mumble_id cm u = Some ch}"
    using "3.IH" [OF vq [symmetric], of r1] "3.prems" by (fastforce simp: vq)
  with r1 show ?case by (intro exI [of _ r2]) auto
qed auto

lemma set_collect_subtree_channels:
  "set (collect_subtree_channels rs cm c) = insert c
     (case channel_room cm c of
        None \<Rightarrow> {}
      | Some root \<Rightarrow> {ch. \<exists>u. descendant rs root u \<and> u \<noteq> root \<and> get_mumble_id cm u = Some ch})"
proof (cases "channel_room cm c")
  case (Some root)
  obtain l where l: "bfs (length rs + 1) (children_map rs) [root] [root] = Some l" "set l = {u. descendant rs root u}"
    using collect_descendant_rooms_correct [of rs root] by (auto simp: collect_descendant_rooms_def)
  from subtree_walk_bfs [OF l(1), of cm "[c]"] l(2) Some show ?thesis
    by (auto simp: collect_subtree_channels_def)
qed (simp add: collect_subtree_channels_def)

section \<open>Who is reached\<close>

text \<open>A selection of a table by key, as the list of the keys selected.\<close>

lemma dm_selection:
  assumes "dm_ok m"
  shows "\<exists>heard. map (\<lambda>(_, v). f v) (filter (\<lambda>(k, _). P k) m) = map (\<lambda>k. f (the (dm_get m k))) heard \<and>
    distinct heard \<and> (\<forall>k. k \<in> set heard \<longleftrightarrow> dm_get m k \<noteq> None \<and> P k)"
proof (intro exI conjI allI)
  let ?heard = "map fst (filter (\<lambda>(k, _). P k) m)"
  show "map (\<lambda>(_, v). f v) (filter (\<lambda>(k, _). P k) m) = map (\<lambda>k. f (the (dm_get m k))) ?heard"
    using assms by (auto simp: dm_ok_def)
  show "distinct ?heard" using assms by (simp add: dm_ok_def distinct_map_filter)
  show "k \<in> set ?heard \<longleftrightarrow> dm_get m k \<noteq> None \<and> P k" for k
    by (force simp: map_of_eq_None_iff)
qed

definition speaker_session :: "bridge_state \<Rightarrow> u64 \<Rightarrow> u32 option" where
  "speaker_session st speaker =
     (case dm_get (bs_reverse_virtual_user_map st) speaker of
        Some s \<Rightarrow> Some s
      | None \<Rightarrow> get_mumble_session (bs_users st) speaker)"

definition last_rumble_seq :: "bridge_world \<Rightarrow> u64 \<Rightarrow> u64" where
  "last_rumble_seq w speaker =
     (case dm_get (ls_rumble_outbound_seq (bw_loop w)) speaker of Some n \<Rightarrow> n | None \<Rightarrow> 0)"

definition last_mumble_seq :: "bridge_world \<Rightarrow> u32 \<Rightarrow> u32" where
  "last_mumble_seq w session =
     (case dm_get (ls_mumble_to_rumble_seq (bw_loop w)) session of Some n \<Rightarrow> n | None \<Rightarrow> 0)"

lemma hears_voice_iff:
  "hears_voice st own target cs \<longleftrightarrow> own \<noteq> Some cs \<and>
     (\<forall>c. dm_get (bs_mumble_clients st) cs = Some c \<longrightarrow> \<not> mc_is_deafened c) \<and>
     (\<forall>ch. target = Some ch \<longrightarrow> (\<exists>c. dm_get (bs_mumble_clients st) cs = Some c \<and> mc_channel_id c = ch))"
  by (auto simp: hears_voice_def split: option.splits)

lemma handle_rumble_voice_relays:
  assumes "vd_sender_id dg = Some speaker" "speaker_session (bw_state w) speaker = Some s"
    and "vd_opus_data dg \<noteq> [] \<or> vd_end_of_stream dg"
  shows "handle_rumble_voice dg w =
    tell (map (\<lambda>(_, sender). (sender, VoiceOut (encode_voice_packet s (last_rumble_seq w speaker + 2) (vd_opus_data dg) (vd_end_of_stream dg))))
        (filter (\<lambda>(cs, _). hears_voice (bw_state w) (dm_get (bs_reverse_virtual_user_map (bw_state w)) speaker)
           (voice_target (bw_state w) dg) cs) (senders w)))
      (on_loop (\<lambda>l. l\<lparr>ls_rumble_outbound_seq :=
         dm_insert speaker (last_rumble_seq w speaker + 2) (ls_rumble_outbound_seq l)\<rparr>) w)"
  using assms
  by (auto simp: handle_rumble_voice_def speaker_session_def next_rumble_seq_def Let_def last_rumble_seq_def split: option.splits)

text \<open>One packet of a client that speaks to its channel.\<close>

definition relayed_datagram :: "u64 \<Rightarrow> u32 \<Rightarrow> mumble_voice_packet \<Rightarrow> voice_datagram" where
  "relayed_datagram vid seq voice =
     \<lparr>vd_opus_data = mv_opus_data voice, vd_sequence = seq, vd_timestamp_us = ucast seq * 20000,
      vd_end_of_stream = mv_is_last voice, vd_sender_id = Some vid, vd_room_id = None\<rparr>"

definition sender_muted :: "bridge_world \<Rightarrow> u32 \<Rightarrow> bool" where
  "sender_muted w session \<longleftrightarrow> (\<exists>c. dm_get (clients w) session = Some c \<and> mc_is_muted c)"

lemma on_mumble_voice_cases:
  "on_mumble_voice session dat w =
     (if sender_muted w session then w
      else case (dm_get (bs_virtual_user_map (bw_state w)) session, parse_voice_packet dat) of
        (Some vid, Some voice) \<Rightarrow>
          if mv_target voice = 31
          then (case dm_get (senders w) session of
                  Some sender \<Rightarrow> tell [(sender, VoiceOut (encode_voice_packet session (mv_sequence voice)
                                   (mv_opus_data voice) (mv_is_last voice)))] w
                | None \<Rightarrow> w)
          else if mv_target voice = 0
          then to_rumble (OutDatagram (relayed_datagram vid (last_mumble_seq w session + 1) voice))
                 (on_loop (\<lambda>l. l\<lparr>ls_mumble_to_rumble_seq :=
                    dm_insert session (last_mumble_seq w session + 1) (ls_mumble_to_rumble_seq l)\<rparr>) w)
          else w
      | _ \<Rightarrow> w)"
  by (auto simp: on_mumble_voice_def sender_muted_def next_mumble_seq_def last_mumble_seq_def relayed_datagram_def
      Let_def split: option.splits)

lemma on_mumble_voice_speech:
  assumes "\<not> sender_muted w session" "dm_get (bs_virtual_user_map (bw_state w)) session = Some vid"
    and "parse_voice_packet dat = Some voice" "mv_target voice = 0"
  shows "bw_rumble (on_mumble_voice session dat w) =
      bw_rumble w @ [OutDatagram (relayed_datagram vid (last_mumble_seq w session + 1) voice)]"
    and "last_mumble_seq (on_mumble_voice session dat w) session = last_mumble_seq w session + 1"
    and "bw_state (on_mumble_voice session dat w) = bw_state w" "bw_out (on_mumble_voice session dat w) = bw_out w"
  using assms by (simp_all add: on_mumble_voice_cases last_mumble_seq_def dm_get_insert)

lemma voice_stream:
  assumes "\<not> sender_muted w session" "dm_get (bs_virtual_user_map (bw_state w)) session = Some vid"
    and "\<forall>p \<in> set ps. \<exists>voice. parse_voice_packet p = Some voice \<and> mv_target voice = 0"
  shows "bw_rumble (fold (on_mumble_voice session) ps w) = bw_rumble w @
      map (\<lambda>(i, p). OutDatagram (relayed_datagram vid (last_mumble_seq w session + of_nat i) (the (parse_voice_packet p))))
        (enumerate 1 ps) \<and>
    bw_state (fold (on_mumble_voice session) ps w) = bw_state w \<and> bw_out (fold (on_mumble_voice session) ps w) = bw_out w \<and>
    last_mumble_seq (fold (on_mumble_voice session) ps w) session = last_mumble_seq w session + of_nat (length ps)"
  using assms(3)
proof (induction ps rule: rev_induct)
  case (snoc p ps)
  let ?w = "fold (on_mumble_voice session) ps w"
  from snoc.prems obtain voice where voice: "parse_voice_packet p = Some voice" "mv_target voice = 0" by auto
  have ih: "bw_rumble ?w = bw_rumble w @
      map (\<lambda>(i, p). OutDatagram (relayed_datagram vid (last_mumble_seq w session + of_nat i) (the (parse_voice_packet p))))
        (enumerate 1 ps)" "bw_state ?w = bw_state w" "bw_out ?w = bw_out w"
      "last_mumble_seq ?w session = last_mumble_seq w session + of_nat (length ps)"
    using snoc by simp_all
  then have "\<not> sender_muted ?w session" "dm_get (bs_virtual_user_map (bw_state ?w)) session = Some vid"
    using assms(1,2) by (simp_all add: sender_muted_def)
  from on_mumble_voice_speech [OF this voice] ih voice(1) show ?case
    by (simp add: enumerate_append_eq ac_simps)
qed simp

section \<open>Mute and deaf\<close>

lemma set_mute_deaf_fields:
  "mc_is_deafened (set_mute_deaf m d c) = (case d of Some x \<Rightarrow> x | None \<Rightarrow> mc_is_deafened c)"
  "mc_is_muted (set_mute_deaf m d c) =
     ((case m of Some x \<Rightarrow> x | None \<Rightarrow> mc_is_muted c) \<or> (case d of Some x \<Rightarrow> x | None \<Rightarrow> mc_is_deafened c))"
  "mc_session (set_mute_deaf m d c) = mc_session c" "mc_username (set_mute_deaf m d c) = mc_username c"
  "mc_channel_id (set_mute_deaf m d c) = mc_channel_id c"
  by (auto simp: set_mute_deaf_def Let_def split: option.splits)

lemma dm_get_update_client:
  "dm_get (bs_mumble_clients (update_client s f st)) =
     (dm_get (bs_mumble_clients st))(s := map_option f (dm_get (bs_mumble_clients st) s))"
  by (auto simp: update_client_def dm_get_insert fun_eq_iff split: option.splits)

section \<open>Properties\<close>

text \<open>C23: Voice of the server. A datagram of a speaker the bridge knows is sent, in Mumble's
  format and with the speaker's session and a sequence number two above the last one, once to
  each connected client except the speaker itself and the clients that deafened themselves;
  when the room of the datagram is a channel the bridge knows, only to clients in that channel.
  Nothing else happens. A datagram for a room the bridge does not know goes to the clients of
  all channels.\<close>

theorem rumble_voice_relay:
  assumes "vd_sender_id dg = Some speaker" and "speaker_session (bw_state w) speaker = Some s"
    and "vd_opus_data dg \<noteq> [] \<or> vd_end_of_stream dg" and "length (vd_opus_data dg) < 0x2000"
    and "dm_ok (senders w)" and "handle_rumble_voice dg w = w'"
  shows "\<exists>packet tail heard.
    split_session packet = Some (ucast s, tail) \<and>
    parse_voice_packet tail = Some \<lparr>mv_target = 0, mv_sequence = last_rumble_seq w speaker + 2,
      mv_opus_data = vd_opus_data dg, mv_is_last = vd_end_of_stream dg\<rparr> \<and>
    last_rumble_seq w' speaker = last_rumble_seq w speaker + 2 \<and>
    bw_out w' = bw_out w @ map (\<lambda>cs. (the (dm_get (senders w) cs), VoiceOut packet)) heard \<and> distinct heard \<and>
    (\<forall>cs. cs \<in> set heard \<longleftrightarrow> dm_get (senders w) cs \<noteq> None \<and>
       dm_get (bs_reverse_virtual_user_map (bw_state w)) speaker \<noteq> Some cs \<and>
       (\<forall>c. dm_get (clients w) cs = Some c \<longrightarrow> \<not> mc_is_deafened c) \<and>
       (\<forall>ch. voice_target (bw_state w) dg = Some ch \<longrightarrow>
          (\<exists>c. dm_get (clients w) cs = Some c \<and> mc_channel_id c = ch))) \<and>
    bw_state w' = bw_state w \<and> bw_rumble w' = bw_rumble w"
proof -
  let ?packet = "encode_voice_packet s (last_rumble_seq w speaker + 2) (vd_opus_data dg) (vd_end_of_stream dg)"
  let ?hears = "hears_voice (bw_state w) (dm_get (bs_reverse_virtual_user_map (bw_state w)) speaker) (voice_target (bw_state w) dg)"
  note w' = handle_rumble_voice_relays [OF assms(1-3), unfolded assms(6)]
  obtain tail where "split_session ?packet = Some (ucast s, tail)"
    "parse_voice_packet tail = Some \<lparr>mv_target = 0, mv_sequence = last_rumble_seq w speaker + 2,
      mv_opus_data = vd_opus_data dg, mv_is_last = vd_end_of_stream dg\<rparr>"
    using voice_packet_decodes [OF assms(4)] by blast
  moreover obtain heard where heard: "map (\<lambda>(_, sender). (sender, VoiceOut ?packet)) (filter (\<lambda>(cs, _). ?hears cs) (senders w)) =
      map (\<lambda>cs. (the (dm_get (senders w) cs), VoiceOut ?packet)) heard"
    "distinct heard" "\<forall>cs. cs \<in> set heard \<longleftrightarrow> dm_get (senders w) cs \<noteq> None \<and> ?hears cs"
    using dm_selection [OF assms(5), of "\<lambda>sender. (sender, VoiceOut ?packet)" ?hears] by blast
  moreover have "bw_out w' = bw_out w @ map (\<lambda>cs. (the (dm_get (senders w) cs), VoiceOut ?packet)) heard"
    unfolding heard(1) [symmetric] by (simp add: w')
  moreover have "last_rumble_seq w' speaker = last_rumble_seq w speaker + 2" "bw_state w' = bw_state w" "bw_rumble w' = bw_rumble w"
    by (simp_all add: w' last_rumble_seq_def dm_get_insert)
  ultimately show ?thesis unfolding hears_voice_iff
    by (intro exI [of _ ?packet] exI [of _ tail] exI [of _ heard] conjI) simp_all
qed

text \<open>Two clients: one registered on the server as user 7, and one that is deaf; both in the root channel.\<close>

definition sample_mumble_client :: "u32 \<Rightarrow> string \<Rightarrow> bool \<Rightarrow> mumble_client" where
  "sample_mumble_client s n deaf = \<lparr>mc_session = s, mc_username = n, mc_channel_id = 0, mc_is_muted = deaf, mc_is_deafened = deaf\<rparr>"

definition sample_bridge :: bridge_world where
  "sample_bridge =
     \<lparr>bw_state = bridge_state_new\<lparr>bs_mumble_clients := [(1000, sample_mumble_client 1000 ''ann'' False), (1001, sample_mumble_client 1001 ''bob'' True),
          (1002, sample_mumble_client 1002 ''eve'' False)], bs_next_mumble_session := 1003,
        bs_virtual_user_map := [(1000, 7)], bs_reverse_virtual_user_map := [(7, 1000)]\<rparr>,
      bw_loop = bridge_loop_state_new\<lparr>ls_client_senders := [(1000, 0), (1001, 1), (1002, 2)]\<rparr>, bw_out = [], bw_rumble = []\<rparr>"

lemmas sample_bridge_simps =
  sample_bridge_def sample_mumble_client_def bridge_state_new_def bridge_loop_state_new_def dm_ok_def

definition sample_datagram :: voice_datagram where
  "sample_datagram = \<lparr>vd_opus_data = [1, 2], vd_sequence = 1, vd_timestamp_us = 0, vd_end_of_stream = False,
     vd_sender_id = Some 7, vd_room_id = None\<rparr>"

theorem rumble_voice_relay_witness:
  "\<exists>packet. bw_out (handle_rumble_voice sample_datagram sample_bridge) = [(2, VoiceOut packet)]"
proof -
  let ?w = "handle_rumble_voice sample_datagram sample_bridge"
  obtain packet heard where h: "bw_out ?w = map (\<lambda>cs. (the (dm_get (senders sample_bridge) cs), VoiceOut packet)) heard"
    "distinct heard" "\<And>cs. cs \<in> set heard \<longleftrightarrow> dm_get (senders sample_bridge) cs \<noteq> None \<and> 1000 \<noteq> cs \<and>
      (\<forall>c. dm_get (clients sample_bridge) cs = Some c \<longrightarrow> \<not> mc_is_deafened c)"
    using rumble_voice_relay [of sample_datagram 7 sample_bridge 1000 ?w]
    by (auto simp: sample_bridge_simps sample_datagram_def speaker_session_def voice_target_def)
  have "set heard = {1002}" unfolding set_eq_iff h(3) by (auto simp: sample_bridge_simps split: if_splits)
  with h(2) have "heard = [1002]" by (cases heard; cases "tl heard") auto
  with h(1) show ?thesis by (auto simp: sample_bridge_simps)
qed

text \<open>C24: Voice of a Mumble client. Speech of a client that is registered and did not mute itself
  reaches the server packet by packet and in order, under the client's own participant, with
  consecutive sequence numbers and time stamps twenty milliseconds apart, and no other Mumble client is
  sent anything for it. A packet of a muted or unregistered client, a whisper and a malformed packet
  change nothing at all; the echo target is answered to the client itself and to nobody else.\<close>

theorem mumble_voice_relay:
  "(\<not> sender_muted w session \<and> dm_get (bs_virtual_user_map (bw_state w)) session = Some vid \<and>
    (\<forall>p \<in> set ps. \<exists>voice. parse_voice_packet p = Some voice \<and> mv_target voice = 0) \<longrightarrow>
      bw_rumble (fold (on_mumble_voice session) ps w) = bw_rumble w @
        map (\<lambda>(i, p). OutDatagram (relayed_datagram vid (last_mumble_seq w session + of_nat i) (the (parse_voice_packet p))))
          (enumerate 1 ps) \<and>
      bw_out (fold (on_mumble_voice session) ps w) = bw_out w) \<and>
   (sender_muted w session \<or> dm_get (bs_virtual_user_map (bw_state w)) session = None \<or> parse_voice_packet dat = None \<or>
    (\<exists>voice. parse_voice_packet dat = Some voice \<and> mv_target voice \<noteq> 0 \<and> mv_target voice \<noteq> 31) \<longrightarrow>
      on_mumble_voice session dat w = w) \<and>
   (\<forall>voice. parse_voice_packet dat = Some voice \<and> mv_target voice = 31 \<longrightarrow>
      bw_rumble (on_mumble_voice session dat w) = bw_rumble w \<and>
      (\<exists>echo. bw_out (on_mumble_voice session dat w) = bw_out w @ echo \<and>
         (\<forall>(tx, x) \<in> set echo. dm_get (senders w) session = Some tx)))"
proof (intro conjI impI allI)
  assume "\<not> sender_muted w session \<and> dm_get (bs_virtual_user_map (bw_state w)) session = Some vid \<and>
    (\<forall>p \<in> set ps. \<exists>voice. parse_voice_packet p = Some voice \<and> mv_target voice = 0)"
  then show "bw_rumble (fold (on_mumble_voice session) ps w) = bw_rumble w @
        map (\<lambda>(i, p). OutDatagram (relayed_datagram vid (last_mumble_seq w session + of_nat i) (the (parse_voice_packet p))))
          (enumerate 1 ps)"
    and "bw_out (fold (on_mumble_voice session) ps w) = bw_out w"
    using voice_stream [of w session vid ps] by simp_all
qed (auto simp: on_mumble_voice_cases split: option.splits)

text \<open>A packet of normal speech: header, sequence number 5, two bytes of audio.\<close>

definition sample_speech :: bytes where
  "sample_speech = [0x80, 5, 2, 9, 9]"

lemma sample_speech_parse:
  "parse_voice_packet sample_speech = Some \<lparr>mv_target = 0, mv_sequence = 5, mv_opus_data = [9, 9], mv_is_last = False\<rparr>"
  by code_simp

theorem mumble_voice_relay_witness:
  "length (bw_rumble (fold (on_mumble_voice 1000) [sample_speech, sample_speech] sample_bridge)) = 2"
proof -
  have "\<not> sender_muted sample_bridge 1000 \<and> dm_get (bs_virtual_user_map (bw_state sample_bridge)) 1000 = Some 7"
    by (simp add: sample_bridge_simps sender_muted_def)
  then show ?thesis
    using mumble_voice_relay [of sample_bridge 1000 7 "[sample_speech, sample_speech]" "[]"]
    by (simp add: sample_speech_parse sample_bridge_simps)
qed

text \<open>The channels a message reaches.\<close>

definition chat_reach :: "bridge_world \<Rightarrow> u32 \<Rightarrow> u32 list \<Rightarrow> u32 set" where
  "chat_reach w session trees =
     (if trees = [] then {case dm_get (clients w) session of Some c \<Rightarrow> mc_channel_id c | None \<Rightarrow> 0}
      else \<Union>c \<in> set trees. insert c (case channel_room (bs_channels (bw_state w)) c of
             None \<Rightarrow> {}
           | Some root \<Rightarrow> {ch. \<exists>u. descendant (bs_rumble_rooms (bw_state w)) root u \<and> u \<noteq> root \<and>
                                get_mumble_id (bs_channels (bw_state w)) u = Some ch}))"

lemma local_chat_reach:
  "set (snd (local_chat_targets w session trees)) = chat_reach w session trees"
  by (cases trees) (simp_all add: local_chat_targets_def chat_reach_def Let_def set_collect_subtree_channels)

lemma forward_chat_frame [simp]:
  "bw_state (forward_chat cf e session message trees w) = bw_state w"
  "bw_loop (forward_chat cf e session message trees w) = bw_loop w"
  "bw_out (forward_chat cf e session message trees w) = bw_out w"
  by (simp_all add: forward_chat_def participant_sends Let_def split: option.splits)

lemma send_direct_message_frame [simp]:
  "bw_out (send_direct_message e i message w) = bw_out w" "bw_state (send_direct_message e i message w) = bw_state w"
  "bw_loop (send_direct_message e i message w) = bw_loop w"
  by (simp_all add: send_direct_message_def)

lemma fold_direct_messages:
  "bw_out (fold (\<lambda>i. send_direct_message e i message) ids w) = bw_out w \<and>
   bw_state (fold (\<lambda>i. send_direct_message e i message) ids w) = bw_state w \<and>
   bw_loop (fold (\<lambda>i. send_direct_message e i message) ids w) = bw_loop w \<and>
   (\<exists>ms. bw_rumble (fold (\<lambda>i. send_direct_message e i message) ids w) = bw_rumble w @ map (OutEnvelope \<circ> DirectMessage) ms \<and>
     map dm_target_user_id ms = ids \<and> (\<forall>m \<in> set ms. dm_text m = message))"
proof (induction ids arbitrary: w)
  case (Cons i ids)
  let ?w = "send_direct_message e i message w"
  obtain ms where "bw_rumble (fold (\<lambda>i. send_direct_message e i message) ids ?w) = bw_rumble ?w @ map (OutEnvelope \<circ> DirectMessage) ms"
    "map dm_target_user_id ms = ids" "\<forall>m \<in> set ms. dm_text m = message" using Cons.IH [of ?w] by blast
  moreover obtain m where "bw_rumble ?w = bw_rumble w @ [OutEnvelope (DirectMessage m)]" "dm_target_user_id m = i" "dm_text m = message"
    by (simp add: send_direct_message_def)
  ultimately show ?case using Cons.IH [of ?w]
    by (intro conjI exI [of _ "m # ms"]) simp_all
qed simp

text \<open>C25: Chat of a Mumble client. A message to the own channel is put into the channels of exactly
  the other connected clients that are in it, a message to trees into those of the clients in the
  channels of the rooms of those trees, each once and never back to the author, and one message goes
  to the server: for the author's participant once it is registered, for the bridge with the
  author's name in front before that. A private message goes only to the server, to the users the
  sessions stand for, and carries nothing of its author.\<close>

theorem mumble_chat_scope:
  assumes "dm_ok (senders w)" and "on_mumble_chat cf e session message targets trees w = w'"
  shows "bw_state w' = bw_state w \<and>
    (if targets = [] then
       (\<exists>m heard. bw_out w' = bw_out w @ map (\<lambda>cs. (the (dm_get (senders w) cs), protobuf MtTextMessage (MsgTextMessage m))) heard \<and>
          tm_actor m = Some session \<and> tm_message m = Some message \<and> distinct heard \<and>
          (\<forall>cs. cs \<in> set heard \<longleftrightarrow> dm_get (senders w) cs \<noteq> None \<and> cs \<noteq> session \<and>
             (\<exists>c. dm_get (clients w) cs = Some c \<and> mc_channel_id c \<in> chat_reach w session trees))) \<and>
       (\<exists>p. bw_rumble w' = bw_rumble w @ [OutEnvelope p] \<and>
          (case dm_get (bs_virtual_user_map (bw_state w)) session of
             Some vid \<Rightarrow> (\<exists>room. p = ParticipantChat \<lparr>pc_user_id = vid, pc_text = message, pc_room_id = room,
                            pc_tree = (if trees = [] then None else Some True)\<rparr>)
           | None \<Rightarrow> (\<exists>m author. p = ChatMessage m \<and> cm_sender m = cf_bridge_name cf \<and>
                        cm_text m = ''['' @ author @ ''] '' @ message \<and>
                        (\<forall>c. dm_get (clients w) session = Some c \<longrightarrow> author = mc_username c))))
     else
       bw_out w' = bw_out w \<and>
       (\<exists>ms. bw_rumble w' = bw_rumble w @ map (OutEnvelope \<circ> DirectMessage) ms \<and>
          map dm_target_user_id ms = private_targets (bw_state w) targets \<and> (\<forall>m \<in> set ms. dm_text m = message)) \<and>
       (\<forall>other. on_mumble_chat cf e other message targets trees w = w'))"
proof (cases "targets = []")
  case True
  let ?w = "forward_chat cf e session message trees w"
  let ?m = "text_message_default\<lparr>tm_actor := Some session, tm_channel_id := [fst (local_chat_targets ?w session trees)],
      tm_message := Some message\<rparr>"
  let ?P = "\<lambda>cs. Some session \<noteq> Some cs \<and> (case dm_get (clients w) cs of
       Some c \<Rightarrow> mc_channel_id c \<in> chat_reach w session trees | None \<Rightarrow> False)"
  have reach: "set (snd (local_chat_targets ?w session trees)) = chat_reach w session trees"
    by (simp add: local_chat_reach chat_reach_def cong: option.case_cong)
  have w': "w' = tell (map (\<lambda>(_, sender). (sender, protobuf MtTextMessage (MsgTextMessage ?m))) (filter (\<lambda>(cs, _). ?P cs) (senders w))) ?w"
    unfolding assms(2) [symmetric] on_mumble_chat_def True
    by (simp add: Let_def case_prod_beta send_in_channels_def reach cong: option.case_cong)
  obtain heard where heard: "map (\<lambda>(_, sender). (sender, protobuf MtTextMessage (MsgTextMessage ?m))) (filter (\<lambda>(cs, _). ?P cs) (senders w)) =
      map (\<lambda>cs. (the (dm_get (senders w) cs), protobuf MtTextMessage (MsgTextMessage ?m))) heard"
    "distinct heard" "\<forall>cs. cs \<in> set heard \<longleftrightarrow> dm_get (senders w) cs \<noteq> None \<and> ?P cs"
    using dm_selection [OF assms(1), of "\<lambda>sender. (sender, protobuf MtTextMessage (MsgTextMessage ?m))" ?P] by blast
  have iff: "?P cs \<longleftrightarrow> cs \<noteq> session \<and> (\<exists>c. dm_get (clients w) cs = Some c \<and> mc_channel_id c \<in> chat_reach w session trees)" for cs
    by (auto split: option.splits)
  have out: "bw_out w' = bw_out w @ map (\<lambda>cs. (the (dm_get (senders w) cs), protobuf MtTextMessage (MsgTextMessage ?m))) heard"
    by (simp only: w' tell_simps heard(1) forward_chat_frame)
  have "\<exists>m heard. bw_out w' = bw_out w @ map (\<lambda>cs. (the (dm_get (senders w) cs), protobuf MtTextMessage (MsgTextMessage m))) heard \<and>
          tm_actor m = Some session \<and> tm_message m = Some message \<and> distinct heard \<and>
          (\<forall>cs. cs \<in> set heard \<longleftrightarrow> dm_get (senders w) cs \<noteq> None \<and> cs \<noteq> session \<and>
             (\<exists>c. dm_get (clients w) cs = Some c \<and> mc_channel_id c \<in> chat_reach w session trees))"
    by (rule exI [of _ ?m], rule exI [of _ heard])
      (use out heard(2) heard(3) [unfolded iff] in \<open>simp add: text_message_default_def\<close>)
  moreover have "\<exists>p. bw_rumble w' = bw_rumble w @ [OutEnvelope p] \<and>
          (case dm_get (bs_virtual_user_map (bw_state w)) session of
             Some vid \<Rightarrow> (\<exists>room. p = ParticipantChat \<lparr>pc_user_id = vid, pc_text = message, pc_room_id = room,
                            pc_tree = (if trees = [] then None else Some True)\<rparr>)
           | None \<Rightarrow> (\<exists>m author. p = ChatMessage m \<and> cm_sender m = cf_bridge_name cf \<and>
                        cm_text m = ''['' @ author @ ''] '' @ message \<and>
                        (\<forall>c. dm_get (clients w) session = Some c \<longrightarrow> author = mc_username c)))"
    by (auto simp: w' forward_chat_def participant_sends Let_def split: option.splits)
  ultimately show ?thesis using True by (simp add: w')
next
  case False
  then have "w' = fold (\<lambda>i. send_direct_message e i message) (private_targets (bw_state w) targets) w"
    "on_mumble_chat cf e other message targets trees w = w'" for other
    using assms(2) by (auto simp: on_mumble_chat_def)
  with False fold_direct_messages [of e message "private_targets (bw_state w) targets" w] show ?thesis by simp
qed

definition sample_config :: bridge_config where
  "sample_config = \<lparr>cf_bridge_name = ''MumbleBridge'', cf_welcome_text = ''Connected'', cf_max_bandwidth = 558000\<rparr>"

definition sample_codec :: mumble_codec where
  "sample_codec = \<lparr>decode_authenticate = (\<lambda>b. Some (Some (map (\<lambda>x. char_of (unat x)) b))), decode_text_message = (\<lambda>_. None),
     decode_user_state = (\<lambda>_. None), decode_ping = (\<lambda>_. None)\<rparr>"

definition sample_bridge_env :: bridge_env where
  "sample_bridge_env = \<lparr>be_codec = sample_codec, be_new_v4 = of_nat, be_now_ms = of_nat\<rparr>"

theorem mumble_chat_scope_witness:
  "fst ` set (bw_out (on_mumble_chat sample_config sample_bridge_env 1000 ''hi'' [] [] sample_bridge)) = {1, 2}"
proof -
  obtain m heard where h: "bw_out (on_mumble_chat sample_config sample_bridge_env 1000 ''hi'' [] [] sample_bridge) =
      map (\<lambda>cs. (the (dm_get (senders sample_bridge) cs), protobuf MtTextMessage (MsgTextMessage m))) heard"
    "\<And>cs. cs \<in> set heard \<longleftrightarrow> dm_get (senders sample_bridge) cs \<noteq> None \<and> cs \<noteq> 1000 \<and>
             (\<exists>c. dm_get (clients sample_bridge) cs = Some c \<and> mc_channel_id c \<in> chat_reach sample_bridge 1000 [])"
    using mumble_chat_scope [OF _ refl, of sample_bridge sample_config sample_bridge_env 1000 "''hi''" "[]" "[]"]
    by (auto simp: sample_bridge_simps)
  have "set heard = {1001, 1002}" unfolding set_eq_iff h(2) by (auto simp: sample_bridge_simps chat_reach_def split: if_splits)
  then show ?thesis unfolding h(1) by (simp add: sample_bridge_simps image_image)
qed

text \<open>Mute and deaf marks. A client that is deaf is also muted after every change. Asking to unmute
  while deaf changes nothing, although unmuting is meant to end the deafness: every client, the
  asking one included, is told that it is still muted and deaf, and so is the server.\<close>

theorem mute_deaf_change:
  assumes "dm_get (clients w) session = Some c" and "on_mute_deaf_change session m d w = w'"
  shows "\<exists>c'. dm_get (clients w') = (dm_get (clients w))(session \<mapsto> c') \<and>
    (mc_is_deafened c' \<longrightarrow> mc_is_muted c') \<and>
    mc_is_deafened c' = (case d of Some x \<Rightarrow> x | None \<Rightarrow> mc_is_deafened c) \<and>
    (mc_is_muted c' \<longleftrightarrow> (case m of Some x \<Rightarrow> x | None \<Rightarrow> mc_is_muted c) \<or> mc_is_deafened c') \<and>
    (mc_is_deafened c \<and> mc_is_muted c \<and> m = Some False \<and> d = None \<longrightarrow> c' = c) \<and>
    bw_out w' = bw_out w @ map (\<lambda>(_, tx). (tx, protobuf MtUserState (MsgUserState (user_state_default
      \<lparr>us_session := Some session, us_actor := Some session, us_self_mute := Some (mc_is_muted c'),
       us_self_deaf := Some (mc_is_deafened c')\<rparr>)))) (senders w) \<and>
    bw_rumble w' = bw_rumble w @ (case dm_get (bs_virtual_user_map (bw_state w)) session of
      Some vid \<Rightarrow> [OutEnvelope (SetParticipantStatus vid (mc_is_muted c') (mc_is_deafened c'))] | None \<Rightarrow> [])"
proof -
  let ?c = "set_mute_deaf m d c"
  have up: "update_client session (set_mute_deaf m d) (bw_state w) =
      (bw_state w)\<lparr>bs_mumble_clients := dm_insert session ?c (clients w)\<rparr>"
    using assms(1) by (simp add: update_client_def)
  have same: "?c = c" if "mc_is_deafened c \<and> mc_is_muted c \<and> m = Some False \<and> d = None"
    using that by (cases c) (simp add: set_mute_deaf_def)
  show ?thesis unfolding assms(2) [symmetric]
    by (rule exI [of _ ?c])
      (auto simp: on_mute_deaf_change_def Let_def up dm_get_insert set_mute_deaf_fields same send_set_participant_status_def
        broadcast_to_all_mumble_def split: option.splits)
qed

theorem mute_deaf_change_witness:
  "dm_get (clients (on_mute_deaf_change 1001 (Some False) None sample_bridge)) 1001 = Some (sample_mumble_client 1001 ''bob'' True)"
  using mute_deaf_change [OF _ refl, of sample_bridge 1001 "sample_mumble_client 1001 ''bob'' True" "Some False" None]
  by (auto simp: sample_bridge_simps)

end
