(* ===== verification/BridgeSync.thy ===== *)
theory BridgeSync
  imports BridgeEvents
begin

text \<open>
  What Mumble clients see of the Rumble server through the bridge. The view of a client is
  the result of the channel and user messages put into its outbound channel. A client that
  joins is shown the cached state, its own entry and the other clients; a full state of the
  server brings every client that is in step to exactly the new state. A rename is the
  exception: it is announced but not cached.
\<close>

section \<open>What a client received\<close>

fun shown_part :: "mumble_outbound \<Rightarrow> sync_message option" where
  "shown_part (Protobuf _ (Encoded (MsgUserState m))) = Some (SyncUserState m)"
| "shown_part (Protobuf _ (Encoded (MsgUserRemove m))) = Some (SyncUserRemove m)"
| "shown_part (Protobuf _ (Encoded (MsgChannelState m))) = Some (SyncChannelState m)"
| "shown_part (Protobuf _ (Encoded (MsgChannelRemove m))) = Some (SyncChannelRemove m)"
| "shown_part _ = None"

definition received :: "tx \<Rightarrow> (tx \<times> mumble_outbound) list \<Rightarrow> sync_message list" where
  "received c out = List.map_filter (\<lambda>(t, x). if t = c then shown_part x else None) out"

definition shown_view :: "tx \<Rightarrow> bridge_world \<Rightarrow> mumble_view" where
  "shown_view c w = view_after (received c (bw_out w)) empty_view"

lemma received_simps [simp]:
  "received c [] = []" "received c (xs @ ys) = received c xs @ received c ys"
  "received c ((t, x) # xs) = (if t = c then (case shown_part x of Some m \<Rightarrow> m # received c xs | None \<Rightarrow> received c xs)
     else received c xs)"
  by (auto simp: received_def List.map_filter_def split: option.splits)

lemma received_map:
  "received c (map (\<lambda>m. (c, protobuf (t m) (g m))) ms) = List.map_filter (\<lambda>m. shown_part (protobuf (t m) (g m))) ms"
  by (induction ms) (auto simp: map_filter_simps split: option.splits)

text \<open>A broadcast reaches a client once when no two clients share a channel.\<close>

lemma received_all:
  assumes "distinct (map snd m)"
  shows "received c (map (\<lambda>(_, sender). (sender, x)) m) =
    (if c \<in> snd ` set m then (case shown_part x of Some y \<Rightarrow> [y] | None \<Rightarrow> []) else [])"
  using assms by (induction m) (fastforce split: option.splits)+

lemma shown_view_broadcast:
  assumes "distinct (map snd (senders w))" and "c \<in> snd ` set (senders w)"
  shows "shown_view c (broadcast_to_all_mumble t m w) =
    view_after (case shown_part (protobuf t m) of Some y \<Rightarrow> [y] | None \<Rightarrow> []) (shown_view c w)"
  using assms by (simp add: shown_view_def broadcast_to_all_mumble_def received_all)

lemma sync_broadcast_frame [simp]:
  "bw_state (sync_broadcast m w) = bw_state w" "bw_loop (sync_broadcast m w) = bw_loop w"
  "bw_rumble (sync_broadcast m w) = bw_rumble w"
  by (cases m; simp)+

lemma shown_view_sync:
  assumes "distinct (map snd (senders w))" and "c \<in> snd ` set (senders w)"
  shows "shown_view c (sync_broadcast m w) = view_apply m (shown_view c w)"
  using shown_view_broadcast [OF assms] by (cases m) (simp_all add: protobuf_def)

lemma shown_view_syncs:
  assumes "distinct (map snd (senders w))" and "c \<in> snd ` set (senders w)"
  shows "shown_view c (fold sync_broadcast ms w) = view_after ms (shown_view c w) \<and>
    bw_state (fold sync_broadcast ms w) = bw_state w \<and> bw_loop (fold sync_broadcast ms w) = bw_loop w"
  using assms by (induction ms arbitrary: w) (simp_all add: shown_view_sync)

section \<open>User entries of a view\<close>

lemma view_user_states:
  assumes "distinct (map us_session ms)"
  shows "vw_channels (view_after (map SyncUserState ms) v) = vw_channels v"
    and "m \<in> set ms \<Longrightarrow> us_session m = Some s \<Longrightarrow>
      vw_users (view_after (map SyncUserState ms) v) s = Some (overlay_user m (vw_users v s))"
    and "Some s \<notin> us_session ` set ms \<Longrightarrow> vw_users (view_after (map SyncUserState ms) v) s = vw_users v s"
proof -
  have "vw_channels (view_after (map SyncUserState ms) v) = vw_channels v \<and>
    (\<forall>m \<in> set ms. \<forall>s. us_session m = Some s \<longrightarrow>
       vw_users (view_after (map SyncUserState ms) v) s = Some (overlay_user m (vw_users v s))) \<and>
    (\<forall>s. Some s \<notin> us_session ` set ms \<longrightarrow> vw_users (view_after (map SyncUserState ms) v) s = vw_users v s)"
    using assms
  proof (induction ms arbitrary: v)
    case (Cons m ms)
    let ?v = "view_apply (SyncUserState m) v"
    have ih: "vw_channels (view_after (map SyncUserState ms) ?v) = vw_channels ?v"
      "\<forall>m \<in> set ms. \<forall>s. us_session m = Some s \<longrightarrow>
         vw_users (view_after (map SyncUserState ms) ?v) s = Some (overlay_user m (vw_users ?v s))"
      "\<forall>s. Some s \<notin> us_session ` set ms \<longrightarrow> vw_users (view_after (map SyncUserState ms) ?v) s = vw_users ?v s"
      using Cons by simp_all
    have new: "us_session m \<notin> us_session ` set ms" using Cons.prems by simp
    have keep: "us_session m \<noteq> Some s \<Longrightarrow> vw_users ?v s = vw_users v s" for s by (auto split: option.splits)
    have set: "us_session m = Some s \<Longrightarrow> vw_users ?v s = Some (overlay_user m (vw_users v s))" for s by simp
    have "vw_channels ?v = vw_channels v" by (simp split: option.splits)
    moreover have "vw_users (view_after (map SyncUserState ms) ?v) s = Some (overlay_user x (vw_users v s))"
      if "x \<in> set (m # ms)" "us_session x = Some s" for x s
    proof (cases "x = m")
      case True
      then have "Some s \<notin> us_session ` set ms" using new that(2) by simp
      then show ?thesis using ih(3) set that(2) True by simp
    next
      case False
      then have x: "x \<in> set ms" using that(1) by simp
      then have "us_session m \<noteq> Some s" using new that(2) by force
      then show ?thesis using ih(2) x that(2) keep by simp
    qed
    moreover have "vw_users (view_after (map SyncUserState ms) ?v) s = vw_users v s" if "Some s \<notin> us_session ` set (m # ms)" for s
      using that ih(3) keep [of s] by auto
    ultimately show ?case using ih(1) by simp
  qed simp
  then show "vw_channels (view_after (map SyncUserState ms) v) = vw_channels v"
    and "m \<in> set ms \<Longrightarrow> us_session m = Some s \<Longrightarrow>
      vw_users (view_after (map SyncUserState ms) v) s = Some (overlay_user m (vw_users v s))"
    and "Some s \<notin> us_session ` set ms \<Longrightarrow> vw_users (view_after (map SyncUserState ms) v) s = vw_users v s"
    by blast+
qed

section \<open>The channel list\<close>

lemma room_changed_Nil [simp]: "room_changed [] r"
  by (simp add: room_changed_def room_by_uuid_def)

lemma channel_list_is_bfs:
  "channel_bfs n [] rs q cm = map_option (\<lambda>(cm, ms). (cm, map SyncChannelState ms)) (channel_list_bfs n rs q cm)"
proof (induction n arbitrary: q cm)
  case 0
  then show ?case by (cases q) simp_all
next
  case (Suc n)
  show ?case
    by (cases q) (auto simp: channel_step_def Let_def Suc.IH option.map_comp comp_def case_prod_beta)
qed

lemma assign_channels:
  assumes "channel_ok cm" "length rs < channel_left cm"
  shows "channel_ok (assign_channels rs cm) \<and> channel_left cm \<le> channel_left (assign_channels rs cm) + length rs \<and>
    keeps_numbers cm (assign_channels rs cm) \<and>
    dom (get_mumble_id (assign_channels rs cm)) = dom (get_mumble_id cm) \<union> r_id ` set rs"
  using assms
proof (induction rs arbitrary: cm)
  case (Cons r rs)
  let ?cm = "snd (channel_get_or_insert (r_id r) cm)"
  have ok: "channel_ok ?cm" using Cons.prems by (intro channels.insert_ok) simp_all
  have left: "channel_left cm \<le> Suc (channel_left ?cm)" using Cons.prems(1) by (rule channels.insert_left)
  have dom: "dom (get_mumble_id ?cm) = insert (r_id r) (dom (get_mumble_id cm))"
    by (simp add: channels.insert_number [OF Cons.prems(1)])
  have "assign_channels (r # rs) cm = assign_channels rs ?cm" by (simp add: assign_channels_def)
  then show ?case using Cons.IH [OF ok] Cons.prems left dom keeps_numbers_insert [OF Cons.prems(1), of "r_id r"]
    by (auto intro: keeps_numbers_trans)
qed (simp add: assign_channels_def)

text \<open>
  The rooms that hang below the root. A cached room need not: the bridge does not cache moves, and
  the deletion of a room leaves its cached children behind.
\<close>

definition attached_rooms :: "room list \<Rightarrow> room list" where
  "attached_rooms rs = filter (\<lambda>r. reaches_root rs (r_id r)) rs"

lemma attached_reaches: "reaches_root rs u \<Longrightarrow> reaches_root (attached_rooms rs) u"
proof (induction rule: reaches_root.induct)
  case (child r)
  then show ?case by (intro reaches_root.child) (simp_all add: attached_rooms_def reaches_root.child)
qed (rule reaches_root.root)

lemma attached_tree:
  assumes "distinct (map r_id rs)" "ROOT_ROOM_UUID \<in> r_id ` set rs"
  shows "room_tree_ok (attached_rooms rs)"
proof -
  have "ROOT_ROOM_UUID \<in> r_id ` set (attached_rooms rs)"
    using assms(2) reaches_root.root [of rs] by (force simp: attached_rooms_def)
  moreover have "\<forall>r \<in> set (attached_rooms rs). reaches_root (attached_rooms rs) (r_id r)"
    using attached_reaches by (simp add: attached_rooms_def)
  ultimately show ?thesis using assms(1) by (simp add: room_tree_ok_def attached_rooms_def distinct_map_filter)
qed

lemma attached_whole: "room_tree_ok rs \<Longrightarrow> attached_rooms rs = rs"
  by (simp add: attached_rooms_def room_tree_ok_def filter_id_conv)

lemma attached_children: "reaches_root rs u \<Longrightarrow> children_of (attached_rooms rs) u = children_of rs u"
  by (auto simp: children_of_def attached_rooms_def intro!: filter_cong reaches_root.child)

lemma attached_start: "ROOT_ROOM_UUID \<in> r_id ` set rs \<Longrightarrow> bfs_start (attached_rooms rs) = bfs_start rs"
proof -
  have "List.find P (filter Q xs) = List.find P xs" if "\<And>x. P x \<Longrightarrow> Q x" for P Q and xs :: "room list"
    using that by (induction xs) auto
  from this [of "\<lambda>r. r_id r = ROOT_ROOM_UUID" "\<lambda>r. reaches_root rs (r_id r)" rs]
  have "List.find (\<lambda>r. r_id r = ROOT_ROOM_UUID) (attached_rooms rs) = List.find (\<lambda>r. r_id r = ROOT_ROOM_UUID) rs"
    by (simp add: attached_rooms_def reaches_root.root)
  moreover assume "ROOT_ROOM_UUID \<in> r_id ` set rs"
  then have "List.find (\<lambda>r. r_id r = ROOT_ROOM_UUID) rs \<noteq> None" by (auto simp: find_None_iff)
  ultimately show ?thesis by (auto simp: bfs_start_def)
qed

lemma bfs_start_subset: "set (bfs_start rs) \<subseteq> set rs"
  by (auto simp: bfs_start_def children_of_def dest: find_Some_set split: option.splits)

lemma attached_bfs:
  "\<forall>r \<in> set q. reaches_root rs (r_id r) \<Longrightarrow> channel_list_bfs n rs q cm = channel_list_bfs n (attached_rooms rs) q cm"
proof (induction n arbitrary: q cm)
  case 0
  show ?case by (cases q) simp_all
next
  case (Suc n)
  show ?case
  proof (cases q)
    case (Cons r queue)
    then have r: "reaches_root rs (r_id r)" using Suc.prems by simp
    have "\<forall>x \<in> set (queue @ children_of rs (r_id r)). reaches_root rs (r_id x)"
      using Suc.prems Cons r by (auto simp: children_of_def intro: reaches_root.child)
    from Suc.IH [OF this] show ?thesis by (simp add: Cons attached_children [OF r])
  qed simp
qed

text \<open>
  A bridge state that can be shown: proper tables, distinct rooms with the root among them, and
  clients under their own sessions. In a state that is fit in every respect the rooms are a tree
  and every user is in one of them.
\<close>

definition sync_base :: "bridge_state \<Rightarrow> bool" where
  "sync_base st \<longleftrightarrow>
     channel_ok (bs_channels st) \<and> user_ok (bs_users st) \<and>
     distinct (map r_id (bs_rumble_rooms st)) \<and> ROOT_ROOM_UUID \<in> r_id ` set (bs_rumble_rooms st) \<and>
     distinct (map u_user_id (bs_rumble_users st)) \<and>
     (\<forall>i. bs_bridge_user_id st = Some i \<longrightarrow> get_mumble_session (bs_users st) i = None) \<and>
     dm_ok (bs_mumble_clients st) \<and>
     (\<forall>(s, c) \<in> set (bs_mumble_clients st). mc_session c = s \<and> s < 100000)"

definition placed_users :: "bridge_state \<Rightarrow> user list" where
  "placed_users st = filter (\<lambda>u. u_current_room u \<in> r_id ` set (bs_rumble_rooms st)) (bs_rumble_users st)"

definition sync_ok :: "bridge_state \<Rightarrow> bool" where
  "sync_ok st \<longleftrightarrow> sync_base st \<and> room_tree_ok (bs_rumble_rooms st) \<and>
     (\<forall>u \<in> set (bs_rumble_users st). u_current_room u \<in> r_id ` set (bs_rumble_rooms st))"

lemma sync_ok_whole:
  assumes "sync_ok st"
  shows "attached_rooms (bs_rumble_rooms st) = bs_rumble_rooms st" "placed_users st = bs_rumble_users st"
  using assms by (simp_all add: sync_ok_def attached_whole placed_users_def filter_id_conv)

lemma build_channel_states_shown:
  assumes ok: "sync_base st" and left: "3 * length (bs_rumble_rooms st) < channel_left (bs_channels st)"
    and fuel: "length (bs_rumble_rooms st) \<le> fuel"
  obtains cm ms where "build_channel_states fuel st = Some (ms, st\<lparr>bs_channels := cm\<rparr>)"
    "channel_ok cm" "keeps_numbers (bs_channels st) cm" "r_id ` set (bs_rumble_rooms st) \<subseteq> dom (get_mumble_id cm)"
    "\<forall>r \<in> set (attached_rooms (bs_rumble_rooms st)). channel_shown cm (view_after (map SyncChannelState ms) empty_view) r"
    "vw_users (view_after (map SyncChannelState ms) empty_view) = Map.empty"
    "dom (vw_channels (view_after (map SyncChannelState ms) empty_view)) =
       {c. \<exists>r \<in> set (attached_rooms (bs_rumble_rooms st)). get_mumble_id cm (r_id r) = Some c}"
proof -
  let ?all = "bs_rumble_rooms st" and ?cm = "assign_channels (bs_rumble_rooms st) (bs_channels st)"
  define rs where "rs = attached_rooms ?all"
  have cok: "channel_ok (bs_channels st)" and root: "ROOT_ROOM_UUID \<in> r_id ` set ?all"
    and tree: "room_tree_ok rs" using ok by (simp_all add: sync_base_def rs_def attached_tree)
  have short: "length rs \<le> length ?all" by (simp add: rs_def attached_rooms_def)
  have a: "channel_ok ?cm" "channel_left (bs_channels st) \<le> channel_left ?cm + length ?all" "keeps_numbers (bs_channels st) ?cm"
    "dom (get_mumble_id ?cm) = dom (get_mumble_id (bs_channels st)) \<union> r_id ` set ?all"
    using assign_channels [OF cok, of ?all] left by auto
  obtain ord where ord: "bfs_order fuel rs (bfs_start rs) = Some ord" "distinct (map r_id ord)" "set ord = set rs"
    by (rule bfs_order_tree [OF tree order.trans [OF short fuel]])
  have len: "length ord = length rs"
    using ord(2,3) tree by (metis distinct_card distinct_map room_tree_ok_def)
  obtain cm msgs where steps: "channel_steps [] ord ?cm = (cm, msgs)" by force
  have "channel_bfs fuel [] rs (bfs_start rs) ?cm = Some (cm, msgs)" by (simp add: channel_bfs_order ord(1) steps)
  then obtain ms where ms: "channel_list_bfs fuel rs (bfs_start rs) ?cm = Some (cm, ms)" "msgs = map SyncChannelState ms"
    by (auto simp: channel_list_is_bfs)
  have "\<forall>r \<in> set (bfs_start ?all). reaches_root ?all (r_id r)"
    using attached_start [OF root] ord(3) tree bfs_start_subset [of rs] by (auto simp: rs_def attached_rooms_def)
  from attached_bfs [OF this, of fuel ?cm] ms(1) have list: "channel_list_bfs fuel ?all (bfs_start ?all) ?cm = Some (cm, ms)"
    by (simp add: rs_def attached_start [OF root])
  have left2: "2 * length rs < channel_left ?cm" using a(2) left short by simp
  note phase = channel_phase [OF a(1) tree left2 ord(2,3) len steps, of empty_view "view_after msgs empty_view"]
  have shown: "\<forall>r \<in> set rs. channel_shown cm (view_after msgs empty_view) r" using phase(5) by (simp add: empty_view_def)
  have "2 * length ord \<le> channel_left ?cm" using left2 len by simp
  from channel_steps_shown [OF a(1) this steps ord(2), of empty_view]
  have "dom (vw_channels (view_after msgs empty_view)) = (\<lambda>r. the (get_mumble_id cm (r_id r))) ` set rs"
    by (simp add: ord(3) empty_view_def)
  also have "\<dots> = {c. \<exists>r \<in> set rs. get_mumble_id cm (r_id r) = Some c}"
    using shown by (force simp: channel_shown_def)
  finally have dom: "dom (vw_channels (view_after msgs empty_view)) = {c. \<exists>r \<in> set rs. get_mumble_id cm (r_id r) = Some c}" .
  have "list_ex (\<lambda>r. r_id r = ROOT_ROOM_UUID) ?all" using root by (force simp: list_ex_iff)
  then have "build_channel_states fuel st = Some (ms, st\<lparr>bs_channels := cm\<rparr>)"
    by (simp add: build_channel_states_def Let_def list)
  moreover have "keeps_numbers ?cm cm" using phase(3) by (simp add: empty_view_def)
  moreover from this have "r_id ` set ?all \<subseteq> dom (get_mumble_id cm)"
    using a(4) keeps_numbersD [of ?cm cm] unfolding dom_def by blast
  ultimately show thesis using phase(1,6) a(3) shown dom
    by (intro that [of ms cm]) (auto simp: ms(2) empty_view_def rs_def intro: keeps_numbers_trans)
qed

text \<open>The user list: one entry per session.\<close>

lemma rumble_user_state_iff:
  "m \<in> set (rumble_user_state st u) \<longleftrightarrow> Some (u_user_id u) \<noteq> bs_bridge_user_id st \<and>
     (\<exists>s. get_mumble_session (bs_users st) (u_user_id u) = Some s \<and>
       m = user_state_default\<lparr>us_session := Some s, us_name := Some (u_username u),
         us_channel_id := get_mumble_id (bs_channels st) (u_current_room u),
         us_self_mute := Some (u_is_muted u), us_self_deaf := Some (u_is_deafened u)\<rparr>)"
  by (cases "get_mumble_session (bs_users st) (u_user_id u)") (auto simp: rumble_user_state_def)

lemma rumble_user_sessions:
  assumes "user_ok (bs_users st)" "distinct (map u_user_id us)"
  shows "distinct (map us_session (concat (map (rumble_user_state st) us)))"
    and "Some s \<in> us_session ` set (concat (map (rumble_user_state st) us)) \<Longrightarrow>
      \<exists>u \<in> set us. get_mumble_session (bs_users st) (u_user_id u) = Some s"
    and "None \<notin> us_session ` set (concat (map (rumble_user_state st) us))"
proof -
  show *: "\<exists>u \<in> set us. get_mumble_session (bs_users st) (u_user_id u) = Some s"
    if "Some s \<in> us_session ` set (concat (map (rumble_user_state st) us))" for s us
    using that by (fastforce simp: rumble_user_state_iff user_state_default_def)
  show none: "None \<notin> us_session ` set (concat (map (rumble_user_state st) us))" for us
    by (auto simp: rumble_user_state_iff user_state_default_def)
  show "distinct (map us_session (concat (map (rumble_user_state st) us)))"
    using assms(2)
  proof (induction us)
    case (Cons u us)
    have "set (map us_session (rumble_user_state st u)) \<inter> us_session ` set (concat (map (rumble_user_state st) us)) = {}"
    proof (rule ccontr)
      assume "\<not> ?thesis"
      then obtain x where x: "x \<in> us_session ` set (rumble_user_state st u)"
        "x \<in> us_session ` set (concat (map (rumble_user_state st) us))" by (auto simp del: set_concat)
      with none [of us] obtain s where "x = Some s" by (cases x) (auto simp del: set_concat)
      note s = x [unfolded this]
      from s(1) have "get_mumble_session (bs_users st) (u_user_id u) = Some s"
        by (auto simp: rumble_user_state_iff user_state_default_def)
      with * [OF s(2)] users.number_inject [OF assms(1)] Cons.prems show False by (metis distinct.simps(2) imageI list.set_map list.simps(9))
    qed
    moreover have "distinct (map us_session (rumble_user_state st u))" by (simp add: rumble_user_state_def split: option.splits)
    ultimately show ?case using Cons by (simp del: set_concat)
  qed simp
qed

lemma build_user_states_sessions:
  assumes ok: "sync_base st"
  shows "distinct (map us_session (build_user_states st session))"
    and "Some session \<in> us_session ` set (build_user_states st session) \<Longrightarrow> 100000 \<le> session"
    and "Some s \<in> us_session ` set (build_user_states st session) \<Longrightarrow> s < 100000 \<or> get_rumble_id (bs_users st) s \<noteq> None"
proof -
  let ?rs = "concat (map (rumble_user_state st) (bs_rumble_users st))"
  let ?cs = "filter (\<lambda>c. mc_session c \<noteq> session) (map snd (bs_mumble_clients st))"
  have uok: "user_ok (bs_users st)" and d: "distinct (map u_user_id (bs_rumble_users st))"
    and dm: "dm_ok (bs_mumble_clients st)" and cl: "\<And>s c. (s, c) \<in> set (bs_mumble_clients st) \<Longrightarrow> mc_session c = s \<and> s < 100000"
    using ok by (auto simp: sync_base_def)
  note rs = rumble_user_sessions [OF uok d]
  have high: "100000 \<le> s \<and> get_rumble_id (bs_users st) s \<noteq> None" if "Some s \<in> us_session ` set ?rs" for s
  proof -
    from rs(2) [OF that] obtain i where i: "get_mumble_session (bs_users st) i = Some s" by blast
    then have "get_rumble_id (bs_users st) s = Some i" by (simp add: users.two_way [OF uok])
    with user_ok_bound [OF uok, of i s] i show ?thesis by (simp add: get_mumble_session_def)
  qed
  have cs: "map us_session (map client_user_state ?cs) = map (Some \<circ> mc_session) ?cs"
    by (simp add: client_user_state_def user_state_default_def)
  have low: "s < 100000 \<and> s \<noteq> session" if "Some s \<in> set (map us_session (map client_user_state ?cs))" for s
    using that unfolding cs by (auto dest: cl)
  have "map mc_session (map snd (bs_mumble_clients st)) = map fst (bs_mumble_clients st)" using cl by auto
  then have "distinct (map mc_session ?cs)" using dm by (metis distinct_map_filter dm_ok_def)
  then have dcs: "distinct (map us_session (map client_user_state ?cs))"
    unfolding cs by (simp add: distinct_map inj_on_def)
  have "set (map us_session ?rs) \<inter> set (map us_session (map client_user_state ?cs)) = {}"
  proof (rule ccontr)
    assume "\<not> ?thesis"
    then obtain x where x: "x \<in> us_session ` set ?rs" "x \<in> set (map us_session (map client_user_state ?cs))" by auto
    with rs(3) obtain s where "x = Some s" by (cases x) auto
    with x high [of s] low [of s] show False by (simp add: not_less [symmetric])
  qed
  then show "distinct (map us_session (build_user_states st session))"
    using rs(1) dcs by (simp add: build_user_states_def del: set_concat map_map)
  have split: "us_session ` set (build_user_states st session) = us_session ` set ?rs \<union> set (map us_session (map client_user_state ?cs))"
    by (simp add: build_user_states_def image_Un image_image del: set_concat)
  show "100000 \<le> session" if "Some session \<in> us_session ` set (build_user_states st session)"
    using that high [of session] low [of session] unfolding split by blast
  show "s < 100000 \<or> get_rumble_id (bs_users st) s \<noteq> None" if "Some s \<in> us_session ` set (build_user_states st session)"
    using that high [of s] low [of s] unfolding split by blast
qed

section \<open>The initial synchronisation\<close>

definition client_entry :: "mumble_client \<Rightarrow> user_view" where
  "client_entry c = \<lparr>uv_name = Some (mc_username c), uv_channel = Some (mc_channel_id c), uv_mute = Some (mc_is_muted c),
     uv_deaf = Some (mc_is_deafened c)\<rparr>"

definition own_entry :: "mumble_client \<Rightarrow> user_view" where
  "own_entry c = \<lparr>uv_name = Some (mc_username c), uv_channel = Some (mc_channel_id c), uv_mute = None, uv_deaf = None\<rparr>"

text \<open>The view of a client after its initial synchronisation.\<close>

lemma received_initial_sync:
  "received tx (map (\<lambda>(t, m). (tx, protobuf t m)) (initial_sync_messages cf session c chs us welcome)) =
     map SyncChannelState chs @ map SyncUserState (us @ [user_state_default\<lparr>us_session := Some session,
       us_name := Some (mc_username c), us_channel_id := Some (mc_channel_id c)\<rparr>])"
proof -
  have chs: "received tx (map (\<lambda>ch. (tx, protobuf MtChannelState (MsgChannelState ch))) chs) = map SyncChannelState chs" for chs
    by (induction chs) (simp_all add: protobuf_def)
  have us: "received tx (map (\<lambda>us. (tx, protobuf MtUserState (MsgUserState us))) us) = map SyncUserState us" for us
    by (induction us) (simp_all add: protobuf_def)
  show ?thesis
    by (simp add: initial_sync_messages_def Let_def comp_def chs us) (simp add: protobuf_def)
qed

lemma user_list_shown:
  assumes ok: "sync_base st" and own: "dm_get (bs_mumble_clients st) session = Some c"
    and rooms: "r_id ` set (bs_rumble_rooms st) \<subseteq> dom (get_mumble_id (bs_channels st))"
    and empty: "vw_users v = Map.empty"
    and v': "v' = view_after (map SyncUserState (build_user_states st session @ [user_state_default\<lparr>us_session := Some session,
       us_name := Some (mc_username c), us_channel_id := Some (mc_channel_id c)\<rparr>])) v"
  shows "vw_channels v' = vw_channels v"
    and "\<forall>u \<in> set (placed_users st). get_mumble_session (bs_users st) (u_user_id u) \<noteq> None \<longrightarrow>
      user_shown (bs_channels st) (bs_users st) v' u"
    and "\<forall>(s, c') \<in> set (bs_mumble_clients st). s \<noteq> session \<longrightarrow> vw_users v' s = Some (client_entry c')"
    and "vw_users v' session = Some (own_entry c)"
    and "\<forall>s \<in> dom (vw_users v'). s < 100000 \<or> get_rumble_id (bs_users st) s \<noteq> None"
proof -
  let ?own = "user_state_default\<lparr>us_session := Some session, us_name := Some (mc_username c), us_channel_id := Some (mc_channel_id c)\<rparr>"
  let ?ms = "build_user_states st session @ [?own]"
  have session: "session < 100000" using own ok by (auto simp: sync_base_def dest!: map_of_SomeD)
  note sess = build_user_states_sessions [OF ok, where session = session]
  have own_session: "us_session ?own = Some session" by (simp add: user_state_default_def)
  have d: "distinct (map us_session ?ms)"
    using sess(1,2) session own_session by (auto simp: not_less [symmetric] image_iff)
  note view = view_user_states [OF d, where v = v, folded v']
  have entry: "vw_users v' s = Some (overlay_user m None)" if "m \<in> set ?ms" "us_session m = Some s" for m s
    using view(2) [OF that] by (simp add: empty)
  show "vw_channels v' = vw_channels v" by (rule view(1))
  show "vw_users v' session = Some (own_entry c)"
    using entry [of ?own session] by (simp add: own_session overlay_user_def own_entry_def user_state_default_def)
  show "\<forall>(s, c') \<in> set (bs_mumble_clients st). s \<noteq> session \<longrightarrow> vw_users v' s = Some (client_entry c')"
  proof clarify
    fix s c' assume c': "(s, c') \<in> set (bs_mumble_clients st)" "s \<noteq> session"
    then have "mc_session c' = s" using ok by (auto simp: sync_base_def)
    with c' have "client_user_state c' \<in> set ?ms" by (force simp: build_user_states_def)
    from entry [OF this, of s] \<open>mc_session c' = s\<close> show "vw_users v' s = Some (client_entry c')"
      by (simp add: client_user_state_def overlay_user_def client_entry_def user_state_default_def)
  qed
  show "\<forall>u \<in> set (placed_users st). get_mumble_session (bs_users st) (u_user_id u) \<noteq> None \<longrightarrow>
      user_shown (bs_channels st) (bs_users st) v' u"
  proof (intro ballI impI)
    fix u assume u': "u \<in> set (placed_users st)" and u2: "get_mumble_session (bs_users st) (u_user_id u) \<noteq> None"
    from u2 obtain s where s: "get_mumble_session (bs_users st) (u_user_id u) = Some s" by auto
    have u: "u \<in> set (bs_rumble_users st)" "u_current_room u \<in> r_id ` set (bs_rumble_rooms st)"
      using u' by (simp_all add: placed_users_def)
    from u(2) rooms obtain ch where ch: "get_mumble_id (bs_channels st) (u_current_room u) = Some ch" by blast
    let ?m = "user_state_default\<lparr>us_session := Some s, us_name := Some (u_username u), us_channel_id := Some ch,
      us_self_mute := Some (u_is_muted u), us_self_deaf := Some (u_is_deafened u)\<rparr>"
    have "Some (u_user_id u) \<noteq> bs_bridge_user_id st" using ok s by (auto simp: sync_base_def)
    then have "?m \<in> set (rumble_user_state st u)" using s ch by (simp add: rumble_user_state_iff)
    then have "?m \<in> set ?ms" using u(1) by (auto simp: build_user_states_def)
    from entry [OF this, of s] show "user_shown (bs_channels st) (bs_users st) v' u"
      by (simp add: user_shown_def s ch overlay_user_def user_state_default_def)
  qed
  show "\<forall>s \<in> dom (vw_users v'). s < 100000 \<or> get_rumble_id (bs_users st) s \<noteq> None"
  proof
    fix s assume "s \<in> dom (vw_users v')"
    then have "Some s \<in> us_session ` set ?ms" using view(3) [of s] empty by (cases "Some s \<in> us_session ` set ?ms") auto
    then have "Some s \<in> us_session ` set (build_user_states st session) \<or> s = session" using own_session by auto
    then show "s < 100000 \<or> get_rumble_id (bs_users st) s \<noteq> None" using sess(3) [of s] session by blast
  qed
qed

lemma initial_sync_view:
  assumes ok: "sync_base (bw_state w)" and left: "3 * length (bs_rumble_rooms (bw_state w)) < channel_left (bs_channels (bw_state w))"
    and fuel: "length (bs_rumble_rooms (bw_state w)) \<le> fuel"
    and own: "dm_get (clients w) session = Some c" and new: "received tx (bw_out w) = []"
  shows "\<exists>w' cm. on_client_sender cf fuel session tx w = Some w' \<and> bw_state w' = (bw_state w)\<lparr>bs_channels := cm\<rparr> \<and>
    channel_ok cm \<and> keeps_numbers (bs_channels (bw_state w)) cm \<and> senders w' = dm_insert session tx (senders w) \<and>
    bridge_shows (attached_rooms (bs_rumble_rooms (bw_state w))) (placed_users (bw_state w)) cm (bs_users (bw_state w))
      (shown_view tx w') \<and>
    dom (vw_channels (shown_view tx w')) =
      {c. \<exists>r \<in> set (attached_rooms (bs_rumble_rooms (bw_state w))). get_mumble_id cm (r_id r) = Some c} \<and>
    (\<forall>(s, c') \<in> set (clients w). s \<noteq> session \<longrightarrow> vw_users (shown_view tx w') s = Some (client_entry c')) \<and>
    vw_users (shown_view tx w') session = Some (own_entry c) \<and>
    (\<forall>t. t \<noteq> tx \<longrightarrow> received t (bw_out w') = received t (bw_out w))"
proof -
  let ?st = "bw_state w"
  obtain cm chs where b: "build_channel_states fuel ?st = Some (chs, ?st\<lparr>bs_channels := cm\<rparr>)" "channel_ok cm"
    "keeps_numbers (bs_channels ?st) cm" "r_id ` set (bs_rumble_rooms ?st) \<subseteq> dom (get_mumble_id cm)"
    "\<forall>r \<in> set (attached_rooms (bs_rumble_rooms ?st)). channel_shown cm (view_after (map SyncChannelState chs) empty_view) r"
    "vw_users (view_after (map SyncChannelState chs) empty_view) = Map.empty"
    "dom (vw_channels (view_after (map SyncChannelState chs) empty_view)) =
       {c. \<exists>r \<in> set (attached_rooms (bs_rumble_rooms ?st)). get_mumble_id cm (r_id r) = Some c}"
    by (rule build_channel_states_shown [OF ok left fuel])
  let ?st' = "?st\<lparr>bs_channels := cm\<rparr>" and ?v = "view_after (map SyncChannelState chs) empty_view"
  let ?us = "build_user_states ?st' session"
  let ?ms = "map (\<lambda>(t, m). (tx, protobuf t m)) (initial_sync_messages cf session c chs ?us (bs_welcome_message ?st))"
  define w' where "w' = on_loop (\<lambda>l. l\<lparr>ls_client_senders := dm_insert session tx (ls_client_senders l)\<rparr>) (tell ?ms (w\<lparr>bw_state := ?st'\<rparr>))"
  have run: "on_client_sender cf fuel session tx w = Some w'"
    by (simp add: on_client_sender_def send_initial_sync_def b(1) own Let_def w'_def)
  have ok': "sync_base ?st'" using ok b(2) by (simp add: sync_base_def)
  have view: "shown_view tx w' = view_after (map SyncUserState (?us @ [user_state_default\<lparr>us_session := Some session,
       us_name := Some (mc_username c), us_channel_id := Some (mc_channel_id c)\<rparr>])) ?v"
    by (simp add: shown_view_def w'_def new received_initial_sync)
  note users = user_list_shown [of ?st' session c ?v, OF ok' _ _ b(6) view]
  have own': "dm_get (bs_mumble_clients ?st') session = Some c"
    and rooms: "r_id ` set (bs_rumble_rooms ?st') \<subseteq> dom (get_mumble_id (bs_channels ?st'))" using own b(4) by simp_all
  note u = users [OF own' rooms]
  have "bridge_shows (attached_rooms (bs_rumble_rooms ?st)) (placed_users ?st) cm (bs_users ?st) (shown_view tx w')"
    unfolding bridge_shows_def
  proof (intro conjI)
    show "\<forall>r \<in> set (attached_rooms (bs_rumble_rooms ?st)). channel_shown cm (shown_view tx w') r"
      using b(5) by (simp add: channel_shown_def u(1))
    show "\<forall>x \<in> set (placed_users ?st). get_mumble_session (bs_users ?st) (u_user_id x) \<noteq> None \<longrightarrow>
        user_shown cm (bs_users ?st) (shown_view tx w') x" using u(2) by (simp add: placed_users_def)
    show "\<forall>c \<in> dom (vw_channels (shown_view tx w')). get_rumble_uuid cm c \<noteq> None"
      using b(7) channels.two_way [OF b(2)] by (fastforce simp: u(1))
    show "\<forall>s \<in> dom (vw_users (shown_view tx w')). s < 100000 \<or> get_rumble_id (bs_users ?st) s \<noteq> None" using u(5) by simp
  qed
  moreover have "received t (bw_out w') = received t (bw_out w)" if "t \<noteq> tx" for t
  proof -
    have "received t (map (\<lambda>(ty, m). (tx, protobuf ty m)) l) = []" for l using that by (induction l) auto
    then show ?thesis by (simp add: w'_def)
  qed
  moreover have "dom (vw_channels (shown_view tx w')) =
      {c. \<exists>r \<in> set (attached_rooms (bs_rumble_rooms ?st)). get_mumble_id cm (r_id r) = Some c}" using b(7) by (simp add: u(1))
  ultimately show ?thesis using u(3,4) run b(2,3) by (intro exI [of _ w'] exI [of _ cm] conjI) (simp_all add: w'_def)
qed

section \<open>Full states\<close>

abbreviation new_rooms_of :: "server_state_msg \<Rightarrow> room list" where
  "new_rooms_of ss \<equiv> List.map_filter room_from_proto (ss_rooms ss)"

abbreviation new_users_of :: "server_state_msg \<Rightarrow> user list" where
  "new_users_of ss \<equiv> List.map_filter user_from_proto (ss_users ss)"

lemma on_server_state_result:
  assumes "reconcilable (new_rooms_of ss) (new_users_of ss) (bs_channels (bw_state w)) (bs_users (bw_state w))"
    and "length (new_rooms_of ss) \<le> fuel"
  obtains out cm um w1 where
    "reconcile_server_state fuel (bs_rumble_rooms (bw_state w)) (bs_rumble_users (bw_state w)) (new_rooms_of ss)
       (new_users_of ss) (bs_channels (bw_state w)) (bs_users (bw_state w)) (bridge_skip_rules (bw_state w)) = Some (out, cm, um)"
    "on_server_state fuel ss w = Some (fold sync_broadcast (ro_messages out) w1)"
    "bw_state w1 = (bw_state w)\<lparr>bs_channels := cm, bs_users := um, bs_rumble_rooms := new_rooms_of ss, bs_rumble_users := new_users_of ss\<rparr>"
    "senders w1 = senders w" "bw_out w1 = bw_out w"
proof -
  obtain out cm um where r: "reconcile_server_state fuel (bs_rumble_rooms (bw_state w)) (bs_rumble_users (bw_state w)) (new_rooms_of ss)
       (new_users_of ss) (bs_channels (bw_state w)) (bs_users (bw_state w)) (bridge_skip_rules (bw_state w)) = Some (out, cm, um)"
    by (rule reconcile_phases [OF assms, of "bs_rumble_rooms (bw_state w)" "bs_rumble_users (bw_state w)" "bridge_skip_rules (bw_state w)"]) blast
  let ?w = "on_loop (\<lambda>l. l\<lparr>ls_rumble_outbound_seq := fold dm_remove (ro_removed_user_ids out) (ls_rumble_outbound_seq l)\<rparr>)
    (w\<lparr>bw_state := (bw_state w)\<lparr>bs_channels := cm, bs_users := um, bs_rumble_rooms := new_rooms_of ss, bs_rumble_users := new_users_of ss\<rparr>\<rparr>)"
  show thesis by (rule that [OF r, of ?w]) (simp_all add: on_server_state_def Let_def r)
qed

text \<open>C21: A full state of the server brings every Mumble client up to date, but for cleared
  descriptions. The snapshot, whose rooms form a tree with all users in them, becomes the bridge's
  cached state, and every connected client that was in step with the old cached state shows exactly
  the rooms of the new one, by name, parent and description, and of the users exactly those that
  are not to be hidden, whatever was missed in between. A room without a description is shown with
  whatever description the client showed before: a description that was cleared is not taken back.\<close>

theorem full_state_reaches_clients:
  assumes "reconcilable (new_rooms_of ss) (new_users_of ss) (bs_channels (bw_state w)) (bs_users (bw_state w))"
    and "length (new_rooms_of ss) \<le> fuel" and "distinct (map snd (senders w))"
  shows "\<exists>w'. on_server_state fuel ss w = Some w' \<and> bs_rumble_rooms (bw_state w') = new_rooms_of ss \<and>
    bs_rumble_users (bw_state w') = new_users_of ss \<and>
    (\<forall>tx \<in> snd ` set (senders w).
       bridge_shows (bs_rumble_rooms (bw_state w)) (bs_rumble_users (bw_state w)) (bs_channels (bw_state w)) (bs_users (bw_state w)) (shown_view tx w) \<longrightarrow>
       exactly_shows (new_rooms_of ss) (visible_users (bridge_skip_rules (bw_state w)) (new_users_of ss))
         (bs_channels (bw_state w')) (bs_users (bw_state w')) (shown_view tx w') \<and>
       (\<forall>r \<in> set (new_rooms_of ss). \<forall>c. r_description r = None \<longrightarrow> get_mumble_id (bs_channels (bw_state w')) (r_id r) = Some c \<longrightarrow>
          description_at (shown_view tx w') c = description_at (shown_view tx w) c))"
proof -
  obtain out cm um w1 where r: "reconcile_server_state fuel (bs_rumble_rooms (bw_state w)) (bs_rumble_users (bw_state w)) (new_rooms_of ss)
       (new_users_of ss) (bs_channels (bw_state w)) (bs_users (bw_state w)) (bridge_skip_rules (bw_state w)) = Some (out, cm, um)"
    and run: "on_server_state fuel ss w = Some (fold sync_broadcast (ro_messages out) w1)"
    and w1: "bw_state w1 = (bw_state w)\<lparr>bs_channels := cm, bs_users := um, bs_rumble_rooms := new_rooms_of ss, bs_rumble_users := new_users_of ss\<rparr>"
      "senders w1 = senders w" "bw_out w1 = bw_out w"
    by (rule on_server_state_result [OF assms(1,2)])
  let ?w = "fold sync_broadcast (ro_messages out) w1"
  have st: "bw_state (fold sync_broadcast ms w1) = bw_state w1" for ms by (induction ms arbitrary: w1) simp_all
  have "exactly_shows (new_rooms_of ss) (visible_users (bridge_skip_rules (bw_state w)) (new_users_of ss)) cm um (shown_view tx ?w) \<and>
      (\<forall>r \<in> set (new_rooms_of ss). \<forall>c. r_description r = None \<longrightarrow> get_mumble_id cm (r_id r) = Some c \<longrightarrow>
         description_at (shown_view tx ?w) c = description_at (shown_view tx w) c)"
    if tx: "tx \<in> snd ` set (senders w)"
      and shown: "bridge_shows (bs_rumble_rooms (bw_state w)) (bs_rumble_users (bw_state w)) (bs_channels (bw_state w)) (bs_users (bw_state w)) (shown_view tx w)" for tx
  proof -
    have "shown_view tx ?w = view_after (ro_messages out) (shown_view tx w1)"
      using shown_view_syncs [of w1 tx] assms(3) tx by (simp add: w1(2))
    moreover have "shown_view tx w1 = shown_view tx w" by (simp add: shown_view_def w1(3))
    ultimately show ?thesis using reconcile_exact [OF assms(1,2) shown, of "bridge_skip_rules (bw_state w)"]
      reconcile_description [OF assms(1,2) shown r] by (simp add: r)
  qed
  then show ?thesis using run st w1(1) by auto
qed

lemma proto_rooms: "List.map_filter room_from_proto (map room_to_proto rs) = rs"
  by (induction rs) (simp_all add: map_filter_simps room_roundtrip)

lemma proto_users: "List.map_filter user_from_proto (map user_to_proto us) = us"
  by (induction us) (simp_all add: map_filter_simps user_roundtrip)

definition fresh_bridge :: bridge_world where
  "fresh_bridge = \<lparr>bw_state = bridge_state_new, bw_loop = bridge_loop_state_new\<lparr>ls_client_senders := [(1000, 0)]\<rparr>, bw_out = [], bw_rumble = []\<rparr>"

definition sample_snapshot :: server_state_msg where
  "sample_snapshot = \<lparr>ss_rooms = map room_to_proto sample_channels, ss_users = map user_to_proto [sample_user 1 ''alice'' 5],
     ss_groups = [], ss_slash_commands = []\<rparr>"

theorem full_state_reaches_clients_witness:
  "\<exists>w'. on_server_state 3 sample_snapshot fresh_bridge = Some w' \<and>
     exactly_shows sample_channels (visible_users no_skips [sample_user 1 ''alice'' 5]) (bs_channels (bw_state w')) (bs_users (bw_state w'))
       (shown_view 0 w')"
proof -
  have snap: "new_rooms_of sample_snapshot = sample_channels" "new_users_of sample_snapshot = [sample_user 1 ''alice'' 5]"
    unfolding sample_snapshot_def server_state_msg.select_convs proto_rooms proto_users by (rule refl)+
  have maps: "bs_channels (bw_state fresh_bridge) = channel_map_new" "bs_users (bw_state fresh_bridge) = user_map_new"
    "bridge_skip_rules (bw_state fresh_bridge) = no_skips" "bs_rumble_rooms (bw_state fresh_bridge) = []"
    "bs_rumble_users (bw_state fresh_bridge) = []" "senders fresh_bridge = [(1000, 0)]" "shown_view 0 fresh_bridge = empty_view"
    by (simp_all add: fresh_bridge_def bridge_state_new_def bridge_loop_state_new_def bridge_skip_rules_def no_skips_def shown_view_def)
  show ?thesis
    using full_state_reaches_clients [of sample_snapshot fresh_bridge 3] sample_reconcilable
    by (auto simp: snap maps length_sample_channels bridge_shows_def empty_view_def)
qed

text \<open>C22: A client that joins is shown the cached state of the bridge, as far as it hangs together. Let
  the bridge's tables be proper and the cached rooms distinct, the root among them. The initial
  synchronisation ends, and the messages the client is sent make it show exactly those cached rooms
  from which the root is reached along cached parents, every announced user in a cached room, each
  other Mumble client with its channel and marks, and itself; nobody else is sent anything; and it is
  registered for updates. A cached room that has lost its way to the root is not shown, which
  happens when a room with children is deleted; when the rooms form a tree and all users are in
  them, the client shows every cached room and is in step with the cached state.\<close>

theorem initial_sync_shows:
  assumes "sync_base (bw_state w)" and "3 * length (bs_rumble_rooms (bw_state w)) < channel_left (bs_channels (bw_state w))"
    and "length (bs_rumble_rooms (bw_state w)) \<le> fuel"
    and "dm_get (clients w) session = Some c" and "received tx (bw_out w) = []"
  shows "\<exists>w'. on_client_sender cf fuel session tx w = Some w' \<and> dm_get (senders w') session = Some tx \<and>
    bridge_shows (attached_rooms (bs_rumble_rooms (bw_state w'))) (placed_users (bw_state w')) (bs_channels (bw_state w'))
      (bs_users (bw_state w')) (shown_view tx w') \<and>
    dom (vw_channels (shown_view tx w')) =
      {ch. \<exists>r \<in> set (attached_rooms (bs_rumble_rooms (bw_state w'))). get_mumble_id (bs_channels (bw_state w')) (r_id r) = Some ch} \<and>
    (\<forall>(s, c') \<in> set (clients w). s \<noteq> session \<longrightarrow> vw_users (shown_view tx w') s = Some (client_entry c')) \<and>
    vw_users (shown_view tx w') session = Some (own_entry c) \<and>
    (\<forall>t. t \<noteq> tx \<longrightarrow> received t (bw_out w') = received t (bw_out w)) \<and>
    (sync_ok (bw_state w) \<longrightarrow> bridge_shows (bs_rumble_rooms (bw_state w')) (bs_rumble_users (bw_state w')) (bs_channels (bw_state w'))
      (bs_users (bw_state w')) (shown_view tx w'))"
proof -
  obtain w' cm where w': "on_client_sender cf fuel session tx w = Some w'"
    "bw_state w' = (bw_state w)\<lparr>bs_channels := cm\<rparr>" "senders w' = dm_insert session tx (senders w)"
    "bridge_shows (attached_rooms (bs_rumble_rooms (bw_state w))) (placed_users (bw_state w)) cm (bs_users (bw_state w)) (shown_view tx w')"
    "dom (vw_channels (shown_view tx w')) =
       {c. \<exists>r \<in> set (attached_rooms (bs_rumble_rooms (bw_state w))). get_mumble_id cm (r_id r) = Some c}"
    "\<forall>(s, c') \<in> set (clients w). s \<noteq> session \<longrightarrow> vw_users (shown_view tx w') s = Some (client_entry c')"
    "vw_users (shown_view tx w') session = Some (own_entry c)"
    "\<forall>t. t \<noteq> tx \<longrightarrow> received t (bw_out w') = received t (bw_out w)"
    using initial_sync_view [OF assms, of cf] by blast
  moreover have "placed_users (bw_state w') = placed_users (bw_state w)" by (simp add: w'(2) placed_users_def)
  moreover have "sync_ok (bw_state w) \<longrightarrow> bridge_shows (bs_rumble_rooms (bw_state w)) (bs_rumble_users (bw_state w)) cm
      (bs_users (bw_state w)) (shown_view tx w')"
    using w'(4) sync_ok_whole [of "bw_state w"] by metis
  ultimately show ?thesis by (intro exI [of _ w'] conjI) (simp_all add: dm_get_insert)
qed

text \<open>A bridge with one client that was just synchronised to the root room.\<close>

definition rooted_bridge :: bridge_world where
  "rooted_bridge =
     \<lparr>bw_state = bridge_state_new\<lparr>bs_mumble_clients := [(1000, sample_mumble_client 1000 ''ann'' False)], bs_next_mumble_session := 1001,
        bs_rumble_rooms := lone_root\<rparr>, bw_loop = bridge_loop_state_new, bw_out = [], bw_rumble = []\<rparr>"

lemma lone_root_tree: "room_tree_ok lone_root"
  using lone_root_reconcilable by (simp add: reconcilable_def)

lemma rooted_bridge_ok:
  "sync_ok (bw_state rooted_bridge)" "dm_get (clients rooted_bridge) 1000 = Some (sample_mumble_client 1000 ''ann'' False)"
  "length (bs_rumble_rooms (bw_state rooted_bridge)) = 1" "channel_left (bs_channels (bw_state rooted_bridge)) = 2 ^ 32 - 2"
  "senders rooted_bridge = []" "bw_out rooted_bridge = []"
  using lone_root_tree
  by (simp_all add: sync_ok_def sync_base_def rooted_bridge_def ROOT_ROOM_UUID_def bridge_state_new_def
      bridge_loop_state_new_def sample_mumble_client_def dm_ok_def lone_root_def) (simp add: sample_channel_def)

theorem initial_sync_shows_witness:
  "\<exists>w'. on_client_sender sample_config 1 1000 0 rooted_bridge = Some w' \<and>
     vw_users (shown_view 0 w') 1000 = Some (own_entry (sample_mumble_client 1000 ''ann'' False))"
  using initial_sync_shows [OF rooted_bridge_ok(1) [unfolded sync_ok_def, THEN conjunct1] _ _ rooted_bridge_ok(2), of 1 0 sample_config]
  by (auto simp: rooted_bridge_ok(3-6))

text \<open>C26: A rename does not stay. A client that is connected when a room is renamed shows the new name,
  but the bridge's cached room keeps the old one: a client that joins afterwards is shown the old name,
  and when a later full state carries the old name again nothing is sent, so that the first client keeps
  a name the server no longer knows.\<close>

theorem renamed_room_diverges:
  assumes "sync_ok (bw_state w)" and "3 * length (bs_rumble_rooms (bw_state w)) < channel_left (bs_channels (bw_state w))"
    and "length (bs_rumble_rooms (bw_state w)) \<le> fuel"
    and "r \<in> set (bs_rumble_rooms (bw_state w))" and "get_mumble_id (bs_channels (bw_state w)) (r_id r) = Some ch"
    and "distinct (map snd (senders w))" and "t \<in> snd ` set (senders w)"
    and "dm_get (clients w) session = Some c" and "received tx (bw_out w) = []" and "tx \<notin> snd ` set (senders w)"
    and "on_room_renamed (Some (room_id_from_uuid (r_id r))) name w = w1"
  shows "\<exists>w2 old new. on_client_sender cf fuel session tx w1 = Some w2 \<and>
      vw_channels (shown_view t w2) ch = Some old \<and> cv_name old = Some name \<and>
      vw_channels (shown_view tx w2) ch = Some new \<and> cv_name new = Some (r_name r) \<and>
      \<not> room_changed (bs_rumble_rooms (bw_state w2)) r"
proof -
  let ?m = "channel_state_default\<lparr>cs_channel_id := Some ch, cs_name := Some name\<rparr>"
  have w1: "w1 = broadcast_to_all_mumble MtChannelState (MsgChannelState ?m) w"
    using assms(5,11) by (simp add: on_room_renamed_def)
  have view: "shown_view t w1 = view_apply (SyncChannelState ?m) (shown_view t w)"
    using shown_view_broadcast [OF assms(6,7)] by (simp add: w1 protobuf_def)
  have "received tx (bw_out w1) = []"
    using assms(6,9,10) by (simp add: w1 broadcast_to_all_mumble_def received_all)
  then obtain w2 cm where w2: "on_client_sender cf fuel session tx w1 = Some w2"
    "bw_state w2 = (bw_state w)\<lparr>bs_channels := cm\<rparr>" "keeps_numbers (bs_channels (bw_state w)) cm"
    "bridge_shows (attached_rooms (bs_rumble_rooms (bw_state w))) (placed_users (bw_state w)) cm (bs_users (bw_state w)) (shown_view tx w2)"
    "\<forall>t. t \<noteq> tx \<longrightarrow> received t (bw_out w2) = received t (bw_out w1)"
    using initial_sync_view [of w1 fuel session c tx cf] assms(1-3,8) by (simp add: w1 sync_ok_def) blast
  have "shown_view t w2 = shown_view t w1" using w2(5) assms(7,10) by (auto simp: shown_view_def)
  then have "vw_channels (shown_view t w2) ch = Some (overlay_channel ?m (vw_channels (shown_view t w) ch))"
    by (simp add: view channel_state_default_def)
  moreover have "cv_name (overlay_channel ?m x) = Some name" for x by (simp add: overlay_channel_def Let_def)
  moreover have "channel_shown cm (shown_view tx w2) r" using w2(4) assms(4) by (simp add: sync_ok_whole [OF assms(1)] bridge_shows_def)
  then obtain new where "vw_channels (shown_view tx w2) ch = Some new" "cv_name new = Some (r_name r)"
    using keeps_numbersD [OF w2(3) assms(5)] by (auto simp: channel_shown_def)
  moreover have "distinct (map r_id (bs_rumble_rooms (bw_state w)))" using assms(1) by (simp add: sync_ok_def room_tree_ok_def)
  then have "\<not> room_changed (bs_rumble_rooms (bw_state w2)) r"
    using assms(4) by (simp add: room_changed_def w2(2) room_by_uuid_distinct)
  ultimately show ?thesis using w2(1) by blast
qed

definition renaming_bridge :: bridge_world where
  "renaming_bridge =
     \<lparr>bw_state = bridge_state_new\<lparr>bs_mumble_clients := [(1000, sample_mumble_client 1000 ''ann'' False), (1001, sample_mumble_client 1001 ''bob'' False)],
        bs_next_mumble_session := 1002, bs_channels := lone_map, bs_rumble_rooms := lone_root\<rparr>,
      bw_loop = bridge_loop_state_new\<lparr>ls_client_senders := [(1000, 0)]\<rparr>, bw_out = [], bw_rumble = []\<rparr>"

lemma renaming_bridge_ok:
  "sync_ok (bw_state renaming_bridge)" "3 * length (bs_rumble_rooms (bw_state renaming_bridge)) < channel_left (bs_channels (bw_state renaming_bridge))"
  "length (bs_rumble_rooms (bw_state renaming_bridge)) \<le> 1"
  "sample_channel 0 ''Root'' 0 None \<in> set (bs_rumble_rooms (bw_state renaming_bridge))"
  "get_mumble_id (bs_channels (bw_state renaming_bridge)) (r_id (sample_channel 0 ''Root'' 0 None)) = Some 0"
  "distinct (map snd (senders renaming_bridge))" "0 \<in> snd ` set (senders renaming_bridge)"
  "dm_get (clients renaming_bridge) 1001 = Some (sample_mumble_client 1001 ''bob'' False)" "received 1 (bw_out renaming_bridge) = []"
  "1 \<notin> snd ` set (senders renaming_bridge)"
  using lone_root_reconcilable
  by (simp_all add: sync_ok_def sync_base_def renaming_bridge_def ROOT_ROOM_UUID_def bridge_state_new_def bridge_loop_state_new_def sample_mumble_client_def dm_ok_def lone_root_def
      lone_map_def reconcilable_def channel_left_def sample_channel_def get_mumble_id_def)

theorem renamed_room_diverges_witness:
  "\<exists>w2 old new. on_client_sender sample_config 1 1001 1 (on_room_renamed (Some (room_id_from_uuid 0)) ''Hall'' renaming_bridge) = Some w2 \<and>
      vw_channels (shown_view 0 w2) 0 = Some old \<and> cv_name old = Some ''Hall'' \<and>
      vw_channels (shown_view 1 w2) 0 = Some new \<and> cv_name new = Some ''Root''"
  using renamed_room_diverges [OF renaming_bridge_ok refl, where name = "''Hall''" and cf = sample_config]
  by (auto simp: sample_channel_def)

end
