(* ===== verification/BridgeSystem.thy ===== *)
theory BridgeSystem
  imports BridgeSync
begin

text \<open>
  The bridge as a whole: client handlers that register themselves, send events and forget
  themselves again, the Rumble connection that feeds the queue, and the loop that handles
  one event at a time, interleaved in any order. The theory proves what stays true of the
  shared state in all of these interleavings, and shows two things that go wrong.
\<close>

section \<open>The system\<close>

text \<open>
  Outbound channels are numbered in the order they are created. A handler is running until it
  sends the departure of its client, and closing until it removed the entry of its client.
\<close>

record bridge_system =
  sys_world :: bridge_world
  sys_queue :: "bridge_event list"
  sys_running :: "u32 set"
  sys_closing :: "u32 set"
  sys_next_tx :: tx

definition system_start :: bridge_system where
  "system_start =
     \<lparr>sys_world = \<lparr>bw_state = bridge_state_new, bw_loop = bridge_loop_state_new, bw_out = [], bw_rumble = []\<rparr>,
      sys_queue = [], sys_running = {}, sys_closing = {}, sys_next_tx = 0\<rparr>"

text \<open>
  What the server promises about an event: it never registers a participant under an
  identifier that is in use. And the tables have numbers left for what the event may need.
\<close>

fun event_ok :: "nat \<Rightarrow> bridge_event \<Rightarrow> bridge_state \<Rightarrow> bool" where
  "event_ok fuel (RumbleEnvelope (Some (PayParticipantRegistered user_id _))) st \<longleftrightarrow>
     dm_get (bs_reverse_virtual_user_map st) user_id = None"
| "event_ok fuel (RumbleEnvelope (Some (PayServerEvent (Some (KindServerState ss))))) st \<longleftrightarrow>
     2 * fuel + length (ss_users ss) < channel_left (bs_channels st) \<and> length (ss_users ss) \<le> user_left (bs_users st)"
| "event_ok fuel (RumbleEnvelope (Some (PayServerEvent (Some (KindStateUpdate _))))) st \<longleftrightarrow>
     2 < channel_left (bs_channels st) \<and> 1 < user_left (bs_users st)"
| "event_ok fuel (MumbleClientSender _ _) st \<longleftrightarrow>
     length (bs_rumble_rooms st) + 2 * fuel < channel_left (bs_channels st)"
| "event_ok fuel _ st \<longleftrightarrow> True"

fun from_rumble :: "bridge_event \<Rightarrow> bool" where
  "from_rumble (RumbleEnvelope _) \<longleftrightarrow> True"
| "from_rumble (RumbleVoice _) \<longleftrightarrow> True"
| "from_rumble RumbleReceiverDied \<longleftrightarrow> True"
| "from_rumble _ \<longleftrightarrow> False"

inductive bridge_system_step :: "bridge_config \<Rightarrow> bridge_env \<Rightarrow> bridge_system \<Rightarrow> bridge_system \<Rightarrow> bool" for cf e where
  connect: "mumble_auth_handshake (be_codec e) he quota msgs (bw_state (sys_world s)) = (Inr (name, session, superseded), frames, st) \<Longrightarrow>
    bs_next_mumble_session (bw_state (sys_world s)) < 0xFFFFFFFF \<Longrightarrow>
    bridge_system_step cf e s (s\<lparr>sys_world := (sys_world s)\<lparr>bw_state := st\<rparr>,
      sys_queue := sys_queue s @ client_joined_events name session superseded (sys_next_tx s),
      sys_running := insert session (sys_running s), sys_next_tx := Suc (sys_next_tx s)\<rparr>)"
| turned_away: "mumble_auth_handshake (be_codec e) he quota msgs (bw_state (sys_world s)) = (Inl err, frames, st) \<Longrightarrow>
    bs_next_mumble_session (bw_state (sys_world s)) < 0xFFFFFFFF \<Longrightarrow>
    bridge_system_step cf e s (s\<lparr>sys_world := (sys_world s)\<lparr>bw_state := st\<rparr>\<rparr>)"
| says: "session \<in> sys_running s \<Longrightarrow>
    bridge_system_step cf e s (s\<lparr>sys_queue := sys_queue s @ client_message_events (be_codec e) session msg\<rparr>)"
| hang_up: "session \<in> sys_running s \<Longrightarrow>
    bridge_system_step cf e s (s\<lparr>sys_queue := sys_queue s @ [MumbleClientLeft session],
      sys_running := sys_running s - {session}, sys_closing := insert session (sys_closing s)\<rparr>)"
| forget: "session \<in> sys_closing s \<Longrightarrow>
    bridge_system_step cf e s (s\<lparr>sys_world := on_bridge (forget_client session) (sys_world s),
      sys_closing := sys_closing s - {session}\<rparr>)"
| hears: "from_rumble ev \<Longrightarrow> bridge_system_step cf e s (s\<lparr>sys_queue := sys_queue s @ [ev]\<rparr>)"
| handles: "sys_queue s = ev # queue \<Longrightarrow> event_ok fuel ev (bw_state (sys_world s)) \<Longrightarrow>
    bridge_step cf e fuel ev (sys_world s) = Some (x, w) \<Longrightarrow>
    bridge_system_step cf e s (s\<lparr>sys_world := w, sys_queue := queue\<rparr>)"
| reconnects: "reconnect_bridge user_id rs us (sys_world s) = (w, ev) \<Longrightarrow>
    bridge_system_step cf e s (s\<lparr>sys_world := w, sys_queue := sys_queue s @ [ev]\<rparr>)"

inductive_cases bridge_system_stepE: "bridge_system_step cf e s s'"

section \<open>What stays true\<close>

text \<open>Clients under their own sessions, with distinct names, and muted when deaf.\<close>

definition clients_ok :: "bridge_state \<Rightarrow> bool" where
  "clients_ok st \<longleftrightarrow>
     dm_ok (bs_mumble_clients st) \<and> distinct (map (mc_username \<circ> snd) (bs_mumble_clients st)) \<and>
     (\<forall>(s, c) \<in> set (bs_mumble_clients st). mc_session c = s \<and> s < bs_next_mumble_session st \<and>
        (mc_is_deafened c \<longrightarrow> mc_is_muted c))"

text \<open>A registered client is found again from its participant.\<close>

definition registry_ok :: "bridge_state \<Rightarrow> bool" where
  "registry_ok st \<longleftrightarrow>
     dm_ok (bs_virtual_user_map st) \<and> dm_ok (bs_reverse_virtual_user_map st) \<and>
     (\<forall>s u. dm_get (bs_virtual_user_map st) s = Some u \<longrightarrow> dm_get (bs_reverse_virtual_user_map st) u = Some s)"

definition id_tables_ok :: "bridge_state \<Rightarrow> bool" where
  "id_tables_ok st \<longleftrightarrow> channel_ok (bs_channels st) \<and> user_ok (bs_users st)"

definition bridge_ok :: "bridge_state \<Rightarrow> bool" where
  "bridge_ok st \<longleftrightarrow> clients_ok st \<and> registry_ok st \<and> id_tables_ok st"

text \<open>Outbound channels belong to one client each, queued ones included.\<close>

definition queued_txs :: "bridge_event list \<Rightarrow> tx list" where
  "queued_txs q = List.map_filter (\<lambda>ev. case ev of MumbleClientSender _ tx \<Rightarrow> Some tx | _ \<Rightarrow> None) q"

definition channels_apart :: "bridge_system \<Rightarrow> bool" where
  "channels_apart s \<longleftrightarrow>
     dm_ok (senders (sys_world s)) \<and>
     distinct (map snd (senders (sys_world s)) @ queued_txs (sys_queue s)) \<and>
     (\<forall>tx \<in> set (map snd (senders (sys_world s)) @ queued_txs (sys_queue s)). tx < sys_next_tx s)"

section \<open>The changes of the shared state\<close>

text \<open>
  Everything that happens to the shared state is one of these changes. A change of a client
  keeps its identity and the rule that a deaf client is muted; a change of the tables keeps
  them well-formed.
\<close>

definition keeps_marks :: "(mumble_client \<Rightarrow> mumble_client) \<Rightarrow> bool" where
  "keeps_marks f \<longleftrightarrow>
     (\<forall>c. mc_session (f c) = mc_session c \<and> mc_username (f c) = mc_username c \<and>
        ((mc_is_deafened c \<longrightarrow> mc_is_muted c) \<longrightarrow> mc_is_deafened (f c) \<longrightarrow> mc_is_muted (f c)))"

inductive bridge_op :: "bridge_state \<Rightarrow> bridge_state \<Rightarrow> bool" where
  register: "register_mumble_client name st = (r, st') \<Longrightarrow> bs_next_mumble_session st < 0xFFFFFFFF \<Longrightarrow> bridge_op st st'"
| forget: "bridge_op st (forget_client session st)"
| mark: "keeps_marks f \<Longrightarrow> bridge_op st (update_client session f st)"
| release: "bridge_op st (release_session session st)"
| pend: "bridge_op st (st\<lparr>bs_pending_registrations := ps\<rparr>)"
| registered: "dm_get (bs_reverse_virtual_user_map st) u = None \<Longrightarrow>
    bridge_op st (st\<lparr>bs_pending_registrations := ps, bs_virtual_user_map := dm_insert session u (bs_virtual_user_map st),
      bs_reverse_virtual_user_map := dm_insert u session (bs_reverse_virtual_user_map st)\<rparr>)"
| reset: "bridge_op st (st\<lparr>bs_virtual_user_map := [], bs_reverse_virtual_user_map := [], bs_pending_registrations := []\<rparr>)"
| online: "bridge_op st (st\<lparr>bs_bridge_user_id := i, bs_rumble_connected := b\<rparr>)"
| greet: "bridge_op st (st\<lparr>bs_welcome_message := t\<rparr>)"
| cache: "bridge_op st (st\<lparr>bs_rumble_rooms := rs, bs_rumble_users := us\<rparr>)"
| number: "channel_ok (bs_channels st) \<longrightarrow> channel_ok cm \<Longrightarrow> user_ok (bs_users st) \<longrightarrow> user_ok um \<Longrightarrow>
    bridge_op st (st\<lparr>bs_channels := cm, bs_users := um\<rparr>)"

inductive_cases bridge_opE: "bridge_op st st'"

locale bridge_invariant =
  fixes I :: "bridge_state \<Rightarrow> bool"
  assumes op: "bridge_op st st' \<Longrightarrow> I st \<Longrightarrow> I st'"
begin

lemma ops: "bridge_op\<^sup>*\<^sup>* st st' \<Longrightarrow> I st \<Longrightarrow> I st'"
  by (induction rule: rtranclp_induct) (auto intro: op)

end

subsection \<open>Clients\<close>

lemma clients_ok_insert:
  assumes "clients_ok st" "s < bs_next_mumble_session st'" "bs_next_mumble_session st \<le> bs_next_mumble_session st'"
    and "mc_session c = s" "mc_is_deafened c \<longrightarrow> mc_is_muted c"
    and "\<forall>(k, x) \<in> set (bs_mumble_clients st). k \<noteq> s \<longrightarrow> mc_username x \<noteq> mc_username c"
    and "bs_mumble_clients st' = dm_insert s c (bs_mumble_clients st)"
  shows "clients_ok st'"
proof -
  have "distinct (map (mc_username \<circ> snd) (dm_remove s (bs_mumble_clients st)))"
    using assms(1) by (simp add: clients_ok_def dm_remove_def distinct_map_filter)
  moreover have "mc_username c \<notin> (mc_username \<circ> snd) ` set (dm_remove s (bs_mumble_clients st))"
    using assms(6) by (auto simp: dm_remove_def)
  ultimately have "distinct (map (mc_username \<circ> snd) (bs_mumble_clients st'))"
    by (simp add: assms(7) dm_insert_def dm_remove_def)
  moreover have "dm_ok (bs_mumble_clients st')" using assms(1) by (simp add: assms(7) clients_ok_def dm_ok_insert)
  ultimately show ?thesis using assms(1-5) by (fastforce simp: clients_ok_def assms(7) dm_insert_def)
qed

lemma clients_ok_remove: "clients_ok st \<Longrightarrow> clients_ok (st\<lparr>bs_mumble_clients := dm_remove s (bs_mumble_clients st)\<rparr>)"
  by (auto simp: clients_ok_def dm_ok_def dm_remove_def distinct_map_filter)

lemma clients_ok_cong:
  "bs_mumble_clients st' = bs_mumble_clients st \<Longrightarrow> bs_next_mumble_session st' = bs_next_mumble_session st \<Longrightarrow>
   clients_ok st' = clients_ok st"
  by (simp add: clients_ok_def)

lemma find_username:
  "List.find (\<lambda>c. mc_username c = name) (map snd m) = None \<longleftrightarrow> (\<forall>(k, c) \<in> set m. mc_username c \<noteq> name)"
  by (auto simp: find_None_iff)

lemma clients_ok_register:
  assumes ok: "clients_ok st" and reg: "register_mumble_client name st = (r, st')" and next_ok: "bs_next_mumble_session st < 0xFFFFFFFF"
  shows "clients_ok st'"
proof (cases "rumble_taken name st")
  case True
  with reg ok show ?thesis by (simp add: register_mumble_client_def)
next
  case False
  let ?found = "List.find (\<lambda>c. mc_username c = name) (map snd (bs_mumble_clients st))"
  define st1 where "st1 = (case map_option mc_session ?found of
     Some old \<Rightarrow> st\<lparr>bs_mumble_clients := dm_remove old (bs_mumble_clients st)\<rparr> | None \<Rightarrow> st)"
  have ok1: "clients_ok st1" and next1: "bs_next_mumble_session st1 = bs_next_mumble_session st"
    using ok clients_ok_remove by (auto simp: st1_def split: option.splits)
  have fresh: "\<forall>(k, x) \<in> set (bs_mumble_clients st1). mc_username x \<noteq> name"
  proof (cases ?found)
    case None
    then have "st1 = st" by (simp add: st1_def)
    with None show ?thesis by (simp add: find_username)
  next
    case (Some c)
    then have c: "c \<in> set (map snd (bs_mumble_clients st))" "mc_username c = name" by (auto dest: find_Some_set)
    then obtain k where k: "(k, c) \<in> set (bs_mumble_clients st)" by auto
    with ok have "mc_session c = k" by (auto simp: clients_ok_def)
    moreover have "x = c" "k' = k" if "(k', x) \<in> set (bs_mumble_clients st)" "mc_username x = name" for k' x
      using inj_onD [OF distinct_map [THEN iffD1, THEN conjunct2, of "mc_username \<circ> snd"], of "bs_mumble_clients st" "(k', x)" "(k, c)"]
        that k c(2) ok by (simp_all add: clients_ok_def)
    ultimately show ?thesis using Some by (auto simp: st1_def dm_remove_def)
  qed
  let ?s = "bs_next_mumble_session st" and ?c = "\<lparr>mc_session = bs_next_mumble_session st, mc_username = name, mc_channel_id = 0,
      mc_is_muted = False, mc_is_deafened = False\<rparr>"
  have st': "st' = st1\<lparr>bs_next_mumble_session := ?s + 1, bs_mumble_clients := dm_insert ?s ?c (bs_mumble_clients st1)\<rparr>"
    using reg [unfolded register_mumble_client_def Let_def, folded st1_def] False by (auto simp: allocate_mumble_session_def Let_def next1)
  have "unat ?s < 2 ^ 32 - 1" using next_ok by (simp add: word_less_nat_alt)
  then have "?s < ?s + 1" "?s \<le> ?s + 1" using less_succ [of ?s] by (simp_all add: order_less_imp_le)
  then show ?thesis
    by (intro clients_ok_insert [OF ok1, of ?s st' ?c]) (use fresh in \<open>auto simp: st' next1\<close>)
qed

lemma clients_ok_mark:
  assumes "clients_ok st" "keeps_marks f"
  shows "clients_ok (update_client session f st)"
proof (cases "dm_get (bs_mumble_clients st) session")
  case (Some c)
  then have c: "(session, c) \<in> set (bs_mumble_clients st)" by (rule map_of_SomeD)
  have "\<forall>(k, x) \<in> set (bs_mumble_clients st). k \<noteq> session \<longrightarrow> mc_username x \<noteq> mc_username c"
    using inj_onD [OF distinct_map [THEN iffD1, THEN conjunct2, of "mc_username \<circ> snd" "bs_mumble_clients st"], of _ "(session, c)"]
      c assms(1) by (auto simp: clients_ok_def)
  with c assms show ?thesis
    by (intro clients_ok_insert [OF assms(1), of session _ "f c"]) (auto simp: update_client_def Some keeps_marks_def clients_ok_def)
qed (simp add: update_client_def assms(1))

interpretation cl: bridge_invariant clients_ok
proof
  fix st st' assume "bridge_op st st'" "clients_ok st"
  then show "clients_ok st'"
    by (cases rule: bridge_op.cases)
      (auto simp: clients_ok_register clients_ok_mark forget_client_def clients_ok_remove release_session_def Let_def
        cong: clients_ok_cong split: option.splits)
qed

subsection \<open>Participants\<close>

lemma registry_ok_release: "registry_ok st \<Longrightarrow> registry_ok (release_session session st)"
  by (cases "dm_get (bs_virtual_user_map st) session")
    (auto simp: registry_ok_def release_session_def Let_def dm_ok_remove dm_get_remove, metis option.inject)

lemma registry_ok_registered:
  "registry_ok st \<Longrightarrow> dm_get (bs_reverse_virtual_user_map st) u = None \<Longrightarrow>
   registry_ok (st\<lparr>bs_pending_registrations := ps, bs_virtual_user_map := dm_insert session u (bs_virtual_user_map st),
      bs_reverse_virtual_user_map := dm_insert u session (bs_reverse_virtual_user_map st)\<rparr>)"
  by (auto simp: registry_ok_def dm_ok_insert dm_get_insert)

lemma registry_ok_cong:
  "bs_virtual_user_map st' = bs_virtual_user_map st \<Longrightarrow> bs_reverse_virtual_user_map st' = bs_reverse_virtual_user_map st \<Longrightarrow>
   registry_ok st' = registry_ok st"
  by (simp add: registry_ok_def)

lemma registry_frames:
  "register_mumble_client name st = (r, st') \<Longrightarrow>
     bs_virtual_user_map st' = bs_virtual_user_map st \<and> bs_reverse_virtual_user_map st' = bs_reverse_virtual_user_map st"
  "bs_virtual_user_map (update_client s f st) = bs_virtual_user_map st"
  "bs_reverse_virtual_user_map (update_client s f st) = bs_reverse_virtual_user_map st"
  by (auto simp: register_mumble_client_def Let_def allocate_mumble_session_def update_client_def split: option.splits if_splits)

interpretation reg: bridge_invariant registry_ok
proof
  fix st st' assume "bridge_op st st'" "registry_ok st"
  then show "registry_ok st'"
  proof (cases rule: bridge_op.cases)
    case (register name r)
    with \<open>registry_ok st\<close> show ?thesis using registry_frames(1) [OF register(1)] by (simp cong: registry_ok_cong)
  next
    case (registered u ps session)
    with \<open>registry_ok st\<close> show ?thesis by (simp add: registry_ok_registered)
  next
    case (release session)
    with \<open>registry_ok st\<close> show ?thesis by (simp add: registry_ok_release)
  qed (auto simp: registry_frames forget_client_def registry_ok_def)
qed

subsection \<open>Tables\<close>

lemma table_frames:
  "register_mumble_client name st = (r, st') \<Longrightarrow> bs_channels st' = bs_channels st \<and> bs_users st' = bs_users st"
  "bs_channels (update_client s f st) = bs_channels st" "bs_users (update_client s f st) = bs_users st"
  "bs_channels (release_session s st) = bs_channels st" "bs_users (release_session s st) = bs_users st"
  by (auto simp: register_mumble_client_def Let_def allocate_mumble_session_def update_client_def release_session_def split: option.splits if_splits)

interpretation tab: bridge_invariant id_tables_ok
proof
  fix st st' assume "bridge_op st st'" "id_tables_ok st"
  then show "id_tables_ok st'"
    by (cases rule: bridge_op.cases) (auto simp: id_tables_ok_def table_frames forget_client_def dest: table_frames(1))
qed

lemma channel_bfs_ok:
  "channel_bfs n old rs q cm = Some (cm', ms) \<Longrightarrow> channel_ok cm \<Longrightarrow> 2 * n \<le> channel_left cm \<Longrightarrow>
   channel_ok cm' \<and> channel_left cm \<le> channel_left cm' + 2 * n"
proof (induction n arbitrary: q cm ms)
  case 0
  then show ?case by (cases q) simp_all
next
  case (Suc n)
  show ?case
  proof (cases q)
    case (Cons r queue)
    obtain cm1 m1 where s: "channel_step old r cm = (cm1, m1)" by force
    obtain m2 where "channel_bfs n old rs (queue @ children_of rs (r_id r)) cm1 = Some (cm', m2)"
      using Suc.prems(1) by (auto simp: Cons s)
    moreover have step: "channel_ok cm1" "channel_left cm \<le> channel_left cm1 + 2"
      using channel_step_map(1,2) [OF Suc.prems(2) _ s] Suc.prems(3) by simp_all
    ultimately have "channel_ok cm' \<and> channel_left cm1 \<le> channel_left cm' + 2 * n"
      using Suc.prems(3) by (intro Suc.IH) simp_all
    then show ?thesis using step(2) by simp
  qed (use Suc.prems in simp)
qed

lemma user_updates_ok:
  "user_updates old us (cm, um) = ((cm', um'), ms) \<Longrightarrow> channel_ok cm \<Longrightarrow> user_ok um \<Longrightarrow>
   length us \<le> channel_left cm \<Longrightarrow> length us \<le> user_left um \<Longrightarrow> channel_ok cm' \<and> user_ok um'"
proof (induction us arbitrary: cm um ms)
  case (Cons u us)
  let ?cm = "snd (channel_get_or_insert (u_current_room u) cm)" and ?um = "snd (user_get_or_insert (u_user_id u) um)"
  obtain m1 where s: "user_step old u (cm, um) = ((?cm, ?um), m1)" by (auto simp: user_step_def Let_def case_prod_beta)
  obtain m2 where "user_updates old us (?cm, ?um) = ((cm', um'), m2)"
    using Cons.prems(1) by (auto simp: s split: prod.splits)
  moreover have "channel_ok ?cm" "user_ok ?um" using Cons.prems by (simp_all add: channels.insert_ok users.insert_ok)
  moreover have "length us \<le> channel_left ?cm" "length us \<le> user_left ?um"
    using Cons.prems(4,5) channels.insert_left [OF Cons.prems(2), of "u_current_room u"] users.insert_left [OF Cons.prems(3), of "u_user_id u"]
    by simp_all
  ultimately show ?case by (rule Cons.IH)
qed simp

lemma reconcile_tables_ok:
  assumes "reconcile_server_state fuel old_rooms old_users rs us cm um skip = Some (out, cm', um')"
    and "channel_ok cm" "user_ok um" "2 * fuel + length us \<le> channel_left cm" "length us \<le> user_left um"
  shows "channel_ok cm' \<and> user_ok um'"
proof -
  let ?um = "fold remove_by_rumble_id (map fst (vanished_users us um skip)) um" and ?us = "filter (\<lambda>u. \<not> skips skip u) us"
  from assms(1) obtain cm1 m1 where one: "channel_bfs fuel old_rooms rs (bfs_start rs) cm = Some (cm1, m1)"
    by (auto simp: reconcile_server_state_def Let_def)
  obtain cm2 um2 m2 where "user_updates old_users ?us (cm1, ?um) = ((cm2, um2), m2)" by (metis prod.exhaust)
  with assms(1) have two: "user_updates old_users ?us (cm1, ?um) = ((cm2, um'), m2)"
    and cm': "cm' = fold remove_by_uuid (map (snd \<circ> snd) (removed_channels old_rooms rs cm2)) cm2"
    by (auto simp: reconcile_server_state_def Let_def one)
  have ok1: "channel_ok cm1" "channel_left cm \<le> channel_left cm1 + 2 * fuel" using channel_bfs_ok [OF one assms(2)] assms(4) by auto
  have um: "user_ok ?um" "user_left ?um = user_left um" using prune_users [OF assms(3) refl, of us skip] by blast+
  have len: "length ?us \<le> length us" by (rule length_filter_le)
  have "channel_ok cm2 \<and> user_ok um'"
    using ok1(2) um(2) len assms(4,5) by (intro user_updates_ok [OF two ok1(1) um(1)]) linarith+
  then show ?thesis using prune_channels(1) [OF _ cm'] by blast
qed

section \<open>Every event is a sequence of changes\<close>

abbreviation bridge_evolves :: "bridge_world \<Rightarrow> bridge_world \<Rightarrow> bool" where
  "bridge_evolves w w' \<equiv> bridge_op\<^sup>*\<^sup>* (bw_state w) (bw_state w')"

lemma evolves_still: "bw_state w' = bw_state w \<Longrightarrow> bridge_evolves w w'"
  by simp

lemma evolves_op: "bridge_op (bw_state w) (bw_state w') \<Longrightarrow> bridge_evolves w w'"
  by (rule r_into_rtranclp)

text \<open>The tables and the cached lists change together in most events of the server.\<close>

lemma number_and_cache:
  assumes "channel_ok (bs_channels st) \<longrightarrow> channel_ok cm" "user_ok (bs_users st) \<longrightarrow> user_ok um"
  shows "bridge_op\<^sup>*\<^sup>* st (st\<lparr>bs_channels := cm, bs_users := um, bs_rumble_rooms := rs, bs_rumble_users := us\<rparr>)"
proof (rule rtranclp.rtrancl_into_rtrancl)
  show "bridge_op\<^sup>*\<^sup>* st (st\<lparr>bs_channels := cm, bs_users := um\<rparr>)"
    by (rule r_into_rtranclp) (rule bridge_op.number [OF assms])
  show "bridge_op (st\<lparr>bs_channels := cm, bs_users := um\<rparr>)
      (st\<lparr>bs_channels := cm, bs_users := um, bs_rumble_rooms := rs, bs_rumble_users := us\<rparr>)"
    using bridge_op.cache [where st = "st\<lparr>bs_channels := cm, bs_users := um\<rparr>"] by simp
qed

lemma evolves_tables:
  assumes "bw_state w' = (bw_state w)\<lparr>bs_channels := cm, bs_users := um, bs_rumble_rooms := rs, bs_rumble_users := us\<rparr>"
    and "channel_ok (bs_channels (bw_state w)) \<longrightarrow> channel_ok cm" "user_ok (bs_users (bw_state w)) \<longrightarrow> user_ok um"
  shows "bridge_evolves w w'"
  unfolding assms(1) by (rule number_and_cache [OF assms(2,3)])

lemma evolves_client_events:
  "bridge_evolves w (on_client_joined session name w)" "bridge_evolves w (on_client_left session w)"
  "bridge_evolves w (on_ping e session payload w)" "bridge_evolves w (on_mumble_voice session dat w)"
  "bridge_evolves w (on_mumble_chat cf e session text ts trees w)" "bridge_evolves w (on_channel_change session ch w)"
  "bridge_evolves w (on_mute_deaf_change session m d w)" "bridge_evolves w (handle_rumble_voice dg w)"
proof -
  show "bridge_evolves w (on_client_joined session name w)"
    by (rule evolves_op) (simp add: on_client_joined_def Let_def participant_sends bridge_op.pend)
  have "bw_state (on_client_left session w) = release_session session (bw_state w)"
    by (simp add: on_client_left_def Let_def participant_sends split: option.splits)
  then show "bridge_evolves w (on_client_left session w)" by (auto intro: evolves_op bridge_op.release)
  show "bridge_evolves w (on_ping e session payload w)" "bridge_evolves w (on_mumble_voice session dat w)"
    by (rule evolves_still; auto simp: on_ping_def Let_def on_mumble_voice_cases split: option.splits)+
  have "bw_state (fold (\<lambda>i. send_direct_message e i text) ids w) = bw_state w" for ids
    using fold_direct_messages by blast
  then show "bridge_evolves w (on_mumble_chat cf e session text ts trees w)"
    by (intro evolves_still) (simp add: on_mumble_chat_def Let_def case_prod_beta)
  have "bw_state (on_channel_change session ch w) = update_client session (\<lambda>c. c\<lparr>mc_channel_id := ch\<rparr>) (bw_state w)"
    by (simp add: on_channel_change_def Let_def participant_sends split: option.splits)
  then show "bridge_evolves w (on_channel_change session ch w)"
    by (auto intro!: evolves_op bridge_op.mark simp: keeps_marks_def)
  have "bw_state (on_mute_deaf_change session m d w) = update_client session (set_mute_deaf m d) (bw_state w)"
    by (simp add: on_mute_deaf_change_def Let_def participant_sends split: option.splits)
  then show "bridge_evolves w (on_mute_deaf_change session m d w)"
    by (auto intro!: evolves_op bridge_op.mark simp: keeps_marks_def set_mute_deaf_fields)
  show "bridge_evolves w (handle_rumble_voice dg w)"
    by (rule evolves_still) (auto simp: handle_rumble_voice_def Let_def next_rumble_seq_def split: option.splits)
qed

lemma evolves_client_sender:
  assumes "on_client_sender cf fuel session tx w = Some w'"
    and "length (bs_rumble_rooms (bw_state w)) + 2 * fuel < channel_left (bs_channels (bw_state w))"
  shows "bridge_evolves w w'"
proof -
  let ?st = "bw_state w" and ?cm = "assign_channels (bs_rumble_rooms (bw_state w)) (bs_channels (bw_state w))"
  obtain cm ms where bfs: "channel_list_bfs fuel (bs_rumble_rooms ?st) (bfs_start (bs_rumble_rooms ?st)) ?cm = Some (cm, ms)"
    and st: "bw_state w' = ?st\<lparr>bs_channels := cm\<rparr>"
    using assms(1)
    by (auto simp: on_client_sender_def send_initial_sync_def build_channel_states_def Let_def split: option.splits)
  have "channel_ok cm" if ok: "channel_ok (bs_channels ?st)"
  proof -
    have "channel_ok ?cm" "2 * fuel \<le> channel_left ?cm"
      using assign_channels [OF ok, of "bs_rumble_rooms ?st"] assms(2) by auto
    with channel_bfs_ok [of fuel "[]" "bs_rumble_rooms ?st" "bfs_start (bs_rumble_rooms ?st)" ?cm cm "map SyncChannelState ms"] show ?thesis
      by (simp add: channel_list_is_bfs bfs)
  qed
  then show ?thesis
    by (intro evolves_tables [where cm = cm and um = "bs_users ?st" and rs = "bs_rumble_rooms ?st" and us = "bs_rumble_users ?st"])
      (simp_all add: st)
qed

lemma evolves_user_updates:
  assumes cl: "2 < channel_left (bs_channels (bw_state w))" and ul: "1 < user_left (bs_users (bw_state w))"
  shows "bridge_evolves w (on_user_joined info w)" "bridge_evolves w (on_user_left i w)"
    "bridge_evolves w (on_user_moved i r w)" "bridge_evolves w (on_user_status i m d w)"
proof -
  let ?st = "bw_state w"
  have room: "channel_ok (bs_channels ?st) \<longrightarrow> channel_ok (snd (channel_get_or_insert u (bs_channels ?st)))" for u
    using cl by (simp add: channels.insert_ok)
  have user: "user_ok (bs_users ?st) \<longrightarrow> user_ok (snd (user_get_or_insert u (bs_users ?st)))" for u
    using ul by (simp add: users.insert_ok)
  show "bridge_evolves w (on_user_joined info w)"
  proof (cases info)
    case (Some u)
    let ?cm = "case Option.bind (ui_current_room u) uuid_from_room_id of
        Some x \<Rightarrow> snd (channel_get_or_insert x (bs_channels ?st)) | None \<Rightarrow> bs_channels ?st"
    let ?um = "snd (user_get_or_insert (update_uid (ui_user_id u)) (bs_users ?st))"
    let ?us = "case user_from_proto u of Some d \<Rightarrow> bs_rumble_users ?st @ [d] | None \<Rightarrow> bs_rumble_users ?st"
    have "bw_state (on_user_joined info w) = ?st \<or>
        bw_state (on_user_joined info w) = ?st\<lparr>bs_channels := ?cm, bs_users := ?um, bs_rumble_rooms := bs_rumble_rooms ?st, bs_rumble_users := ?us\<rparr>"
      by (simp add: on_user_joined_def Some Let_def case_prod_beta split: option.splits)
    moreover have "channel_ok (bs_channels ?st) \<longrightarrow> channel_ok ?cm" using room by (simp split: option.splits)
    ultimately show ?thesis using evolves_tables [OF _ _ user] evolves_still by blast
  qed (simp add: on_user_joined_def)
  show "bridge_evolves w (on_user_left i w)"
  proof -
    have "bw_state (on_user_left i w) = ?st \<or> bw_state (on_user_left i w) =
        ?st\<lparr>bs_channels := bs_channels ?st, bs_users := remove_by_rumble_id (update_uid i) (bs_users ?st),
            bs_rumble_rooms := bs_rumble_rooms ?st, bs_rumble_users := retain (\<lambda>u. u_user_id u \<noteq> update_uid i) (bs_rumble_users ?st)\<rparr>"
      by (simp add: on_user_left_def Let_def split: option.splits)
    moreover have "user_ok (bs_users ?st) \<longrightarrow> user_ok (remove_by_rumble_id (update_uid i) (bs_users ?st))" by (simp add: users.remove_ok)
    ultimately show ?thesis using evolves_tables [where w = w] evolves_still by blast
  qed
  show "bridge_evolves w (on_user_moved i r w)"
  proof -
    let ?cm = "case Option.bind r uuid_from_room_id of Some x \<Rightarrow> snd (channel_get_or_insert x (bs_channels ?st)) | None \<Rightarrow> bs_channels ?st"
    let ?us = "update_first (\<lambda>u. u_user_id u = update_uid i)
      (\<lambda>u. u\<lparr>u_current_room := (case Option.bind r uuid_from_room_id of Some x \<Rightarrow> x | None \<Rightarrow> ROOT_ROOM_UUID)\<rparr>) (bs_rumble_users ?st)"
    have "bw_state (on_user_moved i r w) = ?st \<or> bw_state (on_user_moved i r w) =
        ?st\<lparr>bs_channels := ?cm, bs_users := bs_users ?st, bs_rumble_rooms := bs_rumble_rooms ?st, bs_rumble_users := ?us\<rparr>"
      by (simp add: on_user_moved_def Let_def case_prod_beta split: option.splits)
    moreover have "channel_ok (bs_channels ?st) \<longrightarrow> channel_ok ?cm" using room by (simp split: option.splits)
    ultimately show ?thesis using evolves_tables [where w = w] evolves_still by blast
  qed
  show "bridge_evolves w (on_user_status i m d w)"
  proof -
    have "bw_state (on_user_status i m d w) = ?st \<or> (\<exists>us. bw_state (on_user_status i m d w) =
        ?st\<lparr>bs_channels := bs_channels ?st, bs_users := bs_users ?st, bs_rumble_rooms := bs_rumble_rooms ?st, bs_rumble_users := us\<rparr>)"
      by (auto simp: on_user_status_def Let_def split: option.splits)
    then show ?thesis using evolves_tables [where w = w] evolves_still by blast
  qed
qed

lemma evolves_room_updates:
  assumes cl: "2 < channel_left (bs_channels (bw_state w))"
  shows "bridge_evolves w (on_room_created ri w)" "bridge_evolves w (on_room_deleted r w)"
    "bridge_evolves w (on_room_renamed r n w)" "bridge_evolves w (on_room_moved r p w)" "bridge_evolves w (on_room_description r d w)"
proof -
  let ?st = "bw_state w"
  show "bridge_evolves w (on_room_renamed r n w)" "bridge_evolves w (on_room_moved r p w)"
    by (rule evolves_still; simp add: on_room_renamed_def on_room_moved_def split: option.splits)+
  have "bw_state (on_room_description r d w) = ?st \<or> (\<exists>rs. bw_state (on_room_description r d w) =
      ?st\<lparr>bs_channels := bs_channels ?st, bs_users := bs_users ?st, bs_rumble_rooms := rs, bs_rumble_users := bs_rumble_users ?st\<rparr>)"
    by (auto simp: on_room_description_def Let_def split: option.splits)
  then show "bridge_evolves w (on_room_description r d w)" using evolves_tables [where w = w] evolves_still by blast
  have "bw_state (on_room_deleted r w) = ?st \<or> (\<exists>u rs. bw_state (on_room_deleted r w) =
      ?st\<lparr>bs_channels := remove_by_uuid u (bs_channels ?st), bs_users := bs_users ?st, bs_rumble_rooms := rs, bs_rumble_users := bs_rumble_users ?st\<rparr>)"
    by (auto simp: on_room_deleted_def Let_def split: option.splits)
  moreover have "channel_ok (bs_channels ?st) \<longrightarrow> channel_ok (remove_by_uuid u (bs_channels ?st))" for u by (simp add: channels.remove_ok)
  ultimately show "bridge_evolves w (on_room_deleted r w)" using evolves_tables [where w = w] evolves_still by blast
  show "bridge_evolves w (on_room_created ri w)"
  proof (cases "Option.bind ri ri_id = None \<or> Option.bind (Option.bind ri ri_id) uuid_from_room_id = None")
    case True
    then show ?thesis by (intro evolves_still) (auto simp: on_room_created_def split: option.splits)
  next
    case False
    then obtain x u where x: "ri = Some x" "Option.bind (ri_id x) uuid_from_room_id = Some u" by (auto simp: bind_eq_None_conv)
    let ?one = "snd (channel_get_or_insert u (bs_channels ?st))"
    let ?cm = "case Option.bind (ri_parent_id x) uuid_from_room_id of Some p \<Rightarrow> snd (channel_get_or_insert p ?one) | None \<Rightarrow> ?one"
    let ?rs = "case room_from_proto x of Some d \<Rightarrow> bs_rumble_rooms ?st @ [d] | None \<Rightarrow> bs_rumble_rooms ?st"
    have "bw_state (on_room_created ri w) =
        ?st\<lparr>bs_channels := ?cm, bs_users := bs_users ?st, bs_rumble_rooms := ?rs, bs_rumble_users := bs_rumble_users ?st\<rparr>"
      by (simp add: on_room_created_def x Let_def case_prod_beta split: option.splits)
    moreover have "channel_ok ?one" "channel_ok (snd (channel_get_or_insert p ?one))" if ok: "channel_ok (bs_channels ?st)" for p
      using channels.insert_ok [OF ok, of u] channels.insert_left [OF ok, of u] channels.insert_ok [of ?one p] cl by auto
    then have "channel_ok (bs_channels ?st) \<longrightarrow> channel_ok ?cm" by (simp split: option.splits)
    ultimately show ?thesis using evolves_tables [where w = w] by blast
  qed
qed

lemma evolves_state_update:
  assumes "2 < channel_left (bs_channels (bw_state w))" "1 < user_left (bs_users (bw_state w))"
  shows "bridge_evolves w (handle_state_update su w)"
  using evolves_user_updates [OF assms] evolves_room_updates [OF assms(1)]
  by (cases "(su, w)" rule: handle_state_update.cases) simp_all

lemma length_map_filter: "length (List.map_filter f xs) \<le> length xs"
  by (induction xs) (simp_all add: map_filter_simps split: option.splits)

lemma state_fold_sync: "bw_state (fold sync_broadcast ms w) = bw_state w"
  by (induction ms arbitrary: w) simp_all

lemma evolves_server_state:
  assumes run: "on_server_state fuel ss w = Some w'"
    and left: "2 * fuel + length (ss_users ss) < channel_left (bs_channels (bw_state w))"
      "length (ss_users ss) \<le> user_left (bs_users (bw_state w))"
    and ok: "id_tables_ok (bw_state w)"
  shows "bridge_evolves w w'"
proof -
  let ?st = "bw_state w"
  obtain out cm um where r: "reconcile_server_state fuel (bs_rumble_rooms ?st) (bs_rumble_users ?st) (new_rooms_of ss)
       (new_users_of ss) (bs_channels ?st) (bs_users ?st) (bridge_skip_rules ?st) = Some (out, cm, um)"
    and st: "bw_state w' = ?st\<lparr>bs_channels := cm, bs_users := um, bs_rumble_rooms := new_rooms_of ss, bs_rumble_users := new_users_of ss\<rparr>"
    using run by (auto simp: on_server_state_def Let_def state_fold_sync)
  have "channel_ok cm \<and> user_ok um"
    using ok left length_map_filter [of user_from_proto "ss_users ss"]
    by (intro reconcile_tables_ok [OF r]) (simp_all add: id_tables_ok_def)
  then show ?thesis by (intro evolves_tables [OF st]) simp_all
qed

lemma place_participant_state [simp]: "bw_state (place_participant p w) = bw_state w"
  by (simp add: place_participant_def participant_sends Let_def case_prod_beta)

lemma fold_place_state [simp]: "bw_state (fold place_participant ps w) = bw_state w"
  by (induction ps arbitrary: w) simp_all

lemma fold_unregister_state [simp]: "bw_state (fold send_unregister_participant us w) = bw_state w"
  by (induction us arbitrary: w) (simp_all add: participant_sends)

lemma bridge_evolves_envelope:
  assumes "on_envelope fuel env w = Some (x, w')" "event_ok fuel (RumbleEnvelope env) (bw_state w)" "id_tables_ok (bw_state w)"
  shows "bridge_evolves w w'"
proof -
  from assms(1) obtain r where r: "handle_rumble_envelope fuel env w = Some r" and st: "bw_state w' = bw_state (er_world r)"
    by (auto simp: on_envelope_def split: if_splits)
  have "bridge_evolves w (er_world r)"
    using r assms(2,3)
  proof (cases "(fuel, env, w)" rule: handle_rumble_envelope.cases)
    case (1 fuel ss)
    then show ?thesis using r assms(2,3) evolves_server_state by (auto simp: plain_result_def)
  next
    case (2 fuel su)
    then show ?thesis using r assms(2) evolves_state_update [of w su] by (auto simp: plain_result_def)
  next
    case (3 fuel cb)
    then show ?thesis using r by (auto simp: plain_result_def on_chat_broadcast_def Let_def split: option.splits)
  next
    case (4 fuel dm)
    then show ?thesis using r by (auto simp: plain_result_def on_direct_message_def split: option.splits)
  next
    case (6 fuel msg)
    then show ?thesis using r by (auto simp: plain_result_def intro!: r_into_rtranclp [of bridge_op] bridge_op.greet)
  next
    case (8 fuel user_id username)
    then have r': "r = on_participant_registered user_id username w"
      and fresh: "dm_get (bs_reverse_virtual_user_map (bw_state w)) user_id = None" using r assms(2) by auto
    show ?thesis
    proof (cases "take_pending username (bs_pending_registrations (bw_state w))")
      case (Some p)
      then have "bridge_op (bw_state w) (bw_state (er_world r))"
        using fresh by (cases p) (simp add: r' on_participant_registered_def plain_result_def bridge_op.registered)
      then show ?thesis by auto
    qed (simp add: r' on_participant_registered_def plain_result_def)
  qed (auto simp: plain_result_def)
  then show ?thesis by (simp add: st)
qed

lemma evolves_bridge_step:
  assumes "bridge_step cf e fuel ev w = Some (x, w')" "event_ok fuel ev (bw_state w)" "id_tables_ok (bw_state w)"
  shows "bridge_evolves w w'"
  using assms
proof (cases ev)
  case (MumbleClientSender session tx)
  with assms show ?thesis by (auto intro: evolves_client_sender)
next
  case (RumbleEnvelope env)
  with assms show ?thesis by (auto intro: bridge_evolves_envelope)
qed (auto simp: evolves_client_events)

lemma evolves_reregister:
  "bridge_evolves w (fold reregister_client todo w)"
proof (induction todo arbitrary: w)
  case (Cons p todo)
  have "bridge_op (bw_state w) (bw_state (reregister_client p w))"
    by (simp add: reregister_client_def case_prod_beta participant_sends bridge_op.pend)
  then show ?case using Cons.IH [of "reregister_client p w"] by (simp add: converse_rtranclp_into_rtranclp)
qed simp

lemma evolves_reconnect:
  assumes "reconnect_bridge user_id rs us w = (w', ev)"
  shows "bridge_evolves w w'"
proof -
  let ?w1 = "on_bridge (\<lambda>st. st\<lparr>bs_bridge_user_id := Some user_id, bs_rumble_connected := True\<rparr>) w"
  let ?w2 = "on_bridge (\<lambda>st. st\<lparr>bs_virtual_user_map := [], bs_reverse_virtual_user_map := [], bs_pending_registrations := []\<rparr>) ?w1"
  have one: "bridge_op (bw_state w) (bw_state ?w1)" using bridge_op.online by simp
  have two: "bridge_op (bw_state ?w1) (bw_state ?w2)"
    using bridge_op.reset [of "bw_state ?w1"] by simp
  let ?todo = "map (\<lambda>(_, c). (mc_session c, mc_username c)) (clients w)"
  have "w' = ?w1 \<or> w' = fold reregister_client ?todo ?w2"
    using assms by (simp add: reconnect_bridge_def Let_def split: if_splits)
  then show ?thesis
  proof
    assume "w' = ?w1"
    with one show ?thesis by auto
  next
    assume "w' = fold reregister_client ?todo ?w2"
    with evolves_reregister [of ?w2 ?todo] have "bridge_op\<^sup>*\<^sup>* (bw_state ?w2) (bw_state w')" by simp
    with one two show ?thesis by (meson converse_rtranclp_into_rtranclp)
  qed
qed

section \<open>Outbound channels\<close>

lemma senders_of_updates [simp]:
  "senders (on_user_joined info w) = senders w" "senders (on_user_left i w) = senders w"
  "senders (on_user_moved i r w) = senders w" "senders (on_user_status i m d w) = senders w"
  "senders (on_room_created ri w) = senders w" "senders (on_room_deleted r w) = senders w"
  "senders (on_room_renamed r n w) = senders w" "senders (on_room_moved r p w) = senders w"
  "senders (on_room_description r ds w) = senders w"
  by (simp_all add: on_user_joined_def on_user_left_def on_user_moved_def on_user_status_def on_room_created_def
      on_room_deleted_def on_room_renamed_def on_room_moved_def on_room_description_def Let_def case_prod_beta split: option.splits)

lemma senders_state_update [simp]: "senders (handle_state_update su w) = senders w"
  by (cases "(su, w)" rule: handle_state_update.cases) simp_all

lemma loop_fold_sync: "bw_loop (fold sync_broadcast ms w) = bw_loop w"
  by (induction ms arbitrary: w) simp_all

lemma loop_fold_place: "bw_loop (fold place_participant ps w) = bw_loop w"
  by (induction ps arbitrary: w) (simp_all add: place_participant_def participant_sends Let_def case_prod_beta)

lemma loop_fold_unregister: "bw_loop (fold send_unregister_participant us w) = bw_loop w"
  by (induction us arbitrary: w) (simp_all add: participant_sends)

lemma senders_envelope:
  assumes "on_envelope fuel env w = Some (x, w')"
  shows "senders w' = senders w"
proof -
  from assms obtain r where r: "handle_rumble_envelope fuel env w = Some r" and l: "bw_loop w' = bw_loop (er_world r)"
    by (auto simp: on_envelope_def loop_fold_place loop_fold_unregister split: if_splits)
  have "senders (er_world r) = senders w"
    using r
    by (cases "(fuel, env, w)" rule: handle_rumble_envelope.cases)
      (auto simp: plain_result_def on_server_state_def Let_def loop_fold_sync on_chat_broadcast_def on_direct_message_def
        on_participant_registered_def split: option.splits)
  then show ?thesis by (simp add: l)
qed

lemma bridge_step_senders:
  assumes "bridge_step cf e fuel ev w = Some (x, w')"
  shows "senders w' = (case ev of
      MumbleClientLeft s \<Rightarrow> dm_remove s (senders w)
    | MumbleClientSender s tx \<Rightarrow> dm_insert s tx (senders w)
    | _ \<Rightarrow> senders w)"
proof (cases ev)
  case (MumbleClientJoined s n)
  then show ?thesis using assms by (auto simp: on_client_joined_def Let_def participant_sends)
next
  case (MumbleClientLeft s)
  then show ?thesis using assms by (auto simp: on_client_left_def Let_def participant_sends split: option.splits)
next
  case (MumbleClientSender s tx)
  then show ?thesis using assms
    by (auto simp: on_client_sender_def send_initial_sync_def Let_def split: option.splits)
next
  case (MumblePing s p)
  then show ?thesis using assms by (auto simp: on_ping_def Let_def split: option.splits)
next
  case (MumbleVoice s d)
  then show ?thesis using assms by (auto simp: on_mumble_voice_cases split: option.splits)
next
  case (MumbleChat s m ts trees)
  have "bw_loop (fold (\<lambda>i. send_direct_message e i m) ids w) = bw_loop w" for ids using fold_direct_messages by blast
  with MumbleChat show ?thesis using assms by (auto simp: on_mumble_chat_def Let_def case_prod_beta split: if_splits)
next
  case (MumbleChannelChange s c)
  then show ?thesis using assms by (auto simp: on_channel_change_def Let_def participant_sends split: option.splits)
next
  case (MumbleMuteDeafChange s m d)
  then show ?thesis using assms by (auto simp: on_mute_deaf_change_def Let_def participant_sends split: option.splits)
next
  case (RumbleEnvelope env)
  then show ?thesis using assms senders_envelope [of fuel env w x w'] by simp
next
  case (RumbleVoice dg)
  then show ?thesis using assms
    by (auto simp: handle_rumble_voice_def Let_def next_rumble_seq_def split: option.splits if_splits)
qed (use assms in auto)

lemma queued_txs_simps [simp]:
  "queued_txs [] = []" "queued_txs (xs @ ys) = queued_txs xs @ queued_txs ys"
  "queued_txs (ev # q) = (case ev of MumbleClientSender _ tx \<Rightarrow> [tx] | _ \<Rightarrow> []) @ queued_txs q"
  by (simp_all add: queued_txs_def List.map_filter_def split: bridge_event.splits)

lemma queued_txs_events [simp]:
  "queued_txs (client_message_events codec session msg) = []"
  "queued_txs (client_joined_events name session superseded tx) = [tx]"
  "from_rumble ev \<Longrightarrow> queued_txs [ev] = []"
  by (auto simp: client_message_events_def client_joined_events_def split: option.splits message_type.splits)
    (cases ev; simp)

lemma distinct_dm_remove: "distinct (map snd m) \<Longrightarrow> distinct (map snd (dm_remove s m))"
  by (simp add: dm_remove_def distinct_map_filter)

lemma channels_apart_handles:
  assumes apart: "channels_apart s" and q: "sys_queue s = ev # queue"
    and step: "bridge_step cf e fuel ev (sys_world s) = Some (x, w)"
  shows "channels_apart (s\<lparr>sys_world := w, sys_queue := queue\<rparr>)"
proof -
  let ?m = "senders (sys_world s)"
  have m: "dm_ok ?m" "distinct (map snd ?m)" using apart by (simp_all add: channels_apart_def)
  have sub: "snd ` set (dm_remove k ?m) \<subseteq> snd ` set ?m" for k by (auto simp: dm_remove_def)
  have insert: "map snd (dm_insert k tx ?m) = tx # map snd (dm_remove k ?m)" for k tx by (simp add: dm_insert_def dm_remove_def)
  note facts = apart [unfolded channels_apart_def q] m distinct_dm_remove [OF m(2)]
  consider (left) k where "ev = MumbleClientLeft k" | (sender) k tx where "ev = MumbleClientSender k tx"
    | (other) "senders w = ?m" "queued_txs (ev # queue) = queued_txs queue"
    using bridge_step_senders [OF step] by (cases ev) auto
  then show ?thesis
  proof cases
    case left
    then have w: "senders w = dm_remove k ?m" using bridge_step_senders [OF step] by simp
    have old: "distinct (queued_txs queue)" "snd ` set ?m \<inter> set (queued_txs queue) = {}" "\<forall>t \<in> snd ` set ?m. t < sys_next_tx s"
      "\<forall>t \<in> set (queued_txs queue). t < sys_next_tx s"
      using facts(1) by (simp_all add: left)
    have "snd ` set (dm_remove k ?m) \<inter> set (queued_txs queue) = {}" using old(2) sub [of k] by blast
    moreover have "\<forall>t \<in> snd ` set (dm_remove k ?m) \<union> set (queued_txs queue). t < sys_next_tx s" using old(3,4) sub [of k] by blast
    ultimately show ?thesis using old(1) facts(4) [of k] m(1) by (simp add: channels_apart_def w dm_ok_remove)
  next
    case sender
    then have w: "senders w = dm_insert k tx ?m" using bridge_step_senders [OF step] by simp
    have range: "snd ` set (dm_insert k tx ?m) = insert tx (snd ` set (dm_remove k ?m))"
      using arg_cong [OF insert, of set k tx] by simp
    have old: "tx \<notin> snd ` set ?m" "tx \<notin> set (queued_txs queue)" "distinct (queued_txs queue)"
      "snd ` set ?m \<inter> set (queued_txs queue) = {}" "tx < sys_next_tx s" "\<forall>t \<in> snd ` set ?m. t < sys_next_tx s"
      "\<forall>t \<in> set (queued_txs queue). t < sys_next_tx s"
      using facts(1) by (simp_all add: sender)
    have "distinct (map snd (dm_insert k tx ?m))" using old(1) facts(4) sub [of k] unfolding insert by auto
    moreover have "snd ` set (dm_insert k tx ?m) \<inter> set (queued_txs queue) = {}" unfolding range using old(2,4) sub [of k] by blast
    moreover have "\<forall>t \<in> snd ` set (dm_insert k tx ?m) \<union> set (queued_txs queue). t < sys_next_tx s"
      unfolding range using old(5-7) sub [of k] by blast
    ultimately show ?thesis using old(3) m(1) by (simp add: channels_apart_def w dm_ok_insert)
  next
    case other
    then show ?thesis using facts by (simp add: channels_apart_def del: queued_txs_simps(3))
  qed
qed

section \<open>The system stays consistent\<close>

lemma handshake_state:
  assumes "mumble_auth_handshake codec he quota msgs st = (res, frames, st')" "bs_next_mumble_session st < 0xFFFFFFFF"
  shows "bridge_op\<^sup>*\<^sup>* st st'"
proof (cases "await_username codec msgs")
  case (Inl err)
  with assms(1) have "st' = st" by (cases err) (auto simp: mumble_auth_handshake_def)
  then show ?thesis by simp
next
  case (Inr p)
  obtain name rest where p: "p = (name, rest)" by force
  obtain r where "register_mumble_client name st = (r, st')"
    using assms(1) by (auto simp: mumble_auth_handshake_def Inr p split: prod.splits option.splits)
  then have "bridge_op st st'" using assms(2) by (rule bridge_op.register)
  then show ?thesis by auto
qed

lemma bridge_ok_ops: "bridge_op\<^sup>*\<^sup>* st st' \<Longrightarrow> bridge_ok st \<Longrightarrow> bridge_ok st'"
  unfolding bridge_ok_def using cl.ops reg.ops tab.ops by blast

lemma senders_reconnect: "reconnect_bridge user_id rs us w = (w', ev) \<Longrightarrow> senders w' = senders w \<and> from_rumble ev"
proof -
  have "bw_loop (fold reregister_client todo x) = bw_loop x" for todo x
    by (induction todo arbitrary: x) (simp_all add: reregister_client_def participant_sends case_prod_beta)
  then show "reconnect_bridge user_id rs us w = (w', ev) \<Longrightarrow> senders w' = senders w \<and> from_rumble ev"
    by (auto simp: reconnect_bridge_def Let_def split: if_splits)
qed

lemma bridge_system_step_ok:
  assumes "bridge_system_step cf e s s'" "bridge_ok (bw_state (sys_world s))" "channels_apart s"
  shows "bridge_ok (bw_state (sys_world s')) \<and> channels_apart s'"
  using assms(1)
proof cases
  case (connect he quota msgs name session superseded frames st)
  with assms(2) have "bridge_ok st" using handshake_state bridge_ok_ops by blast
  moreover have "channels_apart s'"
    using assms(3) by (force simp: connect channels_apart_def less_Suc_eq)
  ultimately show ?thesis by (simp add: connect)
next
  case (turned_away he quota msgs err frames st)
  with assms(2) have "bridge_ok st" using handshake_state bridge_ok_ops by blast
  then show ?thesis using assms(3) by (simp add: turned_away channels_apart_def)
next
  case (says session msg)
  then show ?thesis using assms(2,3) by (simp add: channels_apart_def)
next
  case (hang_up session)
  then show ?thesis using assms(2,3) by (simp add: channels_apart_def)
next
  case (forget session)
  have "bridge_op\<^sup>*\<^sup>* (bw_state (sys_world s)) (forget_client session (bw_state (sys_world s)))"
    by (rule r_into_rtranclp) (rule bridge_op.forget)
  then show ?thesis using assms(2,3) bridge_ok_ops by (auto simp: forget channels_apart_def)
next
  case (hears ev)
  then show ?thesis using assms(2,3) by (simp add: channels_apart_def del: queued_txs_simps(3))
next
  case (handles ev queue fuel x w)
  have "id_tables_ok (bw_state (sys_world s))" using assms(2) by (simp add: bridge_ok_def)
  then have "bridge_ok (bw_state w)" using evolves_bridge_step [OF handles(4,3)] bridge_ok_ops assms(2) by blast
  then show ?thesis using channels_apart_handles [OF assms(3) handles(2,4)] by (simp add: handles(1))
next
  case (reconnects user_id rs us w ev)
  have "bridge_ok (bw_state w)" using evolves_reconnect [OF reconnects(2)] bridge_ok_ops assms(2) by blast
  then show ?thesis
    using assms(3) senders_reconnect [OF reconnects(2)] by (simp add: reconnects(1) channels_apart_def del: queued_txs_simps(3))
qed

lemma system_start_ok: "bridge_ok (bw_state (sys_world system_start))" "channels_apart system_start"
  by (simp_all add: system_start_def bridge_ok_def clients_ok_def registry_ok_def id_tables_ok_def bridge_state_new_def
      bridge_loop_state_new_def channels_apart_def)

text \<open>C20: The shared state of the bridge stays well-formed whatever its tasks do. From the start, after any
  interleaving of connecting, refused, speaking and departing Mumble clients, of events of the server,
  of handled events and of reconnections: every client is stored under its own session, no two clients
  have one name, a deaf client is muted, a registered client is found again from its participant, the number
  tables are inverse to each other, and no two clients share an outbound channel. The server is trusted to
  hand out participant identifiers that are not in use.\<close>

theorem bridge_stays_consistent:
  assumes "(bridge_system_step cf e)\<^sup>*\<^sup>* system_start s"
  shows "bridge_ok (bw_state (sys_world s)) \<and> channels_apart s"
  using assms
  by (induction rule: rtranclp_induct) (simp_all add: system_start_ok bridge_system_step_ok)

definition ann_hello :: "mumble_message list" where
  "ann_hello = [\<lparr>mm_type = 0, mm_payload = []\<rparr>, \<lparr>mm_type = 2, mm_payload = [97, 110, 110]\<rparr>]"

definition sample_handshake_env :: handshake_env where
  "sample_handshake_env = \<lparr>he_os = ''linux'', he_key = [], he_client_nonce = [], he_server_nonce = []\<rparr>"

lemma ann_connects:
  "\<exists>frames st. mumble_auth_handshake sample_codec sample_handshake_env 3 ann_hello bridge_state_new =
     (Inr (''ann'', 1000, None), frames, st) \<and> dm_get (bs_mumble_clients st) 1000 = Some (sample_mumble_client 1000 ''ann'' False)"
proof -
  have "await_username sample_codec ann_hello = Inr (''ann'', [])" by code_simp
  then show ?thesis
    by (simp add: mumble_auth_handshake_def register_mumble_client_def rumble_taken_def bridge_state_new_def allocate_mumble_session_def
        Let_def handshake_replies_def dm_insert_def sample_mumble_client_def)
qed

theorem bridge_stays_consistent_witness:
  "\<exists>s. (bridge_system_step sample_config sample_bridge_env)\<^sup>*\<^sup>* system_start s \<and> dm_get (clients (sys_world s)) 1000 \<noteq> None \<and>
     bridge_ok (bw_state (sys_world s)) \<and> channels_apart s"
proof -
  obtain frames st where h: "mumble_auth_handshake sample_codec sample_handshake_env 3 ann_hello bridge_state_new =
     (Inr (''ann'', 1000, None), frames, st)" "dm_get (bs_mumble_clients st) 1000 = Some (sample_mumble_client 1000 ''ann'' False)"
    using ann_connects by blast
  let ?s = "system_start\<lparr>sys_world := (sys_world system_start)\<lparr>bw_state := st\<rparr>,
      sys_queue := client_joined_events ''ann'' 1000 None 0, sys_running := {1000}, sys_next_tx := 1\<rparr>"
  have "bridge_system_step sample_config sample_bridge_env system_start ?s"
    using bridge_system_step.connect [of sample_bridge_env sample_handshake_env 3 ann_hello system_start "''ann''" 1000 None frames st sample_config] h(1)
    by (simp add: system_start_def sample_bridge_env_def) (simp add: bridge_state_new_def)
  then have "(bridge_system_step sample_config sample_bridge_env)\<^sup>*\<^sup>* system_start ?s" by auto
  then show ?thesis using bridge_stays_consistent [of sample_config sample_bridge_env ?s] h(2) by (intro exI [of _ ?s]) simp
qed

section \<open>What goes wrong\<close>

text \<open>A handshake that fails after the name was registered leaves its client behind: the connection is
  given up, but the entry stays, holds the name, and is shown to every client that joins.\<close>

theorem failed_handshake_leaves_client:
  assumes "await_username codec msgs = Inr (name, rest)" and "\<not> rumble_taken name st" and "quota < 3"
    and "clients_ok st" and "mumble_auth_handshake codec he quota msgs st = (res, frames, st')"
  shows "res = Inl WriteFailed \<and>
    (\<exists>session c. dm_get (bs_mumble_clients st) session = None \<and> dm_get (bs_mumble_clients st') session = Some c \<and> mc_username c = name \<and>
       (\<forall>other. other \<noteq> session \<longrightarrow> client_user_state c \<in> set (build_user_states st' other)))"
proof -
  let ?s = "bs_next_mumble_session st" and ?c = "\<lparr>mc_session = bs_next_mumble_session st, mc_username = name, mc_channel_id = 0,
      mc_is_muted = False, mc_is_deafened = False\<rparr>"
  obtain r st1 where reg: "register_mumble_client name st = (Some (?s, r), st1)" and st1: "(?s, ?c) \<in> set (bs_mumble_clients st1)"
      "dm_get (bs_mumble_clients st1) ?s = Some ?c"
    using assms(2) by (auto simp: register_mumble_client_def Let_def allocate_mumble_session_def dm_insert_def split: option.splits)
  have res: "res = Inl WriteFailed" "st' = st1"
    using assms(3,5) by (auto simp: mumble_auth_handshake_def assms(1) reg handshake_replies_def)
  have "(?s, x) \<notin> set (bs_mumble_clients st)" for x using assms(4) by (auto simp: clients_ok_def)
  then have new: "dm_get (bs_mumble_clients st) ?s = None" by (force simp: map_of_eq_None_iff)
  have "client_user_state ?c \<in> set (build_user_states st' other)" if "other \<noteq> ?s" for other
    using that st1(1) by (force simp: build_user_states_def res(2))
  then show ?thesis using st1(2) new by (intro conjI exI [of _ ?s] exI [of _ ?c]) (simp_all add: res)
qed

text \<open>A client that joined while the server was away is registered twice. The reconnection registers every
  connected client, and the queued event of its arrival registers it again; the second registration
  replaces the first, so that when the client leaves only the second participant is withdrawn. The first one
  stays on the server, and the bridge keeps taking it for the client that left.\<close>

theorem reconnect_registers_twice:
  assumes "clients w = [(s, c)]" and "mc_session c = s" and "mc_username c = name" and "u1 \<noteq> u2"
    and "reconnect_bridge user_id rs us w = (w1, ev)" and "on_client_joined s name w1 = w2"
    and "on_participant_registered u1 name w2 = r1" and "on_participant_registered u2 name (er_world r1) = r2"
    and "on_client_left s (er_world r2) = w3"
  shows "er_join_rooms r1 = [(u1, s)] \<and> er_join_rooms r2 = [(u2, s)] \<and>
    bw_rumble w3 = bw_rumble w @ map OutEnvelope [RegisterParticipant name (Some ''Mumble'') None,
      RegisterParticipant name (Some ''Mumble'') None, UnregisterParticipant u2] \<and>
    dm_get (bs_reverse_virtual_user_map (bw_state w3)) u1 = Some s"
proof -
  have w1: "bs_pending_registrations (bw_state w1) = [(name, s)]" "bs_virtual_user_map (bw_state w1) = []"
    "bs_reverse_virtual_user_map (bw_state w1) = []"
    "bw_rumble w1 = bw_rumble w @ [OutEnvelope (RegisterParticipant name (Some ''Mumble'') None)]"
    using assms(1-3,5) by (auto simp: reconnect_bridge_def Let_def reregister_client_def participant_sends)
  have w2: "bs_pending_registrations (bw_state w2) = [(name, s), (name, s)]" "bs_virtual_user_map (bw_state w2) = []"
    "bs_reverse_virtual_user_map (bw_state w2) = []"
    "bw_rumble w2 = bw_rumble w1 @ [OutEnvelope (RegisterParticipant name (Some ''Mumble'') None)]"
    using assms(6) w1 by (auto simp: on_client_joined_def Let_def participant_sends)
  have r1: "er_join_rooms r1 = [(u1, s)]" "bs_pending_registrations (bw_state (er_world r1)) = [(name, s)]"
    "bs_virtual_user_map (bw_state (er_world r1)) = [(s, u1)]" "bs_reverse_virtual_user_map (bw_state (er_world r1)) = [(u1, s)]"
    "bw_rumble (er_world r1) = bw_rumble w2"
    using assms(7) w2 by (auto simp: on_participant_registered_def plain_result_def dm_insert_def)
  have r2: "er_join_rooms r2 = [(u2, s)]" "dm_get (bs_virtual_user_map (bw_state (er_world r2))) s = Some u2"
    "dm_get (bs_reverse_virtual_user_map (bw_state (er_world r2))) u1 = Some s" "bw_rumble (er_world r2) = bw_rumble w2"
    using assms(4,8) r1 by (auto simp: on_participant_registered_def plain_result_def dm_insert_def)
  show ?thesis using assms(4,9) r1(1) r2 w1(4) w2(4)
    by (auto simp: on_client_left_def Let_def participant_sends release_session_def dm_get_remove)
qed

definition lonely_bridge :: bridge_world where
  "lonely_bridge = \<lparr>bw_state = bridge_state_new\<lparr>bs_mumble_clients := [(1000, sample_mumble_client 1000 ''ann'' False)]\<rparr>,
     bw_loop = bridge_loop_state_new, bw_out = [], bw_rumble = []\<rparr>"

theorem reconnect_registers_twice_witness:
  "dm_get (bs_reverse_virtual_user_map (bw_state (on_client_left 1000 (er_world (on_participant_registered 9 ''ann''
     (er_world (on_participant_registered 8 ''ann'' (on_client_joined 1000 ''ann'' (fst (reconnect_bridge 5 [] [] lonely_bridge)))))))))) 8 = Some 1000"
  using reconnect_registers_twice [of lonely_bridge 1000 "sample_mumble_client 1000 ''ann'' False" "''ann''" 8 9 5 "[]" "[]",
      OF _ _ _ _ surjective_pairing refl refl refl refl]
  by (simp add: lonely_bridge_def sample_mumble_client_def)

theorem failed_handshake_leaves_client_witness:
  "fst (mumble_auth_handshake sample_codec sample_handshake_env 1 ann_hello bridge_state_new) = Inl WriteFailed"
proof -
  have name: "await_username sample_codec ann_hello = Inr (''ann'', [])" by code_simp
  obtain res frames st' where h: "mumble_auth_handshake sample_codec sample_handshake_env 1 ann_hello bridge_state_new = (res, frames, st')"
    by (metis prod.exhaust)
  show ?thesis using failed_handshake_leaves_client [OF name _ _ _ h] h
    by (simp add: rumble_taken_def bridge_state_new_def clients_ok_def)
qed

end
