(* ===== verification/ReconcileOrder.thy ===== *)
theory ReconcileOrder
  imports Reconcile
begin

text \<open>
  The order of the reconciliation messages (\<open>mumble-bridge/src/reconcile.rs\<close>, the contract stated
  at \<open>ReconcileOutput\<close>): users leave first, channels are announced from the root downwards, users
  are moved, and channels are removed from the leaves upwards, so that a client applying the
  messages one by one never shows a channel below, or a user in, a channel it does not have.
\<close>

definition well_referenced :: "u32 set \<Rightarrow> mumble_view \<Rightarrow> bool" where
  "well_referenced D v \<longleftrightarrow>
     (\<forall>c cv p. vw_channels v c = Some cv \<longrightarrow> cv_parent cv = Some p \<longrightarrow> p \<in> dom (vw_channels v)) \<and>
     (\<forall>s uv c. s \<notin> D \<longrightarrow> vw_users v s = Some uv \<longrightarrow> uv_channel uv = Some c \<longrightarrow> c \<in> dom (vw_channels v))"

lemma well_referenced_mono: "well_referenced D v \<Longrightarrow> D \<subseteq> E \<Longrightarrow> well_referenced E v"
  by (auto simp: well_referenced_def)

text \<open>A property of the view that holds before, between and after the messages.\<close>

fun throughout :: "(mumble_view \<Rightarrow> bool) \<Rightarrow> sync_message list \<Rightarrow> mumble_view \<Rightarrow> bool" where
  "throughout P [] v \<longleftrightarrow> P v"
| "throughout P (m # ms) v \<longleftrightarrow> P v \<and> throughout P ms (view_apply m v)"

lemma throughout_append: "throughout P (xs @ ys) v \<longleftrightarrow> throughout P xs v \<and> throughout P ys (view_after xs v)"
proof (induction xs arbitrary: v)
  case Nil
  show ?case by (cases ys) auto
qed auto

lemma throughout_start: "throughout P ms v \<Longrightarrow> P v"
  by (cases ms) auto

lemma throughout_end: "throughout P ms v \<Longrightarrow> P (view_after ms v)"
  by (induction ms arbitrary: v) auto

lemma throughout_take: "throughout P ms v \<Longrightarrow> P (view_after (take k ms) v)"
proof (induction ms arbitrary: v k)
  case (Cons m ms)
  then show ?case by (cases k) auto
qed simp

lemma throughout_all_prefixes: "(\<And>k. P (view_after (take k ms) v)) \<Longrightarrow> throughout P ms v"
proof (induction ms arbitrary: v)
  case (Cons m ms)
  have "P (view_after (take k ms) (view_apply m v))" for k using Cons.prems [of "Suc k"] by simp
  with Cons.IH Cons.prems [of 0] show ?case by simp
qed (metis fold_simps(1) take_Nil throughout.simps(1))

lemma throughout_single: "length ms \<le> 1 \<Longrightarrow> P v \<Longrightarrow> P (view_after ms v) \<Longrightarrow> throughout P ms v"
  by (cases ms rule: remdups_adj.cases) auto

section \<open>Users leave\<close>

lemma user_removes_safe: "well_referenced D v \<Longrightarrow> throughout (well_referenced D) (user_removes vs) v"
proof (induction vs arbitrary: v)
  case (Cons e vs)
  obtain i s where e: "e = (i, s)" by force
  have "well_referenced D (view_apply (SyncUserRemove \<lparr>ur_session = s, ur_reason = Some ''Left''\<rparr>) v)"
    using Cons.prems by (auto simp: well_referenced_def split: if_splits)
  with Cons show ?case by (simp add: user_removes_def e)
qed (simp add: user_removes_def)

section \<open>Channels appear\<close>

definition announced :: "channel_map \<Rightarrow> mumble_view \<Rightarrow> uuid \<Rightarrow> bool" where
  "announced cm v u \<longleftrightarrow> (\<exists>c. get_mumble_id cm u = Some c \<and> c \<in> dom (vw_channels v))"

lemma channel_shown_announced: "channel_shown cm v r \<Longrightarrow> announced cm v (r_id r)"
  by (auto simp: channel_shown_def announced_def)

definition root_on_top :: "mumble_view \<Rightarrow> bool" where
  "root_on_top v \<longleftrightarrow> (\<forall>cv. vw_channels v 0 = Some cv \<longrightarrow> cv_parent cv = None)"

lemma channel_step_safe:
  assumes ok: "channel_ok cm" and left: "2 \<le> channel_left cm" and step: "channel_step old r cm = (cm', msgs)"
    and old: "\<forall>x. room_by_uuid old (r_id r) = Some x \<longrightarrow> channel_shown cm v x"
    and parent: "r_id r = ROOT_ROOM_UUID \<or> announced cm v (r_parent r)"
    and v: "well_referenced D v" "root_on_top v"
  shows "throughout (well_referenced D) msgs v" "root_on_top (view_after msgs v)"
    "announced cm v u \<or> u = r_id r \<Longrightarrow> announced cm' (view_after msgs v) u"
proof -
  note m = channel_step_map [OF ok left step] and sh = channel_step_shown [OF ok left step old]
  obtain c where c: "get_mumble_id cm' (r_id r) = Some c" using channel_shown_announced [OF sh(1)] by (auto simp: announced_def)
  have c0: "c = 0 \<longleftrightarrow> r_id r = ROOT_ROOM_UUID"
    using channel_ok_bound [OF m(1), of "r_id r" c] c by (auto simp: get_mumble_id_def split: if_splits)
  have dom: "dom (vw_channels (view_after msgs v)) = insert c (dom (vw_channels v))" using sh(4) c by simp
  have p: "p \<in> dom (vw_channels v)" if "get_mumble_id cm' (r_parent r) = Some p" "r_id r \<noteq> ROOT_ROOM_UUID" for p
    using parent that keeps_numbersD [OF m(3)] by (fastforce simp: announced_def)
  let ?m = "\<lparr>cs_channel_id = Some c, cs_parent = (if r_id r \<noteq> ROOT_ROOM_UUID then get_mumble_id cm' (r_parent r) else None),
               cs_name = Some (r_name r), cs_description = r_description r\<rparr>"
  have view: "view_after msgs v =
      (if room_changed old r then v\<lparr>vw_channels := (vw_channels v)(c \<mapsto> overlay_channel ?m (vw_channels v c))\<rparr> else v)"
    by (simp add: m(5) c)
  have par: "cv_parent (overlay_channel ?m (vw_channels v c)) = Some q \<Longrightarrow>
      (r_id r \<noteq> ROOT_ROOM_UUID \<and> get_mumble_id cm' (r_parent r) = Some q) \<or>
      (\<exists>cv. vw_channels v c = Some cv \<and> cv_parent cv = Some q)" for q
    by (cases "get_mumble_id cm' (r_parent r)")
      (auto simp: overlay_channel_def Let_def split: if_splits option.splits)
  have after: "well_referenced D (view_after msgs v)"
    unfolding well_referenced_def
  proof (intro conjI allI impI)
    fix d cv q assume d: "vw_channels (view_after msgs v) d = Some cv" "cv_parent cv = Some q"
    show "q \<in> dom (vw_channels (view_after msgs v))"
    proof (cases "room_changed old r \<and> d = c")
      case True
      with d view par have "(r_id r \<noteq> ROOT_ROOM_UUID \<and> get_mumble_id cm' (r_parent r) = Some q) \<or>
          (\<exists>cv. vw_channels v c = Some cv \<and> cv_parent cv = Some q)" by simp
      with p v(1) show ?thesis unfolding dom well_referenced_def by blast
    next
      case False
      with d view v(1) show ?thesis unfolding dom well_referenced_def by (auto split: if_splits)
    qed
  next
    fix s uv d assume "s \<notin> D" "vw_users (view_after msgs v) s = Some uv" "uv_channel uv = Some d"
    with v(1) show "d \<in> dom (vw_channels (view_after msgs v))" unfolding dom sh(3) well_referenced_def by blast
  qed
  have "length msgs \<le> 1" by (simp add: m(5))
  then show "throughout (well_referenced D) msgs v" using v(1) after by (rule throughout_single)
  show "root_on_top (view_after msgs v)"
    unfolding root_on_top_def
  proof (intro allI impI)
    fix cv assume cv: "vw_channels (view_after msgs v) 0 = Some cv"
    show "cv_parent cv = None"
    proof (cases "cv_parent cv")
      case (Some q)
      with cv view par v(2) c0 show ?thesis by (auto simp: root_on_top_def split: if_splits)
    qed simp
  qed
  show "announced cm' (view_after msgs v) u" if "announced cm v u \<or> u = r_id r"
    using that c keeps_numbersD [OF m(3)] by (auto simp: announced_def dom)
qed

lemma channel_steps_safe:
  assumes "channel_ok cm" "2 * length ord \<le> channel_left cm" "channel_steps old ord cm = (cm', msgs)"
    and "distinct (map r_id ord)" "\<forall>x \<in> set old. r_id x \<in> r_id ` set ord \<longrightarrow> channel_shown cm v x"
    and "parent_first seen ord" "\<forall>u \<in> seen. announced cm v u" "well_referenced D v" "root_on_top v"
  shows "throughout (well_referenced D) msgs v \<and> root_on_top (view_after msgs v)"
  using assms
proof (induction ord arbitrary: cm v msgs seen)
  case (Cons r ord)
  obtain cm1 m1 where s1: "channel_step old r cm = (cm1, m1)" by force
  obtain m2 where s2: "channel_steps old ord cm1 = (cm', m2)" and msgs: "msgs = m1 @ m2"
    using Cons.prems(3) by (auto simp: s1 split: prod.splits)
  have left: "2 \<le> channel_left cm" using Cons.prems(2) by simp
  have old: "\<forall>x. room_by_uuid old (r_id r) = Some x \<longrightarrow> channel_shown cm v x"
    using Cons.prems(5) room_by_uuid_Some by fastforce
  have par: "r_id r = ROOT_ROOM_UUID \<or> announced cm v (r_parent r)" using Cons.prems(6,7) by auto
  note m1 = channel_step_map [OF Cons.prems(1) left s1] and sh1 = channel_step_shown [OF Cons.prems(1) left s1 old]
    and safe1 = channel_step_safe [OF Cons.prems(1) left s1 old par Cons.prems(8,9)]
  let ?v = "view_after m1 v"
  have old1: "\<forall>x \<in> set old. r_id x \<in> r_id ` set ord \<longrightarrow> channel_shown cm1 ?v x"
    using Cons.prems(4,5) by (intro ballI impI sh1(2)) auto
  have seen1: "\<forall>u \<in> insert (r_id r) seen. announced cm1 ?v u" using Cons.prems(7) by (intro ballI safe1(3)) auto
  have pre: "2 * length ord \<le> channel_left cm1" "distinct (map r_id ord)" "parent_first (insert (r_id r) seen) ord"
    using Cons.prems(2,4,6) m1(2) by simp_all
  have "well_referenced D ?v" using safe1(1) by (rule throughout_end)
  from Cons.IH [OF m1(1) pre(1) s2 pre(2) old1 pre(3) seen1 this safe1(2)] safe1(1)
  show ?case by (simp add: msgs throughout_append)
qed simp

section \<open>Users move\<close>

lemma well_referenced_move:
  assumes "well_referenced D v" "c \<in> dom (vw_channels v)"
  shows "well_referenced D (v\<lparr>vw_users := (vw_users v)(s \<mapsto> \<lparr>uv_name = n, uv_channel = Some c, uv_mute = m, uv_deaf = d\<rparr>)\<rparr>)"
  using assms unfolding well_referenced_def by (simp split: if_splits)

lemma user_step_view:
  assumes "channel_ok cm" "get_mumble_id cm (u_current_room u) = Some c"
    and "user_step old u (cm, um) = ((cm', um'), msgs)"
  shows "length msgs \<le> 1"
    "\<exists>s. get_mumble_session um' (u_user_id u) = Some s \<and>
       (view_after msgs v = v \<or> view_after msgs v = v\<lparr>vw_users := (vw_users v)(s \<mapsto> \<lparr>uv_name = Some (u_username u),
          uv_channel = Some c, uv_mute = Some (u_is_muted u), uv_deaf = Some (u_is_deafened u)\<rparr>)\<rparr>)"
proof -
  obtain s um1 where ins: "user_get_or_insert (u_user_id u) um = (s, um1)" by force
  have c: "fst (channel_get_or_insert (u_current_room u) cm) = c" by (rule channels.insert_known [OF assms(1,2)])
  have "get_mumble_session um1 (u_user_id u) = Some s"
    using ins by (auto simp: user_get_or_insert_def get_mumble_session_def Let_def dm_get_insert split: option.splits)
  with ins c assms(3) show "length msgs \<le> 1"
    "\<exists>s. get_mumble_session um' (u_user_id u) = Some s \<and>
       (view_after msgs v = v \<or> view_after msgs v = v\<lparr>vw_users := (vw_users v)(s \<mapsto> \<lparr>uv_name = Some (u_username u),
          uv_channel = Some c, uv_mute = Some (u_is_muted u), uv_deaf = Some (u_is_deafened u)\<rparr>)\<rparr>)"
    by (auto simp: user_step_def Let_def user_state_default_def overlay_user_def split: prod.splits)
qed

lemma user_updates_safe:
  assumes "channel_ok cm" "0 < channel_left cm" "\<forall>u \<in> set us. announced cm v (u_current_room u)"
    and "user_ok um" "length us \<le> user_left um" "user_updates old us (cm, um) = ((cm', um'), msgs)"
    and "well_referenced D v"
  shows "throughout (well_referenced D) msgs v \<and> vw_channels (view_after msgs v) = vw_channels v \<and>
    (\<forall>s < 100000. vw_users (view_after msgs v) s = vw_users v s)"
  using assms
proof (induction us arbitrary: cm um v msgs)
  case (Cons u us)
  obtain cm1 um1 m1 where s1: "user_step old u (cm, um) = ((cm1, um1), m1)" by (metis prod.exhaust)
  obtain m2 where s2: "user_updates old us (cm1, um1) = ((cm', um'), m2)" and msgs: "msgs = m1 @ m2"
    using Cons.prems(6) by (auto simp: s1 split: prod.splits)
  from Cons.prems(3) obtain c where c: "get_mumble_id cm (u_current_room u) = Some c" "c \<in> dom (vw_channels v)"
    by (auto simp: announced_def)
  note quiet = user_step_view(1) [OF Cons.prems(1) c(1) s1] and view = user_step_view(2) [OF Cons.prems(1) c(1) s1, of v]
  have ch: "vw_channels (view_after m1 v) = vw_channels v" using view by auto
  have cm1: "cm1 = snd (channel_get_or_insert (u_current_room u) cm)" and um1: "um1 = snd (user_get_or_insert (u_user_id u) um)"
    using s1 by (auto simp: user_step_def Let_def split: prod.splits)
  have ok1: "channel_ok cm1" "get_mumble_id cm1 = get_mumble_id cm" "channel_left cm1 = channel_left cm"
    using channels.insert_ok [OF Cons.prems(1,2)] channels.insert_unchanged [OF Cons.prems(1) c(1)]
      channels.insert_known_left [OF Cons.prems(1) c(1)] by (simp_all add: cm1)
  have ok2: "user_ok um1" "length us \<le> user_left um1"
    using users.insert_ok [OF Cons.prems(4), of "u_user_id u"] users.insert_left [OF Cons.prems(4), of "u_user_id u"] Cons.prems(5)
    by (simp_all add: um1)
  have wr1: "well_referenced D (view_after m1 v)"
    using view well_referenced_move [OF Cons.prems(7) c(2)] Cons.prems(7) by auto
  have low: "vw_users (view_after m1 v) s = vw_users v s" if "s < 100000" for s
  proof -
    obtain t where t: "get_mumble_session um1 (u_user_id u) = Some t"
      "view_after m1 v = v \<or> (\<exists>uv. view_after m1 v = v\<lparr>vw_users := (vw_users v)(t \<mapsto> uv)\<rparr>)" using view by blast
    have "100000 \<le> t" using user_ok_bound [OF ok2(1)] t(1) by (simp add: get_mumble_session_def)
    with that have "t \<noteq> s" by auto
    with t(2) show ?thesis by auto
  qed
  have "\<forall>x \<in> set us. announced cm1 (view_after m1 v) (u_current_room x)"
    using Cons.prems(3) ok1(2) ch by (simp add: announced_def)
  from Cons.IH [OF ok1(1) _ this ok2 s2 wr1] Cons.prems(2) ok1(3)
  have ih: "throughout (well_referenced D) m2 (view_after m1 v)" "vw_channels (view_after m2 (view_after m1 v)) = vw_channels (view_after m1 v)"
    "\<forall>s < 100000. vw_users (view_after m2 (view_after m1 v)) s = vw_users (view_after m1 v) s" by simp_all
  have "throughout (well_referenced D) m1 v" using quiet Cons.prems(7) wr1 by (rule throughout_single)
  with ih ch low show ?case by (simp add: msgs throughout_append)
qed simp

section \<open>Channels go\<close>

text \<open>A list of removals is safe when nothing that is left refers to what is removed.\<close>

lemma channel_removes_safe:
  assumes wr: "well_referenced D v"
    and leaf: "\<And>i c' cv. i < length vs \<Longrightarrow> vw_channels v c' = Some cv \<Longrightarrow> cv_parent cv = Some (fst (snd (vs ! i))) \<Longrightarrow>
      c' \<in> (fst \<circ> snd) ` set (take i vs)"
    and vacant: "\<And>i s uv. i < length vs \<Longrightarrow> s \<notin> D \<Longrightarrow> vw_users v s = Some uv \<Longrightarrow> uv_channel uv \<noteq> Some (fst (snd (vs ! i)))"
  shows "throughout (well_referenced D) (map (\<lambda>(_, c, _). SyncChannelRemove \<lparr>cr_channel_id = c\<rparr>) vs) v"
proof (rule throughout_all_prefixes)
  fix k
  let ?v = "view_after (take k (map (\<lambda>(_, c, _). SyncChannelRemove \<lparr>cr_channel_id = c\<rparr>) vs)) v"
  let ?R = "(fst \<circ> snd) ` set (take k vs)"
  have ch: "vw_channels ?v c = (if c \<in> ?R then None else vw_channels v c)" and us: "vw_users ?v = vw_users v" for c
    unfolding take_map by (rule view_fields_channel_removes)+
  have idx: "\<exists>i < k. i < length vs \<and> c = fst (snd (vs ! i))" if "c \<in> ?R" for c
    using that by (auto simp: in_set_conv_nth) (metis fst_conv snd_conv)
  have dom: "q \<in> dom (vw_channels ?v) \<longleftrightarrow> q \<in> dom (vw_channels v) \<and> q \<notin> ?R" for q
    by (simp only: dom_def mem_Collect_eq ch) (simp only: split: if_splits, blast)
  show "well_referenced D ?v"
    unfolding well_referenced_def
  proof (intro conjI allI impI)
    fix c cv q assume c: "vw_channels ?v c = Some cv" "cv_parent cv = Some q"
    then have cv: "c \<notin> ?R" "vw_channels v c = Some cv" unfolding ch by (metis option.distinct(1))+
    have "q \<notin> ?R"
    proof
      assume "q \<in> ?R"
      then obtain i where i: "i < k" "i < length vs" "q = fst (snd (vs ! i))" using idx by blast
      from leaf [OF i(2) cv(2)] c(2) i(3) have "c \<in> (fst \<circ> snd) ` set (take i vs)" by simp
      with cv(1) i(1) show False using set_take_subset_set_take [of i k vs] by auto
    qed
    with cv(2) c(2) wr show "q \<in> dom (vw_channels ?v)" unfolding dom well_referenced_def by blast
  next
    fix s uv c assume s: "s \<notin> D" "vw_users ?v s = Some uv" "uv_channel uv = Some c"
    then have "c \<notin> ?R" using vacant [OF _ s(1)] idx unfolding us by metis
    with s wr show "c \<in> dom (vw_channels ?v)" unfolding dom us well_referenced_def by blast
  qed
qed

section \<open>Depths in the old tree\<close>

lemma depth_saturates:
  assumes "\<forall>r \<in> set ord. look (r_id r) = Some r" "parent_first seen ord"
    and "\<forall>u \<in> seen. \<forall>n \<ge> N. old_depth_walk look n u = old_depth_walk look N u"
  shows "\<forall>r \<in> set ord. \<forall>n \<ge> N + length ord.
    old_depth_walk look n (r_id r) = old_depth_walk look (N + length ord) (r_id r)"
  using assms
proof (induction ord arbitrary: seen N)
  case (Cons r ord)
  have up: "old_depth_walk look (Suc n) (r_id r) = old_depth_walk look (Suc N) (r_id r)" if "n \<ge> N" for n
    using Cons.prems that by auto
  have r: "\<forall>n \<ge> Suc N. old_depth_walk look n (r_id r) = old_depth_walk look (Suc N) (r_id r)"
  proof (intro allI impI)
    fix n assume "Suc N \<le> n"
    then obtain m where "n = Suc m" "m \<ge> N" by (cases n) auto
    then show "old_depth_walk look n (r_id r) = old_depth_walk look (Suc N) (r_id r)" using up [of m] by (simp only:)
  qed
  moreover have "\<forall>u \<in> seen. \<forall>n \<ge> Suc N. old_depth_walk look n u = old_depth_walk look (Suc N) u"
    using Cons.prems(3) by (metis Suc_leD le_SucI order_refl)
  ultimately have seen: "\<forall>u \<in> insert (r_id r) seen. \<forall>n \<ge> Suc N. old_depth_walk look n u = old_depth_walk look (Suc N) u"
    by blast
  have pre: "\<forall>x \<in> set ord. look (r_id x) = Some x" "parent_first (insert (r_id r) seen) ord" using Cons.prems(1,2) by simp_all
  have rest: "\<forall>x \<in> set ord. \<forall>n \<ge> Suc N + length ord.
      old_depth_walk look n (r_id x) = old_depth_walk look (Suc N + length ord) (r_id x)"
    by (rule Cons.IH [OF pre seen])
  have here: "old_depth_walk look n (r_id r) = old_depth_walk look (N + length (r # ord)) (r_id r)" if "n \<ge> N + length (r # ord)" for n
    by (rule trans [OF r [rule_format] r [rule_format, symmetric]]) (use that in simp_all)
  have len: "N + length (r # ord) = Suc N + length ord" by simp
  show ?case unfolding set_simps ball_simps using here rest [folded len] by blast
qed simp

lemma old_depth_child:
  assumes tree: "room_tree_ok rs" and r: "r \<in> set rs" "r_id r \<noteq> ROOT_ROOM_UUID"
  shows "old_depth (r_id r) rs = Suc (old_depth (r_parent r) rs)"
proof -
  obtain ord where ord: "parent_first {} ord" "distinct (map r_id ord)" "set ord = set rs"
    by (rule bfs_order_tree [OF tree order_refl])
  have d: "distinct (map r_id rs)" using tree by (simp add: room_tree_ok_def)
  have len: "length ord = length rs"
    using ord(2,3) d by (metis distinct_card distinct_map)
  let ?look = "room_by_uuid rs"
  have "\<forall>x \<in> set ord. ?look (r_id x) = Some x" using d ord(3) by (simp add: room_by_uuid_distinct)
  from depth_saturates [OF this ord(1), of 0, unfolded ord(3) len add_0]
  have "\<forall>x \<in> set rs. \<forall>n \<ge> length rs. old_depth_walk ?look n (r_id x) = old_depth_walk ?look (length rs) (r_id x)"
    by blast
  then have sat: "old_depth_walk ?look (Suc (length rs)) u = old_depth_walk ?look (length rs) u" if "u \<in> r_id ` set rs" for u
    using that le_SucI [OF order_refl, of "length rs"] by blast
  have "old_depth_walk ?look (Suc (length rs)) (r_id r) = Suc (old_depth_walk ?look (length rs) (r_parent r))"
    using r d by (simp add: room_by_uuid_distinct)
  then show ?thesis unfolding old_depth_def distinct_remdups_id [OF d] length_map sat [OF tree_parent [OF tree r]] .
qed

lemma removed_channels_order:
  assumes "i < length R" "R = removed_channels old rs cm" "R ! i = (d, c, u)"
  shows "d = old_depth u old" "get_mumble_id cm u = Some c" "u \<noteq> ROOT_ROOM_UUID" "u \<notin> r_id ` set rs"
    "j < length R \<Longrightarrow> i \<le> j \<Longrightarrow> R ! j = (d', c', u') \<Longrightarrow> d' \<le> d"
proof -
  have "(d, c, u) \<in> set R" using assms(1,3) by (metis nth_mem)
  then show "d = old_depth u old" "get_mumble_id cm u = Some c" "u \<noteq> ROOT_ROOM_UUID" "u \<notin> r_id ` set rs"
    by (auto simp: assms(2) removed_channels_def dom_get_mumble_id)
  let ?key = "\<lambda>(depth, channel_id, _). (- int depth, channel_id :: u32)"
  have "sorted (map ?key R)" unfolding assms(2) removed_channels_def by (rule sorted_sort_key)
  then have "?key (R ! i) \<le> ?key (R ! j)" if "j < length R" "i \<le> j"
    using that assms(1) by (metis (no_types, lifting) length_map nth_map sorted_nth_mono)
  then show "d' \<le> d" if "j < length R" "i \<le> j" "R ! j = (d', c', u')"
    using that assms(3) by (fastforce simp: less_eq_prod_def)
qed

section \<open>The whole run\<close>

text \<open>
  What is asked of the old view: it refers only to channels it has, its channels are those of the
  old rooms, which form a tree, and the root is on top.
\<close>

definition orderly :: "room list \<Rightarrow> channel_map \<Rightarrow> mumble_view \<Rightarrow> bool" where
  "orderly old_rooms cm v \<longleftrightarrow>
     (old_rooms = [] \<or> room_tree_ok old_rooms) \<and> well_referenced {} v \<and> root_on_top v \<and>
     (\<forall>c \<in> dom (vw_channels v). \<exists>r \<in> set old_rooms. get_mumble_id cm (r_id r) = Some c)"

text \<open>
  The bridge's own Mumble clients (sessions below the proxy sessions) that are in a channel without
  a new room. No message moves them, so that they are left behind when their channel goes.
\<close>

definition stranded :: "room list \<Rightarrow> channel_map \<Rightarrow> mumble_view \<Rightarrow> u32 set" where
  "stranded new_rooms cm v =
     {s. s < 100000 \<and> (\<exists>uv c. vw_users v s = Some uv \<and> uv_channel uv = Some c \<and>
        (\<forall>r \<in> set new_rooms. get_mumble_id cm (r_id r) \<noteq> Some c))}"

text \<open>Who is below a channel that is about to go has gone before.\<close>

lemma removed_channels_leaf:
  assumes ok: "channel_ok cm" and tree: "room_tree_ok rs" and old_tree: "old = [] \<or> room_tree_ok old"
    and shown: "\<forall>r \<in> set rs. channel_shown cm v r" and top: "root_on_top v"
    and keys: "vw_channels v c' = Some cv \<Longrightarrow>
      (\<exists>r \<in> set rs. get_mumble_id cm (r_id r) = Some c') \<or>
      (\<exists>r \<in> set old. r_id r \<notin> r_id ` set rs \<and> get_mumble_id cm (r_id r) = Some c' \<and> channel_shown cm v r)"
    and R: "R = removed_channels old rs cm" "i < length R"
    and c': "vw_channels v c' = Some cv" "cv_parent cv = Some (fst (snd (R ! i)))"
  shows "c' \<in> (fst \<circ> snd) ` set (take i R)"
proof -
  obtain d c u where i: "R ! i = (d, c, u)" by (cases "R ! i")
  note ri = removed_channels_order [OF R(2,1) i]
  have root: "ROOT_ROOM_UUID \<in> r_id ` set rs" using tree by (simp add: room_tree_ok_def)
  have inj: "a = b" if "get_mumble_id cm a = Some x" "get_mumble_id cm b = Some x" for a b x
    by (rule channels.number_inject [OF ok that])
  have below: "u = r_parent r" if r: "channel_shown cm v r" "get_mumble_id cm (r_id r) = Some c'" "r_id r \<noteq> ROOT_ROOM_UUID" for r
    using r c' i inj [OF ri(2)] by (auto simp: channel_shown_def)
  from keys [OF c'(1)] show ?thesis
  proof (elim disjE bexE conjE)
    fix r assume r: "r \<in> set rs" "get_mumble_id cm (r_id r) = Some c'"
    show ?thesis
    proof (cases "r_id r = ROOT_ROOM_UUID")
      case True
      then have "c' = 0" using channel_ok_bound [OF ok, of "r_id r" c'] r(2) by (simp add: get_mumble_id_def)
      with top c' show ?thesis by (simp add: root_on_top_def)
    next
      case False
      with below shown r have "u = r_parent r" by blast
      with tree_parent [OF tree r(1) False] ri(4) show ?thesis by simp
    qed
  next
    fix r assume r: "r \<in> set old" "r_id r \<notin> r_id ` set rs" "get_mumble_id cm (r_id r) = Some c'" "channel_shown cm v r"
    then have ne: "r_id r \<noteq> ROOT_ROOM_UUID" using root by auto
    have "room_tree_ok old" using old_tree r(1) by auto
    with r(1) ne below [OF r(4,3) ne] have deeper: "old_depth (r_id r) old = Suc (old_depth u old)" by (simp add: old_depth_child)
    have "(old_depth (r_id r) old, c', r_id r) \<in> set R"
      using r ne by (force simp: R(1) removed_channels_def dom_get_mumble_id)
    then obtain j where j: "j < length R" "R ! j = (old_depth (r_id r) old, c', r_id r)" by (meson in_set_conv_nth)
    have "\<not> i \<le> j" using ri(5) [OF j(1) _ j(2)] ri(1) deeper by auto
    then have "R ! j \<in> set (take i R)" using j(1) R(2)
      by (metis in_set_conv_nth length_take min_less_iff_conj not_le nth_take)
    with j(2) show ?thesis by force
  qed
qed

lemma reconcile_safe:
  assumes pre: "reconcilable new_rooms new_users cm um" and fuel: "length new_rooms \<le> fuel"
    and shows_old: "bridge_shows old_rooms old_users cm um v" and ord: "orderly old_rooms cm v"
    and D: "D = stranded new_rooms cm v"
  shows "\<exists>out cm' um'. reconcile_server_state fuel old_rooms old_users new_rooms new_users cm um skip = Some (out, cm', um') \<and>
    throughout (well_referenced D) (ro_messages out) v \<and>
    (\<forall>s < 100000. vw_users (view_after (ro_messages out) v) s = vw_users v s)"
  using pre fuel shows_old
proof (rule reconcile_stages)
  fix ord cm2 msgs2 um1 cm3 um3 msgs3 v1 v2 v3
  let ?us = "visible_users skip new_users" and ?R = "removed_channels old_rooms new_rooms cm3"
  assume st: "parent_first {} ord" "distinct (map r_id ord)" "set ord = set new_rooms" "length ord = length new_rooms"
    and two: "channel_steps old_rooms ord cm = (cm2, msgs2)"
    and three: "user_updates old_users ?us (cm2, um1) = ((cm3, um3), msgs3)"
    and result: "reconcile_server_state fuel old_rooms old_users new_rooms new_users cm um skip =
       Some (\<lparr>ro_messages = user_removes (vanished_users new_users um skip) @ msgs2 @ msgs3 @
                map (\<lambda>(_, c, _). SyncChannelRemove \<lparr>cr_channel_id = c\<rparr>) ?R,
              ro_removed_user_ids = map fst (vanished_users new_users um skip)\<rparr>,
             fold remove_by_uuid (map (snd \<circ> snd) ?R) cm3, um3)"
    and v: "v1 = view_after (user_removes (vanished_users new_users um skip)) v" "v2 = view_after msgs2 v1" "v3 = view_after msgs3 v2"
    and ch1: "vw_channels v1 = vw_channels v" and shown1: "\<forall>x \<in> set old_rooms. channel_shown cm v1 x"
    and sess1: "\<forall>s. s \<in> dom (vw_users v1) \<longrightarrow> 100000 \<le> s \<longrightarrow> (\<exists>i \<in> u_user_id ` set ?us. get_mumble_session um1 i = Some s)"
    and um1: "user_ok um1" "length ?us \<le> user_left um1"
    and cm2: "channel_ok cm2" "0 < channel_left cm2" "keeps_numbers cm cm2"
    and shown2: "\<forall>r \<in> set new_rooms. channel_shown cm2 v2 r" and us2: "vw_users v2 = vw_users v1"
    and ok3: "channel_ok cm3" and num3: "get_mumble_id cm3 = get_mumble_id cm2"
    and keep3: "\<forall>i s. get_mumble_session um1 i = Some s \<longrightarrow> get_mumble_session um3 i = Some s"
    and users3: "\<forall>u \<in> set ?us. user_shown cm3 um3 v3 u" and ch3: "vw_channels v3 = vw_channels v2"
    and domv3: "dom (vw_users v3) = dom (vw_users v2) \<union> shown_sessions um3 ?us"
  have ok: "channel_ok cm" and tree: "room_tree_ok new_rooms" and left: "2 * length ord \<le> channel_left cm"
    and rooms: "\<forall>u \<in> set ?us. u_current_room u \<in> r_id ` set new_rooms"
    using pre st(4) by (simp_all add: reconcilable_def)
  have old_tree: "old_rooms = [] \<or> room_tree_ok old_rooms" and wr: "well_referenced D v" and top: "root_on_top v1"
    and keys: "\<forall>c \<in> dom (vw_channels v1). \<exists>r \<in> set old_rooms. get_mumble_id cm (r_id r) = Some c"
    and clients: "s < 100000 \<Longrightarrow> s \<notin> D \<Longrightarrow> vw_users v s = Some uv \<Longrightarrow> uv_channel uv = Some c \<Longrightarrow>
        \<exists>r \<in> set new_rooms. get_mumble_id cm (r_id r) = Some c" for s uv c
    using assms(4) ch1 by (auto simp: orderly_def root_on_top_def D stranded_def intro: well_referenced_mono)
  have safe1: "throughout (well_referenced D) (user_removes (vanished_users new_users um skip)) v" by (rule user_removes_safe [OF wr])
  have wr1: "well_referenced D v1" using throughout_end [OF safe1] by (simp add: v(1))
  have shown1': "\<forall>x \<in> set old_rooms. r_id x \<in> r_id ` set ord \<longrightarrow> channel_shown cm v1 x" using shown1 by blast
  have safe2: "throughout (well_referenced D) msgs2 v1" "root_on_top v2"
    using channel_steps_safe [OF ok left two st(2) shown1' st(1) _ wr1 top] by (simp_all add: v(2))
  have wr2: "well_referenced D v2" using throughout_end [OF safe2(1)] by (simp add: v(2))
  have all2: "\<forall>r. r_id r \<notin> r_id ` set new_rooms \<longrightarrow> channel_shown cm v1 r \<longrightarrow> channel_shown cm2 v2 r"
    "dom (vw_channels v2) = dom (vw_channels v1) \<union> (\<lambda>r. the (get_mumble_id cm2 (r_id r))) ` set new_rooms"
    using channel_steps_shown [OF ok left two st(2) shown1'] by (simp_all add: v(2) st(3))
  have "\<forall>u \<in> set ?us. announced cm2 v2 (u_current_room u)"
    using rooms shown2 channel_shown_announced by fastforce
  note safe3 = user_updates_safe [OF cm2(1,2) this um1 three wr2, folded v(3)]
  have wr3: "well_referenced D v3" using safe3 throughout_end v(3) by blast
  have shown3: "\<forall>r \<in> set new_rooms. channel_shown cm3 v3 r" "root_on_top v3"
    using shown2 safe2(2) by (simp_all add: channel_shown_def root_on_top_def num3 ch3)
  have keys3: "(\<exists>r \<in> set new_rooms. get_mumble_id cm3 (r_id r) = Some c) \<or>
      (\<exists>r \<in> set old_rooms. r_id r \<notin> r_id ` set new_rooms \<and> get_mumble_id cm3 (r_id r) = Some c \<and> channel_shown cm3 v3 r)"
    if "vw_channels v3 c = Some cv" for c cv
  proof (cases "\<exists>r \<in> set new_rooms. get_mumble_id cm3 (r_id r) = Some c")
    case False
    have "c \<in> dom (vw_channels v2)" using that ch3 by auto
    moreover have "c \<noteq> the (get_mumble_id cm2 (r_id r))" if "r \<in> set new_rooms" for r
      using False bspec [OF shown2 that] that by (auto simp: channel_shown_def num3)
    ultimately have "c \<in> dom (vw_channels v1)" using all2(2) by blast
    then obtain r where r: "r \<in> set old_rooms" "get_mumble_id cm (r_id r) = Some c" using keys by blast
    then have c2: "get_mumble_id cm3 (r_id r) = Some c" using keeps_numbersD [OF cm2(3)] by (simp add: num3)
    have new: "r_id r \<notin> r_id ` set new_rooms"
    proof
      assume "r_id r \<in> r_id ` set new_rooms"
      then obtain x where "r_id r = r_id x" "x \<in> set new_rooms" by (rule imageE)
      with False c2 show False by simp
    qed
    with all2(1) shown1 r(1) have "channel_shown cm2 v2 r" by blast
    then have "channel_shown cm3 v3 r" by (simp add: channel_shown_def num3 ch3)
    with r(1) new c2 show ?thesis by blast
  qed simp
  have "s \<notin> snd ` set (vanished_users new_users um skip)" if "s < 100000" for s
  proof
    assume "s \<in> snd ` set (vanished_users new_users um skip)"
    then obtain i where "(i, s) \<in> set (vanished_users new_users um skip)" by force
    with pre have "get_mumble_session um i = Some s" by (simp add: set_vanished_users reconcilable_def)
    with user_ok_bound pre that show False by (fastforce simp: get_mumble_session_def reconcilable_def)
  qed
  then have low: "vw_users v3 s = vw_users v s" if "s < 100000" for s
    using that safe3 us2 by (simp add: v(1) view_user_removes)
  have inhabited: "\<exists>u \<in> r_id ` set new_rooms. get_mumble_id cm3 u = Some c" if "s \<notin> D" "vw_users v3 s = Some uv" "uv_channel uv = Some c" for s uv c
  proof (cases "s < 100000")
    case True
    with that low have "vw_users v s = Some uv" by simp
    from clients [OF True that(1) this that(3)] show ?thesis using keeps_numbersD [OF cm2(3)] by (auto simp: num3)
  next
    case False
    then have "s \<in> shown_sessions um3 ?us"
      using that(2) domv3 sess1 keep3 us2 by (fastforce simp: shown_sessions_def not_less)
    then obtain u where u: "u \<in> set ?us" "get_mumble_session um3 (u_user_id u) = Some s" by (auto simp: shown_sessions_def)
    with users3 that have "get_mumble_id cm3 (u_current_room u) = Some c" by (fastforce simp: user_shown_def)
    with rooms u(1) show ?thesis by blast
  qed
  have safe4: "throughout (well_referenced D) (map (\<lambda>(_, c, _). SyncChannelRemove \<lparr>cr_channel_id = c\<rparr>) ?R) v3"
  proof (rule channel_removes_safe [OF wr3])
    show "c' \<in> (fst \<circ> snd) ` set (take i ?R)"
      if "i < length ?R" "vw_channels v3 c' = Some cv" "cv_parent cv = Some (fst (snd (?R ! i)))" for i c' cv
      by (rule removed_channels_leaf [OF ok3 tree old_tree shown3 keys3 refl that])
    show "uv_channel uv \<noteq> Some (fst (snd (?R ! i)))" if i: "i < length ?R" and sD: "s \<notin> D" and uv: "vw_users v3 s = Some uv" for i s uv
    proof
      assume c: "uv_channel uv = Some (fst (snd (?R ! i)))"
      obtain d c' u where ri: "?R ! i = (d, c', u)" by (cases "?R ! i")
      from inhabited [OF sD uv c] obtain u' where "u' \<in> r_id ` set new_rooms" "get_mumble_id cm3 u' = Some c'" using ri by auto
      with removed_channels_order(2,4) [OF i refl ri] channels.number_inject [OF ok3] show False by blast
    qed
  qed
  have "throughout (well_referenced D) (user_removes (vanished_users new_users um skip) @ msgs2 @ msgs3 @
      map (\<lambda>(_, c, _). SyncChannelRemove \<lparr>cr_channel_id = c\<rparr>) ?R) v"
    using safe1 safe2(1) safe3 safe4 by (simp only: throughout_append v)
  moreover have "vw_users (view_after (map (\<lambda>(_, c, _). SyncChannelRemove \<lparr>cr_channel_id = c\<rparr>) ?R) v3) = vw_users v3"
    by (rule view_fields_channel_removes)
  ultimately show ?thesis using result low by (simp add: v)
qed

text \<open>A channel whose room is not among the new ones is gone at the end.\<close>

lemma reconcile_removes_channel:
  assumes pre: "reconcilable new_rooms new_users cm um" and fuel: "length new_rooms \<le> fuel"
    and shows_old: "bridge_shows old_rooms old_users cm um v"
    and run: "reconcile_server_state fuel old_rooms old_users new_rooms new_users cm um skip = Some (out, cm', um')"
    and u: "get_mumble_id cm u = Some c" "u \<notin> r_id ` set new_rooms"
  shows "c \<notin> dom (vw_channels (view_after (ro_messages out) v))"
  using pre fuel shows_old
proof (rule reconcile_stages)
  fix ord cm2 msgs2 um1 cm3 um3 msgs3 v1 v2 v3
  assume result: "reconcile_server_state fuel old_rooms old_users new_rooms new_users cm um skip =
       Some (\<lparr>ro_messages = user_removes (vanished_users new_users um skip) @ msgs2 @ msgs3 @
                map (\<lambda>(_, c, _). SyncChannelRemove \<lparr>cr_channel_id = c\<rparr>) (removed_channels old_rooms new_rooms cm3),
              ro_removed_user_ids = map fst (vanished_users new_users um skip)\<rparr>,
             fold remove_by_uuid (map (snd \<circ> snd) (removed_channels old_rooms new_rooms cm3)) cm3, um3)"
    and keep: "keeps_numbers cm cm2" and num3: "get_mumble_id cm3 = get_mumble_id cm2"
  have "u \<noteq> ROOT_ROOM_UUID" using u(2) pre by (auto simp: reconcilable_def room_tree_ok_def)
  moreover have "get_mumble_id cm3 u = Some c" using keeps_numbersD [OF keep u(1)] by (simp add: num3)
  ultimately have "c \<in> (fst \<circ> snd) ` set (removed_channels old_rooms new_rooms cm3)"
    unfolding removed_channels_sets using u(2) by blast
  then have "vw_channels (view_after (map (\<lambda>(_, c, _). SyncChannelRemove \<lparr>cr_channel_id = c\<rparr>)
      (removed_channels old_rooms new_rooms cm3)) x) c = None" for x
    unfolding view_fields_channel_removes by simp
  then show ?thesis using result run by (auto simp: dom_def)
qed

lemma stranded_left_behind:
  assumes pre: "reconcilable new_rooms new_users cm um" "length new_rooms \<le> fuel"
    and shows_old: "bridge_shows old_rooms old_users cm um v" and ord: "orderly old_rooms cm v"
    and run: "reconcile_server_state fuel old_rooms old_users new_rooms new_users cm um skip = Some (out, cm', um')"
    and s: "s \<in> stranded new_rooms cm v"
  shows "\<exists>uv c. vw_users (view_after (ro_messages out) v) s = Some uv \<and> uv_channel uv = Some c \<and>
    c \<notin> dom (vw_channels (view_after (ro_messages out) v))"
proof -
  obtain uv c where uv: "s < 100000" "vw_users v s = Some uv" "uv_channel uv = Some c"
    "\<forall>r \<in> set new_rooms. get_mumble_id cm (r_id r) \<noteq> Some c" using s by (auto simp: stranded_def)
  have "c \<in> dom (vw_channels v)" using ord uv(2,3) by (auto simp: orderly_def well_referenced_def)
  with ord obtain r :: room where r: "get_mumble_id cm (r_id r) = Some c" unfolding orderly_def by blast
  with uv(4) have "r_id r \<notin> r_id ` set new_rooms" by force
  from reconcile_removes_channel [OF pre shows_old run r this]
  have "c \<notin> dom (vw_channels (view_after (ro_messages out) v))" .
  moreover have "vw_users (view_after (ro_messages out) v) s = vw_users v s"
    using reconcile_safe [OF pre shows_old ord refl, of skip] run uv(1) by auto
  ultimately show ?thesis using uv(2,3) by auto
qed

section \<open>Properties\<close>

text \<open>C27: The order of the reconciliation messages is safe, but for the bridge's own Mumble clients. A
  client that shows the old room tree and applies the messages one at a time never shows, at any
  point in between, a channel whose parent it does not have, and never a user in a channel it does
  not have unless that user is a Mumble client of the bridge that sat in a channel without a new
  room. Those clients are not moved by any message: at the end they are shown in a channel that
  is gone.\<close>

theorem reconcile_never_dangles:
  assumes "reconcilable new_rooms new_users cm um" and "length new_rooms \<le> fuel"
    and "bridge_shows old_rooms old_users cm um v" and "orderly old_rooms cm v"
  shows "\<exists>out cm' um'. reconcile_server_state fuel old_rooms old_users new_rooms new_users cm um skip = Some (out, cm', um') \<and>
    (\<forall>k. well_referenced (stranded new_rooms cm v) (view_after (take k (ro_messages out)) v)) \<and>
    (\<forall>s \<in> stranded new_rooms cm v. \<exists>uv c. vw_users (view_after (ro_messages out) v) s = Some uv \<and>
       uv_channel uv = Some c \<and> c \<notin> dom (vw_channels (view_after (ro_messages out) v)))"
  using reconcile_safe [OF assms refl, of skip] throughout_take stranded_left_behind [OF assms] by blast

text \<open>Two rooms below the root, one of which goes while the Mumble client 1000 sits in it.\<close>

definition stranding_map :: channel_map where
  "stranding_map = \<lparr>cm_rumble_to_mumble = [(5, 1), (0, 0)], cm_mumble_to_rumble = [(1, 5), (0, 0)], cm_next_id = 2\<rparr>"

definition stranding_rooms :: "room list" where
  "stranding_rooms = [sample_channel 0 ''Root'' 0 None, sample_channel 5 ''Lobby'' 0 None]"

definition stranding_view :: mumble_view where
  "stranding_view =
     \<lparr>vw_channels = [0 \<mapsto> \<lparr>cv_parent = None, cv_name = Some ''Root'', cv_description = None\<rparr>,
                      1 \<mapsto> \<lparr>cv_parent = Some 0, cv_name = Some ''Lobby'', cv_description = None\<rparr>],
      vw_users = [1000 \<mapsto> \<lparr>uv_name = Some ''ann'', uv_channel = Some 1, uv_mute = None, uv_deaf = None\<rparr>]\<rparr>"

theorem reconcile_never_dangles_witness:
  "\<exists>out cm' um'. reconcile_server_state 1 stranding_rooms [] lone_root [] stranding_map user_map_new no_skips = Some (out, cm', um') \<and>
     (\<forall>k. well_referenced {1000} (view_after (take k (ro_messages out)) stranding_view)) \<and>
     (\<exists>uv c. vw_users (view_after (ro_messages out) stranding_view) 1000 = Some uv \<and> uv_channel uv = Some c \<and>
        c \<notin> dom (vw_channels (view_after (ro_messages out) stranding_view)))"
proof -
  have ids: "get_mumble_id stranding_map u = (if u = 5 then Some 1 else if u = 0 then Some 0 else None)" for u
    by (simp add: get_mumble_id_def stranding_map_def)
  have rids: "get_rumble_uuid stranding_map c = (if c = 1 then Some 5 else if c = 0 then Some 0 else None)" for c
    by (simp add: get_rumble_uuid_def stranding_map_def)
  have cok: "channel_ok stranding_map" "channel_left stranding_map = 2 ^ 32 - 3"
    by (simp_all add: channel_ok_def stranding_map_def inverse_tables_def dm_ok_def ROOT_ROOM_UUID_def channel_left_def insert_commute)
  have pre: "reconcilable lone_root [] stranding_map user_map_new"
    using lone_root_reconcilable cok by (simp add: reconcilable_def) (simp add: lone_root_def)
  have "reaches_root stranding_rooms 0" using reaches_root.root [of stranding_rooms] by (simp add: ROOT_ROOM_UUID_def)
  moreover from this have "reaches_root stranding_rooms (r_id (sample_channel 5 ''Lobby'' 0 None))"
    by (intro reaches_root.child) (simp_all add: stranding_rooms_def, simp add: sample_channel_def)
  ultimately have tree: "room_tree_ok stranding_rooms"
    by (simp add: room_tree_ok_def) (simp add: stranding_rooms_def sample_channel_def ROOT_ROOM_UUID_def)
  have v: "bridge_shows stranding_rooms [] stranding_map user_map_new stranding_view"
    by (auto simp: bridge_shows_def stranding_rooms_def channel_shown_def ids sample_channel_def ROOT_ROOM_UUID_def stranding_view_def
        rids split: if_splits)
  have o: "orderly stranding_rooms stranding_map stranding_view"
    using tree by (auto simp: orderly_def well_referenced_def root_on_top_def stranding_view_def ids split: if_splits)
      (auto simp: stranding_rooms_def sample_channel_def)
  have "stranded lone_root stranding_map stranding_view = {1000}"
    by (auto simp: stranded_def stranding_view_def lone_root_def ids sample_channel_def split: if_splits)
  with reconcile_never_dangles [OF pre _ v o, of 1 no_skips] show ?thesis by (auto simp: lone_root_def)
qed

end
