(* ===== verification/JitterBuffer.thy ===== *)
theory JitterBuffer
  imports Prelude
begin

text \<open>
  The receiving end of a voice stream (\<open>UserAudioState\<close> of the client's
  \<open>audio_task.rs\<close>): a buffer of encoded packets keyed by the frame of the sender's media
  clock, which delays playout until enough is buffered, puts packets back into order,
  decides whether a hole is a lost packet or an intended silence, and hands one frame per
  tick to the decoder.

  Frame indices are natural numbers: a packet's index is its 64-bit timestamp divided by
  20000, and the playout cursor moves by one per 20 ms, so the end of the 64-bit range is out
  of reach. Sequence numbers and the playout target stay 32-bit words, whose arithmetic wraps
  where the source says so. Instants count nanoseconds. The Opus decoder is the codec
  library's, and floating-point arithmetic is that of the machine: both are parameters of the
  operations, and nothing below depends on how they round or decode.
\<close>

section \<open>Parameters\<close>

record 'f float_ops =
  fo_of_nat :: "nat \<Rightarrow> 'f"
  fo_add :: "'f \<Rightarrow> 'f \<Rightarrow> 'f"
  fo_sub :: "'f \<Rightarrow> 'f \<Rightarrow> 'f"
  fo_mul :: "'f \<Rightarrow> 'f \<Rightarrow> 'f"
  fo_div :: "'f \<Rightarrow> 'f \<Rightarrow> 'f"
  fo_abs :: "'f \<Rightarrow> 'f"
  fo_ceil_u32 :: "'f \<Rightarrow> u32"
  fo_less :: "'f \<Rightarrow> 'f \<Rightarrow> bool"
  fo_neg :: "'f \<Rightarrow> 'f"
  fo_powf :: "'f \<Rightarrow> 'f \<Rightarrow> 'f"
  fo_copysign :: "'f \<Rightarrow> 'f \<Rightarrow> 'f"

text \<open>A decoder returns its next state and the samples of a frame, or nothing on an error.\<close>

record ('d, 'f) decoder_ops =
  dc_decode :: "'d \<Rightarrow> bytes \<Rightarrow> 'd \<times> 'f list option"
  dc_decode_fec :: "'d \<Rightarrow> bytes \<Rightarrow> 'd \<times> 'f list option"
  dc_decode_plc :: "'d \<Rightarrow> 'd \<times> 'f list option"

section \<open>State\<close>

definition FRAME_US :: nat where
  "FRAME_US = 20000"

definition JITTER_BUFFER_MAX_PACKETS :: nat where
  "JITTER_BUFFER_MAX_PACKETS = 20"

definition MIN_TARGET_FRAMES :: u32 where
  "MIN_TARGET_FRAMES = 2"

definition MAX_TARGET_FRAMES :: u32 where
  "MAX_TARGET_FRAMES = 12"

definition DRIFT_DROP_SLACK :: u32 where
  "DRIFT_DROP_SLACK = 4"

definition RESTART_BACKWARD_FRAMES :: nat where
  "RESTART_BACKWARD_FRAMES = 100"

definition LATE_RESYNC_FRAMES :: u32 where
  "LATE_RESYNC_FRAMES = 10"

definition STREAM_STALE_THRESHOLD :: nat where
  "STREAM_STALE_THRESHOLD = 200 * 1000000"

lemmas jitter_consts = FRAME_US_def JITTER_BUFFER_MAX_PACKETS_def MIN_TARGET_FRAMES_def
  MAX_TARGET_FRAMES_def DRIFT_DROP_SLACK_def RESTART_BACKWARD_FRAMES_def LATE_RESYNC_FRAMES_def
  STREAM_STALE_THRESHOLD_def

record buffered_packet =
  pk_seq :: u32
  pk_opus :: bytes

record ('d, 'f, 'p) user_audio_state =
  ua_decoder :: 'd
  ua_jitter_buffer :: "(nat, buffered_packet) tree"
  ua_next_play_frame :: nat
  ua_started :: bool
  ua_last_played_seq :: u32
  ua_last_played_frame :: nat
  ua_target_frames :: u32
  ua_base_frames :: u32
  ua_jitter_est_us :: 'f
  ua_last_arrival :: nat
  ua_last_arrival_frame :: nat
  ua_have_arrival :: bool
  ua_packets_received :: u32
  ua_packets_lost :: nat
  ua_packets_recovered_fec :: nat
  ua_frames_concealed :: nat
  ua_bytes_received :: nat
  ua_rx_pipeline :: "'p option"
  ua_volume_db :: 'f
  ua_stream_ended :: bool
  ua_needs_prime :: bool
  ua_pending_eos_seqs :: "u32 list"
  ua_consecutive_late :: u32

definition clamp_target :: "u32 \<Rightarrow> u32" where
  "clamp_target x = (if x < MIN_TARGET_FRAMES then MIN_TARGET_FRAMES
                     else if MAX_TARGET_FRAMES < x then MAX_TARGET_FRAMES else x)"

definition user_audio_new :: "'f float_ops \<Rightarrow> nat \<Rightarrow> 'd \<Rightarrow> u32 \<Rightarrow> ('d, 'f, 'p) user_audio_state" where
  "user_audio_new F now decoder base_delay =
     \<lparr>ua_decoder = decoder, ua_jitter_buffer = [], ua_next_play_frame = 0, ua_started = False,
      ua_last_played_seq = 0, ua_last_played_frame = 0,
      ua_target_frames = clamp_target base_delay, ua_base_frames = clamp_target base_delay,
      ua_jitter_est_us = fo_of_nat F 0, ua_last_arrival = now, ua_last_arrival_frame = 0,
      ua_have_arrival = False, ua_packets_received = 0, ua_packets_lost = 0,
      ua_packets_recovered_fec = 0, ua_frames_concealed = 0, ua_bytes_received = 0,
      ua_rx_pipeline = None, ua_volume_db = fo_of_nat F 0, ua_stream_ended = True,
      ua_needs_prime = False, ua_pending_eos_seqs = [], ua_consecutive_late = 0\<rparr>"

section \<open>Operations\<close>

definition apply_volume :: "'f float_ops \<Rightarrow> ('d, 'f, 'p) user_audio_state \<Rightarrow> 'f list \<Rightarrow> 'f list" where
  "apply_volume F s samples =
     (if ua_volume_db s \<noteq> fo_of_nat F 0
      then let gain = fo_powf F (fo_of_nat F 10) (fo_div F (ua_volume_db s) (fo_of_nat F 20));
               one = fo_of_nat F 1
           in map (\<lambda>x. let y = fo_mul F x gain
                       in if fo_less F y (fo_neg F one) then fo_neg F one
                          else if fo_less F one y then one else y) samples
      else samples)"

definition buffer_depth :: "('d, 'f, 'p) user_audio_state \<Rightarrow> nat" where
  "buffer_depth s = length (filter (\<lambda>e. ua_next_play_frame s \<le> fst e) (ua_jitter_buffer s))"

text \<open>
  The jitter estimate is folded in for forward arrivals only. The headroom is a saturating
  cast from a float; adding it to the base delay is 32-bit addition.
\<close>

definition update_jitter :: "'f float_ops \<Rightarrow> nat \<Rightarrow> nat \<Rightarrow> ('d, 'f, 'p) user_audio_state \<Rightarrow> ('d, 'f, 'p) user_audio_state" where
  "update_jitter F frame now s =
     (let s = (if ua_have_arrival s \<and> ua_last_arrival_frame s < frame
               then let arrival_delta = fo_of_nat F ((now - ua_last_arrival s) div 1000);
                        media_delta = fo_mul F (fo_of_nat F (frame - ua_last_arrival_frame s)) (fo_of_nat F FRAME_US);
                        transit = fo_abs F (fo_sub F arrival_delta media_delta);
                        est = fo_add F (ua_jitter_est_us s)
                                (fo_div F (fo_sub F transit (ua_jitter_est_us s)) (fo_of_nat F 16));
                        jitter_frames = fo_ceil_u32 F (fo_div F (fo_mul F (fo_of_nat F 2) est) (fo_of_nat F FRAME_US))
                    in s\<lparr>ua_jitter_est_us := est,
                         ua_target_frames := clamp_target (ua_base_frames s + jitter_frames)\<rparr>
               else s)
      in s\<lparr>ua_last_arrival := now, ua_last_arrival_frame := frame, ua_have_arrival := True\<rparr>)"

definition reanchor :: "nat \<Rightarrow> ('d, 'f, 'p) user_audio_state \<Rightarrow> ('d, 'f, 'p) user_audio_state" where
  "reanchor frame s =
     s\<lparr>ua_next_play_frame := frame, ua_started := False, ua_needs_prime := True, ua_pending_eos_seqs := []\<rparr>"

text \<open>The trimming loop: it removes the oldest packet until the buffer is small enough.\<close>

definition drop_oldest :: "('d, 'f, 'p) user_audio_state \<Rightarrow> ('d, 'f, 'p) user_audio_state" where
  "drop_oldest s =
     (case ua_jitter_buffer s of
        [] \<Rightarrow> s
      | (oldest, _) # _ \<Rightarrow>
          let rest = tree_remove oldest (ua_jitter_buffer s)
          in if ua_started s
             then s\<lparr>ua_jitter_buffer := rest,
                    ua_next_play_frame := (if ua_next_play_frame s \<le> oldest then oldest + 1
                                           else ua_next_play_frame s)\<rparr>
             else s\<lparr>ua_jitter_buffer := rest,
                    ua_next_play_frame := (case rest of [] \<Rightarrow> ua_next_play_frame s
                                           | (first, _) # _ \<Rightarrow> first)\<rparr>)"

function trim_buffer :: "nat \<Rightarrow> ('d, 'f, 'p) user_audio_state \<Rightarrow> ('d, 'f, 'p) user_audio_state" where
  "trim_buffer max_depth s =
     (if (JITTER_BUFFER_MAX_PACKETS < length (ua_jitter_buffer s) \<or> max_depth < buffer_depth s) \<and> ua_jitter_buffer s \<noteq> []
      then trim_buffer max_depth (drop_oldest s)
      else s)"
  by pat_completeness auto

lemma length_tree_remove_hd:
  "length (tree_remove k ((k, v) # t)) \<le> length t"
  by (simp add: tree_remove_def)

termination trim_buffer
proof (relation "measure (\<lambda>(_, s). length (ua_jitter_buffer s))", goal_cases)
  case (2 max_depth s)
  then show ?case
    by (cases "ua_jitter_buffer s")
      (auto simp: drop_oldest_def Let_def le_imp_less_Suc length_tree_remove_hd split: prod.split)
qed simp

declare trim_buffer.simps [simp del]

definition accept_packet :: "nat \<Rightarrow> u32 \<Rightarrow> bytes \<Rightarrow> ('d, 'f, 'p) user_audio_state \<Rightarrow> ('d, 'f, 'p) user_audio_state" where
  "accept_packet frame sequence opus s =
     (let buffer = tree_insert frame \<lparr>pk_seq = sequence, pk_opus = opus\<rparr> (ua_jitter_buffer s);
          s = s\<lparr>ua_consecutive_late := 0, ua_stream_ended := False, ua_jitter_buffer := buffer,
                ua_next_play_frame := (if ua_started s then ua_next_play_frame s
                                       else case buffer of [] \<Rightarrow> ua_next_play_frame s
                                            | (first, _) # _ \<Rightarrow> first)\<rparr>
      in trim_buffer (if ua_started s then unat (ua_target_frames s + DRIFT_DROP_SLACK)
                      else JITTER_BUFFER_MAX_PACKETS) s)"

definition saturating_inc :: "u32 \<Rightarrow> u32" where
  "saturating_inc x = (if x = - 1 then x else x + 1)"

definition note_arrival ::
  "'f float_ops \<Rightarrow> nat \<Rightarrow> bytes \<Rightarrow> nat \<Rightarrow> ('d, 'f, 'p) user_audio_state \<Rightarrow> ('d, 'f, 'p) user_audio_state" where
  "note_arrival F frame opus arrival s =
     update_jitter F frame arrival
       (s\<lparr>ua_packets_received := ua_packets_received s + 1,
          ua_bytes_received := ua_bytes_received s + length opus\<rparr>)"

definition restart_at :: "nat \<Rightarrow> ('d, 'f, 'p) user_audio_state \<Rightarrow> ('d, 'f, 'p) user_audio_state" where
  "restart_at frame s = reanchor frame (s\<lparr>ua_jitter_buffer := []\<rparr>)"

definition insert_packet_at ::
  "'f float_ops \<Rightarrow> u32 \<Rightarrow> u64 \<Rightarrow> bytes \<Rightarrow> nat \<Rightarrow> ('d, 'f, 'p) user_audio_state \<Rightarrow> ('d, 'f, 'p) user_audio_state" where
  "insert_packet_at F sequence timestamp_us opus arrival s =
     (let frame = unat timestamp_us div FRAME_US;
          s = note_arrival F frame opus arrival s
      in if ua_started s \<and> frame + RESTART_BACKWARD_FRAMES < ua_next_play_frame s
         then accept_packet frame sequence opus (restart_at frame s)
         else if ua_started s \<and> frame < ua_next_play_frame s
         then let s = s\<lparr>ua_consecutive_late := saturating_inc (ua_consecutive_late s)\<rparr>
              in if ua_consecutive_late s \<le> LATE_RESYNC_FRAMES then s
                 else accept_packet frame sequence opus (restart_at frame s)
         else accept_packet frame sequence opus s)"

definition mark_end_of_stream :: "u32 \<Rightarrow> ('d, 'f, 'p) user_audio_state \<Rightarrow> ('d, 'f, 'p) user_audio_state" where
  "mark_end_of_stream sequence s =
     s\<lparr>ua_stream_ended := True,
       ua_pending_eos_seqs :=
         (if sequence \<in> set (ua_pending_eos_seqs s) then ua_pending_eos_seqs s
          else (if 8 \<le> length (ua_pending_eos_seqs s) then tl (ua_pending_eos_seqs s)
                else ua_pending_eos_seqs s) @ [sequence])\<rparr>"

definition ready_to_play :: "('d, 'f, 'p) user_audio_state \<Rightarrow> bool" where
  "ready_to_play s \<longleftrightarrow> ua_started s \<or> unat (ua_target_frames s) \<le> buffer_depth s"

definition is_stream_live :: "nat \<Rightarrow> ('d, 'f, 'p) user_audio_state \<Rightarrow> bool" where
  "is_stream_live now s =
     (let stale = ua_have_arrival s \<and> STREAM_STALE_THRESHOLD < now - ua_last_arrival s
      in if \<not> ua_stream_ended s \<and> \<not> stale then True
         else ready_to_play s \<and> ua_jitter_buffer s \<noteq> [])"

text \<open>Decoding: concealment, the frame at the cursor, and a hole at the cursor.\<close>

definition conceal :: "('d, 'f) decoder_ops \<Rightarrow> ('d, 'f, 'p) user_audio_state \<Rightarrow> ('d, 'f, 'p) user_audio_state \<times> 'f list option" where
  "conceal D s =
     (case dc_decode_plc D (ua_decoder s) of
        (d, pcm) \<Rightarrow> (s\<lparr>ua_decoder := d, ua_frames_concealed := ua_frames_concealed s + 1\<rparr>, pcm))"

definition take_packet ::
  "nat \<Rightarrow> buffered_packet \<Rightarrow> ('d, 'f, 'p) user_audio_state \<Rightarrow> ('d, 'f, 'p) user_audio_state" where
  "take_packet frame pkt s =
     s\<lparr>ua_jitter_buffer := tree_remove frame (ua_jitter_buffer s),
       ua_started := True, ua_last_played_seq := pk_seq pkt, ua_last_played_frame := frame,
       ua_next_play_frame := ua_next_play_frame s + 1,
       ua_pending_eos_seqs :=
         filter (\<lambda>q. q - pk_seq pkt \<noteq> 0 \<and> unat (q - pk_seq pkt) < (2 ^ 32 - 1) div 2) (ua_pending_eos_seqs s)\<rparr>"

definition play_packet ::
  "('d, 'f) decoder_ops \<Rightarrow> nat \<Rightarrow> buffered_packet \<Rightarrow> ('d, 'f, 'p) user_audio_state \<Rightarrow> ('d, 'f, 'p) user_audio_state \<times> 'f list option" where
  "play_packet D frame pkt s =
     (let s = take_packet frame pkt s
      in case dc_decode D (ua_decoder s) (pk_opus pkt) of
           (d, Some pcm) \<Rightarrow> (s\<lparr>ua_decoder := d\<rparr>, Some pcm)
         | (d, None) \<Rightarrow> conceal D (s\<lparr>ua_decoder := d\<rparr>))"

definition gap_is_silence :: "('d, 'f, 'p) user_audio_state \<Rightarrow> nat \<Rightarrow> u32 \<Rightarrow> bool" where
  "gap_is_silence s next_frame next_seq =
     (let media_span = next_frame - ua_last_played_frame s;
          seq_span = unat (next_seq - ua_last_played_seq s);
          eos_in_span = length (filter (\<lambda>q. 0 < unat (q - ua_last_played_seq s) \<and>
                                            unat (q - ua_last_played_seq s) < seq_span) (ua_pending_eos_seqs s))
      in seq_span - eos_in_span < media_span)"

definition play_loss ::
  "('d, 'f) decoder_ops \<Rightarrow> nat \<Rightarrow> nat \<Rightarrow> buffered_packet \<Rightarrow> ('d, 'f, 'p) user_audio_state \<Rightarrow> ('d, 'f, 'p) user_audio_state \<times> 'f list option" where
  "play_loss D frame next_frame pkt s =
     (let s = s\<lparr>ua_packets_lost := ua_packets_lost s + 1, ua_next_play_frame := ua_next_play_frame s + 1\<rparr>
      in if next_frame = frame + 1
         then (case dc_decode_fec D (ua_decoder s) (pk_opus pkt) of
                 (d, Some pcm) \<Rightarrow> (s\<lparr>ua_decoder := d, ua_packets_recovered_fec := ua_packets_recovered_fec s + 1\<rparr>, Some pcm)
               | (d, None) \<Rightarrow> conceal D (s\<lparr>ua_decoder := d\<rparr>))
         else conceal D s)"

definition play_gap :: "('d, 'f) decoder_ops \<Rightarrow> ('d, 'f, 'p) user_audio_state \<Rightarrow> ('d, 'f, 'p) user_audio_state \<times> 'f list option" where
  "play_gap D s =
     (let frame = ua_next_play_frame s
      in case find (\<lambda>e. frame + 1 \<le> fst e) (ua_jitter_buffer s) of
           None \<Rightarrow> if ua_stream_ended s then (s, None)
                   else conceal D (s\<lparr>ua_next_play_frame := ua_next_play_frame s + 1\<rparr>)
         | Some (next_frame, pkt) \<Rightarrow>
             if ua_started s \<and> gap_is_silence s next_frame (pk_seq pkt)
             then (reanchor next_frame s, None)
             else play_loss D frame next_frame pkt s)"

definition note_stale :: "nat \<Rightarrow> ('d, 'f, 'p) user_audio_state \<Rightarrow> ('d, 'f, 'p) user_audio_state" where
  "note_stale now s =
     (if \<not> ua_stream_ended s \<and> ua_have_arrival s \<and> STREAM_STALE_THRESHOLD < now - ua_last_arrival s
      then s\<lparr>ua_stream_ended := True\<rparr> else s)"

definition prime_decoder :: "('d, 'f) decoder_ops \<Rightarrow> ('d, 'f, 'p) user_audio_state \<Rightarrow> ('d, 'f, 'p) user_audio_state" where
  "prime_decoder D s =
     (if ua_needs_prime s
      then s\<lparr>ua_needs_prime := False, ua_decoder := fst (dc_decode_plc D (ua_decoder s))\<rparr>
      else s)"

definition decode_next_into ::
  "('d, 'f) decoder_ops \<Rightarrow> nat \<Rightarrow> ('d, 'f, 'p) user_audio_state \<Rightarrow> ('d, 'f, 'p) user_audio_state \<times> 'f list option" where
  "decode_next_into D now s =
     (if \<not> ready_to_play s then (s, None)
      else let s = note_stale now s
           in if ua_stream_ended s \<and> ua_jitter_buffer s = [] then (s, None)
              else let s = prime_decoder D s
                   in case tree_get (ua_jitter_buffer s) (ua_next_play_frame s) of
                        Some pkt \<Rightarrow> play_packet D (ua_next_play_frame s) pkt s
                      | None \<Rightarrow> play_gap D s)"

section \<open>Well-formed states\<close>

text \<open>
  What every state of a buffer satisfies: packets are sorted by frame and none lies behind
  the cursor; before playout starts the cursor is on the first packet, and afterwards it is
  past the last frame played; the buffer, the target, the list of end markers and the run of
  late packets are bounded.
\<close>

definition cursor_ok :: "bool \<Rightarrow> (nat, 'v) tree \<Rightarrow> nat \<Rightarrow> bool" where
  "cursor_ok started buffer cursor \<longleftrightarrow>
     tree_ok buffer \<and> (\<forall>e \<in> set buffer. cursor \<le> fst e) \<and>
     (\<not> started \<longrightarrow> buffer \<noteq> [] \<longrightarrow> fst (hd buffer) = cursor)"

definition target_ok :: "u32 \<Rightarrow> bool" where
  "target_ok t \<longleftrightarrow> MIN_TARGET_FRAMES \<le> t \<and> t \<le> MAX_TARGET_FRAMES"

definition jitter_ok :: "('d, 'f, 'p) user_audio_state \<Rightarrow> bool" where
  "jitter_ok s \<longleftrightarrow>
     cursor_ok (ua_started s) (ua_jitter_buffer s) (ua_next_play_frame s) \<and>
     length (ua_jitter_buffer s) \<le> JITTER_BUFFER_MAX_PACKETS \<and>
     target_ok (ua_target_frames s) \<and> target_ok (ua_base_frames s) \<and>
     (ua_started s \<longrightarrow> ua_last_played_frame s < ua_next_play_frame s) \<and>
     length (ua_pending_eos_seqs s) \<le> 8 \<and> distinct (ua_pending_eos_seqs s) \<and>
     ua_consecutive_late s \<le> LATE_RESYNC_FRAMES"

named_theorems jitter_intros \<open>operations keep a buffer well formed\<close>

lemma target_ok_clamp [simp]: "target_ok (clamp_target x)"
  by (auto simp: target_ok_def clamp_target_def MIN_TARGET_FRAMES_def MAX_TARGET_FRAMES_def)

lemma target_ok_unat: "target_ok t \<longleftrightarrow> 2 \<le> unat t \<and> unat t \<le> 12"
  by (simp add: target_ok_def word_le_nat_alt MIN_TARGET_FRAMES_def MAX_TARGET_FRAMES_def)

lemma tree_remove_hd [simp]: "tree_ok ((k, v) # t) \<Longrightarrow> tree_remove k ((k, v) # t) = t"
  by (force simp: tree_remove_def tree_ok_def filter_id_conv)

lemma tree_ok_ConsD: "tree_ok ((k, v) # t) \<Longrightarrow> tree_ok t \<and> (\<forall>e \<in> set t. k < fst e)"
  by (auto simp: tree_ok_def)

lemma tree_ok_drop: "tree_ok t \<Longrightarrow> tree_ok (drop n t)"
  by (simp add: tree_ok_def drop_map [symmetric] sorted_wrt_drop)

lemma cursor_ok_Nil [simp]: "cursor_ok started [] cursor"
  by (simp add: cursor_ok_def)

lemma cursor_ok_depth:
  "cursor_ok started (ua_jitter_buffer s) (ua_next_play_frame s) \<Longrightarrow> buffer_depth s = length (ua_jitter_buffer s)"
  by (simp add: cursor_ok_def buffer_depth_def filter_id_conv)

lemma cursor_ok_tl:
  assumes "cursor_ok started ((k, v) # t) cursor"
  shows "cursor_ok True t (Suc k)" and "t \<noteq> [] \<Longrightarrow> cursor_ok started' t (fst (hd t))"
proof -
  from assms have ok: "tree_ok t" "\<forall>e \<in> set t. k < fst e"
    by (auto simp: cursor_ok_def dest: tree_ok_ConsD)
  then show "cursor_ok True t (Suc k)" by (auto simp: cursor_ok_def)
  show "cursor_ok started' t (fst (hd t))" if "t \<noteq> []"
    using ok(1) that by (cases t) (auto simp: cursor_ok_def tree_ok_def order.strict_implies_order)
qed

text \<open>Trimming drops the oldest packets and moves the cursor past them.\<close>

lemma drop_oldest_Cons:
  assumes "cursor_ok (ua_started s) (ua_jitter_buffer s) (ua_next_play_frame s)"
    and "ua_jitter_buffer s = (k, v) # t" and "ua_started s \<or> t \<noteq> []"
  shows "drop_oldest s = s\<lparr>ua_jitter_buffer := t,
           ua_next_play_frame := (if ua_started s then k + 1 else fst (hd t))\<rparr>"
proof -
  from assms(1,2) have "tree_ok ((k, v) # t)" "ua_next_play_frame s \<le> k"
    by (auto simp: cursor_ok_def)
  then show ?thesis
    using assms(2,3) by (auto simp: drop_oldest_def Let_def neq_Nil_conv)
qed

lemma cursor_ok_trim:
  assumes "0 < m" and "cursor_ok (ua_started s) (ua_jitter_buffer s) (ua_next_play_frame s)"
  shows "cursor_ok (ua_started s) (ua_jitter_buffer (trim_buffer m s)) (ua_next_play_frame (trim_buffer m s)) \<and>
    length (ua_jitter_buffer (trim_buffer m s)) \<le> min JITTER_BUFFER_MAX_PACKETS m \<and>
    ua_next_play_frame s \<le> ua_next_play_frame (trim_buffer m s)"
  using assms
proof (induction m s rule: trim_buffer.induct)
  case (1 m s)
  let ?b = "ua_jitter_buffer s"
  note d = cursor_ok_depth [OF "1.prems"(2)]
  show ?case
  proof (cases "(JITTER_BUFFER_MAX_PACKETS < length ?b \<or> m < buffer_depth s) \<and> ?b \<noteq> []")
    case False
    moreover from False have "trim_buffer m s = s" by (subst trim_buffer.simps) auto
    ultimately show ?thesis using d "1.prems"(2) by auto
  next
    case True
    then obtain k v t where b: "?b = (k, v) # t" by (metis neq_Nil_conv surj_pair)
    have t: "t \<noteq> []"
      using True d b "1.prems"(1) by (auto simp: JITTER_BUFFER_MAX_PACKETS_def)
    let ?s = "drop_oldest s"
    have s: "?s = s\<lparr>ua_jitter_buffer := t,
           ua_next_play_frame := (if ua_started s then k + 1 else fst (hd t))\<rparr>"
      using drop_oldest_Cons [OF "1.prems"(2) b] t by simp
    have ok: "cursor_ok (ua_started ?s) (ua_jitter_buffer ?s) (ua_next_play_frame ?s)"
      using "1.prems"(2) t by (auto simp: s b intro: cursor_ok_tl)
    have le: "ua_next_play_frame s \<le> ua_next_play_frame ?s"
      using "1.prems"(2) t by (auto simp: s b cursor_ok_def neq_Nil_conv)
    have "trim_buffer m s = trim_buffer m ?s"
      using True by (subst trim_buffer.simps) simp
    moreover have "ua_started ?s = ua_started s" by (simp add: s)
    ultimately show ?thesis
      using "1.IH" [OF True "1.prems"(1) ok] le by auto
  qed
qed

lemma drop_oldest_shape:
  obtains b c where "drop_oldest s = s\<lparr>ua_jitter_buffer := b, ua_next_play_frame := c\<rparr>"
  by (rule that [of "ua_next_play_frame (drop_oldest s)" "ua_jitter_buffer (drop_oldest s)"])
    (auto simp: drop_oldest_def Let_def split: list.split)

lemma trim_buffer_shape:
  "\<exists>b c. trim_buffer m s = s\<lparr>ua_jitter_buffer := b, ua_next_play_frame := c\<rparr>"
proof (induction m s rule: trim_buffer.induct)
  case (1 m s)
  let ?c = "(JITTER_BUFFER_MAX_PACKETS < length (ua_jitter_buffer s) \<or> m < buffer_depth s) \<and> ua_jitter_buffer s \<noteq> []"
  show ?case
  proof (cases ?c)
    case True
    then have t: "trim_buffer m s = trim_buffer m (drop_oldest s)" by (subst trim_buffer.simps) simp
    obtain b c where d: "drop_oldest s = s\<lparr>ua_jitter_buffer := b, ua_next_play_frame := c\<rparr>"
      by (rule drop_oldest_shape)
    from "1.IH" [OF True] obtain b' c' where
      "trim_buffer m (drop_oldest s) = (drop_oldest s)\<lparr>ua_jitter_buffer := b', ua_next_play_frame := c'\<rparr>"
      by blast
    then have "trim_buffer m s = s\<lparr>ua_jitter_buffer := b', ua_next_play_frame := c'\<rparr>"
      unfolding t d by simp
    then show ?thesis by blast
  next
    case False
    then have "trim_buffer m s = s\<lparr>ua_jitter_buffer := ua_jitter_buffer s, ua_next_play_frame := ua_next_play_frame s\<rparr>"
      by (subst trim_buffer.simps) auto
    then show ?thesis by blast
  qed
qed

lemma trim_buffer_frame [frame_simps]:
  "ua_started (trim_buffer m s) = ua_started s"
  "ua_target_frames (trim_buffer m s) = ua_target_frames s"
  "ua_base_frames (trim_buffer m s) = ua_base_frames s"
  "ua_last_played_frame (trim_buffer m s) = ua_last_played_frame s"
  "ua_last_played_seq (trim_buffer m s) = ua_last_played_seq s"
  "ua_pending_eos_seqs (trim_buffer m s) = ua_pending_eos_seqs s"
  "ua_consecutive_late (trim_buffer m s) = ua_consecutive_late s"
  "ua_stream_ended (trim_buffer m s) = ua_stream_ended s"
  "ua_decoder (trim_buffer m s) = ua_decoder s"
  "ua_needs_prime (trim_buffer m s) = ua_needs_prime s"
  "ua_last_arrival (trim_buffer m s) = ua_last_arrival s"
  using trim_buffer_shape [of m s] by auto

lemma tree_ok_hd_le: "tree_ok t \<Longrightarrow> e \<in> set t \<Longrightarrow> fst (hd t) \<le> fst e"
  by (cases t) (auto simp: tree_ok_def order.strict_implies_order)

lemma tree_insert_not_Nil [simp]: "tree_insert k v t \<noteq> []"
  by (cases "(k, v, t)" rule: tree_insert.cases) auto

lemma set_tree_insert_fst: "e \<in> set (tree_insert k v t) \<Longrightarrow> fst e = k \<or> (\<exists>e' \<in> set t. fst e = fst e')"
  using fst_tree_insert [of k v t] by force

lemma cursor_ok_insert_started:
  assumes "cursor_ok True t c" and "c \<le> k"
  shows "cursor_ok True (tree_insert k v t) c"
  using assms by (auto simp: cursor_ok_def tree_ok_insert dest!: set_tree_insert_fst)

lemma cursor_ok_first:
  assumes "tree_ok t" shows "cursor_ok st t (case t of [] \<Rightarrow> c | (first, _) # _ \<Rightarrow> first)"
  using assms by (cases t) (auto simp: cursor_ok_def tree_ok_def)

section \<open>Every operation keeps a buffer well formed\<close>

lemma jitter_ok_new [jitter_intros]: "jitter_ok (user_audio_new F now d base)"
  by (simp add: jitter_ok_def user_audio_new_def)

lemma update_jitter_frame [frame_simps]:
  "ua_started (update_jitter F frame now s) = ua_started s"
  "ua_jitter_buffer (update_jitter F frame now s) = ua_jitter_buffer s"
  "ua_next_play_frame (update_jitter F frame now s) = ua_next_play_frame s"
  "ua_base_frames (update_jitter F frame now s) = ua_base_frames s"
  "ua_last_played_frame (update_jitter F frame now s) = ua_last_played_frame s"
  "ua_last_played_seq (update_jitter F frame now s) = ua_last_played_seq s"
  "ua_pending_eos_seqs (update_jitter F frame now s) = ua_pending_eos_seqs s"
  "ua_consecutive_late (update_jitter F frame now s) = ua_consecutive_late s"
  "ua_decoder (update_jitter F frame now s) = ua_decoder s"
  "ua_needs_prime (update_jitter F frame now s) = ua_needs_prime s"
  by (simp_all add: update_jitter_def Let_def)

lemma jitter_ok_update_jitter [jitter_intros]:
  "jitter_ok s \<Longrightarrow> jitter_ok (update_jitter F frame now s)"
  by (simp add: jitter_ok_def update_jitter_def Let_def)

lemma jitter_ok_accept [jitter_intros]:
  assumes ok: "jitter_ok s" and ahead: "ua_started s \<longrightarrow> ua_next_play_frame s \<le> frame"
  shows "jitter_ok (accept_packet frame sequence opus s)"
proof -
  let ?b = "tree_insert frame \<lparr>pk_seq = sequence, pk_opus = opus\<rparr> (ua_jitter_buffer s)"
  define t where "t = s\<lparr>ua_consecutive_late := 0, ua_stream_ended := False, ua_jitter_buffer := ?b,
    ua_next_play_frame := (if ua_started s then ua_next_play_frame s
                           else case ?b of [] \<Rightarrow> ua_next_play_frame s | (first, _) # _ \<Rightarrow> first)\<rparr>"
  define m where "m = (if ua_started t then unat (ua_target_frames t + DRIFT_DROP_SLACK) else JITTER_BUFFER_MAX_PACKETS)"
  have "tree_ok ?b" using ok by (simp add: jitter_ok_def cursor_ok_def tree_ok_insert)
  then have cur: "cursor_ok (ua_started t) (ua_jitter_buffer t) (ua_next_play_frame t)"
    using ok ahead cursor_ok_first [of ?b False "ua_next_play_frame s"]
    by (auto simp: t_def jitter_ok_def intro: cursor_ok_insert_started)
  have "target_ok (ua_target_frames t)" using ok by (simp add: jitter_ok_def t_def)
  then have "0 < m" by (auto simp: m_def JITTER_BUFFER_MAX_PACKETS_def DRIFT_DROP_SLACK_def target_ok_unat unat_word_ariths)
  note trim = cursor_ok_trim [OF this cur]
  have "accept_packet frame sequence opus s = trim_buffer m t"
    by (simp add: accept_packet_def t_def m_def Let_def)
  moreover have "jitter_ok (trim_buffer m t)"
    using trim ok by (auto simp: jitter_ok_def frame_simps t_def)
  ultimately show ?thesis by simp
qed

lemma accept_ignores_late [simp]:
  "accept_packet frame sequence opus (s\<lparr>ua_consecutive_late := n\<rparr>) = accept_packet frame sequence opus s"
  by (cases "tree_insert frame \<lparr>pk_seq = sequence, pk_opus = opus\<rparr> (ua_jitter_buffer s)")
    (simp_all add: accept_packet_def Let_def)

lemma note_arrival_frame [frame_simps]:
  "ua_started (note_arrival F frame opus now s) = ua_started s"
  "ua_jitter_buffer (note_arrival F frame opus now s) = ua_jitter_buffer s"
  "ua_next_play_frame (note_arrival F frame opus now s) = ua_next_play_frame s"
  "ua_last_played_frame (note_arrival F frame opus now s) = ua_last_played_frame s"
  "ua_last_played_seq (note_arrival F frame opus now s) = ua_last_played_seq s"
  "ua_pending_eos_seqs (note_arrival F frame opus now s) = ua_pending_eos_seqs s"
  "ua_consecutive_late (note_arrival F frame opus now s) = ua_consecutive_late s"
  "ua_decoder (note_arrival F frame opus now s) = ua_decoder s"
  "ua_needs_prime (note_arrival F frame opus now s) = ua_needs_prime s"
  by (simp_all add: note_arrival_def frame_simps)

lemma jitter_ok_note_arrival [jitter_intros]:
  "jitter_ok s \<Longrightarrow> jitter_ok (note_arrival F frame opus now s)"
  unfolding note_arrival_def by (rule jitter_ok_update_jitter) (simp add: jitter_ok_def)

lemma restart_at_late:
  "restart_at frame (s\<lparr>ua_consecutive_late := n\<rparr>) = (restart_at frame s)\<lparr>ua_consecutive_late := n\<rparr>"
  by (simp add: restart_at_def reanchor_def)

lemma jitter_ok_accept_restart [jitter_intros]:
  "jitter_ok s \<Longrightarrow> jitter_ok (accept_packet frame sequence opus (restart_at frame s))"
  by (rule jitter_ok_accept) (simp_all add: restart_at_def jitter_ok_def reanchor_def)

lemma jitter_ok_insert_packet_at [jitter_intros]:
  assumes "jitter_ok s"
  shows "jitter_ok (insert_packet_at F sequence timestamp_us opus arrival s)"
proof -
  let ?frame = "unat timestamp_us div FRAME_US"
  let ?t = "note_arrival F ?frame opus arrival s"
  have ok: "jitter_ok ?t" by (rule jitter_ok_note_arrival) fact
  then have "jitter_ok (?t\<lparr>ua_consecutive_late := n\<rparr>)" if "n \<le> LATE_RESYNC_FRAMES" for n
    using that by (simp add: jitter_ok_def)
  with ok show ?thesis
    by (auto simp: insert_packet_at_def Let_def restart_at_late not_less intro!: jitter_ok_accept jitter_ok_accept_restart)
qed

lemma jitter_ok_mark_end_of_stream [jitter_intros]:
  assumes "jitter_ok s" shows "jitter_ok (mark_end_of_stream q s)"
proof -
  let ?p = "ua_pending_eos_seqs s"
  have "length (tl ?p @ [q]) \<le> 8" "distinct (tl ?p @ [q])" if "q \<notin> set ?p"
    using assms that by (cases ?p; auto simp: jitter_ok_def)+
  then show ?thesis
    using assms by (auto simp: jitter_ok_def mark_end_of_stream_def)
qed

lemma jitter_ok_conceal [jitter_intros]: "jitter_ok s \<Longrightarrow> jitter_ok (fst (conceal D s))"
  by (simp add: jitter_ok_def conceal_def split: prod.split)

lemma jitter_ok_decoder [simp]:
  "jitter_ok (s\<lparr>ua_decoder := d\<rparr>) = jitter_ok s"
  "jitter_ok (s\<lparr>ua_decoder := d, ua_packets_recovered_fec := n\<rparr>) = jitter_ok s"
  by (simp_all add: jitter_ok_def)

lemma cursor_ok_remove:
  assumes "cursor_ok st t c" shows "cursor_ok True (tree_remove c t) (Suc c)"
proof -
  have "Suc c \<le> fst e" if "e \<in> set (tree_remove c t)" for e
  proof -
    from that have "e \<in> set t" "fst e \<noteq> c" by (auto simp: tree_remove_def)
    with assms show ?thesis by (fastforce simp: cursor_ok_def)
  qed
  with assms show ?thesis by (auto simp: cursor_ok_def tree_ok_remove)
qed

lemma jitter_ok_take_packet [jitter_intros]:
  assumes "jitter_ok s" shows "jitter_ok (take_packet (ua_next_play_frame s) pkt s)"
proof -
  have "length (filter f (ua_pending_eos_seqs s)) \<le> 8" for f
    using assms le_trans [OF length_filter_le] unfolding jitter_ok_def by blast
  moreover have "length (tree_remove (ua_next_play_frame s) (ua_jitter_buffer s)) \<le> JITTER_BUFFER_MAX_PACKETS"
    using assms le_trans [OF length_filter_le] unfolding jitter_ok_def tree_remove_def by blast
  ultimately show ?thesis
    using assms by (auto simp: take_packet_def jitter_ok_def intro: cursor_ok_remove)
qed

lemma jitter_ok_play_packet [jitter_intros]:
  "jitter_ok s \<Longrightarrow> jitter_ok (fst (play_packet D (ua_next_play_frame s) pkt s))"
  using jitter_ok_take_packet [of s pkt]
  by (auto simp: play_packet_def Let_def intro!: jitter_ok_conceal split: prod.split option.split)

lemma jitter_ok_play_gap [jitter_intros]:
  assumes ok: "jitter_ok s" and none: "tree_get (ua_jitter_buffer s) (ua_next_play_frame s) = None"
    and ready: "ready_to_play s"
  shows "jitter_ok (fst (play_gap D s))"
proof -
  let ?c = "ua_next_play_frame s"
  have gt: "\<forall>e \<in> set (ua_jitter_buffer s). Suc ?c \<le> fst e"
  proof
    fix e assume e: "e \<in> set (ua_jitter_buffer s)"
    with none have "fst e \<noteq> ?c" by (metis map_of_eq_None_iff rev_image_eqI)
    moreover have "?c \<le> fst e" using ok e by (simp add: jitter_ok_def cursor_ok_def)
    ultimately show "Suc ?c \<le> fst e" by simp
  qed
  have st: "ua_started s \<or> ua_jitter_buffer s = []"
  proof (rule ccontr)
    assume "\<not> ?thesis"
    then have "ua_jitter_buffer s \<noteq> []" "fst (hd (ua_jitter_buffer s)) = ?c"
      using ok by (auto simp: jitter_ok_def cursor_ok_def)
    with gt show False by (metis Suc_n_not_le_n hd_in_set)
  qed
  have "ua_started s"
  proof (rule ccontr)
    assume "\<not> ua_started s"
    moreover from this st have "buffer_depth s = 0" by (simp add: buffer_depth_def)
    ultimately show False
      using ready ok by (auto simp: ready_to_play_def jitter_ok_def target_ok_unat)
  qed
  have on: "jitter_ok (s\<lparr>ua_next_play_frame := Suc ?c\<rparr>)"
    and loss: "jitter_ok (s\<lparr>ua_packets_lost := n, ua_next_play_frame := Suc ?c\<rparr>)" for n
    using ok gt \<open>ua_started s\<close> by (auto simp: jitter_ok_def cursor_ok_def)
  show ?thesis
  proof (cases "ua_jitter_buffer s")
    case Nil
    then show ?thesis
      using ok on by (auto simp: play_gap_def Let_def intro!: jitter_ok_conceal)
  next
    case (Cons e t)
    then obtain k v where b: "ua_jitter_buffer s = (k, v) # t" by (cases e) auto
    then have find: "find (\<lambda>e. ?c + 1 \<le> fst e) (ua_jitter_buffer s) = Some (k, v)"
      using gt by simp
    have "jitter_ok (reanchor k s)"
      using ok b by (auto simp: reanchor_def jitter_ok_def cursor_ok_def tree_ok_def order.strict_implies_order)
    moreover have "jitter_ok (fst (play_loss D ?c k v s))"
      using loss by (auto simp: play_loss_def Let_def intro!: jitter_ok_conceal split: prod.split option.split)
    ultimately show ?thesis
      using find by (simp add: play_gap_def)
  qed
qed

lemma note_stale_frame [frame_simps]:
  "jitter_ok (note_stale now s) = jitter_ok s"
  "ready_to_play (note_stale now s) = ready_to_play s"
  "ua_jitter_buffer (note_stale now s) = ua_jitter_buffer s"
  "ua_next_play_frame (note_stale now s) = ua_next_play_frame s"
  "ua_started (note_stale now s) = ua_started s"
  "ua_decoder (note_stale now s) = ua_decoder s"
  "ua_needs_prime (note_stale now s) = ua_needs_prime s"
  "ua_last_played_seq (note_stale now s) = ua_last_played_seq s"
  "ua_last_played_frame (note_stale now s) = ua_last_played_frame s"
  "ua_pending_eos_seqs (note_stale now s) = ua_pending_eos_seqs s"
  by (simp_all add: note_stale_def jitter_ok_def ready_to_play_def buffer_depth_def)

lemma prime_decoder_frame [frame_simps]:
  "jitter_ok (prime_decoder D s) = jitter_ok s"
  "ready_to_play (prime_decoder D s) = ready_to_play s"
  "ua_jitter_buffer (prime_decoder D s) = ua_jitter_buffer s"
  "ua_next_play_frame (prime_decoder D s) = ua_next_play_frame s"
  "ua_started (prime_decoder D s) = ua_started s"
  "ua_stream_ended (prime_decoder D s) = ua_stream_ended s"
  "ua_last_played_seq (prime_decoder D s) = ua_last_played_seq s"
  "ua_last_played_frame (prime_decoder D s) = ua_last_played_frame s"
  "ua_pending_eos_seqs (prime_decoder D s) = ua_pending_eos_seqs s"
  by (simp_all add: prime_decoder_def jitter_ok_def ready_to_play_def buffer_depth_def)

lemma jitter_ok_decode_next_into [jitter_intros]:
  assumes "jitter_ok s" shows "jitter_ok (fst (decode_next_into D now s))"
proof -
  let ?t = "prime_decoder D (note_stale now s)"
  have ok: "jitter_ok ?t" using assms by (simp add: frame_simps)
  have "jitter_ok (fst (play_packet D (ua_next_play_frame s) pkt ?t))" for pkt
    using jitter_ok_play_packet [OF ok, of D pkt] by (simp add: frame_simps)
  moreover have "jitter_ok (fst (play_gap D ?t))"
    if "ready_to_play s" "tree_get (ua_jitter_buffer s) (ua_next_play_frame s) = None"
    using jitter_ok_play_gap [OF ok, of D] that by (simp add: frame_simps)
  ultimately show ?thesis
    using assms by (simp add: decode_next_into_def Let_def frame_simps split: option.split)
qed

section \<open>Arrivals\<close>

text \<open>
  As long as it fits the smallest trimming threshold, what arrives ahead of the cursor is filed
  under its frame whatever the order of arrival, so the buffer only depends on which packets
  arrived. The threshold is 20 packets before playout and 6 while playing.
\<close>

definition burst_limit :: "('d, 'f, 'p) user_audio_state \<Rightarrow> nat" where
  "burst_limit s = (if ua_started s then unat (MIN_TARGET_FRAMES + DRIFT_DROP_SLACK) else JITTER_BUFFER_MAX_PACKETS)"

lemma trim_buffer_small:
  "length (ua_jitter_buffer s) \<le> JITTER_BUFFER_MAX_PACKETS \<Longrightarrow> buffer_depth s \<le> m \<Longrightarrow> trim_buffer m s = s"
  by (subst trim_buffer.simps) auto

lemma depth_le_length: "buffer_depth s \<le> length (ua_jitter_buffer s)"
  by (simp add: buffer_depth_def)

lemma trim_buffer_unstarted:
  "length (ua_jitter_buffer s) \<le> JITTER_BUFFER_MAX_PACKETS \<Longrightarrow> trim_buffer JITTER_BUFFER_MAX_PACKETS s = s"
  by (rule trim_buffer_small) (auto intro: le_trans [OF depth_le_length])

lemma one_packet_fits [simp]: "Suc 0 \<le> JITTER_BUFFER_MAX_PACKETS"
  by (simp add: JITTER_BUFFER_MAX_PACKETS_def)

lemma length_tree_insert: "length (tree_insert k v t) \<le> Suc (length t)"
  by (induction k v t rule: tree_insert.induct) auto

text \<open>Everything but the buffer, the arrival statistics and, before playout, the cursor.\<close>

definition same_stream :: "('d, 'f, 'p) user_audio_state \<Rightarrow> ('d, 'f, 'p) user_audio_state \<Rightarrow> bool" where
  "same_stream s t \<longleftrightarrow>
     ua_started t = ua_started s \<and> ua_decoder t = ua_decoder s \<and> ua_needs_prime t = ua_needs_prime s \<and>
     ua_pending_eos_seqs t = ua_pending_eos_seqs s \<and> ua_last_played_seq t = ua_last_played_seq s \<and>
     ua_last_played_frame t = ua_last_played_frame s \<and>
     (ua_started s \<longrightarrow> ua_next_play_frame t = ua_next_play_frame s)"

lemma same_stream_trans: "same_stream r s \<Longrightarrow> same_stream s t \<Longrightarrow> same_stream r t"
  by (simp add: same_stream_def)

lemma accept_small:
  assumes "jitter_ok s" and "length (tree_insert frame \<lparr>pk_seq = q, pk_opus = opus\<rparr> (ua_jitter_buffer s)) \<le> burst_limit s"
  shows "ua_jitter_buffer (accept_packet frame q opus s) = tree_insert frame \<lparr>pk_seq = q, pk_opus = opus\<rparr> (ua_jitter_buffer s)"
    and "same_stream s (accept_packet frame q opus s)"
proof -
  let ?b = "tree_insert frame \<lparr>pk_seq = q, pk_opus = opus\<rparr> (ua_jitter_buffer s)"
  let ?m = "if ua_started s then unat (ua_target_frames s + DRIFT_DROP_SLACK) else JITTER_BUFFER_MAX_PACKETS"
  have t: "2 \<le> unat (ua_target_frames s)" "unat (ua_target_frames s) \<le> 12"
    using assms(1) by (simp_all add: jitter_ok_def target_ok_unat)
  have lim: "length ?b \<le> JITTER_BUFFER_MAX_PACKETS" "length ?b \<le> ?m"
    using assms(2) t by (auto simp: burst_limit_def jitter_consts unat_word_ariths split: if_splits)
  have trim: "trim_buffer ?m t = t" if "ua_jitter_buffer t = ?b" for t :: "('a, 'b, 'c) user_audio_state"
    using lim that by (intro trim_buffer_small) (auto intro: le_trans [OF depth_le_length])
  show "ua_jitter_buffer (accept_packet frame q opus s) = ?b" "same_stream s (accept_packet frame q opus s)"
    using trim by (auto simp: accept_packet_def Let_def same_stream_def)
qed

lemma insert_small:
  assumes ok: "jitter_ok s" and ahead: "ua_started s \<longrightarrow> ua_next_play_frame s \<le> frame"
    and small: "length (tree_insert frame \<lparr>pk_seq = q, pk_opus = opus\<rparr> (ua_jitter_buffer s)) \<le> burst_limit s"
    and frame: "frame = unat ts div FRAME_US" and s': "s' = insert_packet_at F q ts opus at s"
  shows "ua_jitter_buffer s' = tree_insert frame \<lparr>pk_seq = q, pk_opus = opus\<rparr> (ua_jitter_buffer s)"
    and "same_stream s s'"
proof -
  let ?t = "note_arrival F frame opus at s"
  have "s' = accept_packet frame q opus ?t"
    using ahead by (auto simp: s' frame insert_packet_at_def Let_def frame_simps)
  moreover have "same_stream s ?t" by (simp add: same_stream_def frame_simps)
  ultimately show "ua_jitter_buffer s' = tree_insert frame \<lparr>pk_seq = q, pk_opus = opus\<rparr> (ua_jitter_buffer s)"
    and "same_stream s s'"
    using accept_small [OF jitter_ok_note_arrival [OF ok, of F frame opus at], of frame q opus] small
    by (auto simp: frame_simps burst_limit_def intro: same_stream_trans)
qed

lemma tree_eqI:
  assumes "tree_ok t" and "tree_ok t'" and "tree_get t = tree_get t'"
  shows "t = t'"
proof -
  have d: "distinct (map fst t)" "distinct (map fst t')"
    using assms(1,2) by (auto dest: tree_ok_distinct)
  have "set (map fst t) = set (map fst t')"
    using arg_cong [OF assms(3), of dom] by (simp add: dom_map_of_conv_image_fst)
  then have keys: "map fst t = map fst t'"
    by (rule sorted_distinct_set_unique [rotated 4])
      (use assms(1,2) d in \<open>auto simp: tree_ok_def strict_sorted_iff\<close>)
  show ?thesis
  proof (rule nth_equalityI)
    show len: "length t = length t'" using keys by (metis length_map)
    fix i assume i: "i < length t"
    with keys len have k: "fst (t ! i) = fst (t' ! i)" by (metis nth_map)
    have "tree_get t (fst (t ! i)) = Some (snd (t ! i))" "tree_get t' (fst (t' ! i)) = Some (snd (t' ! i))"
      using d i len by (auto intro: map_of_is_SomeI)
    with k assms(3) show "t ! i = t' ! i" by (simp add: prod_eq_iff)
  qed
qed

text \<open>The packets of a spurt: consecutive frames with consecutive sequence numbers.\<close>

definition spurt_buffer :: "nat \<Rightarrow> u32 \<Rightarrow> bytes list \<Rightarrow> (nat, buffered_packet) tree" where
  "spurt_buffer f q ps = map (\<lambda>i. (f + i, \<lparr>pk_seq = q + of_nat i, pk_opus = ps ! i\<rparr>)) [0..<length ps]"

lemma spurt_buffer_Cons:
  "spurt_buffer f q (p # ps) = (f, \<lparr>pk_seq = q, pk_opus = p\<rparr>) # spurt_buffer (Suc f) (q + 1) ps"
proof -
  have "[0..<length (p # ps)] = 0 # map Suc [0..<length ps]" by (simp add: map_Suc_upt upt_conv_Cons del: upt_Suc)
  then show ?thesis by (simp add: spurt_buffer_def del: upt_Suc)
qed

lemma spurt_buffer_Nil [simp]: "spurt_buffer f q [] = []"
  by (simp add: spurt_buffer_def)

lemma length_spurt_buffer [simp]: "length (spurt_buffer f q ps) = length ps"
  by (simp add: spurt_buffer_def)

lemma fst_spurt_buffer: "map fst (spurt_buffer f q ps) = [f..<f + length ps]"
  by (induction ps arbitrary: f q) (simp_all add: spurt_buffer_Cons upt_conv_Cons del: upt_Suc)

lemma tree_ok_spurt_buffer [simp]: "tree_ok (spurt_buffer f q ps)"
  by (simp add: tree_ok_def fst_spurt_buffer)

lemma get_spurt_buffer:
  "tree_get (spurt_buffer f q ps) k =
     (if f \<le> k \<and> k < f + length ps then Some \<lparr>pk_seq = q + of_nat (k - f), pk_opus = ps ! (k - f)\<rparr> else None)"
proof (cases "f \<le> k \<and> k < f + length ps")
  case True
  have "(k, \<lparr>pk_seq = q + of_nat (k - f), pk_opus = ps ! (k - f)\<rparr>) \<in> set (spurt_buffer f q ps)"
    unfolding spurt_buffer_def set_map by (rule image_eqI [of _ _ "k - f"]) (use True in auto)
  then show ?thesis using True by (simp add: tree_ok_distinct map_of_is_SomeI)
next
  case False
  then have "k \<notin> set (map fst (spurt_buffer f q ps))" by (simp add: fst_spurt_buffer)
  then have "tree_get (spurt_buffer f q ps) k = None" by (simp add: map_of_eq_None_iff)
  then show ?thesis using False by (simp only: if_False)
qed

definition arrive ::
  "'f float_ops \<Rightarrow> nat \<Rightarrow> u32 \<Rightarrow> bytes list \<Rightarrow> nat \<times> nat \<Rightarrow> ('d, 'f, 'p) user_audio_state \<Rightarrow> ('d, 'f, 'p) user_audio_state" where
  "arrive F f q ps = (\<lambda>(i, at). insert_packet_at F (q + of_nat i) (of_nat ((f + i) * FRAME_US)) (ps ! i) at)"

lemma frame_of_timestamp:
  assumes "(f + n) * FRAME_US \<le> 2 ^ 64" and "i < n"
  shows "unat (of_nat ((f + i) * FRAME_US) :: u64) div FRAME_US = f + i"
proof -
  have "(f + i) * FRAME_US < (f + n) * FRAME_US" using assms(2) by (simp add: FRAME_US_def)
  with assms(1) have "(f + i) * FRAME_US < 2 ^ 64" by linarith
  then have "unat (of_nat ((f + i) * FRAME_US) :: u64) = (f + i) * FRAME_US"
    by (subst unat_of_nat) simp
  then show ?thesis by (simp add: FRAME_US_def)
qed

lemma tree_length_le:
  assumes "tree_ok t" and "fst ` set t \<subseteq> {f..<f + n}" shows "length t \<le> n"
proof -
  have "length t = card (fst ` set t)"
    using tree_ok_distinct [OF assms(1)] by (metis distinct_card length_map set_map)
  also have "\<dots> \<le> n" using card_mono [OF _ assms(2)] by simp
  finally show ?thesis .
qed

text \<open>What the arrivals of some packets of a burst have left in the buffer.\<close>

definition buffering ::
  "nat \<Rightarrow> u32 \<Rightarrow> bytes list \<Rightarrow> nat set \<Rightarrow> ('d, 'f, 'p) user_audio_state \<Rightarrow> ('d, 'f, 'p) user_audio_state \<Rightarrow> bool" where
  "buffering f q ps seen s t \<longleftrightarrow>
     jitter_ok t \<and> same_stream s t \<and>
     tree_get (ua_jitter_buffer t) = tree_get (spurt_buffer f q ps) |` ((+) f ` seen)"

text \<open>A burst that fits a state: it lies ahead of the cursor and within the limits.\<close>

definition burst_fits :: "nat \<Rightarrow> bytes list \<Rightarrow> ('d, 'f, 'p) user_audio_state \<Rightarrow> bool" where
  "burst_fits f ps s \<longleftrightarrow>
     length ps \<le> burst_limit s \<and> (f + length ps) * FRAME_US \<le> 2 ^ 64 \<and>
     (ua_started s \<longrightarrow> ua_next_play_frame s \<le> f)"

lemma buffering_arrive:
  assumes "buffering f q ps seen s t" and "i < length ps" and "seen \<subseteq> {..<length ps}" and fits: "burst_fits f ps s"
  shows "buffering f q ps (insert i seen) s (arrive F f q ps (i, at) t)"
proof -
  let ?pkt = "\<lparr>pk_seq = q + of_nat i, pk_opus = ps ! i\<rparr>" and ?t = "arrive F f q ps (i, at) t"
  have ok: "jitter_ok t" and same: "same_stream s t"
    and get: "tree_get (ua_jitter_buffer t) = tree_get (spurt_buffer f q ps) |` ((+) f ` seen)"
    using assms(1) by (simp_all add: buffering_def)
  have ahead: "ua_started t \<longrightarrow> ua_next_play_frame t \<le> f + i" and lim: "burst_limit t = burst_limit s"
    using same fits by (auto simp: same_stream_def burst_fits_def burst_limit_def)
  have "fst ` set (ua_jitter_buffer t) = dom (tree_get (ua_jitter_buffer t))"
    by (simp add: dom_map_of_conv_image_fst)
  also have "\<dots> \<subseteq> {f..<f + length ps}" using assms(3) by (auto simp: get)
  finally have "fst ` set (tree_insert (f + i) ?pkt (ua_jitter_buffer t)) \<subseteq> {f..<f + length ps}"
    using assms(2) by (simp add: fst_tree_insert)
  moreover have "tree_ok (tree_insert (f + i) ?pkt (ua_jitter_buffer t))"
    using ok by (simp add: jitter_ok_def cursor_ok_def tree_ok_insert)
  ultimately have "length (tree_insert (f + i) ?pkt (ua_jitter_buffer t)) \<le> burst_limit t"
    using fits unfolding lim burst_fits_def by (meson le_trans tree_length_le)
  note ins = insert_small [OF ok ahead this frame_of_timestamp [of f "length ps", OF _ assms(2), symmetric], of ?t F at]
  have t: "?t = insert_packet_at F (q + of_nat i) (of_nat ((f + i) * FRAME_US)) (ps ! i) at t"
    by (simp add: arrive_def)
  have ins1: "ua_jitter_buffer ?t = tree_insert (f + i) ?pkt (ua_jitter_buffer t)" and ins2: "same_stream t ?t"
    using ins [OF _ t] fits by (simp_all add: burst_fits_def)
  have "jitter_ok ?t" unfolding t by (rule jitter_ok_insert_packet_at [OF ok])
  moreover have "tree_get (ua_jitter_buffer ?t) = tree_get (spurt_buffer f q ps) |` ((+) f ` insert i seen)"
  proof
    fix k
    have "tree_get (ua_jitter_buffer ?t) k = (if k = f + i then Some ?pkt else tree_get (ua_jitter_buffer t) k)"
      unfolding ins1 by (simp add: tree_get_insert)
    also have "\<dots> = (tree_get (spurt_buffer f q ps) |` ((+) f ` insert i seen)) k"
      using assms(2) get_spurt_buffer [of f q ps "f + i"] by (simp add: get restrict_map_def)
    finally show "tree_get (ua_jitter_buffer ?t) k = (tree_get (spurt_buffer f q ps) |` ((+) f ` insert i seen)) k" .
  qed
  ultimately show ?thesis
    using same_stream_trans [OF same ins2] unfolding buffering_def by metis
qed

lemma buffering_arrivals:
  assumes "fst ` set arrivals \<subseteq> {..<length ps}" and "buffering f q ps seen s t" and "seen \<subseteq> {..<length ps}"
    and "burst_fits f ps s"
  shows "buffering f q ps (fst ` set arrivals \<union> seen) s (fold (arrive F f q ps) arrivals t)"
  using assms
proof (induction arrivals arbitrary: seen t)
  case (Cons a arrivals)
  obtain i at where a: "a = (i, at)" by (cases a)
  have "buffering f q ps (insert i seen) s (arrive F f q ps (i, at) t)"
    by (rule buffering_arrive) (use Cons.prems a in auto)
  then have "buffering f q ps (fst ` set arrivals \<union> insert i seen) s (fold (arrive F f q ps) arrivals (arrive F f q ps a t))"
    unfolding a by (rule Cons.IH [rotated]) (use Cons.prems a in auto)
  then show ?case by (simp add: a)
qed simp

lemma burst_buffered:
  assumes "jitter_ok s" and "ua_jitter_buffer s = []" and "fst ` set arrivals = {..<length ps}"
    and "burst_fits f ps s" and "t = fold (arrive F f q ps) arrivals s"
  shows "jitter_ok t" and "ua_jitter_buffer t = spurt_buffer f q ps" and "same_stream s t"
proof -
  have "buffering f q ps {} s s" using assms(1,2) by (simp add: buffering_def restrict_map_def same_stream_def)
  then have b: "buffering f q ps {..<length ps} s t"
    using buffering_arrivals [of arrivals ps f q "{}" s s F] assms(3-5) by simp
  then show "jitter_ok t" "same_stream s t" by (simp_all add: buffering_def)
  have "(+) f ` {..<length ps} = {f..<f + length ps}"
    by (simp add: lessThan_atLeast0 image_add_atLeastLessThan add.commute)
  then have "tree_get (ua_jitter_buffer t) = tree_get (spurt_buffer f q ps)"
    using b by (auto simp: buffering_def restrict_map_def get_spurt_buffer fun_eq_iff)
  then show "ua_jitter_buffer t = spurt_buffer f q ps"
    using b by (intro tree_eqI) (auto simp: buffering_def jitter_ok_def cursor_ok_def)
qed

section \<open>Playout\<close>

fun play_all ::
  "('d, 'f) decoder_ops \<Rightarrow> nat list \<Rightarrow> ('d, 'f, 'p) user_audio_state \<Rightarrow> ('d, 'f, 'p) user_audio_state \<times> 'f list option list" where
  "play_all D [] s = (s, [])"
| "play_all D (now # ticks) s =
     (case decode_next_into D now s of
        (s', pcm) \<Rightarrow> (case play_all D ticks s' of (s'', pcms) \<Rightarrow> (s'', pcm # pcms)))"

text \<open>What the decoder makes of packets that reach it one after the other.\<close>

definition decode_or_conceal :: "('d, 'f) decoder_ops \<Rightarrow> 'd \<Rightarrow> bytes \<Rightarrow> 'd \<times> 'f list option" where
  "decode_or_conceal D d opus =
     (case dc_decode D d opus of (d', Some pcm) \<Rightarrow> (d', Some pcm) | (d', None) \<Rightarrow> dc_decode_plc D d')"

fun decode_stream :: "('d, 'f) decoder_ops \<Rightarrow> 'd \<Rightarrow> bytes list \<Rightarrow> 'f list option list" where
  "decode_stream D d [] = []"
| "decode_stream D d (p # ps) =
     (case decode_or_conceal D d p of (d', pcm) \<Rightarrow> pcm # decode_stream D d' ps)"

lemma play_packet_result:
  "snd (play_packet D frame pkt s) = snd (decode_or_conceal D (ua_decoder s) (pk_opus pkt))"
  "ua_decoder (fst (play_packet D frame pkt s)) = fst (decode_or_conceal D (ua_decoder s) (pk_opus pkt))"
  "ua_jitter_buffer (fst (play_packet D frame pkt s)) = tree_remove frame (ua_jitter_buffer s)"
  "ua_started (fst (play_packet D frame pkt s))"
  "ua_next_play_frame (fst (play_packet D frame pkt s)) = ua_next_play_frame s + 1"
  "ua_needs_prime (fst (play_packet D frame pkt s)) = ua_needs_prime s"
  "ua_last_played_frame (fst (play_packet D frame pkt s)) = frame"
  "ua_last_played_seq (fst (play_packet D frame pkt s)) = pk_seq pkt"
  by (auto simp: play_packet_def decode_or_conceal_def take_packet_def conceal_def Let_def split: prod.split option.split)

lemma decode_present:
  assumes "ready_to_play s" and "tree_get (ua_jitter_buffer s) (ua_next_play_frame s) = Some pkt"
  shows "decode_next_into D now s =
    play_packet D (ua_next_play_frame s) pkt (prime_decoder D (note_stale now s))"
proof -
  have "ua_jitter_buffer s \<noteq> []" using assms(2) by auto
  with assms show ?thesis by (simp add: decode_next_into_def Let_def frame_simps)
qed

definition primed :: "('d, 'f) decoder_ops \<Rightarrow> ('d, 'f, 'p) user_audio_state \<Rightarrow> 'd" where
  "primed D s = (if ua_needs_prime s then fst (dc_decode_plc D (ua_decoder s)) else ua_decoder s)"

lemma primed_decoder: "ua_decoder (prime_decoder D (note_stale now s)) = primed D s"
  "\<not> ua_needs_prime (prime_decoder D s)"
  by (simp_all add: primed_def prime_decoder_def frame_simps)

lemma play_spurt:
  assumes "ready_to_play s" and "ua_jitter_buffer s = spurt_buffer f q ps" and "ua_next_play_frame s = f"
    and "length ticks = length ps"
  shows "snd (play_all D ticks s) = decode_stream D (primed D s) ps \<and>
    ua_next_play_frame (fst (play_all D ticks s)) = f + length ps \<and>
    ua_jitter_buffer (fst (play_all D ticks s)) = []"
  using assms
proof (induction ps arbitrary: s f q ticks)
  case (Cons p ps)
  then obtain now ticks' where ticks: "ticks = now # ticks'" by (cases ticks) auto
  let ?pkt = "\<lparr>pk_seq = q, pk_opus = p\<rparr>" and ?t = "prime_decoder D (note_stale now s)"
  let ?s = "fst (decode_next_into D now s)"
  have "tree_get (ua_jitter_buffer s) (ua_next_play_frame s) = Some ?pkt"
    using Cons.prems by (simp add: spurt_buffer_Cons)
  note d = decode_present [OF Cons.prems(1) this, of D now]
  have buf: "ua_jitter_buffer ?s = spurt_buffer (Suc f) (q + 1) ps"
    using tree_remove_hd [of f ?pkt "spurt_buffer (Suc f) (q + 1) ps"] Cons.prems(2,3) tree_ok_spurt_buffer [of f q "p # ps"]
    by (simp add: d play_packet_result frame_simps spurt_buffer_Cons)
  have rest: "ready_to_play ?s" "ua_next_play_frame ?s = Suc f" "primed D ?s = fst (decode_or_conceal D (primed D s) p)"
    using Cons.prems(3) by (auto simp: d play_packet_result frame_simps ready_to_play_def primed_decoder primed_def [of D "fst _"])
  have "snd (decode_next_into D now s) = snd (decode_or_conceal D (primed D s) p)"
    by (simp add: d play_packet_result primed_decoder)
  then show ?case
    using Cons.IH [OF rest(1) buf rest(2), of ticks'] Cons.prems(4) rest(3) ticks
    by (auto simp: split_beta)
qed simp

lemma unstarted_cursor:
  assumes "jitter_ok s" and "\<not> ua_started s" and "ua_jitter_buffer s = spurt_buffer f q ps" and "ps \<noteq> []"
  shows "ua_next_play_frame s = f"
  using assms by (cases ps) (auto simp: jitter_ok_def cursor_ok_def spurt_buffer_Cons)

text \<open>A talk spurt whose packets all arrive is played exactly as it was sent. Whatever the order in
  which the packets of at most 20 consecutive frames arrive at a receiver that has not started
  to play, and however often one of them is duplicated, once enough is buffered the following
  ticks hand the payloads to the decoder in the order of the frames, one per tick: the samples
  are those of an undisturbed stream, and the buffer is empty afterwards.\<close>

lemma reordered_spurt_plays_in_order:
  assumes "jitter_ok s" and "\<not> ua_started s" and "ua_jitter_buffer s = []"
    and "fst ` set arrivals = {..<length ps}" and "length ps \<le> JITTER_BUFFER_MAX_PACKETS"
    and "(f + length ps) * FRAME_US \<le> 2 ^ 64" and "t = fold (arrive F f q ps) arrivals s"
    and "ready_to_play t" and "length ticks = length ps"
  shows "snd (play_all D ticks t) = decode_stream D (primed D s) ps \<and>
    ua_jitter_buffer (fst (play_all D ticks t)) = []"
proof -
  have "burst_fits f ps s" using assms(2,5,6) by (simp add: burst_fits_def burst_limit_def)
  note b = burst_buffered [OF assms(1,3,4) this assms(7)]
  have t: "\<not> ua_started t" "primed D t = primed D s" using b(3) assms(2) by (auto simp: same_stream_def primed_def)
  show ?thesis
  proof (cases "ps = []")
    case False
    then show ?thesis
      using play_spurt [OF assms(8) b(2) unstarted_cursor [OF b(1) t(1) b(2) False] assms(9)] t(2) by simp
  next
    case True
    with assms(9) b(2) show ?thesis by simp
  qed
qed

text \<open>A codec whose samples are the bytes of the packet, and arithmetic on the integers.\<close>

definition sample_float :: "int float_ops" where
  "sample_float = \<lparr>fo_of_nat = int, fo_add = (+), fo_sub = (-), fo_mul = (*), fo_div = (div), fo_abs = abs,
     fo_ceil_u32 = (\<lambda>x. word_of_int (min x (2 ^ 32 - 1))), fo_less = (<), fo_neg = uminus,
     fo_powf = (\<lambda>x y. x ^ nat y), fo_copysign = (\<lambda>x y. if y < 0 then - abs x else abs x)\<rparr>"

definition sample_decoder :: "(nat, int) decoder_ops" where
  "sample_decoder = \<lparr>dc_decode = (\<lambda>d p. (d + 1, Some (map uint p))), dc_decode_fec = (\<lambda>d p. (d + 1, Some [])),
     dc_decode_plc = (\<lambda>d. (d + 1, Some [0]))\<rparr>"

definition fresh_peer :: "(nat, int, unit) user_audio_state" where
  "fresh_peer = user_audio_new sample_float 0 0 2"

lemma ready_when_full:
  assumes "jitter_ok s" and "12 \<le> length (ua_jitter_buffer s)" shows "ready_to_play s"
  using assms cursor_ok_depth [of "ua_started s" s]
  by (auto simp: ready_to_play_def jitter_ok_def target_ok_unat)

definition sample_payloads :: "bytes list" where
  "sample_payloads = [[1], [2], [3], [4], [5], [6], [7], [8], [9], [10], [11], [12]]"

definition sample_arrivals :: "(nat \<times> nat) list" where
  "sample_arrivals = map (\<lambda>i. (i, 0)) (rev [0..<12] @ [3, 5])"

lemma fresh_peer_simps: "jitter_ok fresh_peer" "\<not> ua_started fresh_peer" "ua_jitter_buffer fresh_peer = []"
  "ua_decoder fresh_peer = 0" "\<not> ua_needs_prime fresh_peer"
  unfolding fresh_peer_def by (rule jitter_ok_new) (simp_all add: user_audio_new_def)


section \<open>Loss and silence\<close>

text \<open>
  A hole at the cursor of a started stream. Since the last frame played, the sender sent
  \<open>voice\<close> packets that were lost, \<open>eos\<close> end markers and then the packet buffered next, and
  was silent for \<open>silent\<close> frames. The receiver knows of those end markers that arrived.
\<close>

definition eos_seen :: "('d, 'f, 'p) user_audio_state \<Rightarrow> u32 \<Rightarrow> nat" where
  "eos_seen s next_seq =
     length (filter (\<lambda>q. 0 < unat (q - ua_last_played_seq s) \<and>
                         unat (q - ua_last_played_seq s) < unat (next_seq - ua_last_played_seq s)) (ua_pending_eos_seqs s))"

lemma gap_is_silence_iff:
  assumes "unat (next_seq - ua_last_played_seq s) = voice + eos + 1"
    and "next_frame = ua_last_played_frame s + voice + silent + 1" and "eos_seen s next_seq \<le> eos"
  shows "gap_is_silence s next_frame next_seq \<longleftrightarrow> eos - eos_seen s next_seq < silent"
  using assms by (auto simp: gap_is_silence_def Let_def eos_seen_def)

lemma started_gap:
  assumes "jitter_ok s" and "tree_get (ua_jitter_buffer s) (ua_next_play_frame s) = None"
    and "ua_jitter_buffer s = (next_frame, pkt) # rest"
  shows "find (\<lambda>e. ua_next_play_frame s + 1 \<le> fst e) (ua_jitter_buffer s) = Some (next_frame, pkt)"
    and "ua_next_play_frame s < next_frame"
proof -
  have "ua_next_play_frame s \<le> next_frame" "next_frame \<noteq> ua_next_play_frame s"
    using assms by (auto simp: jitter_ok_def cursor_ok_def)
  then show "find (\<lambda>e. ua_next_play_frame s + 1 \<le> fst e) (ua_jitter_buffer s) = Some (next_frame, pkt)"
    and "ua_next_play_frame s < next_frame" by (simp_all add: assms(3))
qed

lemma gap_result:
  assumes "jitter_ok s" and "ua_started s" and "tree_get (ua_jitter_buffer s) (ua_next_play_frame s) = None"
    and "ua_jitter_buffer s = (next_frame, pkt) # rest"
    and "unat (pk_seq pkt - ua_last_played_seq s) = voice + eos + 1"
    and "next_frame = ua_last_played_frame s + voice + silent + 1" and "eos_seen s (pk_seq pkt) \<le> eos"
    and "(s', pcm) = decode_next_into D now s"
  shows "if eos - eos_seen s (pk_seq pkt) < silent
    then pcm = None \<and> \<not> ua_started s' \<and> ua_next_play_frame s' = next_frame \<and> ua_needs_prime s' \<and>
      ua_packets_lost s' = ua_packets_lost s \<and> ua_frames_concealed s' = ua_frames_concealed s \<and>
      ua_jitter_buffer s' = ua_jitter_buffer s
    else ua_packets_lost s' = ua_packets_lost s + 1 \<and> ua_started s' \<and>
      ua_next_play_frame s' = ua_next_play_frame s + 1 \<and> ua_jitter_buffer s' = ua_jitter_buffer s \<and>
      ua_packets_recovered_fec s' + ua_frames_concealed s' =
        ua_packets_recovered_fec s + ua_frames_concealed s + 1 \<and>
      (ua_packets_recovered_fec s' \<noteq> ua_packets_recovered_fec s \<longrightarrow> next_frame = ua_next_play_frame s + 1)"
proof -
  let ?t = "prime_decoder D (note_stale now s)"
  have gap: "gap_is_silence ?t next_frame (pk_seq pkt) \<longleftrightarrow> eos - eos_seen s (pk_seq pkt) < silent"
    using gap_is_silence_iff [OF assms(5-7)] by (simp add: gap_is_silence_def frame_simps)
  have stats: "ua_packets_lost ?t = ua_packets_lost s" "ua_frames_concealed ?t = ua_frames_concealed s"
    "ua_packets_recovered_fec ?t = ua_packets_recovered_fec s"
    by (simp_all add: prime_decoder_def note_stale_def)
  have d: "decode_next_into D now s =
    (if gap_is_silence ?t next_frame (pk_seq pkt) then (reanchor next_frame ?t, None)
     else play_loss D (ua_next_play_frame s) next_frame pkt ?t)"
    using assms(2-4) started_gap(1) [OF assms(1,3,4)]
    by (simp add: decode_next_into_def Let_def ready_to_play_def play_gap_def frame_simps)
  show ?thesis
  proof (cases "gap_is_silence ?t next_frame (pk_seq pkt)")
    case True
    with d gap assms(8) show ?thesis by (simp add: reanchor_def frame_simps stats)
  next
    case False
    with d assms(8) have "(s', pcm) = play_loss D (ua_next_play_frame s) next_frame pkt ?t" by simp
    with False gap assms(2) show ?thesis
      by (auto simp: play_loss_def conceal_def Let_def frame_simps stats split: prod.splits option.splits if_splits)
  qed
qed

text \<open>C16: The receiver tells an intended silence from lost packets. When the frame at the cursor of a
  playing stream is missing and the sender, since the last frame played, lost \<open>voice\<close> packets,
  sent \<open>eos\<close> end markers and was silent for \<open>silent\<close> frames, then the hole counts as silence
  exactly when fewer end markers were lost than frames were silent. In that case nothing is
  played, concealed or counted as lost and the cursor moves to the next spurt, which is
  buffered afresh; otherwise one frame is counted as lost, the cursor advances by one and the
  decoder fills the hole.\<close>

theorem gap_classification:
  assumes "jitter_ok s" and "ua_started s" and "tree_get (ua_jitter_buffer s) (ua_next_play_frame s) = None"
    and "ua_jitter_buffer s = (next_frame, pkt) # rest"
    and "unat (pk_seq pkt - ua_last_played_seq s) = voice + eos + 1"
    and "next_frame = ua_last_played_frame s + voice + silent + 1" and "eos_seen s (pk_seq pkt) \<le> eos"
    and "(s', pcm) = decode_next_into D now s"
  shows "if eos - eos_seen s (pk_seq pkt) < silent
    then pcm = None \<and> \<not> ua_started s' \<and> ua_next_play_frame s' = next_frame \<and> ua_needs_prime s' \<and>
      ua_packets_lost s' = ua_packets_lost s \<and> ua_frames_concealed s' = ua_frames_concealed s \<and>
      ua_jitter_buffer s' = ua_jitter_buffer s
    else ua_packets_lost s' = ua_packets_lost s + 1 \<and> ua_started s' \<and>
      ua_next_play_frame s' = ua_next_play_frame s + 1 \<and> ua_jitter_buffer s' = ua_jitter_buffer s \<and>
      ua_packets_recovered_fec s' + ua_frames_concealed s' =
        ua_packets_recovered_fec s + ua_frames_concealed s + 1 \<and>
      (ua_packets_recovered_fec s' \<noteq> ua_packets_recovered_fec s \<longrightarrow> next_frame = ua_next_play_frame s + 1)"
  by (rule gap_result [OF assms])

text \<open>Frame 7 was played, the sender was silent for two frames, and its end marker arrived.\<close>

definition sample_gap :: "(nat, int, unit) user_audio_state" where
  "sample_gap = fresh_peer\<lparr>ua_started := True, ua_last_played_seq := 40, ua_last_played_frame := 7,
     ua_next_play_frame := 8, ua_pending_eos_seqs := [41], ua_stream_ended := False,
     ua_jitter_buffer := [(10, \<lparr>pk_seq = 42, pk_opus = [9]\<rparr>)]\<rparr>"

lemma sample_gap_simps:
  "jitter_ok sample_gap" "ua_started sample_gap" "ua_next_play_frame sample_gap = 8"
  "tree_get (ua_jitter_buffer sample_gap) (ua_next_play_frame sample_gap) = None"
  "ua_jitter_buffer sample_gap = (10, \<lparr>pk_seq = 42, pk_opus = [9]\<rparr>) # []"
  "ua_last_played_seq sample_gap = 40" "ua_last_played_frame sample_gap = 7" "eos_seen sample_gap 42 = 1"
  using fresh_peer_simps(1)
  by (simp_all add: sample_gap_def jitter_ok_def cursor_ok_def tree_ok_def JITTER_BUFFER_MAX_PACKETS_def eos_seen_def)

theorem gap_classification_witness:
  "snd (decode_next_into sample_decoder 0 sample_gap) = None \<and>
   ua_next_play_frame (fst (decode_next_into sample_decoder 0 sample_gap)) = 10"
proof -
  obtain s' pcm where d: "(s', pcm) = decode_next_into sample_decoder 0 sample_gap" by (metis surj_pair)
  show ?thesis
    using gap_classification [OF sample_gap_simps(1,2,4,5) _ _ _ d, of 0 1 2] sample_gap_simps(6-8)
    by (simp flip: d)
qed

section \<open>Runs of the receiver\<close>

datatype rx_event =
    RxPacket u32 u64 bytes nat
  | RxEndOfStream u32
  | RxPlay nat

fun rx_step :: "'f float_ops \<Rightarrow> ('d, 'f) decoder_ops \<Rightarrow> rx_event \<Rightarrow> ('d, 'f, 'p) user_audio_state \<Rightarrow> ('d, 'f, 'p) user_audio_state" where
  "rx_step F D (RxPacket q ts opus at) s = insert_packet_at F q ts opus at s"
| "rx_step F D (RxEndOfStream q) s = mark_end_of_stream q s"
| "rx_step F D (RxPlay now) s = fst (decode_next_into D now s)"

lemma jitter_ok_rx_step [jitter_intros]: "jitter_ok s \<Longrightarrow> jitter_ok (rx_step F D e s)"
  by (cases e) (auto intro: jitter_intros)

lemma jitter_ok_run [jitter_intros]: "jitter_ok s \<Longrightarrow> jitter_ok (fold (rx_step F D) es s)"
  by (induction es arbitrary: s) (auto intro: jitter_intros)

lemma accept_depth:
  assumes "jitter_ok s" and "ua_started s" and "ua_next_play_frame s \<le> frame"
    and "s' = accept_packet frame q opus s"
  shows "length (ua_jitter_buffer s') \<le> unat (ua_target_frames s') + 4"
proof -
  let ?b = "tree_insert frame \<lparr>pk_seq = q, pk_opus = opus\<rparr> (ua_jitter_buffer s)"
  let ?m = "unat (ua_target_frames s + DRIFT_DROP_SLACK)"
  let ?t = "s\<lparr>ua_consecutive_late := 0, ua_stream_ended := False, ua_jitter_buffer := ?b,
    ua_next_play_frame := ua_next_play_frame s\<rparr>"
  have t: "target_ok (ua_target_frames s)" using assms(1) by (simp add: jitter_ok_def)
  then have m: "?m = unat (ua_target_frames s) + 4"
    by (auto simp: target_ok_unat DRIFT_DROP_SLACK_def unat_word_ariths)
  have s': "s' = trim_buffer ?m ?t"
    unfolding assms(4) accept_packet_def Let_def using assms(2) by simp
  have "cursor_ok (ua_started ?t) (ua_jitter_buffer ?t) (ua_next_play_frame ?t)"
    using assms(1-3) by (auto simp: jitter_ok_def intro: cursor_ok_insert_started)
  from cursor_ok_trim [OF _ this, of ?m] show ?thesis
    by (simp add: s' m frame_simps)
qed

text \<open>A receiver stays bounded and ordered whatever reaches it. From a new state, after any sequence
  of packets (with any sequence numbers, timestamps and arrival times, whatever the
  floating-point unit computes), end markers and playout ticks: at most 20 packets are
  buffered, sorted by frame and none behind the cursor; the playout target stays between 2 and
  12 frames; at most 8 end markers are remembered; and the cursor of a playing stream is past
  the last frame played, so that the distance to the next packet never underflows. A packet
  taken in while playing leaves at most four packets more than the target.\<close>

theorem receiver_bounded:
  assumes "s = fold (rx_step F D) es (user_audio_new F now d base)"
    and "s' = insert_packet_at F q ts opus at s"
  shows "length (ua_jitter_buffer s) \<le> 20 \<and> sorted_wrt (<) (map fst (ua_jitter_buffer s)) \<and>
    (\<forall>e \<in> set (ua_jitter_buffer s). ua_next_play_frame s \<le> fst e) \<and>
    2 \<le> unat (ua_target_frames s) \<and> unat (ua_target_frames s) \<le> 12 \<and>
    length (ua_pending_eos_seqs s) \<le> 8 \<and>
    (ua_started s \<longrightarrow> ua_last_played_frame s < ua_next_play_frame s) \<and>
    (ua_started s \<and> ua_next_play_frame s \<le> unat ts div FRAME_US \<longrightarrow>
       length (ua_jitter_buffer s') \<le> unat (ua_target_frames s') + 4)"
proof -
  have ok: "jitter_ok s" unfolding assms(1) by (intro jitter_intros)
  let ?f = "unat ts div FRAME_US"
  have "length (ua_jitter_buffer s') \<le> unat (ua_target_frames s') + 4" if "ua_started s" "ua_next_play_frame s \<le> ?f"
    by (rule accept_depth [OF jitter_ok_note_arrival [OF ok, of F ?f opus at]])
      (use that in \<open>simp_all add: frame_simps assms(2) insert_packet_at_def Let_def\<close>)
  with ok show ?thesis
    by (auto simp: jitter_ok_def cursor_ok_def tree_ok_def target_ok_unat JITTER_BUFFER_MAX_PACKETS_def)
qed

theorem receiver_bounded_witness:
  "length (ua_jitter_buffer (fold (rx_step sample_float sample_decoder)
     [RxPacket 1 20000 [1] 0, RxEndOfStream 2, RxPlay 5] fresh_peer)) \<le> 20"
  unfolding fresh_peer_def
  by (rule conjunct1 [OF receiver_bounded [OF refl refl, where q = 0 and ts = 0 and opus = "[]" and at = 0]])

section \<open>Late packets\<close>

definition behind_cursor :: "('d, 'f, 'p) user_audio_state \<Rightarrow> u64 \<Rightarrow> bool" where
  "behind_cursor s ts \<longleftrightarrow>
     unat ts div FRAME_US < ua_next_play_frame s \<and>
     ua_next_play_frame s \<le> unat ts div FRAME_US + RESTART_BACKWARD_FRAMES"

lemma late_packet_dropped:
  assumes "ua_started s" and "behind_cursor s ts" and "ua_consecutive_late s < LATE_RESYNC_FRAMES"
    and "t = insert_packet_at F q ts opus at s"
  shows "ua_jitter_buffer t = ua_jitter_buffer s \<and> ua_next_play_frame t = ua_next_play_frame s \<and> ua_started t \<and>
    unat (ua_consecutive_late t) = unat (ua_consecutive_late s) + 1"
proof -
  have u: "unat (ua_consecutive_late s) < 10"
    using assms(3) by (simp add: word_less_nat_alt LATE_RESYNC_FRAMES_def)
  have inc: "saturating_inc (ua_consecutive_late s) = ua_consecutive_late s + 1"
    using assms(3) by (auto simp: saturating_inc_def LATE_RESYNC_FRAMES_def)
  have i: "unat (ua_consecutive_late s + 1) = unat (ua_consecutive_late s) + 1"
    using u by (simp add: unat_word_ariths)
  then have "ua_consecutive_late s + 1 \<le> LATE_RESYNC_FRAMES"
    using u by (simp add: word_le_nat_alt LATE_RESYNC_FRAMES_def)
  then show ?thesis
    using assms(1,2) i by (simp add: assms(4) insert_packet_at_def Let_def behind_cursor_def frame_simps inc not_less)
qed

type_synonym voice_packet = "u32 \<times> u64 \<times> bytes \<times> nat"

definition insert_voice :: "'f float_ops \<Rightarrow> voice_packet \<Rightarrow> ('d, 'f, 'p) user_audio_state \<Rightarrow> ('d, 'f, 'p) user_audio_state" where
  "insert_voice F = (\<lambda>(q, ts, opus, at). insert_packet_at F q ts opus at)"

lemma late_packets_dropped:
  assumes "ua_started s" and "\<forall>p \<in> set ps. behind_cursor s (fst (snd p))"
    and "unat (ua_consecutive_late s) + length ps \<le> 10" and "t = fold (insert_voice F) ps s"
  shows "ua_jitter_buffer t = ua_jitter_buffer s \<and> ua_next_play_frame t = ua_next_play_frame s \<and> ua_started t \<and>
    unat (ua_consecutive_late t) = unat (ua_consecutive_late s) + length ps"
  using assms
proof (induction ps arbitrary: s)
  case (Cons p ps)
  obtain q ts opus at where p: "p = (q, ts, opus, at)" by (cases p)
  have "ua_consecutive_late s < LATE_RESYNC_FRAMES"
    using Cons.prems(3) by (simp add: word_less_nat_alt LATE_RESYNC_FRAMES_def)
  note d = late_packet_dropped [OF Cons.prems(1) _ this refl, of ts F q opus at]
  have b: "behind_cursor s ts" using Cons.prems(2) p by simp
  let ?s = "insert_packet_at F q ts opus at s"
  have "\<forall>p \<in> set ps. behind_cursor ?s (fst (snd p))"
    using Cons.prems(2) d [OF b] by (simp add: behind_cursor_def)
  with Cons.IH [of ?s] Cons.prems(3,4) d [OF b] show ?case
    by (simp add: p insert_voice_def)
qed simp

text \<open>C17: A small backward jump of the sender's clock does not silence a peer. While a stream plays, up
  to ten packets in a row from at most 100 frames behind the cursor are dropped and change
  neither the buffer nor the cursor; the eleventh makes the receiver take up the new clock: it
  forgets what it had buffered, puts the cursor on that packet's frame, and buffers afresh with
  that packet.\<close>

theorem late_run_resyncs:
  assumes "ua_started s" and "ua_consecutive_late s = 0" and "length ps = 10"
    and "\<forall>p \<in> set ((q, ts, opus, at) # ps). behind_cursor s (fst (snd p))"
    and "t = fold (insert_voice F) ps s" and "t' = insert_packet_at F q ts opus at t"
  shows "ua_jitter_buffer t = ua_jitter_buffer s \<and> ua_next_play_frame t = ua_next_play_frame s \<and> ua_started t \<and>
    \<not> ua_started t' \<and> ua_next_play_frame t' = unat ts div FRAME_US \<and> ua_needs_prime t' \<and>
    ua_jitter_buffer t' = [(unat ts div FRAME_US, \<lparr>pk_seq = q, pk_opus = opus\<rparr>)]"
proof -
  have d: "ua_jitter_buffer t = ua_jitter_buffer s \<and> ua_next_play_frame t = ua_next_play_frame s \<and> ua_started t \<and>
      unat (ua_consecutive_late t) = unat (ua_consecutive_late s) + length ps"
    by (rule late_packets_dropped) (use assms in simp_all)
  then have "ua_consecutive_late t = 10"
    using assms(2,3) by (simp add: word_unat_eq_iff)
  moreover have "behind_cursor t ts"
    using assms(4) d by (simp add: behind_cursor_def)
  ultimately have "t' = accept_packet (unat ts div FRAME_US) q opus (restart_at (unat ts div FRAME_US)
      (note_arrival F (unat ts div FRAME_US) opus at t))"
    using d by (simp add: assms(6) insert_packet_at_def Let_def behind_cursor_def frame_simps
      saturating_inc_def LATE_RESYNC_FRAMES_def not_less restart_at_late)
  then have "\<not> ua_started t' \<and> ua_next_play_frame t' = unat ts div FRAME_US \<and> ua_needs_prime t' \<and>
    ua_jitter_buffer t' = [(unat ts div FRAME_US, \<lparr>pk_seq = q, pk_opus = opus\<rparr>)]"
    by (simp add: accept_packet_def Let_def restart_at_def reanchor_def trim_buffer_unstarted)
  with d show ?thesis by simp
qed

theorem late_run_resyncs_witness:
  "ua_next_play_frame (insert_packet_at sample_float 9 60000 [7] 0
      (fold (insert_voice sample_float) (replicate 10 (8, 40000, [6], 0)) sample_gap)) = 3"
proof -
  have "unat (60000 :: u64) div FRAME_US = 3" "unat (40000 :: u64) div FRAME_US = 2"
    by (simp_all add: FRAME_US_def)
  then show ?thesis
    using late_run_resyncs [OF sample_gap_simps(2) _ _ _ refl refl, of "replicate 10 (8, 40000, [6], 0)" 9 60000 "[7]" 0 sample_float]
    by (simp add: sample_gap_def fresh_peer_def user_audio_new_def behind_cursor_def RESTART_BACKWARD_FRAMES_def)
qed

end
