(* ===== verification/AudioPipeline.thy ===== *)
theory AudioPipeline
  imports JitterBuffer
begin

text \<open>
  The chain of audio processors (\<open>AudioPipeline\<close> of \<open>rumble-audio/src/lib.rs\<close>) and the peak
  limiter. The processors themselves (noise gate, denoiser, gain) are behind a trait object:
  what the chain calls of them, and the registry that builds them, are parameters.
\<close>

section \<open>Processors\<close>

record ('q, 'f) processor_ops =
  pp_process :: "'q \<Rightarrow> 'f list \<Rightarrow> 'q \<times> 'f list \<times> bool"
  pp_reset :: "'q \<Rightarrow> 'q"
  pp_is_enabled :: "'q \<Rightarrow> bool"
  pp_set_enabled :: "bool \<Rightarrow> 'q \<Rightarrow> 'q"
  pp_factories :: "string \<Rightarrow> (string \<Rightarrow> 'q outcome) option"

record processor_config =
  prc_type_id :: string
  prc_enabled :: bool
  prc_settings :: string

record pipeline_config =
  plc_processors :: "processor_config list"
  plc_frame_size :: nat

record 'f user_rx_config =
  rx_pipeline_override :: "pipeline_config option"
  rx_volume_db :: 'f

record 'q audio_pipeline =
  pl_processors :: "'q list"
  pl_frame_size :: nat

definition registry_create :: "('q, 'f) processor_ops \<Rightarrow> processor_config \<Rightarrow> 'q outcome" where
  "registry_create R c =
     (case pp_factories R (prc_type_id c) of
        None \<Rightarrow> Inl (''Unknown processor type: '' @ prc_type_id c)
      | Some create \<Rightarrow> map_sum id (pp_set_enabled R (prc_enabled c)) (create (prc_settings c)))"

definition pipeline_new :: "nat \<Rightarrow> 'q audio_pipeline" where
  "pipeline_new frame_size = \<lparr>pl_processors = [], pl_frame_size = frame_size\<rparr>"

fun create_processors :: "('q, 'f) processor_ops \<Rightarrow> processor_config list \<Rightarrow> 'q list outcome" where
  "create_processors R [] = Inr []"
| "create_processors R (c # cs) =
     (case registry_create R c of
        Inl err \<Rightarrow> Inl err
      | Inr q \<Rightarrow> map_sum id ((#) q) (create_processors R cs))"

definition from_config :: "('q, 'f) processor_ops \<Rightarrow> pipeline_config \<Rightarrow> 'q audio_pipeline outcome" where
  "from_config R c =
     map_sum id (\<lambda>qs. \<lparr>pl_processors = qs, pl_frame_size = plc_frame_size c\<rparr>) (create_processors R (plc_processors c))"

fun run_processors :: "('q, 'f) processor_ops \<Rightarrow> 'q list \<Rightarrow> 'f list \<Rightarrow> 'q list \<times> 'f list \<times> bool" where
  "run_processors R [] samples = ([], samples, False)"
| "run_processors R (q # qs) samples =
     (if pp_is_enabled R q
      then case pp_process R q samples of
             (q', samples', suppress) \<Rightarrow>
               (case run_processors R qs samples' of (qs', samples'', s) \<Rightarrow> (q' # qs', samples'', suppress \<or> s))
      else case run_processors R qs samples of (qs', samples', s) \<Rightarrow> (q # qs', samples', s))"

definition pipeline_process ::
  "('q, 'f) processor_ops \<Rightarrow> 'q audio_pipeline \<Rightarrow> 'f list \<Rightarrow> 'q audio_pipeline \<times> 'f list \<times> bool" where
  "pipeline_process R p samples =
     (case run_processors R (pl_processors p) samples of
        (qs, samples', suppress) \<Rightarrow> (p\<lparr>pl_processors := qs\<rparr>, samples', suppress))"

definition pipeline_reset :: "('q, 'f) processor_ops \<Rightarrow> 'q audio_pipeline \<Rightarrow> 'q audio_pipeline" where
  "pipeline_reset R p = p\<lparr>pl_processors := map (pp_reset R) (pl_processors p)\<rparr>"

section \<open>The peak limiter\<close>

definition SOFT_CLIP_THRESHOLD :: "'f float_ops \<Rightarrow> 'f" where
  "SOFT_CLIP_THRESHOLD F = fo_div F (fo_of_nat F 3) (fo_of_nat F 4)"

definition soft_clip :: "'f float_ops \<Rightarrow> 'f \<Rightarrow> 'f" where
  "soft_clip F x =
     (let a = fo_abs F x; th = SOFT_CLIP_THRESHOLD F
      in if fo_less F a th \<or> a = th then x
         else let over = fo_sub F a th;
                  headroom = fo_sub F (fo_of_nat F 1) th;
                  limited = fo_add F th (fo_mul F headroom (fo_div F over (fo_add F over headroom)))
              in fo_copysign F limited x)"

text \<open>A frame passes a chain without enabled processors unchanged and unsuppressed.\<close>

lemma run_processors_disabled:
  "\<forall>q \<in> set qs. \<not> pp_is_enabled R q \<Longrightarrow> run_processors R qs samples = (qs, samples, False)"
  by (induction qs) auto

lemma length_run_processors [simp]: "length (fst (run_processors R qs samples)) = length qs"
  by (induction qs arbitrary: samples) (auto simp: split_beta)

end
