(* ===== verification/Preroll.thy ===== *)
theory Preroll
  imports Prelude
begin

text \<open>
  The pre-roll ring of the sending client (\<open>rumble-client/src/preroll.rs\<close>): while the voice
  gate is closed the last few captured frames are kept, so that the onset of speech can be
  sent once the gate opens. The ring is a fixed array of slots with a head and a length; the
  interface \<open>frame_ring\<close> says what its client, the capture callback, may rely on: it is a
  bounded list of consecutive frames. Timestamps are microseconds on the media clock, whose
  64-bit range is out of reach.
\<close>

section \<open>The ring\<close>

definition PRE_ROLL_FRAMES :: nat where
  "PRE_ROLL_FRAMES = 5"

type_synonym 'f slot = "nat \<times> 'f list"

record 'f pre_roll_ring =
  pr_slots :: "'f slot list"
  pr_head :: nat
  pr_len :: nat
  pr_frame_us :: nat

definition pre_roll_new :: "nat \<Rightarrow> nat \<Rightarrow> 'f pre_roll_ring" where
  "pre_roll_new capacity frame_us =
     \<lparr>pr_slots = replicate capacity (0, []), pr_head = 0, pr_len = 0, pr_frame_us = frame_us\<rparr>"

definition newest_timestamp :: "'f pre_roll_ring \<Rightarrow> nat option" where
  "newest_timestamp r =
     (if 0 < pr_len r then Some (fst (pr_slots r ! ((pr_head r + pr_len r - 1) mod length (pr_slots r)))) else None)"

definition pre_roll_push :: "nat \<Rightarrow> 'f list \<Rightarrow> 'f pre_roll_ring \<Rightarrow> 'f pre_roll_ring" where
  "pre_roll_push timestamp_us samples r =
     (let cap = length (pr_slots r)
      in if cap = 0 then r
         else let r = (case newest_timestamp r of
                         Some newest \<Rightarrow> if newest + pr_frame_us r \<noteq> timestamp_us then r\<lparr>pr_len := 0\<rparr> else r
                       | None \<Rightarrow> r);
                  r = (if pr_len r = cap
                       then r\<lparr>pr_head := (pr_head r + 1) mod cap, pr_len := pr_len r - 1\<rparr> else r)
              in r\<lparr>pr_slots := (pr_slots r)[(pr_head r + pr_len r) mod cap := (timestamp_us, samples)],
                   pr_len := pr_len r + 1\<rparr>)"

text \<open>The frames handed out, oldest first, and the emptied ring.\<close>

definition pre_roll_flush :: "nat \<Rightarrow> 'f pre_roll_ring \<Rightarrow> 'f slot list \<times> 'f pre_roll_ring" where
  "pre_roll_flush current_timestamp_us r =
     ((case newest_timestamp r of
         Some newest \<Rightarrow>
           if newest + pr_frame_us r = current_timestamp_us
           then map (\<lambda>i. pr_slots r ! ((pr_head r + i) mod length (pr_slots r))) [0..<pr_len r]
           else []
       | None \<Rightarrow> []),
      r\<lparr>pr_len := 0\<rparr>)"

section \<open>What the ring holds\<close>

definition ring_ok :: "'f pre_roll_ring \<Rightarrow> bool" where
  "ring_ok r \<longleftrightarrow> pr_len r \<le> length (pr_slots r)"

definition ring_frames :: "'f pre_roll_ring \<Rightarrow> 'f slot list" where
  "ring_frames r = map (\<lambda>i. pr_slots r ! ((pr_head r + i) mod length (pr_slots r))) [0..<pr_len r]"

definition push_bounded :: "nat \<Rightarrow> nat \<Rightarrow> nat \<times> 'a \<Rightarrow> (nat \<times> 'a) list \<Rightarrow> (nat \<times> 'a) list" where
  "push_bounded cap step e fs =
     (let fs = (if fs \<noteq> [] \<and> fst (last fs) + step \<noteq> fst e then [] else fs)
      in (if length fs = cap then tl fs else fs) @ [e])"

fun consecutive :: "nat \<Rightarrow> nat list \<Rightarrow> bool" where
  "consecutive step (t # t' # ts) \<longleftrightarrow> t' = t + step \<and> consecutive step (t' # ts)"
| "consecutive step ts \<longleftrightarrow> True"

text \<open>
  The interface: a ring stands for the list of frames it holds, pushing keeps the newest of a
  run of consecutive frames, and flushing hands out the run if it ends just before the
  current frame, and empties the ring.
\<close>

locale frame_ring =
  fixes frames :: "'r \<Rightarrow> (nat \<times> 'a) list"
    and push :: "nat \<Rightarrow> 'a \<Rightarrow> 'r \<Rightarrow> 'r"
    and flush :: "nat \<Rightarrow> 'r \<Rightarrow> (nat \<times> 'a) list \<times> 'r"
    and capacity :: "'r \<Rightarrow> nat"
    and step :: "'r \<Rightarrow> nat"
    and ok :: "'r \<Rightarrow> bool"
  assumes push_frames: "ok r \<Longrightarrow> 0 < capacity r \<Longrightarrow> frames (push t x r) = push_bounded (capacity r) (step r) (t, x) (frames r)"
    and push_ok: "ok r \<Longrightarrow> ok (push t x r)"
    and push_const: "capacity (push t x r) = capacity r" "step (push t x r) = step r"
    and flush_out: "ok r \<Longrightarrow> fst (flush t r) =
      (if frames r \<noteq> [] \<and> fst (last (frames r)) + step r = t then frames r else [])"
    and flush_empty: "frames (snd (flush t r)) = []"
    and flush_ok: "ok r \<Longrightarrow> ok (snd (flush t r))"
    and flush_const: "capacity (snd (flush t r)) = capacity r" "step (snd (flush t r)) = step r"
begin

text \<open>Contents are consecutive and bounded, whatever is pushed.\<close>

definition good :: "'r \<Rightarrow> bool" where
  "good r \<longleftrightarrow> ok r \<and> 0 < capacity r \<and> consecutive (step r) (map fst (frames r)) \<and> length (frames r) \<le> capacity r"

lemma consecutive_snoc:
  "consecutive d (ts @ [t]) \<longleftrightarrow> consecutive d ts \<and> (ts \<noteq> [] \<longrightarrow> t = last ts + d)"
  by (induction d ts rule: consecutive.induct) auto

lemma consecutive_tl: "consecutive d ts \<Longrightarrow> consecutive d (tl ts)"
  by (induction d ts rule: consecutive.induct) auto

lemma good_push:
  assumes "good r" shows "good (push t x r)"
proof -
  let ?fs = "if frames r \<noteq> [] \<and> fst (last (frames r)) + step r \<noteq> t then [] else frames r"
  let ?gs = "if length ?fs = capacity r then tl ?fs else ?fs"
  have fs: "consecutive (step r) (map fst ?fs)" "length ?fs \<le> capacity r"
    using assms by (auto simp: good_def)
  have "consecutive (step r) (map fst ?gs)"
    using consecutive_tl [OF fs(1)] fs(1) by (auto simp: map_tl)
  moreover have "?gs \<noteq> [] \<longrightarrow> t = fst (last ?gs) + step r"
    by (auto simp: last_tl tl_Nil)
  ultimately have "consecutive (step r) (map fst (?gs @ [(t, x)]))"
    by (auto simp: consecutive_snoc last_map)
  moreover have "length (?gs @ [(t, x)]) \<le> capacity r"
    using fs(2) assms by (auto simp: good_def)
  ultimately show ?thesis
    using assms by (auto simp: good_def push_const push_ok push_frames push_bounded_def Let_def)
qed

lemma good_flush: "good r \<Longrightarrow> good (snd (flush t r))"
  by (simp add: good_def flush_ok flush_const flush_empty)

text \<open>A flush hands out a run that leads up to the current frame.\<close>

lemma flush_consecutive:
  assumes "good r" shows "consecutive (step r) (map fst (fst (flush t r)) @ [t])"
  using assms by (auto simp: good_def flush_out consecutive_snoc last_map)

lemma flush_length: "good r \<Longrightarrow> length (fst (flush t r)) \<le> capacity r"
  by (simp add: good_def flush_out)

text \<open>Of consecutive frames the newest stay, as many as the ring holds.\<close>

lemma push_bounded_run:
  assumes "consecutive d (map fst fs @ [t])" and "length fs \<le> cap" and "0 < cap"
  shows "push_bounded cap d (t, x) fs = drop (length fs + 1 - cap) (fs @ [(t, x)])"
proof -
  have "fs = [] \<or> fst (last fs) + d = t"
    using assms(1) consecutive_snoc [of d "map fst fs" t] by (auto simp: last_map)
  then have "push_bounded cap d (t, x) fs = (if length fs = cap then tl fs else fs) @ [(t, x)]"
    by (auto simp: push_bounded_def)
  with assms(2,3) show ?thesis by (cases fs) auto
qed

lemma consecutive_append: "consecutive d (ts @ us) \<Longrightarrow> consecutive d ts \<and> consecutive d us"
  by (induction d ts rule: consecutive.induct) (auto; cases us; auto)+

lemma consecutive_drop: "consecutive d ts \<Longrightarrow> consecutive d (drop n ts)"
  using consecutive_append [of d "take n ts" "drop n ts"] by simp

lemma push_run:
  assumes "good r" and "consecutive (step r) (map fst (frames r @ run))"
  shows "frames (fold (\<lambda>(t, x). push t x) run r) = drop (length (frames r @ run) - capacity r) (frames r @ run)"
  using assms
proof (induction run arbitrary: r)
  case (Cons e run)
  obtain t x where e: "e = (t, x)" by (cases e)
  let ?r = "push t x r" and ?fs = "frames r @ [(t, x)]"
  have run: "consecutive (step r) (map fst (?fs @ run))" using Cons.prems(2) by (simp add: e)
  then have "consecutive (step r) (map fst (frames r) @ [t])"
    using consecutive_append [of "step r" "map fst ?fs" "map fst run"] by simp
  then have fr: "frames ?r = drop (length ?fs - capacity r) ?fs"
    using Cons.prems(1) push_bounded_run [of "step r" "frames r" t "capacity r" x] by (simp add: good_def push_frames)
  have le: "length ?fs - capacity r \<le> 1" "length ?fs - capacity r \<le> length ?fs"
    using Cons.prems(1) by (auto simp: good_def)
  have eq: "frames ?r @ run = drop (length ?fs - capacity r) (?fs @ run)"
    unfolding fr drop_append using le(2) by (metis diff_is_0_eq drop0)
  have "consecutive (step ?r) (map fst (frames ?r @ run))"
    unfolding eq push_const drop_map [symmetric] by (rule consecutive_drop [OF run])
  note IH = Cons.IH [OF good_push [OF Cons.prems(1)] this]
  have "frames (fold (\<lambda>(t, x). push t x) (e # run) r) =
      drop (length (frames ?r @ run) - capacity r) (frames ?r @ run)"
    using IH by (simp add: e push_const)
  also have "\<dots> = drop (length (?fs @ run) - capacity r) (?fs @ run)"
    unfolding eq drop_drop length_drop by (rule arg_cong [of _ _ "\<lambda>n. drop n _"]) simp
  finally show ?case by (simp add: e)
qed (simp add: good_def)

end

section \<open>The ring provides the interface\<close>

lemma ring_frames_push_slots:
  assumes "pr_len r < length (pr_slots r)"
  shows "ring_frames (r\<lparr>pr_slots := (pr_slots r)[(pr_head r + pr_len r) mod length (pr_slots r) := e], pr_len := pr_len r + 1\<rparr>) =
    ring_frames r @ [e]"
proof -
  let ?n = "length (pr_slots r)" and ?h = "pr_head r"
  have other: "(?h + pr_len r) mod ?n \<noteq> (?h + i) mod ?n" if "i < pr_len r" for i
  proof
    assume "(?h + pr_len r) mod ?n = (?h + i) mod ?n"
    then have "?n dvd pr_len r - i"
      using that mod_eq_dvd_iff_nat [of "?h + i" "?h + pr_len r" ?n] by simp
    with that assms show False by (auto dest: dvd_imp_le)
  qed
  have "(?h + pr_len r) mod ?n < ?n" using assms by (intro mod_less_divisor) auto
  then show ?thesis by (simp add: ring_frames_def other)
qed

lemma ring_frames_evict:
  assumes "0 < pr_len r" and "ring_ok r"
  shows "ring_frames (r\<lparr>pr_head := (pr_head r + 1) mod length (pr_slots r), pr_len := pr_len r - 1\<rparr>) = tl (ring_frames r)"
proof -
  have "[0..<pr_len r] = 0 # map Suc [0..<pr_len r - 1]"
    using assms(1) by (metis Suc_pred' map_Suc_upt upt_conv_Cons)
  moreover have "((pr_head r + 1) mod length (pr_slots r) + i) mod length (pr_slots r) =
      (pr_head r + Suc i) mod length (pr_slots r)" for i
    by (simp add: mod_add_left_eq)
  ultimately show ?thesis by (simp add: ring_frames_def del: upt_Suc)
qed

lemma newest_timestamp_last:
  "newest_timestamp r = (if ring_frames r = [] then None else Some (fst (last (ring_frames r))))"
proof (cases "pr_len r")
  case (Suc n)
  then show ?thesis by (simp add: newest_timestamp_def ring_frames_def)
qed (simp add: newest_timestamp_def ring_frames_def)

lemma ring_frames_push:
  assumes "ring_ok r" and "pr_slots r \<noteq> []"
  shows "ring_frames (pre_roll_push t x r) = push_bounded (length (pr_slots r)) (pr_frame_us r) (t, x) (ring_frames r)"
    and "ring_ok (pre_roll_push t x r)"
proof -
  let ?cap = "length (pr_slots r)"
  define a where "a = (if ring_frames r \<noteq> [] \<and> fst (last (ring_frames r)) + pr_frame_us r \<noteq> t then r\<lparr>pr_len := 0\<rparr> else r)"
  define b where "b = (if pr_len a = ?cap then a\<lparr>pr_head := (pr_head a + 1) mod ?cap, pr_len := pr_len a - 1\<rparr> else a)"
  have slots: "pr_slots a = pr_slots r" "pr_slots b = pr_slots r" by (simp_all add: a_def b_def)
  have a: "ring_ok a" "ring_frames a = (if ring_frames r \<noteq> [] \<and> fst (last (ring_frames r)) + pr_frame_us r \<noteq> t then [] else ring_frames r)"
    using assms(1) by (auto simp: a_def ring_ok_def ring_frames_def)
  have len: "length (ring_frames a) = pr_len a" by (simp add: ring_frames_def)
  have b: "ring_frames b = (if length (ring_frames a) = ?cap then tl (ring_frames a) else ring_frames a)" "pr_len b < ?cap"
    using ring_frames_evict [of a] a(1) assms(2) len by (auto simp: b_def slots ring_ok_def)
  have push: "pre_roll_push t x r = b\<lparr>pr_slots := (pr_slots b)[(pr_head b + pr_len b) mod length (pr_slots b) := (t, x)], pr_len := pr_len b + 1\<rparr>"
    using assms(2) by (auto simp: pre_roll_push_def Let_def newest_timestamp_last a_def b_def)
  show "ring_frames (pre_roll_push t x r) = push_bounded ?cap (pr_frame_us r) (t, x) (ring_frames r)"
    using ring_frames_push_slots [of b "(t, x)"] b by (simp add: push slots push_bounded_def Let_def a(2))
  show "ring_ok (pre_roll_push t x r)"
    using b(2) by (simp add: push slots ring_ok_def)
qed

lemma pre_roll_push_const:
  "length (pr_slots (pre_roll_push t x r)) = length (pr_slots r)" "pr_frame_us (pre_roll_push t x r) = pr_frame_us r"
  by (auto simp: pre_roll_push_def Let_def split: option.split)

lemma ring_ok_push: "ring_ok r \<Longrightarrow> ring_ok (pre_roll_push t x r)"
  using ring_frames_push(2) [of r t x] by (cases "pr_slots r = []") (simp_all add: pre_roll_push_def)

interpretation prr: frame_ring ring_frames pre_roll_push pre_roll_flush "\<lambda>r. length (pr_slots r)" pr_frame_us ring_ok
proof unfold_locales
  fix r :: "'f pre_roll_ring" and t x
  assume ok: "ring_ok r"
  show "ring_frames (pre_roll_push t x r) = push_bounded (length (pr_slots r)) (pr_frame_us r) (t, x) (ring_frames r)"
    if "0 < length (pr_slots r)"
    using ring_frames_push(1) [OF ok] that by simp
  show "fst (pre_roll_flush t r) =
      (if ring_frames r \<noteq> [] \<and> fst (last (ring_frames r)) + pr_frame_us r = t then ring_frames r else [])"
    by (simp add: pre_roll_flush_def newest_timestamp_last ring_frames_def [symmetric])
  show "ring_ok (pre_roll_push t x r)" by (rule ring_ok_push [OF ok])
qed (simp_all add: pre_roll_push_const pre_roll_flush_def ring_ok_def ring_frames_def)

lemma pre_roll_new_good: "0 < cap \<Longrightarrow> prr.good (pre_roll_new cap step)"
  by (simp add: prr.good_def ring_ok_def ring_frames_def pre_roll_new_def)

text \<open>C18: The pre-roll ring keeps exactly the audio just before the gate opens. After any number of
  consecutive suppressed frames pushed into a new ring, the flush at the following frame hands
  out the newest of them, as many as the ring has slots, oldest first and with their own
  timestamps; at any other frame it hands out nothing. The ring is empty afterwards.\<close>

theorem pre_roll_keeps_newest:
  assumes "0 < cap" and "consecutive step (map fst run)" and "run \<noteq> []"
    and "r = fold (\<lambda>(t, x). pre_roll_push t x) run (pre_roll_new cap step)"
  shows "fst (pre_roll_flush now r) =
      (if fst (last run) + step = now then drop (length run - cap) run else []) \<and>
    ring_frames (snd (pre_roll_flush now r)) = []"
proof -
  let ?r = "pre_roll_new cap step :: 'a pre_roll_ring"
  have new: "ring_frames ?r = []" "length (pr_slots ?r) = cap" "pr_frame_us ?r = step"
    by (simp_all add: ring_frames_def pre_roll_new_def)
  have fr: "ring_frames r = drop (length run - cap) run"
    using prr.push_run [OF pre_roll_new_good [OF assms(1)], of step run] assms(2) unfolding assms(4) new by simp
  have good: "prr.good (fold (\<lambda>(t, x). pre_roll_push t x) es q)" if "prr.good q" for es :: "'a slot list" and q
    using that by (induction es arbitrary: q) (auto intro: prr.good_push)
  have const: "pr_frame_us (fold (\<lambda>(t, x). pre_roll_push t x) es q) = pr_frame_us q" for es :: "'a slot list" and q
    by (induction es arbitrary: q) (auto simp: pre_roll_push_const)
  have ok: "ring_ok r" using good [OF pre_roll_new_good [OF assms(1)]] by (simp add: assms(4) prr.good_def)
  have "length run - cap < length run" using assms(1,3) by (cases run) auto
  then have "drop (length run - cap) run \<noteq> []" "last (drop (length run - cap) run) = last run"
    by (auto simp: last_drop)
  then show ?thesis
    using prr.flush_out [OF ok, of now] prr.flush_empty [of now r] by (simp add: fr const [of run ?r, folded assms(4)] new)
qed

theorem pre_roll_keeps_newest_witness:
  "fst (pre_roll_flush 140 (fold (\<lambda>(t, x). pre_roll_push t x)
      [(40, [1 :: int]), (60, [2]), (80, [3]), (100, [4]), (120, [5])] (pre_roll_new 3 20))) = [(80, [3]), (100, [4]), (120, [5])]"
  using pre_roll_keeps_newest [of 3 20 "[(40, [1 :: int]), (60, [2]), (80, [3]), (100, [4]), (120, [5])]" _ 140] by simp

end
