(* ===== verification/AudioTask.thy ===== *)
theory AudioTask
  imports AudioPipeline Preroll Projection Effects
begin

text \<open>
  The audio task of the client (\<open>rumble-client/src/audio_task.rs\<close>): one thread that owns the
  microphone stream, the encoder, the per-peer jitter buffers and the playback ring, and
  handles one event at a time: a command of the client, a captured frame, an encoded frame to
  send, a voice datagram, a tick of the mixer, a block of the output device, and the ticks of
  cleanup and of device recovery. The state is a record; an event returns it updated, with the
  voice events it publishes and the datagrams it sends appended to the two logs in it.

  Parameters: the codec, the processors, the devices (whether one opens, whether it is
  healthy), the clock, and the set of talking users in the client's snapshot.
\<close>

section \<open>State\<close>

record ('d, 'e, 'q, 'f) audio_env =
  ae_f32 :: "'f float_ops"
  ae_f64 :: "'f float_ops"
  ae_decoder :: "('d, 'f) decoder_ops"
  ae_create_decoder :: "'d option"
  ae_create_encoder :: "audio_settings \<Rightarrow> 'e option"
  ae_apply_settings :: "audio_settings \<Rightarrow> 'e \<Rightarrow> 'e"
  ae_encode :: "'e \<Rightarrow> 'f list \<Rightarrow> 'e \<times> bytes option"
  ae_processors :: "('q, 'f) processor_ops"
  ae_open_input :: "string option \<Rightarrow> unit outcome"
  ae_open_output :: "string option \<Rightarrow> bool"
  ae_input_healthy :: bool
  ae_output_healthy :: bool
  ae_input_devices :: "audio_device_info list"
  ae_output_devices :: "audio_device_info list"
  ae_debug :: "string \<Rightarrow> string"
  ae_now :: nat
  ae_talking :: "u64 list"

definition MAX_PLAYBACK_BUFFER_SAMPLES :: nat where
  "MAX_PLAYBACK_BUFFER_SAMPLES = 9600"

definition MAX_SFX_QUEUE_SAMPLES :: nat where
  "MAX_SFX_QUEUE_SAMPLES = 96000"

definition OPUS_FRAME_SIZE :: nat where
  "OPUS_FRAME_SIZE = 960"

definition PLAYBACK_PRIME_SAMPLES :: nat where
  "PLAYBACK_PRIME_SAMPLES = 2 * OPUS_FRAME_SIZE"

definition PLAYBACK_TARGET_SAMPLES :: nat where
  "PLAYBACK_TARGET_SAMPLES = PLAYBACK_PRIME_SAMPLES"

definition ORPHAN_DECODER_TTL :: nat where
  "ORPHAN_DECODER_TTL = 300 * 1000000000"

datatype capture_message =
    EncodedFrame bytes nat nat
  | EndOfStream nat

text \<open>The stream of a capture device, with what its callback owns.\<close>

record ('q, 'f) capture_stream =
  cs_active :: bool
  cs_frames_to_discard :: nat
  cs_pipeline :: "'q audio_pipeline"
  cs_preroll :: "'f pre_roll_ring"

text \<open>The stream of an output device: the ring between mixer and device, and the filler's state.\<close>

record 'f playback =
  pb_ring :: "'f list"
  pb_priming :: bool

type_synonym ('d, 'q, 'f) peer_audio = "('d, 'f, 'q audio_pipeline) user_audio_state"

record ('d, 'e, 'q, 'f) audio_task =
  at_stopped :: bool
  at_connected :: bool
  at_my_user_id :: u64
  at_voice_mode :: voice_mode
  at_self_muted :: bool
  at_self_deafened :: bool
  at_ptt_active :: bool
  at_server_muted :: bool
  at_muted_users :: "u64 set"
  at_input :: "('q, 'f) capture_stream option"
  at_playback :: "'f playback option"
  at_underruns :: nat
  at_overflows :: nat
  at_producer_active :: bool
  at_sfx_queue :: "'f list"
  at_user_audio :: "(u64, ('d, 'q, 'f) peer_audio) dashmap"
  at_room_members :: "u64 set"
  at_selected_input :: "string option"
  at_selected_output :: "string option"
  at_settings :: audio_settings
  at_tx_pipeline :: pipeline_config
  at_rx_defaults :: pipeline_config
  at_per_user_rx :: "u64 \<rightharpoonup> 'f user_rx_config"
  at_encoded :: "capture_message list"
  at_send_sequence :: u32
  at_capture_frame_index :: nat
  at_capture_epoch :: nat
  at_packets_sent :: nat
  at_bytes_sent :: nat
  at_encoder :: "'e option"
  at_capture_active :: bool
  at_input_recovering :: bool
  at_output_recovering :: bool
  at_was_transmitting :: bool
  at_vad_gate_bypass :: bool
  at_events :: "(pipeline_config, 'f user_rx_config) voice_event list"
  at_sent :: "voice_datagram list"

section \<open>Capture\<close>

definition emit_voice ::
  "(pipeline_config, 'f user_rx_config) voice_event \<Rightarrow> ('d, 'e, 'q, 'f) audio_task \<Rightarrow> ('d, 'e, 'q, 'f) audio_task" where
  "emit_voice ev t = t\<lparr>at_events := at_events t @ [ev]\<rparr>"

definition should_capture :: "voice_mode \<Rightarrow> bool \<Rightarrow> bool \<Rightarrow> bool \<Rightarrow> bool \<Rightarrow> bool" where
  "should_capture mode muted smuted ptt connected =
     (if \<not> connected \<or> muted \<or> smuted then False
      else case mode of Continuous \<Rightarrow> True | PushToTalk \<Rightarrow> ptt)"

datatype capture_transition = NoTransition | Activate | Deactivate

definition capture_transition_of :: "bool \<Rightarrow> bool \<Rightarrow> capture_transition" where
  "capture_transition_of want active =
     (if want \<and> \<not> active then Activate else if \<not> want \<and> active then Deactivate else NoTransition)"

definition set_active :: "bool \<Rightarrow> ('d, 'e, 'q, 'f) audio_task \<Rightarrow> ('d, 'e, 'q, 'f) audio_task" where
  "set_active b t = t\<lparr>at_input := map_option (\<lambda>s. s\<lparr>cs_active := b\<rparr>) (at_input t)\<rparr>"

definition deactivate_capture :: "('d, 'e, 'q, 'f) audio_task \<Rightarrow> ('d, 'e, 'q, 'f) audio_task" where
  "deactivate_capture t =
     (if at_capture_active t
      then emit_voice (TransmittingChanged False)
             ((set_active False
                 (t\<lparr>at_encoded := at_encoded t @ [EndOfStream (at_capture_frame_index t * FRAME_US)],
                    at_capture_active := False\<rparr>))\<lparr>at_was_transmitting := False\<rparr>)
      else t)"

definition activate_capture :: "('d, 'e, 'q, 'f) audio_env \<Rightarrow> ('d, 'e, 'q, 'f) audio_task \<Rightarrow> ('d, 'e, 'q, 'f) audio_task" where
  "activate_capture e t =
     (case at_input t of
        None \<Rightarrow> t
      | Some s \<Rightarrow>
          let elapsed_frames = ((ae_now e - at_capture_epoch t) div 1000) div FRAME_US
          in t\<lparr>at_capture_active := True,
               at_capture_frame_index := max (at_capture_frame_index t) elapsed_frames,
               at_input := Some (s\<lparr>cs_pipeline := pipeline_reset (ae_processors e) (cs_pipeline s), cs_active := True\<rparr>)\<rparr>)"

definition sync_transmission :: "('d, 'e, 'q, 'f) audio_env \<Rightarrow> ('d, 'e, 'q, 'f) audio_task \<Rightarrow> ('d, 'e, 'q, 'f) audio_task" where
  "sync_transmission e t =
     (case capture_transition_of
             (should_capture (at_voice_mode t) (at_self_muted t) (at_server_muted t) (at_ptt_active t) (at_connected t))
             (at_capture_active t) of
        Activate \<Rightarrow> activate_capture e t
      | Deactivate \<Rightarrow> deactivate_capture t
      | NoTransition \<Rightarrow> t)"

text \<open>Opening the capture stream: it starts inactive, with three frames to discard.\<close>

definition start_transmission ::
  "('d, 'e, 'q, 'f) audio_env \<Rightarrow> ('d, 'e, 'q, 'f) audio_task \<Rightarrow> ('d, 'e, 'q, 'f) audio_task \<times> unit outcome" where
  "start_transmission e t =
     (if at_input t \<noteq> None then (t, Inr ())
      else case at_encoder t of
             None \<Rightarrow> (t, Inl ''connection-scoped encoder not available'')
           | Some enc \<Rightarrow>
               let t = t\<lparr>at_encoder := Some (ae_apply_settings e (at_settings t) enc)\<rparr>;
                   pipeline = (case from_config (ae_processors e) (at_tx_pipeline t) of
                                 Inr p \<Rightarrow> p
                               | Inl _ \<Rightarrow> pipeline_new (plc_frame_size (at_tx_pipeline t)))
               in (case ae_open_input e (at_selected_input t) of
                     Inr _ \<Rightarrow> (t\<lparr>at_input := Some \<lparr>cs_active = False, cs_frames_to_discard = 3, cs_pipeline = pipeline,
                                                  cs_preroll = pre_roll_new PRE_ROLL_FRAMES FRAME_US\<rparr>\<rparr>, Inr ())
                   | Inl err \<Rightarrow> (t, Inl err)))"

definition stop_transmission :: "('d, 'e, 'q, 'f) audio_task \<Rightarrow> ('d, 'e, 'q, 'f) audio_task" where
  "stop_transmission t = t\<lparr>at_input := None\<rparr>"

text \<open>Starting, where a failure is only reported.\<close>

definition start_or_report :: "('d, 'e, 'q, 'f) audio_env \<Rightarrow> ('d, 'e, 'q, 'f) audio_task \<Rightarrow> ('d, 'e, 'q, 'f) audio_task" where
  "start_or_report e t =
     (case start_transmission e t of
        (t', Inr _) \<Rightarrow> t'
      | (t', Inl err) \<Rightarrow> emit_voice (DeviceUnavailable DeviceInput err) (t'\<lparr>at_capture_active := False\<rparr>))"

definition teardown_capture :: "('d, 'e, 'q, 'f) audio_task \<Rightarrow> ('d, 'e, 'q, 'f) audio_task" where
  "teardown_capture t = (if at_input t \<noteq> None then stop_transmission (deactivate_capture t) else t)"

text \<open>The rebuild after a change of settings or of the pipeline.\<close>

definition rebuild_capture :: "('d, 'e, 'q, 'f) audio_env \<Rightarrow> ('d, 'e, 'q, 'f) audio_task \<Rightarrow> ('d, 'e, 'q, 'f) audio_task" where
  "rebuild_capture e t =
     (let t = teardown_capture t;
          t = (if at_connected t then start_or_report e t else t)
      in sync_transmission e t)"

definition open_playback :: "('d, 'e, 'q, 'f) audio_env \<Rightarrow> ('d, 'e, 'q, 'f) audio_task \<Rightarrow> ('d, 'e, 'q, 'f) audio_task" where
  "open_playback e t =
     t\<lparr>at_playback := (if ae_open_output e (at_selected_output t) then Some \<lparr>pb_ring = [], pb_priming = True\<rparr> else None)\<rparr>"

section \<open>The capture callback\<close>

fun encode_frames ::
  "('d, 'e, 'q, 'f) audio_env \<Rightarrow> 'e \<Rightarrow> 'f slot list \<Rightarrow> 'e \<times> capture_message list" where
  "encode_frames e enc [] = (enc, [])"
| "encode_frames e enc ((ts, samples) # fs) =
     (case ae_encode e enc samples of
        (enc', res) \<Rightarrow>
          (case encode_frames e enc' fs of
             (enc'', msgs) \<Rightarrow>
               (enc'', (case res of Some opus \<Rightarrow> [EncodedFrame opus (length opus) ts] | None \<Rightarrow> []) @ msgs)))"

text \<open>A processed frame: suppressed, or sent behind what the ring holds.\<close>

definition gate_frame ::
  "('d, 'e, 'q, 'f) audio_env \<Rightarrow> bool \<Rightarrow> nat \<Rightarrow> 'f list \<Rightarrow> ('q, 'f) capture_stream \<Rightarrow> ('d, 'e, 'q, 'f) audio_task \<Rightarrow>
     ('d, 'e, 'q, 'f) audio_task" where
  "gate_frame e suppress ts samples s t =
     (let was_tx = at_was_transmitting t;
          t = (if was_tx = suppress then emit_voice (TransmittingChanged (\<not> suppress)) t else t)
      in if suppress
         then let t = (if was_tx then t\<lparr>at_was_transmitting := False, at_encoded := at_encoded t @ [EndOfStream ts]\<rparr> else t)
              in t\<lparr>at_input := Some (s\<lparr>cs_preroll := pre_roll_push ts samples (cs_preroll s)\<rparr>)\<rparr>
         else let t = t\<lparr>at_was_transmitting := True, at_input := Some s\<rparr>
              in case at_encoder t of
                   None \<Rightarrow> t
                 | Some enc \<Rightarrow>
                     (case pre_roll_flush ts (cs_preroll s) of
                        (fs, ring) \<Rightarrow>
                          (case encode_frames e enc (fs @ [(ts, samples)]) of
                             (enc', msgs) \<Rightarrow>
                               t\<lparr>at_input := Some (s\<lparr>cs_preroll := ring\<rparr>), at_encoder := Some enc',
                                 at_encoded := at_encoded t @ msgs\<rparr>)))"

definition capture_callback ::
  "('d, 'e, 'q, 'f) audio_env \<Rightarrow> 'f list \<Rightarrow> ('d, 'e, 'q, 'f) audio_task \<Rightarrow> ('d, 'e, 'q, 'f) audio_task" where
  "capture_callback e samples t =
     (case at_input t of
        None \<Rightarrow> t
      | Some s \<Rightarrow>
          if \<not> cs_active s then t
          else let ts = at_capture_frame_index t * FRAME_US;
                   t = t\<lparr>at_capture_frame_index := at_capture_frame_index t + 1\<rparr>
               in if 0 < cs_frames_to_discard s
                  then t\<lparr>at_input := Some (s\<lparr>cs_frames_to_discard := cs_frames_to_discard s - 1\<rparr>)\<rparr>
                  else case pipeline_process (ae_processors e) (cs_pipeline s) samples of
                         (pipeline, processed, psuppress) \<Rightarrow>
                           gate_frame e (psuppress \<and> \<not> at_vad_gate_bypass t) ts processed
                             (s\<lparr>cs_pipeline := pipeline\<rparr>) t)"

section \<open>Sending\<close>

definition send_capture_message :: "('d, 'e, 'q, 'f) audio_task \<Rightarrow> ('d, 'e, 'q, 'f) audio_task" where
  "send_capture_message t =
     (case at_encoded t of
        [] \<Rightarrow> t
      | m # ms \<Rightarrow>
          let t = t\<lparr>at_encoded := ms\<rparr>
          in if \<not> at_connected t then t
             else (case (case m of EncodedFrame opus sz ts \<Rightarrow> (opus, sz, False, ts) | EndOfStream ts \<Rightarrow> ([], 0, True, ts)) of
                     (opus_data, size_bytes, end_of_stream, ts) \<Rightarrow>
                       t\<lparr>at_send_sequence := at_send_sequence t + 1,
                         at_packets_sent := (if end_of_stream then at_packets_sent t else at_packets_sent t + 1),
                         at_bytes_sent := (if end_of_stream then at_bytes_sent t else at_bytes_sent t + size_bytes),
                         at_sent := at_sent t @
                           [\<lparr>vd_opus_data = opus_data, vd_sequence = at_send_sequence t, vd_timestamp_us = of_nat ts,
                             vd_end_of_stream = end_of_stream, vd_sender_id = Some (at_my_user_id t), vd_room_id = None\<rparr>]\<rparr>))"

section \<open>Receiving\<close>

definition rx_config :: "('d, 'e, 'q, 'f) audio_env \<Rightarrow> u64 \<Rightarrow> ('d, 'e, 'q, 'f) audio_task \<Rightarrow> pipeline_config \<times> 'f" where
  "rx_config e u t =
     (case at_per_user_rx t u of
        Some rx \<Rightarrow> ((case rx_pipeline_override rx of Some c \<Rightarrow> c | None \<Rightarrow> at_rx_defaults t), rx_volume_db rx)
      | None \<Rightarrow> (at_rx_defaults t, fo_of_nat (ae_f32 e) 0))"

text \<open>State for a peer, unless no decoder can be made.\<close>

definition create_peer :: "('d, 'e, 'q, 'f) audio_env \<Rightarrow> u64 \<Rightarrow> ('d, 'e, 'q, 'f) audio_task \<Rightarrow> ('d, 'e, 'q, 'f) audio_task" where
  "create_peer e u t =
     (case rx_config e u t of
        (config, volume_db) \<Rightarrow>
          (case ae_create_decoder e of
             None \<Rightarrow> t
           | Some d \<Rightarrow>
               t\<lparr>at_user_audio := dm_insert u
                   ((user_audio_new (ae_f64 e) (ae_now e) d (as_jitter_buffer_delay_packets (at_settings t)))
                      \<lparr>ua_rx_pipeline := (case from_config (ae_processors e) config of Inr p \<Rightarrow> Some p | Inl _ \<Rightarrow> None),
                       ua_volume_db := volume_db\<rparr>) (at_user_audio t)\<rparr>))"

definition with_peer ::
  "u64 \<Rightarrow> (('d, 'q, 'f) peer_audio \<Rightarrow> ('d, 'q, 'f) peer_audio) \<Rightarrow> ('d, 'e, 'q, 'f) audio_task \<Rightarrow> ('d, 'e, 'q, 'f) audio_task" where
  "with_peer u f t =
     (case dm_get (at_user_audio t) u of
        None \<Rightarrow> t
      | Some s \<Rightarrow> t\<lparr>at_user_audio := dm_insert u (f s) (at_user_audio t)\<rparr>)"

definition handle_voice_datagram ::
  "('d, 'e, 'q, 'f) audio_env \<Rightarrow> u64 \<Rightarrow> voice_datagram \<Rightarrow> ('d, 'e, 'q, 'f) audio_task \<Rightarrow> ('d, 'e, 'q, 'f) audio_task" where
  "handle_voice_datagram e sender dg t =
     (if vd_end_of_stream dg then with_peer sender (mark_end_of_stream (vd_sequence dg)) t
      else let t = (if dm_get (at_user_audio t) sender = None then create_peer e sender t else t)
           in if dm_get (at_user_audio t) sender = None then t
              else let t = with_peer sender (insert_packet_at (ae_f64 e) (vd_sequence dg) (vd_timestamp_us dg)
                                               (vd_opus_data dg) (ae_now e)) t
                   in if sender \<in> set (ae_talking e) then t else emit_voice (UserStartedTalking sender) t)"

text \<open>What the datagram socket returned: a decoded datagram, undecodable bytes, or the end.\<close>

datatype datagram_result = DgVoice voice_datagram | DgUndecodable | DgClosed | DgError

fun receive_datagram ::
  "('d, 'e, 'q, 'f) audio_env \<Rightarrow> datagram_result \<Rightarrow> ('d, 'e, 'q, 'f) audio_task \<Rightarrow> ('d, 'e, 'q, 'f) audio_task" where
  "receive_datagram e (DgVoice dg) t =
     (case vd_sender_id dg of
        None \<Rightarrow> t
      | Some sender \<Rightarrow>
          if sender \<noteq> at_my_user_id t \<and> sender \<notin> at_muted_users t then handle_voice_datagram e sender dg t else t)"
| "receive_datagram e DgUndecodable t = t"
| "receive_datagram e DgClosed t = t\<lparr>at_connected := False\<rparr>"
| "receive_datagram e DgError t = t\<lparr>at_connected := False\<rparr>"

section \<open>Mixing\<close>

definition add_samples :: "'f float_ops \<Rightarrow> 'f list \<Rightarrow> 'f list \<Rightarrow> 'f list" where
  "add_samples F mixed pcm =
     map (\<lambda>i. if i < length pcm then fo_add F (mixed ! i) (pcm ! i) else mixed ! i) [0..<length mixed]"

text \<open>One peer's turn in the mix; a suppressed frame is decoded but not heard.\<close>

definition mix_peer ::
  "('d, 'e, 'q, 'f) audio_env \<Rightarrow> ('d, 'q, 'f) peer_audio \<Rightarrow> 'f list \<times> bool \<Rightarrow> ('d, 'q, 'f) peer_audio \<times> 'f list \<times> bool" where
  "mix_peer e s = (\<lambda>(mixed, has_audio).
     if \<not> ready_to_play s then (s, mixed, has_audio)
     else case decode_next_into (ae_decoder e) (ae_now e) s of
            (s, None) \<Rightarrow> (s, mixed, has_audio)
          | (s, Some pcm) \<Rightarrow>
              (case (case ua_rx_pipeline s of
                       None \<Rightarrow> (s, pcm, False)
                     | Some p \<Rightarrow> (case pipeline_process (ae_processors e) p pcm of
                                   (p', pcm', suppress) \<Rightarrow> (s\<lparr>ua_rx_pipeline := Some p'\<rparr>, pcm', suppress))) of
                 (s, pcm, suppress) \<Rightarrow>
                   if suppress then (s, mixed, has_audio)
                   else (s, add_samples (ae_f32 e) mixed (apply_volume (ae_f32 e) s pcm), True)))"

fun mix_peers ::
  "('d, 'e, 'q, 'f) audio_env \<Rightarrow> (u64, ('d, 'q, 'f) peer_audio) dashmap \<Rightarrow> 'f list \<times> bool \<Rightarrow>
     (u64, ('d, 'q, 'f) peer_audio) dashmap \<times> 'f list \<times> bool" where
  "mix_peers e [] acc = ([], acc)"
| "mix_peers e ((u, s) # ps) acc =
     (case mix_peer e s acc of (s', acc') \<Rightarrow> (case mix_peers e ps acc' of (ps', acc'') \<Rightarrow> ((u, s') # ps', acc'')))"

definition mix_peer_frames ::
  "('d, 'e, 'q, 'f) audio_env \<Rightarrow> (u64, ('d, 'q, 'f) peer_audio) dashmap \<Rightarrow>
     (u64, ('d, 'q, 'f) peer_audio) dashmap \<times> 'f list option" where
  "mix_peer_frames e peers =
     (case mix_peers e peers (replicate OPUS_FRAME_SIZE (fo_of_nat (ae_f32 e) 0), False) of
        (peers', mixed, has_audio) \<Rightarrow>
          (peers', if has_audio then Some (map (soft_clip (ae_f32 e)) mixed) else None))"

text \<open>Sound effects are added sample by sample, as long as the queue lasts.\<close>

fun mix_sfx :: "'f float_ops \<Rightarrow> 'f list \<Rightarrow> 'f list \<Rightarrow> 'f list \<times> 'f list" where
  "mix_sfx F (x # mixed) (y # queue) =
     (case mix_sfx F mixed queue of (mixed', queue') \<Rightarrow> (soft_clip F (fo_add F x y) # mixed', queue'))"
| "mix_sfx F mixed queue = (mixed, queue)"

definition mix_one_frame ::
  "('d, 'e, 'q, 'f) audio_env \<Rightarrow> ('d, 'e, 'q, 'f) audio_task \<Rightarrow> ('d, 'e, 'q, 'f) audio_task \<times> 'f list option" where
  "mix_one_frame e t =
     (case mix_peer_frames e (at_user_audio t) of
        (peers, peer_mix) \<Rightarrow>
          let t = t\<lparr>at_user_audio := peers\<rparr>;
              mixed = (case peer_mix of Some m \<Rightarrow> m | None \<Rightarrow> replicate OPUS_FRAME_SIZE (fo_of_nat (ae_f32 e) 0))
          in if at_sfx_queue t \<noteq> []
             then (case mix_sfx (ae_f32 e) mixed (at_sfx_queue t) of
                     (mixed', queue) \<Rightarrow> (t\<lparr>at_sfx_queue := queue\<rparr>, Some mixed'))
             else (t, peer_mix))"

definition push_frame :: "'f list \<Rightarrow> 'f playback \<Rightarrow> 'f playback \<times> bool" where
  "push_frame frame pb =
     (let n = min (length frame) (MAX_PLAYBACK_BUFFER_SAMPLES - length (pb_ring pb))
      in (pb\<lparr>pb_ring := pb_ring pb @ take n frame\<rparr>, n < length frame))"

text \<open>
  Topping up the ring: each turn adds a frame of 960 samples, so two turns reach the target;
  the loop is written with that bound as fuel, and below it is shown to be enough.
\<close>

definition ring_full :: "('d, 'e, 'q, 'f) audio_task \<Rightarrow> bool" where
  "ring_full t = (case at_playback t of None \<Rightarrow> True | Some pb \<Rightarrow> PLAYBACK_TARGET_SAMPLES \<le> length (pb_ring pb))"

definition push_mixed :: "'f list \<Rightarrow> ('d, 'e, 'q, 'f) audio_task \<Rightarrow> ('d, 'e, 'q, 'f) audio_task" where
  "push_mixed frame t =
     (case at_playback t of
        None \<Rightarrow> t
      | Some pb \<Rightarrow>
          (case push_frame frame pb of
             (pb', truncated) \<Rightarrow>
               t\<lparr>at_playback := Some pb', at_overflows := at_overflows t + (if truncated then 1 else 0)\<rparr>))"

fun fill_loop :: "nat \<Rightarrow> ('d, 'e, 'q, 'f) audio_env \<Rightarrow> ('d, 'e, 'q, 'f) audio_task \<Rightarrow> ('d, 'e, 'q, 'f) audio_task option" where
  "fill_loop 0 e t = (if ring_full t then Some t else None)"
| "fill_loop (Suc n) e t =
     (if ring_full t then Some t
      else case mix_one_frame e t of
             (t', None) \<Rightarrow> Some t'
           | (t', Some frame) \<Rightarrow> fill_loop n e (push_mixed frame t'))"

definition fill_playback_ring :: "('d, 'e, 'q, 'f) audio_env \<Rightarrow> ('d, 'e, 'q, 'f) audio_task \<Rightarrow> ('d, 'e, 'q, 'f) audio_task option" where
  "fill_playback_ring e t =
     fill_loop 2 e
       (t\<lparr>at_producer_active := (at_sfx_queue t \<noteq> [] \<or> list_ex (\<lambda>p. is_stream_live (ae_now e) (snd p)) (at_user_audio t))\<rparr>)"

text \<open>A block of the output device: silence while priming, else what the ring holds.\<close>

definition playback_fill ::
  "'f \<Rightarrow> nat \<Rightarrow> bool \<Rightarrow> 'f playback \<Rightarrow> 'f list \<times> 'f playback \<times> bool" where
  "playback_fill silence len producer_active pb =
     (if pb_priming pb \<and> length (pb_ring pb) < PLAYBACK_PRIME_SAMPLES \<and> producer_active
      then (replicate len silence, pb, False)
      else let n = min (length (pb_ring pb)) len
           in (take n (pb_ring pb) @ replicate (len - n) silence,
               pb\<lparr>pb_ring := drop n (pb_ring pb), pb_priming := (n < len)\<rparr>,
               n < len \<and> producer_active))"

definition device_block :: "('d, 'e, 'q, 'f) audio_env \<Rightarrow> nat \<Rightarrow> ('d, 'e, 'q, 'f) audio_task \<Rightarrow> ('d, 'e, 'q, 'f) audio_task \<times> 'f list" where
  "device_block e len t =
     (case at_playback t of
        None \<Rightarrow> (t, [])
      | Some pb \<Rightarrow>
          (case playback_fill (fo_of_nat (ae_f32 e) 0) len (at_producer_active t) pb of
             (out, pb', underrun) \<Rightarrow>
               (t\<lparr>at_playback := Some pb', at_underruns := at_underruns t + (if underrun then 1 else 0)\<rparr>, out)))"

section \<open>Housekeeping\<close>

definition stopped_talking ::
  "u64 list \<Rightarrow> ('d, 'e, 'q, 'f) audio_task \<Rightarrow> ('d, 'e, 'q, 'f) audio_task" where
  "stopped_talking us t = fold (\<lambda>u. emit_voice (UserStoppedTalking u)) us t"

definition cleanup_stale_users :: "('d, 'e, 'q, 'f) audio_env \<Rightarrow> ('d, 'e, 'q, 'f) audio_task \<Rightarrow> ('d, 'e, 'q, 'f) audio_task" where
  "cleanup_stale_users e t =
     stopped_talking
       (filter (\<lambda>u. u \<in> set (ae_talking e))
         (map fst (filter (\<lambda>p. 300 * 1000000 < ae_now e - ua_last_arrival (snd p)) (at_user_audio t)))) t"

definition gc_orphaned_users :: "('d, 'e, 'q, 'f) audio_env \<Rightarrow> ('d, 'e, 'q, 'f) audio_task \<Rightarrow> ('d, 'e, 'q, 'f) audio_task" where
  "gc_orphaned_users e t =
     t\<lparr>at_user_audio :=
       filter (\<lambda>p. fst p \<in> at_room_members t \<or> ae_now e - ua_last_arrival (snd p) \<le> ORPHAN_DECODER_TTL) (at_user_audio t)\<rparr>"

definition recover_input :: "('d, 'e, 'q, 'f) audio_env \<Rightarrow> ('d, 'e, 'q, 'f) audio_task \<Rightarrow> ('d, 'e, 'q, 'f) audio_task" where
  "recover_input e t =
     (if (at_input t \<noteq> None \<and> \<not> ae_input_healthy e) \<or> (at_input t = None \<and> at_input_recovering t)
      then let t = (teardown_capture t)\<lparr>at_input_recovering := True\<rparr>
           in if at_connected t
              then (case start_transmission e t of
                      (t', Inr _) \<Rightarrow>
                        sync_transmission e
                          (emit_voice (SelectedDeviceChanged DeviceInput (at_selected_input t'))
                            (t'\<lparr>at_input_recovering := False\<rparr>))
                    | (t', Inl err) \<Rightarrow> emit_voice (DeviceError DeviceInput err True) t')
              else emit_voice (DeviceError DeviceInput ''capture device lost'' False) (t\<lparr>at_input_recovering := False\<rparr>)
      else t)"

definition recover_output :: "('d, 'e, 'q, 'f) audio_env \<Rightarrow> ('d, 'e, 'q, 'f) audio_task \<Rightarrow> ('d, 'e, 'q, 'f) audio_task" where
  "recover_output e t =
     (if (at_playback t \<noteq> None \<and> \<not> ae_output_healthy e) \<or> (at_playback t = None \<and> at_output_recovering t)
      then let t = t\<lparr>at_playback := None, at_output_recovering := True\<rparr>
           in if \<not> at_self_deafened t
              then let t = open_playback e t
                   in if at_playback t \<noteq> None
                      then emit_voice (SelectedDeviceChanged DeviceOutput (at_selected_output t))
                             (t\<lparr>at_output_recovering := False\<rparr>)
                      else emit_voice (DeviceError DeviceOutput
                             (''failed to re-open output device '' @
                              ae_debug e (case at_selected_output t of Some d \<Rightarrow> d | None \<Rightarrow> ''default'')) True) t
              else emit_voice (DeviceError DeviceOutput ''playback device lost'' False) (t\<lparr>at_output_recovering := False\<rparr>)
      else t)"

record 'f audio_stats =
  st_packets_sent :: nat
  st_packets_received :: nat
  st_packets_lost :: nat
  st_packets_recovered_fec :: nat
  st_frames_concealed :: nat
  st_bytes_sent :: nat
  st_bytes_received :: nat
  st_avg_frame_size_bytes :: 'f
  st_actual_bitrate_bps :: 'f
  st_playback_buffer_packets :: nat
  st_playback_buffer_samples :: nat
  st_buffer_underruns :: nat
  st_buffer_overflows :: nat

definition update_stats :: "('d, 'e, 'q, 'f) audio_env \<Rightarrow> ('d, 'e, 'q, 'f) audio_task \<Rightarrow> 'f audio_stats" where
  "update_stats e t =
     (let F = ae_f32 e; peers = map snd (at_user_audio t);
          avg = (if 0 < at_packets_sent t
                 then fo_div F (fo_of_nat F (at_bytes_sent t)) (fo_of_nat F (at_packets_sent t)) else fo_of_nat F 0)
      in \<lparr>st_packets_sent = at_packets_sent t,
          st_packets_received = sum_list (map (unat \<circ> ua_packets_received) peers),
          st_packets_lost = sum_list (map ua_packets_lost peers),
          st_packets_recovered_fec = sum_list (map ua_packets_recovered_fec peers),
          st_frames_concealed = sum_list (map ua_frames_concealed peers),
          st_bytes_sent = at_bytes_sent t,
          st_bytes_received = sum_list (map ua_bytes_received peers),
          st_avg_frame_size_bytes = avg,
          st_actual_bitrate_bps = fo_mul F (fo_mul F avg (fo_of_nat F 50)) (fo_of_nat F 8),
          st_playback_buffer_packets = sum_list (map (length \<circ> ua_jitter_buffer) peers),
          st_playback_buffer_samples = (case at_playback t of Some pb \<Rightarrow> length (pb_ring pb) | None \<Rightarrow> 0),
          st_buffer_underruns = at_underruns t,
          st_buffer_overflows = at_overflows t\<rparr>)"

section \<open>Commands\<close>

datatype 'f audio_command =
    CmdConnectionEstablished u64
  | CmdConnectionClosed
  | CmdSetInputDevice "string option"
  | CmdSetOutputDevice "string option"
  | CmdStartTransmit
  | CmdStopTransmit
  | CmdSetVoiceMode voice_mode
  | CmdSetMuted bool
  | CmdSetDeafened bool
  | CmdSetServerMuted bool
  | CmdMuteUser u64
  | CmdUnmuteUser u64
  | CmdRefreshDevices
  | CmdUpdateSettings audio_settings
  | CmdResetStats
  | CmdUpdateTxPipeline pipeline_config
  | CmdUpdateRxPipelineDefaults pipeline_config
  | CmdUpdateUserRxConfig u64 "'f user_rx_config"
  | CmdClearUserRxOverride u64
  | CmdSetUserVolume u64 'f
  | CmdUserJoinedRoom u64
  | CmdUserLeftRoom u64
  | CmdRoomChanged "u64 list"
  | CmdPeerLeft u64
  | CmdPlaySfx "'f list"
  | CmdShutdown

text \<open>A new connection resets the media clock and gets an encoder and an output.\<close>

definition connect_media :: "('d, 'e, 'q, 'f) audio_env \<Rightarrow> u64 \<Rightarrow> ('d, 'e, 'q, 'f) audio_task \<Rightarrow> ('d, 'e, 'q, 'f) audio_task" where
  "connect_media e uid t =
     (let t = t\<lparr>at_connected := True, at_my_user_id := uid, at_capture_epoch := ae_now e, at_capture_frame_index := 0,
                at_encoder := (case ae_create_encoder e (at_settings t) of Some enc \<Rightarrow> Some enc | None \<Rightarrow> at_encoder t)\<rparr>
      in if at_playback t = None \<and> \<not> at_self_deafened t then open_playback e t else t)"

definition connection_established :: "('d, 'e, 'q, 'f) audio_env \<Rightarrow> u64 \<Rightarrow> ('d, 'e, 'q, 'f) audio_task \<Rightarrow> ('d, 'e, 'q, 'f) audio_task" where
  "connection_established e uid t =
     (let t = connect_media e uid t;
          t = (if at_input t = None then start_or_report e t else t)
      in sync_transmission e t)"

definition connection_closed :: "('d, 'e, 'q, 'f) audio_env \<Rightarrow> ('d, 'e, 'q, 'f) audio_task \<Rightarrow> ('d, 'e, 'q, 'f) audio_task" where
  "connection_closed e t =
     (let t = stop_transmission (sync_transmission e (t\<lparr>at_connected := False, at_my_user_id := 0\<rparr>));
          t = t\<lparr>at_input_recovering := False, at_encoder := None, at_ptt_active := False, at_server_muted := False\<rparr>
      in (stopped_talking (ae_talking e) t)\<lparr>at_user_audio := [], at_room_members := {}\<rparr>)"

text \<open>A selection is confirmed once the device opens, or at once while disconnected.\<close>

definition open_selected_input ::
  "('d, 'e, 'q, 'f) audio_env \<Rightarrow> string option \<Rightarrow> ('d, 'e, 'q, 'f) audio_task \<Rightarrow> ('d, 'e, 'q, 'f) audio_task" where
  "open_selected_input e device t =
     (if at_connected t
      then (case start_transmission e t of
              (t', Inr _) \<Rightarrow> emit_voice (SelectedDeviceChanged DeviceInput device) t'
            | (t', Inl err) \<Rightarrow> emit_voice (DeviceUnavailable DeviceInput err) (t'\<lparr>at_capture_active := False\<rparr>))
      else emit_voice (SelectedDeviceChanged DeviceInput device) t)"

definition set_input_device ::
  "('d, 'e, 'q, 'f) audio_env \<Rightarrow> string option \<Rightarrow> ('d, 'e, 'q, 'f) audio_task \<Rightarrow> ('d, 'e, 'q, 'f) audio_task" where
  "set_input_device e device t =
     (if device = at_selected_input t \<and> at_input t \<noteq> None
      then sync_transmission e (emit_voice (SelectedDeviceChanged DeviceInput device) t)
      else sync_transmission e (open_selected_input e device
             (teardown_capture (t\<lparr>at_selected_input := device, at_input_recovering := False\<rparr>))))"

definition set_output_device ::
  "('d, 'e, 'q, 'f) audio_env \<Rightarrow> string option \<Rightarrow> ('d, 'e, 'q, 'f) audio_task \<Rightarrow> ('d, 'e, 'q, 'f) audio_task" where
  "set_output_device e device t =
     (let t = t\<lparr>at_selected_output := device, at_output_recovering := False, at_playback := None\<rparr>
      in if \<not> at_self_deafened t
         then let t = open_playback e t
              in if at_playback t \<noteq> None
                 then emit_voice (SelectedDeviceChanged DeviceOutput device) t
                 else emit_voice (DeviceUnavailable DeviceOutput
                        (''failed to open output device '' @
                         ae_debug e (case at_selected_output t of Some d \<Rightarrow> d | None \<Rightarrow> ''default''))) t
         else emit_voice (SelectedDeviceChanged DeviceOutput device) t)"

definition deafen_output :: "('d, 'e, 'q, 'f) audio_env \<Rightarrow> bool \<Rightarrow> ('d, 'e, 'q, 'f) audio_task \<Rightarrow> ('d, 'e, 'q, 'f) audio_task" where
  "deafen_output e deafened t =
     (if deafened
      then stopped_talking (ae_talking e)
             (t\<lparr>at_playback := None, at_output_recovering := False, at_sfx_queue := [], at_user_audio := []\<rparr>)
      else if at_connected t \<and> at_playback t = None then open_playback e t
      else t)"

definition set_deafened :: "('d, 'e, 'q, 'f) audio_env \<Rightarrow> bool \<Rightarrow> ('d, 'e, 'q, 'f) audio_task \<Rightarrow> ('d, 'e, 'q, 'f) audio_task" where
  "set_deafened e deafened t =
     (let t = t\<lparr>at_self_deafened := deafened, at_self_muted := (deafened \<or> at_self_muted t)\<rparr>;
          t = emit_voice (SelfMutedChanged (at_self_muted t)) (emit_voice (SelfDeafenedChanged deafened) t)
      in sync_transmission e (deafen_output e deafened t))"

definition reset_stats :: "('d, 'e, 'q, 'f) audio_task \<Rightarrow> ('d, 'e, 'q, 'f) audio_task" where
  "reset_stats t =
     t\<lparr>at_packets_sent := 0, at_bytes_sent := 0,
       at_user_audio := map (\<lambda>p. (fst p, (snd p)\<lparr>ua_packets_lost := 0, ua_packets_recovered_fec := 0,
                                                ua_frames_concealed := 0, ua_bytes_received := 0\<rparr>)) (at_user_audio t),
       at_underruns := 0, at_overflows := 0\<rparr>"

text \<open>Rebuilding a peer's pipeline keeps the old one when the configuration does not build.\<close>

definition rebuild_rx :: "('d, 'e, 'q, 'f) audio_env \<Rightarrow> pipeline_config \<Rightarrow> ('d, 'q, 'f) peer_audio \<Rightarrow> ('d, 'q, 'f) peer_audio" where
  "rebuild_rx e c s = (case from_config (ae_processors e) c of Inr p \<Rightarrow> s\<lparr>ua_rx_pipeline := Some p\<rparr> | Inl _ \<Rightarrow> s)"

definition update_rx_defaults ::
  "('d, 'e, 'q, 'f) audio_env \<Rightarrow> pipeline_config \<Rightarrow> ('d, 'e, 'q, 'f) audio_task \<Rightarrow> ('d, 'e, 'q, 'f) audio_task" where
  "update_rx_defaults e c t =
     (let t = emit_voice (RxPipelineDefaultsChanged c) (t\<lparr>at_rx_defaults := c\<rparr>)
      in t\<lparr>at_user_audio := map (\<lambda>p. (fst p, if at_per_user_rx t (fst p) = None then rebuild_rx e c (snd p) else snd p))
                              (at_user_audio t)\<rparr>)"

definition update_user_rx ::
  "('d, 'e, 'q, 'f) audio_env \<Rightarrow> u64 \<Rightarrow> 'f user_rx_config \<Rightarrow> ('d, 'e, 'q, 'f) audio_task \<Rightarrow> ('d, 'e, 'q, 'f) audio_task" where
  "update_user_rx e u c t =
     (let t = emit_voice (UserRxConfigChanged u c) (t\<lparr>at_per_user_rx := (at_per_user_rx t)(u \<mapsto> c)\<rparr>)
      in with_peer u (\<lambda>s. (rebuild_rx e (case rx_pipeline_override c of Some p \<Rightarrow> p | None \<Rightarrow> at_rx_defaults t) s)
                            \<lparr>ua_volume_db := rx_volume_db c\<rparr>) t)"

definition clear_user_rx :: "('d, 'e, 'q, 'f) audio_env \<Rightarrow> u64 \<Rightarrow> ('d, 'e, 'q, 'f) audio_task \<Rightarrow> ('d, 'e, 'q, 'f) audio_task" where
  "clear_user_rx e u t =
     (let t = emit_voice (UserRxOverrideCleared u) (t\<lparr>at_per_user_rx := (at_per_user_rx t)(u := None)\<rparr>)
      in with_peer u (\<lambda>s. (rebuild_rx e (at_rx_defaults t) s)\<lparr>ua_volume_db := fo_of_nat (ae_f32 e) 0\<rparr>) t)"

definition set_user_volume :: "('d, 'e, 'q, 'f) audio_env \<Rightarrow> u64 \<Rightarrow> 'f \<Rightarrow> ('d, 'e, 'q, 'f) audio_task \<Rightarrow> ('d, 'e, 'q, 'f) audio_task" where
  "set_user_volume e u volume t =
     (let rx = (case at_per_user_rx t u of
                  Some rx \<Rightarrow> rx\<lparr>rx_volume_db := volume\<rparr>
                | None \<Rightarrow> \<lparr>rx_pipeline_override = None, rx_volume_db = volume\<rparr>)
      in with_peer u (\<lambda>s. s\<lparr>ua_volume_db := volume\<rparr>)
           (emit_voice (UserRxConfigChanged u rx) (t\<lparr>at_per_user_rx := (at_per_user_rx t)(u \<mapsto> rx)\<rparr>)))"

definition user_joined_room :: "('d, 'e, 'q, 'f) audio_env \<Rightarrow> u64 \<Rightarrow> ('d, 'e, 'q, 'f) audio_task \<Rightarrow> ('d, 'e, 'q, 'f) audio_task" where
  "user_joined_room e u t =
     (if u = at_my_user_id t then t
      else let t = t\<lparr>at_room_members := insert u (at_room_members t)\<rparr>
           in if dm_get (at_user_audio t) u = None then create_peer e u t else t)"

definition user_left_room :: "('d, 'e, 'q, 'f) audio_env \<Rightarrow> u64 \<Rightarrow> ('d, 'e, 'q, 'f) audio_task \<Rightarrow> ('d, 'e, 'q, 'f) audio_task" where
  "user_left_room e u t =
     (let known = dm_get (at_user_audio t) u \<noteq> None;
          t = t\<lparr>at_room_members := at_room_members t - {u}, at_user_audio := dm_remove u (at_user_audio t)\<rparr>
      in if known \<and> u \<in> set (ae_talking e) then emit_voice (UserStoppedTalking u) t else t)"

definition room_changed_to :: "('d, 'e, 'q, 'f) audio_env \<Rightarrow> u64 list \<Rightarrow> ('d, 'e, 'q, 'f) audio_task \<Rightarrow> ('d, 'e, 'q, 'f) audio_task" where
  "room_changed_to e us t =
     (let others = filter (\<lambda>u. u \<noteq> at_my_user_id t) us;
          t = (stopped_talking (ae_talking e) (t\<lparr>at_user_audio := []\<rparr>))\<lparr>at_room_members := set others\<rparr>
      in fold (create_peer e) others t)"

definition play_sfx :: "'f list \<Rightarrow> ('d, 'e, 'q, 'f) audio_task \<Rightarrow> ('d, 'e, 'q, 'f) audio_task" where
  "play_sfx samples t =
     (if at_playback t = None then t
      else let queue = at_sfx_queue t @ samples
           in t\<lparr>at_sfx_queue := drop (length queue - MAX_SFX_QUEUE_SAMPLES) queue\<rparr>)"

fun handle_command :: "('d, 'e, 'q, 'f) audio_env \<Rightarrow> 'f audio_command \<Rightarrow> ('d, 'e, 'q, 'f) audio_task \<Rightarrow> ('d, 'e, 'q, 'f) audio_task" where
  "handle_command e (CmdConnectionEstablished uid) t = connection_established e uid t"
| "handle_command e CmdConnectionClosed t = connection_closed e t"
| "handle_command e (CmdSetInputDevice d) t = set_input_device e d t"
| "handle_command e (CmdSetOutputDevice d) t = set_output_device e d t"
| "handle_command e CmdStartTransmit t = sync_transmission e (t\<lparr>at_ptt_active := True\<rparr>)"
| "handle_command e CmdStopTransmit t = sync_transmission e (t\<lparr>at_ptt_active := False\<rparr>)"
| "handle_command e (CmdSetVoiceMode m) t =
     sync_transmission e (emit_voice (VoiceModeChanged m) (t\<lparr>at_voice_mode := m, at_vad_gate_bypass := (m = PushToTalk)\<rparr>))"
| "handle_command e (CmdSetMuted b) t = sync_transmission e (emit_voice (SelfMutedChanged b) (t\<lparr>at_self_muted := b\<rparr>))"
| "handle_command e (CmdSetDeafened b) t = set_deafened e b t"
| "handle_command e (CmdSetServerMuted b) t =
     (if at_server_muted t = b then t
      else sync_transmission e (emit_voice (ServerMutedChanged b) (t\<lparr>at_server_muted := b\<rparr>)))"
| "handle_command e (CmdMuteUser u) t = emit_voice (LocalMuteToggled u True) (t\<lparr>at_muted_users := insert u (at_muted_users t)\<rparr>)"
| "handle_command e (CmdUnmuteUser u) t = emit_voice (LocalMuteToggled u False) (t\<lparr>at_muted_users := at_muted_users t - {u}\<rparr>)"
| "handle_command e CmdRefreshDevices t = emit_voice (DevicesEnumerated (ae_input_devices e) (ae_output_devices e)) t"
| "handle_command e (CmdUpdateSettings s) t =
     (if s = at_settings t then t
      else rebuild_capture e (emit_voice (AudioSettingsChanged s) (t\<lparr>at_settings := s\<rparr>)))"
| "handle_command e CmdResetStats t = reset_stats t"
| "handle_command e (CmdUpdateTxPipeline c) t =
     (if c = at_tx_pipeline t then t
      else rebuild_capture e (emit_voice (TxPipelineChanged c) (t\<lparr>at_tx_pipeline := c\<rparr>)))"
| "handle_command e (CmdUpdateRxPipelineDefaults c) t = update_rx_defaults e c t"
| "handle_command e (CmdUpdateUserRxConfig u c) t = update_user_rx e u c t"
| "handle_command e (CmdClearUserRxOverride u) t = clear_user_rx e u t"
| "handle_command e (CmdSetUserVolume u v) t = set_user_volume e u v t"
| "handle_command e (CmdUserJoinedRoom u) t = user_joined_room e u t"
| "handle_command e (CmdUserLeftRoom u) t = user_left_room e u t"
| "handle_command e (CmdRoomChanged us) t = room_changed_to e us t"
| "handle_command e (CmdPeerLeft u) t =
     t\<lparr>at_room_members := at_room_members t - {u}, at_user_audio := dm_remove u (at_user_audio t)\<rparr>"
| "handle_command e (CmdPlaySfx samples) t = play_sfx samples t"
| "handle_command e CmdShutdown t = t\<lparr>at_stopped := True\<rparr>"

section \<open>Events\<close>

datatype 'f loop_event =
    AvCommand "'f audio_command"
  | AvCapture "'f list"
  | AvSend
  | AvDatagram datagram_result
  | AvProduce
  | AvDeviceBlock nat
  | AvCleanup
  | AvHealth

definition audio_event :: "('d, 'e, 'q, 'f) audio_env \<Rightarrow> 'f loop_event \<Rightarrow> ('d, 'e, 'q, 'f) audio_task \<Rightarrow> ('d, 'e, 'q, 'f) audio_task" where
  "audio_event e ev t =
     (if at_stopped t then t
      else case ev of
             AvCommand c \<Rightarrow> handle_command e c t
           | AvCapture samples \<Rightarrow> capture_callback e samples t
           | AvSend \<Rightarrow> send_capture_message t
           | AvDatagram r \<Rightarrow> if at_connected t then receive_datagram e r t else t
           | AvProduce \<Rightarrow> (case fill_playback_ring e t of Some t' \<Rightarrow> t' | None \<Rightarrow> t)
           | AvDeviceBlock n \<Rightarrow> fst (device_block e n t)
           | AvCleanup \<Rightarrow> gc_orphaned_users e (cleanup_stale_users e t)
           | AvHealth \<Rightarrow> recover_output e (recover_input e t))"

text \<open>The state when the loop starts: the output is opened for sound effects.\<close>

definition audio_start ::
  "('d, 'e, 'q, 'f) audio_env \<Rightarrow> (pipeline_config, 'f user_rx_config) audio_state \<Rightarrow> ('d, 'e, 'q, 'f) audio_task" where
  "audio_start e a =
     open_playback e
       \<lparr>at_stopped = False, at_connected = False, at_my_user_id = 0, at_voice_mode = PushToTalk,
        at_self_muted = False, at_self_deafened = False, at_ptt_active = False, at_server_muted = False,
        at_muted_users = {}, at_input = None, at_playback = None, at_underruns = 0, at_overflows = 0,
        at_producer_active = False, at_sfx_queue = [], at_user_audio = [], at_room_members = {},
        at_selected_input = None, at_selected_output = None, at_settings = au_settings a,
        at_tx_pipeline = au_tx_pipeline a, at_rx_defaults = au_rx_pipeline_defaults a,
        at_per_user_rx = au_per_user_rx a, at_encoded = [], at_send_sequence = 0, at_capture_frame_index = 0,
        at_capture_epoch = ae_now e, at_packets_sent = 0, at_bytes_sent = 0, at_encoder = None,
        at_capture_active = False, at_input_recovering = False, at_output_recovering = False,
        at_was_transmitting = False, at_vad_gate_bypass = True, at_events = [], at_sent = []\<rparr>"

end
