(* ===== verification/AudioSafety.thy ===== *)
theory AudioSafety
  imports AudioTask
begin

text \<open>
  What holds in every state of the audio task: the microphone is open only when the user
  speaks on purpose, the snapshot of the client shows what the task does, the buffers are
  bounded, and what is sent is numbered without holes.
\<close>

section \<open>The microphone\<close>

text \<open>
  The flag of the task, the flag of the stream and the transmit light agree; the pre-roll ring
  of a stream holds consecutive frames.
\<close>

definition stream_ok :: "('q, 'f) capture_stream \<Rightarrow> bool" where
  "stream_ok s \<longleftrightarrow> prr.good (cs_preroll s) \<and> length (pr_slots (cs_preroll s)) = PRE_ROLL_FRAMES \<and>
     pr_frame_us (cs_preroll s) = FRAME_US"

definition wired :: "('d, 'e, 'q, 'f) audio_task \<Rightarrow> bool" where
  "wired t \<longleftrightarrow>
     (at_capture_active t \<longrightarrow> at_input t \<noteq> None) \<and>
     (\<forall>s. at_input t = Some s \<longrightarrow> cs_active s = at_capture_active t \<and> stream_ok s) \<and>
     (at_was_transmitting t \<longrightarrow> at_capture_active t)"

definition mic_gated :: "('d, 'e, 'q, 'f) audio_task \<Rightarrow> bool" where
  "mic_gated t \<longleftrightarrow>
     (at_capture_active t \<longrightarrow>
        \<not> at_self_muted t \<and> \<not> at_server_muted t \<and> (at_voice_mode t = Continuous \<or> at_ptt_active t)) \<and>
     at_vad_gate_bypass t = (at_voice_mode t = PushToTalk)"

definition capture_ok :: "('d, 'e, 'q, 'f) audio_task \<Rightarrow> bool" where
  "capture_ok t \<longleftrightarrow> wired t \<and> mic_gated t"

named_theorems capture_intros \<open>operations of the audio task that keep the microphone mic_gated\<close>

lemma stream_ok_new: "stream_ok \<lparr>cs_active = a, cs_frames_to_discard = n, cs_pipeline = p,
    cs_preroll = pre_roll_new PRE_ROLL_FRAMES FRAME_US\<rparr>"
  using pre_roll_new_good [of PRE_ROLL_FRAMES FRAME_US] by (simp add: stream_ok_def PRE_ROLL_FRAMES_def pre_roll_new_def)

lemma stream_ok_cong [simp]:
  "stream_ok (s\<lparr>cs_active := a\<rparr>) = stream_ok s"
  "stream_ok (s\<lparr>cs_pipeline := p\<rparr>) = stream_ok s"
  "stream_ok (s\<lparr>cs_pipeline := p, cs_active := a\<rparr>) = stream_ok s"
  "stream_ok (s\<lparr>cs_frames_to_discard := n\<rparr>) = stream_ok s"
  by (simp_all add: stream_ok_def)

lemma wired_deactivate:
  assumes "wired t"
  shows "wired (deactivate_capture t) \<and> \<not> at_capture_active (deactivate_capture t)"
  using assms
  by (auto simp: wired_def deactivate_capture_def set_active_def emit_voice_def split: option.splits)

lemma wired_activate:
  "wired t \<Longrightarrow> wired (activate_capture e t)"
  by (auto simp: wired_def activate_capture_def Let_def split: option.splits)

lemma sync_frame [frame_simps]:
  "at_self_muted (sync_transmission e t) = at_self_muted t"
  "at_server_muted (sync_transmission e t) = at_server_muted t"
  "at_voice_mode (sync_transmission e t) = at_voice_mode t"
  "at_ptt_active (sync_transmission e t) = at_ptt_active t"
  "at_vad_gate_bypass (sync_transmission e t) = at_vad_gate_bypass t"
  by (simp_all add: sync_transmission_def activate_capture_def deactivate_capture_def set_active_def emit_voice_def Let_def
      split: capture_transition.split option.split)

lemma sync_active:
  assumes "wired t" and "at_capture_active (sync_transmission e t)"
  shows "should_capture (at_voice_mode t) (at_self_muted t) (at_server_muted t) (at_ptt_active t) (at_connected t)"
proof (rule ccontr)
  assume "\<not> ?thesis"
  then have "sync_transmission e t = (if at_capture_active t then deactivate_capture t else t)"
    by (simp add: sync_transmission_def capture_transition_of_def)
  with assms wired_deactivate [OF assms(1)] show False by (auto split: if_splits)
qed

lemma should_capture_iff:
  "should_capture m a b p c \<longleftrightarrow> c \<and> \<not> a \<and> \<not> b \<and> (m = Continuous \<or> p)"
  by (cases m) (auto simp: should_capture_def)

lemma capture_ok_sync [capture_intros]:
  assumes "wired t" and "at_vad_gate_bypass t = (at_voice_mode t = PushToTalk)"
  shows "capture_ok (sync_transmission e t)"
proof -
  have "wired (sync_transmission e t)"
    using assms(1) wired_deactivate [OF assms(1)] wired_activate [OF assms(1)]
    by (simp add: sync_transmission_def split: capture_transition.split)
  moreover have "mic_gated (sync_transmission e t)"
    using sync_active [OF assms(1), of e] assms(2)
    by (auto simp: mic_gated_def frame_simps should_capture_iff)
  ultimately show ?thesis by (simp add: capture_ok_def)
qed

lemma wired_teardown:
  assumes "wired t"
  shows "wired (teardown_capture t) \<and> at_input (teardown_capture t) = None \<and> \<not> at_capture_active (teardown_capture t)"
  using assms wired_deactivate [OF assms]
  by (auto simp: teardown_capture_def stop_transmission_def wired_def split: option.splits)

lemma wired_start:
  assumes "wired t" shows "wired (fst (start_transmission e t))"
  using assms stream_ok_new by (auto simp: start_transmission_def Let_def wired_def split: option.splits sum.splits)

lemma wired_start_failed:
  assumes "wired t" and "snd (start_transmission e t) = Inl err"
  shows "\<not> at_capture_active (fst (start_transmission e t))"
  using assms by (auto simp: start_transmission_def Let_def wired_def split: option.splits sum.splits if_splits)

lemma start_frame [frame_simps]:
  "at_self_muted (fst (start_transmission e t)) = at_self_muted t"
  "at_server_muted (fst (start_transmission e t)) = at_server_muted t"
  "at_voice_mode (fst (start_transmission e t)) = at_voice_mode t"
  "at_ptt_active (fst (start_transmission e t)) = at_ptt_active t"
  "at_vad_gate_bypass (fst (start_transmission e t)) = at_vad_gate_bypass t"
  "at_connected (fst (start_transmission e t)) = at_connected t"
  by (simp_all add: start_transmission_def Let_def split: option.split sum.split)

lemma teardown_frame [frame_simps]:
  "at_self_muted (teardown_capture t) = at_self_muted t"
  "at_server_muted (teardown_capture t) = at_server_muted t"
  "at_voice_mode (teardown_capture t) = at_voice_mode t"
  "at_ptt_active (teardown_capture t) = at_ptt_active t"
  "at_vad_gate_bypass (teardown_capture t) = at_vad_gate_bypass t"
  by (simp_all add: teardown_capture_def stop_transmission_def deactivate_capture_def set_active_def emit_voice_def)

lemma emit_frame [frame_simps]:
  "wired (emit_voice ev t) = wired t" "mic_gated (emit_voice ev t) = mic_gated t"
  "at_vad_gate_bypass (emit_voice ev t) = at_vad_gate_bypass t" "at_voice_mode (emit_voice ev t) = at_voice_mode t"
  "at_connected (emit_voice ev t) = at_connected t" "at_capture_active (emit_voice ev t) = at_capture_active t"
  "at_self_muted (emit_voice ev t) = at_self_muted t" "at_server_muted (emit_voice ev t) = at_server_muted t"
  "at_ptt_active (emit_voice ev t) = at_ptt_active t" "at_input (emit_voice ev t) = at_input t"
  "at_was_transmitting (emit_voice ev t) = at_was_transmitting t" "capture_ok (emit_voice ev t) = capture_ok t"
  by (simp_all add: emit_voice_def wired_def mic_gated_def capture_ok_def)

lemma inactive_id: "\<not> at_capture_active t \<Longrightarrow> t\<lparr>at_capture_active := False\<rparr> = t"
  by (cases t) simp

lemma start_or_report_frame [frame_simps]:
  "at_voice_mode (start_or_report e t) = at_voice_mode t"
  "at_vad_gate_bypass (start_or_report e t) = at_vad_gate_bypass t"
  using start_frame(3,5) [of e t] by (auto simp: start_or_report_def emit_voice_def split: prod.splits sum.splits)

lemma wired_start_or_report:
  assumes "wired t" shows "wired (start_or_report e t)"
  using wired_start [OF assms, of e] wired_start_failed [OF assms, of e]
  by (auto simp: start_or_report_def frame_simps inactive_id split: prod.splits sum.splits)

lemma wired_fields:
  "at_input t' = at_input t \<Longrightarrow> at_capture_active t' = at_capture_active t \<Longrightarrow>
   at_was_transmitting t' = at_was_transmitting t \<Longrightarrow> wired t' = wired t"
  by (simp add: wired_def)

lemma capture_ok_fields:
  "at_input t' = at_input t \<Longrightarrow> at_capture_active t' = at_capture_active t \<Longrightarrow>
   at_was_transmitting t' = at_was_transmitting t \<Longrightarrow> at_self_muted t' = at_self_muted t \<Longrightarrow>
   at_server_muted t' = at_server_muted t \<Longrightarrow> at_voice_mode t' = at_voice_mode t \<Longrightarrow>
   at_ptt_active t' = at_ptt_active t \<Longrightarrow> at_vad_gate_bypass t' = at_vad_gate_bypass t \<Longrightarrow>
   capture_ok t' = capture_ok t"
  by (simp add: capture_ok_def wired_def mic_gated_def)

lemma capture_ok_rebuild [capture_intros]:
  assumes "wired t" and "at_vad_gate_bypass t = (at_voice_mode t = PushToTalk)"
  shows "capture_ok (rebuild_capture e t)"
  unfolding rebuild_capture_def Let_def
  using wired_teardown [OF assms(1)] assms(2)
  by (intro capture_ok_sync) (auto simp: frame_simps intro: wired_start_or_report)

lemma connect_media_frame [frame_simps]:
  "at_input (connect_media e uid t) = at_input t" "at_capture_active (connect_media e uid t) = at_capture_active t"
  "at_was_transmitting (connect_media e uid t) = at_was_transmitting t"
  "at_voice_mode (connect_media e uid t) = at_voice_mode t"
  "at_vad_gate_bypass (connect_media e uid t) = at_vad_gate_bypass t"
  by (simp_all add: connect_media_def open_playback_def Let_def)

lemma capture_ok_connection_established [capture_intros]:
  assumes "capture_ok t" shows "capture_ok (connection_established e uid t)"
proof -
  let ?c = "connect_media e uid t"
  have "wired ?c" using assms wired_fields [of ?c t] by (simp add: frame_simps capture_ok_def)
  then show ?thesis
    using assms unfolding connection_established_def Let_def
    by (intro capture_ok_sync) (auto simp: frame_simps capture_ok_def mic_gated_def intro: wired_start_or_report)
qed

lemma stopped_talking_frame [frame_simps]:
  "at_input (stopped_talking us t) = at_input t" "at_capture_active (stopped_talking us t) = at_capture_active t"
  "at_was_transmitting (stopped_talking us t) = at_was_transmitting t" "at_self_muted (stopped_talking us t) = at_self_muted t"
  "at_server_muted (stopped_talking us t) = at_server_muted t" "at_voice_mode (stopped_talking us t) = at_voice_mode t"
  "at_ptt_active (stopped_talking us t) = at_ptt_active t" "at_vad_gate_bypass (stopped_talking us t) = at_vad_gate_bypass t"
  by (induction us arbitrary: t) (simp_all add: stopped_talking_def emit_voice_def)

lemma capture_ok_connection_closed [capture_intros]:
  assumes "capture_ok t" shows "capture_ok (connection_closed e t)"
proof -
  let ?t = "sync_transmission e (t\<lparr>at_connected := False, at_my_user_id := 0\<rparr>)"
  have w: "wired (t\<lparr>at_connected := False, at_my_user_id := 0\<rparr>)" "at_vad_gate_bypass t = (at_voice_mode t = PushToTalk)"
    using assms by (simp_all add: capture_ok_def mic_gated_def wired_def)
  then have "capture_ok ?t" by (intro capture_ok_sync) simp_all
  moreover have "\<not> at_capture_active ?t"
    using sync_active [OF w(1), of e] by (auto simp: should_capture_iff)
  ultimately have "capture_ok ((stop_transmission ?t)\<lparr>at_input_recovering := False, at_encoder := None,
      at_ptt_active := False, at_server_muted := False\<rparr>)"
    by (auto simp: capture_ok_def wired_def mic_gated_def stop_transmission_def split: option.splits)
  then show ?thesis
    unfolding connection_closed_def Let_def by (subst capture_ok_fields) (simp_all add: frame_simps)
qed

lemma open_selected_input_frame [frame_simps]:
  "at_voice_mode (open_selected_input e d t) = at_voice_mode t"
  "at_vad_gate_bypass (open_selected_input e d t) = at_vad_gate_bypass t"
  using start_frame(3,5) [of e t]
  by (auto simp: open_selected_input_def emit_voice_def split: prod.splits sum.splits)

lemma wired_open_selected_input:
  assumes "wired t" shows "wired (open_selected_input e d t)"
  using assms wired_start [OF assms, of e] wired_start_failed [OF assms, of e]
  by (auto simp: open_selected_input_def frame_simps inactive_id split: prod.splits sum.splits)

lemma wired_ignores [simp]:
  "wired (t\<lparr>at_selected_input := d\<rparr>) = wired t"
  "wired (t\<lparr>at_selected_input := d, at_input_recovering := b\<rparr>) = wired t"
  "wired (t\<lparr>at_connected := b, at_my_user_id := u\<rparr>) = wired t"
  "wired (t\<lparr>at_input_recovering := b\<rparr>) = wired t"
  "wired (t\<lparr>at_ptt_active := b\<rparr>) = wired t"
  "wired (t\<lparr>at_self_muted := b\<rparr>) = wired t"
  "wired (t\<lparr>at_server_muted := b\<rparr>) = wired t"
  "wired (t\<lparr>at_settings := s\<rparr>) = wired t"
  "wired (t\<lparr>at_tx_pipeline := c\<rparr>) = wired t"
  "wired (t\<lparr>at_voice_mode := m, at_vad_gate_bypass := b\<rparr>) = wired t"
  by (simp_all add: wired_def)

lemma capture_ok_set_input_device [capture_intros]:
  assumes "capture_ok t" shows "capture_ok (set_input_device e d t)"
proof -
  let ?t = "teardown_capture (t\<lparr>at_selected_input := d, at_input_recovering := False\<rparr>)"
  have w: "wired t" and g: "at_vad_gate_bypass t = (at_voice_mode t = PushToTalk)"
    using assms by (simp_all add: capture_ok_def mic_gated_def)
  have "wired (open_selected_input e d ?t)"
    using wired_teardown [of "t\<lparr>at_selected_input := d, at_input_recovering := False\<rparr>"] w
    by (intro wired_open_selected_input) simp
  then have "capture_ok (sync_transmission e (open_selected_input e d ?t))"
    using g by (intro capture_ok_sync) (simp_all add: frame_simps)
  moreover have "capture_ok (sync_transmission e (emit_voice ev t))" for ev
    using w g by (intro capture_ok_sync) (simp_all add: frame_simps)
  ultimately show ?thesis by (simp add: set_input_device_def)
qed

lemma deafen_output_frame [frame_simps]:
  "at_voice_mode (deafen_output e b t) = at_voice_mode t" "at_vad_gate_bypass (deafen_output e b t) = at_vad_gate_bypass t"
  "at_input (deafen_output e b t) = at_input t" "at_capture_active (deafen_output e b t) = at_capture_active t"
  "at_was_transmitting (deafen_output e b t) = at_was_transmitting t"
  by (simp_all add: deafen_output_def open_playback_def frame_simps)

lemma capture_ok_set_deafened [capture_intros]:
  assumes "capture_ok t" shows "capture_ok (set_deafened e b t)"
  unfolding set_deafened_def Let_def
proof (rule capture_ok_sync)
  let ?u = "\<lambda>m. emit_voice (SelfMutedChanged m) (emit_voice (SelfDeafenedChanged b)
    (t\<lparr>at_self_deafened := b, at_self_muted := (b \<or> at_self_muted t)\<rparr>))"
  show "wired (deafen_output e b (?u m))" for m
    using assms wired_fields [of "deafen_output e b (?u m)" t]
    by (simp add: frame_simps emit_voice_def capture_ok_def)
  show "at_vad_gate_bypass (deafen_output e b (?u m)) = (at_voice_mode (deafen_output e b (?u m)) = PushToTalk)" for m
    using assms by (simp add: frame_simps emit_voice_def capture_ok_def mic_gated_def)
qed

lemma capture_ok_callback [capture_intros]:
  assumes "capture_ok t" shows "capture_ok (capture_callback e samples t)"
proof (cases "at_input t")
  case (Some s)
  have ok: "stream_ok s" "cs_active s = at_capture_active t"
    using assms Some by (simp_all add: capture_ok_def wired_def)
  have ring: "stream_ok (s'\<lparr>cs_preroll := pre_roll_push ts x (cs_preroll s')\<rparr>)"
    "stream_ok (s'\<lparr>cs_preroll := snd (pre_roll_flush ts (cs_preroll s'))\<rparr>)"
    if "stream_ok s'" for s' :: "('c, 'd) capture_stream" and ts x
    using that by (auto simp: stream_ok_def prr.push_const prr.flush_const intro: prr.good_push prr.good_flush)
  have gate: "capture_ok (gate_frame e b ts x s' u)"
    if "stream_ok s'" "cs_active s'" "at_capture_active u" "mic_gated u" for b ts x s' u
  proof -
    obtain fs r where fl: "pre_roll_flush ts (cs_preroll s') = (fs, r)" by fastforce
    with ring(2) [OF that(1), of ts] have "stream_ok (s'\<lparr>cs_preroll := r\<rparr>)" by simp
    then show ?thesis
      using that ring(1) [OF that(1), of ts x] fl
      by (auto simp: gate_frame_def Let_def capture_ok_def wired_def mic_gated_def emit_voice_def split: option.split prod.split)
  qed
  show ?thesis
  proof (cases "cs_active s")
    case True
    let ?u = "t\<lparr>at_capture_frame_index := at_capture_frame_index t + 1\<rparr>"
    have "at_capture_active ?u" "mic_gated ?u" using assms ok True by (simp_all add: capture_ok_def mic_gated_def)
    then have "capture_ok (gate_frame e b ts x (s\<lparr>cs_pipeline := p\<rparr>) ?u)" for b ts x p
      by (intro gate) (use ok True in simp_all)
    moreover have "capture_ok (?u\<lparr>at_input := Some (s\<lparr>cs_frames_to_discard := n\<rparr>)\<rparr>)" for n
      using assms ok Some by (simp add: capture_ok_def wired_def mic_gated_def)
    ultimately show ?thesis
      using Some True by (simp add: capture_callback_def Let_def split_beta)
  qed (simp add: capture_callback_def Some assms)
qed (simp add: capture_callback_def assms)

lemma capture_ok_recover_input [capture_intros]:
  assumes "capture_ok t" shows "capture_ok (recover_input e t)"
proof -
  let ?t = "(teardown_capture t)\<lparr>at_input_recovering := True\<rparr>"
  have w: "wired t" and g: "at_vad_gate_bypass t = (at_voice_mode t = PushToTalk)"
    using assms by (simp_all add: capture_ok_def mic_gated_def)
  note tear = wired_teardown [OF w]
  have wt: "wired ?t" using tear by simp
  obtain t' r where st: "start_transmission e ?t = (t', r)" by fastforce
  have t': "wired t'" "at_voice_mode t' = at_voice_mode t" "at_vad_gate_bypass t' = at_vad_gate_bypass t"
    "at_self_muted t' = at_self_muted t" "at_server_muted t' = at_server_muted t" "at_ptt_active t' = at_ptt_active t"
    using wired_start [OF wt, of e] start_frame [of e ?t] by (simp_all add: st teardown_frame)
  have good: "capture_ok (sync_transmission e (emit_voice ev (t'\<lparr>at_input_recovering := False\<rparr>)))" for ev
    using t' g by (intro capture_ok_sync) (simp_all add: frame_simps)
  have bad: "capture_ok (emit_voice ev t')" if "r = Inl err" for ev err
    using t' wired_start_failed [OF wt, of e err] g that by (simp add: capture_ok_def mic_gated_def frame_simps st)
  have off: "capture_ok (emit_voice ev (?t\<lparr>at_input_recovering := False\<rparr>))" for ev
    using tear g by (simp add: capture_ok_def mic_gated_def frame_simps)
  show ?thesis
    using assms good bad off unfolding recover_input_def Let_def st by (cases r) simp_all
qed

text \<open>Operations on the receiving side leave the microphone alone.\<close>

definition same_capture :: "('d, 'e, 'q, 'f) audio_task \<Rightarrow> ('d, 'e, 'q, 'f) audio_task \<Rightarrow> bool" where
  "same_capture t t' \<longleftrightarrow>
     at_input t' = at_input t \<and> at_capture_active t' = at_capture_active t \<and>
     at_was_transmitting t' = at_was_transmitting t \<and> at_self_muted t' = at_self_muted t \<and>
     at_server_muted t' = at_server_muted t \<and> at_voice_mode t' = at_voice_mode t \<and>
     at_ptt_active t' = at_ptt_active t \<and> at_vad_gate_bypass t' = at_vad_gate_bypass t"

lemma same_capture_ok: "same_capture t t' \<Longrightarrow> capture_ok t \<Longrightarrow> capture_ok t'"
  using capture_ok_fields [of t' t] by (simp add: same_capture_def)

lemma same_capture_simps [simp]:
  "same_capture t t"
  "same_capture t (emit_voice ev t') = same_capture t t'"
  "same_capture t (with_peer u f t') = same_capture t t'"
  "same_capture t (create_peer e u t') = same_capture t t'"
  "same_capture t (stopped_talking us t') = same_capture t t'"
  "same_capture t (push_mixed fr t') = same_capture t t'"
  "same_capture t (fst (mix_one_frame e t')) = same_capture t t'"
  "same_capture t (t'\<lparr>at_user_audio := peers\<rparr>) = same_capture t t'"
  "same_capture t (t'\<lparr>at_room_members := ms\<rparr>) = same_capture t t'"
  by (simp_all add: same_capture_def frame_simps with_peer_def create_peer_def push_mixed_def mix_one_frame_def Let_def
      split: prod.split option.split)

lemma same_capture_create_peers [simp]: "same_capture t (fold (create_peer e) us t') = same_capture t t'"
  by (induction us arbitrary: t') simp_all

lemma same_capture_receive: "same_capture t (receive_datagram e r t)"
  by (cases r) (auto simp: handle_voice_datagram_def Let_def same_capture_def [of t "at_connected_update _ _"] split: option.split)

lemma same_capture_fill_loop: "fill_loop n e t' = Some t'' \<Longrightarrow> same_capture t t' \<Longrightarrow> same_capture t t''"
proof (induction n arbitrary: t')
  case (Suc n)
  obtain u fr where m: "mix_one_frame e t' = (u, fr)" by fastforce
  then have "same_capture t u" using same_capture_simps(7) [of t e t'] Suc.prems(2) by simp
  then show ?case
    using Suc m by (cases fr) (auto split: if_splits)
qed (simp split: if_splits)

lemma same_capture_rx:
  "same_capture t (update_rx_defaults e c t)" "same_capture t (update_user_rx e u rx t)"
  "same_capture t (clear_user_rx e u t)" "same_capture t (set_user_volume e u v t)"
  "same_capture t (user_joined_room e u t)" "same_capture t (user_left_room e u t)"
  "same_capture t (room_changed_to e us t)" "same_capture t (play_sfx samples t)"
  "same_capture t (reset_stats t)" "same_capture t (set_output_device e d t)"
  by (simp_all add: update_rx_defaults_def update_user_rx_def clear_user_rx_def set_user_volume_def user_joined_room_def
      user_left_room_def room_changed_to_def play_sfx_def reset_stats_def set_output_device_def open_playback_def Let_def
      same_capture_def [of t "at_per_user_rx_update _ _"] same_capture_def [of t "at_rx_defaults_update _ _"]
      same_capture_def [of t "at_sfx_queue_update _ _"] same_capture_def [of t "at_packets_sent_update _ _"]
      same_capture_def [of t "at_playback_update _ _"] same_capture_def [of t "at_overflows_update _ _"])

lemma capture_ok_command [capture_intros]:
  assumes ok: "capture_ok t" shows "capture_ok (handle_command e c t)"
proof -
  have w: "wired t" and g: "at_vad_gate_bypass t = (at_voice_mode t = PushToTalk)"
    using ok by (simp_all add: capture_ok_def mic_gated_def)
  have same: "capture_ok t'" if "same_capture t t'" for t' using that ok by (rule same_capture_ok)
  show ?thesis
  proof (cases c)
    case (CmdMuteUser u)
    then show ?thesis by (intro same) (simp add: same_capture_def frame_simps)
  next
    case (CmdUnmuteUser u)
    then show ?thesis by (intro same) (simp add: same_capture_def frame_simps)
  next
    case (CmdPeerLeft u)
    then show ?thesis by (intro same) (simp add: same_capture_def frame_simps)
  next
    case CmdShutdown
    then show ?thesis by (intro same) (simp add: same_capture_def frame_simps)
  qed (use w g ok in \<open>auto intro!: capture_ok_sync capture_ok_rebuild capture_ok_connection_established
      capture_ok_connection_closed capture_ok_set_input_device capture_ok_set_deafened
      intro: same same_capture_rx simp: frame_simps\<close>)
qed

lemma capture_ok_event [capture_intros]:
  assumes ok: "capture_ok t" shows "capture_ok (audio_event e ev t)"
proof -
  have same: "capture_ok t'" if "same_capture t t'" for t' using that ok by (rule same_capture_ok)
  have send: "same_capture t (send_capture_message t)"
    by (auto simp: send_capture_message_def same_capture_def Let_def split: list.split capture_message.split)
  have fill: "same_capture t t'" if "fill_playback_ring e t = Some t'" for t'
    using same_capture_fill_loop [of 2 e _ t' t] that by (simp add: fill_playback_ring_def same_capture_def)
  have block: "same_capture t (fst (device_block e n t))" for n
    by (simp add: device_block_def same_capture_def split: option.split prod.split)
  have clean: "same_capture t (gc_orphaned_users e (cleanup_stale_users e t))"
    by (simp add: gc_orphaned_users_def cleanup_stale_users_def)
  have out: "same_capture t' (recover_output e t')" for t'
    by (simp add: recover_output_def open_playback_def Let_def same_capture_def emit_voice_def)
  show ?thesis
    using same [OF send] same [OF fill] same [OF block] same [OF clean] same [OF same_capture_receive]
      same_capture_ok [OF out capture_ok_recover_input [OF ok, of e]] ok
    by (cases ev) (auto simp: audio_event_def intro: capture_intros split: option.split)
qed

text \<open>Runs of the task: each event comes with the environment it meets.\<close>

definition audio_run ::
  "(('d, 'e, 'q, 'f) audio_env \<times> 'f loop_event) list \<Rightarrow> ('d, 'e, 'q, 'f) audio_task \<Rightarrow> ('d, 'e, 'q, 'f) audio_task" where
  "audio_run = fold (\<lambda>(e, ev). audio_event e ev)"

lemma capture_ok_run: "capture_ok t \<Longrightarrow> capture_ok (audio_run evs t)"
  unfolding audio_run_def by (induction evs arbitrary: t) (auto intro: capture_intros)

lemma capture_ok_start: "capture_ok (audio_start e a)"
  by (simp add: audio_start_def open_playback_def capture_ok_def wired_def mic_gated_def)

text \<open>C12: A microphone that should be closed is closed. In every state the audio task reaches from its
  start, through any sequence of commands, captured frames, datagrams, ticks and device
  failures: while the user has muted himself, or the server has muted him, or the mode is push
  to talk and the key is not held, a captured frame changes nothing: nothing is encoded,
  buffered for pre-roll or sent, and the transmit light is off. The task's capture flag is set
  only while there is a stream, and agrees with the stream's own flag.\<close>

theorem muted_microphone_is_closed:
  assumes "t = audio_run evs (audio_start e a)"
  shows "(at_self_muted t \<or> at_server_muted t \<or> (at_voice_mode t = PushToTalk \<and> \<not> at_ptt_active t) \<longrightarrow>
      audio_event e' (AvCapture samples) t = t \<and> \<not> at_was_transmitting t) \<and>
    at_capture_active t = (\<exists>s. at_input t = Some s \<and> cs_active s)"
proof -
  have ok: "capture_ok t" unfolding assms by (intro capture_ok_run capture_ok_start)
  then have active: "at_capture_active t = (\<exists>s. at_input t = Some s \<and> cs_active s)"
    by (auto simp: capture_ok_def wired_def)
  have "\<not> at_capture_active t" if "at_self_muted t \<or> at_server_muted t \<or> (at_voice_mode t = PushToTalk \<and> \<not> at_ptt_active t)"
    using ok that by (auto simp: capture_ok_def mic_gated_def)
  with active ok show ?thesis
    by (auto simp: audio_event_def capture_callback_def capture_ok_def wired_def split: option.split)
qed

section \<open>Bounded buffers\<close>

lemma length_add_samples [simp]: "length (add_samples F mixed pcm) = length mixed"
  by (simp add: add_samples_def)

lemma length_mix_peer: "length (fst (snd (mix_peer e s (mixed, b)))) = length mixed"
  by (auto simp: mix_peer_def split: prod.split option.split)

lemma length_mix_peers: "length (fst (snd (mix_peers e ps (mixed, b)))) = length mixed"
proof (induction ps arbitrary: mixed b)
  case (Cons p ps)
  obtain u s where p: "p = (u, s)" by (cases p)
  obtain s' mixed' b' where m: "mix_peer e s (mixed, b) = (s', mixed', b')" by (metis surj_pair)
  then have "length mixed' = length mixed" using length_mix_peer [of e s mixed b] by simp
  then show ?case using Cons.IH [of mixed' b'] by (simp add: p m split_beta)
qed simp

lemma length_mix_sfx: "length (fst (mix_sfx F mixed queue)) = length mixed"
  by (induction F mixed queue rule: mix_sfx.induct) (auto split: prod.split)

lemma length_mix_peer_frames: "mix_peer_frames e ps = (ps', Some m) \<Longrightarrow> length m = OPUS_FRAME_SIZE"
  using length_mix_peers [of e ps "replicate OPUS_FRAME_SIZE (fo_of_nat (ae_f32 e) 0)" False]
  by (auto simp: mix_peer_frames_def split: prod.splits if_splits)

lemma length_mix_one_frame:
  assumes "mix_one_frame e t = (t', Some frame)" shows "length frame = OPUS_FRAME_SIZE"
proof -
  obtain ps pm where m: "mix_peer_frames e (at_user_audio t) = (ps, pm)" by fastforce
  let ?mixed = "case pm of Some m \<Rightarrow> m | None \<Rightarrow> replicate OPUS_FRAME_SIZE (fo_of_nat (ae_f32 e) 0)"
  have len: "length ?mixed = OPUS_FRAME_SIZE"
    using m length_mix_peer_frames by (auto split: option.split)
  show ?thesis
    using assms len length_mix_sfx [of "ae_f32 e" ?mixed "at_sfx_queue t"]
    by (auto simp: mix_one_frame_def m Let_def split: prod.splits if_splits)
qed

text \<open>
  Every peer's buffer is well formed, the ring never exceeds its target by a whole frame, so
  pushing a frame never cuts it short, and the queue of sound effects is bounded.
\<close>

definition buffers_ok :: "('d, 'e, 'q, 'f) audio_task \<Rightarrow> bool" where
  "buffers_ok t \<longleftrightarrow>
     (\<forall>p \<in> set (at_user_audio t). jitter_ok (snd p)) \<and>
     (\<forall>pb. at_playback t = Some pb \<longrightarrow> length (pb_ring pb) < PLAYBACK_TARGET_SAMPLES + OPUS_FRAME_SIZE) \<and>
     length (at_sfx_queue t) \<le> MAX_SFX_QUEUE_SAMPLES \<and> at_overflows t = 0"

lemma jitter_ok_ignores [simp]:
  "jitter_ok (s\<lparr>ua_rx_pipeline := p\<rparr>) = jitter_ok s" "jitter_ok (s\<lparr>ua_volume_db := v\<rparr>) = jitter_ok s"
  "jitter_ok (s\<lparr>ua_packets_lost := n\<rparr>) = jitter_ok s" "jitter_ok (s\<lparr>ua_packets_recovered_fec := n\<rparr>) = jitter_ok s"
  "jitter_ok (s\<lparr>ua_frames_concealed := n\<rparr>) = jitter_ok s" "jitter_ok (s\<lparr>ua_bytes_received := n\<rparr>) = jitter_ok s"
  by (simp_all add: jitter_ok_def)

lemma jitter_ok_mix_peer: "jitter_ok s \<Longrightarrow> jitter_ok (fst (mix_peer e s acc))"
  using jitter_ok_decode_next_into [of s "ae_decoder e" "ae_now e"]
  by (auto simp: mix_peer_def split: prod.split option.split)

lemma jitter_ok_mix_peers:
  "\<forall>p \<in> set ps. jitter_ok (snd p) \<Longrightarrow> \<forall>p \<in> set (fst (mix_peers e ps acc)). jitter_ok (snd p)"
proof (induction ps arbitrary: acc)
  case (Cons p ps)
  obtain u s where p: "p = (u, s)" by (cases p)
  then have "jitter_ok (fst (mix_peer e s acc))" using Cons.prems by (simp add: jitter_ok_mix_peer)
  then show ?case using Cons.IH Cons.prems by (simp add: p split_beta)
qed simp

lemma length_sfx_le: "length (snd (mix_sfx F mixed queue)) \<le> length queue"
  by (induction F mixed queue rule: mix_sfx.induct) (auto simp: le_SucI split: prod.split)

lemma buffers_ok_mix:
  assumes "buffers_ok t" shows "buffers_ok (fst (mix_one_frame e t))"
    and "at_playback (fst (mix_one_frame e t)) = at_playback t"
proof -
  let ?z = "(replicate OPUS_FRAME_SIZE (fo_of_nat (ae_f32 e) 0), False)"
  have "fst (mix_peer_frames e (at_user_audio t)) = fst (mix_peers e (at_user_audio t) ?z)"
    by (simp add: mix_peer_frames_def split: prod.split)
  then have "\<forall>p \<in> set (fst (mix_peer_frames e (at_user_audio t))). jitter_ok (snd p)"
    using assms jitter_ok_mix_peers [of "at_user_audio t" e ?z] by (simp add: buffers_ok_def)
  moreover have "length (snd (mix_sfx F m (at_sfx_queue t))) \<le> MAX_SFX_QUEUE_SAMPLES" for F and m :: "'d list"
    using assms length_sfx_le le_trans unfolding buffers_ok_def by blast
  ultimately show "buffers_ok (fst (mix_one_frame e t))" "at_playback (fst (mix_one_frame e t)) = at_playback t"
    using assms by (simp_all add: buffers_ok_def mix_one_frame_def Let_def split_beta)
qed

definition ring_level :: "('d, 'e, 'q, 'f) audio_task \<Rightarrow> nat" where
  "ring_level t = (case at_playback t of None \<Rightarrow> PLAYBACK_TARGET_SAMPLES | Some pb \<Rightarrow> length (pb_ring pb))"

lemma push_mixed_level:
  assumes "buffers_ok t" and "\<not> ring_full t" and "length frame = OPUS_FRAME_SIZE"
  shows "buffers_ok (push_mixed frame t) \<and> ring_level (push_mixed frame t) = ring_level t + OPUS_FRAME_SIZE"
proof -
  obtain pb where pb: "at_playback t = Some pb" "length (pb_ring pb) < PLAYBACK_TARGET_SAMPLES"
    using assms(2) by (auto simp: ring_full_def split: option.splits)
  then have "min (length frame) (MAX_PLAYBACK_BUFFER_SAMPLES - length (pb_ring pb)) = length frame"
    using assms(3) by (simp add: MAX_PLAYBACK_BUFFER_SAMPLES_def PLAYBACK_TARGET_SAMPLES_def PLAYBACK_PRIME_SAMPLES_def OPUS_FRAME_SIZE_def)
  then show ?thesis
    using assms(1,3) pb by (simp add: push_mixed_def push_frame_def Let_def buffers_ok_def ring_level_def)
qed

lemma fill_loop_total:
  assumes "buffers_ok t" and "PLAYBACK_TARGET_SAMPLES \<le> ring_level t + n * OPUS_FRAME_SIZE"
  shows "\<exists>t'. fill_loop n e t = Some t' \<and> buffers_ok t'"
  using assms
proof (induction n arbitrary: t)
  case 0
  then show ?case by (auto simp: ring_full_def ring_level_def split: option.splits)
next
  case (Suc n)
  obtain u fr where m: "mix_one_frame e t = (u, fr)" by fastforce
  have u: "buffers_ok u" "at_playback u = at_playback t"
    using buffers_ok_mix [OF Suc.prems(1), of e] by (simp_all add: m)
  show ?case
  proof (cases "ring_full t \<or> fr = None")
    case True
    then show ?thesis using Suc.prems(1) u m by auto
  next
    case False
    then obtain frame where fr: "fr = Some frame" and nf: "\<not> ring_full t" by auto
    have "\<not> ring_full u" using nf u(2) by (simp add: ring_full_def)
    note push = push_mixed_level [OF u(1) this length_mix_one_frame [OF m [unfolded fr]]]
    have "PLAYBACK_TARGET_SAMPLES \<le> ring_level (push_mixed frame u) + n * OPUS_FRAME_SIZE"
      using push Suc.prems(2) u(2) by (simp add: ring_level_def)
    from Suc.IH [OF _ this] push show ?thesis by (simp add: nf m fr)
  qed
qed

lemma fill_total:
  assumes "buffers_ok t" shows "\<exists>t'. fill_playback_ring e t = Some t' \<and> buffers_ok t'"
  unfolding fill_playback_ring_def
  by (rule fill_loop_total)
    (use assms in \<open>simp_all add: buffers_ok_def PLAYBACK_TARGET_SAMPLES_def PLAYBACK_PRIME_SAMPLES_def\<close>)

lemma set_dm_insert: "p \<in> set (dm_insert k v m) \<Longrightarrow> p = (k, v) \<or> p \<in> set m"
  by (auto simp: dm_insert_def)

lemma buffers_ok_fields:
  assumes "buffers_ok t" and "\<forall>p \<in> set (at_user_audio t'). jitter_ok (snd p)"
    and "at_playback t' = at_playback t \<or> at_playback t' = None \<or> at_playback t' = Some \<lparr>pb_ring = [], pb_priming = True\<rparr>"
    and "at_sfx_queue t' = at_sfx_queue t \<or> at_sfx_queue t' = []" and "at_overflows t' = at_overflows t \<or> at_overflows t' = 0"
  shows "buffers_ok t'"
  using assms by (auto simp: buffers_ok_def OPUS_FRAME_SIZE_def)

text \<open>Operations on the sending side leave the buffers alone.\<close>

definition same_buffers :: "('d, 'e, 'q, 'f) audio_task \<Rightarrow> ('d, 'e, 'q, 'f) audio_task \<Rightarrow> bool" where
  "same_buffers t t' \<longleftrightarrow>
     at_user_audio t' = at_user_audio t \<and> at_playback t' = at_playback t \<and>
     at_sfx_queue t' = at_sfx_queue t \<and> at_overflows t' = at_overflows t"

lemma same_buffers_ok: "same_buffers t t' \<Longrightarrow> buffers_ok t \<Longrightarrow> buffers_ok t'"
  by (simp add: same_buffers_def buffers_ok_def)

lemma same_buffers_simps [simp]:
  "same_buffers t t"
  "same_buffers t (emit_voice ev t') = same_buffers t t'"
  "same_buffers t (stopped_talking us t') = same_buffers t t'"
  "same_buffers t (deactivate_capture t') = same_buffers t t'"
  "same_buffers t (sync_transmission e t') = same_buffers t t'"
  "same_buffers t (teardown_capture t') = same_buffers t t'"
  "same_buffers t (fst (start_transmission e t')) = same_buffers t t'"
  "same_buffers t (start_or_report e t') = same_buffers t t'"
  "same_buffers t (rebuild_capture e t') = same_buffers t t'"
proof -
  show emit: "same_buffers t (emit_voice ev t') = same_buffers t t'" for t t' :: "('a, 'b, 'c, 'd) audio_task" and ev
    by (simp add: same_buffers_def emit_voice_def)
  show "same_buffers t (stopped_talking us t') = same_buffers t t'"
    by (induction us arbitrary: t') (simp_all add: stopped_talking_def emit)
  show deact: "same_buffers t (deactivate_capture t') = same_buffers t t'" for t t' :: "('a, 'b, 'c, 'd) audio_task"
    by (simp add: same_buffers_def deactivate_capture_def set_active_def emit_voice_def)
  show sync: "same_buffers t (sync_transmission e t') = same_buffers t t'" for t t' :: "('a, 'b, 'c, 'd) audio_task"
    by (auto simp: sync_transmission_def deact activate_capture_def Let_def split: capture_transition.split option.split)
      (auto simp: same_buffers_def)
  show tear: "same_buffers t (teardown_capture t') = same_buffers t t'" for t t' :: "('a, 'b, 'c, 'd) audio_task"
    by (simp add: same_buffers_def teardown_capture_def stop_transmission_def deactivate_capture_def set_active_def emit_voice_def)
  show start: "same_buffers t (fst (start_transmission e t')) = same_buffers t t'" for t t' :: "('a, 'b, 'c, 'd) audio_task"
    by (simp add: same_buffers_def start_transmission_def Let_def split: option.split sum.split)
  show sr: "same_buffers t (start_or_report e t') = same_buffers t t'" for t t' :: "('a, 'b, 'c, 'd) audio_task"
  proof -
    obtain u r where st: "start_transmission e t' = (u, r)" by fastforce
    have "same_buffers t u = same_buffers t t'" using start [of t t'] by (simp add: st)
    then show ?thesis by (cases r) (simp_all add: start_or_report_def st emit, simp add: same_buffers_def)
  qed
  show "same_buffers t (rebuild_capture e t') = same_buffers t t'"
    by (simp add: rebuild_capture_def Let_def sync sr tear)
qed (simp add: same_buffers_def)

lemma buffers_ok_ignores [simp]:
  "buffers_ok (emit_voice ev t) = buffers_ok t"
  "buffers_ok (stopped_talking us t) = buffers_ok t"
  "buffers_ok (sync_transmission e t) = buffers_ok t"
  "buffers_ok (teardown_capture t) = buffers_ok t"
  "buffers_ok (start_or_report e t) = buffers_ok t"
  "buffers_ok (rebuild_capture e t) = buffers_ok t"
  "buffers_ok (t\<lparr>at_room_members := ms\<rparr>) = buffers_ok t"
  "buffers_ok (t\<lparr>at_connected := b\<rparr>) = buffers_ok t"
  "buffers_ok (t\<lparr>at_my_user_id := u\<rparr>) = buffers_ok t"
  "buffers_ok (t\<lparr>at_per_user_rx := r\<rparr>) = buffers_ok t"
  "buffers_ok (t\<lparr>at_rx_defaults := c\<rparr>) = buffers_ok t"
  "buffers_ok (t\<lparr>at_input_recovering := b\<rparr>) = buffers_ok t"
  "buffers_ok (t\<lparr>at_output_recovering := b\<rparr>) = buffers_ok t"
  "buffers_ok (t\<lparr>at_encoder := enc\<rparr>) = buffers_ok t"
  "buffers_ok (t\<lparr>at_ptt_active := b\<rparr>) = buffers_ok t"
  "buffers_ok (t\<lparr>at_server_muted := b\<rparr>) = buffers_ok t"
  "buffers_ok (t\<lparr>at_input := i\<rparr>) = buffers_ok t"
  "buffers_ok (t\<lparr>at_stopped := b\<rparr>) = buffers_ok t"
  "buffers_ok (t\<lparr>at_self_muted := b\<rparr>) = buffers_ok t"
  "buffers_ok (t\<lparr>at_self_deafened := b\<rparr>) = buffers_ok t"
  "buffers_ok (t\<lparr>at_voice_mode := vm\<rparr>) = buffers_ok t"
  "buffers_ok (t\<lparr>at_vad_gate_bypass := b\<rparr>) = buffers_ok t"
  "buffers_ok (t\<lparr>at_muted_users := mus\<rparr>) = buffers_ok t"
  "buffers_ok (t\<lparr>at_settings := st\<rparr>) = buffers_ok t"
  "buffers_ok (t\<lparr>at_tx_pipeline := c\<rparr>) = buffers_ok t"
  "buffers_ok (t\<lparr>at_selected_input := d\<rparr>) = buffers_ok t"
  "buffers_ok (t\<lparr>at_selected_output := d\<rparr>) = buffers_ok t"
  "buffers_ok (t\<lparr>at_capture_active := b\<rparr>) = buffers_ok t"
  "buffers_ok (t\<lparr>at_producer_active := b\<rparr>) = buffers_ok t"
  "buffers_ok (t\<lparr>at_encoded := msgs\<rparr>) = buffers_ok t"
  "buffers_ok (t\<lparr>at_capture_frame_index := n\<rparr>) = buffers_ok t"
  "buffers_ok (t\<lparr>at_was_transmitting := b\<rparr>) = buffers_ok t"
  "buffers_ok (t\<lparr>at_send_sequence := q\<rparr>) = buffers_ok t"
  "buffers_ok (t\<lparr>at_packets_sent := n\<rparr>) = buffers_ok t"
  "buffers_ok (t\<lparr>at_bytes_sent := n\<rparr>) = buffers_ok t"
  "buffers_ok (t\<lparr>at_sent := ds\<rparr>) = buffers_ok t"
  "buffers_ok (t\<lparr>at_underruns := n\<rparr>) = buffers_ok t"
proof -
  have eq: "buffers_ok t' = buffers_ok t" if "same_buffers t t'" for t' :: "('a, 'b, 'c, 'd) audio_task"
    using that by (simp add: same_buffers_def buffers_ok_def)
  show "buffers_ok (emit_voice ev t) = buffers_ok t"
    "buffers_ok (stopped_talking us t) = buffers_ok t"
    "buffers_ok (sync_transmission e t) = buffers_ok t"
    "buffers_ok (teardown_capture t) = buffers_ok t"
    "buffers_ok (start_or_report e t) = buffers_ok t"
    "buffers_ok (rebuild_capture e t) = buffers_ok t"
    by (intro eq, simp)+
qed (simp_all add: buffers_ok_def)

lemma buffers_ok_peers:
  "buffers_ok t \<Longrightarrow> \<forall>p \<in> set peers. jitter_ok (snd p) \<Longrightarrow> buffers_ok (t\<lparr>at_user_audio := peers\<rparr>)"
  by (simp add: buffers_ok_def)

lemma buffers_ok_create_peer: "buffers_ok t \<Longrightarrow> buffers_ok (create_peer e u t)"
  by (auto simp: create_peer_def buffers_ok_def jitter_ok_new dest!: set_dm_insert split: prod.split option.split)

lemma buffers_ok_with_peer:
  assumes "buffers_ok t" and "\<And>s. jitter_ok s \<Longrightarrow> jitter_ok (f s)" shows "buffers_ok (with_peer u f t)"
proof (cases "dm_get (at_user_audio t) u")
  case (Some s)
  then have "(u, s) \<in> set (at_user_audio t)" by (rule map_of_SomeD)
  then have "jitter_ok s" using assms(1) by (fastforce simp: buffers_ok_def)
  then show ?thesis
    using assms Some by (auto simp: with_peer_def intro!: buffers_ok_peers dest!: set_dm_insert simp: buffers_ok_def)
qed (simp add: with_peer_def assms)

lemma jitter_ok_rebuild_rx [simp]: "jitter_ok (rebuild_rx e c s) = jitter_ok s"
  by (simp add: rebuild_rx_def split: sum.split)

lemma buffers_ok_create_peers: "buffers_ok t \<Longrightarrow> buffers_ok (fold (create_peer e) us t)"
  by (induction us arbitrary: t) (simp_all add: buffers_ok_create_peer)

lemma buffers_ok_open_playback: "buffers_ok t \<Longrightarrow> buffers_ok (open_playback e t)"
  by (simp add: buffers_ok_def open_playback_def OPUS_FRAME_SIZE_def)

lemma buffers_ok_receive:
  assumes "buffers_ok t" shows "buffers_ok (receive_datagram e r t)"
proof (cases r)
  case (DgVoice dg)
  then show ?thesis
    using assms
    by (auto simp: handle_voice_datagram_def Let_def intro!: buffers_ok_with_peer buffers_ok_create_peer
        jitter_ok_mark_end_of_stream jitter_ok_insert_packet_at split: option.split)
qed (simp_all add: assms)

lemma buffers_ok_remove:
  "buffers_ok t \<Longrightarrow> buffers_ok (t\<lparr>at_user_audio := dm_remove u (at_user_audio t)\<rparr>)"
  "buffers_ok t \<Longrightarrow> buffers_ok (t\<lparr>at_user_audio := filter P (at_user_audio t)\<rparr>)"
  "buffers_ok t \<Longrightarrow> buffers_ok (t\<lparr>at_room_members := ms, at_user_audio := dm_remove u (at_user_audio t)\<rparr>)"
  by (auto simp: buffers_ok_def dm_remove_def)

lemma buffers_ok_connection:
  assumes "buffers_ok t"
  shows "buffers_ok (connection_established e uid t)" "buffers_ok (connection_closed e t)"
proof -
  have "buffers_ok (connect_media e uid t)"
    by (rule buffers_ok_fields [OF assms]) (use assms in \<open>auto simp: connect_media_def open_playback_def buffers_ok_def Let_def\<close>)
  then show "buffers_ok (connection_established e uid t)" by (simp add: connection_established_def Let_def)
  show "buffers_ok (connection_closed e t)"
    using assms unfolding connection_closed_def Let_def stop_transmission_def
    by (simp only: buffers_ok_ignores) (rule buffers_ok_peers; simp)
qed

lemma buffers_ok_start_transmission [simp]: "buffers_ok (fst (start_transmission e t)) = buffers_ok t"
  by (simp add: start_transmission_def Let_def split: option.split sum.split)

lemma buffers_ok_set_input_device: "buffers_ok t \<Longrightarrow> buffers_ok (set_input_device e d t)"
proof -
  have "buffers_ok (open_selected_input e d u) = buffers_ok u" for u :: "('a, 'b, 'c, 'd) audio_task"
  proof -
    obtain u' r where st: "start_transmission e u = (u', r)" by fastforce
    have "buffers_ok u' = buffers_ok u" using buffers_ok_start_transmission [of e u] unfolding st by simp
    then show ?thesis by (cases r) (simp_all add: open_selected_input_def st)
  qed
  then show "buffers_ok t \<Longrightarrow> buffers_ok (set_input_device e d t)" by (simp add: set_input_device_def)
qed

lemma stopped_talking_buffers:
  "at_user_audio (stopped_talking us t) = at_user_audio t" "at_playback (stopped_talking us t) = at_playback t"
  "at_sfx_queue (stopped_talking us t) = at_sfx_queue t" "at_overflows (stopped_talking us t) = at_overflows t"
  using same_buffers_simps(3) [of t us t] by (simp_all add: same_buffers_def)

lemma buffers_ok_no_playback: "buffers_ok t \<Longrightarrow> buffers_ok (t\<lparr>at_playback := None\<rparr>)"
  by (simp add: buffers_ok_def)

lemma buffers_ok_deafen: "buffers_ok t \<Longrightarrow> buffers_ok (deafen_output e b t)"
  by (rule buffers_ok_fields) (auto simp: deafen_output_def open_playback_def stopped_talking_buffers buffers_ok_def)

lemma buffers_ok_play_sfx: "buffers_ok t \<Longrightarrow> buffers_ok (play_sfx samples t)"
  by (auto simp: play_sfx_def Let_def buffers_ok_def)

lemma buffers_ok_reset: "buffers_ok t \<Longrightarrow> buffers_ok (reset_stats t)"
  by (auto simp: reset_stats_def buffers_ok_def)

lemma buffers_ok_command:
  assumes "buffers_ok t" shows "buffers_ok (handle_command e c t)"
proof (cases c)
  case (CmdUpdateRxPipelineDefaults d)
  have "buffers_ok (t\<lparr>at_user_audio := map (\<lambda>p. (fst p, if at_per_user_rx t (fst p) = None then rebuild_rx e d (snd p) else snd p))
      (at_user_audio t)\<rparr>)"
    using assms by (intro buffers_ok_peers) (auto simp: buffers_ok_def)
  then show ?thesis
    by (simp add: CmdUpdateRxPipelineDefaults update_rx_defaults_def Let_def emit_voice_def buffers_ok_def)
next
  case (CmdPeerLeft u)
  then show ?thesis using buffers_ok_remove(3) [OF assms] by simp
qed (use assms in \<open>auto simp: update_user_rx_def clear_user_rx_def set_user_volume_def user_joined_room_def
      user_left_room_def room_changed_to_def set_output_device_def set_deafened_def Let_def
      intro!: buffers_ok_connection buffers_ok_set_input_device buffers_ok_deafen buffers_ok_play_sfx buffers_ok_reset
        buffers_ok_with_peer buffers_ok_create_peer buffers_ok_create_peers buffers_ok_open_playback buffers_ok_no_playback
        buffers_ok_peers buffers_ok_remove\<close>)

lemma buffers_ok_callback: "buffers_ok t \<Longrightarrow> buffers_ok (capture_callback e samples t)"
  by (auto simp: capture_callback_def gate_frame_def Let_def split: option.split prod.split)

lemma buffers_ok_device_block:
  assumes "buffers_ok t" shows "buffers_ok (fst (device_block e n t))"
proof (cases "at_playback t")
  case (Some pb)
  then have "length (pb_ring pb) < PLAYBACK_TARGET_SAMPLES + OPUS_FRAME_SIZE" using assms by (simp add: buffers_ok_def)
  then show ?thesis
    using assms Some by (auto simp: device_block_def playback_fill_def Let_def buffers_ok_def)
qed (simp add: device_block_def assms)

lemma buffers_ok_recover:
  assumes "buffers_ok t" shows "buffers_ok (recover_output e (recover_input e t))"
proof -
  have inp: "buffers_ok (recover_input e t)"
  proof -
    obtain t' r where st: "start_transmission e ((teardown_capture t)\<lparr>at_input_recovering := True\<rparr>) = (t', r)" by fastforce
    have "buffers_ok t'"
      using buffers_ok_start_transmission [of e "(teardown_capture t)\<lparr>at_input_recovering := True\<rparr>"] assms
      unfolding st by simp
    then show ?thesis using assms unfolding recover_input_def Let_def st by (cases r) simp_all
  qed
  show ?thesis
    using buffers_ok_open_playback [of "(recover_input e t)\<lparr>at_playback := None, at_output_recovering := True\<rparr>" e]
      buffers_ok_no_playback [OF inp] inp
    by (simp add: recover_output_def Let_def)
qed

lemma buffers_ok_event:
  assumes "buffers_ok t" shows "buffers_ok (audio_event e ev t)"
proof -
  have "buffers_ok (send_capture_message t)"
    using assms by (auto simp: send_capture_message_def Let_def split: list.split capture_message.split)
  moreover have "buffers_ok (gc_orphaned_users e (cleanup_stale_users e t))"
    using buffers_ok_remove(2) [of "cleanup_stale_users e t"] assms by (simp add: gc_orphaned_users_def cleanup_stale_users_def)
  ultimately show ?thesis
    using assms fill_total [OF assms, of e] buffers_ok_command [OF assms] buffers_ok_callback [OF assms]
      buffers_ok_receive [OF assms] buffers_ok_device_block [OF assms] buffers_ok_recover [OF assms]
    by (cases ev) (auto simp: audio_event_def)
qed

lemma buffers_ok_run: "buffers_ok t \<Longrightarrow> buffers_ok (audio_run evs t)"
  unfolding audio_run_def by (induction evs arbitrary: t) (auto intro: buffers_ok_event)

lemma buffers_ok_start: "buffers_ok (audio_start e a)"
  by (simp add: audio_start_def open_playback_def buffers_ok_def OPUS_FRAME_SIZE_def)

text \<open>C14: The audio path is bounded and the mixer always returns. After any run of the task, topping up
  the playback ring terminates within two frames and leaves the ring below its target plus one
  frame, far below its capacity, so no mixed frame was ever cut short; every peer's jitter
  buffer holds at most 20 packets; and at most two seconds of sound effects are queued.\<close>

theorem audio_buffers_bounded:
  assumes "t = audio_run evs (audio_start e a)"
  shows "(\<exists>t'. fill_playback_ring e' t = Some t') \<and> at_overflows t = 0 \<and>
    (\<forall>pb. at_playback t = Some pb \<longrightarrow> length (pb_ring pb) < 2880) \<and>
    (\<forall>(u, s) \<in> set (at_user_audio t). length (ua_jitter_buffer s) \<le> 20) \<and>
    length (at_sfx_queue t) \<le> 96000"
proof -
  have ok: "buffers_ok t" unfolding assms by (intro buffers_ok_run buffers_ok_start)
  then have "\<forall>(u, s) \<in> set (at_user_audio t). length (ua_jitter_buffer s) \<le> 20"
    by (fastforce simp: buffers_ok_def jitter_ok_def JITTER_BUFFER_MAX_PACKETS_def)
  with ok fill_total [OF ok, of e'] show ?thesis
    by (auto simp: buffers_ok_def PLAYBACK_TARGET_SAMPLES_def PLAYBACK_PRIME_SAMPLES_def OPUS_FRAME_SIZE_def MAX_SFX_QUEUE_SAMPLES_def)
qed

section \<open>A sample environment\<close>

definition sample_audio_env :: "(nat, nat, unit, int) audio_env" where
  "sample_audio_env =
     \<lparr>ae_f32 = sample_float, ae_f64 = sample_float, ae_decoder = sample_decoder, ae_create_decoder = Some 0,
      ae_create_encoder = (\<lambda>_. Some 0), ae_apply_settings = (\<lambda>_ enc. enc),
      ae_encode = (\<lambda>enc xs. (enc + 1, Some (map word_of_int xs))),
      ae_processors = \<lparr>pp_process = (\<lambda>q xs. (q, xs, False)), pp_reset = id, pp_is_enabled = (\<lambda>_. True),
        pp_set_enabled = (\<lambda>_ q. q), pp_factories = (\<lambda>_. None)\<rparr>,
      ae_open_input = (\<lambda>_. Inr ()), ae_open_output = (\<lambda>_. True), ae_input_healthy = True, ae_output_healthy = True,
      ae_input_devices = [], ae_output_devices = [], ae_debug = id, ae_now = 0, ae_talking = []\<rparr>"

definition sample_audio_state :: "(pipeline_config, int user_rx_config) audio_state" where
  "sample_audio_state =
     \<lparr>au_input_devices = [], au_output_devices = [], au_selected_input = None, au_selected_output = None,
      au_voice_mode = PushToTalk, au_self_muted = False, au_self_deafened = False, au_muted_users = {},
      au_is_transmitting = False, au_talking_users = {}, au_settings = audio_settings_default,
      au_tx_pipeline = \<lparr>plc_processors = [], plc_frame_size = 960\<rparr>,
      au_rx_pipeline_defaults = \<lparr>plc_processors = [], plc_frame_size = 960\<rparr>, au_per_user_rx = Map.empty,
      au_input_fault = None, au_output_fault = None\<rparr>"

theorem muted_microphone_is_closed_witness:
  "\<exists>t. t = audio_run [(sample_audio_env, AvCommand (CmdSetMuted True))] (audio_start sample_audio_env sample_audio_state) \<and>
     audio_event sample_audio_env (AvCapture [1, 2]) t = t"
proof -
  let ?t = "audio_run [(sample_audio_env, AvCommand (CmdSetMuted True))] (audio_start sample_audio_env sample_audio_state)"
  have "at_self_muted ?t"
    by (simp add: audio_run_def audio_event_def audio_start_def open_playback_def sync_frame emit_frame)
  then show ?thesis
    using muted_microphone_is_closed [OF refl, where evs = "[(sample_audio_env, AvCommand (CmdSetMuted True))]"
        and e = sample_audio_env and a = sample_audio_state and e' = sample_audio_env and samples = "[1, 2]"]
    by blast
qed

theorem audio_buffers_bounded_witness:
  "\<exists>t. t = audio_run [(sample_audio_env, AvCommand (CmdPlaySfx [1, 2, 3])), (sample_audio_env, AvProduce)]
       (audio_start sample_audio_env sample_audio_state) \<and> at_overflows t = 0"
  using audio_buffers_bounded [OF refl] by blast

end
