(* ===== verification/AudioShown.thy ===== *)
theory AudioShown
  imports AudioSafety
begin

text \<open>
  The client's snapshot follows the audio task: folding the voice events the task publishes
  into the audio state of the snapshot (\<open>apply_voice_audio\<close> of the projection) yields the task's
  own settings at every moment.
\<close>

section \<open>The snapshot and the task\<close>

definition voice_view ::
  "(pipeline_config, 'f user_rx_config) audio_state \<Rightarrow> ('d, 'e, 'q, 'f) audio_task \<Rightarrow> (pipeline_config, 'f user_rx_config) audio_state" where
  "voice_view a t = fold apply_voice_audio (at_events t) a"

text \<open>A device that is shown without a fault is the one selected.\<close>

definition mirrors :: "('d, 'e, 'q, 'f) audio_task \<Rightarrow> (pipeline_config, 'f user_rx_config) audio_state \<Rightarrow> bool" where
  "mirrors t v \<longleftrightarrow>
     au_self_muted v = at_self_muted t \<and> au_self_deafened v = at_self_deafened t \<and>
     au_voice_mode v = at_voice_mode t \<and> au_muted_users v = at_muted_users t \<and>
     au_settings v = at_settings t \<and> au_tx_pipeline v = at_tx_pipeline t \<and>
     au_rx_pipeline_defaults v = at_rx_defaults t \<and> au_per_user_rx v = at_per_user_rx t \<and>
     au_is_transmitting v = at_was_transmitting t \<and>
     (au_input_fault v = None \<longrightarrow> au_selected_input v = at_selected_input t) \<and>
     (au_output_fault v = None \<longrightarrow> au_selected_output v = at_selected_output t)"

lemma voice_view_emit [simp]: "voice_view a (emit_voice ev t) = apply_voice_audio ev (voice_view a t)"
  by (simp add: voice_view_def emit_voice_def)

lemma mirrors_emit [simp]: "mirrors (emit_voice ev t) v = mirrors t v"
  by (simp add: mirrors_def emit_voice_def)

definition faithful :: "(pipeline_config, 'f user_rx_config) audio_state \<Rightarrow> ('d, 'e, 'q, 'f) audio_task \<Rightarrow> bool" where
  "faithful a t \<longleftrightarrow> mirrors t (voice_view a t)"

text \<open>Operations that change neither what is shown nor what is published.\<close>

definition same_shown :: "('d, 'e, 'q, 'f) audio_task \<Rightarrow> ('d, 'e, 'q, 'f) audio_task \<Rightarrow> bool" where
  "same_shown t t' \<longleftrightarrow>
     at_self_muted t' = at_self_muted t \<and> at_self_deafened t' = at_self_deafened t \<and>
     at_voice_mode t' = at_voice_mode t \<and> at_muted_users t' = at_muted_users t \<and>
     at_settings t' = at_settings t \<and> at_tx_pipeline t' = at_tx_pipeline t \<and>
     at_rx_defaults t' = at_rx_defaults t \<and> at_per_user_rx t' = at_per_user_rx t \<and>
     at_was_transmitting t' = at_was_transmitting t \<and> at_selected_input t' = at_selected_input t \<and>
     at_selected_output t' = at_selected_output t \<and> at_events t' = at_events t"

lemma same_shown_mirrors: "same_shown t t' \<Longrightarrow> mirrors t' v = mirrors t v"
  by (simp add: same_shown_def mirrors_def)

lemma same_shown_view: "same_shown t t' \<Longrightarrow> voice_view a t' = voice_view a t"
  by (simp add: same_shown_def voice_view_def)

lemma same_shown_faithful: "same_shown t t' \<Longrightarrow> faithful a t \<Longrightarrow> faithful a t'"
  by (simp add: faithful_def same_shown_mirrors same_shown_view)

lemma mirrors_talking [simp]:
  "mirrors t (apply_voice_audio (UserStartedTalking u) v) = mirrors t v"
  "mirrors t (apply_voice_audio (UserStoppedTalking u) v) = mirrors t v"
  "mirrors t (apply_voice_audio (ServerMutedChanged b) v) = mirrors t v"
  "mirrors t (apply_voice_audio (DevicesEnumerated i out) v) = mirrors t v"
  by (simp_all add: mirrors_def apply_voice_audio_def)

lemma mirrors_fault [simp]:
  "mirrors t v \<Longrightarrow> mirrors t (apply_voice_audio (DeviceUnavailable k msg) v)"
  "mirrors t v \<Longrightarrow> mirrors t (apply_voice_audio (DeviceError k msg b) v)"
  by (cases k; simp add: mirrors_def apply_voice_audio_def set_fault_def)+

lemma faithful_emit:
  "faithful a t \<Longrightarrow> (\<And>v. mirrors t v \<Longrightarrow> mirrors t (apply_voice_audio ev v)) \<Longrightarrow> faithful a (emit_voice ev t)"
  by (simp add: faithful_def)

lemma faithful_deactivate:
  assumes "faithful a t" shows "faithful a (deactivate_capture t)"
proof (cases "at_capture_active t")
  case True
  let ?t = "(set_active False (t\<lparr>at_encoded := at_encoded t @ [EndOfStream (at_capture_frame_index t * FRAME_US)],
      at_capture_active := False\<rparr>))\<lparr>at_was_transmitting := False\<rparr>"
  have "voice_view a ?t = voice_view a t" by (simp add: voice_view_def set_active_def)
  moreover have "mirrors ?t (apply_voice_audio (TransmittingChanged False) v)" if "mirrors t v" for v
    using that by (simp add: mirrors_def apply_voice_audio_def set_active_def)
  ultimately show ?thesis
    using assms True by (simp add: deactivate_capture_def faithful_def)
qed (simp add: deactivate_capture_def assms)

lemma same_shown_activate: "same_shown t (activate_capture e t)"
  by (simp add: same_shown_def activate_capture_def Let_def split: option.split)

lemma faithful_sync: "faithful a t \<Longrightarrow> faithful a (sync_transmission e t)"
  using same_shown_faithful [OF same_shown_activate]
  by (auto simp: sync_transmission_def faithful_deactivate split: capture_transition.split)

lemma same_shown_start: "same_shown t (fst (start_transmission e t))"
  by (simp add: same_shown_def start_transmission_def Let_def split: option.split sum.split)

lemma faithful_off: "faithful a t \<Longrightarrow> faithful a (t\<lparr>at_capture_active := b\<rparr>)"
  by (rule same_shown_faithful) (simp_all add: same_shown_def)

lemma faithful_start_or_report:
  assumes "faithful a t" shows "faithful a (start_or_report e t)"
proof -
  obtain t' r where st: "start_transmission e t = (t', r)" by fastforce
  have "faithful a t'" using same_shown_faithful [OF same_shown_start, of a t e] assms by (simp add: st)
  then show ?thesis
    by (cases r) (simp_all add: start_or_report_def st faithful_emit faithful_off)
qed

lemma faithful_teardown: "faithful a t \<Longrightarrow> faithful a (teardown_capture t)"
  unfolding teardown_capture_def stop_transmission_def
  using same_shown_faithful [of "deactivate_capture t" "deactivate_capture t\<lparr>at_input := None\<rparr>"] faithful_deactivate
  by (auto simp: same_shown_def)

lemma faithful_rebuild: "faithful a t \<Longrightarrow> faithful a (rebuild_capture e t)"
  by (simp add: rebuild_capture_def Let_def faithful_sync faithful_start_or_report faithful_teardown)

lemma faithful_stopped_talking [simp]: "faithful a (stopped_talking us t) = faithful a t"
  by (induction us arbitrary: t) (simp_all add: stopped_talking_def faithful_def)

lemma faithful_ignores [simp]:
  "faithful a (t\<lparr>at_user_audio := peers\<rparr>) = faithful a t"
  "faithful a (t\<lparr>at_room_members := ms\<rparr>) = faithful a t"
  "faithful a (t\<lparr>at_connected := b\<rparr>) = faithful a t"
  "faithful a (t\<lparr>at_my_user_id := u\<rparr>) = faithful a t"
  "faithful a (t\<lparr>at_input_recovering := b\<rparr>) = faithful a t"
  "faithful a (t\<lparr>at_output_recovering := b\<rparr>) = faithful a t"
  "faithful a (t\<lparr>at_ptt_active := b\<rparr>) = faithful a t"
  "faithful a (t\<lparr>at_server_muted := b\<rparr>) = faithful a t"
  "faithful a (t\<lparr>at_playback := pb\<rparr>) = faithful a t"
  "faithful a (t\<lparr>at_input := i\<rparr>) = faithful a t"
  "faithful a (t\<lparr>at_encoder := enc\<rparr>) = faithful a t"
  "faithful a (t\<lparr>at_stopped := b\<rparr>) = faithful a t"
  "faithful a (t\<lparr>at_sfx_queue := q\<rparr>) = faithful a t"
  "faithful a (t\<lparr>at_capture_frame_index := n\<rparr>) = faithful a t"
  "faithful a (t\<lparr>at_capture_epoch := n\<rparr>) = faithful a t"
  "faithful a (t\<lparr>at_encoded := ms'\<rparr>) = faithful a t"
  "faithful a (t\<lparr>at_send_sequence := q'\<rparr>) = faithful a t"
  "faithful a (t\<lparr>at_packets_sent := n\<rparr>) = faithful a t"
  "faithful a (t\<lparr>at_bytes_sent := n\<rparr>) = faithful a t"
  "faithful a (t\<lparr>at_sent := ds\<rparr>) = faithful a t"
  "faithful a (t\<lparr>at_underruns := n\<rparr>) = faithful a t"
  "faithful a (t\<lparr>at_overflows := n\<rparr>) = faithful a t"
  "faithful a (t\<lparr>at_producer_active := b\<rparr>) = faithful a t"
  by (simp_all add: faithful_def mirrors_def voice_view_def)

lemma faithful_ops [simp]:
  "faithful a (open_playback e t) = faithful a t"
  "faithful a (connect_media e u t) = faithful a t"
  "faithful a (create_peer e u t) = faithful a t"
  "faithful a (with_peer u f t) = faithful a t"
  "faithful a (push_mixed fr t) = faithful a t"
  "faithful a (fst (mix_one_frame e t)) = faithful a t"
  "faithful a (play_sfx samples t) = faithful a t"
  "faithful a (reset_stats t) = faithful a t"
  "faithful a (deafen_output e b t) = faithful a t"
  by (simp_all add: deafen_output_def open_playback_def connect_media_def create_peer_def with_peer_def push_mixed_def mix_one_frame_def
      play_sfx_def reset_stats_def Let_def split: prod.split option.split)

lemma faithful_callback:
  assumes "faithful a t" shows "faithful a (capture_callback e samples t)"
proof -
  have gate: "faithful a (gate_frame e b ts x s u)" if "faithful a u" for b ts x s u
  proof -
    let ?u = "if at_was_transmitting u = b then emit_voice (TransmittingChanged (\<not> b)) u else u"
    have v: "mirrors (?u\<lparr>at_was_transmitting := \<not> b\<rparr>) (voice_view a ?u)"
      using that by (auto simp: faithful_def mirrors_def emit_voice_def voice_view_def apply_voice_audio_def)
    have keep: "faithful a u'" if "same_shown (?u\<lparr>at_was_transmitting := \<not> b\<rparr>) u'" for u'
      using v same_shown_mirrors [OF that] same_shown_view [OF that, of a] by (simp add: faithful_def voice_view_def)
    show ?thesis
      by (rule keep) (auto simp: gate_frame_def Let_def same_shown_def emit_voice_def split: option.split prod.split)
  qed
  show ?thesis
    using assms gate by (auto simp: capture_callback_def Let_def split: option.split prod.split)
qed

lemma faithful_connection:
  assumes "faithful a t"
  shows "faithful a (connection_established e uid t)" "faithful a (connection_closed e t)"
proof -
  show "faithful a (connection_established e uid t)"
    using assms by (simp add: connection_established_def Let_def faithful_sync faithful_start_or_report)
  show "faithful a (connection_closed e t)"
    using faithful_sync [of a "t\<lparr>at_connected := False, at_my_user_id := 0\<rparr>" e] assms
    by (simp add: connection_closed_def Let_def stop_transmission_def)
qed

lemma mirrors_select:
  "mirrors t v \<Longrightarrow> mirrors (t\<lparr>at_selected_input := d\<rparr>) (apply_voice_audio (SelectedDeviceChanged DeviceInput d) v)"
  "mirrors t v \<Longrightarrow> mirrors (t\<lparr>at_selected_output := d\<rparr>) (apply_voice_audio (SelectedDeviceChanged DeviceOutput d) v)"
  by (simp_all add: mirrors_def apply_voice_audio_def)

lemma mirrors_unavailable:
  "mirrors t v \<Longrightarrow> mirrors (t\<lparr>at_selected_input := d\<rparr>) (apply_voice_audio (DeviceUnavailable DeviceInput msg) v)"
  "mirrors t v \<Longrightarrow> mirrors (t\<lparr>at_selected_output := d\<rparr>) (apply_voice_audio (DeviceUnavailable DeviceOutput msg) v)"
  by (simp_all add: mirrors_def apply_voice_audio_def set_fault_def)

lemma same_shown_refl [simp]: "same_shown t t"
  by (simp add: same_shown_def)

lemma faithful_open_selected_input:
  assumes "faithful a u" and "same_shown (u\<lparr>at_selected_input := d\<rparr>) t"
  shows "faithful a (open_selected_input e d t)"
proof -
  obtain t' r where st: "start_transmission e t = (t', r)" by fastforce
  have "same_shown (u\<lparr>at_selected_input := d\<rparr>) t'"
    using assms(2) same_shown_start [of t e] by (simp add: st same_shown_def)
  then have "voice_view a t' = voice_view a u" "mirrors t' v = mirrors (u\<lparr>at_selected_input := d\<rparr>) v" for v
    using same_shown_view [of _ t' a] same_shown_mirrors [of _ t' v] by (auto simp: voice_view_def)
  moreover have "voice_view a t = voice_view a u" "mirrors t v = mirrors (u\<lparr>at_selected_input := d\<rparr>) v" for v
    using same_shown_view [OF assms(2), of a] same_shown_mirrors [OF assms(2), of v] by (auto simp: voice_view_def)
  moreover have "faithful a (t'\<lparr>at_capture_active := b\<rparr>) = faithful a t'" for t' :: "('b, 'c, 'd, 'a) audio_task" and b
    by (simp add: faithful_def mirrors_def voice_view_def)
  moreover have "mirrors (t'\<lparr>at_capture_active := b\<rparr>) v = mirrors t' v" "voice_view a (t'\<lparr>at_capture_active := b\<rparr>) = voice_view a t'" for b v
    by (simp_all add: mirrors_def voice_view_def)
  ultimately show ?thesis
    using assms(1) mirrors_select(1) [of u "voice_view a u" d] mirrors_unavailable(1) [of u "voice_view a u" d]
    by (cases r) (auto simp: open_selected_input_def st faithful_def)
qed

lemma teardown_selected:
  "same_shown ((teardown_capture t)\<lparr>at_selected_input := d\<rparr>)
     (teardown_capture (t\<lparr>at_selected_input := d, at_input_recovering := b\<rparr>))"
  by (simp add: same_shown_def teardown_capture_def stop_transmission_def deactivate_capture_def set_active_def emit_voice_def)

lemma faithful_set_input_device:
  assumes "faithful a t" shows "faithful a (set_input_device e d t)"
proof -
  have "faithful a (emit_voice (SelectedDeviceChanged DeviceInput (at_selected_input t)) t)"
    using assms mirrors_select(1) [of t "voice_view a t" "at_selected_input t"] by (simp add: faithful_def)
  then show ?thesis
    using faithful_open_selected_input [OF faithful_teardown [OF assms] teardown_selected, of e d]
    by (simp add: set_input_device_def faithful_sync)
qed

lemma faithful_select_output:
  assumes "faithful a t" and "same_shown (t\<lparr>at_selected_output := d\<rparr>) t'"
  shows "faithful a (emit_voice (SelectedDeviceChanged DeviceOutput d) t')"
    and "faithful a (emit_voice (DeviceUnavailable DeviceOutput msg) t')"
proof -
  have m: "mirrors t (voice_view a t)" using assms(1) by (simp add: faithful_def)
  have "voice_view a t' = voice_view a t"
    using same_shown_view [OF assms(2), of a] by (simp add: voice_view_def)
  then show "faithful a (emit_voice (SelectedDeviceChanged DeviceOutput d) t')"
    and "faithful a (emit_voice (DeviceUnavailable DeviceOutput msg) t')"
    using mirrors_select(2) [OF m, of d] mirrors_unavailable(2) [OF m, of d msg] same_shown_mirrors [OF assms(2)]
    by (simp_all add: faithful_def)
qed

lemma faithful_set_output_device:
  assumes "faithful a t" shows "faithful a (set_output_device e d t)"
proof -
  let ?u = "t\<lparr>at_selected_output := d, at_output_recovering := False, at_playback := None\<rparr>"
  have "same_shown (t\<lparr>at_selected_output := d\<rparr>) ?u" "same_shown (t\<lparr>at_selected_output := d\<rparr>) (open_playback e ?u)"
    by (simp_all add: same_shown_def open_playback_def)
  note sel = faithful_select_output [OF assms this(1)] faithful_select_output [OF assms this(2)]
  show ?thesis unfolding set_output_device_def Let_def using sel by (simp only: split: if_split) blast
qed

lemma faithful_set_deafened:
  assumes "faithful a t" shows "faithful a (set_deafened e b t)"
  unfolding set_deafened_def Let_def
  by (intro faithful_sync, simp only: faithful_ops)
    (use assms in \<open>auto simp: faithful_def mirrors_def apply_voice_audio_def voice_view_def emit_voice_def\<close>)

lemma faithful_change:
  assumes "faithful a t" and "voice_view a t' = voice_view a t"
    and "\<And>v. mirrors t v \<Longrightarrow> mirrors t' (apply_voice_audio ev v)"
  shows "faithful a (emit_voice ev t')"
  using assms by (simp add: faithful_def)

text \<open>A setting and the event that announces it change together.\<close>

lemma mirrors_changes:
  assumes "mirrors t v"
  shows "mirrors (t\<lparr>at_voice_mode := m, at_vad_gate_bypass := b\<rparr>) (apply_voice_audio (VoiceModeChanged m) v)"
    "mirrors (t\<lparr>at_self_muted := b\<rparr>) (apply_voice_audio (SelfMutedChanged b) v)"
    "mirrors (t\<lparr>at_server_muted := b\<rparr>) (apply_voice_audio (ServerMutedChanged b) v)"
    "mirrors (t\<lparr>at_muted_users := insert u (at_muted_users t)\<rparr>) (apply_voice_audio (LocalMuteToggled u True) v)"
    "mirrors (t\<lparr>at_muted_users := at_muted_users t - {u}\<rparr>) (apply_voice_audio (LocalMuteToggled u False) v)"
    "mirrors (t\<lparr>at_settings := s\<rparr>) (apply_voice_audio (AudioSettingsChanged s) v)"
    "mirrors (t\<lparr>at_tx_pipeline := c\<rparr>) (apply_voice_audio (TxPipelineChanged c) v)"
    "mirrors (t\<lparr>at_rx_defaults := c\<rparr>) (apply_voice_audio (RxPipelineDefaultsChanged c) v)"
    "mirrors (t\<lparr>at_per_user_rx := (at_per_user_rx t)(u \<mapsto> rx)\<rparr>) (apply_voice_audio (UserRxConfigChanged u rx) v)"
    "mirrors (t\<lparr>at_per_user_rx := (at_per_user_rx t)(u := None)\<rparr>) (apply_voice_audio (UserRxOverrideCleared u) v)"
  using assms by (simp_all add: mirrors_def apply_voice_audio_def)

lemma faithful_changes:
  assumes "faithful a t"
  shows "faithful a (emit_voice (VoiceModeChanged m) (t\<lparr>at_voice_mode := m, at_vad_gate_bypass := b\<rparr>))"
    "faithful a (emit_voice (SelfMutedChanged b) (t\<lparr>at_self_muted := b\<rparr>))"
    "faithful a (emit_voice (ServerMutedChanged b) (t\<lparr>at_server_muted := b\<rparr>))"
    "faithful a (emit_voice (LocalMuteToggled u True) (t\<lparr>at_muted_users := insert u (at_muted_users t)\<rparr>))"
    "faithful a (emit_voice (LocalMuteToggled u False) (t\<lparr>at_muted_users := at_muted_users t - {u}\<rparr>))"
    "faithful a (emit_voice (AudioSettingsChanged s) (t\<lparr>at_settings := s\<rparr>))"
    "faithful a (emit_voice (TxPipelineChanged c) (t\<lparr>at_tx_pipeline := c\<rparr>))"
    "faithful a (emit_voice (RxPipelineDefaultsChanged c) (t\<lparr>at_rx_defaults := c\<rparr>))"
    "faithful a (emit_voice (UserRxConfigChanged u rx) (t\<lparr>at_per_user_rx := (at_per_user_rx t)(u \<mapsto> rx)\<rparr>))"
    "faithful a (emit_voice (UserRxOverrideCleared u) (t\<lparr>at_per_user_rx := (at_per_user_rx t)(u := None)\<rparr>))"
  by (rule faithful_change [OF assms], simp add: voice_view_def, rule mirrors_changes, assumption)+

lemma faithful_create_peers [simp]: "faithful a (fold (create_peer e) us t) = faithful a t"
  by (induction us arbitrary: t) simp_all

lemma faithful_talk [simp]:
  "faithful a (emit_voice (UserStartedTalking u) t) = faithful a t"
  "faithful a (emit_voice (UserStoppedTalking u) t) = faithful a t"
  "faithful a (emit_voice (DevicesEnumerated i out) t) = faithful a t"
  by (simp_all add: faithful_def)

lemma faithful_command:
  assumes "faithful a t" shows "faithful a (handle_command e c t)"
  using assms
  by (cases c)
    (auto simp: update_rx_defaults_def update_user_rx_def clear_user_rx_def set_user_volume_def user_joined_room_def
      user_left_room_def room_changed_to_def Let_def
      intro!: faithful_sync faithful_rebuild faithful_connection faithful_set_input_device faithful_set_output_device
        faithful_set_deafened faithful_changes)

lemma faithful_fill_loop: "fill_loop n e t = Some t' \<Longrightarrow> faithful a t \<Longrightarrow> faithful a t'"
proof (induction n arbitrary: t)
  case (Suc n)
  obtain u fr where m: "mix_one_frame e t = (u, fr)" by fastforce
  then have "faithful a u" using faithful_ops(6) [of a e t] Suc.prems(2) by simp
  then show ?case
    using Suc m by (cases fr) (auto split: if_splits)
qed (simp split: if_splits)

lemma faithful_recover_input:
  assumes "faithful a t" shows "faithful a (recover_input e t)"
proof -
  let ?t = "(teardown_capture t)\<lparr>at_input_recovering := True\<rparr>"
  have ft: "faithful a ?t" using faithful_teardown [OF assms] by simp
  obtain t' r where st: "start_transmission e ?t = (t', r)" by fastforce
  have t': "faithful a t'" using same_shown_faithful [OF same_shown_start ft, of e] by (simp add: st)
  have "mirrors t' v \<Longrightarrow> mirrors t' (apply_voice_audio (SelectedDeviceChanged DeviceInput (at_selected_input t')) v)" for v
    using mirrors_select(1) [of t' v "at_selected_input t'"] by simp
  then have "faithful a (emit_voice (SelectedDeviceChanged DeviceInput (at_selected_input t')) (t'\<lparr>at_input_recovering := False\<rparr>))"
    by (intro faithful_change [OF t']) (simp_all add: voice_view_def mirrors_def)
  note good = faithful_sync [OF this, of e]
  have bad: "faithful a (emit_voice (DeviceError DeviceInput msg b) t')" for msg b
    by (rule faithful_emit [OF t']) simp
  have off: "faithful a (emit_voice (DeviceError DeviceInput msg b) (?t\<lparr>at_input_recovering := False\<rparr>))" for msg b
    by (rule faithful_emit) (use ft in simp_all)
  show ?thesis
    using assms good bad off unfolding recover_input_def Let_def st by (cases r) simp_all
qed

lemma faithful_recover_output:
  assumes "faithful a t" shows "faithful a (recover_output e t)"
proof -
  let ?u = "t\<lparr>at_playback := None, at_output_recovering := True\<rparr>"
  let ?v = "open_playback e ?u"
  have "same_shown (t\<lparr>at_selected_output := at_selected_output ?v\<rparr>) (?v\<lparr>at_output_recovering := False\<rparr>)"
    by (simp add: same_shown_def open_playback_def)
  note good = faithful_select_output(1) [OF assms this]
  have bad: "faithful a (emit_voice (DeviceError DeviceOutput msg b) ?v)"
    "faithful a (emit_voice (DeviceError DeviceOutput msg b) (?u\<lparr>at_output_recovering := False\<rparr>))" for msg b
    by (rule faithful_emit; use assms in simp)+
  show ?thesis
    unfolding recover_output_def Let_def using assms good bad by (simp only: split: if_split) blast
qed

lemma faithful_event:
  assumes "faithful a t" shows "faithful a (audio_event e ev t)"
proof -
  have recv: "faithful a (receive_datagram e r t)" for r
    using assms by (cases r) (auto simp: handle_voice_datagram_def Let_def split: option.split)
  have send: "faithful a (send_capture_message t)"
    using assms by (auto simp: send_capture_message_def Let_def split: list.split capture_message.split)
  have fill: "faithful a t'" if "fill_playback_ring e t = Some t'" for t'
    by (rule faithful_fill_loop [OF that [unfolded fill_playback_ring_def]]) (use assms in simp)
  have block: "faithful a (fst (device_block e n t))" for n
    using assms by (simp add: device_block_def split: option.split prod.split)
  have clean: "faithful a (gc_orphaned_users e (cleanup_stale_users e t))"
    using assms by (simp add: gc_orphaned_users_def cleanup_stale_users_def)
  show ?thesis
    using assms recv send block clean fill faithful_recover_output [OF faithful_recover_input [OF assms]]
      faithful_callback [OF assms] faithful_command [OF assms]
    by (cases ev) (auto simp: audio_event_def split: option.split)
qed

text \<open>C13: The snapshot shows what the audio task does. Starting from a snapshot that agrees with the
  task, after any run of it the snapshot obtained by folding the published voice events has
  the task's mute and deafen flags, voice mode, locally muted users, encoder settings and
  pipeline configurations; the transmit light is on exactly while the task transmits; and a
  device shown without a fault is the one the task has selected.\<close>

theorem snapshot_follows_audio_task:
  assumes "mirrors (audio_start e a) a" and "t = audio_run evs (audio_start e a)"
  shows "mirrors t (fold apply_voice_audio (at_events t) a)"
proof -
  have "at_events (audio_start e a) = []" by (simp add: audio_start_def open_playback_def)
  then have "faithful a (audio_start e a)" using assms(1) by (simp add: faithful_def voice_view_def)
  then have "faithful a (audio_run evs (audio_start e a))"
    unfolding audio_run_def
  proof (induction evs rule: rev_induct)
    case (snoc x evs)
    then show ?case by (cases x) (simp add: faithful_event)
  qed simp
  then show ?thesis unfolding assms(2) by (simp add: faithful_def voice_view_def)
qed

theorem snapshot_follows_audio_task_witness:
  "\<exists>t. t = audio_run [(sample_audio_env, AvCommand (CmdSetDeafened True)), (sample_audio_env, AvCommand (CmdSetVoiceMode Continuous))]
        (audio_start sample_audio_env sample_audio_state) \<and>
     mirrors t (fold apply_voice_audio (at_events t) sample_audio_state)"
proof -
  have "mirrors (audio_start sample_audio_env sample_audio_state) sample_audio_state"
    by (simp add: mirrors_def audio_start_def open_playback_def sample_audio_state_def)
  from snapshot_follows_audio_task [OF this refl] show ?thesis by blast
qed

end
