(* ===== verification/VoicePath.thy ===== *)
theory VoicePath
  imports AudioSafety
begin

text \<open>
  From one client's microphone to another client's loudspeaker: the capture callback, the
  sending loop, any order of delivery, the jitter buffer and the decoder put together; and
  what becomes of the burst a sender emits when its voice gate opens.
\<close>

section \<open>The sender\<close>

text \<open>What processing and encoding make of captured frames, if the encoder accepts them all.\<close>

fun encode_stream ::
  "('d, 'e, 'q, 'f) audio_env \<Rightarrow> 'q audio_pipeline \<Rightarrow> 'e \<Rightarrow> 'f list list \<Rightarrow> ('q audio_pipeline \<times> 'e \<times> bytes list) option" where
  "encode_stream e p enc [] = Some (p, enc, [])"
| "encode_stream e p enc (x # xs) =
     (case pipeline_process (ae_processors e) p x of
        (p', y, _) \<Rightarrow>
          (case ae_encode e enc y of
             (enc', None) \<Rightarrow> None
           | (enc', Some d) \<Rightarrow> map_option (\<lambda>(p'', enc'', ds). (p'', enc'', d # ds)) (encode_stream e p' enc' xs)))"

text \<open>A client that holds its push-to-talk key: the gate is bypassed and the ring is empty.\<close>

definition on_air ::
  "('q, 'f) capture_stream \<Rightarrow> 'e \<Rightarrow> ('d, 'e, 'q, 'f) audio_task \<Rightarrow> bool" where
  "on_air s enc t \<longleftrightarrow>
     at_input t = Some s \<and> cs_active s \<and> cs_frames_to_discard s = 0 \<and> pr_len (cs_preroll s) = 0 \<and>
     at_vad_gate_bypass t \<and> at_encoder t = Some enc"

definition voice_messages :: "nat \<Rightarrow> bytes list \<Rightarrow> capture_message list" where
  "voice_messages idx ds = map (\<lambda>i. EncodedFrame (ds ! i) (length (ds ! i)) ((idx + i) * FRAME_US)) [0..<length ds]"

lemma voice_messages_Cons:
  "voice_messages idx (d # ds) = EncodedFrame d (length d) (idx * FRAME_US) # voice_messages (Suc idx) ds"
proof -
  have "[0..<length (d # ds)] = 0 # map Suc [0..<length ds]" by (simp add: map_Suc_upt upt_conv_Cons del: upt_Suc)
  then show ?thesis by (simp add: voice_messages_def del: upt_Suc)
qed

definition same_link :: "('d, 'e, 'q, 'f) audio_task \<Rightarrow> ('d, 'e, 'q, 'f) audio_task \<Rightarrow> bool" where
  "same_link t t' \<longleftrightarrow> at_sent t' = at_sent t \<and> at_send_sequence t' = at_send_sequence t \<and>
     at_connected t' = at_connected t \<and> at_my_user_id t' = at_my_user_id t"

lemma capture_on_air:
  assumes "on_air s enc t" and "pipeline_process (ae_processors e) (cs_pipeline s) x = (p', y, gate)"
    and "ae_encode e enc y = (enc', Some d)" and "t' = capture_callback e x t"
  shows "on_air (s\<lparr>cs_pipeline := p', cs_preroll := (cs_preroll s)\<lparr>pr_len := 0\<rparr>\<rparr>) enc' t'"
    and "at_encoded t' = at_encoded t @ [EncodedFrame d (length d) (at_capture_frame_index t * FRAME_US)]"
    and "at_capture_frame_index t' = Suc (at_capture_frame_index t)" and "same_link t t'"
proof -
  have flush: "pre_roll_flush ts (cs_preroll s) = ([], (cs_preroll s)\<lparr>pr_len := 0\<rparr>)" for ts
    using assms(1) by (simp add: pre_roll_flush_def newest_timestamp_def on_air_def)
  show "on_air (s\<lparr>cs_pipeline := p', cs_preroll := (cs_preroll s)\<lparr>pr_len := 0\<rparr>\<rparr>) enc' t'"
    and "at_encoded t' = at_encoded t @ [EncodedFrame d (length d) (at_capture_frame_index t * FRAME_US)]"
    and "at_capture_frame_index t' = Suc (at_capture_frame_index t)" and "same_link t t'"
    using assms flush
    by (simp_all add: on_air_def capture_callback_def gate_frame_def Let_def emit_voice_def same_link_def)
qed

lemma capture_stream_on_air:
  assumes "on_air s enc t" and "encode_stream e (cs_pipeline s) enc xs = Some (p', enc', ds)"
    and "t' = fold (capture_callback e) xs t"
  shows "at_encoded t' = at_encoded t @ voice_messages (at_capture_frame_index t) ds \<and> length ds = length xs \<and> same_link t t'"
  using assms
proof (induction xs arbitrary: s enc t ds)
  case Nil
  then show ?case by (simp add: voice_messages_def same_link_def)
next
  case (Cons x xs)
  obtain p1 y gate where p: "pipeline_process (ae_processors e) (cs_pipeline s) x = (p1, y, gate)" by (metis surj_pair)
  obtain enc1 res where en: "ae_encode e enc y = (enc1, res)" by fastforce
  then obtain d ds' where d: "res = Some d" "ds = d # ds'" "encode_stream e p1 enc1 xs = Some (p', enc', ds')"
    using Cons.prems(2) p by (cases res) auto
  note step = capture_on_air [OF Cons.prems(1) p en [unfolded d(1)] refl]
  have "encode_stream e (cs_pipeline (s\<lparr>cs_pipeline := p1, cs_preroll := (cs_preroll s)\<lparr>pr_len := 0\<rparr>\<rparr>)) enc1 xs = Some (p', enc', ds')"
    using d(3) by simp
  from Cons.IH [OF step(1) this] Cons.prems(3) show ?case
    using step(2-4) by (auto simp: d(2) voice_messages_Cons same_link_def)
qed

text \<open>Each message becomes one datagram with the next sequence number.\<close>

definition voice_datagrams :: "u64 \<Rightarrow> u32 \<Rightarrow> nat \<Rightarrow> bytes list \<Rightarrow> voice_datagram list" where
  "voice_datagrams uid q idx ds =
     map (\<lambda>i. \<lparr>vd_opus_data = ds ! i, vd_sequence = q + of_nat i, vd_timestamp_us = of_nat ((idx + i) * FRAME_US),
              vd_end_of_stream = False, vd_sender_id = Some uid, vd_room_id = None\<rparr>) [0..<length ds]"

lemma voice_datagrams_Cons:
  "voice_datagrams uid q idx (d # ds) =
     \<lparr>vd_opus_data = d, vd_sequence = q, vd_timestamp_us = of_nat (idx * FRAME_US), vd_end_of_stream = False,
      vd_sender_id = Some uid, vd_room_id = None\<rparr> # voice_datagrams uid (q + 1) (Suc idx) ds"
proof -
  have "[0..<length (d # ds)] = 0 # map Suc [0..<length ds]" by (simp add: map_Suc_upt upt_conv_Cons del: upt_Suc)
  then show ?thesis by (simp add: voice_datagrams_def del: upt_Suc of_nat_mult)
qed

lemma send_spoken:
  assumes "at_encoded t = voice_messages idx ds" and "at_connected t"
  shows "at_sent ((send_capture_message ^^ length ds) t) =
    at_sent t @ voice_datagrams (at_my_user_id t) (at_send_sequence t) idx ds"
  using assms
proof (induction ds arbitrary: t idx)
  case (Cons d ds)
  let ?t = "send_capture_message t"
  have "at_encoded ?t = voice_messages (Suc idx) ds" "at_connected ?t" "at_my_user_id ?t = at_my_user_id t"
    "at_send_sequence ?t = at_send_sequence t + 1"
    "at_sent ?t = at_sent t @ [\<lparr>vd_opus_data = d, vd_sequence = at_send_sequence t, vd_timestamp_us = of_nat (idx * FRAME_US),
       vd_end_of_stream = False, vd_sender_id = Some (at_my_user_id t), vd_room_id = None\<rparr>]"
    using Cons.prems by (simp_all add: send_capture_message_def voice_messages_Cons Let_def)
  with Cons.IH [of ?t "Suc idx"] show ?case
    by (simp add: voice_datagrams_Cons funpow_swap1)
qed (simp add: voice_datagrams_def)

section \<open>From microphone to loudspeaker\<close>

definition deliver :: "'f float_ops \<Rightarrow> voice_datagram \<Rightarrow> nat \<Rightarrow> ('d, 'f, 'p) user_audio_state \<Rightarrow> ('d, 'f, 'p) user_audio_state" where
  "deliver F dg at = insert_packet_at F (vd_sequence dg) (vd_timestamp_us dg) (vd_opus_data dg) at"

lemma deliver_arrive:
  assumes "\<forall>(i, at) \<in> set arrivals. i < length ds" and "sent = old @ voice_datagrams uid q idx ds"
  shows "fold (\<lambda>(i, at). deliver F (sent ! (length old + i)) at) arrivals r = fold (arrive F idx q ds) arrivals r"
  using assms(1)
  by (intro fold_cong) (auto simp: deliver_def arrive_def assms(2) nth_append voice_datagrams_def)

lemma spoken_delivered:
  assumes "on_air s enc t" and "encode_stream e (cs_pipeline s) enc xs = Some (p', enc', ds)"
    and "at_encoded t = []" and "at_connected t"
    and "t' = (send_capture_message ^^ length xs) (fold (capture_callback e) xs t)"
  shows "fst ` set arrivals = {..<length xs} \<Longrightarrow>
      fold (\<lambda>(i, at). deliver F (at_sent t' ! (length (at_sent t) + i)) at) arrivals r =
      fold (arrive F (at_capture_frame_index t) (at_send_sequence t) ds) arrivals r"
    and "length ds = length xs"
proof -
  let ?c = "fold (capture_callback e) xs t" and ?f = "at_capture_frame_index t" and ?q = "at_send_sequence t"
  have cap: "at_encoded ?c = voice_messages ?f ds" "length ds = length xs" "same_link t ?c"
    using capture_stream_on_air [OF assms(1,2) refl] assms(3) by simp_all
  then show "length ds = length xs" by simp
  have "at_sent t' = at_sent t @ voice_datagrams (at_my_user_id t) ?q ?f ds"
    using send_spoken [OF cap(1)] assms(4) cap(2,3) unfolding assms(5) by (simp add: same_link_def)
  moreover assume "fst ` set arrivals = {..<length xs}"
  then have "\<forall>(i, at) \<in> set arrivals. i < length ds"
    using cap(2) by (force simp: image_def set_eq_iff)
  ultimately show "fold (\<lambda>(i, at). deliver F (at_sent t' ! (length (at_sent t) + i)) at) arrivals r =
      fold (arrive F ?f ?q ds) arrivals r"
    using deliver_arrive by blast
qed

text \<open>C11: A short utterance is heard as it was spoken. A connected client that holds its push-to-talk key
  (voice gate bypassed, nothing suppressed in the pre-roll ring, no captured frame waiting) captures
  at most 20 frames, no more than a jitter buffer holds, and its sending loop turns them into
  datagrams. These reach another client in any order and any number of times, each at least once and
  all before its next tick. If that client was not yet playing the speaker, had nothing of it buffered
  and now has enough buffered to start, its next ticks yield exactly what the decoder makes of the
  encoder's packets in the order of capture, one frame per tick, and nothing is left over.\<close>

theorem voice_path:
  assumes sender: "on_air s enc t" "encode_stream e (cs_pipeline s) enc xs = Some (p', enc', ds)"
      "at_encoded t = []" "at_connected t"
    and sent: "t' = (send_capture_message ^^ length xs) (fold (capture_callback e) xs t)"
    and receiver: "jitter_ok r" "\<not> ua_started r" "ua_jitter_buffer r = []"
    and delivery: "fst ` set arrivals = {..<length xs}"
      "r' = fold (\<lambda>(i, at). deliver F (at_sent t' ! (length (at_sent t) + i)) at) arrivals r"
    and limits: "length xs \<le> 20" "(at_capture_frame_index t + length xs) * FRAME_US \<le> 2 ^ 64"
    and play: "ready_to_play r'" "length ticks = length xs"
  shows "snd (play_all D ticks r') = decode_stream D (primed D r) ds \<and>
    ua_jitter_buffer (fst (play_all D ticks r')) = []"
proof -
  have r': "r' = fold (arrive F (at_capture_frame_index t) (at_send_sequence t) ds) arrivals r" and n: "length ds = length xs"
    using spoken_delivered [OF sender sent] delivery(1) unfolding delivery(2) by simp_all
  show ?thesis
    by (rule reordered_spurt_plays_in_order [OF receiver _ _ _ r' play(1)])
      (use delivery(1) limits play(2) n in \<open>simp_all add: JITTER_BUFFER_MAX_PACKETS_def\<close>)
qed

definition sample_mic :: "(unit, int) capture_stream" where
  "sample_mic = \<lparr>cs_active = True, cs_frames_to_discard = 0, cs_pipeline = \<lparr>pl_processors = [], pl_frame_size = 960\<rparr>,
     cs_preroll = pre_roll_new 5 FRAME_US\<rparr>"

definition sample_speaker :: "(nat, nat, unit, int) audio_task" where
  "sample_speaker = (audio_start sample_audio_env sample_audio_state)
     \<lparr>at_connected := True, at_input := Some sample_mic, at_encoder := Some 0\<rparr>"

definition sample_frames :: "int list list" where
  "sample_frames = [[1], [2], [3], [4], [5], [6], [7], [8], [9], [10], [11], [12]]"

lemma sample_speaker_simps:
  "on_air sample_mic 0 sample_speaker" "at_encoded sample_speaker = []" "at_connected sample_speaker"
  "at_capture_frame_index sample_speaker = 0" "at_send_sequence sample_speaker = 0"
  "encode_stream sample_audio_env (cs_pipeline sample_mic) 0 sample_frames = Some (cs_pipeline sample_mic, 12, sample_payloads)"
  by (simp_all add: sample_speaker_def sample_mic_def on_air_def pre_roll_new_def audio_start_def open_playback_def
      sample_audio_env_def sample_frames_def sample_payloads_def pipeline_process_def)

theorem voice_path_witness:
  "\<exists>t' r'. t' = (send_capture_message ^^ 12) (fold (capture_callback sample_audio_env) sample_frames sample_speaker) \<and>
     r' = fold (\<lambda>(i, at). deliver sample_float (at_sent t' ! (length (at_sent sample_speaker) + i)) at) sample_arrivals fresh_peer \<and>
     snd (play_all sample_decoder (replicate 12 0) r') = map Some sample_frames"
proof -
  let ?t = "(send_capture_message ^^ length sample_frames) (fold (capture_callback sample_audio_env) sample_frames sample_speaker)"
  let ?r = "fold (\<lambda>(i, at). deliver sample_float (at_sent ?t ! (length (at_sent sample_speaker) + i)) at) sample_arrivals fresh_peer"
  have n: "length sample_frames = 12" "length sample_payloads = 12" by (simp_all add: sample_frames_def sample_payloads_def)
  have idx: "fst ` set sample_arrivals = {..<12}" by (auto simp: sample_arrivals_def image_image)
  have r: "?r = fold (arrive sample_float 0 0 sample_payloads) sample_arrivals fresh_peer"
    using spoken_delivered(1) [OF sample_speaker_simps(1,6,2,3) refl, of sample_arrivals] idx n
    by (simp add: sample_speaker_simps(4,5))
  have fits: "burst_fits 0 sample_payloads fresh_peer"
    using fresh_peer_simps(2) by (simp add: burst_fits_def burst_limit_def n JITTER_BUFFER_MAX_PACKETS_def FRAME_US_def)
  have ready: "ready_to_play ?r"
    using burst_buffered(1,2) [OF fresh_peer_simps(1,3) _ fits r] idx n by (intro ready_when_full) simp_all
  have "snd (play_all sample_decoder (replicate 12 0) ?r) = decode_stream sample_decoder (primed sample_decoder fresh_peer) sample_payloads"
    using voice_path [OF sample_speaker_simps(1,6,2,3) refl fresh_peer_simps(1-3) _ refl _ _ ready, of "replicate 12 0" sample_decoder] idx
    by (simp add: n sample_speaker_simps(4) FRAME_US_def)
  also have "\<dots> = map Some sample_frames"
    by (simp add: sample_payloads_def sample_frames_def decode_or_conceal_def sample_decoder_def)
  finally show ?thesis using n by auto
qed

section \<open>The pre-roll burst\<close>

text \<open>C15: The onset of speech survives the jitter buffer. When the voice gate opens, a sender emits at most
  one frame more than its pre-roll ring holds, back to back. If they reach a peer that has
  played out the previous spurt, in any order, none of them is dropped, as the comment at the
  ring's capacity claims. If fewer end markers were lost than frames were silent, the next tick
  recognises the silence, plays nothing and puts the cursor on the first frame of the burst;
  and once enough is buffered the burst is played in full, in order, after a discarded
  concealment frame that primes the decoder.\<close>

theorem preroll_burst_survives:
  assumes "jitter_ok s" and "ua_started s" and "ua_jitter_buffer s = []" and "ua_next_play_frame s < f"
    and "ps \<noteq> []" and "length ps \<le> PRE_ROLL_FRAMES + 1" and "(f + length ps) * FRAME_US \<le> 2 ^ 64"
    and "fst ` set arrivals = {..<length ps}" and "t = fold (arrive F f q ps) arrivals s"
    and "unat (q - ua_last_played_seq s) = eos + 1" and "f = ua_last_played_frame s + silent + 1"
    and "eos_seen s q \<le> eos" and "eos - eos_seen s q < silent"
    and "(t', pcm) = decode_next_into D now t" and "length ticks = length ps"
  shows "ua_jitter_buffer t = spurt_buffer f q ps \<and> ua_next_play_frame t = ua_next_play_frame s \<and>
    pcm = None \<and> ua_next_play_frame t' = f \<and> ua_jitter_buffer t' = spurt_buffer f q ps \<and>
    (ready_to_play t' \<longrightarrow> snd (play_all D ticks t') = decode_stream D (primed D t') ps)"
proof -
  have lim: "burst_limit s = 6" using assms(2) by (simp add: burst_limit_def MIN_TARGET_FRAMES_def DRIFT_DROP_SLACK_def)
  have "burst_fits f ps s"
    using assms(4,6,7) by (simp add: burst_fits_def lim PRE_ROLL_FRAMES_def)
  note b = burst_buffered [OF assms(1,3,8) this assms(9)]
  have same: "ua_started t" "ua_next_play_frame t = ua_next_play_frame s" "ua_last_played_seq t = ua_last_played_seq s"
    "ua_last_played_frame t = ua_last_played_frame s" "eos_seen t q = eos_seen s q"
    using b(3) assms(2) by (simp_all add: same_stream_def eos_seen_def)
  obtain p rest where ps: "ps = p # rest" using assms(5) by (cases ps) auto
  have buf: "ua_jitter_buffer t = (f, \<lparr>pk_seq = q, pk_opus = p\<rparr>) # spurt_buffer (Suc f) (q + 1) rest"
    using b(2) by (simp add: ps spurt_buffer_Cons)
  have none: "tree_get (ua_jitter_buffer t) (ua_next_play_frame t) = None"
    using assms(4) by (simp add: b(2) get_spurt_buffer same(2))
  have silence: "pcm = None \<and> \<not> ua_started t' \<and> ua_next_play_frame t' = f \<and> ua_jitter_buffer t' = spurt_buffer f q ps"
    using gap_result [OF b(1) same(1) none buf, of 0 eos silent t' pcm D now] assms(10-14) same(3-5) b(2) by simp
  have "snd (play_all D ticks t') = decode_stream D (primed D t') ps" if "ready_to_play t'"
    using play_spurt [OF that _ _ assms(15)] silence by blast
  with silence b(2) same(2) show ?thesis by blast
qed

definition sample_quiet :: "(nat, int, unit) user_audio_state" where
  "sample_quiet = sample_gap\<lparr>ua_jitter_buffer := []\<rparr>"

lemma sample_quiet_simps:
  "jitter_ok sample_quiet" "ua_started sample_quiet" "ua_jitter_buffer sample_quiet = []"
  "ua_next_play_frame sample_quiet = 8" "ua_last_played_seq sample_quiet = 40" "ua_last_played_frame sample_quiet = 7"
  "eos_seen sample_quiet 42 = 1"
  using fresh_peer_simps(1)
  by (simp_all add: sample_quiet_def sample_gap_def jitter_ok_def cursor_ok_def tree_ok_def eos_seen_def)

definition sample_onset :: "bytes list" where
  "sample_onset = [[1], [2], [3]]"

definition sample_onset_arrivals :: "(nat \<times> nat) list" where
  "sample_onset_arrivals = [(2, 0), (0, 0), (1, 0)]"

theorem preroll_burst_survives_witness:
  "ua_jitter_buffer (fold (arrive sample_float 10 42 sample_onset) sample_onset_arrivals sample_quiet) =
     spurt_buffer 10 42 sample_onset"
proof -
  let ?t = "fold (arrive sample_float 10 42 sample_onset) sample_onset_arrivals sample_quiet"
  have d: "(fst (decode_next_into sample_decoder 0 ?t), snd (decode_next_into sample_decoder 0 ?t)) = decode_next_into sample_decoder 0 ?t"
    by simp
  have n: "length sample_onset = 3" and ne: "sample_onset \<noteq> []" by (simp_all add: sample_onset_def)
  have idx: "fst ` set sample_onset_arrivals = {..<length sample_onset}"
    unfolding n by (auto simp: sample_onset_arrivals_def)
  have dist: "unat ((42 :: u32) - 40) = 1 + 1" by simp
  show ?thesis
    by (rule conjunct1 [OF preroll_burst_survives [OF sample_quiet_simps(1-3) _ ne _ _ idx refl _ _ _ _ d, where eos = 1 and silent = 2
      and ticks = "replicate 3 0"]])
      (simp_all only: sample_quiet_simps(4-7) dist n, simp_all add: PRE_ROLL_FRAMES_def FRAME_US_def)
qed

end
