(* ===== verification/Spec2Isabelle.thy ===== *)
theory Spec2Isabelle
  imports Invariants Mirror BridgeSystem ReconcileOrder AudioShown VoicePath
begin

text \<open>
  A verification of rumble, a voice and text chat system: a server that keeps rooms, users and
  permissions and relays voice, clients that keep a copy of its state and capture and play
  speech, and a bridge that lets clients of the Mumble system take part. Sources are named
  relative to \<open>src/crates\<close>.

  \<^bold>\<open>The program.\<close> A client connects over QUIC, proves the possession of its key and is entered in
  the roster (\<open>server/src/handlers.rs\<close>). Its messages are framed protobuf envelopes
  (\<open>rumble-protocol/src/lib.rs\<close>); the server reads them in a loop per stream
  (\<open>server/src/server.rs\<close>), offers them to plugins (\<open>server/src/plugin.rs\<close>) and dispatches them to
  a handler. Handlers check permissions (\<open>server/src/acl.rs\<close>, over the evaluation of
  \<open>rumble-protocol/src/permissions.rs\<close>), call the administrative operations (\<open>server/src/ops.rs\<close>),
  which change the shared state (\<open>server/src/state.rs\<close>) and the database
  (\<open>server/src/persistence.rs\<close>), and announce every change to all clients with the hash of the
  state after it. A client turns announcements into events (\<open>rumble-client/src/handle.rs\<close>) and
  folds them into its snapshot (\<open>rumble-client/src/projection.rs\<close>, \<open>rumble-client/src/events.rs\<close>),
  compares the hash, and asks for the full state when it differs. Voice datagrams are relayed to
  the room of the speaker. The audio task of a client (\<open>rumble-client/src/audio_task.rs\<close>) gates the
  microphone, encodes and numbers its frames, and on the other side reorders, decodes and mixes
  them. The bridge (\<open>mumble-bridge/src\<close>) is a client of the server for which each Mumble user is a
  participant, and a server for Mumble clients, to which it shows rooms and users as channels and
  sessions.

  \<^bold>\<open>Theories.\<close>
  \<^item> \<open>Prelude\<close>: machine words, byte encodings, saturating arithmetic, strings, and the ordered tree
    and concurrent map behind the locale \<open>kv_store\<close>, interpreted on both containers.
  \<^item> \<open>Permissions\<close>: flags as 32-bit words, groups, access lists and the evaluation loop; it agrees
    flag by flag with a declarative reading and is contained by scope and traversal.
  \<^item> \<open>Wire\<close>: identifiers, frames, signed payloads, state and access-list hashes, domain conversions;
    round trips, injectivity of what is signed and hashed, independence of the hash of order.
  \<^item> \<open>Persistence\<close>: the typed trees of the database with a storage fault as a state, groups,
    memberships with expiry, bans and sweeps.
  \<^item> \<open>State\<close>: roster, rooms, memberships, sessions, rate limiters and audio sinks.
  \<^item> \<open>Acl\<close>: the room chain and the permission checks of a connection.
  \<^item> \<open>Effects\<close>: worlds, that is state, database and trace of effects, and the sending primitives.
  \<^item> \<open>Roster\<close>: participants and the teardown of a client.
  \<^item> \<open>Ops\<close>: the administrative operations.
  \<^item> \<open>Auth\<close>, \<open>Chat\<close>, \<open>Rooms\<close>, \<open>Admin\<close>, \<open>Voice\<close>: the handlers; the locale \<open>privileged_handler\<close> states
    what a refused request may do and is interpreted on every handler that is gated.
  \<^item> \<open>Dispatch\<close>: the envelope dispatch with its guards and the plugin hooks.
  \<^item> \<open>Server\<close>: startup, loading, the sweep, connections and the read loop.
  \<^item> \<open>Transitions\<close>: the primitives of state and database as step relations. A primitive that
    authenticates a connection, elevates a handle or makes it a controller needs a grant, and
    \<open>grants\<close> says what a message grants; every handler is a sequence of primitives under the grants
    of its message, plugins are granted nothing. Then the steps of a running server, and the locale
    \<open>server_invariant\<close>.
  \<^item> \<open>Invariants\<close>: its interpretations for the roster, the memberships, the walks up the room tree
    and the absence of a permission overlay.
  \<^item> \<open>ClientState\<close>: the snapshot of a client, the room tree, the chat history format.
  \<^item> \<open>Projection\<close>: the fold of events into the snapshot, the local permission evaluation and the
    hash check.
  \<^item> \<open>Mirror\<close>: the translation of server messages into events, the abstract view both sides
    implement, the locale \<open>room_edit\<close> for announced edits of a room with its four interpretations,
    and that a client which applies the updates stays in step.
  \<^item> \<open>JitterBuffer\<close>: the receiving state of one peer: jitter estimate, buffer, playout cursor, loss
    against silence; it stays bounded, plays a reordered spurt in order, tells silence from loss
    and recovers from a clock that moved back.
  \<^item> \<open>Preroll\<close>: the ring of suppressed frames, with the locale \<open>frame_ring\<close> for what its client relies
    on, interpreted on the ring.
  \<^item> \<open>AudioPipeline\<close>: configuration and processing of chains of processors, the peak limiter.
  \<^item> \<open>AudioTask\<close>: the event loop of a client's audio: commands, the capture callback, sending,
    receiving, mixing, playback, recovery of devices.
  \<^item> \<open>AudioSafety\<close>: in every reachable state a muted microphone is closed and all buffers are bounded.
  \<^item> \<open>AudioShown\<close>: the snapshot folded from the task's events agrees with the task.
  \<^item> \<open>VoicePath\<close>: sender and receiver together, from captured frames to played ones.
  \<^item> \<open>MumbleWire\<close>: frames, variable-length integers and voice packets of the Mumble protocol.
  \<^item> \<open>BridgeMaps\<close>: the two-way number tables of the bridge behind the locale \<open>id_table\<close>, interpreted on
    channels and users, and the table of Mumble clients.
  \<^item> \<open>Reconcile\<close>, \<open>ReconcileOrder\<close>: what is sent when a full state replaces the cached one, that it
    terminates, and that no client ever sees a reference to something it was not told of.
  \<^item> \<open>MumbleServer\<close>: the handshake with a Mumble client and the lists of its initial
    synchronisation.
  \<^item> \<open>Bridge\<close>, \<open>BridgeEvents\<close>: the event loop of the bridge with all its events, and the relay of
    voice and chat in both directions.
  \<^item> \<open>BridgeSync\<close>: that connected and joining Mumble clients are shown the state of the server.
  \<^item> \<open>BridgeSystem\<close>: the tasks of the bridge as interleaved steps and the locale \<open>bridge_invariant\<close>,
    interpreted for the clients, their registrations and the tables.

  \<^bold>\<open>How state and operations correspond.\<close> A Rust struct is a record, an enum a datatype; integers
  keep their width; a \<open>DashMap\<close> or \<open>HashMap\<close> is an association list without repeated keys, a tree
  of the database a sorted one. A handler is a function on worlds; an operation that can fail
  returns a sum with the message of the source on the left. A lock is held for one primitive, so
  primitives are atomic and handlers are sequences of them. Every frame that is sent, every
  stream that is finished and every connection that is closed is an element of the trace. The
  three states of a control stream, flowing, finished and stalled, decide what a write does.

  \<^bold>\<open>Parameters.\<close> Code outside the repository is a field of the environment records \<open>env\<close>,
  \<open>client_env\<close>, \<open>message_env\<close>, \<open>bridge_env\<close>, \<open>mumble_codec\<close>, \<open>audio_env\<close>, \<open>decoder_ops\<close>, \<open>processor_ops\<close> and
  \<open>float_ops\<close> or an argument: hashing, signature verification, password hashing,
  the protobuf encoding of messages and lengths, JSON and hex, the clock, random identifiers,
  floating-point arithmetic, the Opus codec, audio devices, signal processors and the iteration
  order of hash maps. Laws are stated where a property rests on them
  (\<open>delimiter_laws\<close> for the length prefix, interpreted on variable-length integers). Plugins are
  records of functions; \<open>plugin_respects\<close> says that they act through the primitives and
  grant nothing; \<open>draws_fresh\<close> says that a random room identifier is new when it is drawn.

  \<^bold>\<open>Bounds.\<close> Recursion that follows parent links is bounded as in the source: the server walk by
  the number of rooms, the client walk by the set of visited rooms, the tree iterator by the
  number of nodes. \<open>drain_frames\<close> has the length of the buffer as fuel, enough because every frame
  consumes at least one byte; \<open>read_chunk\<close> is proved to return. The breadth-first search for
  descendants is total. The walks of a reconciliation and of the first synchronisation have
  fuel, shown to be enough for snapshots without repeated rooms. The playback ring is filled by a loop with fuel two, shown to be enough. Time is counted
  in nanoseconds; the media clock is a natural number that is truncated to 64 bits in a datagram.

  \<^bold>\<open>Not modelled.\<close> Sockets, TLS, timeouts and the certificate reload beyond its effect on the
  state; raw trees for plugins and the flush; the connection task of the client and its
  reconnection; the backoff of the bridge; audio devices, codecs, level meters and the individual
  signal processors, which are parameters; the graphical and web front ends; the link cleaner,
  file relay and echo plugins. Waiting on a lock and the scheduling of tasks appear only as the
  order of steps; the callbacks of the audio devices are steps of the audio task. The
  reconnection of the bridge takes its lock several times and is one step here. The counters and
  time stamps of the audio task are natural numbers, without the wrap of their 64 bits. A declared
  frame length near the limit of 64 bits makes the frame decoder panic (\<open>frame_panics\<close>); the read
  loop is modelled for the other buffers.
\<close>

section \<open>The whole server\<close>




text \<open>C2: Privileges come only through their gates. While any message is handled, in a server with
  distinct room identifiers, with plugins that act through the primitives and grant nothing, and
  with room identifiers that are new when drawn: a connection that becomes authenticated is the
  sender's own and the message is an answer to the challenge; a handle that becomes superuser is
  the sender's, authenticated, with the SUDO permission at the root and a password that matches the
  stored hash; a handle that becomes a controller is the sender's, authenticated, with the
  permission to manage participants. The permissions and the stored hash are those found after the
  plugins have seen the message.\<close>

theorem privileges_only_by_their_gates:
  assumes "list_all plugin_respects plugins" and "draws_fresh e plugins ev h w" and "distinct_rooms (w_state w)"
    and "w1 = snd (try_plugins plugins ev h w)" and "w' = snd (handle_envelope e plugins ev h w)"
  shows "(conn_authenticated (w_state w') u \<longrightarrow> conn_authenticated (w_state w) u \<or>
       u = handle_uid (w_state w1) h \<and> (\<exists>a. env_payload ev = Some (Authenticate a))) \<and>
     (is_superuser (handles (w_state w') k) \<longrightarrow> is_superuser (handles (w_state w) k) \<or>
       k = h \<and> sender_authenticated h w1 \<and>
       check_permission (debug_flags e) (w_state w1) h 0 SUDO (w_persist w1) = Inr () \<and>
       (\<exists>pw hash. env_payload ev = Some (Elevate pw) \<and> get_sudo_password (w_persist w1) = Some hash \<and>
          bcrypt_verify e pw hash)) \<and>
     (is_controller (handles (w_state w') k) \<longrightarrow> is_controller (handles (w_state w) k) \<or>
       k = h \<and> sender_authenticated h w1 \<and> (\<exists>n. env_payload ev = Some (ControllerHello n)) \<and>
       check_permission (debug_flags e) (w_state w1) h 0 MANAGE_PARTICIPANTS (w_persist w1) = Inr ())"
  using evolves_grants [OF evolves_envelope [OF assms(1-4)]] unfolding assms(5) grants_iff by blast

theorem privileges_only_by_their_gates_witness:
  "\<not> is_superuser (handles (w_state (snd (handle_envelope sample_env []
     \<lparr>env_state_hash = [], env_payload = Some (Elevate ''guess'')\<rparr> 0
     (sample_world\<lparr>w_persist := sample_persist\<lparr>p_sudo_password := Some ''secret''\<rparr>\<rparr>)))) 0)"
proof -
  let ?w = "sample_world\<lparr>w_persist := sample_persist\<lparr>p_sudo_password := Some ''secret''\<rparr>\<rparr>"
  have "fresh_room (new_v4 sample_env) (w_state ?w)"
    by (simp add: fresh_room_def sample_env_def sample_world_def sample_state_def ROOT_ROOM_UUID_def new_room_def)
  then have f: "draws_fresh sample_env [] ev 0 ?w" for ev by (simp add: draws_fresh_def)
  have d: "distinct_rooms (w_state ?w)"
    by (simp add: distinct_rooms_def sample_world_def sample_state_def new_room_def)
  have "\<not> is_superuser (handles (w_state ?w) 0)" by code_simp
  moreover have "get_sudo_password (w_persist ?w) = Some hash \<Longrightarrow> \<not> bcrypt_verify sample_env ''guess'' hash" for hash
    by (auto simp: sample_env_def get_sudo_password_def)
  ultimately show ?thesis
    using privileges_only_by_their_gates [OF _ f [of "\<lparr>env_state_hash = [], env_payload = Some (Elevate ''guess'')\<rparr>"]
        d refl refl, where k = 0]
    by auto
qed

section \<open>Server and clients\<close>

lemma server_ok_mirror: "server_ok w \<Longrightarrow> listens h (w_state w) \<Longrightarrow> mirror_ok h (w_state w)"
  by (auto simp: server_ok_def mirror_ok_def hash_ok_def handles_ok_def distinct_rooms_def membership_ok_def
      plain_rooms_def roster_ok_def get_rooms_def)

text \<open>C3: A client that listens stays in step. In a consistent server, let a request to create,
  rename, move, describe or delete a room, to edit an access list, to change a status or to
  join a room be handled, under the circumstances in which the announcements are complete. A
  client whose copy agreed with the server before, and that applies the updates its connection
  receives in order, agrees with the server afterwards; every hash checkpoint on the way
  passes, so that it never asks for a resynchronisation.\<close>

theorem clients_stay_in_step:
  assumes "server_ok w" and "listens h (w_state w)" and "announced_fully e pl sender w"
    and "client_view c = server_view (w_state w)" and "client_ok c" and "same_hashing e ce"
    and "w' = snd (dispatch_payload e plugins pl sender w)"
  shows "\<exists>es. w_trace w' = w_trace w @ es \<and>
    (\<exists>c' fs. receive_updates ce (updates_to h es) c = (c', fs) \<and>
       client_view c' = server_view (w_state w') \<and> client_ok c' \<and> no_resync fs)"
  unfolding assms(7)
  by (rule in_step_client [OF in_step_dispatch [OF assms(3) server_ok_mirror [OF assms(1,2)]] assms(4-6)])

theorem clients_stay_in_step_witness:
  "\<exists>es. w_trace (snd (dispatch_payload sample_env [] (RenameRoom (Some (room_id_from_uuid 5)) ''Hall'') 0 sample_world)) =
       w_trace sample_world @ es \<and>
     no_resync (snd (receive_updates sample_client_env (updates_to 1 es) sample_client))"
proof -
  have "listens 1 (w_state sample_world)"
    by (simp add: listens_def sample_world_def sample_state_def snapshot_clients_def member_client_def
        client_handle_new_def)
  moreover have "announced_fully sample_env (RenameRoom (Some (room_id_from_uuid 5)) ''Hall'') 0 sample_world"
    by (simp add: announced_fully_def)
  moreover have "client_view sample_client = server_view (w_state sample_world)"
    by (simp add: sample_client_def snapshot_view sample_world_def)
  moreover have "client_ok sample_client" by (rule sample_client_ok)
  ultimately show ?thesis
    using clients_stay_in_step [OF server_ok_sample _ _ _ _ sample_same_hashing refl, of 1
        "RenameRoom (Some (room_id_from_uuid 5)) ''Hall''" 0 sample_client "[]"]
    by fastforce
qed

end
